(* ===== verification/Ast.thy ===== *)
theory Ast
  imports Prelude
begin

text \<open>
  The data the compiler puts into a chunk: source spans (\<open>src/src/span.rs\<close>), type
  annotations, field-default expressions and parameters (\<open>src/src/ast.rs\<close>), constant-pool
  values with enum definitions and class templates (\<open>src/src/value.rs\<close>), and the upvalue
  descriptors of the resolver (\<open>src/src/syntax/resolve/types.rs\<close>).

  An \<open>i64\<close> is a 64-bit word read through \<^const>\<open>sint\<close>; an \<open>f64\<close> is its bit pattern; a
  \<open>Decimal\<close> (crate \<open>rust_decimal\<close>) is its 16-byte serialized form.  An \<open>IndexMap\<close> is its
  list of entries in insertion order.
\<close>

section \<open>Spans and types\<close>

record span =
  sp_start :: u64
  sp_end :: u64

definition span_new :: "u64 \<Rightarrow> u64 \<Rightarrow> span" where
  "span_new s e = \<lparr>sp_start = s, sp_end = e\<rparr>"

datatype ty =
    TyNumber | TyInt | TyFloat | TyString | TyBool | TyNil | TyAny | TyFn | TyObject | TyError
  | TyArray ty
  | TyResult ty
  | TyTuple "ty list"
  | TyUnion ty ty
  | TyNamed rstring
  | TyMap ty ty
  | TyFuture ty
  | TyOptional ty
  | TyParam rstring
  | TyFnSig "ty list" ty

section \<open>Expressions\<close>

datatype bin_op =
    BAdd | BSub | BMul | BDiv | BMod | BPow | BLt | BLe | BGt | BGe | BEq | BNe
  | BAnd | BOr | BCoalesce | BRange | BInstanceOf
  | BBitAnd | BBitOr | BBitXor | BShl | BShr | BWrapAdd | BWrapSub | BWrapMul

datatype un_op = UNeg | UNot | UBitNot

datatype 'e array_elem = ElemItem 'e | ElemSpread 'e

datatype 'e obj_entry = EntryKV rstring 'e | EntrySpread 'e

datatype 'e call_arg = ArgPos 'e | ArgSpread 'e | ArgNamed rstring 'e

datatype 'e template_part = PartLit rstring | PartExpr 'e

text \<open>
  \<open>ExprKind\<close>.  An arrow function, a \<open>match\<close> and a \<open>yield\<close> are never written as an
  expression by the serializer (their source text is), so their contents stay opaque: the
  constructors carry a token that distinguishes two of them.
\<close>

datatype expr = Expr (ex_kind: expr_kind) (ex_span: span)
and expr_kind =
    EInt u64
  | EFloat u64
  | EStr rstring
  | EBool bool
  | ENil
  | EIdent rstring
  | EUnary un_op expr
  | EBinary bin_op expr expr
  | ECall expr "expr call_arg list" bool
  | EAssign expr expr
  | EArrow nat
  | EArray "expr array_elem list"
  | EIndex expr expr
  | EObject "expr obj_entry list"
  | EMap "(expr \<times> expr) list"
  | EMember expr rstring
  | EOptMember expr rstring
  | ETry expr
  | EUnwrap expr
  | ETernary expr expr expr
  | ETemplate "expr template_part list"
  | EMatch nat
  | EAwait expr
  | EYield nat
  | EParen expr
  | ERange expr expr bool "expr option"

record param =
  p_name :: rstring
  p_ty :: "ty option"
  p_name_span :: span
  p_rest :: bool
  p_default :: "expr option"

section \<open>Constant-pool values\<close>

type_synonym decimal = bytes

datatype variant_schema = VariantSchema (vs_fields: "(rstring option \<times> ty) list")

text \<open>
  \<open>Value\<close>, with the kinds the constant pool can serialize spelled out.  The remaining kinds
  are run-time handles; \<open>other_kind\<close> lists them.
\<close>

datatype other_kind =
    KBuiltin | KFunction | KClosure | KObject | KMap | KSet | KBytes | KRegex | KNative
  | KNativeMethod | KClass | KInterface | KInstance | KBoundMethod | KSuper | KFuture
  | KGenerator | KGeneratorMethod | KClassMethod | KShared

datatype val =
    VNil
  | VBool bool
  | VInt u64
  | VFloat u64
  | VDecimal decimal
  | VStr rstring
  | VArray "val list"
  | VEnum enum_def
  | VEnumVariant enum_variant
  | VOther other_kind
and enum_def =
  EnumDef (ed_name: rstring) (ed_variants: "(rstring \<times> val) list")
    (ed_schemas: "(rstring \<times> variant_schema) list")
and enum_variant =
  EnumVariant (ev_enum_name: rstring) (ev_name: rstring) (ev_value: val)
    (ev_payload: "payload option") (ev_ctor: bool) (ev_def: "enum_def option")
and payload = Positional "val list" | Named "(rstring \<times> val) list"

section \<open>Classes, interfaces, imports, upvalues\<close>

record field_schema =
  fs_ty :: ty
  fs_default :: "expr option"

text \<open>
  The compile-time class template of a \<open>ClassProto\<close>.  Its superclass, method tables and
  defining environment are filled by the run loop when the class statement runs, so they are
  absent from the template.
\<close>

record class_template =
  cl_name :: rstring
  cl_fields :: "(rstring \<times> field_schema) list"
  cl_is_worker :: bool

record class_proto =
  cp_class :: class_template
  cp_default_fields :: "rstring list"
  cp_default_captures :: "(rstring \<times> u16) list list"
  cp_default_sources :: "(rstring \<times> rstring) list"
  cp_method_names :: "rstring list"
  cp_static_method_names :: "rstring list"
  cp_has_super :: bool

record interface_proto =
  ip_name :: rstring
  ip_methods :: "(rstring \<times> nat \<times> bool) list"
  ip_extends :: "rstring list"

datatype import_desc =
    ImportNamed (imp_source: rstring) "(rstring \<times> u16 \<times> bool \<times> bool) list"
  | ImportNamespace (imp_source: rstring) rstring u16 bool bool

datatype upvalue_descriptor =
    ParentLocal u32 bool
  | ParentUpvalue u32

end
