(* ===== verification/Opcode.thy ===== *)
theory Opcode
  imports Prelude
begin

text \<open>
  The instruction set of the bytecode VM (\<open>src/src/vm/opcode.rs\<close>): the \<open>Op\<close> enum with
  its \<open>repr(u8)\<close> discriminants, the decoder \<open>Op::from_u8\<close>, the inline operand width of
  every op and the inline-cache predicate.  The lemmas show that the decoder inverts the
  discriminant and rejects exactly the bytes that are no discriminant, so an opcode byte has
  at most one reading.
\<close>

text \<open>The \<open>Op\<close> enum, in declaration order; \<open>Op_X\<close> is the source's \<open>Op::X\<close>.\<close>

datatype (plugins only: size) op =
    Op_Const | Op_Nil | Op_True | Op_False | Op_Pop | Op_Dup | Op_Swap | Op_Rot3 |
    Op_GetLocal | Op_SetLocal | Op_GetUpvalue | Op_SetUpvalue | Op_CloseUpvalue |
    Op_GetGlobal | Op_DefineGlobal | Op_SetGlobal | Op_ImmutableError | Op_Add | Op_Sub |
    Op_Mul | Op_Div | Op_Mod | Op_Pow | Op_Neg | Op_Not | Op_Eq | Op_Ne | Op_Lt | Op_Le |
    Op_Gt | Op_Ge | Op_Range | Op_RangeInclusive | Op_CheckNumbers | Op_RangeStepValue |
    Op_RangeResolveStep | Op_RangeHasNext | Op_Jump | Op_JumpIfFalse | Op_JumpIfTrue |
    Op_JumpIfNotNil | Op_Loop | Op_JumpIfArgSupplied | Op_CheckParam | Op_Call |
    Op_CallMethod | Op_CallMethodSpread | Op_Return | Op_Closure | Op_NewArray | Op_NewObject |
    Op_NewMap | Op_MapEntry | Op_Spread | Op_SpreadArgs | Op_AppendArray | Op_AppendObject |
    Op_SpreadObject | Op_CallSpread | Op_GetIndex | Op_SetIndex | Op_GetProp | Op_SetProp |
    Op_GetPropOpt | Op_Class | Op_DefineInterface | Op_Method | Op_GetSuper | Op_InstanceOf |
    Op_InstanceOfType | Op_Template | Op_Await | Op_Yield | Op_MakeGenerator | Op_Propagate |
    Op_Unwrap | Op_Import | Op_GetIter | Op_IterNext | Op_IterClose | Op_IterSnapshot |
    Op_ArrayLen | Op_GetLocalCell | Op_SetLocalCell | Op_FreshCell | Op_CheckArrayDestructure |
    Op_CheckObjectDestructure | Op_ArrayElem | Op_ObjectKey | Op_ArrayRest | Op_ObjectRest |
    Op_MatchArray | Op_MatchObject | Op_MatchHasKey | Op_MatchRange | Op_MatchNoArm |
    Op_DefineExport | Op_BitAnd | Op_BitOr | Op_BitXor | Op_Shl | Op_Shr | Op_BitNot |
    Op_WrapAdd | Op_WrapSub | Op_WrapMul | Op_CheckLocal | Op_MatchVariant | Op_VariantElem |
    Op_VariantField | Op_MatchVariantArity | Op_MatchVariantHasField | Op_CallNamed |
    Op_AppendNamedArg | Op_AppendPosArg | Op_AppendSpreadArg | Op_CallNamedSpread | Op_Break |
    Op_DeferPush | Op_DeferPushMethod | Op_CallElided

text \<open>\<open>op as u8\<close>: the discriminants of the \<open>repr(u8)\<close> enum, the declaration positions.\<close>

primrec op_as_u8 :: "op \<Rightarrow> u8" where
  "op_as_u8 Op_Const = 0"
| "op_as_u8 Op_Nil = 1"
| "op_as_u8 Op_True = 2"
| "op_as_u8 Op_False = 3"
| "op_as_u8 Op_Pop = 4"
| "op_as_u8 Op_Dup = 5"
| "op_as_u8 Op_Swap = 6"
| "op_as_u8 Op_Rot3 = 7"
| "op_as_u8 Op_GetLocal = 8"
| "op_as_u8 Op_SetLocal = 9"
| "op_as_u8 Op_GetUpvalue = 10"
| "op_as_u8 Op_SetUpvalue = 11"
| "op_as_u8 Op_CloseUpvalue = 12"
| "op_as_u8 Op_GetGlobal = 13"
| "op_as_u8 Op_DefineGlobal = 14"
| "op_as_u8 Op_SetGlobal = 15"
| "op_as_u8 Op_ImmutableError = 16"
| "op_as_u8 Op_Add = 17"
| "op_as_u8 Op_Sub = 18"
| "op_as_u8 Op_Mul = 19"
| "op_as_u8 Op_Div = 20"
| "op_as_u8 Op_Mod = 21"
| "op_as_u8 Op_Pow = 22"
| "op_as_u8 Op_Neg = 23"
| "op_as_u8 Op_Not = 24"
| "op_as_u8 Op_Eq = 25"
| "op_as_u8 Op_Ne = 26"
| "op_as_u8 Op_Lt = 27"
| "op_as_u8 Op_Le = 28"
| "op_as_u8 Op_Gt = 29"
| "op_as_u8 Op_Ge = 30"
| "op_as_u8 Op_Range = 31"
| "op_as_u8 Op_RangeInclusive = 32"
| "op_as_u8 Op_CheckNumbers = 33"
| "op_as_u8 Op_RangeStepValue = 34"
| "op_as_u8 Op_RangeResolveStep = 35"
| "op_as_u8 Op_RangeHasNext = 36"
| "op_as_u8 Op_Jump = 37"
| "op_as_u8 Op_JumpIfFalse = 38"
| "op_as_u8 Op_JumpIfTrue = 39"
| "op_as_u8 Op_JumpIfNotNil = 40"
| "op_as_u8 Op_Loop = 41"
| "op_as_u8 Op_JumpIfArgSupplied = 42"
| "op_as_u8 Op_CheckParam = 43"
| "op_as_u8 Op_Call = 44"
| "op_as_u8 Op_CallMethod = 45"
| "op_as_u8 Op_CallMethodSpread = 46"
| "op_as_u8 Op_Return = 47"
| "op_as_u8 Op_Closure = 48"
| "op_as_u8 Op_NewArray = 49"
| "op_as_u8 Op_NewObject = 50"
| "op_as_u8 Op_NewMap = 51"
| "op_as_u8 Op_MapEntry = 52"
| "op_as_u8 Op_Spread = 53"
| "op_as_u8 Op_SpreadArgs = 54"
| "op_as_u8 Op_AppendArray = 55"
| "op_as_u8 Op_AppendObject = 56"
| "op_as_u8 Op_SpreadObject = 57"
| "op_as_u8 Op_CallSpread = 58"
| "op_as_u8 Op_GetIndex = 59"
| "op_as_u8 Op_SetIndex = 60"
| "op_as_u8 Op_GetProp = 61"
| "op_as_u8 Op_SetProp = 62"
| "op_as_u8 Op_GetPropOpt = 63"
| "op_as_u8 Op_Class = 64"
| "op_as_u8 Op_DefineInterface = 65"
| "op_as_u8 Op_Method = 66"
| "op_as_u8 Op_GetSuper = 67"
| "op_as_u8 Op_InstanceOf = 68"
| "op_as_u8 Op_InstanceOfType = 69"
| "op_as_u8 Op_Template = 70"
| "op_as_u8 Op_Await = 71"
| "op_as_u8 Op_Yield = 72"
| "op_as_u8 Op_MakeGenerator = 73"
| "op_as_u8 Op_Propagate = 74"
| "op_as_u8 Op_Unwrap = 75"
| "op_as_u8 Op_Import = 76"
| "op_as_u8 Op_GetIter = 77"
| "op_as_u8 Op_IterNext = 78"
| "op_as_u8 Op_IterClose = 79"
| "op_as_u8 Op_IterSnapshot = 80"
| "op_as_u8 Op_ArrayLen = 81"
| "op_as_u8 Op_GetLocalCell = 82"
| "op_as_u8 Op_SetLocalCell = 83"
| "op_as_u8 Op_FreshCell = 84"
| "op_as_u8 Op_CheckArrayDestructure = 85"
| "op_as_u8 Op_CheckObjectDestructure = 86"
| "op_as_u8 Op_ArrayElem = 87"
| "op_as_u8 Op_ObjectKey = 88"
| "op_as_u8 Op_ArrayRest = 89"
| "op_as_u8 Op_ObjectRest = 90"
| "op_as_u8 Op_MatchArray = 91"
| "op_as_u8 Op_MatchObject = 92"
| "op_as_u8 Op_MatchHasKey = 93"
| "op_as_u8 Op_MatchRange = 94"
| "op_as_u8 Op_MatchNoArm = 95"
| "op_as_u8 Op_DefineExport = 96"
| "op_as_u8 Op_BitAnd = 97"
| "op_as_u8 Op_BitOr = 98"
| "op_as_u8 Op_BitXor = 99"
| "op_as_u8 Op_Shl = 100"
| "op_as_u8 Op_Shr = 101"
| "op_as_u8 Op_BitNot = 102"
| "op_as_u8 Op_WrapAdd = 103"
| "op_as_u8 Op_WrapSub = 104"
| "op_as_u8 Op_WrapMul = 105"
| "op_as_u8 Op_CheckLocal = 106"
| "op_as_u8 Op_MatchVariant = 107"
| "op_as_u8 Op_VariantElem = 108"
| "op_as_u8 Op_VariantField = 109"
| "op_as_u8 Op_MatchVariantArity = 110"
| "op_as_u8 Op_MatchVariantHasField = 111"
| "op_as_u8 Op_CallNamed = 112"
| "op_as_u8 Op_AppendNamedArg = 113"
| "op_as_u8 Op_AppendPosArg = 114"
| "op_as_u8 Op_AppendSpreadArg = 115"
| "op_as_u8 Op_CallNamedSpread = 116"
| "op_as_u8 Op_Break = 117"
| "op_as_u8 Op_DeferPush = 118"
| "op_as_u8 Op_DeferPushMethod = 119"
| "op_as_u8 Op_CallElided = 120"

text \<open>\<open>Op::operand_width\<close>: the number of inline operand bytes after the opcode byte.\<close>

primrec operand_width :: "op \<Rightarrow> nat" where
  "operand_width Op_Const = 2"
| "operand_width Op_Nil = 0"
| "operand_width Op_True = 0"
| "operand_width Op_False = 0"
| "operand_width Op_Pop = 0"
| "operand_width Op_Dup = 0"
| "operand_width Op_Swap = 0"
| "operand_width Op_Rot3 = 0"
| "operand_width Op_GetLocal = 2"
| "operand_width Op_SetLocal = 2"
| "operand_width Op_GetUpvalue = 2"
| "operand_width Op_SetUpvalue = 2"
| "operand_width Op_CloseUpvalue = 2"
| "operand_width Op_GetGlobal = 2"
| "operand_width Op_DefineGlobal = 3"
| "operand_width Op_SetGlobal = 2"
| "operand_width Op_ImmutableError = 2"
| "operand_width Op_Add = 0"
| "operand_width Op_Sub = 0"
| "operand_width Op_Mul = 0"
| "operand_width Op_Div = 0"
| "operand_width Op_Mod = 0"
| "operand_width Op_Pow = 0"
| "operand_width Op_Neg = 0"
| "operand_width Op_Not = 0"
| "operand_width Op_Eq = 0"
| "operand_width Op_Ne = 0"
| "operand_width Op_Lt = 0"
| "operand_width Op_Le = 0"
| "operand_width Op_Gt = 0"
| "operand_width Op_Ge = 0"
| "operand_width Op_Range = 0"
| "operand_width Op_RangeInclusive = 0"
| "operand_width Op_CheckNumbers = 0"
| "operand_width Op_RangeStepValue = 1"
| "operand_width Op_RangeResolveStep = 1"
| "operand_width Op_RangeHasNext = 1"
| "operand_width Op_Jump = 2"
| "operand_width Op_JumpIfFalse = 2"
| "operand_width Op_JumpIfTrue = 2"
| "operand_width Op_JumpIfNotNil = 2"
| "operand_width Op_Loop = 2"
| "operand_width Op_JumpIfArgSupplied = 4"
| "operand_width Op_CheckParam = 2"
| "operand_width Op_Call = 1"
| "operand_width Op_CallMethod = 3"
| "operand_width Op_CallMethodSpread = 2"
| "operand_width Op_Return = 0"
| "operand_width Op_Closure = 2"
| "operand_width Op_NewArray = 2"
| "operand_width Op_NewObject = 2"
| "operand_width Op_NewMap = 0"
| "operand_width Op_MapEntry = 0"
| "operand_width Op_Spread = 0"
| "operand_width Op_SpreadArgs = 0"
| "operand_width Op_AppendArray = 0"
| "operand_width Op_AppendObject = 0"
| "operand_width Op_SpreadObject = 0"
| "operand_width Op_CallSpread = 0"
| "operand_width Op_GetIndex = 0"
| "operand_width Op_SetIndex = 0"
| "operand_width Op_GetProp = 2"
| "operand_width Op_SetProp = 2"
| "operand_width Op_GetPropOpt = 2"
| "operand_width Op_Class = 2"
| "operand_width Op_DefineInterface = 2"
| "operand_width Op_Method = 2"
| "operand_width Op_GetSuper = 2"
| "operand_width Op_InstanceOf = 0"
| "operand_width Op_InstanceOfType = 2"
| "operand_width Op_Template = 2"
| "operand_width Op_Await = 0"
| "operand_width Op_Yield = 0"
| "operand_width Op_MakeGenerator = 0"
| "operand_width Op_Propagate = 0"
| "operand_width Op_Unwrap = 0"
| "operand_width Op_Import = 2"
| "operand_width Op_GetIter = 0"
| "operand_width Op_IterNext = 0"
| "operand_width Op_IterClose = 0"
| "operand_width Op_IterSnapshot = 0"
| "operand_width Op_ArrayLen = 0"
| "operand_width Op_GetLocalCell = 2"
| "operand_width Op_SetLocalCell = 2"
| "operand_width Op_FreshCell = 2"
| "operand_width Op_CheckArrayDestructure = 0"
| "operand_width Op_CheckObjectDestructure = 0"
| "operand_width Op_ArrayElem = 2"
| "operand_width Op_ObjectKey = 2"
| "operand_width Op_ArrayRest = 2"
| "operand_width Op_ObjectRest = 2"
| "operand_width Op_MatchArray = 3"
| "operand_width Op_MatchObject = 0"
| "operand_width Op_MatchHasKey = 2"
| "operand_width Op_MatchRange = 1"
| "operand_width Op_MatchNoArm = 0"
| "operand_width Op_DefineExport = 2"
| "operand_width Op_BitAnd = 0"
| "operand_width Op_BitOr = 0"
| "operand_width Op_BitXor = 0"
| "operand_width Op_Shl = 0"
| "operand_width Op_Shr = 0"
| "operand_width Op_BitNot = 0"
| "operand_width Op_WrapAdd = 0"
| "operand_width Op_WrapSub = 0"
| "operand_width Op_WrapMul = 0"
| "operand_width Op_CheckLocal = 2"
| "operand_width Op_MatchVariant = 2"
| "operand_width Op_VariantElem = 2"
| "operand_width Op_VariantField = 2"
| "operand_width Op_MatchVariantArity = 2"
| "operand_width Op_MatchVariantHasField = 2"
| "operand_width Op_CallNamed = 3"
| "operand_width Op_AppendNamedArg = 2"
| "operand_width Op_AppendPosArg = 0"
| "operand_width Op_AppendSpreadArg = 0"
| "operand_width Op_CallNamedSpread = 0"
| "operand_width Op_Break = 0"
| "operand_width Op_DeferPush = 2"
| "operand_width Op_DeferPushMethod = 4"
| "operand_width Op_CallElided = 1"

text \<open>The arms of the match in \<open>Op::from_u8\<close>, in order; each arm tests \<open>b == X as u8\<close>.\<close>

definition from_u8_arms :: "op list" where
  "from_u8_arms = [
    Op_Const, Op_Nil, Op_True, Op_False, Op_Pop, Op_Dup, Op_Swap, Op_Rot3, Op_GetLocal,
    Op_SetLocal, Op_GetUpvalue, Op_SetUpvalue, Op_CloseUpvalue, Op_GetGlobal, Op_DefineGlobal,
    Op_SetGlobal, Op_ImmutableError, Op_Add, Op_Sub, Op_Mul, Op_Div, Op_Mod, Op_Pow, Op_Neg,
    Op_Not, Op_Eq, Op_Ne, Op_Lt, Op_Le, Op_Gt, Op_Ge, Op_Range, Op_RangeInclusive,
    Op_CheckNumbers, Op_RangeStepValue, Op_RangeResolveStep, Op_RangeHasNext, Op_Jump,
    Op_JumpIfFalse, Op_JumpIfTrue, Op_JumpIfNotNil, Op_Loop, Op_JumpIfArgSupplied,
    Op_CheckParam, Op_Call, Op_CallMethod, Op_CallMethodSpread, Op_Return, Op_Closure,
    Op_NewArray, Op_NewObject, Op_NewMap, Op_MapEntry, Op_Spread, Op_SpreadArgs,
    Op_AppendArray, Op_AppendObject, Op_SpreadObject, Op_CallSpread, Op_GetIndex, Op_SetIndex,
    Op_GetProp, Op_SetProp, Op_GetPropOpt, Op_Class, Op_DefineInterface, Op_Method,
    Op_GetSuper, Op_InstanceOf, Op_InstanceOfType, Op_Template, Op_Await, Op_Yield,
    Op_MakeGenerator, Op_Propagate, Op_Unwrap, Op_Import, Op_GetIter, Op_IterNext,
    Op_IterClose, Op_IterSnapshot, Op_ArrayLen, Op_GetLocalCell, Op_SetLocalCell, Op_FreshCell,
    Op_CheckArrayDestructure, Op_CheckObjectDestructure, Op_ArrayElem, Op_ObjectKey,
    Op_ArrayRest, Op_ObjectRest, Op_MatchArray, Op_MatchObject, Op_MatchHasKey, Op_MatchRange,
    Op_MatchNoArm, Op_DefineExport, Op_BitAnd, Op_BitOr, Op_BitXor, Op_Shl, Op_Shr, Op_BitNot,
    Op_WrapAdd, Op_WrapSub, Op_WrapMul, Op_CheckLocal, Op_MatchVariant, Op_VariantElem,
    Op_VariantField, Op_MatchVariantArity, Op_MatchVariantHasField, Op_CallNamed,
    Op_AppendNamedArg, Op_AppendPosArg, Op_AppendSpreadArg, Op_CallNamedSpread, Op_Break,
    Op_DeferPush, Op_DeferPushMethod, Op_CallElided]"

definition from_u8 :: "u8 \<Rightarrow> op option" where
  "from_u8 b = List.find (\<lambda>x. b = op_as_u8 x) from_u8_arms"

definition has_inline_cache :: "op \<Rightarrow> bool" where
  "has_inline_cache op \<longleftrightarrow> op \<in> {Op_Add, Op_GetGlobal, Op_GetProp, Op_SetProp, Op_Call}"

section \<open>The decoder inverts the discriminant\<close>

lemma op_in_arms: "op \<in> set from_u8_arms"
  by (cases op) (simp_all add: from_u8_arms_def)

lemma from_u8_as_u8 [simp]: "from_u8 (op_as_u8 op) = Some op"
  by (cases op) (simp_all add: from_u8_def from_u8_arms_def)

lemma from_u8_Some: "from_u8 b = Some op \<Longrightarrow> op_as_u8 op = b"
  by (auto simp: from_u8_def find_Some_iff)

lemma op_as_u8_inject [simp]: "op_as_u8 a = op_as_u8 b \<longleftrightarrow> a = b"
  by (metis from_u8_as_u8 option.inject)

lemma op_as_u8_bound: "unat (op_as_u8 op) < 121"
  by (cases op) simp_all

lemma operand_width_le_4: "operand_width op \<le> 4"
  by (cases op) simp_all

instantiation op :: equal
begin

definition equal_op :: "op \<Rightarrow> op \<Rightarrow> bool" where
  "equal_op a b \<longleftrightarrow> op_as_u8 a = op_as_u8 b"

instance
  by standard (simp add: equal_op_def)

end

instance op :: finite
proof
  show "finite (UNIV :: op set)"
    by (rule finite_subset [of _ "set from_u8_arms"]) (auto simp: op_in_arms)
qed

lemma from_u8_arms_bytes: "map op_as_u8 from_u8_arms = map of_nat [0..<121]"
  by (simp add: from_u8_arms_def upt_rec)

lemma from_u8_defined: "unat b < 121 \<Longrightarrow> from_u8 b \<noteq> None"
proof -
  assume "unat b < 121"
  then have "b \<in> set (map op_as_u8 from_u8_arms)"
    unfolding from_u8_arms_bytes by (auto intro!: image_eqI [of _ _ "unat b"])
  then show ?thesis
    by (auto simp: from_u8_def find_None_iff)
qed

lemma from_u8_None: "from_u8 b = None \<longleftrightarrow> 121 \<le> unat b"
  by (metis from_u8_Some from_u8_defined linorder_not_less not_None_eq op_as_u8_bound)

text \<open>
  The opcode byte and the op determine each other: \<open>Op::from_u8\<close> answers an op exactly when
  the byte is that op's discriminant, and refuses exactly the bytes from 121 on.
\<close>

theorem from_u8_exact:
  "(from_u8 b = Some op \<longleftrightarrow> b = op_as_u8 op) \<and> (from_u8 b = None \<longleftrightarrow> 121 \<le> unat b)"
  using from_u8_Some from_u8_None by auto

end
