(* ===== verification/Chunk.thy ===== *)
theory Chunk
  imports Ast Opcode
begin

text \<open>
  The compilation unit of the VM (\<open>src/src/vm/chunk.rs\<close>): a chunk is one function's code
  bytes with its constant, prototype, class, import and type tables, its span table and its
  sticky capacity overflow.  The emitters, the jump patcher, the table builders, the operand
  readers, the debugger's byte patch and the line table are modelled.

  \<open>Chunk\<close> and \<open>FnProto\<close> are mutually recursive structs in Rust.  Here the record
  \<open>chunk_flat\<close> holds every field of a chunk but its prototype table, the datatype
  \<open>fn_proto\<close> closes the recursion, and \<open>chunk\<close> extends the flat record by the table.  The
  run-time caches of a chunk (inline, arithmetic, global and literal-shape caches, the decoded
  form) are no part of the record: they start empty, are never serialized, and the theories
  of the caches model them.
\<close>

section \<open>Limits and errors\<close>

datatype chunk_limit =
    LimConsts span | LimProtos span | LimClassProtos span | LimImports span
  | LimTypeConsts span | LimJump span | LimLoop span

primrec limit_span :: "chunk_limit \<Rightarrow> span" where
  "limit_span (LimConsts s) = s"
| "limit_span (LimProtos s) = s"
| "limit_span (LimClassProtos s) = s"
| "limit_span (LimImports s) = s"
| "limit_span (LimTypeConsts s) = s"
| "limit_span (LimJump s) = s"
| "limit_span (LimLoop s) = s"

primrec limit_message :: "chunk_limit \<Rightarrow> string" where
  "limit_message (LimConsts _) =
     ''module exceeds 65535 constants; split the module into smaller files''"
| "limit_message (LimProtos _) =
     ''module exceeds 65535 function definitions; split the module into smaller files''"
| "limit_message (LimClassProtos _) =
     ''module exceeds 65535 class definitions; split the module into smaller files''"
| "limit_message (LimImports _) =
     ''module exceeds 65535 imports; split the module into smaller files''"
| "limit_message (LimTypeConsts _) =
     ''module exceeds 65535 annotated-binding type contracts; split the module into smaller files''"
| "limit_message (LimJump _) =
     ''function body too large to compile (a single jump exceeds 32 KB of bytecode); split it into smaller functions''"
| "limit_message (LimLoop _) =
     ''function body too large to compile (a single jump exceeds 32 KB of bytecode); split it into smaller functions''"

definition into_message_span :: "chunk_limit \<Rightarrow> string \<times> span" where
  "into_message_span l = (limit_message l, limit_span l)"

section \<open>The structs\<close>

record source_info =
  si_path :: rstring
  si_text :: rstring

record chunk_flat =
  c_code :: bytes
  c_consts :: "val list"
  c_class_protos :: "class_proto list"
  c_interface_protos :: "interface_proto list"
  c_spans :: "(nat \<times> span) list"
  c_upvalues :: "upvalue_descriptor list"
  c_cell_slots :: "u32 list"
  c_slot_count :: u16
  c_ic_count :: u16
  c_imports :: "import_desc list"
  c_type_consts :: "ty list"
  c_name :: "rstring option"
  c_overflow :: "chunk_limit option"
  c_patch_epoch :: u64
  c_source :: "source_info option"

record fn_meta =
  fm_arity :: u8
  fm_has_rest :: bool
  fm_is_async :: bool
  fm_is_generator :: bool
  fm_is_worker :: bool
  fm_owning_class :: "rstring option"
  fm_params :: "param list"
  fm_ret :: "ty option"
  fm_local_names :: "(u32 \<times> rstring) list"
  fm_debug_name :: "rstring option"
  fm_name_span :: "span option"

datatype fn_proto = FnProto (fp_meta: fn_meta) (fp_flat: chunk_flat) (fp_protos: "fn_proto list")

record chunk = chunk_flat +
  c_protos :: "fn_proto list"

definition fp_chunk :: "fn_proto \<Rightarrow> chunk" where
  "fp_chunk p = chunk_flat.extend (fp_flat p) (chunk.fields (fp_protos p))"

definition mk_proto :: "fn_meta \<Rightarrow> chunk \<Rightarrow> fn_proto" where
  "mk_proto m c = FnProto m (chunk_flat.truncate c) (c_protos c)"

definition flat_default :: chunk_flat where
  "flat_default = \<lparr>c_code = [], c_consts = [], c_class_protos = [], c_interface_protos = [],
     c_spans = [], c_upvalues = [], c_cell_slots = [], c_slot_count = 0, c_ic_count = 0,
     c_imports = [], c_type_consts = [], c_name = None, c_overflow = None, c_patch_epoch = 0,
     c_source = None\<rparr>"

definition chunk_new :: chunk where
  "chunk_new = chunk_flat.extend flat_default (chunk.fields [])"

lemma fp_chunk_mk_proto [simp]: "fp_chunk (mk_proto m c) = c"
  by (cases c) (simp add: fp_chunk_def mk_proto_def chunk_flat.defs chunk.defs)

lemma fp_protos_chunk [simp]: "c_protos (fp_chunk p) = fp_protos p"
  by (simp add: fp_chunk_def chunk_flat.defs chunk.defs)

section \<open>Module source\<close>

text \<open>
  \<open>set_module_source\<close> binds the source onto the whole prototype tree, stopping at a chunk
  that has one already.
\<close>

fun set_source_proto :: "source_info \<Rightarrow> fn_proto \<Rightarrow> fn_proto" where
  "set_source_proto src (FnProto m f ps) =
     (if c_source f \<noteq> None then FnProto m f ps
      else FnProto m (f\<lparr>c_source := Some src\<rparr>) (map (set_source_proto src) ps))"

definition set_module_source :: "source_info \<Rightarrow> chunk \<Rightarrow> chunk" where
  "set_module_source src c =
     (if c_source c \<noteq> None then c
      else c\<lparr>c_source := Some src, c_protos := map (set_source_proto src) (c_protos c)\<rparr>)"

text \<open>\<open>rebind_source_path\<close> replaces the path wherever a source is bound.\<close>

definition rebind_info :: "rstring \<Rightarrow> source_info option \<Rightarrow> source_info option" where
  "rebind_info p s = (case s of None \<Rightarrow> None
     | Some i \<Rightarrow> if si_path i \<noteq> p then Some \<lparr>si_path = p, si_text = si_text i\<rparr> else Some i)"

fun rebind_proto :: "rstring \<Rightarrow> fn_proto \<Rightarrow> fn_proto" where
  "rebind_proto p (FnProto m f ps) =
     FnProto m (f\<lparr>c_source := rebind_info p (c_source f)\<rparr>) (map (rebind_proto p) ps)"

definition rebind_source_path :: "rstring \<Rightarrow> chunk \<Rightarrow> chunk" where
  "rebind_source_path p c =
     c\<lparr>c_source := rebind_info p (c_source c), c_protos := map (rebind_proto p) (c_protos c)\<rparr>"

section \<open>Emitters\<close>

definition record_span :: "span \<Rightarrow> chunk \<Rightarrow> chunk" where
  "record_span s c = c\<lparr>c_spans := c_spans c @ [(length (c_code c), s)]\<rparr>"

definition cur_span :: "chunk \<Rightarrow> span" where
  "cur_span c = (if c_spans c = [] then span_new 0 0 else snd (last (c_spans c)))"

definition record_overflow :: "chunk_limit \<Rightarrow> chunk \<Rightarrow> chunk" where
  "record_overflow l c = (if c_overflow c = None then c\<lparr>c_overflow := Some l\<rparr> else c)"

definition take_overflow :: "chunk \<Rightarrow> chunk_limit option \<times> chunk" where
  "take_overflow c = (c_overflow c, c\<lparr>c_overflow := None\<rparr>)"

definition push_code :: "bytes \<Rightarrow> chunk \<Rightarrow> chunk" where
  "push_code bs c = c\<lparr>c_code := c_code c @ bs\<rparr>"

definition emit :: "op \<Rightarrow> span \<Rightarrow> chunk \<Rightarrow> chunk" where
  "emit op s c = push_code [op_as_u8 op] (record_span s c)"

definition emit_raw :: "op \<Rightarrow> bytes \<Rightarrow> span \<Rightarrow> chunk \<Rightarrow> chunk" where
  "emit_raw op operand s c = push_code operand (push_code [op_as_u8 op] (record_span s c))"

definition emit_u16 :: "op \<Rightarrow> u16 \<Rightarrow> span \<Rightarrow> chunk \<Rightarrow> chunk" where
  "emit_u16 op operand s c =
     push_code (to_le_bytes 2 operand) (push_code [op_as_u8 op] (record_span s c))"

definition emit_u8 :: "op \<Rightarrow> u8 \<Rightarrow> span \<Rightarrow> chunk \<Rightarrow> chunk" where
  "emit_u8 op operand s c = push_code [operand] (push_code [op_as_u8 op] (record_span s c))"

definition emit_u16_u8 :: "op \<Rightarrow> u16 \<Rightarrow> u8 \<Rightarrow> span \<Rightarrow> chunk \<Rightarrow> chunk" where
  "emit_u16_u8 op a b s c =
     push_code [b] (push_code (to_le_bytes 2 a) (push_code [op_as_u8 op] (record_span s c)))"

definition emit_u8_u8 :: "op \<Rightarrow> u8 \<Rightarrow> u8 \<Rightarrow> span \<Rightarrow> chunk \<Rightarrow> chunk" where
  "emit_u8_u8 op a b s c =
     push_code [b] (push_code [a] (push_code [op_as_u8 op] (record_span s c)))"

definition emit_u16_u8_u8 :: "op \<Rightarrow> u16 \<Rightarrow> u8 \<Rightarrow> u8 \<Rightarrow> span \<Rightarrow> chunk \<Rightarrow> chunk" where
  "emit_u16_u8_u8 op a b d s c =
     push_code [d] (push_code [b]
       (push_code (to_le_bytes 2 a) (push_code [op_as_u8 op] (record_span s c))))"

text \<open>A forward jump is emitted with displacement 0; the returned site is patched later.\<close>

definition emit_jump :: "op \<Rightarrow> span \<Rightarrow> chunk \<Rightarrow> chunk \<times> nat" where
  "emit_jump op s c =
     (let c1 = push_code [op_as_u8 op] (record_span s c) in
      (push_code (to_le_bytes 2 (0 :: u16)) c1, length (c_code c1)))"

definition emit_jump_if_arg_supplied :: "u16 \<Rightarrow> span \<Rightarrow> chunk \<Rightarrow> chunk \<times> nat" where
  "emit_jump_if_arg_supplied param_index s c =
     (let c1 = push_code (to_le_bytes 2 param_index)
                 (push_code [op_as_u8 Op_JumpIfArgSupplied] (record_span s c)) in
      (push_code (to_le_bytes 2 (0 :: u16)) c1, length (c_code c1)))"

definition fits_i16 :: "int \<Rightarrow> bool" where
  "fits_i16 d \<longleftrightarrow> - 32768 \<le> d \<and> d \<le> 32767"

text \<open>
  \<open>i16::try_from(disp).unwrap_or_else(..)\<close>: a displacement that does not fit records the
  overflow and becomes 0.
\<close>

definition narrow_disp :: "int \<Rightarrow> chunk_limit \<Rightarrow> chunk \<Rightarrow> chunk \<times> u16" where
  "narrow_disp d l c = (if fits_i16 d then (c, word_of_int d) else (record_overflow l c, 0))"

text \<open>The slice \<open>code[site..site + 2]\<close> panics when the site is not inside the code.\<close>

definition patch_jump :: "nat \<Rightarrow> chunk \<Rightarrow> chunk option" where
  "patch_jump site c =
     (let disp = int (length (c_code c)) - int (site + 2);
          (c1, d) = narrow_disp disp (LimJump (cur_span c)) c in
      if site + 2 \<le> length (c_code c1)
      then Some (c1\<lparr>c_code := take site (c_code c1) @ to_le_bytes 2 d @ drop (site + 2) (c_code c1)\<rparr>)
      else None)"

definition emit_loop :: "op \<Rightarrow> nat \<Rightarrow> span \<Rightarrow> chunk \<Rightarrow> chunk" where
  "emit_loop op target s c =
     (let c1 = push_code [op_as_u8 op] (record_span s c);
          disp = int target - int (length (c_code c1) + 2);
          (c2, d) = narrow_disp disp (LimLoop s) c1 in
      push_code (to_le_bytes 2 d) c2)"

section \<open>Tables\<close>

definition const_is_dedupable :: "val \<Rightarrow> bool" where
  "const_is_dedupable v = (case v of
      VNil \<Rightarrow> True | VBool _ \<Rightarrow> True | VFloat _ \<Rightarrow> True | VStr _ \<Rightarrow> True | VDecimal _ \<Rightarrow> True
    | _ \<Rightarrow> False)"

text \<open>
  \<open>const_eq\<close>.  The equality of decimals is the one of the crate \<open>rust_decimal\<close>, a
  parameter.
\<close>

definition const_eq :: "(decimal \<Rightarrow> decimal \<Rightarrow> bool) \<Rightarrow> val \<Rightarrow> val \<Rightarrow> bool" where
  "const_eq dec_eq a b = (case (a, b) of
      (VNil, VNil) \<Rightarrow> True
    | (VBool x, VBool y) \<Rightarrow> x = y
    | (VFloat x, VFloat y) \<Rightarrow> x = y
    | (VStr x, VStr y) \<Rightarrow> x = y
    | (VDecimal x, VDecimal y) \<Rightarrow> dec_eq x y
    | _ \<Rightarrow> False)"

text \<open>\<open>u16::try_from(idx)\<close>, recording the overflow and answering \<open>u16::MAX\<close> on failure.\<close>

definition narrow_index :: "nat \<Rightarrow> (span \<Rightarrow> chunk_limit) \<Rightarrow> chunk \<Rightarrow> chunk \<times> u16" where
  "narrow_index i lim c =
     (if i \<le> 65535 then (c, of_nat i) else (record_overflow (lim (cur_span c)) c, 65535))"

definition add_const :: "(decimal \<Rightarrow> decimal \<Rightarrow> bool) \<Rightarrow> val \<Rightarrow> chunk \<Rightarrow> chunk \<times> u16" where
  "add_const dec_eq v c =
     (case (if const_is_dedupable v then find_index (\<lambda>e. const_eq dec_eq e v) (c_consts c) else None) of
        Some i \<Rightarrow> narrow_index i LimConsts c
      | None \<Rightarrow>
          (let (c1, idx) = narrow_index (length (c_consts c)) LimConsts c in
           (c1\<lparr>c_consts := c_consts c1 @ [v]\<rparr>, idx)))"

definition add_type_const :: "ty \<Rightarrow> chunk \<Rightarrow> chunk \<times> u16" where
  "add_type_const t c =
     (let (c1, idx) = narrow_index (length (c_type_consts c)) LimTypeConsts c in
      (c1\<lparr>c_type_consts := c_type_consts c1 @ [t]\<rparr>, idx))"

definition add_proto :: "fn_proto \<Rightarrow> chunk \<Rightarrow> chunk \<times> u16" where
  "add_proto p c =
     (let (c1, idx) = narrow_index (length (c_protos c)) LimProtos c in
      (c1\<lparr>c_protos := c_protos c1 @ [p]\<rparr>, idx))"

definition add_class_proto :: "class_proto \<Rightarrow> chunk \<Rightarrow> chunk \<times> u16" where
  "add_class_proto p c =
     (let (c1, idx) = narrow_index (length (c_class_protos c)) LimClassProtos c in
      (c1\<lparr>c_class_protos := c_class_protos c1 @ [p]\<rparr>, idx))"

definition add_interface_proto :: "interface_proto \<Rightarrow> chunk \<Rightarrow> chunk \<times> u16" where
  "add_interface_proto p c =
     (let (c1, idx) = narrow_index (length (c_interface_protos c)) LimClassProtos c in
      (c1\<lparr>c_interface_protos := c_interface_protos c1 @ [p]\<rparr>, idx))"

definition add_import :: "import_desc \<Rightarrow> chunk \<Rightarrow> chunk \<times> u16" where
  "add_import d c =
     (let (c1, idx) = narrow_index (length (c_imports c)) LimImports c in
      (c1\<lparr>c_imports := c_imports c1 @ [d]\<rparr>, idx))"

section \<open>Operand readers and the debugger's patch\<close>

definition read_u8 :: "chunk \<Rightarrow> nat \<Rightarrow> u8 option" where
  "read_u8 c at = vec_get (c_code c) at"

definition read_u16 :: "chunk \<Rightarrow> nat \<Rightarrow> u16 option" where
  "read_u16 c at =
     (if at + 1 < length (c_code c) then Some (from_le_bytes [c_code c ! at, c_code c ! (at + 1)])
      else None)"

definition read_i16 :: "chunk \<Rightarrow> nat \<Rightarrow> int option" where
  "read_i16 c at = map_option sint (read_u16 c at)"

definition saturating_add_u64 :: "u64 \<Rightarrow> u64 \<Rightarrow> u64" where
  "saturating_add_u64 a b = (if unat a + unat b < 2 ^ 64 then a + b else - 1)"

text \<open>The epoch is advanced before the bounds assertion of \<open>Code::patch_byte\<close>.\<close>

definition patch_byte :: "nat \<Rightarrow> u8 \<Rightarrow> chunk \<Rightarrow> chunk option" where
  "patch_byte off b c =
     (let c1 = c\<lparr>c_patch_epoch := saturating_add_u64 (c_patch_epoch c) 1\<rparr> in
      if off < length (c_code c1) then Some (c1\<lparr>c_code := (c_code c1)[off := b]\<rparr>) else None)"

section \<open>Spans and lines\<close>

text \<open>
  \<open>partition_point\<close> on a slice the predicate partitions (the only slices it is called on
  are sorted).
\<close>

definition partition_point :: "('a \<Rightarrow> bool) \<Rightarrow> 'a list \<Rightarrow> nat" where
  "partition_point P xs = length (takeWhile P xs)"

definition span_at :: "chunk \<Rightarrow> nat \<Rightarrow> span" where
  "span_at c off =
     (if c_spans c = [] then span_new 0 0
      else let idx = partition_point (\<lambda>(o', _). o' \<le> off) (c_spans c) in
        if idx = 0 then snd (c_spans c ! 0) else snd (c_spans c ! (idx - 1)))"

text \<open>
  \<open>LineIndex::new\<close> scans the characters of the text.  A byte \<open>10xxxxxx\<close> continues a
  character; every other byte starts one, and only a starting byte can be a newline.
\<close>

definition is_continuation :: "u8 \<Rightarrow> bool" where
  "is_continuation b \<longleftrightarrow> b AND 0xC0 = 0x80"

fun line_starts_from :: "nat \<Rightarrow> rstring \<Rightarrow> nat list" where
  "line_starts_from i [] = []"
| "line_starts_from i (b # bs) =
     (if is_continuation b then line_starts_from i bs
      else if b = 10 then (i + 1) # line_starts_from (i + 1) bs
      else line_starts_from (i + 1) bs)"

definition line_index_new :: "rstring \<Rightarrow> nat list" where
  "line_index_new text = 0 # line_starts_from 0 text"

definition line_of :: "nat list \<Rightarrow> nat \<Rightarrow> u32" where
  "line_of starts off = of_nat (partition_point (\<lambda>s. s \<le> off) starts - 1)"

definition line_col :: "nat list \<Rightarrow> nat \<Rightarrow> (u32 \<times> u32) option" where
  "line_col starts off =
     (let line = line_of starts off in
      map_option (\<lambda>ls. (line, of_nat (off - ls))) (vec_get starts (unat line)))"

text \<open>
  \<open>build_line_starts\<close>: the first offset of each line, in the order of the span table, then
  sorted by line.  \<open>last_line\<close> is the line of the previous entry.
\<close>

fun line_table :: "nat list \<Rightarrow> u32 option \<Rightarrow> (u32 \<times> u32) list \<Rightarrow> (nat \<times> span) list \<Rightarrow> (u32 \<times> u32) list"
where
  "line_table idx prev out [] = out"
| "line_table idx prev out ((off, s) # rest) =
     (let line = line_of idx (unat (sp_start s)) in
      if prev = Some line then line_table idx prev out rest
      else if list_ex (\<lambda>(l, _). l = line) out then line_table idx (Some line) out rest
      else line_table idx (Some line)
             (out @ [(line, if off < 2 ^ 32 then of_nat off else - 1)]) rest)"

definition build_line_starts :: "chunk \<Rightarrow> (u32 \<times> u32) list" where
  "build_line_starts c = (case c_source c of None \<Rightarrow> []
     | Some src \<Rightarrow> sort_key fst (line_table (line_index_new (si_text src)) None [] (c_spans c)))"

text \<open>The outer \<open>option\<close> is the panic of \<open>line_col\<close>, the inner one the \<open>Option\<close> of the source.\<close>

definition line_col_at :: "chunk \<Rightarrow> nat \<Rightarrow> (u32 \<times> u32) option option" where
  "line_col_at c off = (case c_source c of None \<Rightarrow> Some None
     | Some src \<Rightarrow> map_option Some
         (line_col (line_index_new (si_text src)) (unat (sp_start (span_at c off)))))"

definition first_offset_for_line :: "chunk \<Rightarrow> u32 \<Rightarrow> u32 option" where
  "first_offset_for_line c line =
     (let table = build_line_starts c;
          idx = partition_point (\<lambda>(l, _). l < line) table in
      map_option snd (vec_get table idx))"

section \<open>Reading what was emitted\<close>

lemmas emit_defs = emit_def emit_raw_def emit_u16_def emit_u8_def emit_u16_u8_def emit_u8_u8_def
  emit_u16_u8_u8_def push_code_def record_span_def

lemma to_le_2: "to_le_bytes 2 w = [ucast w, ucast (drop_bit 8 w)]"
  by (simp add: numeral_2_eq_2)

lemma from_le_2 [simp]:
  fixes w :: u16
  shows "ucast (ucast w :: u8) OR push_bit 8 (ucast (ucast (drop_bit 8 w) :: u8)) = w"
  using from_le_to_le [of 2 w] by (simp add: to_le_2)

lemma nth_code_slice:
  assumes "take 2 (drop at code) = [a, b]"
  shows "at + 1 < length code" "code ! at = a" "code ! (at + 1) = b"
proof -
  have len: "2 \<le> length code - at"
    using arg_cong [OF assms, of length] by simp
  then show "at + 1 < length code" by simp
  show "code ! at = a"
    using arg_cong [OF assms, of "\<lambda>xs. xs ! 0"] len by simp
  show "code ! (at + 1) = b"
    using arg_cong [OF assms, of "\<lambda>xs. xs ! 1"] len by simp
qed

lemma read_u16_slice:
  assumes "take 2 (drop at (c_code c)) = to_le_bytes 2 w"
  shows "read_u16 c at = Some w"
  using nth_code_slice [OF assms [unfolded to_le_2]] by (simp add: read_u16_def)

lemma read_i16_slice:
  fixes w :: u16
  assumes "take 2 (drop at (c_code c)) = to_le_bytes 2 w"
  shows "read_i16 c at = Some (sint w)"
  by (simp add: read_i16_def read_u16_slice [OF assms])

lemma sint_disp [simp]: "fits_i16 d \<Longrightarrow> sint (word_of_int d :: u16) = d"
  by (simp add: fits_i16_def sint_sbintrunc' signed_take_bit_int_eq_self)

lemma narrow_disp_sint [simp]: "sint (snd (narrow_disp d l c)) = (if fits_i16 d then d else 0)"
  by (simp add: narrow_disp_def)

lemma narrow_disp_overflow:
  "c_overflow (fst (narrow_disp d l c)) =
     (if fits_i16 d \<or> c_overflow c \<noteq> None then c_overflow c else Some l)"
  by (simp add: narrow_disp_def record_overflow_def)

lemma narrow_disp_code [simp]:
  "c_code (fst (narrow_disp d l c)) = c_code c" "c_spans (fst (narrow_disp d l c)) = c_spans c"
  by (simp_all add: narrow_disp_def record_overflow_def)

lemma narrow_disp_frame:
  "(fst (narrow_disp d l c))\<lparr>c_code := c_code c, c_overflow := c_overflow c\<rparr> = c"
  by (simp add: narrow_disp_def record_overflow_def)

lemma patch_jump_ok:
  assumes "site + 2 \<le> length (c_code c)"
  obtains c' where "patch_jump site c = Some c'" "length (c_code c') = length (c_code c)"
    "c_code c' = take site (c_code c) @
       to_le_bytes 2 (snd (narrow_disp (int (length (c_code c)) - int (site + 2)) (LimJump (cur_span c)) c))
       @ drop (site + 2) (c_code c)"
    "c_overflow c' = c_overflow (fst (narrow_disp (int (length (c_code c)) - int (site + 2)) (LimJump (cur_span c)) c))"
    "c'\<lparr>c_code := c_code c, c_overflow := c_overflow c\<rparr> = c"
proof -
  let ?nd = "narrow_disp (int (length (c_code c)) - int (site + 2)) (LimJump (cur_span c)) c"
  let ?c' = "(fst ?nd)\<lparr>c_code := take site (c_code c) @ to_le_bytes 2 (snd ?nd) @ drop (site + 2) (c_code c)\<rparr>"
  have "patch_jump site c = Some ?c'"
    using assms by (simp add: patch_jump_def Let_def case_prod_beta)
  then show thesis
    by (rule that) (use assms in \<open>simp_all add: narrow_disp_frame\<close>)
qed

lemma patch_jump_reads:
  assumes site: "site + 2 \<le> length (c_code c)"
  shows "\<exists>c'. patch_jump site c = Some c' \<and> length (c_code c') = length (c_code c)
    \<and> (\<forall>i. i < site \<or> site + 2 \<le> i \<longrightarrow> c_code c' ! i = c_code c ! i)
    \<and> c'\<lparr>c_code := c_code c, c_overflow := c_overflow c\<rparr> = c
    \<and> (if length (c_code c) - (site + 2) \<le> 32767
       then read_i16 c' site = Some (int (length (c_code c)) - int (site + 2)) \<and> c_overflow c' = c_overflow c
       else read_i16 c' site = Some 0
         \<and> c_overflow c' = (case c_overflow c of None \<Rightarrow> Some (LimJump (cur_span c)) | Some l \<Rightarrow> Some l))"
proof -
  define d where "d = int (length (c_code c)) - int (site + 2)"
  define nd where "nd = narrow_disp d (LimJump (cur_span c)) c"
  have d0: "0 \<le> d" using site by (simp add: d_def)
  obtain c' where ok: "patch_jump site c = Some c'" "length (c_code c') = length (c_code c)"
    and code: "c_code c' = take site (c_code c) @ to_le_bytes 2 (snd nd) @ drop (site + 2) (c_code c)"
    and ov: "c_overflow c' = c_overflow (fst nd)"
    and frame: "c'\<lparr>c_code := c_code c, c_overflow := c_overflow c\<rparr> = c"
    using patch_jump_ok [OF site] unfolding nd_def d_def by metis
  have "take 2 (drop site (c_code c')) = to_le_bytes 2 (snd nd)"
    using site by (simp add: code)
  then have rd: "read_i16 c' site = Some (sint (snd nd))" by (rule read_i16_slice)
  have outside: "c_code c' ! i = c_code c ! i" if "i < site \<or> site + 2 \<le> i" for i
    using that site by (auto simp: code nth_append Suc_diff_Suc numeral_2_eq_2)
  have fits: "fits_i16 d \<longleftrightarrow> length (c_code c) - (site + 2) \<le> 32767"
    using d0 site by (auto simp: fits_i16_def d_def)
  show ?thesis
    using ok rd outside ov fits frame
    unfolding d_def [symmetric]
    by (intro exI [of _ c']) (auto simp: nd_def narrow_disp_overflow)
qed

text \<open>
  C30: patching a forward jump.  For a site inside the code, \<open>patch_jump\<close> never panics, changes
  no field of the chunk but the code and the overflow flag, keeps the code length and every byte
  outside the operand, and either the patched operand read back as the run loop reads it sends
  the jump exactly to the end of the code emitted so far and the overflow flag is as before, or
  the distance exceeds 32767, the operand is 0 and the first pending overflow stays flagged, this
  jump's when there was none.
\<close>

theorem patch_jump_correct:
  assumes site: "site + 2 \<le> length (c_code c)"
  shows "\<exists>c'. patch_jump site c = Some c' \<and> length (c_code c') = length (c_code c)
    \<and> (\<forall>i. i < site \<or> site + 2 \<le> i \<longrightarrow> c_code c' ! i = c_code c ! i)
    \<and> c'\<lparr>c_code := c_code c, c_overflow := c_overflow c\<rparr> = c
    \<and> (if length (c_code c) - (site + 2) \<le> 32767
       then read_i16 c' site = Some (int (length (c_code c)) - int (site + 2)) \<and> c_overflow c' = c_overflow c
       else read_i16 c' site = Some 0
         \<and> c_overflow c' = (case c_overflow c of None \<Rightarrow> Some (LimJump (cur_span c)) | Some l \<Rightarrow> Some l))"
  using assms by (rule patch_jump_reads)

theorem patch_jump_correct_witness:
  "\<exists>c'. patch_jump 1 (chunk_new\<lparr>c_code := [37, 0, 0, 1]\<rparr>) = Some c' \<and> read_i16 c' 1 = Some 1"
  using patch_jump_correct [of 1 "chunk_new\<lparr>c_code := [37, 0, 0, 1]\<rparr>"] by auto

text \<open>
  a backward jump emitted by \<open>emit_loop\<close> either reads back as the displacement from the
  byte after the operand to the requested target, or the distance does not fit 16 bits and the
  overflow is flagged with the operand 0.
\<close>

lemma emit_loop_correct:
  "let c' = emit_loop op target s c; at = length (c_code c) + 1 in
     c_code c' ! length (c_code c) = op_as_u8 op \<and> length (c_code c') = at + 2 \<and>
     (if fits_i16 (int target - int (at + 2))
      then read_i16 c' at = Some (int target - int (at + 2)) \<and> c_overflow c' = c_overflow c
      else read_i16 c' at = Some 0 \<and> c_overflow c' \<noteq> None)"
proof -
  define c1 where "c1 = push_code [op_as_u8 op] (record_span s c)"
  define d where "d = int target - int (length (c_code c) + 1 + 2)"
  define nd where "nd = narrow_disp d (LimLoop s) c1"
  have c1: "c_code c1 = c_code c @ [op_as_u8 op]" "c_overflow c1 = c_overflow c"
    by (simp_all add: c1_def push_code_def record_span_def)
  have e: "emit_loop op target s c = push_code (to_le_bytes 2 (snd nd)) (fst nd)"
    by (simp add: emit_loop_def Let_def nd_def d_def c1 case_prod_beta flip: c1_def)
  have code: "c_code (emit_loop op target s c) = c_code c @ [op_as_u8 op] @ to_le_bytes 2 (snd nd)"
    by (simp add: e push_code_def nd_def c1)
  then have rd: "read_i16 (emit_loop op target s c) (length (c_code c) + 1) = Some (sint (snd nd))"
    by (intro read_i16_slice) simp
  have ov: "c_overflow (emit_loop op target s c) = c_overflow (fst nd)"
    by (simp add: e push_code_def)
  show ?thesis
    unfolding Let_def d_def [symmetric]
    using rd ov code by (simp add: nd_def narrow_disp_overflow c1 nth_append)
qed

section \<open>The constant pool\<close>

lemma narrow_index_tables [simp]:
  "c_consts (fst (narrow_index i l c)) = c_consts c"
  "c_code (fst (narrow_index i l c)) = c_code c"
  "c_spans (fst (narrow_index i l c)) = c_spans c"
  "c_protos (fst (narrow_index i l c)) = c_protos c"
  "c_class_protos (fst (narrow_index i l c)) = c_class_protos c"
  "c_interface_protos (fst (narrow_index i l c)) = c_interface_protos c"
  "c_imports (fst (narrow_index i l c)) = c_imports c"
  "c_type_consts (fst (narrow_index i l c)) = c_type_consts c"
  by (simp_all add: narrow_index_def record_overflow_def)

lemma narrow_index_no_overflow:
  assumes "c_overflow (fst (narrow_index i l c)) = None"
  shows "i \<le> 65535" "unat (snd (narrow_index i l c)) = i" "c_overflow c = None"
proof -
  show le: "i \<le> 65535"
    using assms by (auto simp: narrow_index_def record_overflow_def split: if_splits)
  then show "unat (snd (narrow_index i l c)) = i" "c_overflow c = None"
    using assms by (simp_all add: narrow_index_def unat_of_nat)
qed

lemma const_eq_refl:
  assumes "\<And>d. dec_eq d d"
  shows "const_is_dedupable v \<Longrightarrow> const_eq dec_eq v v"
  using assms by (auto simp: const_is_dedupable_def const_eq_def split: val.splits)

lemma const_eq_strict: "const_eq dec_eq a b \<Longrightarrow> (\<And>d. b \<noteq> VDecimal d) \<Longrightarrow> a = b"
  by (auto simp: const_eq_def split: val.splits)

text \<open>The two ways through \<open>add_const\<close>: an entry found in the pool, or a new one.\<close>

lemma add_const_cases:
  assumes "add_const dec_eq v c = (c', i)"
  obtains (hit) k where "const_is_dedupable v"
      "find_index (\<lambda>e. const_eq dec_eq e v) (c_consts c) = Some k"
      "(c', i) = narrow_index k LimConsts c"
    | (new) "const_is_dedupable v \<Longrightarrow> find_index (\<lambda>e. const_eq dec_eq e v) (c_consts c) = None"
      "c' = (fst (narrow_index (length (c_consts c)) LimConsts c))\<lparr>c_consts := c_consts c @ [v]\<rparr>"
      "i = snd (narrow_index (length (c_consts c)) LimConsts c)"
proof (cases "if const_is_dedupable v then find_index (\<lambda>e. const_eq dec_eq e v) (c_consts c) else None")
  case None
  show thesis
    by (rule new) (use None assms in \<open>simp_all add: add_const_def Let_def case_prod_beta\<close>)
next
  case (Some k)
  show thesis
    by (rule hit [of k]) (use Some assms in \<open>simp_all add: add_const_def split: if_splits\<close>)
qed

lemma add_const_slot:
  assumes "add_const dec_eq v c = (c', i)" and "c_overflow c' = None"
  shows "unat i < length (c_consts c') \<and> take (length (c_consts c)) (c_consts c') = c_consts c
    \<and> (c_consts c' ! unat i = v
       \<or> (\<exists>d d'. v = VDecimal d \<and> c_consts c' ! unat i = VDecimal d' \<and> dec_eq d' d))"
proof -
  from assms(1) show ?thesis
  proof (cases rule: add_const_cases)
    case (hit k)
    then have "fst (narrow_index k LimConsts c) = c'" "snd (narrow_index k LimConsts c) = i"
      by (metis fst_conv, metis snd_conv)
    with assms(2) narrow_index_no_overflow(2) [of k LimConsts c] narrow_index_tables(1) [of k LimConsts c]
    have "unat i = k" "c_consts c' = c_consts c" by simp_all
    with find_index_Some [OF hit(2)] show ?thesis
      by (auto simp: const_eq_def split: val.splits)
  next
    case new
    with assms(2) narrow_index_no_overflow(2) [of "length (c_consts c)" LimConsts c]
    have "unat i = length (c_consts c)" by simp
    with new show ?thesis by simp
  qed
qed

text \<open>
  Interning a constant.  When no overflow is pending afterwards, the returned index is in
  range, the pool only grew at its end, and the slot holds the constant itself, or for a
  decimal a constant the decimal equality identifies with it.
\<close>

theorem add_const_correct:
  assumes "add_const dec_eq v c = (c', i)" and "c_overflow c' = None"
  shows "unat i < length (c_consts c') \<and> take (length (c_consts c)) (c_consts c') = c_consts c
    \<and> (c_consts c' ! unat i = v
       \<or> (\<exists>d d'. v = VDecimal d \<and> c_consts c' ! unat i = VDecimal d' \<and> dec_eq d' d))"
  using assms by (rule add_const_slot)

theorem add_const_correct_witness:
  "unat (1 :: u16) < length [VNil, VStr [97]] \<and> [VNil, VStr [97]] ! unat (1 :: u16) = VStr [97]"
  using add_const_correct [of "(=)" "VStr [97]" "chunk_new\<lparr>c_consts := [VNil]\<rparr>"
      "chunk_new\<lparr>c_consts := [VNil, VStr [97]]\<rparr>" 1]
  by (simp add: add_const_def const_is_dedupable_def const_eq_def narrow_index_def chunk_new_def
      flat_default_def chunk_flat.defs chunk.defs)

text \<open>
  Interning is idempotent.  Adding a dedupable constant a second time returns the same
  index and leaves the chunk as it is, while an \<open>Int\<close> constant grows the pool every time.
\<close>

theorem add_const_idempotent:
  assumes "\<And>d. dec_eq d d" and "add_const dec_eq v c = (c', i)" and "c_overflow c' = None"
  shows "(const_is_dedupable v \<longrightarrow> add_const dec_eq v c' = (c', i))
    \<and> (\<forall>n. v = VInt n \<longrightarrow> length (c_consts c') = Suc (length (c_consts c)))"
proof (intro conjI impI allI)
  assume ded: "const_is_dedupable v"
  from assms(2) show "add_const dec_eq v c' = (c', i)"
  proof (cases rule: add_const_cases)
    case new
    with assms(3) narrow_index_no_overflow(1) [of "length (c_consts c)" LimConsts c]
    have le: "length (c_consts c) \<le> 65535" by simp
    have "find_index (\<lambda>e. const_eq dec_eq e v) (c_consts c') = Some (length (c_consts c))"
      using new(1) [OF ded] const_eq_refl [of dec_eq, OF assms(1) ded]
      by (simp add: new(2) find_index_append_None)
    with ded le new show ?thesis by (simp add: add_const_def narrow_index_def)
  next
    case (hit k)
    then have c': "c' = fst (narrow_index k LimConsts c)" by (metis fst_conv)
    have "k \<le> 65535"
      using assms(3) unfolding c' by (rule narrow_index_no_overflow(1))
    then have "narrow_index k LimConsts c = (c, of_nat k)" by (simp add: narrow_index_def)
    with c' have "c' = c" by (simp only: fst_conv)
    with assms(2) show ?thesis by (simp only:)
  qed
next
  fix n assume "v = VInt n"
  with assms(2) show "length (c_consts c') = Suc (length (c_consts c))"
    by (auto simp: add_const_def const_is_dedupable_def Let_def case_prod_beta)
qed

theorem add_const_idempotent_witness:
  "add_const (=) VNil (chunk_new\<lparr>c_consts := [VNil]\<rparr>) = (chunk_new\<lparr>c_consts := [VNil]\<rparr>, 0)"
  using add_const_idempotent [of "(=)" VNil chunk_new "chunk_new\<lparr>c_consts := [VNil]\<rparr>" 0]
  by (simp add: add_const_def const_is_dedupable_def narrow_index_def chunk_new_def
      flat_default_def chunk_flat.defs chunk.defs)

section \<open>Chunks the compiler builds\<close>

text \<open>
  The chunks reachable from \<open>Chunk::new\<close> by the builder methods, in any order.
\<close>

inductive built :: "(decimal \<Rightarrow> decimal \<Rightarrow> bool) \<Rightarrow> chunk \<Rightarrow> bool" for dec_eq where
  new: "built dec_eq chunk_new"
| emit: "built dec_eq c \<Longrightarrow> built dec_eq (emit op s c)"
| emit_raw: "built dec_eq c \<Longrightarrow> built dec_eq (emit_raw op bs s c)"
| emit_u16: "built dec_eq c \<Longrightarrow> built dec_eq (emit_u16 op n s c)"
| emit_u8: "built dec_eq c \<Longrightarrow> built dec_eq (emit_u8 op b s c)"
| emit_u16_u8: "built dec_eq c \<Longrightarrow> built dec_eq (emit_u16_u8 op n b s c)"
| emit_u8_u8: "built dec_eq c \<Longrightarrow> built dec_eq (emit_u8_u8 op a b s c)"
| emit_u16_u8_u8: "built dec_eq c \<Longrightarrow> built dec_eq (emit_u16_u8_u8 op n a b s c)"
| emit_jump: "built dec_eq c \<Longrightarrow> built dec_eq (fst (emit_jump op s c))"
| emit_jump_arg: "built dec_eq c \<Longrightarrow> built dec_eq (fst (emit_jump_if_arg_supplied n s c))"
| patch: "built dec_eq c \<Longrightarrow> patch_jump site c = Some c' \<Longrightarrow> built dec_eq c'"
| loop: "built dec_eq c \<Longrightarrow> built dec_eq (emit_loop op target s c)"
| const: "built dec_eq c \<Longrightarrow> built dec_eq (fst (add_const dec_eq v c))"
| type_const: "built dec_eq c \<Longrightarrow> built dec_eq (fst (add_type_const t c))"
| proto: "built dec_eq c \<Longrightarrow> built dec_eq (fst (add_proto p c))"
| class_proto: "built dec_eq c \<Longrightarrow> built dec_eq (fst (add_class_proto cp c))"
| interface_proto: "built dec_eq c \<Longrightarrow> built dec_eq (fst (add_interface_proto ip c))"
| import: "built dec_eq c \<Longrightarrow> built dec_eq (fst (add_import d c))"

definition spans_ok :: "chunk \<Rightarrow> bool" where
  "spans_ok c \<longleftrightarrow> sorted_wrt (<) (map fst (c_spans c)) \<and> (\<forall>e \<in> set (c_spans c). fst e < length (c_code c))"

definition tables_ok :: "chunk \<Rightarrow> bool" where
  "tables_ok c \<longleftrightarrow> c_overflow c = None \<longrightarrow>
     length (c_consts c) \<le> 65536 \<and> length (c_type_consts c) \<le> 65536 \<and> length (c_protos c) \<le> 65536
     \<and> length (c_class_protos c) \<le> 65536 \<and> length (c_interface_protos c) \<le> 65536
     \<and> length (c_imports c) \<le> 65536"

lemma spans_ok_cong:
  "c_spans c' = c_spans c \<Longrightarrow> length (c_code c) \<le> length (c_code c') \<Longrightarrow> spans_ok c \<Longrightarrow> spans_ok c'"
  by (auto simp: spans_ok_def)

lemma spans_ok_emit:
  assumes "spans_ok c" and "c_spans c' = c_spans c @ [(length (c_code c), s)]"
    and "length (c_code c) < length (c_code c')"
  shows "spans_ok c'"
  using assms unfolding spans_ok_def
  by (auto simp: sorted_wrt_append intro: less_trans)

lemma emit_jump_fields [simp]:
  "c_spans (fst (emit_jump op s c)) = c_spans c @ [(length (c_code c), s)]"
  "c_code (fst (emit_jump op s c)) = c_code c @ [op_as_u8 op, 0, 0]"
  by (simp_all add: emit_jump_def Let_def push_code_def record_span_def to_le_2)

lemma emit_jump_arg_fields [simp]:
  "c_spans (fst (emit_jump_if_arg_supplied n s c)) = c_spans c @ [(length (c_code c), s)]"
  "c_code (fst (emit_jump_if_arg_supplied n s c)) =
     c_code c @ [op_as_u8 Op_JumpIfArgSupplied] @ to_le_bytes 2 n @ [0, 0]"
  by (simp_all add: emit_jump_if_arg_supplied_def Let_def push_code_def record_span_def to_le_2)

lemma emit_loop_fields [simp]:
  "c_spans (emit_loop op target s c) = c_spans c @ [(length (c_code c), s)]"
  "length (c_code (emit_loop op target s c)) = length (c_code c) + 3"
  by (simp_all add: emit_loop_def Let_def push_code_def record_span_def case_prod_beta)

lemma patch_jump_fields:
  assumes "patch_jump site c = Some c'"
  shows "c_spans c' = c_spans c" "length (c_code c') = length (c_code c)"
  using assms by (auto simp: patch_jump_def Let_def case_prod_beta split: if_splits)

lemma add_const_fields [simp]:
  "c_spans (fst (add_const dec_eq v c)) = c_spans c" "c_code (fst (add_const dec_eq v c)) = c_code c"
  by (simp_all add: add_const_def Let_def case_prod_beta split: option.split)

lemmas add_defs = add_type_const_def add_proto_def add_class_proto_def add_interface_proto_def
  add_import_def Let_def case_prod_beta

lemma built_spans_ok: "built dec_eq c \<Longrightarrow> spans_ok c"
proof (induction rule: built.induct)
  case new
  show ?case by (simp add: spans_ok_def chunk_new_def flat_default_def chunk_flat.defs chunk.defs)
next
  case (patch c site c')
  from patch_jump_fields [OF patch(2)] show ?case by (intro spans_ok_cong [OF _ _ patch(3)]) simp_all
qed (erule spans_ok_emit spans_ok_cong [rotated 2]; simp add: emit_defs add_defs)+

lemma tables_ok_cong:
  assumes "tables_ok c" and "c_overflow c' = None \<Longrightarrow> c_overflow c = None"
    and "c_consts c' = c_consts c" "c_type_consts c' = c_type_consts c" "c_protos c' = c_protos c"
    and "c_class_protos c' = c_class_protos c" "c_interface_protos c' = c_interface_protos c"
    and "c_imports c' = c_imports c"
  shows "tables_ok c'"
  using assms by (simp add: tables_ok_def)

lemma narrow_disp_tables [simp]:
  "c_consts (fst (narrow_disp d l c)) = c_consts c"
  "c_type_consts (fst (narrow_disp d l c)) = c_type_consts c"
  "c_protos (fst (narrow_disp d l c)) = c_protos c"
  "c_class_protos (fst (narrow_disp d l c)) = c_class_protos c"
  "c_interface_protos (fst (narrow_disp d l c)) = c_interface_protos c"
  "c_imports (fst (narrow_disp d l c)) = c_imports c"
  by (simp_all add: narrow_disp_def record_overflow_def)

lemma narrow_disp_no_overflow: "c_overflow (fst (narrow_disp d l c)) = None \<Longrightarrow> c_overflow c = None"
  by (simp add: narrow_disp_overflow split: if_splits)

lemma tables_ok_add:
  assumes "tables_ok c"
    and "c_overflow c' = None \<Longrightarrow> c_overflow (fst (narrow_index n l c)) = None"
    and "c_overflow c = None \<Longrightarrow> n \<le> 65535 \<Longrightarrow> tables_ok c'"
  shows "tables_ok c'"
proof (cases "c_overflow c' = None")
  case True
  note n = narrow_index_no_overflow [OF assms(2) [OF True]]
  show ?thesis by (rule assms(3)) (use n in auto)
qed (auto simp: tables_ok_def)

lemma built_tables_ok: "built dec_eq c \<Longrightarrow> tables_ok c"
proof (induction rule: built.induct)
  case new
  show ?case by (simp add: tables_ok_def chunk_new_def flat_default_def chunk_flat.defs chunk.defs)
next
  case (patch c site c')
  then show ?case
    by (intro tables_ok_cong [OF patch(3)])
      (auto simp: patch_jump_def Let_def case_prod_beta dest: narrow_disp_no_overflow split: if_splits)
next
  case (loop c op target s)
  then show ?case
    by (intro tables_ok_cong [OF loop(2)])
      (auto simp: emit_loop_def Let_def case_prod_beta push_code_def record_span_def
        dest: narrow_disp_no_overflow)
next
  case (const c v)
  obtain c' i where ac: "add_const dec_eq v c = (c', i)" by fastforce
  then show ?case
  proof (cases rule: add_const_cases)
    case (hit k)
    then have "c' = fst (narrow_index k LimConsts c)" by (metis fst_conv)
    then show ?thesis
      using const(2) narrow_index_no_overflow(3) by (intro tables_ok_cong [OF const(2)]) (auto simp: ac)
  next
    case new
    show ?thesis
      by (rule tables_ok_add [OF const(2)])
        (use const(2) in \<open>auto simp: ac new tables_ok_def\<close>)
  qed
next
  case (type_const c t)
  show ?case
    by (rule tables_ok_add [OF type_const(2)]) (use type_const(2) in \<open>auto simp: add_defs tables_ok_def\<close>)
next
  case (proto c t)
  show ?case by (rule tables_ok_add [OF proto(2)]) (use proto(2) in \<open>auto simp: add_defs tables_ok_def\<close>)
next
  case (class_proto c t)
  show ?case
    by (rule tables_ok_add [OF class_proto(2)]) (use class_proto(2) in \<open>auto simp: add_defs tables_ok_def\<close>)
next
  case (interface_proto c t)
  show ?case
    by (rule tables_ok_add [OF interface_proto(2)])
      (use interface_proto(2) in \<open>auto simp: add_defs tables_ok_def\<close>)
next
  case (import c t)
  show ?case by (rule tables_ok_add [OF import(2)]) (use import(2) in \<open>auto simp: add_defs tables_ok_def\<close>)
qed (erule tables_ok_cong;
     simp add: emit_defs emit_jump_def emit_jump_if_arg_supplied_def Let_def)+

text \<open>
  C31: every chunk the builder methods can produce has a span table of strictly increasing
  code offsets that lie inside the code, and, as long as no overflow is pending, tables whose
  every index fits the 16-bit operands (65536 entries, one more than the limit messages name).
\<close>

theorem built_invariant: "built dec_eq c \<Longrightarrow> spans_ok c \<and> tables_ok c"
  using built_spans_ok built_tables_ok by blast

theorem built_invariant_witness:
  "spans_ok (emit Op_Return (span_new 0 1) chunk_new) \<and> tables_ok (emit Op_Return (span_new 0 1) chunk_new)"
  using built_invariant [OF built.emit [OF built.new]] .

section \<open>Span lookup\<close>

lemma takeWhile_filter_sorted:
  "sorted (map fst xs) \<Longrightarrow> takeWhile (\<lambda>(o', _). o' \<le> off) xs = filter (\<lambda>(o', _). o' \<le> (off :: nat)) xs"
proof (induction xs)
  case (Cons x xs)
  show ?case
  proof (cases "fst x \<le> off")
    case False
    with Cons.prems have "filter (\<lambda>(o', _). o' \<le> off) xs = []"
      by (fastforce simp: filter_empty_conv)
    with False show ?thesis by (cases x) simp
  next
    case True
    with Cons show ?thesis by (cases x) simp
  qed
qed simp

text \<open>
  C40: \<open>span_at\<close> on a built chunk that has spans answers the span of the last entry of the table at or
  before the offset, found by the binary search, and the first span when there is none.
\<close>

theorem span_at_last:
  assumes "built dec_eq c" and "c_spans c \<noteq> []"
  shows "span_at c off =
    (let before = filter (\<lambda>(o', _). o' \<le> off) (c_spans c) in
     if before = [] then snd (hd (c_spans c)) else snd (last before))"
proof -
  let ?P = "\<lambda>(o', _). o' \<le> off"
  have tw: "takeWhile ?P (c_spans c) = filter ?P (c_spans c)"
    using built_spans_ok [OF assms(1)] by (intro takeWhile_filter_sorted) (simp add: spans_ok_def strict_sorted_imp_sorted)
  have nth: "c_spans c ! i = takeWhile ?P (c_spans c) ! i" if "i < length (takeWhile ?P (c_spans c))" for i
    using that by (simp add: takeWhile_nth)
  show ?thesis
    using assms(2) nth [of "length (takeWhile ?P (c_spans c)) - 1"]
    by (auto simp: span_at_def partition_point_def Let_def last_conv_nth hd_conv_nth simp flip: tw)
qed

theorem span_at_last_witness:
  "span_at (emit Op_Return (span_new 3 4) (emit Op_Nil (span_new 0 1) chunk_new)) 1 = span_new 3 4"
  using span_at_last [OF built.emit [OF built.emit [OF built.new, of "(=)" Op_Nil "span_new 0 1"],
        of Op_Return "span_new 3 4"], of 1]
  by (simp add: emit_defs chunk_new_def flat_default_def chunk_flat.defs chunk.defs)

section \<open>The line table\<close>

definition line_of_entry :: "nat list \<Rightarrow> nat \<times> span \<Rightarrow> u32" where
  "line_of_entry idx e = line_of idx (unat (sp_start (snd e)))"

definition clamp_u32 :: "nat \<Rightarrow> u32" where
  "clamp_u32 n = (if n < 2 ^ 32 then of_nat n else - 1)"

text \<open>The reference: keep the first entry of every line.\<close>

fun first_per_line :: "nat list \<Rightarrow> u32 set \<Rightarrow> (nat \<times> span) list \<Rightarrow> (u32 \<times> u32) list" where
  "first_per_line idx seen [] = []"
| "first_per_line idx seen (e # es) =
     (if line_of_entry idx e \<in> seen then first_per_line idx seen es
      else (line_of_entry idx e, clamp_u32 (fst e)) # first_per_line idx (insert (line_of_entry idx e) seen) es)"

lemma line_table_first_per_line:
  assumes "\<And>l. prev = Some l \<Longrightarrow> l \<in> fst ` set out"
  shows "line_table idx prev out es = out @ first_per_line idx (fst ` set out) es"
  using assms
proof (induction es arbitrary: prev out)
  case (Cons e es)
  obtain off s where e: "e = (off, s)" by fastforce
  have mem: "list_ex (\<lambda>(l, _). l = x) out \<longleftrightarrow> x \<in> fst ` set out" for x
    by (force simp: list_ex_iff)
  show ?case
    using Cons.prems Cons.IH [of prev out] Cons.IH [of "Some (line_of_entry idx e)" out]
      Cons.IH [of "Some (line_of_entry idx e)" "out @ [(line_of_entry idx e, clamp_u32 off)]"]
    by (auto simp: e Let_def mem line_of_entry_def clamp_u32_def)
qed simp

lemma first_per_line_sound:
  "(l, o') \<in> set (first_per_line idx seen es) \<longleftrightarrow>
    l \<notin> seen \<and> (\<exists>e. List.find (\<lambda>e. line_of_entry idx e = l) es = Some e \<and> o' = clamp_u32 (fst e))"
proof (induction es arbitrary: seen)
  case (Cons e es)
  show ?case
    by (cases "line_of_entry idx e = l"; cases "line_of_entry idx e \<in> seen") (simp_all add: Cons)
qed simp

lemma distinct_first_per_line: "distinct (map fst (first_per_line idx seen es))"
proof (induction es arbitrary: seen)
  case (Cons e es)
  have "line_of_entry idx e \<notin> fst ` set (first_per_line idx (insert (line_of_entry idx e) seen) es)"
    by (auto simp: first_per_line_sound)
  with Cons show ?case by simp
qed simp

lemma build_line_starts_eq:
  "c_source c = Some src \<Longrightarrow>
    build_line_starts c = sort_key fst (first_per_line (line_index_new (si_text src)) {} (c_spans c))"
  using line_table_first_per_line [of None "[]" "line_index_new (si_text src)" "c_spans c"]
  by (simp add: build_line_starts_def)

lemma partition_point_sorted:
  assumes "sorted (map fst xs)" and "i = partition_point (\<lambda>(l, _). l < (x :: u32)) xs" and "i < length xs"
  shows "x \<le> fst (xs ! i)" and "\<And>e. e \<in> set xs \<Longrightarrow> x \<le> fst e \<Longrightarrow> fst (xs ! i) \<le> fst e"
proof -
  let ?P = "\<lambda>(l, _). l < x"
  have i: "i = length (takeWhile ?P xs)" using assms(2) by (simp add: partition_point_def)
  then have "\<not> ?P (xs ! i)" using assms(3) nth_length_takeWhile [of ?P xs] by simp
  then show "x \<le> fst (xs ! i)" by (simp add: case_prod_beta)
  fix e assume "e \<in> set xs" and le: "x \<le> fst e"
  then obtain j where j: "j < length xs" "xs ! j = e" by (auto simp: in_set_conv_nth)
  have "i \<le> j"
  proof (rule ccontr)
    assume "\<not> i \<le> j"
    then have "xs ! j \<in> set (takeWhile ?P xs)"
      using j i by (metis in_set_conv_nth linorder_not_le takeWhile_nth)
    then have "?P (xs ! j)" by (rule set_takeWhileD [THEN conjunct2])
    with j(2) le show False by (simp add: case_prod_beta)
  qed
  then show "fst (xs ! i) \<le> fst e"
    using sorted_nth_mono [OF assms(1), of i j] j by simp
qed

text \<open>
  A breakpoint on a line binds to the first instruction of the nearest line at or below
  that has code: the offset answered by \<open>first_offset_for_line\<close> is the one of the first span
  table entry on some line \<open>l\<close> not above the request, and no line between has an entry.
\<close>

theorem first_offset_for_line_correct:
  assumes "c_source c = Some src" and "first_offset_for_line c line = Some off"
  shows "\<exists>l e. line \<le> l \<and> off = clamp_u32 (fst e)
    \<and> List.find (\<lambda>e. line_of_entry (line_index_new (si_text src)) e = l) (c_spans c) = Some e
    \<and> (\<forall>e' \<in> set (c_spans c). line \<le> line_of_entry (line_index_new (si_text src)) e' \<longrightarrow>
         l \<le> line_of_entry (line_index_new (si_text src)) e')"
proof -
  let ?idx = "line_index_new (si_text src)"
  let ?t = "build_line_starts c"
  let ?i = "partition_point (\<lambda>(l, _). l < line) ?t"
  have t: "?t = sort_key fst (first_per_line ?idx {} (c_spans c))"
    by (rule build_line_starts_eq [OF assms(1)])
  have i: "?i < length ?t" "snd (?t ! ?i) = off"
    using assms(2) by (auto simp: first_offset_for_line_def Let_def)
  have sorted: "sorted (map fst ?t)" by (simp add: t)
  note pp = partition_point_sorted [OF sorted refl i(1)]
  have "(fst (?t ! ?i), off) \<in> set (first_per_line ?idx {} (c_spans c))"
    using nth_mem [OF i(1)] i(2) by (metis prod.collapse set_sort t)
  then obtain e where e: "List.find (\<lambda>e. line_of_entry ?idx e = fst (?t ! ?i)) (c_spans c) = Some e"
      "off = clamp_u32 (fst e)"
    by (auto simp: first_per_line_sound)
  moreover have "fst (?t ! ?i) \<le> line_of_entry ?idx e'"
    if "e' \<in> set (c_spans c)" "line \<le> line_of_entry ?idx e'" for e'
  proof -
    have "List.find (\<lambda>e. line_of_entry ?idx e = line_of_entry ?idx e') (c_spans c) \<noteq> None"
      unfolding find_None_iff using that(1) by blast
    then obtain e2 where
      "List.find (\<lambda>e. line_of_entry ?idx e = line_of_entry ?idx e') (c_spans c) = Some e2" by blast
    then have "(line_of_entry ?idx e', clamp_u32 (fst e2)) \<in> set ?t"
      by (auto simp: t first_per_line_sound)
    with pp(2) that(2) show ?thesis by fastforce
  qed
  ultimately show ?thesis using pp(1) by blast
qed

definition two_line_chunk :: chunk where
  "two_line_chunk = set_module_source \<lparr>si_path = [], si_text = [120, 10, 121]\<rparr>
     (emit Op_Return (span_new 2 3) (emit Op_Nil (span_new 0 1) chunk_new))"

lemma two_line_chunk_eval:
  "c_source two_line_chunk = Some \<lparr>si_path = [], si_text = [120, 10, 121]\<rparr>"
  "first_offset_for_line two_line_chunk 1 = Some 1"
  by (simp_all add: two_line_chunk_def set_module_source_def emit_defs chunk_new_def flat_default_def
      chunk_flat.defs chunk.defs first_offset_for_line_def build_line_starts_def line_index_new_def
      line_of_def partition_point_def span_new_def is_continuation_def sort_key_def vec_get_def)

theorem first_offset_for_line_correct_witness:
  "\<exists>l e. 1 \<le> l \<and> (1 :: u32) = clamp_u32 (fst e) \<and>
     List.find (\<lambda>e. line_of_entry (line_index_new [120, 10, 121]) e = l) (c_spans two_line_chunk) = Some e"
  using first_offset_for_line_correct [OF two_line_chunk_eval] by auto

end
