(* ===== verification/Worklist.thy ===== *)
theory Worklist
  imports Prelude
begin

text \<open>
  The worklist loop of the bytecode verifier (\<open>verify_stack_balance\<close> in
  \<open>src/src/vm/verify.rs\<close>), abstracted over its body: \<open>visit i d\<close> checks instruction \<open>i\<close>
  entered at depth \<open>d\<close> and answers the successors with their entry depths, in the order the
  code pushes them; \<open>mismatch\<close> builds the join error.  The Rust vector is a stack with its
  top at the end; here the top is the head of the list.

  The locale \<open>depth_analysis\<close> states what the loop needs of its body; inside it the loop is
  shown to be panic-free and to accept exactly when a consistent depth assignment exists.
\<close>

section \<open>The loop\<close>

definition unvisited :: "int option list \<Rightarrow> nat" where
  "unvisited entry = length (filter (\<lambda>x. x = None) entry)"

lemma unvisited_update:
  "i < length entry \<Longrightarrow> entry ! i = None \<Longrightarrow> unvisited (entry[i := Some d]) < unvisited entry"
  unfolding unvisited_def
proof (induction entry arbitrary: i)
  case (Cons e entry)
  then show ?case by (cases i) auto
qed simp

function worklist ::
  "(nat \<Rightarrow> int \<Rightarrow> int \<Rightarrow> 'e) \<Rightarrow> (nat \<Rightarrow> int \<Rightarrow> ((nat \<times> int) list, 'e) result)
   \<Rightarrow> int option list \<Rightarrow> (nat \<times> int) list \<Rightarrow> (int option list, 'e) result"
where
  "worklist mismatch visit entry [] = Ok entry"
| "worklist mismatch visit entry ((i, d) # work) =
     (if i < length entry then
        (case entry ! i of
           Some prev \<Rightarrow> if prev \<noteq> d then Err (mismatch i prev d)
                       else worklist mismatch visit entry work
         | None \<Rightarrow>
             (case visit i d of
                Ok succs \<Rightarrow> worklist mismatch visit (entry[i := Some d]) (rev succs @ work)
              | Err e \<Rightarrow> Err e
              | Panic \<Rightarrow> Panic))
      else Panic)"
  by pat_completeness auto
termination
  by (relation "measures [\<lambda>(_, _, entry, _). unvisited entry, \<lambda>(_, _, _, work). length work]")
    (auto simp: unvisited_update)

section \<open>The interface of the body\<close>

text \<open>
  A context \<open>c\<close> fixes the code under analysis, \<open>ok c\<close> says that its earlier checks passed,
  \<open>size c\<close> is the number of its instructions.
\<close>

locale depth_analysis =
  fixes ok :: "'c \<Rightarrow> bool"
    and csize :: "'c \<Rightarrow> nat"
    and visit :: "'c \<Rightarrow> nat \<Rightarrow> int \<Rightarrow> ((nat \<times> int) list, 'e) result"
  assumes visit_no_panic: "ok c \<Longrightarrow> i < csize c \<Longrightarrow> visit c i d \<noteq> Panic"
    and visit_range: "ok c \<Longrightarrow> i < csize c \<Longrightarrow> visit c i d = Ok ss \<Longrightarrow> (j, e) \<in> set ss \<Longrightarrow> j < csize c"
begin

text \<open>
  A depth assignment is closed when every instruction that has a depth passes its check there
  and hands each successor the depth assigned to it.
\<close>

definition closed_at :: "'c \<Rightarrow> (nat \<Rightarrow> int option) \<Rightarrow> (nat \<times> int) set \<Rightarrow> bool" where
  "closed_at c \<phi> pending \<longleftrightarrow> (\<forall>i d. \<phi> i = Some d \<longrightarrow>
     i < csize c \<and> (\<exists>ss. visit c i d = Ok ss \<and> (\<forall>(j, e) \<in> set ss. \<phi> j = Some e \<or> (j, e) \<in> pending)))"

definition assigned :: "int option list \<Rightarrow> nat \<Rightarrow> int option" where
  "assigned entry i = (if i < length entry then entry ! i else None)"

lemma assigned_update:
  "i < length entry \<Longrightarrow> assigned (entry[i := Some d]) = (assigned entry)(i \<mapsto> d)"
  by (auto simp: assigned_def fun_eq_iff)

lemma closed_at_mono:
  assumes "closed_at c \<phi> P" and "\<And>j e. (j, e) \<in> P \<Longrightarrow> \<phi> j = Some e \<or> (j, e) \<in> Q"
  shows "closed_at c \<phi> Q"
  unfolding closed_at_def
proof (intro allI impI)
  fix i d assume "\<phi> i = Some d"
  with assms(1) obtain ss where "i < csize c" "visit c i d = Ok ss"
    "\<forall>(j, e) \<in> set ss. \<phi> j = Some e \<or> (j, e) \<in> P"
    unfolding closed_at_def by blast
  with assms(2) show "i < csize c \<and> (\<exists>ss. visit c i d = Ok ss \<and> (\<forall>(j, e) \<in> set ss. \<phi> j = Some e \<or> (j, e) \<in> Q))"
    by blast
qed

lemma closed_at_visit:
  assumes "closed_at c \<phi> (insert (i, d) P)" and "\<phi> i = None" and "i < csize c" and "visit c i d = Ok ss"
  shows "closed_at c (\<phi>(i \<mapsto> d)) (set ss \<union> P)"
  unfolding closed_at_def
proof (intro allI impI)
  fix k e assume k: "(\<phi>(i \<mapsto> d)) k = Some e"
  show "k < csize c \<and> (\<exists>ssa. visit c k e = Ok ssa \<and>
      (\<forall>(j, x) \<in> set ssa. (\<phi>(i \<mapsto> d)) j = Some x \<or> (j, x) \<in> set ss \<union> P))"
  proof (cases "k = i")
    case True
    with k assms(3,4) show ?thesis by auto
  next
    case False
    with k have "\<phi> k = Some e" by simp
    with assms(1) obtain ssa where ssa: "k < csize c" "visit c k e = Ok ssa"
      "\<forall>(j, x) \<in> set ssa. \<phi> j = Some x \<or> (j, x) \<in> insert (i, d) P"
      unfolding closed_at_def by blast
    have "(\<phi>(i \<mapsto> d)) j = Some x \<or> (j, x) \<in> set ss \<union> P" if "(j, x) \<in> set ssa" for j x
    proof -
      from ssa(3) that have "\<phi> j = Some x \<or> (j, x) \<in> insert (i, d) P" by blast
      with assms(2) show ?thesis by (cases "j = i") auto
    qed
    with ssa show ?thesis by blast
  qed
qed

lemma worklist_no_panic:
  assumes "ok c"
  shows "length entry = csize c \<Longrightarrow> (\<And>i d. (i, d) \<in> set work \<Longrightarrow> i < csize c)
    \<Longrightarrow> worklist m (visit c) entry work \<noteq> Panic"
proof (induction m "visit c" entry work rule: worklist.induct)
  case (2 m entry i d work)
  have i: "i < csize c" "i < length entry" using "2.prems" by auto
  show ?case
  proof (cases "entry ! i")
    case None
    show ?thesis
    proof (cases "visit c i d")
      case (Ok ss)
      have "worklist m (visit c) (entry[i := Some d]) (rev ss @ work) \<noteq> Panic"
        using "2.prems" visit_range [OF assms i(1) Ok] by (intro "2.hyps"(1) [OF i(2) None Ok]) auto
      with None Ok i show ?thesis by simp
    qed (use None i visit_no_panic [OF assms i(1)] in auto)
  next
    case (Some prev)
    have "worklist m (visit c) entry work \<noteq> Panic" if "\<not> prev \<noteq> d"
      using "2.prems" by (intro "2.hyps"(2) [OF i(2) Some that]) auto
    with Some i show ?thesis by simp
  qed
qed simp

lemma worklist_sound:
  assumes "ok c"
  shows "worklist m (visit c) entry work = Ok entry' \<Longrightarrow> length entry = csize c
    \<Longrightarrow> closed_at c (assigned entry) (set work)
    \<Longrightarrow> length entry' = csize c \<and> closed_at c (assigned entry') {}
      \<and> (\<forall>(i, d) \<in> set work. assigned entry' i = Some d)
      \<and> (\<forall>i d. assigned entry i = Some d \<longrightarrow> assigned entry' i = Some d)"
proof (induction m "visit c" entry work rule: worklist.induct)
  case (1 m entry)
  then show ?case by auto
next
  case (2 m entry i d work)
  have i: "i < length entry" using "2.prems"(1) by (simp split: if_splits)
  show ?case
  proof (cases "entry ! i")
    case (Some prev)
    with "2.prems"(1) i have d: "prev = d" and rest: "worklist m (visit c) entry work = Ok entry'"
      by (simp_all split: if_splits)
    have "closed_at c (assigned entry) (set work)"
      by (rule closed_at_mono [OF "2.prems"(3)]) (use Some i d in \<open>auto simp: assigned_def\<close>)
    moreover have "assigned entry i = Some d" using Some i d by (simp add: assigned_def)
    ultimately show ?thesis using "2.hyps"(2) [OF i Some] d rest "2.prems"(2) by simp
  next
    case None
    with "2.prems"(1) i obtain ss where ss: "visit c i d = Ok ss"
      and rest: "worklist m (visit c) (entry[i := Some d]) (rev ss @ work) = Ok entry'"
      by (auto split: result.splits)
    have new: "assigned entry i = None" using None by (simp add: assigned_def)
    have cl: "closed_at c (assigned (entry[i := Some d])) (set (rev ss @ work))"
      using closed_at_visit [of c "assigned entry" i d "set work" ss] "2.prems"(2,3) i ss new
      by (simp add: assigned_update)
    have keep: "((assigned entry)(i \<mapsto> d)) k = Some e" if "assigned entry k = Some e" for k e
      using that new by auto
    from "2.hyps"(1) [OF i None ss rest _ cl] "2.prems"(2) show ?thesis
      unfolding assigned_update [OF i] using keep by simp
  qed
qed

lemma worklist_complete:
  assumes "ok c" and closed: "closed_at c \<phi> {}"
  shows "length entry = csize c \<Longrightarrow> (\<And>i d. assigned entry i = Some d \<Longrightarrow> \<phi> i = Some d)
    \<Longrightarrow> (\<And>i d. (i, d) \<in> set work \<Longrightarrow> \<phi> i = Some d)
    \<Longrightarrow> \<exists>entry'. worklist m (visit c) entry work = Ok entry'"
proof (induction m "visit c" entry work rule: worklist.induct)
  case (2 m entry i d work)
  have phi: "\<phi> i = Some d" using "2.prems"(3) by simp
  with closed have i: "i < length entry" and vis: "\<exists>ss. visit c i d = Ok ss \<and> (\<forall>(j, e) \<in> set ss. \<phi> j = Some e)"
    using "2.prems"(1) by (auto simp: closed_at_def)
  show ?case
  proof (cases "entry ! i")
    case (Some prev)
    have d: "\<not> prev \<noteq> d" using "2.prems"(2) [of i prev] Some i phi by (simp add: assigned_def)
    have "\<exists>entry'. worklist m (visit c) entry work = Ok entry'"
      using "2.prems" by (intro "2.hyps"(2) [OF i Some d]) auto
    with Some i d show ?thesis by simp
  next
    case None
    obtain ss where ss: "visit c i d = Ok ss" "\<forall>(j, e) \<in> set ss. \<phi> j = Some e" using vis by blast
    have "\<exists>entry'. worklist m (visit c) (entry[i := Some d]) (rev ss @ work) = Ok entry'"
      using "2.prems" ss(2) phi i
      by (intro "2.hyps"(1) [OF i None ss(1)]) (auto simp: assigned_update split: if_splits)
    with None i ss(1) show ?thesis by simp
  qed
qed simp

text \<open>The whole run from instruction 0 at depth 0.\<close>

lemma closed_empty: "closed_at c (assigned (replicate n None)) P"
  by (auto simp: closed_at_def assigned_def)

lemma run_no_panic:
  "ok c \<Longrightarrow> 0 < csize c \<Longrightarrow> worklist m (visit c) (replicate (csize c) None) [(0, 0)] \<noteq> Panic"
  by (rule worklist_no_panic) auto

lemma run_sound:
  assumes "ok c" and "worklist m (visit c) (replicate (csize c) None) [(0, 0)] = Ok entry"
  shows "length entry = csize c" "closed_at c (assigned entry) {}" "assigned entry 0 = Some 0"
  using worklist_sound [OF assms(1,2) _ closed_empty] by auto

lemma run_iff:
  assumes "ok c"
  shows "(\<exists>entry. worklist m (visit c) (replicate (csize c) None) [(0, 0)] = Ok entry)
    \<longleftrightarrow> (\<exists>\<phi>. closed_at c \<phi> {} \<and> \<phi> 0 = Some 0)"
proof
  assume "\<exists>entry. worklist m (visit c) (replicate (csize c) None) [(0, 0)] = Ok entry"
  then show "\<exists>\<phi>. closed_at c \<phi> {} \<and> \<phi> 0 = Some 0" using run_sound [OF assms] by blast
next
  assume "\<exists>\<phi>. closed_at c \<phi> {} \<and> \<phi> 0 = Some 0"
  then obtain \<phi> where \<phi>: "closed_at c \<phi> {}" "\<phi> 0 = Some 0" by blast
  show "\<exists>entry. worklist m (visit c) (replicate (csize c) None) [(0, 0)] = Ok entry"
    by (rule worklist_complete [OF assms \<phi>(1)]) (auto simp: \<phi>(2) assigned_def split: if_splits)
qed

end

end
