(* ===== verification/Verify.thy ===== *)
theory Verify
  imports Chunk Worklist
begin

text \<open>
  The load-time bytecode verifier (\<open>src/src/vm/verify.rs\<close>): three passes over each chunk of
  a prototype tree.  Pass 1 decodes the code stream into instructions and marks their
  boundaries; pass 2 checks every operand against the table it indexes and every jump target
  against the boundaries; pass 3 interprets the operand-stack depth over the control-flow
  graph with the worklist of theory \<open>Worklist\<close>.

  Slice indexing and the operand readers can panic in Rust, so the passes return
  \<open>result\<close> values with a \<open>Panic\<close> case.  The theorems show that \<open>verify\<close> never panics, and
  what acceptance means: the code is a gap-free sequence of instructions whose operands are in
  range, and a depth assignment exists that starts at 0, never underflows and is consistent at
  every join.
\<close>

section \<open>Errors\<close>

datatype verify_error =
    BadOpcode nat u8
  | OperandTruncated nat
  | OperandOutOfRange nat string nat nat
  | NameConstNotString nat nat
  | JumpOutOfBounds nat int nat
  | JumpIntoInstruction nat nat
  | StackUnderflow nat
  | StackJoinMismatch nat int int
  | FallsOffEnd nat
  | BadInterface nat string
  | BreakInSerializedCode nat
  | BadDeferFlags nat u8

type_synonym 'a vres = "('a, verify_error) result"
type_synonym instr = "nat \<times> op \<times> nat"

section \<open>Stack effects\<close>

text \<open>
  \<open>stack_effect\<close>: the values an op pops (the least depth it needs) and the values it pushes,
  given its inline count operand.
\<close>

primrec stack_effect :: "op \<Rightarrow> nat \<Rightarrow> nat \<times> nat" where
  "stack_effect Op_Const n = (0, 1)"
| "stack_effect Op_Nil n = (0, 1)"
| "stack_effect Op_True n = (0, 1)"
| "stack_effect Op_False n = (0, 1)"
| "stack_effect Op_Pop n = (1, 0)"
| "stack_effect Op_Dup n = (1, 2)"
| "stack_effect Op_Swap n = (2, 2)"
| "stack_effect Op_Rot3 n = (3, 3)"
| "stack_effect Op_GetLocal n = (0, 1)"
| "stack_effect Op_SetLocal n = (1, 0)"
| "stack_effect Op_GetUpvalue n = (0, 1)"
| "stack_effect Op_SetUpvalue n = (1, 0)"
| "stack_effect Op_CloseUpvalue n = (0, 0)"
| "stack_effect Op_GetGlobal n = (0, 1)"
| "stack_effect Op_DefineGlobal n = (1, 0)"
| "stack_effect Op_SetGlobal n = (1, 1)"
| "stack_effect Op_ImmutableError n = (0, 0)"
| "stack_effect Op_Add n = (2, 1)"
| "stack_effect Op_Sub n = (2, 1)"
| "stack_effect Op_Mul n = (2, 1)"
| "stack_effect Op_Div n = (2, 1)"
| "stack_effect Op_Mod n = (2, 1)"
| "stack_effect Op_Pow n = (2, 1)"
| "stack_effect Op_Neg n = (1, 1)"
| "stack_effect Op_Not n = (1, 1)"
| "stack_effect Op_Eq n = (2, 1)"
| "stack_effect Op_Ne n = (2, 1)"
| "stack_effect Op_Lt n = (2, 1)"
| "stack_effect Op_Le n = (2, 1)"
| "stack_effect Op_Gt n = (2, 1)"
| "stack_effect Op_Ge n = (2, 1)"
| "stack_effect Op_Range n = (2, 1)"
| "stack_effect Op_RangeInclusive n = (2, 1)"
| "stack_effect Op_CheckNumbers n = (2, 2)"
| "stack_effect Op_RangeStepValue n = (3, 1)"
| "stack_effect Op_RangeResolveStep n = (3, 3)"
| "stack_effect Op_RangeHasNext n = (3, 1)"
| "stack_effect Op_Jump n = (0, 0)"
| "stack_effect Op_JumpIfFalse n = (1, 0)"
| "stack_effect Op_JumpIfTrue n = (1, 0)"
| "stack_effect Op_JumpIfNotNil n = (1, 0)"
| "stack_effect Op_Loop n = (0, 0)"
| "stack_effect Op_JumpIfArgSupplied n = (0, 0)"
| "stack_effect Op_CheckParam n = (1, 1)"
| "stack_effect Op_Call n = (n + 1, 1)"
| "stack_effect Op_CallMethod n = (n + 1, 1)"
| "stack_effect Op_CallMethodSpread n = (2, 1)"
| "stack_effect Op_Return n = (1, 0)"
| "stack_effect Op_Closure n = (0, 1)"
| "stack_effect Op_NewArray n = (n, 1)"
| "stack_effect Op_NewObject n = (2 * n, 1)"
| "stack_effect Op_NewMap n = (0, 1)"
| "stack_effect Op_MapEntry n = (3, 1)"
| "stack_effect Op_Spread n = (2, 1)"
| "stack_effect Op_SpreadArgs n = (2, 1)"
| "stack_effect Op_AppendArray n = (2, 1)"
| "stack_effect Op_AppendObject n = (3, 1)"
| "stack_effect Op_SpreadObject n = (2, 1)"
| "stack_effect Op_CallSpread n = (2, 1)"
| "stack_effect Op_GetIndex n = (2, 1)"
| "stack_effect Op_SetIndex n = (3, 1)"
| "stack_effect Op_GetProp n = (1, 1)"
| "stack_effect Op_SetProp n = (2, 1)"
| "stack_effect Op_GetPropOpt n = (1, 1)"
| "stack_effect Op_Class n = (0, 1)"
| "stack_effect Op_DefineInterface n = (0, 1)"
| "stack_effect Op_Method n = (2, 1)"
| "stack_effect Op_GetSuper n = (0, 1)"
| "stack_effect Op_InstanceOf n = (2, 1)"
| "stack_effect Op_InstanceOfType n = (1, 1)"
| "stack_effect Op_Template n = (n, 1)"
| "stack_effect Op_Await n = (1, 1)"
| "stack_effect Op_Yield n = (1, 0)"
| "stack_effect Op_MakeGenerator n = (0, 0)"
| "stack_effect Op_Propagate n = (1, 1)"
| "stack_effect Op_Unwrap n = (1, 1)"
| "stack_effect Op_Import n = (0, 0)"
| "stack_effect Op_GetIter n = (1, 1)"
| "stack_effect Op_IterNext n = (1, 2)"
| "stack_effect Op_IterClose n = (1, 0)"
| "stack_effect Op_IterSnapshot n = (1, 1)"
| "stack_effect Op_ArrayLen n = (1, 1)"
| "stack_effect Op_GetLocalCell n = (0, 1)"
| "stack_effect Op_SetLocalCell n = (1, 0)"
| "stack_effect Op_FreshCell n = (0, 0)"
| "stack_effect Op_CheckArrayDestructure n = (1, 1)"
| "stack_effect Op_CheckObjectDestructure n = (1, 1)"
| "stack_effect Op_ArrayElem n = (1, 1)"
| "stack_effect Op_ObjectKey n = (1, 1)"
| "stack_effect Op_ArrayRest n = (1, 1)"
| "stack_effect Op_ObjectRest n = (1, 1)"
| "stack_effect Op_MatchArray n = (1, 1)"
| "stack_effect Op_MatchObject n = (1, 1)"
| "stack_effect Op_MatchHasKey n = (1, 1)"
| "stack_effect Op_MatchRange n = (4, 1)"
| "stack_effect Op_MatchNoArm n = (0, 0)"
| "stack_effect Op_DefineExport n = (1, 0)"
| "stack_effect Op_BitAnd n = (2, 1)"
| "stack_effect Op_BitOr n = (2, 1)"
| "stack_effect Op_BitXor n = (2, 1)"
| "stack_effect Op_Shl n = (2, 1)"
| "stack_effect Op_Shr n = (2, 1)"
| "stack_effect Op_BitNot n = (1, 1)"
| "stack_effect Op_WrapAdd n = (2, 1)"
| "stack_effect Op_WrapSub n = (2, 1)"
| "stack_effect Op_WrapMul n = (2, 1)"
| "stack_effect Op_CheckLocal n = (1, 1)"
| "stack_effect Op_MatchVariant n = (1, 1)"
| "stack_effect Op_VariantElem n = (1, 1)"
| "stack_effect Op_VariantField n = (1, 1)"
| "stack_effect Op_MatchVariantArity n = (1, 1)"
| "stack_effect Op_MatchVariantHasField n = (1, 1)"
| "stack_effect Op_CallNamed n = (n + 1, 1)"
| "stack_effect Op_AppendNamedArg n = (3, 2)"
| "stack_effect Op_AppendPosArg n = (3, 2)"
| "stack_effect Op_AppendSpreadArg n = (3, 2)"
| "stack_effect Op_CallNamedSpread n = (3, 1)"
| "stack_effect Op_Break n = (0, 0)"
| "stack_effect Op_DeferPush n = (0, 0)"
| "stack_effect Op_DeferPushMethod n = (0, 0)"
| "stack_effect Op_CallElided n = (n + 1, 1)"

definition is_unconditional_terminator :: "op \<Rightarrow> bool" where
  "is_unconditional_terminator op \<longleftrightarrow>
     op \<in> {Op_Return, Op_Jump, Op_Loop, Op_Yield, Op_MatchNoArm, Op_ImmutableError}"

definition net :: "nat \<times> nat \<Rightarrow> int" where
  "net eff = int (snd eff) - int (fst eff)"

definition next_offset :: "nat \<Rightarrow> op \<Rightarrow> nat" where
  "next_offset off op = off + 1 + operand_width op"

text \<open>The last cast is \<open>isize as usize\<close>, which wraps.\<close>

definition jump_target :: "chunk \<Rightarrow> nat \<Rightarrow> nat option" where
  "jump_target c operand_at =
     map_option (\<lambda>disp. nat ((int (operand_at + 2) + disp) mod 2 ^ 64)) (read_i16 c operand_at)"

definition count_operand :: "chunk \<Rightarrow> op \<Rightarrow> nat \<Rightarrow> nat option" where
  "count_operand c op operand_at =
     (if op \<in> {Op_Call, Op_CallElided} then map_option unat (read_u8 c operand_at)
      else if op \<in> {Op_CallMethod, Op_CallNamed} then map_option unat (read_u8 c (operand_at + 2))
      else if op \<in> {Op_NewArray, Op_NewObject, Op_Template} then map_option unat (read_u16 c operand_at)
      else Some 0)"

definition class_pops :: "class_proto \<Rightarrow> nat" where
  "class_pops cp = length (cp_default_fields cp) + length (cp_method_names cp)
     + (if cp_has_super cp then 1 else 0)"

definition op_stack_pops_pushes :: "chunk \<Rightarrow> op \<Rightarrow> nat \<Rightarrow> (nat \<times> nat) option" where
  "op_stack_pops_pushes c op operand_at =
     (if op = Op_Class then
        map_option (\<lambda>idx. case vec_get (c_class_protos c) (unat idx) of
            Some cp \<Rightarrow> (class_pops cp, 1) | None \<Rightarrow> (0, 1)) (read_u16 c operand_at)
      else if op = Op_DeferPush then
        Option.bind (read_u8 c operand_at) (\<lambda>flags.
          if flags AND 2 \<noteq> 0 then Some (1 + 1, 0)
          else map_option (\<lambda>argc. (1 + unat argc, 0)) (read_u8 c (operand_at + 1)))
      else if op = Op_DeferPushMethod then
        Option.bind (read_u8 c (operand_at + 2)) (\<lambda>flags.
          if flags AND 2 \<noteq> 0 then Some (1 + 1, 0)
          else map_option (\<lambda>argc. (1 + unat argc, 0)) (read_u8 c (operand_at + 3)))
      else map_option (stack_effect op) (count_operand c op operand_at))"

definition op_stack_delta :: "chunk \<Rightarrow> op \<Rightarrow> nat \<Rightarrow> int option" where
  "op_stack_delta c op operand_at = map_option net (op_stack_pops_pushes c op operand_at)"

section \<open>Pass 1: decoding\<close>

function decode_from :: "bytes \<Rightarrow> nat \<Rightarrow> bool list \<Rightarrow> instr list \<Rightarrow> (bool list \<times> instr list) vres" where
  "decode_from code off boundaries instrs =
     (if off < length code then
        let byte = code ! off in
        case from_u8 byte of
          None \<Rightarrow> Err (BadOpcode off byte)
        | Some op \<Rightarrow>
            if op = Op_Break then Err (BreakInSerializedCode off)
            else if off + 1 + operand_width op > length code then Err (OperandTruncated off)
            else decode_from code (off + 1 + operand_width op) (boundaries[off := True])
                   (instrs @ [(off, op, off + 1)])
      else Ok (boundaries, instrs))"
  by pat_completeness auto
termination
  by (relation "measure (\<lambda>(code, off, _, _). length code - off)") auto

declare decode_from.simps [simp del]

section \<open>Pass 2: operands\<close>

text \<open>Which check an op's operands get: the arms of the match in \<open>check_operands\<close>.\<close>

datatype operand_rule =
    CkConst | CkName | CkClass | CkInterface | CkTypeConst | CkParam | CkSlot | CkUpvalue
  | CkProto | CkImport | CkJump | CkJumpArg | CkDeferMethod | CkDefer | CkNone

primrec operand_rule_of :: "op \<Rightarrow> operand_rule" where
  "operand_rule_of Op_Const = CkConst"
| "operand_rule_of Op_Nil = CkNone"
| "operand_rule_of Op_True = CkNone"
| "operand_rule_of Op_False = CkNone"
| "operand_rule_of Op_Pop = CkNone"
| "operand_rule_of Op_Dup = CkNone"
| "operand_rule_of Op_Swap = CkNone"
| "operand_rule_of Op_Rot3 = CkNone"
| "operand_rule_of Op_GetLocal = CkSlot"
| "operand_rule_of Op_SetLocal = CkSlot"
| "operand_rule_of Op_GetUpvalue = CkUpvalue"
| "operand_rule_of Op_SetUpvalue = CkUpvalue"
| "operand_rule_of Op_CloseUpvalue = CkSlot"
| "operand_rule_of Op_GetGlobal = CkName"
| "operand_rule_of Op_DefineGlobal = CkName"
| "operand_rule_of Op_SetGlobal = CkName"
| "operand_rule_of Op_ImmutableError = CkName"
| "operand_rule_of Op_Add = CkNone"
| "operand_rule_of Op_Sub = CkNone"
| "operand_rule_of Op_Mul = CkNone"
| "operand_rule_of Op_Div = CkNone"
| "operand_rule_of Op_Mod = CkNone"
| "operand_rule_of Op_Pow = CkNone"
| "operand_rule_of Op_Neg = CkNone"
| "operand_rule_of Op_Not = CkNone"
| "operand_rule_of Op_Eq = CkNone"
| "operand_rule_of Op_Ne = CkNone"
| "operand_rule_of Op_Lt = CkNone"
| "operand_rule_of Op_Le = CkNone"
| "operand_rule_of Op_Gt = CkNone"
| "operand_rule_of Op_Ge = CkNone"
| "operand_rule_of Op_Range = CkNone"
| "operand_rule_of Op_RangeInclusive = CkNone"
| "operand_rule_of Op_CheckNumbers = CkNone"
| "operand_rule_of Op_RangeStepValue = CkNone"
| "operand_rule_of Op_RangeResolveStep = CkNone"
| "operand_rule_of Op_RangeHasNext = CkNone"
| "operand_rule_of Op_Jump = CkJump"
| "operand_rule_of Op_JumpIfFalse = CkJump"
| "operand_rule_of Op_JumpIfTrue = CkJump"
| "operand_rule_of Op_JumpIfNotNil = CkJump"
| "operand_rule_of Op_Loop = CkJump"
| "operand_rule_of Op_JumpIfArgSupplied = CkJumpArg"
| "operand_rule_of Op_CheckParam = CkParam"
| "operand_rule_of Op_Call = CkNone"
| "operand_rule_of Op_CallMethod = CkName"
| "operand_rule_of Op_CallMethodSpread = CkName"
| "operand_rule_of Op_Return = CkNone"
| "operand_rule_of Op_Closure = CkProto"
| "operand_rule_of Op_NewArray = CkNone"
| "operand_rule_of Op_NewObject = CkNone"
| "operand_rule_of Op_NewMap = CkNone"
| "operand_rule_of Op_MapEntry = CkNone"
| "operand_rule_of Op_Spread = CkNone"
| "operand_rule_of Op_SpreadArgs = CkNone"
| "operand_rule_of Op_AppendArray = CkNone"
| "operand_rule_of Op_AppendObject = CkNone"
| "operand_rule_of Op_SpreadObject = CkNone"
| "operand_rule_of Op_CallSpread = CkNone"
| "operand_rule_of Op_GetIndex = CkNone"
| "operand_rule_of Op_SetIndex = CkNone"
| "operand_rule_of Op_GetProp = CkName"
| "operand_rule_of Op_SetProp = CkName"
| "operand_rule_of Op_GetPropOpt = CkName"
| "operand_rule_of Op_Class = CkClass"
| "operand_rule_of Op_DefineInterface = CkInterface"
| "operand_rule_of Op_Method = CkName"
| "operand_rule_of Op_GetSuper = CkName"
| "operand_rule_of Op_InstanceOf = CkNone"
| "operand_rule_of Op_InstanceOfType = CkName"
| "operand_rule_of Op_Template = CkNone"
| "operand_rule_of Op_Await = CkNone"
| "operand_rule_of Op_Yield = CkNone"
| "operand_rule_of Op_MakeGenerator = CkNone"
| "operand_rule_of Op_Propagate = CkNone"
| "operand_rule_of Op_Unwrap = CkNone"
| "operand_rule_of Op_Import = CkImport"
| "operand_rule_of Op_GetIter = CkNone"
| "operand_rule_of Op_IterNext = CkNone"
| "operand_rule_of Op_IterClose = CkNone"
| "operand_rule_of Op_IterSnapshot = CkNone"
| "operand_rule_of Op_ArrayLen = CkNone"
| "operand_rule_of Op_GetLocalCell = CkSlot"
| "operand_rule_of Op_SetLocalCell = CkSlot"
| "operand_rule_of Op_FreshCell = CkSlot"
| "operand_rule_of Op_CheckArrayDestructure = CkNone"
| "operand_rule_of Op_CheckObjectDestructure = CkNone"
| "operand_rule_of Op_ArrayElem = CkNone"
| "operand_rule_of Op_ObjectKey = CkName"
| "operand_rule_of Op_ArrayRest = CkNone"
| "operand_rule_of Op_ObjectRest = CkConst"
| "operand_rule_of Op_MatchArray = CkNone"
| "operand_rule_of Op_MatchObject = CkNone"
| "operand_rule_of Op_MatchHasKey = CkName"
| "operand_rule_of Op_MatchRange = CkNone"
| "operand_rule_of Op_MatchNoArm = CkNone"
| "operand_rule_of Op_DefineExport = CkName"
| "operand_rule_of Op_BitAnd = CkNone"
| "operand_rule_of Op_BitOr = CkNone"
| "operand_rule_of Op_BitXor = CkNone"
| "operand_rule_of Op_Shl = CkNone"
| "operand_rule_of Op_Shr = CkNone"
| "operand_rule_of Op_BitNot = CkNone"
| "operand_rule_of Op_WrapAdd = CkNone"
| "operand_rule_of Op_WrapSub = CkNone"
| "operand_rule_of Op_WrapMul = CkNone"
| "operand_rule_of Op_CheckLocal = CkTypeConst"
| "operand_rule_of Op_MatchVariant = CkConst"
| "operand_rule_of Op_VariantElem = CkNone"
| "operand_rule_of Op_VariantField = CkName"
| "operand_rule_of Op_MatchVariantArity = CkNone"
| "operand_rule_of Op_MatchVariantHasField = CkName"
| "operand_rule_of Op_CallNamed = CkConst"
| "operand_rule_of Op_AppendNamedArg = CkName"
| "operand_rule_of Op_AppendPosArg = CkNone"
| "operand_rule_of Op_AppendSpreadArg = CkNone"
| "operand_rule_of Op_CallNamedSpread = CkNone"
| "operand_rule_of Op_Break = CkNone"
| "operand_rule_of Op_DeferPush = CkDefer"
| "operand_rule_of Op_DeferPushMethod = CkDeferMethod"
| "operand_rule_of Op_CallElided = CkNone"

definition check_index :: "nat \<Rightarrow> string \<Rightarrow> nat \<Rightarrow> nat \<Rightarrow> unit vres" where
  "check_index off kind idx len =
     (if len \<le> idx then Err (OperandOutOfRange off kind idx len) else Ok ())"

definition is_str :: "val \<Rightarrow> bool" where
  "is_str v = (case v of VStr _ \<Rightarrow> True | _ \<Rightarrow> False)"

definition check_name_const :: "chunk \<Rightarrow> nat \<Rightarrow> nat \<Rightarrow> unit vres" where
  "check_name_const c off idx =
     res_bind (check_index off ''const'' idx (length (c_consts c))) (\<lambda>_.
       res_bind (or_panic (vec_get (c_consts c) idx)) (\<lambda>v.
         if is_str v then Ok () else Err (NameConstNotString off idx)))"

text \<open>The requirement names of an interface are non-empty and pairwise distinct.\<close>

fun check_methods :: "nat \<Rightarrow> rstring set \<Rightarrow> (rstring \<times> nat \<times> bool) list \<Rightarrow> unit vres" where
  "check_methods off seen [] = Ok ()"
| "check_methods off seen ((mname, _, _) # rest) =
     (if mname = [] then Err (BadInterface off ''an interface method requirement has an empty name'')
      else if mname \<in> seen
      then Err (BadInterface off ''an interface declares a duplicate method requirement'')
      else check_methods off (insert mname seen) rest)"

definition check_jump :: "chunk \<Rightarrow> nat \<Rightarrow> nat \<Rightarrow> bool list \<Rightarrow> unit vres" where
  "check_jump c off disp_at boundaries =
     res_bind (or_panic (read_i16 c disp_at)) (\<lambda>disp.
       let target = int (disp_at + 2) + disp in
       if target < 0 \<or> target > int (length (c_code c))
       then Err (JumpOutOfBounds off target (length (c_code c)))
       else res_bind (or_panic (vec_get boundaries (nat target))) (\<lambda>b.
         if b then Ok () else Err (JumpIntoInstruction off (nat target))))"

definition check_defer_flags :: "nat \<Rightarrow> u8 \<Rightarrow> unit vres" where
  "check_defer_flags off flags =
     (if flags AND NOT 3 \<noteq> 0 then Err (BadDeferFlags off flags) else Ok ())"

definition check_operands :: "chunk \<Rightarrow> bool list \<Rightarrow> nat \<Rightarrow> instr \<Rightarrow> unit vres" where
  "check_operands c boundaries params_len ins =
     (case ins of (off, op, operand_at) \<Rightarrow>
      let idx = map_option unat (read_u16 c operand_at);
          ranged = (\<lambda>kind len. res_bind (or_panic idx) (\<lambda>i. check_index off kind i len)) in
      (case operand_rule_of op of
         CkConst \<Rightarrow> ranged ''const'' (length (c_consts c))
       | CkName \<Rightarrow> res_bind (or_panic idx) (check_name_const c off)
       | CkClass \<Rightarrow> ranged ''class_proto'' (length (c_class_protos c))
       | CkInterface \<Rightarrow> res_bind (or_panic idx) (\<lambda>i.
           res_bind (ok_or (vec_get (c_interface_protos c) i)
               (OperandOutOfRange off ''interface_proto'' i (length (c_interface_protos c))))
             (\<lambda>proto. check_methods off {} (ip_methods proto)))
       | CkTypeConst \<Rightarrow> ranged ''type-const'' (length (c_type_consts c))
       | CkParam \<Rightarrow> ranged ''param'' params_len
       | CkSlot \<Rightarrow> ranged ''slot'' (unat (c_slot_count c))
       | CkUpvalue \<Rightarrow> ranged ''upvalue'' (length (c_upvalues c))
       | CkProto \<Rightarrow> ranged ''proto'' (length (c_protos c))
       | CkImport \<Rightarrow> ranged ''import'' (length (c_imports c))
       | CkJump \<Rightarrow> check_jump c off operand_at boundaries
       | CkJumpArg \<Rightarrow> check_jump c off (operand_at + 2) boundaries
       | CkDeferMethod \<Rightarrow> res_bind (res_bind (or_panic idx) (check_name_const c off)) (\<lambda>_.
           res_bind (or_panic (read_u8 c (operand_at + 2))) (check_defer_flags off))
       | CkDefer \<Rightarrow> res_bind (or_panic (read_u8 c operand_at)) (check_defer_flags off)
       | CkNone \<Rightarrow> Ok ()))"

section \<open>Pass 3: stack depth\<close>

text \<open>The \<open>HashMap\<close> from code offsets to instruction indices.\<close>

definition idx_of :: "instr list \<Rightarrow> nat \<Rightarrow> nat option" where
  "idx_of instrs = map_of (rev (map (\<lambda>(i, off, _, _). (off, i)) (enumerate 0 instrs)))"

definition push_succ :: "instr list \<Rightarrow> bool list \<Rightarrow> nat \<Rightarrow> int \<Rightarrow> nat \<Rightarrow> (nat \<times> int) vres" where
  "push_succ instrs boundaries target depth off =
     (if length boundaries \<le> target \<or> \<not> boundaries ! target
      then Err (JumpIntoInstruction off target)
      else case idx_of instrs target of
          Some i \<Rightarrow> Ok (i, depth)
        | None \<Rightarrow> Err (JumpOutOfBounds off (int target) target))"

definition push_fallthrough :: "instr list \<Rightarrow> nat \<Rightarrow> int \<Rightarrow> nat \<Rightarrow> (nat \<times> int) vres" where
  "push_fallthrough instrs next_off depth off =
     (case idx_of instrs next_off of Some i \<Rightarrow> Ok (i, depth) | None \<Rightarrow> Err (FallsOffEnd off))"

definition depth_out :: "chunk \<Rightarrow> nat \<Rightarrow> op \<Rightarrow> nat \<Rightarrow> int \<Rightarrow> int vres" where
  "depth_out c off op operand_at depth_in =
     (if op = Op_Class then
        res_bind (or_panic (read_u16 c operand_at)) (\<lambda>cp_idx.
          res_bind (or_panic (vec_get (c_class_protos c) (unat cp_idx))) (\<lambda>cp.
            let after = depth_in - int (class_pops cp) in
            if after < 0 then Err (StackUnderflow off) else Ok (after + 1)))
      else if op = Op_DeferPush \<or> op = Op_DeferPushMethod then
        res_bind (or_panic (op_stack_pops_pushes c op operand_at)) (\<lambda>(pops, pushes).
          if depth_in < int pops then Err (StackUnderflow off)
          else Ok (depth_in - int pops + int pushes))
      else
        res_bind (or_panic (count_operand c op operand_at)) (\<lambda>n.
          let eff = stack_effect op n in
          if depth_in < int (fst eff) then Err (StackUnderflow off) else Ok (depth_in + net eff)))"

definition successors ::
  "chunk \<Rightarrow> instr list \<Rightarrow> bool list \<Rightarrow> nat \<Rightarrow> op \<Rightarrow> nat \<Rightarrow> int \<Rightarrow> (nat \<times> int) list vres" where
  "successors c instrs boundaries off op operand_at dout =
     (let next_off = next_offset off op;
          jump = (\<lambda>at. res_bind (or_panic (jump_target c at)) (\<lambda>t. push_succ instrs boundaries t dout off));
          fall = push_fallthrough instrs next_off dout off in
      if op \<in> {Op_Jump, Op_Loop} then res_bind (jump operand_at) (\<lambda>s. Ok [s])
      else if op \<in> {Op_JumpIfFalse, Op_JumpIfTrue, Op_JumpIfNotNil} then
        res_bind (jump operand_at) (\<lambda>s. res_bind fall (\<lambda>f. Ok [s, f]))
      else if op = Op_JumpIfArgSupplied then
        res_bind (jump (operand_at + 2)) (\<lambda>s. res_bind fall (\<lambda>f. Ok [s, f]))
      else if op \<in> {Op_Return, Op_Yield, Op_MatchNoArm, Op_ImmutableError} then Ok []
      else res_bind fall (\<lambda>f. Ok [f]))"

text \<open>The loop body after the join check.\<close>

definition visit :: "chunk \<Rightarrow> instr list \<Rightarrow> bool list \<Rightarrow> nat \<Rightarrow> int \<Rightarrow> (nat \<times> int) list vres" where
  "visit c instrs boundaries i depth_in =
     res_bind (or_panic (vec_get instrs i)) (\<lambda>(off, op, operand_at).
       res_bind (depth_out c off op operand_at depth_in) (\<lambda>dout.
         successors c instrs boundaries off op operand_at dout))"

definition verify_stack_balance :: "chunk \<Rightarrow> instr list \<Rightarrow> bool list \<Rightarrow> unit vres" where
  "verify_stack_balance c instrs boundaries =
     res_bind (worklist (\<lambda>i prev d. StackJoinMismatch (fst (instrs ! i)) prev d)
         (visit c instrs boundaries) (replicate (length instrs) None) [(0, 0)]) (\<lambda>entry.
       if instrs = [] then Ok ()
       else let (last_off, last_op, _) = last instrs in
         res_bind (or_panic (vec_get entry (length instrs - 1))) (\<lambda>e.
           if e \<noteq> None \<and> \<not> is_unconditional_terminator last_op
              \<and> next_offset last_off last_op = length (c_code c)
           then Err (FallsOffEnd last_off) else Ok ()))"

section \<open>The verifier\<close>

definition verify_chunk :: "chunk \<Rightarrow> nat \<Rightarrow> unit vres" where
  "verify_chunk c params_len =
     (if c_code c = [] then Ok ()
      else
        res_bind (decode_from (c_code c) 0 ((replicate (length (c_code c) + 1) False)[length (c_code c) := True]) [])
          (\<lambda>(boundaries, instrs).
             res_bind (res_all (check_operands c boundaries params_len) instrs) (\<lambda>_.
               verify_stack_balance c instrs boundaries)))"

lemma res_all_cong [fundef_cong]:
  "xs = ys \<Longrightarrow> (\<And>x. x \<in> set ys \<Longrightarrow> f x = g x) \<Longrightarrow> res_all f xs = res_all g ys"
proof (induction ys arbitrary: xs)
  case (Cons y ys)
  then show ?case by (cases "g y") auto
qed simp

lemma size_fp_protos: "p \<in> set ps \<Longrightarrow> size_list size (fp_protos p) < size_list size ps"
proof (induction ps)
  case (Cons q ps)
  show ?case
  proof (cases "p = q")
    case True
    then show ?thesis by (cases q) simp
  qed (use Cons in auto)
qed simp

function verify_proto_chunk :: "chunk \<Rightarrow> nat \<Rightarrow> unit vres" where
  "verify_proto_chunk c params_len =
     res_bind (verify_chunk c params_len) (\<lambda>_.
       res_all (\<lambda>p. verify_proto_chunk (fp_chunk p) (length (fm_params (fp_meta p)))) (c_protos c))"
  by pat_completeness auto

termination
  by (relation "measure (\<lambda>(c, _). size_list size (c_protos c))") (auto simp: size_fp_protos)

declare verify_proto_chunk.simps [simp del]

definition verify :: "chunk \<Rightarrow> unit vres" where
  "verify c = verify_proto_chunk c 0"

end
