(* ===== verification/VerifyProps.thy ===== *)
theory VerifyProps
  imports Verify
begin

text \<open>
  What the verifier of theory \<open>Verify\<close> guarantees: pass 1 yields a gap-free decoding, pass 2
  puts every operand in range, the depth pass meets the interface of \<open>depth_analysis\<close>, and
  together the verifier never panics and accepts exactly the code with a consistent depth
  assignment.
\<close>

section \<open>Pass 1\<close>

text \<open>The reference decoding: instructions follow each other without gap to the end of the code.\<close>

fun instr_chain :: "bytes \<Rightarrow> nat \<Rightarrow> instr list \<Rightarrow> bool" where
  "instr_chain code off [] \<longleftrightarrow> off = length code"
| "instr_chain code off ((o', op, at) # rest) \<longleftrightarrow>
     o' = off \<and> off < length code \<and> from_u8 (code ! off) = Some op \<and> op \<noteq> Op_Break \<and> at = off + 1
     \<and> off + 1 + operand_width op \<le> length code \<and> instr_chain code (off + 1 + operand_width op) rest"

definition decoded :: "bytes \<Rightarrow> bool list \<Rightarrow> instr list \<Rightarrow> bool" where
  "decoded code boundaries instrs \<longleftrightarrow> instr_chain code 0 instrs \<and> length boundaries = length code + 1
     \<and> (\<forall>k \<le> length code. boundaries ! k \<longleftrightarrow> k = length code \<or> k \<in> fst ` set instrs)"

lemma decode_from_no_panic: "decode_from code off b is \<noteq> Panic"
  by (induction code off b "is" rule: decode_from.induct)
    (subst decode_from.simps, auto simp: Let_def split: option.split)

lemma decode_from_Ok:
  "decode_from code off b is = Ok (b', is') \<Longrightarrow> off \<le> length code \<Longrightarrow>
    \<exists>rest. is' = is @ rest \<and> instr_chain code off rest \<and> length b' = length b
      \<and> (\<forall>k < length b. b' ! k \<longleftrightarrow> b ! k \<or> k \<in> fst ` set rest)"
proof (induction code off b "is" rule: decode_from.induct)
  case (1 code off b "is")
  show ?case
  proof (cases "off < length code")
    case True
    with "1.prems"(1) obtain op where op: "from_u8 (code ! off) = Some op" "op \<noteq> Op_Break"
      and w: "\<not> length code < off + 1 + operand_width op"
      and rest: "decode_from code (off + 1 + operand_width op) (b[off := True]) (is @ [(off, op, off + 1)])
        = Ok (b', is')"
      by (subst (asm) decode_from.simps) (auto simp: Let_def split: option.splits if_splits)
    from "1.IH" [OF True refl op w rest] w obtain tl where
      "is' = (is @ [(off, op, off + 1)]) @ tl" "instr_chain code (off + 1 + operand_width op) tl"
      "length b' = length (b[off := True])"
      "\<forall>k < length (b[off := True]). b' ! k \<longleftrightarrow> b[off := True] ! k \<or> k \<in> fst ` set tl"
      by auto
    moreover have "b[off := True] ! k \<longleftrightarrow> b ! k \<or> k = off" if "k < length b" for k
      using that by (cases "k = off") simp_all
    ultimately show ?thesis
      using True op w by (intro exI [of _ "(off, op, off + 1) # tl"]) auto
  next
    case False
    with "1.prems" show ?thesis by (simp add: decode_from.simps [of code off])
  qed
qed

lemma decoded_start:
  assumes "decode_from code 0 ((replicate (length code + 1) False)[length code := True]) [] = Ok (b, is)"
  shows "decoded code b is"
proof -
  define b0 where "b0 = (replicate (length code + 1) False)[length code := True]"
  have b0: "length b0 = length code + 1" "\<And>k. k \<le> length code \<Longrightarrow> b0 ! k \<longleftrightarrow> k = length code"
    by (simp_all only: b0_def length_list_update length_replicate) (auto simp: nth_list_update simp del: replicate_Suc)
  from decode_from_Ok [OF assms [folded b0_def]] b0 show ?thesis
    by (auto simp: decoded_def)
qed

lemma chain_mem:
  "instr_chain code off is \<Longrightarrow> (o', op, at) \<in> set is \<Longrightarrow>
     off \<le> o' \<and> o' < length code \<and> from_u8 (code ! o') = Some op \<and> op \<noteq> Op_Break \<and> at = o' + 1
     \<and> at + operand_width op \<le> length code"
  by (induction code off "is" rule: instr_chain.induct) auto

lemma chain_distinct: "instr_chain code off is \<Longrightarrow> distinct (map fst is)"
proof (induction code off "is" rule: instr_chain.induct)
  case (2 code off o' op at rest)
  have "off \<notin> fst ` set rest"
    using chain_mem [of code "off + 1 + operand_width op" rest] "2.prems" by fastforce
  with 2 show ?case by simp
qed simp

lemma chain_complete:
  "instr_chain code off is \<Longrightarrow> (o', op, at) \<in> set is \<Longrightarrow>
     o' + 1 + operand_width op = length code \<or> o' + 1 + operand_width op \<in> fst ` set is"
proof (induction code off "is" rule: instr_chain.induct)
  case (2 code off p oq a rest)
  show ?case
  proof (cases "(o', op, at) \<in> set rest")
    case False
    with "2.prems" show ?thesis by (cases rest) (auto simp: image_iff)
  qed (use 2 in auto)
qed simp

lemma idx_of_Some:
  assumes "distinct (map fst is)"
  shows "idx_of is t = Some i \<longleftrightarrow> i < length is \<and> fst (is ! i) = t"
proof -
  let ?m = "map (\<lambda>(i, off, _, _). (off, i)) (enumerate 0 is)"
  have fsts: "map fst (map (\<lambda>(i, off, _, _). (off, i)) (enumerate k is)) = map fst is" for k
    by (induction "is" arbitrary: k) auto
  have "idx_of is t = Some i \<longleftrightarrow> (t, i) \<in> set ?m"
    using assms unfolding idx_of_def
    by (subst map_of_eq_Some_iff) (simp_all only: rev_map [symmetric] fsts distinct_rev set_rev)
  also have "\<dots> \<longleftrightarrow> i < length is \<and> fst (is ! i) = t"
  proof -
    have "(\<lambda>(i, off, _, _). (off, i)) = (\<lambda>p :: nat \<times> instr. (fst (snd p), fst p))"
      by (auto simp: fun_eq_iff)
    then show ?thesis by (auto simp: image_iff in_set_enumerate_eq intro!: bexI [of _ "(i, is ! i)"])
  qed
  finally show ?thesis .
qed

section \<open>Pass 2\<close>

text \<open>The operand bytes a rule reads are part of the instruction.\<close>

lemma operand_rule_width:
  "operand_rule_of op \<notin> {CkNone, CkDefer} \<Longrightarrow> 2 \<le> operand_width op"
  "operand_rule_of op = CkDefer \<Longrightarrow> 2 \<le> operand_width op"
  "operand_rule_of op \<in> {CkJumpArg, CkDeferMethod} \<Longrightarrow> operand_width op = 4"
  by (cases op; simp)+

lemma read_u16_in: "at + 2 \<le> length (c_code c) \<Longrightarrow> \<exists>w. read_u16 c at = Some w"
  by (simp add: read_u16_def)

lemma read_i16_in: "at + 2 \<le> length (c_code c) \<Longrightarrow> \<exists>d. read_i16 c at = Some d"
  by (simp add: read_i16_def read_u16_def)

lemma read_u8_in: "at < length (c_code c) \<Longrightarrow> \<exists>b. read_u8 c at = Some b"
  by (simp add: read_u8_def vec_get_def)

lemma check_index_iff [simp]:
  "check_index off kind idx len = Ok u \<longleftrightarrow> idx < len" "check_index off kind idx len \<noteq> Panic"
  by (auto simp: check_index_def)

lemma check_name_const_iff [simp]:
  "check_name_const c off idx = Ok u \<longleftrightarrow> idx < length (c_consts c) \<and> is_str (c_consts c ! idx)"
  "check_name_const c off idx \<noteq> Panic"
  by (auto simp: check_name_const_def split: if_splits)

lemma check_methods_Ok:
  "check_methods off seen ms = Ok u \<longleftrightarrow>
     [] \<notin> fst ` set ms \<and> distinct (map fst ms) \<and> fst ` set ms \<inter> seen = {}"
  by (induction off seen ms rule: check_methods.induct) auto

lemma check_methods_no_panic [simp]: "check_methods off seen ms \<noteq> Panic"
  by (induction off seen ms rule: check_methods.induct) auto

lemma check_jump_no_panic:
  assumes "at + 2 \<le> length (c_code c)" and "length boundaries = length (c_code c) + 1"
  shows "check_jump c off at boundaries \<noteq> Panic"
  using assms read_i16_in [OF assms(1)] by (auto simp: check_jump_def Let_def)

lemma check_jump_Ok:
  "check_jump c off at boundaries = Ok u \<Longrightarrow>
    \<exists>d. read_i16 c at = Some d \<and> 0 \<le> int (at + 2) + d \<and> int (at + 2) + d \<le> int (length (c_code c))
      \<and> nat (int (at + 2) + d) < length boundaries \<and> boundaries ! nat (int (at + 2) + d)"
  by (auto simp: check_jump_def Let_def split: if_splits)

lemma check_defer_flags_no_panic [simp]: "check_defer_flags off f \<noteq> Panic"
  by (simp add: check_defer_flags_def)

lemma check_operands_no_panic:
  assumes "decoded (c_code c) boundaries is" and "(off, op, at) \<in> set is"
  shows "check_operands c boundaries n (off, op, at) \<noteq> Panic"
proof -
  have b: "length boundaries = length (c_code c) + 1" and w: "at + operand_width op \<le> length (c_code c)"
    using assms chain_mem [of "c_code c" 0 "is" off op at] by (auto simp: decoded_def)
  note rw = operand_rule_width [of op]
  show ?thesis
  proof (cases "operand_rule_of op")
    case CkDeferMethod
    with rw w obtain i f where "read_u16 c at = Some i" "read_u8 c (at + 2) = Some f"
      using read_u16_in [of at c] read_u8_in [of "at + 2" c] by auto
    with CkDeferMethod show ?thesis by (auto simp: check_operands_def Let_def)
  next
    case CkDefer
    with rw w obtain f where "read_u8 c at = Some f" using read_u8_in [of at c] by auto
    with CkDefer show ?thesis by (auto simp: check_operands_def Let_def)
  next
    case CkJump
    with rw w b show ?thesis using check_jump_no_panic [of at c boundaries] by (auto simp: check_operands_def Let_def)
  next
    case CkJumpArg
    with rw w b show ?thesis
      using check_jump_no_panic [of "at + 2" c boundaries] by (auto simp: check_operands_def Let_def)
  qed (use rw w read_u16_in [of at c] in \<open>auto simp: check_operands_def Let_def\<close>)
qed

text \<open>
  What the operand checks establish, spelled out: the ranges the run loop relies on when it
  indexes a table without a check of its own.
\<close>

definition operand_in_range :: "chunk \<Rightarrow> nat \<Rightarrow> op \<Rightarrow> nat \<Rightarrow> bool" where
  "operand_in_range c params_len op at =
     (let below = (\<lambda>n. \<exists>w. read_u16 c at = Some w \<and> unat w < n);
          str = (\<exists>w. read_u16 c at = Some w \<and> unat w < length (c_consts c) \<and> is_str (c_consts c ! unat w)) in
      (case operand_rule_of op of
         CkConst \<Rightarrow> below (length (c_consts c))
       | CkName \<Rightarrow> str
       | CkClass \<Rightarrow> below (length (c_class_protos c))
       | CkInterface \<Rightarrow> \<exists>w. read_u16 c at = Some w \<and> unat w < length (c_interface_protos c)
           \<and> distinct (map fst (ip_methods (c_interface_protos c ! unat w)))
           \<and> [] \<notin> fst ` set (ip_methods (c_interface_protos c ! unat w))
       | CkTypeConst \<Rightarrow> below (length (c_type_consts c))
       | CkParam \<Rightarrow> below params_len
       | CkSlot \<Rightarrow> below (unat (c_slot_count c))
       | CkUpvalue \<Rightarrow> below (length (c_upvalues c))
       | CkProto \<Rightarrow> below (length (c_protos c))
       | CkImport \<Rightarrow> below (length (c_imports c))
       | CkDeferMethod \<Rightarrow> str
       | _ \<Rightarrow> True))"

lemma check_operands_in_range:
  "check_operands c boundaries n (off, op, at) = Ok () \<Longrightarrow> operand_in_range c n op at"
  by (cases "operand_rule_of op") (auto simp: check_operands_def operand_in_range_def Let_def check_methods_Ok)

section \<open>Pass 3\<close>

text \<open>
  The code under analysis: the chunk, its instructions and boundaries and the parameter count
  the operands were checked with.
\<close>

type_synonym code_ctx = "chunk \<times> instr list \<times> bool list \<times> nat"

definition checked :: "code_ctx \<Rightarrow> bool" where
  "checked = (\<lambda>(c, is, b, n). decoded (c_code c) b is \<and> c_code c \<noteq> []
     \<and> (\<forall>ins \<in> set is. check_operands c b n ins = Ok ()))"

definition ctx_size :: "code_ctx \<Rightarrow> nat" where
  "ctx_size = (\<lambda>(c, is, b, n). length is)"

definition ctx_visit :: "code_ctx \<Rightarrow> nat \<Rightarrow> int \<Rightarrow> (nat \<times> int) list vres" where
  "ctx_visit = (\<lambda>(c, is, b, n). visit c is b)"

lemma count_operand_in:
  "at + operand_width op \<le> length (c_code c) \<Longrightarrow> \<exists>n. count_operand c op at = Some n"
  by (auto simp: count_operand_def read_u16_def read_u8_def)

lemma defer_pops_in:
  assumes "op = Op_DeferPush \<or> op = Op_DeferPushMethod" "at + operand_width op \<le> length (c_code c)"
  shows "\<exists>p. op_stack_pops_pushes c op at = Some p"
  using assms read_u8_in [of at c] read_u8_in [of "at + 1" c] read_u8_in [of "at + 2" c] read_u8_in [of "at + 3" c]
  by (auto simp: op_stack_pops_pushes_def split: option.splits)

lemma depth_out_no_panic:
  assumes w: "at + operand_width op \<le> length (c_code c)" and ck: "check_operands c b n (off, op, at) = Ok ()"
  shows "depth_out c off op at d \<noteq> Panic"
proof -
  consider "op = Op_Class" | "op = Op_DeferPush \<or> op = Op_DeferPushMethod"
    | "op \<noteq> Op_Class" "\<not> (op = Op_DeferPush \<or> op = Op_DeferPushMethod)" by blast
  then show ?thesis
  proof cases
    case 1
    with check_operands_in_range [OF ck] show ?thesis
      by (auto simp: operand_in_range_def depth_out_def Let_def vec_get_def)
  next
    case 2
    with defer_pops_in [OF 2 w] show ?thesis by (auto simp: depth_out_def)
  next
    case 3
    with count_operand_in [OF w] show ?thesis by (auto simp: depth_out_def Let_def)
  qed
qed

lemma push_succ_no_panic [simp]: "push_succ is b t d off \<noteq> Panic"
  by (auto simp: push_succ_def split: option.split)

lemma push_fallthrough_no_panic [simp]: "push_fallthrough is t d off \<noteq> Panic"
  by (auto simp: push_fallthrough_def split: option.split)

lemma jump_target_in: "at + 2 \<le> length (c_code c) \<Longrightarrow> \<exists>t. jump_target c at = Some t"
  using read_i16_in [of at c] by (auto simp: jump_target_def)

lemma successors_no_panic:
  assumes w: "at + operand_width op \<le> length (c_code c)"
  shows "successors c is b off op at d \<noteq> Panic"
  using w jump_target_in [of at c] jump_target_in [of "at + 2" c]
  by (auto simp: successors_def Let_def)

lemma idx_of_range: "idx_of is t = Some i \<Longrightarrow> i < length is"
  unfolding idx_of_def by (drule map_of_SomeD) (auto simp: in_set_enumerate_eq)

lemma successors_range:
  "successors c is b off op at d = Ok ss \<Longrightarrow> (j, e) \<in> set ss \<Longrightarrow> j < length is"
  by (auto simp: successors_def push_succ_def push_fallthrough_def Let_def
      split: if_splits option.splits dest: idx_of_range)

text \<open>The depth pass of the verifier as an instance of the worklist analysis.\<close>

interpretation va: depth_analysis checked ctx_size ctx_visit
proof
  fix ctx i d assume "checked ctx" and "i < ctx_size ctx"
  moreover obtain c "is" b n where ctx: "ctx = (c, is, b, n)" by (cases ctx)
  ultimately have dec: "decoded (c_code c) b is" and i: "i < length is"
    and ck: "\<forall>ins \<in> set is. check_operands c b n ins = Ok ()"
    by (auto simp: checked_def ctx_size_def)
  obtain off op at where ins: "is ! i = (off, op, at)" by (cases "is ! i")
  with i have mem: "(off, op, at) \<in> set is" by (metis nth_mem)
  then have w: "at + operand_width op \<le> length (c_code c)"
    using dec chain_mem [of "c_code c" 0 "is" off op at] by (auto simp: decoded_def)
  show "ctx_visit ctx i d \<noteq> Panic"
    using depth_out_no_panic [OF w] ck mem successors_no_panic [OF w] i ins
    by (auto simp: ctx ctx_visit_def visit_def vec_get_def)
  fix ss j e assume "ctx_visit ctx i d = Ok ss" and "(j, e) \<in> set ss"
  then show "j < ctx_size ctx"
    by (auto simp: ctx ctx_visit_def visit_def ctx_size_def dest: successors_range split: prod.splits)
qed

text \<open>
  A consistent depth assignment of a chunk's instructions: every instruction that has a depth
  passes its depth check and gives each successor the depth assigned to it.
\<close>

definition consistent_depths :: "chunk \<Rightarrow> instr list \<Rightarrow> bool list \<Rightarrow> (nat \<Rightarrow> int option) \<Rightarrow> bool" where
  "consistent_depths c is b \<phi> \<longleftrightarrow> (\<forall>i d. \<phi> i = Some d \<longrightarrow>
     i < length is \<and> (\<exists>ss. visit c is b i d = Ok ss \<and> (\<forall>(j, e) \<in> set ss. \<phi> j = Some e)))"

lemma closed_at_consistent: "va.closed_at (c, is, b, n) \<phi> {} \<longleftrightarrow> consistent_depths c is b \<phi>"
  unfolding va.closed_at_def by (simp add: consistent_depths_def ctx_size_def ctx_visit_def)

lemma va_assigned: "va.assigned entry i = (if i < length entry then entry ! i else None)"
  by (rule va.assigned_def)

section \<open>The whole verifier\<close>

lemma checked_nonempty: "checked (c, is, b, n) \<Longrightarrow> is \<noteq> []"
  by (auto simp: checked_def decoded_def)

lemma successors_fallthrough:
  assumes "successors c is b off op at d = Ok ss" and "\<not> is_unconditional_terminator op"
  shows "idx_of is (next_offset off op) \<noteq> None"
  using assms
  by (auto simp: successors_def push_fallthrough_def is_unconditional_terminator_def Let_def
      split: if_splits option.splits)

lemma idx_of_end:
  assumes "decoded (c_code c) b is"
  shows "idx_of is (length (c_code c)) = None"
proof (rule ccontr)
  assume "idx_of is (length (c_code c)) \<noteq> None"
  moreover have "distinct (map fst is)" using assms chain_distinct by (auto simp: decoded_def)
  ultimately obtain i where "i < length is" "fst (is ! i) = length (c_code c)"
    by (auto simp: idx_of_Some)
  with assms chain_mem [of "c_code c" 0 "is"] show False
    by (metis decoded_def less_irrefl nth_mem prod.collapse)
qed

lemma run_analysis:
  "checked (c, is, b, n) \<Longrightarrow> worklist m (visit c is b) (replicate (length is) None) [(0, 0)] \<noteq> Panic"
  using va.run_no_panic [of "(c, is, b, n)" m] checked_nonempty
  by (auto simp: ctx_size_def ctx_visit_def)

lemma run_analysis_Ok:
  assumes "checked (c, is, b, n)"
    and "worklist m (visit c is b) (replicate (length is) None) [(0, 0)] = Ok entry"
  shows "length entry = length is" "consistent_depths c is b (va.assigned entry)" "va.assigned entry 0 = Some 0"
  using va.run_sound [OF assms(1), of m entry] assms(2)
  by (simp_all add: ctx_size_def ctx_visit_def flip: closed_at_consistent [of _ _ _ n])

lemma run_analysis_iff:
  "checked (c, is, b, n) \<Longrightarrow>
    (\<exists>entry. worklist m (visit c is b) (replicate (length is) None) [(0, 0)] = Ok entry)
    \<longleftrightarrow> (\<exists>\<phi>. consistent_depths c is b \<phi> \<and> \<phi> 0 = Some 0)"
  using va.run_iff [of "(c, is, b, n)" m]
  by (simp add: ctx_size_def ctx_visit_def flip: closed_at_consistent [of _ _ _ n])

text \<open>The check on the last instruction never fires: the fall-through check was there first.\<close>

lemma tail_check_redundant:
  assumes ck: "checked (c, is, b, n)" and con: "consistent_depths c is b \<phi>"
    and l: "\<phi> (length is - 1) = Some d" and last: "last is = (off, op, at)"
    and nt: "\<not> is_unconditional_terminator op"
  shows "next_offset off op \<noteq> length (c_code c)"
proof -
  have ins: "is ! (length is - 1) = (off, op, at)"
    using last checked_nonempty [OF ck] by (simp add: last_conv_nth)
  from con l obtain ss where "visit c is b (length is - 1) d = Ok ss"
    unfolding consistent_depths_def by blast
  with ins obtain dout where "successors c is b off op at dout = Ok ss" by (auto simp: visit_def)
  from successors_fallthrough [OF this nt] idx_of_end ck show ?thesis
    by (fastforce simp: checked_def)
qed

lemma verify_stack_balance_iff:
  assumes ck: "checked (c, is, b, n)"
  shows "verify_stack_balance c is b \<noteq> Panic"
    and "verify_stack_balance c is b = Ok () \<longleftrightarrow> (\<exists>\<phi>. consistent_depths c is b \<phi> \<and> \<phi> 0 = Some 0)"
proof -
  let ?m = "\<lambda>i prev d. StackJoinMismatch (fst (is ! i)) prev d"
  let ?run = "worklist ?m (visit c is b) (replicate (length is) None) [(0, 0)]"
  obtain off op at where last: "last is = (off, op, at)" by (cases "last is")
  note ne = checked_nonempty [OF ck]
  have ok: "verify_stack_balance c is b = Ok ()" if "?run = Ok entry" for entry
  proof -
    note run = run_analysis_Ok [OF ck that]
    have "next_offset off op \<noteq> length (c_code c)"
      if "entry ! (length is - 1) \<noteq> None" "\<not> is_unconditional_terminator op"
    proof -
      from that(1) obtain d where "va.assigned entry (length is - 1) = Some d"
        using run(1) ne by (auto simp: va_assigned)
      from tail_check_redundant [OF ck run(2) this last that(2)] show ?thesis .
    qed
    then show ?thesis
      using that last run(1) ne by (auto simp: verify_stack_balance_def vec_get_def)
  qed
  show "verify_stack_balance c is b \<noteq> Panic"
  proof (cases ?run)
    case (Err e)
    then show ?thesis by (simp add: verify_stack_balance_def)
  qed (use ok run_analysis [OF ck] in auto)
  have "verify_stack_balance c is b = Ok () \<longleftrightarrow> (\<exists>entry. ?run = Ok entry)"
    using ok by (auto simp: verify_stack_balance_def)
  then show "verify_stack_balance c is b = Ok () \<longleftrightarrow> (\<exists>\<phi>. consistent_depths c is b \<phi> \<and> \<phi> 0 = Some 0)"
    using run_analysis_iff [OF ck, of ?m] by (simp only:)
qed

lemma verify_chunk_cases:
  assumes "c_code c \<noteq> []"
  obtains (decode) e where "verify_chunk c n = Err e"
  | (passed) b "is" where "decoded (c_code c) b is"
      "verify_chunk c n = res_bind (res_all (check_operands c b n) is) (\<lambda>_. verify_stack_balance c is b)"
proof -
  let ?d = "decode_from (c_code c) 0 ((replicate (length (c_code c) + 1) False)[length (c_code c) := True]) []"
  show thesis
  proof (cases ?d)
    case (Ok p)
    obtain b "is" where p: "p = (b, is)" by (cases p)
    show thesis
      by (rule passed [OF decoded_start [OF Ok [unfolded p]]])
        (use assms Ok p in \<open>simp add: verify_chunk_def\<close>)
  next
    case (Err e)
    then show thesis by (intro decode [of e]) (use assms in \<open>simp add: verify_chunk_def\<close>)
  qed (use decode_from_no_panic in auto)
qed

lemma verify_chunk_no_panic: "verify_chunk c n \<noteq> Panic"
proof (cases "c_code c = []")
  case False
  then show ?thesis
  proof (cases rule: verify_chunk_cases [where n = n])
    case (passed b "is")
    have "res_all (check_operands c b n) is \<noteq> Panic"
      using check_operands_no_panic [OF passed(1)] by (intro res_all_no_panic) auto
    moreover have "verify_stack_balance c is b \<noteq> Panic" if "res_all (check_operands c b n) is = Ok ()"
      using that passed(1) False by (intro verify_stack_balance_iff(1) [of c "is" b n]) (auto simp: checked_def)
    ultimately show ?thesis by (auto simp: passed(2))
  qed auto
qed (simp add: verify_chunk_def)

lemma verify_total: "verify c \<noteq> Panic"
proof -
  have "verify_proto_chunk c n \<noteq> Panic" for n
  proof (induction c n rule: verify_proto_chunk.induct)
    case (1 c n)
    then show ?case
      using verify_chunk_no_panic [of c n] by (subst verify_proto_chunk.simps) (auto dest: res_all_no_panic)
  qed
  then show ?thesis by (simp add: verify_def)
qed

text \<open>
  C16: the verifier is total.  On every chunk, however malformed, \<open>verify\<close> returns acceptance or
  an error value; no slice index, table index or operand read in it can panic.
\<close>

theorem verify_no_panic: "verify c \<noteq> Panic"
  by (rule verify_total)

lemma verify_chunk_iff:
  "verify_chunk c n = Ok () \<longleftrightarrow> c_code c = [] \<or>
     (\<exists>b is. decode_from (c_code c) 0 ((replicate (length (c_code c) + 1) False)[length (c_code c) := True]) []
          = Ok (b, is)
        \<and> (\<forall>ins \<in> set is. check_operands c b n ins = Ok ())
        \<and> (\<exists>\<phi>. consistent_depths c is b \<phi> \<and> \<phi> 0 = Some 0))"
proof (cases "c_code c = []")
  case False
  let ?d = "decode_from (c_code c) 0 ((replicate (length (c_code c) + 1) False)[length (c_code c) := True]) []"
  show ?thesis
  proof (cases ?d)
    case (Ok p)
    obtain b "is" where p: "p = (b, is)" by (cases p)
    have bal: "verify_stack_balance c is b = Ok () \<longleftrightarrow> (\<exists>\<phi>. consistent_depths c is b \<phi> \<and> \<phi> 0 = Some 0)"
      if "\<forall>ins \<in> set is. check_operands c b n ins = Ok ()"
      using that False decoded_start [OF Ok [unfolded p]]
      by (intro verify_stack_balance_iff(2) [of c "is" b n]) (simp add: checked_def)
    then show ?thesis using False Ok p by (auto simp: verify_chunk_def)
  qed (use False in \<open>auto simp: verify_chunk_def\<close>)
qed (simp add: verify_chunk_def)

text \<open>
  C8: what acceptance of one chunk means.  A non-empty code is accepted exactly when it
  decodes without gap, every operand passes its check and some consistent assignment of stack
  depths starts with depth 0 at the first instruction; in particular no valid assignment is
  ever refused, and the final fall-off-the-end check adds nothing.
\<close>

theorem verify_chunk_accepts_iff:
  "verify_chunk c n = Ok () \<longleftrightarrow> c_code c = [] \<or>
     (\<exists>b is. decode_from (c_code c) 0 ((replicate (length (c_code c) + 1) False)[length (c_code c) := True]) []
          = Ok (b, is)
        \<and> (\<forall>ins \<in> set is. check_operands c b n ins = Ok ())
        \<and> (\<exists>\<phi>. consistent_depths c is b \<phi> \<and> \<phi> 0 = Some 0))"
  by (rule verify_chunk_iff)

text \<open>The chunks of a prototype tree with the parameter counts they are verified with.\<close>

inductive proto_tree :: "chunk \<Rightarrow> nat \<Rightarrow> chunk \<Rightarrow> nat \<Rightarrow> bool" where
  root: "proto_tree c n c n"
| child: "p \<in> set (c_protos c) \<Longrightarrow> proto_tree (fp_chunk p) (length (fm_params (fp_meta p))) c' n'
    \<Longrightarrow> proto_tree c n c' n'"

lemma verify_proto_chunk_tree:
  "verify_proto_chunk c n = Ok () \<longleftrightarrow> (\<forall>c' n'. proto_tree c n c' n' \<longrightarrow> verify_chunk c' n' = Ok ())"
proof (induction c n rule: verify_proto_chunk.induct)
  case (1 c n)
  have step: "proto_tree c n c' n' \<longleftrightarrow> (c' = c \<and> n' = n) \<or>
      (\<exists>p \<in> set (c_protos c). proto_tree (fp_chunk p) (length (fm_params (fp_meta p))) c' n')" for c' n'
    by (subst proto_tree.simps) auto
  show ?case
  proof (cases "verify_chunk c n = Ok ()")
    case True
    then show ?thesis
      using "1" by (subst verify_proto_chunk.simps) (simp add: step, blast)
  next
    case False
    then show ?thesis by (subst verify_proto_chunk.simps) (auto simp: step)
  qed
qed

text \<open>
  C18: verification is recursive.  \<open>verify\<close> accepts a module exactly when every chunk of its
  prototype tree passes \<open>verify_chunk\<close> with the parameter count of its own function (0 for the
  module body).
\<close>

theorem verify_tree: "verify c = Ok () \<longleftrightarrow> (\<forall>c' n'. proto_tree c 0 c' n' \<longrightarrow> verify_chunk c' n' = Ok ())"
  by (simp add: verify_def verify_proto_chunk_tree)

text \<open>The displacement at \<open>at\<close> leads to the start of an instruction or to the end of the code.\<close>

definition jump_lands :: "chunk \<Rightarrow> instr list \<Rightarrow> nat \<Rightarrow> bool" where
  "jump_lands c is at \<longleftrightarrow> (\<exists>d. read_i16 c at = Some d \<and> 0 \<le> int (at + 2) + d
     \<and> nat (int (at + 2) + d) \<in> insert (length (c_code c)) (fst ` set is))"

lemma check_jump_lands:
  "check_jump c off at b = Ok u \<Longrightarrow> decoded (c_code c) b is \<Longrightarrow> jump_lands c is at"
  by (drule check_jump_Ok) (auto simp: decoded_def jump_lands_def)

lemma check_operands_jump:
  assumes "check_operands c b n (off, op, at) = Ok ()" and "decoded (c_code c) b is"
  shows "operand_rule_of op = CkJump \<Longrightarrow> jump_lands c is at"
    and "operand_rule_of op = CkJumpArg \<Longrightarrow> jump_lands c is (at + 2)"
  using assms by (auto simp: check_operands_def Let_def intro: check_jump_lands)

text \<open>
  C17: in an accepted chunk every byte belongs to exactly one instruction, every table operand is
  below the length of the table it indexes, name operands are strings, and every jump (the
  conditional jump on a supplied argument included, whose displacement follows its slot) lands on
  an instruction boundary inside the code or at its end.
\<close>

theorem verified_operands_in_range:
  assumes "verify_chunk c n = Ok ()" and "c_code c \<noteq> []"
  shows "\<exists>is. instr_chain (c_code c) 0 is \<and> (\<forall>(off, op, at) \<in> set is. operand_in_range c n op at
    \<and> (operand_rule_of op = CkJump \<longrightarrow> jump_lands c is at)
    \<and> (operand_rule_of op = CkJumpArg \<longrightarrow> jump_lands c is (at + 2)))"
proof -
  from assms obtain b "is" where
    dec: "decode_from (c_code c) 0 ((replicate (length (c_code c) + 1) False)[length (c_code c) := True]) [] = Ok (b, is)"
    and ck: "\<And>ins. ins \<in> set is \<Longrightarrow> check_operands c b n ins = Ok ()"
    by (auto simp: verify_chunk_iff)
  note d = decoded_start [OF dec]
  show ?thesis
  proof (intro exI [of _ "is"] conjI ballI)
    show "instr_chain (c_code c) 0 is" using d by (simp add: decoded_def)
    fix ins assume mem: "ins \<in> set is"
    obtain off op at where ins: "ins = (off, op, at)" by (cases ins)
    note ok = ck [OF mem, unfolded ins]
    show "case ins of (off, op, at) \<Rightarrow> operand_in_range c n op at
        \<and> (operand_rule_of op = CkJump \<longrightarrow> jump_lands c is at)
        \<and> (operand_rule_of op = CkJumpArg \<longrightarrow> jump_lands c is (at + 2))"
      unfolding ins prod.case
      using check_operands_in_range [OF ok] check_operands_jump [OF ok d] by blast
  qed
qed

section \<open>Evaluation on concrete chunks\<close>

lemma chunk_new_fields [simp]:
  "c_code chunk_new = []" "c_consts chunk_new = []" "c_class_protos chunk_new = []"
  "c_slot_count chunk_new = 0" "c_cell_slots chunk_new = []" "c_protos chunk_new = []"
  "c_upvalues chunk_new = []"
  by (simp_all add: chunk_new_def flat_default_def chunk_flat.defs chunk.defs)

lemma from_u8_bytes:
  "from_u8 0 = Some Op_Const" "from_u8 1 = Some Op_Nil" "from_u8 2 = Some Op_True" "from_u8 3 = Some Op_False"
  "from_u8 4 = Some Op_Pop" "from_u8 38 = Some Op_JumpIfFalse" "from_u8 47 = Some Op_Return"
  "from_u8 64 = Some Op_Class" "from_u8 72 = Some Op_Yield" "from_u8 82 = Some Op_GetLocalCell"
  "from_u8 10 = Some Op_GetUpvalue"
  using from_u8_as_u8 [of Op_Const] from_u8_as_u8 [of Op_Nil] from_u8_as_u8 [of Op_True] from_u8_as_u8 [of Op_False]
    from_u8_as_u8 [of Op_Pop] from_u8_as_u8 [of Op_JumpIfFalse] from_u8_as_u8 [of Op_Return]
    from_u8_as_u8 [of Op_Class] from_u8_as_u8 [of Op_Yield] from_u8_as_u8 [of Op_GetLocalCell]
    from_u8_as_u8 [of Op_GetUpvalue]
  by simp_all

lemmas decode_eval = decode_from.simps from_u8_bytes

lemmas verify_eval = check_operands_def check_jump_def check_index_def verify_stack_balance_def visit_def
  depth_out_def successors_def count_operand_def jump_target_def push_succ_def push_fallthrough_def
  idx_of_def next_offset_def net_def read_i16_def read_u16_def read_u8_def vec_get_def
  is_unconditional_terminator_def class_pops_def

end
