(* ===== verification/RunLoop.thy ===== *)
theory RunLoop
  imports VerifyProps
begin

text \<open>
  The operand-stack discipline of the VM's dispatch loop (\<open>run_loop\<close> in
  \<open>src/src/vm/run.rs\<close>) over a fiber (\<open>src/src/vm/fiber.rs\<close>).

  A fiber is a stack of call frames over one value stack; each frame owns a window of
  \<open>slot_count\<close> slots from its base, and its operands lie above the window.  The model keeps
  the frames, their instruction pointers and the length of the value stack, and translates
  every arm of the dispatch into its traffic with the stack: the sequence of its \<open>pop\<close>,
  \<open>peek\<close> and \<open>push\<close> calls on the path that completes.  The values themselves are not kept, so
  what depends on them is a \<open>decision\<close>: the branch a conditional jump takes, whether a callee
  is a compiled closure or native, whether \<open>?\<close> returns, whether the op raises a recoverable
  error, whether an operand of a range op is no number.  \<open>Fault\<close> is a Rust panic of the loop (an
  empty stack, an index out of range, an invalid opcode byte, a slot that is no cell) or an
  operand access that would reach below the frame's operands into its window.  The panics of
  the \<open>unreachable!\<close> arms, which depend on the values, are the outcome \<open>Unreachable\<close>.
\<close>

section \<open>Stack traffic\<close>

datatype act = APop | APeek nat | APush

fun exec :: "act list \<Rightarrow> nat \<Rightarrow> nat option" where
  "exec [] d = Some d"
| "exec (APop # as) d = (case d of 0 \<Rightarrow> None | Suc d' \<Rightarrow> exec as d')"
| "exec (APeek n # as) d = (if n < d then exec as d else None)"
| "exec (APush # as) d = exec as (Suc d)"

text \<open>The arms of the dispatch with a fixed traffic, in source order.\<close>

definition arm_const :: "act list" where
  "arm_const = [APush]"

definition arm_pop :: "act list" where
  "arm_pop = [APop]"

definition arm_dup :: "act list" where
  "arm_dup = [APeek 0, APush]"

definition arm_swap :: "act list" where
  "arm_swap = [APop, APop, APush, APush]"

definition arm_rot3 :: "act list" where
  "arm_rot3 = [APop, APop, APop, APush, APush, APush]"

definition arm_binary :: "act list" where
  "arm_binary = [APop, APop, APush]"

definition arm_instance_of_type :: "act list" where
  "arm_instance_of_type = [APop, APush]"

definition arm_range_inclusive :: "act list" where
  "arm_range_inclusive = [APop, APop, APush]"

definition arm_range_step_value :: "act list" where
  "arm_range_step_value = [APop, APop, APop, APush]"

definition arm_range_resolve_step :: "act list" where
  "arm_range_resolve_step = [APop, APeek 0, APeek 1, APush]"

definition arm_range_has_next :: "act list" where
  "arm_range_has_next = [APop, APop, APop, APush]"

definition arm_unary :: "act list" where
  "arm_unary = [APop, APush]"

definition arm_get_local :: "act list" where
  "arm_get_local = [APush]"

definition arm_set_local :: "act list" where
  "arm_set_local = [APop]"

definition arm_get_global :: "act list" where
  "arm_get_global = [APush]"

definition arm_define_global :: "act list" where
  "arm_define_global = [APop]"

definition arm_set_global :: "act list" where
  "arm_set_global = [APeek 0]"

definition arm_append_named_arg :: "act list" where
  "arm_append_named_arg = [APop, APeek 1, APeek 0]"

definition arm_append_pos_arg :: "act list" where
  "arm_append_pos_arg = [APop, APeek 1, APeek 0]"

definition arm_append_spread_arg :: "act list" where
  "arm_append_spread_arg = [APop, APeek 1, APeek 0]"

definition arm_call_named_spread :: "act list" where
  "arm_call_named_spread = [APop, APop, APop, APush]"

definition arm_call_spread :: "act list" where
  "arm_call_spread = [APop, APop, APush]"

definition arm_call_method_spread :: "act list" where
  "arm_call_method_spread = [APop, APop, APush]"

definition arm_jump :: "act list" where
  "arm_jump = []"

definition arm_jump_if :: "act list" where
  "arm_jump_if = [APop]"

definition arm_jump_if_arg :: "act list" where
  "arm_jump_if_arg = []"

definition arm_check_local :: "act list" where
  "arm_check_local = [APeek 0]"

definition arm_new_map :: "act list" where
  "arm_new_map = [APush]"

definition arm_map_entry :: "act list" where
  "arm_map_entry = [APop, APop, APeek 0]"

definition arm_spread :: "act list" where
  "arm_spread = [APop, APeek 0]"

definition arm_append_array :: "act list" where
  "arm_append_array = [APop, APeek 0]"

definition arm_append_object :: "act list" where
  "arm_append_object = [APop, APop, APeek 0]"

definition arm_spread_object :: "act list" where
  "arm_spread_object = [APop, APeek 0]"

definition arm_get_index :: "act list" where
  "arm_get_index = [APop, APop, APush]"

definition arm_set_index :: "act list" where
  "arm_set_index = [APop, APop, APop, APush]"

definition arm_get_prop :: "act list" where
  "arm_get_prop = [APop, APush]"

definition arm_check_numbers :: "act list" where
  "arm_check_numbers = [APeek 0, APeek 1]"

definition arm_iter_snapshot :: "act list" where
  "arm_iter_snapshot = [APop, APush]"

definition arm_array_len :: "act list" where
  "arm_array_len = [APop, APush]"

definition arm_closure :: "act list" where
  "arm_closure = [APush]"

definition arm_get_local_cell :: "act list" where
  "arm_get_local_cell = [APush]"

definition arm_set_local_cell :: "act list" where
  "arm_set_local_cell = [APop]"

definition arm_fresh_cell :: "act list" where
  "arm_fresh_cell = []"

definition arm_import :: "act list" where
  "arm_import = []"

definition arm_define_export :: "act list" where
  "arm_define_export = [APop]"

definition arm_check_destructure :: "act list" where
  "arm_check_destructure = [APeek 0]"

definition arm_array_elem :: "act list" where
  "arm_array_elem = [APop, APush]"

definition arm_object_key :: "act list" where
  "arm_object_key = [APop, APush]"

definition arm_array_rest :: "act list" where
  "arm_array_rest = [APop, APush]"

definition arm_object_rest :: "act list" where
  "arm_object_rest = [APop, APush]"

definition arm_match_array :: "act list" where
  "arm_match_array = [APop, APush]"

definition arm_match_object :: "act list" where
  "arm_match_object = [APop, APush]"

definition arm_match_has_key :: "act list" where
  "arm_match_has_key = [APop, APush]"

definition arm_match_variant :: "act list" where
  "arm_match_variant = [APop, APush]"

definition arm_match_variant_arity :: "act list" where
  "arm_match_variant_arity = [APop, APush]"

definition arm_match_variant_has_field :: "act list" where
  "arm_match_variant_has_field = [APop, APush]"

definition arm_variant_elem :: "act list" where
  "arm_variant_elem = [APop, APush]"

definition arm_variant_field :: "act list" where
  "arm_variant_field = [APop, APush]"

definition arm_match_range :: "act list" where
  "arm_match_range = [APop, APop, APop, APop, APush]"

definition arm_get_upvalue :: "act list" where
  "arm_get_upvalue = [APush]"

definition arm_set_upvalue :: "act list" where
  "arm_set_upvalue = [APop]"

definition arm_return :: "act list" where
  "arm_return = [APop]"

definition arm_propagate :: "act list" where
  "arm_propagate = [APop, APush]"

definition arm_unwrap :: "act list" where
  "arm_unwrap = [APop, APush]"

definition arm_await :: "act list" where
  "arm_await = [APop, APush]"

definition arm_yield :: "act list" where
  "arm_yield = [APop]"

definition arm_get_iter :: "act list" where
  "arm_get_iter = [APeek 0]"

definition arm_iter_next :: "act list" where
  "arm_iter_next = [APop, APush, APush]"

definition arm_iter_close :: "act list" where
  "arm_iter_close = [APop]"

definition arm_set_prop :: "act list" where
  "arm_set_prop = [APop, APop, APush]"

definition arm_define_interface :: "act list" where
  "arm_define_interface = [APush]"

definition arm_get_super :: "act list" where
  "arm_get_super = [APush]"

definition arm_raise :: "act list" where
  "arm_raise = []"


text \<open>The arms whose traffic depends on an operand.\<close>

definition arm_call :: "chunk \<Rightarrow> nat \<Rightarrow> act list option" where
  "arm_call c at = map_option (\<lambda>argc.
     APeek (unat argc) # replicate (unat argc) APop @ [APop, APush]) (read_u8 c at)"

definition arm_call_named :: "chunk \<Rightarrow> nat \<Rightarrow> act list option" where
  "arm_call_named c at = map_option (\<lambda>argc.
     replicate (unat argc) APop @ [APop, APush]) (read_u8 c (at + 2))"

definition arm_call_method :: "chunk \<Rightarrow> nat \<Rightarrow> act list option" where
  "arm_call_method c at = map_option (\<lambda>argc.
     replicate (unat argc) APop @ [APop, APush]) (read_u8 c (at + 2))"

definition arm_template :: "chunk \<Rightarrow> nat \<Rightarrow> act list option" where
  "arm_template c at = map_option (\<lambda>n. replicate (unat n) APop @ [APush]) (read_u16 c at)"

definition arm_new_array :: "chunk \<Rightarrow> nat \<Rightarrow> act list option" where
  "arm_new_array c at = map_option (\<lambda>n. replicate (unat n) APop @ [APush]) (read_u16 c at)"

text \<open>\<open>exec_new_object\<close> pops a value and its key for each of the \<open>n\<close> entries.\<close>

definition exec_new_object :: "nat \<Rightarrow> act list" where
  "exec_new_object n = concat (replicate n [APop, APop]) @ [APush]"

definition arm_new_object :: "chunk \<Rightarrow> nat \<Rightarrow> act list option" where
  "arm_new_object c at = map_option (\<lambda>n. exec_new_object (unat n)) (read_u16 c at)"

definition arm_check_param :: "chunk \<Rightarrow> param list \<Rightarrow> nat \<Rightarrow> act list option" where
  "arm_check_param c params at = Option.bind (read_u16 c at) (\<lambda>i.
     map_option (\<lambda>p. if p_ty p = None then [] else [APeek 0]) (vec_get params (unat i)))"

definition arm_defer_push :: "chunk \<Rightarrow> nat \<Rightarrow> act list option" where
  "arm_defer_push c at = Option.bind (read_u8 c at) (\<lambda>flags.
     map_option (\<lambda>argc. if flags AND 2 \<noteq> 0 then [APop, APop] else replicate (unat argc) APop @ [APop])
       (read_u8 c (at + 1)))"

definition arm_defer_push_method :: "chunk \<Rightarrow> nat \<Rightarrow> act list option" where
  "arm_defer_push_method c at = Option.bind (read_u8 c (at + 2)) (\<lambda>flags.
     map_option (\<lambda>argc. if flags AND 2 \<noteq> 0 then [APop, APop] else replicate (unat argc) APop @ [APop])
       (read_u8 c (at + 3)))"

text \<open>\<open>CLASS\<close> pops the static methods, the methods, the default thunks and the superclass.\<close>

definition arm_class :: "chunk \<Rightarrow> nat \<Rightarrow> act list option" where
  "arm_class c at = Option.bind (read_u16 c at) (\<lambda>idx.
     map_option (\<lambda>cp.
         replicate (length (cp_static_method_names cp)) APop
         @ replicate (length (cp_method_names cp)) APop
         @ replicate (length (cp_default_fields cp)) APop
         @ (if cp_has_super cp then [APop] else []) @ [APush])
       (vec_get (c_class_protos c) (unat idx)))"

text \<open>The dispatch.\<close>

primrec run_acts :: "op \<Rightarrow> chunk \<Rightarrow> param list \<Rightarrow> nat \<Rightarrow> act list option" where
  "run_acts Op_Const c params at = Some arm_const"
| "run_acts Op_Nil c params at = Some arm_const"
| "run_acts Op_True c params at = Some arm_const"
| "run_acts Op_False c params at = Some arm_const"
| "run_acts Op_Pop c params at = Some arm_pop"
| "run_acts Op_Dup c params at = Some arm_dup"
| "run_acts Op_Swap c params at = Some arm_swap"
| "run_acts Op_Rot3 c params at = Some arm_rot3"
| "run_acts Op_GetLocal c params at = Some arm_get_local"
| "run_acts Op_SetLocal c params at = Some arm_set_local"
| "run_acts Op_GetUpvalue c params at = Some arm_get_upvalue"
| "run_acts Op_SetUpvalue c params at = Some arm_set_upvalue"
| "run_acts Op_CloseUpvalue c params at = Some arm_raise"
| "run_acts Op_GetGlobal c params at = Some arm_get_global"
| "run_acts Op_DefineGlobal c params at = Some arm_define_global"
| "run_acts Op_SetGlobal c params at = Some arm_set_global"
| "run_acts Op_ImmutableError c params at = Some arm_raise"
| "run_acts Op_Add c params at = Some arm_binary"
| "run_acts Op_Sub c params at = Some arm_binary"
| "run_acts Op_Mul c params at = Some arm_binary"
| "run_acts Op_Div c params at = Some arm_binary"
| "run_acts Op_Mod c params at = Some arm_binary"
| "run_acts Op_Pow c params at = Some arm_binary"
| "run_acts Op_Neg c params at = Some arm_unary"
| "run_acts Op_Not c params at = Some arm_unary"
| "run_acts Op_Eq c params at = Some arm_binary"
| "run_acts Op_Ne c params at = Some arm_binary"
| "run_acts Op_Lt c params at = Some arm_binary"
| "run_acts Op_Le c params at = Some arm_binary"
| "run_acts Op_Gt c params at = Some arm_binary"
| "run_acts Op_Ge c params at = Some arm_binary"
| "run_acts Op_Range c params at = Some arm_binary"
| "run_acts Op_RangeInclusive c params at = Some arm_range_inclusive"
| "run_acts Op_CheckNumbers c params at = Some arm_check_numbers"
| "run_acts Op_RangeStepValue c params at = Some arm_range_step_value"
| "run_acts Op_RangeResolveStep c params at = Some arm_range_resolve_step"
| "run_acts Op_RangeHasNext c params at = Some arm_range_has_next"
| "run_acts Op_Jump c params at = Some arm_jump"
| "run_acts Op_JumpIfFalse c params at = Some arm_jump_if"
| "run_acts Op_JumpIfTrue c params at = Some arm_jump_if"
| "run_acts Op_JumpIfNotNil c params at = Some arm_jump_if"
| "run_acts Op_Loop c params at = Some arm_jump"
| "run_acts Op_JumpIfArgSupplied c params at = Some arm_jump_if_arg"
| "run_acts Op_CheckParam c params at = arm_check_param c params at"
| "run_acts Op_Call c params at = arm_call c at"
| "run_acts Op_CallMethod c params at = arm_call_method c at"
| "run_acts Op_CallMethodSpread c params at = Some arm_call_method_spread"
| "run_acts Op_Return c params at = Some arm_return"
| "run_acts Op_Closure c params at = Some arm_closure"
| "run_acts Op_NewArray c params at = arm_new_array c at"
| "run_acts Op_NewObject c params at = arm_new_object c at"
| "run_acts Op_NewMap c params at = Some arm_new_map"
| "run_acts Op_MapEntry c params at = Some arm_map_entry"
| "run_acts Op_Spread c params at = Some arm_spread"
| "run_acts Op_SpreadArgs c params at = Some arm_spread"
| "run_acts Op_AppendArray c params at = Some arm_append_array"
| "run_acts Op_AppendObject c params at = Some arm_append_object"
| "run_acts Op_SpreadObject c params at = Some arm_spread_object"
| "run_acts Op_CallSpread c params at = Some arm_call_spread"
| "run_acts Op_GetIndex c params at = Some arm_get_index"
| "run_acts Op_SetIndex c params at = Some arm_set_index"
| "run_acts Op_GetProp c params at = Some arm_get_prop"
| "run_acts Op_SetProp c params at = Some arm_set_prop"
| "run_acts Op_GetPropOpt c params at = Some arm_get_prop"
| "run_acts Op_Class c params at = arm_class c at"
| "run_acts Op_DefineInterface c params at = Some arm_define_interface"
| "run_acts Op_Method c params at = Some arm_raise"
| "run_acts Op_GetSuper c params at = Some arm_get_super"
| "run_acts Op_InstanceOf c params at = Some arm_binary"
| "run_acts Op_InstanceOfType c params at = Some arm_instance_of_type"
| "run_acts Op_Template c params at = arm_template c at"
| "run_acts Op_Await c params at = Some arm_await"
| "run_acts Op_Yield c params at = Some arm_yield"
| "run_acts Op_MakeGenerator c params at = Some arm_raise"
| "run_acts Op_Propagate c params at = Some arm_propagate"
| "run_acts Op_Unwrap c params at = Some arm_unwrap"
| "run_acts Op_Import c params at = Some arm_import"
| "run_acts Op_GetIter c params at = Some arm_get_iter"
| "run_acts Op_IterNext c params at = Some arm_iter_next"
| "run_acts Op_IterClose c params at = Some arm_iter_close"
| "run_acts Op_IterSnapshot c params at = Some arm_iter_snapshot"
| "run_acts Op_ArrayLen c params at = Some arm_array_len"
| "run_acts Op_GetLocalCell c params at = Some arm_get_local_cell"
| "run_acts Op_SetLocalCell c params at = Some arm_set_local_cell"
| "run_acts Op_FreshCell c params at = Some arm_fresh_cell"
| "run_acts Op_CheckArrayDestructure c params at = Some arm_check_destructure"
| "run_acts Op_CheckObjectDestructure c params at = Some arm_check_destructure"
| "run_acts Op_ArrayElem c params at = Some arm_array_elem"
| "run_acts Op_ObjectKey c params at = Some arm_object_key"
| "run_acts Op_ArrayRest c params at = Some arm_array_rest"
| "run_acts Op_ObjectRest c params at = Some arm_object_rest"
| "run_acts Op_MatchArray c params at = Some arm_match_array"
| "run_acts Op_MatchObject c params at = Some arm_match_object"
| "run_acts Op_MatchHasKey c params at = Some arm_match_has_key"
| "run_acts Op_MatchRange c params at = Some arm_match_range"
| "run_acts Op_MatchNoArm c params at = Some arm_raise"
| "run_acts Op_DefineExport c params at = Some arm_define_export"
| "run_acts Op_BitAnd c params at = Some arm_binary"
| "run_acts Op_BitOr c params at = Some arm_binary"
| "run_acts Op_BitXor c params at = Some arm_binary"
| "run_acts Op_Shl c params at = Some arm_binary"
| "run_acts Op_Shr c params at = Some arm_binary"
| "run_acts Op_BitNot c params at = Some arm_unary"
| "run_acts Op_WrapAdd c params at = Some arm_binary"
| "run_acts Op_WrapSub c params at = Some arm_binary"
| "run_acts Op_WrapMul c params at = Some arm_binary"
| "run_acts Op_CheckLocal c params at = Some arm_check_local"
| "run_acts Op_MatchVariant c params at = Some arm_match_variant"
| "run_acts Op_VariantElem c params at = Some arm_variant_elem"
| "run_acts Op_VariantField c params at = Some arm_variant_field"
| "run_acts Op_MatchVariantArity c params at = Some arm_match_variant_arity"
| "run_acts Op_MatchVariantHasField c params at = Some arm_match_variant_has_field"
| "run_acts Op_CallNamed c params at = arm_call_named c at"
| "run_acts Op_AppendNamedArg c params at = Some arm_append_named_arg"
| "run_acts Op_AppendPosArg c params at = Some arm_append_pos_arg"
| "run_acts Op_AppendSpreadArg c params at = Some arm_append_spread_arg"
| "run_acts Op_CallNamedSpread c params at = Some arm_call_named_spread"
| "run_acts Op_Break c params at = Some arm_raise"
| "run_acts Op_DeferPush c params at = arm_defer_push c at"
| "run_acts Op_DeferPushMethod c params at = arm_defer_push_method c at"
| "run_acts Op_CallElided c params at = arm_call c at"

lemmas arm_defs =
  arm_const_def arm_pop_def arm_dup_def arm_swap_def arm_rot3_def arm_binary_def
  arm_instance_of_type_def arm_range_inclusive_def arm_range_step_value_def
  arm_range_resolve_step_def arm_range_has_next_def arm_unary_def arm_get_local_def
  arm_set_local_def arm_get_global_def arm_define_global_def arm_set_global_def
  arm_append_named_arg_def arm_append_pos_arg_def arm_append_spread_arg_def
  arm_call_named_spread_def arm_call_spread_def arm_call_method_spread_def arm_jump_def
  arm_jump_if_def arm_jump_if_arg_def arm_check_local_def arm_new_map_def arm_map_entry_def
  arm_spread_def arm_append_array_def arm_append_object_def arm_spread_object_def
  arm_get_index_def arm_set_index_def arm_get_prop_def arm_check_numbers_def
  arm_iter_snapshot_def arm_array_len_def arm_closure_def arm_get_local_cell_def
  arm_set_local_cell_def arm_fresh_cell_def arm_import_def arm_define_export_def
  arm_check_destructure_def arm_array_elem_def arm_object_key_def arm_array_rest_def
  arm_object_rest_def arm_match_array_def arm_match_object_def arm_match_has_key_def
  arm_match_variant_def arm_match_variant_arity_def arm_match_variant_has_field_def
  arm_variant_elem_def arm_variant_field_def arm_match_range_def arm_get_upvalue_def
  arm_set_upvalue_def arm_return_def arm_propagate_def arm_unwrap_def arm_await_def
  arm_yield_def arm_get_iter_def arm_iter_next_def arm_iter_close_def arm_set_prop_def
  arm_define_interface_def arm_get_super_def arm_raise_def

section \<open>Table and slot accesses\<close>

text \<open>Which table an arm indexes without a check of its own.\<close>

datatype table_use =
    UConst | ULocal | UCell | UUpvalue | UProto | UClass | UInterface | UImport | UNone

definition run_table :: "op \<Rightarrow> table_use" where
  "run_table op =
     (if op \<in> {Op_Const, Op_InstanceOfType, Op_GetGlobal, Op_DefineGlobal, Op_SetGlobal,
          Op_ImmutableError, Op_CallNamed, Op_AppendNamedArg, Op_CallMethod, Op_CallMethodSpread,
          Op_GetProp, Op_GetPropOpt, Op_SetProp, Op_DefineExport, Op_ObjectKey, Op_ObjectRest,
          Op_MatchHasKey, Op_MatchVariant, Op_MatchVariantHasField, Op_VariantField,
          Op_DeferPushMethod, Op_GetSuper} then UConst
      else if op \<in> {Op_GetLocal, Op_SetLocal} then ULocal
      else if op \<in> {Op_GetLocalCell, Op_SetLocalCell, Op_FreshCell} then UCell
      else if op \<in> {Op_GetUpvalue, Op_SetUpvalue} then UUpvalue
      else if op = Op_Closure then UProto
      else if op = Op_Class then UClass
      else if op = Op_DefineInterface then UInterface
      else if op = Op_Import then UImport
      else UNone)"

text \<open>\<open>alloc_cells\<close> makes a heap cell for each slot of \<open>cell_slots\<close>; other slots have none.\<close>

definition is_cell :: "chunk \<Rightarrow> nat \<Rightarrow> bool" where
  "is_cell c slot \<longleftrightarrow> list_ex (\<lambda>s. unat s = slot) (c_cell_slots c)"

definition in_window :: "chunk \<Rightarrow> nat \<Rightarrow> bool" where
  "in_window c slot \<longleftrightarrow> slot < unat (c_slot_count c)"

text \<open>
  \<open>caps\<close> is the length of the running closure's vector of captured cells: empty for the closure
  \<open>Closure::new\<close> makes of a root chunk, one per entry of the capture plan for a closure made by
  \<open>CLOSURE\<close>.
\<close>

primrec capture_ok :: "chunk \<Rightarrow> nat \<Rightarrow> upvalue_descriptor \<Rightarrow> bool" where
  "capture_ok c caps (ParentLocal slot by_value) =
     (if by_value then in_window c (unat slot) else is_cell c (unat slot))"
| "capture_ok c caps (ParentUpvalue up) = (unat up < caps)"

definition bind_ok :: "chunk \<Rightarrow> u16 \<Rightarrow> bool \<Rightarrow> bool \<Rightarrow> bool" where
  "bind_ok c slot cell is_global \<longleftrightarrow>
     is_global \<or> (if cell then is_cell c (unat slot) else in_window c (unat slot))"

primrec import_ok :: "chunk \<Rightarrow> import_desc \<Rightarrow> bool" where
  "import_ok c (ImportNamed src names) = list_all (\<lambda>(_, slot, cell, is_global). bind_ok c slot cell is_global) names"
| "import_ok c (ImportNamespace src alias slot cell is_global) = bind_ok c slot cell is_global"

definition table_ok :: "chunk \<Rightarrow> nat \<Rightarrow> op \<Rightarrow> nat \<Rightarrow> bool" where
  "table_ok c caps op at =
     (if run_table op = UNone then True
      else case map_option unat (read_u16 c at) of
          None \<Rightarrow> False
        | Some i \<Rightarrow>
            (case run_table op of
               UConst \<Rightarrow> i < length (c_consts c)
             | ULocal \<Rightarrow> in_window c i
             | UCell \<Rightarrow> is_cell c i
             | UUpvalue \<Rightarrow> i < caps
             | UProto \<Rightarrow> i < length (c_protos c) \<and> list_all (capture_ok c caps) (c_upvalues (fp_flat (c_protos c ! i)))
             | UClass \<Rightarrow> i < length (c_class_protos c)
             | UInterface \<Rightarrow> i < length (c_interface_protos c)
             | UImport \<Rightarrow> i < length (c_imports c) \<and> import_ok c (c_imports c ! i)
             | UNone \<Rightarrow> True))"

section \<open>Frames and fibers\<close>

record frame =
  fr_chunk :: chunk
  fr_params :: "param list"
  fr_captured :: nat
  fr_ip :: nat
  fr_base :: nat

record fiber =
  fb_frames :: "frame list"
  fb_len :: nat

datatype outcome = Running fiber | Suspended fiber | Finished | Raised | Unreachable op | Fault

definition floor_of :: "frame \<Rightarrow> nat" where
  "floor_of fr = fr_base fr + unat (c_slot_count (fr_chunk fr))"

definition cells_fit :: "chunk \<Rightarrow> bool" where
  "cells_fit c \<longleftrightarrow> list_all (\<lambda>s. in_window c (unat s)) (c_cell_slots c)"

text \<open>
  Pushing a callee frame at \<open>base\<close>: \<open>alloc_cells\<close> indexes the window by every cell slot, the
  bound arguments (\<open>k\<close> of them, the receiver included) are stored into the first slots, and
  the stack is resized to the end of the window.
\<close>

definition enter_frame :: "chunk \<Rightarrow> param list \<Rightarrow> nat \<Rightarrow> nat \<Rightarrow> frame \<Rightarrow> frame list \<Rightarrow> nat \<Rightarrow> outcome" where
  "enter_frame c ps caps k caller rest base =
     (if cells_fit c \<and> k \<le> unat (c_slot_count c)
      then Running \<lparr>fb_frames =
               \<lparr>fr_chunk = c, fr_params = ps, fr_captured = caps, fr_ip = 0, fr_base = base\<rparr> # caller # rest,
             fb_len = base + unat (c_slot_count c)\<rparr>
      else Fault)"

text \<open>\<open>Fiber::new\<close> on a closure of the chunk with \<open>caps\<close> captured cells.\<close>

definition fiber_new :: "chunk \<Rightarrow> param list \<Rightarrow> nat \<Rightarrow> outcome" where
  "fiber_new c ps caps =
     (if cells_fit c
      then Running \<lparr>fb_frames = [\<lparr>fr_chunk = c, fr_params = ps, fr_captured = caps, fr_ip = 0, fr_base = 0\<rparr>],
             fb_len = unat (c_slot_count c)\<rparr>
      else Fault)"

text \<open>\<open>return_from_frame\<close>, with the stack length after the result was popped.\<close>

definition return_from_frame :: "frame \<Rightarrow> frame list \<Rightarrow> nat \<Rightarrow> outcome" where
  "return_from_frame fr rest len =
     (let len' = min len (fr_base fr) in
      if rest = [] then Finished else Running \<lparr>fb_frames = rest, fb_len = Suc len'\<rparr>)"

definition jump_to :: "nat \<Rightarrow> int \<Rightarrow> nat" where
  "jump_to ip disp = nat ((int ip + disp) mod 2 ^ 64)"

section \<open>One step\<close>

datatype decision =
    Proceed | Branch | Enter chunk "param list" nat | EnterMethod chunk "param list" nat
  | ReturnPair | NotNumber | Throw

definition raising :: "op \<Rightarrow> bool" where
  "raising op \<longleftrightarrow> op \<in> {Op_MatchNoArm, Op_ImmutableError, Op_Method, Op_MakeGenerator, Op_CloseUpvalue, Op_Break}"

text \<open>
  \<open>RANGE_RESOLVE_STEP\<close> and \<open>RANGE_HAS_NEXT\<close> end in \<open>unreachable!\<close> when an operand they take for
  checked is no number.
\<close>

definition range_unreachable :: "decision \<Rightarrow> op \<Rightarrow> bool" where
  "range_unreachable d op \<longleftrightarrow> d = NotNumber \<and> op \<in> {Op_RangeResolveStep, Op_RangeHasNext}"

text \<open>
  The continuation of an op whose traffic went through: \<open>depth\<close> operands are left above the
  window.  A closure call has not pushed its result yet, so the callee's frame starts one
  below.
\<close>

definition finish :: "decision \<Rightarrow> op \<Rightarrow> frame \<Rightarrow> frame list \<Rightarrow> nat \<Rightarrow> outcome" where
  "finish d op fr rest depth =
     (let c = fr_chunk fr; at = fr_ip fr + 1; next = at + operand_width op; floor = floor_of fr;
          go = (\<lambda>ip. Running \<lparr>fb_frames = fr\<lparr>fr_ip := ip\<rparr> # rest, fb_len = floor + depth\<rparr>);
          jump = (\<lambda>at. case read_i16 c at of None \<Rightarrow> Fault | Some disp \<Rightarrow> go (jump_to next disp)) in
      if op = Op_Return then return_from_frame fr rest (floor + depth)
      else if op = Op_Propagate \<and> d = ReturnPair then return_from_frame fr rest (floor + depth - 1)
      else if op = Op_Yield then Suspended \<lparr>fb_frames = fr\<lparr>fr_ip := next\<rparr> # rest, fb_len = floor + depth\<rparr>
      else if op \<in> {Op_Jump, Op_Loop} then jump at
      else if op \<in> {Op_JumpIfFalse, Op_JumpIfTrue, Op_JumpIfNotNil} \<and> d = Branch then jump at
      else if op = Op_JumpIfArgSupplied \<and> d = Branch then jump (at + 2)
      else if op \<in> {Op_Call, Op_CallElided, Op_CallSpread} then
        (case d of Enter c' ps caps \<Rightarrow> enter_frame c' ps caps (length ps) (fr\<lparr>fr_ip := next\<rparr>) rest (floor + depth - 1)
         | _ \<Rightarrow> go next)
      else if op \<in> {Op_CallMethod, Op_CallMethodSpread} then
        (case d of EnterMethod c' ps caps \<Rightarrow>
            enter_frame c' ps caps (Suc (length ps)) (fr\<lparr>fr_ip := next\<rparr>) rest (floor + depth - 1)
         | _ \<Rightarrow> go next)
      else go next)"

definition exec_op :: "decision \<Rightarrow> op \<Rightarrow> frame \<Rightarrow> frame list \<Rightarrow> nat \<Rightarrow> outcome" where
  "exec_op d op fr rest len =
     (let c = fr_chunk fr; at = fr_ip fr + 1 in
      if \<not> table_ok c (fr_captured fr) op at then Fault
      else case run_acts op c (fr_params fr) at of
          None \<Rightarrow> Fault
        | Some acts \<Rightarrow>
            (case exec acts (len - floor_of fr) of
               None \<Rightarrow> Fault
             | Some depth \<Rightarrow>
                 if range_unreachable d op then Unreachable op
                 else if raising op \<or> d = Throw then Raised else finish d op fr rest depth))"

definition run_op :: "decision \<Rightarrow> fiber \<Rightarrow> outcome" where
  "run_op d fb =
     (case fb_frames fb of
        [] \<Rightarrow> Fault
      | fr # rest \<Rightarrow>
          (case Option.bind (vec_get (c_code (fr_chunk fr)) (fr_ip fr)) from_u8 of
             None \<Rightarrow> Fault
           | Some op \<Rightarrow> exec_op d op fr rest (fb_len fb)))"

text \<open>
  Resuming a suspended generator (\<open>resume_vm\<close> in \<open>src/src/coro.rs\<close>) pushes the value passed
  to \<open>next\<close> and runs on.
\<close>

definition resume_fiber :: "fiber \<Rightarrow> fiber" where
  "resume_fiber fb = fb\<lparr>fb_len := Suc (fb_len fb)\<rparr>"

text \<open>
  The runs of a fiber whose closures come from \<open>U\<close>: the chunks the program can call with their
  parameter lists and the number of cells their closures captured, flagged when they are methods
  (called with a receiver in slot 0).
\<close>

type_synonym code_base = "(chunk \<times> param list \<times> nat \<times> bool) set"

definition admissible :: "code_base \<Rightarrow> decision \<Rightarrow> bool" where
  "admissible U d =
     (case d of Enter c ps caps \<Rightarrow> (c, ps, caps, False) \<in> U
      | EnterMethod c ps caps \<Rightarrow> (c, ps, caps, True) \<in> U | _ \<Rightarrow> True)"

inductive vm_reach :: "code_base \<Rightarrow> outcome \<Rightarrow> outcome \<Rightarrow> bool" for U start where
  init: "vm_reach U start start"
| step: "vm_reach U start (Running fb) \<Longrightarrow> admissible U d \<Longrightarrow> vm_reach U start (run_op d fb)"
| resume: "vm_reach U start (Suspended fb) \<Longrightarrow> vm_reach U start (Running (resume_fiber fb))"

section \<open>The traffic of every arm agrees with the verifier's effect table\<close>

lemma exec_APop: "exec (APop # as) d = (if d = 0 then None else exec as (d - 1))"
  by (cases d) simp_all

lemma exec_pops: "exec (replicate n APop @ as) d = (if n \<le> d then exec as (d - n) else None)"
proof (induction n arbitrary: d)
  case (Suc n)
  then show ?case by (cases d) simp_all
qed simp

lemma exec_new_object_eq: "exec (exec_new_object n) d = (if 2 * n \<le> d then Some (d - 2 * n + 1) else None)"
proof -
  have "exec (concat (replicate n [APop, APop]) @ as) d = (if 2 * n \<le> d then exec as (d - 2 * n) else None)"
    for as d
    by (induction n arbitrary: d) (auto simp: exec_APop simp del: exec.simps(2))
  then show ?thesis by (simp add: exec_new_object_def)
qed

lemmas exec_simps = exec_APop exec_pops exec_new_object_eq

lemma depth_out_static:
  assumes "depth_out c off op at (int d) = Ok e" and "op \<noteq> Op_Class" "op \<noteq> Op_DeferPush" "op \<noteq> Op_DeferPushMethod"
  shows "\<exists>n. count_operand c op at = Some n \<and> fst (stack_effect op n) \<le> d \<and> e = int d + net (stack_effect op n)"
  using assms by (auto simp: depth_out_def Let_def split: if_splits)

lemma acts_static:
  assumes "count_operand c op at = Some n" and "fst (stack_effect op n) \<le> d"
    and "op \<noteq> Op_Class" "op \<noteq> Op_DeferPush" "op \<noteq> Op_DeferPushMethod"
    and "op = Op_CheckParam \<Longrightarrow> \<exists>i. read_u16 c at = Some i \<and> unat i < length ps"
  shows "\<exists>acts depth. run_acts op c ps at = Some acts \<and> exec acts d = Some depth
    \<and> (\<not> raising op \<longrightarrow> int depth = int d + net (stack_effect op n))"
  using assms
  by (cases op)
    (auto simp: arm_defs exec_simps count_operand_def net_def raising_def arm_call_def arm_call_named_def
      arm_call_method_def arm_template_def arm_new_array_def arm_new_object_def arm_check_param_def
      vec_get_def of_nat_diff simp del: exec.simps(2))

definition no_statics :: "chunk \<Rightarrow> bool" where
  "no_statics c \<longleftrightarrow> list_all (\<lambda>cp. cp_static_method_names cp = []) (c_class_protos c)"

lemma acts_class:
  assumes "depth_out c off Op_Class at (int d) = Ok e" and "no_statics c"
  shows "\<exists>acts depth. run_acts Op_Class c ps at = Some acts \<and> exec acts d = Some depth \<and> int depth = e"
proof -
  from assms(1) obtain idx where rd: "read_u16 c at = Some idx" "unat idx < length (c_class_protos c)"
    and pops: "class_pops (c_class_protos c ! unat idx) \<le> d" "e = int d - int (class_pops (c_class_protos c ! unat idx)) + 1"
    by (auto simp: depth_out_def Let_def split: if_splits)
  from rd(2) assms(2) have "cp_static_method_names (c_class_protos c ! unat idx) = []"
    by (auto simp: no_statics_def list_all_length)
  with rd pops show ?thesis
    by (auto simp: arm_class_def vec_get_def exec_simps class_pops_def of_nat_diff simp del: exec.simps(2))
qed

lemma acts_defer:
  assumes "depth_out c off op at (int d) = Ok e" and "op = Op_DeferPush \<or> op = Op_DeferPushMethod"
    and "at + operand_width op \<le> length (c_code c)"
  shows "\<exists>acts depth. run_acts op c ps at = Some acts \<and> exec acts d = Some depth \<and> int depth = e"
proof -
  define p where "p = (if op = Op_DeferPush then at else at + 2)"
  have "p + 2 \<le> length (c_code c)" using assms(2,3) by (auto simp: p_def)
  then obtain flags argc where rd: "read_u8 c p = Some flags" "read_u8 c (p + 1) = Some argc"
    using read_u8_in [of p c] read_u8_in [of "p + 1" c] by auto
  define k where "k = unat argc"
  let ?n = "if flags AND 2 \<noteq> 0 then 1 else k"
  have "op_stack_pops_pushes c op at = Some (1 + ?n, 0)"
    using assms(2) rd by (auto simp: op_stack_pops_pushes_def p_def k_def eval_nat_numeral)
  with assms(1,2) have e: "1 + ?n \<le> d" "e = int d - int (1 + ?n)"
    by (auto simp: depth_out_def split: if_splits)
  have "run_acts op c ps at = Some (if flags AND 2 \<noteq> 0 then [APop, APop] else replicate k APop @ [APop])"
    using assms(2) rd by (auto simp: arm_defer_push_def arm_defer_push_method_def p_def k_def eval_nat_numeral)
  with e show ?thesis
    by (auto simp: exec_simps of_nat_diff simp del: exec.simps(2) split: if_splits)
qed

lemma acts_effect:
  assumes "depth_out c off op at (int d) = Ok e" and "no_statics c" and "operand_in_range c (length ps) op at"
    and "at + operand_width op \<le> length (c_code c)"
  shows "\<exists>acts depth. run_acts op c ps at = Some acts \<and> exec acts d = Some depth
    \<and> (\<not> raising op \<longrightarrow> int depth = e)"
proof -
  consider "op = Op_Class" | "op = Op_DeferPush \<or> op = Op_DeferPushMethod"
    | "op \<noteq> Op_Class" "op \<noteq> Op_DeferPush" "op \<noteq> Op_DeferPushMethod" by blast
  then show ?thesis
  proof cases
    case 1
    then show ?thesis using acts_class [of c off at d e ps] assms(1,2) by auto
  next
    case 2
    then show ?thesis using acts_defer [OF assms(1) 2 assms(4), of ps] by auto
  next
    case 3
    obtain n where n: "count_operand c op at = Some n" "fst (stack_effect op n) \<le> d"
      and e: "e = int d + net (stack_effect op n)"
      using depth_out_static [OF assms(1) 3] by blast
    have "\<exists>i. read_u16 c at = Some i \<and> unat i < length ps" if "op = Op_CheckParam"
      using assms(3) that by (simp add: operand_in_range_def)
    with acts_static [OF n 3] e show ?thesis by auto
  qed
qed

section \<open>Verified code and its depths\<close>

definition instrs_of :: "chunk \<Rightarrow> instr list" where
  "instrs_of c = (case decode_from (c_code c) 0
       ((replicate (length (c_code c) + 1) False)[length (c_code c) := True]) [] of
     Ok (_, is) \<Rightarrow> is | _ \<Rightarrow> [])"

text \<open>
  What the loop relies on and the verifier does not check: the cell slots and the parameters
  lie in the frame window, the closure captured a cell for every entry of the chunk's capture
  plan (so a root chunk has an empty plan), cell ops address cells, a closure's captures exist
  in its parent and imports bind existing slots.
\<close>

definition linked :: "chunk \<Rightarrow> param list \<Rightarrow> nat \<Rightarrow> bool \<Rightarrow> bool" where
  "linked c ps caps is_method \<longleftrightarrow> cells_fit c \<and> length (c_upvalues c) \<le> caps
     \<and> length ps + (if is_method then 1 else 0) \<le> unat (c_slot_count c)
     \<and> list_all (\<lambda>(_, op, at). run_table op \<in> {UCell, UProto, UImport} \<longrightarrow> table_ok c caps op at) (instrs_of c)"

definition no_suspend :: "chunk \<Rightarrow> bool" where
  "no_suspend c \<longleftrightarrow> list_all (\<lambda>(_, op, _). op \<noteq> Op_Yield) (instrs_of c)"

definition safe_code :: "code_base \<Rightarrow> bool" where
  "safe_code U \<longleftrightarrow> (\<forall>(c, ps, caps, m) \<in> U. c_code c \<noteq> [] \<and> verify_chunk c (length ps) = Ok ()
     \<and> linked c ps caps m \<and> no_statics c \<and> no_suspend c)"

text \<open>The verifier assigns depth \<open>d\<close> to code offset \<open>off\<close>.\<close>

definition at_depth :: "chunk \<Rightarrow> nat \<Rightarrow> nat \<Rightarrow> nat \<Rightarrow> bool" where
  "at_depth c n off d \<longleftrightarrow> (\<exists>b is \<phi> i.
     decode_from (c_code c) 0 ((replicate (length (c_code c) + 1) False)[length (c_code c) := True]) [] = Ok (b, is)
     \<and> (\<forall>ins \<in> set is. check_operands c b n ins = Ok ()) \<and> consistent_depths c is b \<phi>
     \<and> \<phi> i = Some (int d) \<and> fst (is ! i) = off)"

lemma verified_start:
  assumes "verify_chunk c n = Ok ()" and "c_code c \<noteq> []"
  shows "at_depth c n 0 0"
proof -
  from assms obtain b "is" \<phi> where dec: "decode_from (c_code c) 0
      ((replicate (length (c_code c) + 1) False)[length (c_code c) := True]) [] = Ok (b, is)"
    and ck: "\<forall>ins \<in> set is. check_operands c b n ins = Ok ()"
    and con: "consistent_depths c is b \<phi>" "\<phi> 0 = Some 0"
    by (auto simp: verify_chunk_iff)
  have "fst (is ! 0) = 0"
    using decoded_start [OF dec] assms(2) by (cases "is") (auto simp: decoded_def)
  with dec ck con show ?thesis unfolding at_depth_def by fastforce
qed

text \<open>The instructions that can follow an op, with the offsets the run loop continues at.\<close>

definition falls :: "op \<Rightarrow> bool" where
  "falls op \<longleftrightarrow> op \<notin> {Op_Jump, Op_Loop, Op_Return, Op_Yield, Op_MatchNoArm, Op_ImmutableError}"

definition disp_at :: "op \<Rightarrow> nat \<Rightarrow> nat option" where
  "disp_at op at =
     (if op \<in> {Op_Jump, Op_Loop, Op_JumpIfFalse, Op_JumpIfTrue, Op_JumpIfNotNil} then Some at
      else if op = Op_JumpIfArgSupplied then Some (at + 2) else None)"

lemma jump_target_jump_to:
  assumes "disp_at op at = Some p"
  shows "jump_target c p = map_option (jump_to (at + operand_width op)) (read_i16 c p)"
proof -
  have "at + operand_width op = p + 2"
    using assms by (auto simp: disp_at_def split: if_splits)
  moreover have "(\<lambda>disp. nat ((int (p + 2) + disp) mod 2 ^ 64)) = jump_to (p + 2)"
    by (simp only: fun_eq_iff jump_to_def) simp
  ultimately show ?thesis by (simp only: jump_target_def)
qed

lemma successors_fall:
  assumes "successors c is b off op at e = Ok ss" and "falls op"
  shows "\<exists>i. idx_of is (next_offset off op) = Some i \<and> (i, e) \<in> set ss"
  using assms
  by (auto simp: successors_def falls_def push_fallthrough_def Let_def split: if_splits option.splits)

lemma successors_jump:
  assumes "successors c is b off op at e = Ok ss" and "disp_at op at = Some p"
  shows "\<exists>t i. jump_target c p = Some t \<and> idx_of is t = Some i \<and> (i, e) \<in> set ss"
  using assms
  by (auto simp: successors_def disp_at_def push_succ_def Let_def split: if_splits option.splits)

lemma at_depth_instr:
  assumes "at_depth c n off d"
  obtains op e where "Option.bind (vec_get (c_code c) off) from_u8 = Some op"
    and "(off, op, off + 1) \<in> set (instrs_of c)" and "op \<noteq> Op_Break"
    and "off + 1 + operand_width op \<le> length (c_code c)"
    and "operand_in_range c n op (off + 1)" and "depth_out c off op (off + 1) (int d) = Ok (int e)"
    and "falls op \<Longrightarrow> at_depth c n (off + 1 + operand_width op) e"
    and "\<And>p. disp_at op (off + 1) = Some p \<Longrightarrow>
      \<exists>disp. read_i16 c p = Some disp \<and> at_depth c n (jump_to (off + 1 + operand_width op) disp) e"
proof -
  from assms obtain b "is" \<phi> i where dec: "decode_from (c_code c) 0
      ((replicate (length (c_code c) + 1) False)[length (c_code c) := True]) [] = Ok (b, is)"
    and ck: "\<forall>ins \<in> set is. check_operands c b n ins = Ok ()"
    and con: "consistent_depths c is b \<phi>" and i: "\<phi> i = Some (int d)" "fst (is ! i) = off"
    by (auto simp: at_depth_def)
  have instrs: "instrs_of c = is" using dec by (simp add: instrs_of_def)
  have chain: "instr_chain (c_code c) 0 is" using decoded_start [OF dec] by (simp add: decoded_def)
  from con i(1) obtain ss where il: "i < length is" and vis: "visit c is b i (int d) = Ok ss"
    and ss: "\<forall>(j, e) \<in> set ss. \<phi> j = Some e"
    unfolding consistent_depths_def by blast
  obtain op at where ins: "is ! i = (off, op, at)" using i(2) by (cases "is ! i") auto
  then have mem: "(off, op, at) \<in> set is" using il by (metis nth_mem)
  note m = chain_mem [OF chain mem]
  from vis ins obtain e where e: "depth_out c off op at (int d) = Ok e"
    and suc: "successors c is b off op at e = Ok ss"
    by (auto simp: visit_def)
  have e0: "0 \<le> e"
    using e by (auto simp: depth_out_def Let_def net_def split: if_splits)
  have ad: "at_depth c n (fst (is ! j)) (nat e)" if "(j, e) \<in> set ss" for j
    using dec ck con that ss e0 unfolding at_depth_def by fastforce
  have idx: "fst (is ! j) = t" if "idx_of is t = Some j" for j t
    using that by (simp add: idx_of_Some [OF chain_distinct [OF chain]])
  have fall: "at_depth c n (off + 1 + operand_width op) (nat e)" if "falls op"
    using successors_fall [OF suc that] ad idx unfolding next_offset_def by metis
  have jump: "\<exists>disp. read_i16 c p = Some disp \<and> at_depth c n (jump_to (off + 1 + operand_width op) disp) (nat e)"
    if "disp_at op (off + 1) = Some p" for p
  proof -
    from successors_jump [OF suc, of p] that m obtain t j where
      "jump_target c p = Some t" "idx_of is t = Some j" "(j, e) \<in> set ss" by auto
    with jump_target_jump_to [OF that, of c] ad [of j] idx [of t j] m show ?thesis
      by (cases "read_i16 c p") auto
  qed
  show thesis
    by (rule that [of op "nat e"])
      (use m mem instrs e e0 fall jump ck check_operands_in_range [of c b n off op at] in
        \<open>auto simp: vec_get_def\<close>)
qed

section \<open>The frame invariant\<close>

text \<open>
  Every suspended caller is stopped at an offset whose depth counts the result it waits for,
  and the frame above starts exactly where that result will go.  The top frame's operands are
  exactly as many as the verifier assigned.
\<close>

fun callers_inv :: "code_base \<Rightarrow> frame list \<Rightarrow> nat \<Rightarrow> bool" where
  "callers_inv U [] base \<longleftrightarrow> True"
| "callers_inv U (fr # rest) base \<longleftrightarrow>
     (\<exists>m d. (fr_chunk fr, fr_params fr, fr_captured fr, m) \<in> U \<and> base = floor_of fr + d
        \<and> at_depth (fr_chunk fr) (length (fr_params fr)) (fr_ip fr) (Suc d))
     \<and> callers_inv U rest (fr_base fr)"

definition fiber_inv :: "code_base \<Rightarrow> fiber \<Rightarrow> bool" where
  "fiber_inv U fb \<longleftrightarrow> (case fb_frames fb of [] \<Rightarrow> False
     | fr # rest \<Rightarrow> (\<exists>m d. (fr_chunk fr, fr_params fr, fr_captured fr, m) \<in> U \<and> fb_len fb = floor_of fr + d
          \<and> at_depth (fr_chunk fr) (length (fr_params fr)) (fr_ip fr) d)
        \<and> callers_inv U rest (fr_base fr))"

fun outcome_inv :: "code_base \<Rightarrow> outcome \<Rightarrow> bool" where
  "outcome_inv U (Running fb) = fiber_inv U fb"
| "outcome_inv U (Suspended fb) = False"
| "outcome_inv U Finished = True"
| "outcome_inv U Raised = True"
| "outcome_inv U (Unreachable op) \<longleftrightarrow> op \<in> {Op_RangeResolveStep, Op_RangeHasNext}"
| "outcome_inv U Fault = False"

lemma safe_codeD:
  assumes "safe_code U" and "(c, ps, caps, m) \<in> U"
  shows "c_code c \<noteq> []" "verify_chunk c (length ps) = Ok ()" "linked c ps caps m" "no_statics c" "no_suspend c"
  using assms by (auto simp: safe_code_def)

lemma enter_frame_inv:
  assumes safe: "safe_code U" and mem: "(c, ps, caps, m) \<in> U" and k: "k = length ps + (if m then 1 else 0)"
    and callers: "callers_inv U (caller # rest) base"
  shows "outcome_inv U (enter_frame c ps caps k caller rest base)"
proof -
  note sc = safe_codeD [OF safe mem]
  have "at_depth c (length ps) 0 0" by (rule verified_start [OF sc(2,1)])
  with sc(3) mem callers k show ?thesis
    by (auto simp: enter_frame_def linked_def fiber_inv_def floor_of_def simp del: callers_inv.simps)
qed

lemma return_inv:
  assumes "callers_inv U rest (fr_base fr)" and "fr_base fr \<le> len"
  shows "outcome_inv U (return_from_frame fr rest len)"
proof (cases rest)
  case (Cons caller more)
  with assms show ?thesis by (auto simp: return_from_frame_def fiber_inv_def Let_def)
qed (simp add: return_from_frame_def)

text \<open>The operands the verifier ranged, as the run loop's own accesses see them.\<close>

lemma table_ok_verified:
  assumes "operand_in_range c n op at" and "run_table op \<notin> {UCell, UProto, UImport}"
    and "length (c_upvalues c) \<le> caps"
  shows "table_ok c caps op at"
  using assms
  by (cases op) (auto simp: table_ok_def run_table_def operand_in_range_def in_window_def)

lemma exec_op_no_fault:
  assumes safe: "safe_code U" and mem: "(fr_chunk fr, fr_params fr, fr_captured fr, m) \<in> U"
    and d: "at_depth (fr_chunk fr) (length (fr_params fr)) (fr_ip fr) d" and len: "len = floor_of fr + d"
  obtains op e where "Option.bind (vec_get (c_code (fr_chunk fr)) (fr_ip fr)) from_u8 = Some op"
    and "op \<noteq> Op_Yield" and "operand_in_range (fr_chunk fr) (length (fr_params fr)) op (fr_ip fr + 1)"
    and "exec_op dec op fr rest len = (if range_unreachable dec op then Unreachable op
      else if raising op \<or> dec = Throw then Raised else finish dec op fr rest e)"
    and "falls op \<Longrightarrow> at_depth (fr_chunk fr) (length (fr_params fr)) (fr_ip fr + 1 + operand_width op) e"
    and "\<And>p. disp_at op (fr_ip fr + 1) = Some p \<Longrightarrow> \<exists>disp. read_i16 (fr_chunk fr) p = Some disp
      \<and> at_depth (fr_chunk fr) (length (fr_params fr)) (jump_to (fr_ip fr + 1 + operand_width op) disp) e"
    and "depth_out (fr_chunk fr) (fr_ip fr) op (fr_ip fr + 1) (int d) = Ok (int e)"
proof (rule at_depth_instr [OF d])
  let ?c = "fr_chunk fr" and ?n = "length (fr_params fr)"
  note sc = safe_codeD [OF safe mem]
  fix op e
  assume op: "Option.bind (vec_get (c_code ?c) (fr_ip fr)) from_u8 = Some op"
    and mem': "(fr_ip fr, op, fr_ip fr + 1) \<in> set (instrs_of ?c)"
    and w: "fr_ip fr + 1 + operand_width op \<le> length (c_code ?c)"
    and rng: "operand_in_range ?c ?n op (fr_ip fr + 1)"
    and out: "depth_out ?c (fr_ip fr) op (fr_ip fr + 1) (int d) = Ok (int e)"
    and fall: "falls op \<Longrightarrow> at_depth ?c ?n (fr_ip fr + 1 + operand_width op) e"
    and jump: "\<And>p. disp_at op (fr_ip fr + 1) = Some p \<Longrightarrow>
      \<exists>disp. read_i16 ?c p = Some disp \<and> at_depth ?c ?n (jump_to (fr_ip fr + 1 + operand_width op) disp) e"
  have "table_ok ?c (fr_captured fr) op (fr_ip fr + 1)"
    using table_ok_verified [OF rng] mem' sc(3) by (fastforce simp: linked_def list_all_iff)
  moreover obtain acts depth where "run_acts op ?c (fr_params fr) (fr_ip fr + 1) = Some acts"
    "exec acts d = Some depth" "\<not> raising op \<Longrightarrow> int depth = int e"
    using acts_effect [OF out sc(4) rng] w by auto
  ultimately have "exec_op dec op fr rest len = (if range_unreachable dec op then Unreachable op
      else if raising op \<or> dec = Throw then Raised else finish dec op fr rest e)"
    by (auto simp: exec_op_def Let_def len)
  moreover have "op \<noteq> Op_Yield" using sc(5) mem' by (auto simp: no_suspend_def list_all_iff)
  ultimately show thesis by (intro that [OF op _ rng _ fall jump out])
qed

text \<open>A step of a fiber that satisfies the invariant never faults and keeps it.\<close>

lemma fiber_inv_go:
  assumes "(fr_chunk fr, fr_params fr, fr_captured fr, m) \<in> U" and "callers_inv U rest (fr_base fr)"
    and "at_depth (fr_chunk fr) (length (fr_params fr)) ip e"
  shows "fiber_inv U \<lparr>fb_frames = fr\<lparr>fr_ip := ip\<rparr> # rest, fb_len = floor_of fr + e\<rparr>"
  using assms by (auto simp: fiber_inv_def floor_of_def)

lemma callers_inv_call:
  assumes "(fr_chunk fr, fr_params fr, fr_captured fr, m) \<in> U" and "callers_inv U rest (fr_base fr)"
    and "at_depth (fr_chunk fr) (length (fr_params fr)) ip (Suc d)"
  shows "callers_inv U (fr\<lparr>fr_ip := ip\<rparr> # rest) (floor_of fr + d)"
  using assms by (auto simp: floor_of_def)

lemma call_depth_pos:
  assumes "depth_out c off op at (int d) = Ok (int e)"
    and "op \<in> {Op_Call, Op_CallElided, Op_CallSpread, Op_CallMethod, Op_CallMethodSpread, Op_Propagate}"
  shows "0 < e"
  using assms by (auto simp: depth_out_def Let_def net_def split: if_splits)

lemma finish_inv:
  assumes safe: "safe_code U" and mem: "(fr_chunk fr, fr_params fr, fr_captured fr, m) \<in> U"
    and callers: "callers_inv U rest (fr_base fr)" and adm: "admissible U dec"
    and ny: "op \<noteq> Op_Yield" and nr: "\<not> raising op"
    and fall: "falls op \<Longrightarrow> at_depth (fr_chunk fr) (length (fr_params fr)) (fr_ip fr + 1 + operand_width op) e"
    and jump: "\<And>p. disp_at op (fr_ip fr + 1) = Some p \<Longrightarrow> \<exists>disp. read_i16 (fr_chunk fr) p = Some disp
      \<and> at_depth (fr_chunk fr) (length (fr_params fr)) (jump_to (fr_ip fr + 1 + operand_width op) disp) e"
    and out: "depth_out (fr_chunk fr) (fr_ip fr) op (fr_ip fr + 1) (int d) = Ok (int e)"
  shows "outcome_inv U (finish dec op fr rest e)"
proof -
  let ?next = "fr_ip fr + 1 + operand_width op"
  note go = fiber_inv_go [OF mem callers]
  have base: "fr_base fr \<le> floor_of fr" by (simp add: floor_of_def)
  have enter: "outcome_inv U (enter_frame c' ps caps k (fr\<lparr>fr_ip := ?next\<rparr>) rest (floor_of fr + e - 1))"
    if "(c', ps, caps, m') \<in> U" "k = length ps + (if m' then 1 else 0)" "falls op" "0 < e" for c' ps caps m' k
    by (rule enter_frame_inv [OF safe that(1,2)])
      (use callers_inv_call [OF mem callers, of ?next "e - 1"] fall that(3,4) in auto)
  have enterF: "outcome_inv U (enter_frame c' ps caps (length ps) (fr\<lparr>fr_ip := ?next\<rparr>) rest (floor_of fr + e - 1))"
    if "(c', ps, caps, False) \<in> U" "falls op" "0 < e" for c' ps caps
    using enter [OF that(1) _ that(2,3)] by simp
  have enterM: "outcome_inv U (enter_frame c' ps caps (Suc (length ps)) (fr\<lparr>fr_ip := ?next\<rparr>) rest (floor_of fr + e - 1))"
    if "(c', ps, caps, True) \<in> U" "falls op" "0 < e" for c' ps caps
    using enter [OF that(1) _ that(2,3)] by simp
  consider "op = Op_Return" | (ret) "op = Op_Propagate" "dec = ReturnPair"
    | (jmp) p where "disp_at op (fr_ip fr + 1) = Some p" "op \<in> {Op_Jump, Op_Loop} \<or> dec = Branch"
    | (call) "op \<in> {Op_Call, Op_CallElided, Op_CallSpread}"
    | (meth) "op \<in> {Op_CallMethod, Op_CallMethodSpread}"
    | (seq) "finish dec op fr rest e = Running \<lparr>fb_frames = fr\<lparr>fr_ip := ?next\<rparr> # rest, fb_len = floor_of fr + e\<rparr>"
        "falls op"
    using ny nr by (fastforce simp: finish_def Let_def disp_at_def falls_def raising_def split: if_splits)
  then show ?thesis
  proof cases
    case 1
    then show ?thesis using return_inv [OF callers, of "floor_of fr + e"] base by (simp add: finish_def)
  next
    case ret
    then have "0 < e" using call_depth_pos [OF out] by simp
    then show ?thesis
      using ret return_inv [OF callers, of "floor_of fr + e - 1"] base by (simp add: finish_def)
  next
    case jmp
    with jump [OF jmp(1)] obtain disp where disp: "read_i16 (fr_chunk fr) p = Some disp"
      "at_depth (fr_chunk fr) (length (fr_params fr)) (jump_to ?next disp) e" by blast
    with jmp go [OF disp(2)] show ?thesis
      by (auto simp: finish_def Let_def disp_at_def split: if_splits)
  next
    case call
    then have "falls op" "0 < e" using call_depth_pos [OF out] by (auto simp: falls_def)
    with call go [OF fall] enterF adm show ?thesis
      by (cases dec) (auto simp: finish_def Let_def admissible_def)
  next
    case meth
    then have "falls op" "0 < e" using call_depth_pos [OF out] by (auto simp: falls_def)
    with meth go [OF fall] enterM adm show ?thesis
      by (cases dec) (auto simp: finish_def Let_def admissible_def)
  next
    case seq
    then show ?thesis using go [OF fall] by simp
  qed
qed

lemma run_op_inv:
  assumes safe: "safe_code U" and inv: "fiber_inv U fb" and adm: "admissible U dec"
  shows "outcome_inv U (run_op dec fb)"
proof -
  from inv obtain fr rest m d where fb: "fb_frames fb = fr # rest"
    and mem: "(fr_chunk fr, fr_params fr, fr_captured fr, m) \<in> U" and len: "fb_len fb = floor_of fr + d"
    and d: "at_depth (fr_chunk fr) (length (fr_params fr)) (fr_ip fr) d"
    and callers: "callers_inv U rest (fr_base fr)"
    by (auto simp: fiber_inv_def split: list.splits)
  show ?thesis
  proof (rule exec_op_no_fault [OF safe mem d len, where dec = dec and rest = rest])
    fix op e
    assume op: "Option.bind (vec_get (c_code (fr_chunk fr)) (fr_ip fr)) from_u8 = Some op" "op \<noteq> Op_Yield"
      and ex: "exec_op dec op fr rest (fb_len fb) = (if range_unreachable dec op then Unreachable op
        else if raising op \<or> dec = Throw then Raised else finish dec op fr rest e)"
      and fall: "falls op \<Longrightarrow> at_depth (fr_chunk fr) (length (fr_params fr)) (fr_ip fr + 1 + operand_width op) e"
      and jump: "\<And>p. disp_at op (fr_ip fr + 1) = Some p \<Longrightarrow> \<exists>disp. read_i16 (fr_chunk fr) p = Some disp
        \<and> at_depth (fr_chunk fr) (length (fr_params fr)) (jump_to (fr_ip fr + 1 + operand_width op) disp) e"
      and out: "depth_out (fr_chunk fr) (fr_ip fr) op (fr_ip fr + 1) (int d) = Ok (int e)"
    have "outcome_inv U (exec_op dec op fr rest (fb_len fb))"
      unfolding ex using finish_inv [OF safe mem callers adm op(2) _ fall jump out]
      by (simp add: range_unreachable_def)
    with fb op(1) show ?thesis by (simp add: run_op_def)
  qed
qed

text \<open>
  C4: the operand stack and the tables of checked code.  Start a fiber on a closure of a code
  base whose chunks have code, are accepted by the verifier, are linked (their cell, parameter,
  capture and import slots exist and the closure captured a cell per entry of the capture plan),
  declare no static methods and have no \<open>yield\<close>.  Whatever branches are taken, closures entered
  and errors raised, no reachable step pops an empty operand stack, reaches into a frame's
  locals, leaves the code, or indexes a table out of range, every frame's operands stay exactly
  as deep as the verifier computed, and the only \<open>unreachable!\<close> arms that can be hit are those of
  the two range ops on operands that are no numbers.
\<close>

theorem verified_code_never_faults:
  assumes "safe_code U" and "(c, ps, caps, m) \<in> U" and "vm_reach U (fiber_new c ps caps) out"
  shows "out \<noteq> Fault \<and> (\<forall>fb. out = Running fb \<longrightarrow> fiber_inv U fb)
    \<and> (\<forall>op. out = Unreachable op \<longrightarrow> op \<in> {Op_RangeResolveStep, Op_RangeHasNext})"
proof -
  from assms(3) have "outcome_inv U out"
  proof (induction rule: vm_reach.induct)
    case init
    note sc = safe_codeD [OF assms(1,2)]
    have "at_depth c (length ps) 0 0" by (rule verified_start [OF sc(2,1)])
    with sc(3) assms(2) show ?case
      by (auto simp: fiber_new_def linked_def fiber_inv_def floor_of_def)
  next
    case (step fb d)
    then show ?case using run_op_inv [OF assms(1)] by simp
  next
    case (resume fb)
    then show ?case by simp
  qed
  then show ?thesis by (cases out) auto
qed

end
