(* ===== verification/VerifyGaps.thy ===== *)
theory VerifyGaps
  imports RunLoop
begin

text \<open>
  Concrete chunks: one the verifier accepts and the run loop executes safely, and chunks that
  show that each extra condition of the safety theorem is needed, because the verifier accepts
  them and the run loop faults on them.
\<close>

section \<open>Evaluation\<close>

lemmas run_eval = run_op_def exec_op_def finish_def floor_of_def arm_defs table_ok_def run_table_def
  raising_def range_unreachable_def vec_get_def from_u8_bytes read_u16_def fiber_new_def cells_fit_def

section \<open>A safe chunk\<close>

text \<open>\<open>TRUE; JUMP_IF_FALSE +2; NIL; RETURN; FALSE; RETURN\<close>\<close>

definition branch_chunk :: chunk where
  "branch_chunk = chunk_new\<lparr>c_code := [2, 38, 2, 0, 1, 47, 3, 47]\<rparr>"

definition branch_instrs :: "instr list" where
  "branch_instrs = [(0, Op_True, 1), (1, Op_JumpIfFalse, 2), (4, Op_Nil, 5), (5, Op_Return, 6),
     (6, Op_False, 7), (7, Op_Return, 8)]"

lemma branch_decode:
  "decode_from (c_code branch_chunk) 0
     ((replicate (length (c_code branch_chunk) + 1) False)[length (c_code branch_chunk) := True]) []
   = Ok ([True, True, False, False, True, True, True, True, True], branch_instrs)"
  by (simp add: branch_chunk_def branch_instrs_def decode_eval)

lemma branch_verified: "verify_chunk branch_chunk 0 = Ok ()"
proof -
  have "verify_stack_balance branch_chunk branch_instrs
      [True, True, False, False, True, True, True, True, True] = Ok ()"
    by (simp add: branch_chunk_def branch_instrs_def verify_eval)
  moreover have "\<forall>ins \<in> set branch_instrs.
      check_operands branch_chunk [True, True, False, False, True, True, True, True, True] 0 ins = Ok ()"
    by (simp add: branch_chunk_def branch_instrs_def verify_eval)
  moreover have "c_code branch_chunk \<noteq> []" by (simp add: branch_chunk_def)
  ultimately show ?thesis by (simp only: verify_chunk_def branch_decode) simp
qed

theorem verify_chunk_accepts_iff_witness:
  "\<exists>\<phi>. consistent_depths branch_chunk branch_instrs [True, True, False, False, True, True, True, True, True] \<phi>
     \<and> \<phi> 0 = Some 0"
  using verify_chunk_accepts_iff [of branch_chunk 0] branch_verified branch_decode
  by (simp add: branch_chunk_def)

theorem verified_operands_in_range_witness:
  "\<exists>is. instr_chain (c_code branch_chunk) 0 is \<and> (\<forall>(off, op, at) \<in> set is. operand_in_range branch_chunk 0 op at
     \<and> (operand_rule_of op = CkJump \<longrightarrow> jump_lands branch_chunk is at))"
proof -
  have "c_code branch_chunk \<noteq> []" by (simp add: branch_chunk_def)
  from verified_operands_in_range [OF branch_verified this] show ?thesis by blast
qed

lemma fp_meta_mk_proto: "fp_meta (mk_proto m c) = m"
  by (simp add: mk_proto_def)

text \<open>A module whose only function has the body above.\<close>

definition nested_chunk :: chunk where
  "nested_chunk = branch_chunk\<lparr>c_protos := [mk_proto
     \<lparr>fm_arity = 0, fm_has_rest = False, fm_is_async = False, fm_is_generator = False, fm_is_worker = False,
      fm_owning_class = None, fm_params = [], fm_ret = None, fm_local_names = [], fm_debug_name = None,
      fm_name_span = None\<rparr> branch_chunk]\<rparr>"

lemma nested_verified: "verify nested_chunk = Ok ()"
proof -
  have "verify_chunk nested_chunk 0 = Ok ()"
    using branch_verified
    by (simp add: verify_chunk_def nested_chunk_def branch_chunk_def decode_eval verify_eval)
  moreover have "verify_proto_chunk branch_chunk 0 = Ok ()"
    using branch_verified by (subst verify_proto_chunk.simps) (simp add: branch_chunk_def)
  ultimately show ?thesis
    unfolding verify_def by (subst verify_proto_chunk.simps) (simp add: nested_chunk_def fp_meta_mk_proto)
qed

theorem verify_tree_witness:
  "proto_tree nested_chunk 0 branch_chunk 0 \<and> verify_chunk branch_chunk 0 = Ok ()"
proof
  show "proto_tree nested_chunk 0 branch_chunk 0"
    by (rule proto_tree.child [of "hd (c_protos nested_chunk)"])
      (simp_all add: nested_chunk_def fp_meta_mk_proto proto_tree.root)
  then show "verify_chunk branch_chunk 0 = Ok ()"
    using verify_tree [of nested_chunk] nested_verified by blast
qed

lemma branch_safe: "safe_code {(branch_chunk, [], 0, False)}"
proof -
  have instrs: "instrs_of branch_chunk = branch_instrs"
    by (simp only: instrs_of_def branch_decode) simp
  have "linked branch_chunk [] 0 False"
    unfolding linked_def instrs
    by (simp add: branch_chunk_def branch_instrs_def cells_fit_def run_table_def)
  moreover have "no_suspend branch_chunk"
    unfolding no_suspend_def instrs by (simp add: branch_instrs_def)
  ultimately show ?thesis
    using branch_verified by (simp add: safe_code_def no_statics_def) (simp add: branch_chunk_def)
qed

theorem verified_code_never_faults_witness:
  "run_op Branch \<lparr>fb_frames = [\<lparr>fr_chunk = branch_chunk, fr_params = [], fr_captured = 0, fr_ip = 1, fr_base = 0\<rparr>], fb_len = 1\<rparr>
     = Running \<lparr>fb_frames = [\<lparr>fr_chunk = branch_chunk, fr_params = [], fr_captured = 0, fr_ip = 6, fr_base = 0\<rparr>], fb_len = 0\<rparr>
   \<and> fiber_inv {(branch_chunk, [], 0, False)}
       \<lparr>fb_frames = [\<lparr>fr_chunk = branch_chunk, fr_params = [], fr_captured = 0, fr_ip = 6, fr_base = 0\<rparr>], fb_len = 0\<rparr>"
proof -
  let ?U = "{(branch_chunk, [], 0, False)} :: code_base"
  let ?f = "\<lambda>ip n. \<lparr>fb_frames = [\<lparr>fr_chunk = branch_chunk, fr_params = [], fr_captured = 0, fr_ip = ip, fr_base = 0\<rparr>], fb_len = n\<rparr>"
  have start: "fiber_new branch_chunk [] 0 = Running (?f 0 0)" by (simp add: branch_chunk_def run_eval)
  have s1: "run_op Proceed (?f 0 0) = Running (?f 1 1)" by (simp add: branch_chunk_def run_eval)
  have s2: "run_op Branch (?f 1 1) = Running (?f 6 0)"
    by (simp add: branch_chunk_def run_eval read_i16_def jump_to_def)
  have adm: "admissible ?U Proceed" "admissible ?U Branch" by (simp_all add: admissible_def)
  have "vm_reach ?U (fiber_new branch_chunk [] 0) (Running (?f 0 0))"
    unfolding start by (rule vm_reach.init)
  then have "vm_reach ?U (fiber_new branch_chunk [] 0) (Running (?f 1 1))"
    using vm_reach.step [OF _ adm(1)] s1 by metis
  then have "vm_reach ?U (fiber_new branch_chunk [] 0) (Running (?f 6 0))"
    using vm_reach.step [OF _ adm(2)] s2 by metis
  from verified_code_never_faults [OF branch_safe _ this, of False] s2 show ?thesis by simp
qed

section \<open>What the verifier does not check\<close>

text \<open>
  \<open>GET_UPVALUE 0; RETURN\<close> as a root chunk with a capture plan: the verifier bounds the operand by the
  plan, and the closure of a root chunk has captured nothing.
\<close>

definition upvalue_chunk :: chunk where
  "upvalue_chunk = chunk_new\<lparr>c_code := [10, 0, 0, 47], c_upvalues := [ParentUpvalue 0]\<rparr>"

lemma root_upvalues_unverified:
  "verify_chunk upvalue_chunk 0 = Ok ()
   \<and> vm_reach {(upvalue_chunk, [], 0, False)} (fiber_new upvalue_chunk [] 0) Fault"
proof
  have "decode_from (c_code upvalue_chunk) 0
      ((replicate (length (c_code upvalue_chunk) + 1) False)[length (c_code upvalue_chunk) := True]) []
    = Ok ([True, False, False, True, True], [(0, Op_GetUpvalue, 1), (3, Op_Return, 4)])"
    by (simp add: upvalue_chunk_def decode_eval)
  then show "verify_chunk upvalue_chunk 0 = Ok ()"
    by (simp add: verify_chunk_def) (simp add: upvalue_chunk_def verify_eval)
  let ?f = "\<lparr>fb_frames = [\<lparr>fr_chunk = upvalue_chunk, fr_params = [], fr_captured = 0, fr_ip = 0, fr_base = 0\<rparr>], fb_len = 0\<rparr>"
  have "fiber_new upvalue_chunk [] 0 = Running ?f" by (simp add: upvalue_chunk_def run_eval)
  moreover have "run_op Proceed ?f = Fault" by (simp add: upvalue_chunk_def run_eval)
  ultimately show "vm_reach {(upvalue_chunk, [], 0, False)} (fiber_new upvalue_chunk [] 0) Fault"
    using vm_reach.step [OF vm_reach.init, of "{(upvalue_chunk, [], 0, False)}" Proceed ?f]
    by (simp add: admissible_def)
qed

text \<open>A class with one static method; \<open>CLASS 0; RETURN\<close>.\<close>

definition static_class :: class_proto where
  "static_class = \<lparr>cp_class = \<lparr>cl_name = [67], cl_fields = [], cl_is_worker = False\<rparr>,
     cp_default_fields = [], cp_default_captures = [], cp_default_sources = [], cp_method_names = [],
     cp_static_method_names = [[109]], cp_has_super = False\<rparr>"

definition static_chunk :: chunk where
  "static_chunk = chunk_new\<lparr>c_code := [64, 0, 0, 47], c_class_protos := [static_class]\<rparr>"

text \<open>
  The verifier counts the superclass, the methods and the defaults a \<open>CLASS\<close> op pops but not
  the static methods.  A chunk that builds a class with one static method out of an empty stack is
  accepted, and the run loop pops from the empty operand stack.
\<close>

theorem static_methods_unverified:
  "verify_chunk static_chunk 0 = Ok ()
   \<and> vm_reach {(static_chunk, [], 0, False)} (fiber_new static_chunk [] 0) Fault"
proof
  have "decode_from (c_code static_chunk) 0
      ((replicate (length (c_code static_chunk) + 1) False)[length (c_code static_chunk) := True]) []
    = Ok ([True, False, False, True, True], [(0, Op_Class, 1), (3, Op_Return, 4)])"
    by (simp add: static_chunk_def decode_eval)
  then show "verify_chunk static_chunk 0 = Ok ()"
    by (simp add: verify_chunk_def) (simp add: static_chunk_def static_class_def verify_eval)
  let ?f = "\<lparr>fb_frames = [\<lparr>fr_chunk = static_chunk, fr_params = [], fr_captured = 0, fr_ip = 0, fr_base = 0\<rparr>], fb_len = 0\<rparr>"
  have "fiber_new static_chunk [] 0 = Running ?f" by (simp add: static_chunk_def run_eval)
  moreover have "run_op Proceed ?f = Fault"
    by (simp add: static_chunk_def static_class_def run_eval arm_class_def)
  ultimately show "vm_reach {(static_chunk, [], 0, False)} (fiber_new static_chunk [] 0) Fault"
    using vm_reach.step [OF vm_reach.init, of "{(static_chunk, [], 0, False)}" Proceed ?f]
    by (simp add: admissible_def)
qed

text \<open>\<open>NIL; YIELD; POP; POP; RETURN\<close>\<close>

definition yield_chunk :: chunk where
  "yield_chunk = chunk_new\<lparr>c_code := [1, 72, 4, 4, 47]\<rparr>"

text \<open>
  The verifier treats \<open>YIELD\<close> as the end of the frame, so the code a generator runs after it
  is resumed has no depth.  A chunk that pops twice after its \<open>YIELD\<close> is accepted; resumed with
  the one value \<open>next\<close> passes, the run loop pops from the empty operand stack.
\<close>

theorem code_after_yield_unverified:
  "verify_chunk yield_chunk 0 = Ok ()
   \<and> vm_reach {(yield_chunk, [], 0, False)} (fiber_new yield_chunk [] 0) Fault"
proof
  have "decode_from (c_code yield_chunk) 0
      ((replicate (length (c_code yield_chunk) + 1) False)[length (c_code yield_chunk) := True]) []
    = Ok ([True, True, True, True, True, True],
        [(0, Op_Nil, 1), (1, Op_Yield, 2), (2, Op_Pop, 3), (3, Op_Pop, 4), (4, Op_Return, 5)])"
    by (simp add: yield_chunk_def decode_eval)
  then show "verify_chunk yield_chunk 0 = Ok ()"
    by (simp add: verify_chunk_def) (simp add: yield_chunk_def verify_eval)
  let ?U = "{(yield_chunk, [], 0, False)} :: code_base"
  let ?f = "\<lambda>ip n. \<lparr>fb_frames = [\<lparr>fr_chunk = yield_chunk, fr_params = [], fr_captured = 0, fr_ip = ip, fr_base = 0\<rparr>], fb_len = n\<rparr>"
  let ?R = "vm_reach ?U (fiber_new yield_chunk [] 0)"
  have adm: "admissible ?U Proceed" by (simp add: admissible_def)
  have "fiber_new yield_chunk [] 0 = Running (?f 0 0)" by (simp add: yield_chunk_def run_eval)
  then have "?R (Running (?f 0 0))" using vm_reach.init [of ?U "fiber_new yield_chunk [] 0"] by simp
  moreover have "run_op Proceed (?f 0 0) = Running (?f 1 1)" by (simp add: yield_chunk_def run_eval)
  ultimately have "?R (Running (?f 1 1))" using vm_reach.step [OF _ adm] by metis
  moreover have "run_op Proceed (?f 1 1) = Suspended (?f 2 0)" by (simp add: yield_chunk_def run_eval)
  ultimately have "?R (Suspended (?f 2 0))" using vm_reach.step [OF _ adm] by metis
  then have "?R (Running (?f 2 1))" using vm_reach.resume [of ?U _ "?f 2 0"] by (simp add: resume_fiber_def)
  moreover have "run_op Proceed (?f 2 1) = Running (?f 3 0)" by (simp add: yield_chunk_def run_eval)
  ultimately have "?R (Running (?f 3 0))" using vm_reach.step [OF _ adm] by metis
  moreover have "run_op Proceed (?f 3 0) = Fault" by (simp add: yield_chunk_def run_eval)
  ultimately show "?R Fault" using vm_reach.step [OF _ adm] by metis
qed

text \<open>\<open>GET_LOCAL_CELL 0; RETURN\<close> with one slot, which is no cell.\<close>

definition cell_chunk :: chunk where
  "cell_chunk = chunk_new\<lparr>c_code := [82, 0, 0, 47], c_slot_count := 1\<rparr>"

text \<open>\<open>NIL; RETURN\<close> with a cell slot outside the window of no slots.\<close>

definition wild_cell_chunk :: chunk where
  "wild_cell_chunk = chunk_new\<lparr>c_code := [1, 47], c_cell_slots := [5]\<rparr>"

text \<open>
  The verifier bounds the slot of a cell op by the slot count only and does not look at the
  cell table.  A read of a slot that is no cell is accepted and faults when it runs; a cell slot
  outside the frame is accepted and faults when the frame is built; empty code is accepted and
  faults at its first fetch.
\<close>

theorem cell_slots_unverified:
  "verify_chunk cell_chunk 0 = Ok () \<and> vm_reach {(cell_chunk, [], 0, False)} (fiber_new cell_chunk [] 0) Fault
   \<and> verify_chunk wild_cell_chunk 0 = Ok () \<and> fiber_new wild_cell_chunk [] 0 = Fault
   \<and> verify_chunk chunk_new 0 = Ok () \<and> vm_reach {(chunk_new, [], 0, False)} (fiber_new chunk_new [] 0) Fault"
proof (intro conjI)
  have "decode_from (c_code cell_chunk) 0
      ((replicate (length (c_code cell_chunk) + 1) False)[length (c_code cell_chunk) := True]) []
    = Ok ([True, False, False, True, True], [(0, Op_GetLocalCell, 1), (3, Op_Return, 4)])"
    by (simp add: cell_chunk_def decode_eval)
  then show "verify_chunk cell_chunk 0 = Ok ()"
    by (simp add: verify_chunk_def) (simp add: cell_chunk_def verify_eval)
  have "decode_from (c_code wild_cell_chunk) 0
      ((replicate (length (c_code wild_cell_chunk) + 1) False)[length (c_code wild_cell_chunk) := True]) []
    = Ok ([True, True, True], [(0, Op_Nil, 1), (1, Op_Return, 2)])"
    by (simp add: wild_cell_chunk_def decode_eval)
  then show "verify_chunk wild_cell_chunk 0 = Ok ()"
    by (simp add: verify_chunk_def) (simp add: wild_cell_chunk_def verify_eval)
  show "fiber_new wild_cell_chunk [] 0 = Fault"
    by (simp add: wild_cell_chunk_def fiber_new_def cells_fit_def in_window_def)
  show "verify_chunk chunk_new 0 = Ok ()" by (simp add: verify_chunk_def)
  let ?f = "\<lparr>fb_frames = [\<lparr>fr_chunk = cell_chunk, fr_params = [], fr_captured = 0, fr_ip = 0, fr_base = 0\<rparr>], fb_len = 1\<rparr>"
  have "fiber_new cell_chunk [] 0 = Running ?f" by (simp add: cell_chunk_def run_eval)
  moreover have "run_op Proceed ?f = Fault" by (simp add: cell_chunk_def run_eval is_cell_def)
  ultimately show "vm_reach {(cell_chunk, [], 0, False)} (fiber_new cell_chunk [] 0) Fault"
    using vm_reach.step [OF vm_reach.init, of "{(cell_chunk, [], 0, False)}" Proceed ?f]
    by (simp add: admissible_def)
  let ?g = "\<lparr>fb_frames = [\<lparr>fr_chunk = chunk_new, fr_params = [], fr_captured = 0, fr_ip = 0, fr_base = 0\<rparr>], fb_len = 0\<rparr>"
  have "fiber_new chunk_new [] 0 = Running ?g" by (simp add: run_eval)
  moreover have "run_op Proceed ?g = Fault" by (simp add: run_eval)
  ultimately show "vm_reach {(chunk_new, [], 0, False)} (fiber_new chunk_new [] 0) Fault"
    using vm_reach.step [OF vm_reach.init, of "{(chunk_new, [], 0, False)}" Proceed ?g]
    by (simp add: admissible_def)
qed

end
