(* ===== verification/AsoCodec.thy ===== *)
theory AsoCodec
  imports Prelude
begin

text \<open>
  The byte sink and byte source of the \<open>.aso\<close> format (\<open>Writer\<close> and \<open>Reader\<close> in
  \<open>src/src/vm/aso.rs\<close>) with the laws the encoders and decoders are proved by.

  A writing function maps a writer to a writer or an error (the Rust functions without a
  \<open>Result\<close> always answer \<open>Ok\<close>).  A reading function maps a reader to a value and the advanced
  reader, an error, or a panic.  Recursive readers take fuel; running out of it is a
  \<open>Panic\<close>, and the fuel is chosen above the number of bytes left, which every recursive call
  decreases, so the totality lemmas also show that it never runs out.

  \<open>codes f R y\<close> says that whatever \<open>f\<close> writes without overflow, \<open>R\<close> reads back as \<open>y\<close>;
  \<open>safe_rd k m\<close> says that \<open>m\<close> neither panics nor moves outside the buffer when fewer than \<open>k\<close>
  bytes are left.  The locale \<open>codec\<close> packages both for one type of data and derives the laws
  of length-prefixed lists and options.
\<close>

section \<open>Errors\<close>

datatype aso_error =
    BadMagic bytes
  | VersionMismatch u32 u32
  | Truncated
  | BadConst u8
  | BadTag string u8
  | BadUtf8
  | Overflow
  | TrailingBytes
  | NonLiteralConst string
  | TooLarge string nat

section \<open>Writer\<close>

record writer =
  w_buf :: bytes
  w_overflow :: "aso_error option"

type_synonym wr = "writer \<Rightarrow> (writer, aso_error) result"

definition writer_new :: writer where
  "writer_new = \<lparr>w_buf = [], w_overflow = None\<rparr>"

definition w_raw :: "bytes \<Rightarrow> wr" where
  "w_raw bs w = Ok (w\<lparr>w_buf := w_buf w @ bs\<rparr>)"

definition w_u8 :: "u8 \<Rightarrow> wr" where
  "w_u8 v = w_raw [v]"

definition w_u16 :: "u16 \<Rightarrow> wr" where
  "w_u16 v = w_raw (to_le_bytes 2 v)"

definition w_u32 :: "u32 \<Rightarrow> wr" where
  "w_u32 v = w_raw (to_le_bytes 4 v)"

definition w_u64 :: "u64 \<Rightarrow> wr" where
  "w_u64 v = w_raw (to_le_bytes 8 v)"

definition w_bool :: "bool \<Rightarrow> wr" where
  "w_bool b = w_u8 (if b then 1 else 0)"

text \<open>An \<open>f64\<close> is written by its bit pattern, which is how the model holds it.\<close>

definition w_f64 :: "u64 \<Rightarrow> wr" where
  "w_f64 v = w_raw (to_le_bytes 8 v)"

definition w_usize :: "nat \<Rightarrow> wr" where
  "w_usize n = w_u64 (of_nat n)"

fun wr_seq :: "wr list \<Rightarrow> wr" where
  "wr_seq [] w = Ok w"
| "wr_seq (f # fs) w = res_bind (f w) (wr_seq fs)"

definition wr_fail :: "aso_error \<Rightarrow> wr" where
  "wr_fail e w = Err e"

definition write_len :: "nat \<Rightarrow> string \<Rightarrow> wr" where
  "write_len n what w =
     (if n < 2 ^ 32 then w_u32 (of_nat n) w
      else w_u32 (- 1) (if w_overflow w = None then w\<lparr>w_overflow := Some (TooLarge what n)\<rparr> else w))"

definition w_len :: "nat \<Rightarrow> wr" where
  "w_len n = write_len n ''collection''"

definition w_bytes :: "bytes \<Rightarrow> wr" where
  "w_bytes bs = wr_seq [write_len (length bs) ''byte field'', w_raw bs]"

definition w_str :: "rstring \<Rightarrow> wr" where
  "w_str s = w_bytes s"

text \<open>The presence byte with the optional value, as \<open>opt_str\<close> writes a string.\<close>

definition w_opt :: "('a \<Rightarrow> wr) \<Rightarrow> 'a option \<Rightarrow> wr" where
  "w_opt f x = (case x of Some v \<Rightarrow> wr_seq [w_u8 1, f v] | None \<Rightarrow> w_u8 0)"

definition w_opt_str :: "rstring option \<Rightarrow> wr" where
  "w_opt_str s = w_opt w_str s"

text \<open>A length prefix followed by every element.\<close>

definition w_list :: "('a \<Rightarrow> wr) \<Rightarrow> 'a list \<Rightarrow> wr" where
  "w_list f xs = wr_seq [w_len (length xs), wr_seq (map f xs)]"

section \<open>Reader\<close>

record reader =
  r_buf :: bytes
  r_pos :: nat

type_synonym 'a rd = "reader \<Rightarrow> ('a \<times> reader, aso_error) result"

definition reader_new :: "bytes \<Rightarrow> reader" where
  "reader_new buf = \<lparr>r_buf = buf, r_pos = 0\<rparr>"

definition rd_return :: "'a \<Rightarrow> 'a rd" where
  "rd_return x r = Ok (x, r)"

definition rd_fail :: "aso_error \<Rightarrow> 'a rd" where
  "rd_fail e r = Err e"

definition rd_stuck :: "'a rd" where
  "rd_stuck r = Panic"

definition rd_bind :: "'a rd \<Rightarrow> ('a \<Rightarrow> 'b rd) \<Rightarrow> 'b rd" where
  "rd_bind m f r = res_bind (m r) (\<lambda>(x, r'). f x r')"

definition rd_take :: "nat \<Rightarrow> bytes rd" where
  "rd_take n r =
     (if 2 ^ 64 \<le> r_pos r + n then Err Overflow
      else if r_pos r + n > length (r_buf r) then Err Truncated
      else Ok (take n (drop (r_pos r) (r_buf r)), r\<lparr>r_pos := r_pos r + n\<rparr>))"

definition rd_u8 :: "u8 rd" where
  "rd_u8 = rd_bind (rd_take 1) (\<lambda>b. rd_return (b ! 0))"

definition rd_peek_u8 :: "u8 rd" where
  "rd_peek_u8 r = (case vec_get (r_buf r) (r_pos r) of Some b \<Rightarrow> Ok (b, r) | None \<Rightarrow> Err Truncated)"

definition rd_u16 :: "u16 rd" where
  "rd_u16 = rd_bind (rd_take 2) (\<lambda>b. rd_return (from_le_bytes b))"

definition rd_u32 :: "u32 rd" where
  "rd_u32 = rd_bind (rd_take 4) (\<lambda>b. rd_return (from_le_bytes b))"

definition rd_u64 :: "u64 rd" where
  "rd_u64 = rd_bind (rd_take 8) (\<lambda>b. rd_return (from_le_bytes b))"

definition rd_f64 :: "u64 rd" where
  "rd_f64 = rd_u64"

definition rd_bool :: "bool rd" where
  "rd_bool = rd_bind rd_u8 (\<lambda>b. rd_return (b \<noteq> 0))"

text \<open>The host is 64-bit, so the narrowing of a \<open>u64\<close> or \<open>u32\<close> to \<open>usize\<close> never fails.\<close>

definition rd_usize :: "nat rd" where
  "rd_usize = rd_bind rd_u64 (\<lambda>v. rd_return (unat v))"

definition rd_len :: "nat rd" where
  "rd_len = rd_bind rd_u32 (\<lambda>v. rd_return (unat v))"

definition remaining :: "reader \<Rightarrow> nat" where
  "remaining r = length (r_buf r) - r_pos r"

definition at_end :: "reader \<Rightarrow> bool" where
  "at_end r \<longleftrightarrow> r_pos r = length (r_buf r)"

definition rd_bytes :: "bytes rd" where
  "rd_bytes = rd_bind rd_len rd_take"

text \<open>\<open>std::str::from_utf8\<close>: the well-formed byte sequences of the Unicode standard.\<close>

definition is_cont :: "u8 \<Rightarrow> bool" where
  "is_cont b \<longleftrightarrow> 0x80 \<le> b \<and> b \<le> 0xBF"

function utf8_valid :: "bytes \<Rightarrow> bool" where
  "utf8_valid bs = (case bs of
      [] \<Rightarrow> True
    | b0 # rest \<Rightarrow>
       if b0 < 0x80 then utf8_valid rest
       else if 0xC2 \<le> b0 \<and> b0 \<le> 0xDF then
         (case rest of b1 # r \<Rightarrow> is_cont b1 \<and> utf8_valid r | _ \<Rightarrow> False)
       else if 0xE0 \<le> b0 \<and> b0 \<le> 0xEF then
         (case rest of b1 # b2 # r \<Rightarrow>
            (if b0 = 0xE0 then 0xA0 \<le> b1 \<and> b1 \<le> 0xBF
             else if b0 = 0xED then 0x80 \<le> b1 \<and> b1 \<le> 0x9F else is_cont b1)
            \<and> is_cont b2 \<and> utf8_valid r
          | _ \<Rightarrow> False)
       else if 0xF0 \<le> b0 \<and> b0 \<le> 0xF4 then
         (case rest of b1 # b2 # b3 # r \<Rightarrow>
            (if b0 = 0xF0 then 0x90 \<le> b1 \<and> b1 \<le> 0xBF
             else if b0 = 0xF4 then 0x80 \<le> b1 \<and> b1 \<le> 0x8F else is_cont b1)
            \<and> is_cont b2 \<and> is_cont b3 \<and> utf8_valid r
          | _ \<Rightarrow> False)
       else False)"
  by pat_completeness auto
termination
  by (relation "measure length") auto

declare utf8_valid.simps [simp del]

definition rd_str :: "rstring rd" where
  "rd_str = rd_bind rd_bytes (\<lambda>b. if utf8_valid b then rd_return b else rd_fail BadUtf8)"

definition rd_opt :: "string \<Rightarrow> 'a rd \<Rightarrow> 'a option rd" where
  "rd_opt what m = rd_bind rd_u8 (\<lambda>tag.
     if tag = 0 then rd_return None
     else if tag = 1 then rd_bind m (\<lambda>v. rd_return (Some v))
     else rd_fail (BadTag what tag))"

definition rd_opt_str :: "rstring option rd" where
  "rd_opt_str = rd_opt ''opt-string'' rd_str"

text \<open>\<open>for _ in 0..n { out.push(m(r)?) }\<close>\<close>

fun rd_many :: "'a rd \<Rightarrow> nat \<Rightarrow> 'a list rd" where
  "rd_many m 0 = rd_return []"
| "rd_many m (Suc n) = rd_bind m (\<lambda>x. rd_bind (rd_many m n) (\<lambda>xs. rd_return (x # xs)))"

definition rd_list :: "'a rd \<Rightarrow> 'a list rd" where
  "rd_list m = rd_bind rd_len (rd_many m)"

section \<open>Reading back what was written\<close>

definition reads :: "'a rd \<Rightarrow> bytes \<Rightarrow> 'a \<Rightarrow> bool" where
  "reads m bs y \<longleftrightarrow> (\<forall>pre post. length (pre @ bs @ post) < 2 ^ 63 \<longrightarrow>
     m \<lparr>r_buf = pre @ bs @ post, r_pos = length pre\<rparr>
       = Ok (y, \<lparr>r_buf = pre @ bs @ post, r_pos = length pre + length bs\<rparr>))"

lemma reads_return: "reads (rd_return y) [] y"
  by (simp add: reads_def rd_return_def)

lemma reads_bind:
  assumes "reads m bs x" and "reads (f x) cs y"
  shows "reads (rd_bind m f) (bs @ cs) y"
  unfolding reads_def
proof (intro allI impI)
  fix pre post :: bytes
  assume len: "length (pre @ (bs @ cs) @ post) < 2 ^ 63"
  have "m \<lparr>r_buf = pre @ bs @ (cs @ post), r_pos = length pre\<rparr>
      = Ok (x, \<lparr>r_buf = pre @ bs @ (cs @ post), r_pos = length pre + length bs\<rparr>)"
    using assms(1) len unfolding reads_def by simp
  moreover have "f x \<lparr>r_buf = (pre @ bs) @ cs @ post, r_pos = length (pre @ bs)\<rparr>
      = Ok (y, \<lparr>r_buf = (pre @ bs) @ cs @ post, r_pos = length (pre @ bs) + length cs\<rparr>)"
    using assms(2) len unfolding reads_def by (metis append.assoc)
  ultimately show "rd_bind m f \<lparr>r_buf = pre @ (bs @ cs) @ post, r_pos = length pre\<rparr>
      = Ok (y, \<lparr>r_buf = pre @ (bs @ cs) @ post, r_pos = length pre + length (bs @ cs)\<rparr>)"
    by (simp add: rd_bind_def add.assoc)
qed

lemma reads_bind_return: "reads m bs x \<Longrightarrow> reads (rd_bind m (\<lambda>x. rd_return (f x))) bs (f x)"
  using reads_bind [of m bs x "\<lambda>x. rd_return (f x)" "[]" "f x"] by (simp add: reads_return)

lemma rd_bind_assoc: "rd_bind (rd_bind m f) g = rd_bind m (\<lambda>x. rd_bind (f x) g)"
proof
  show "rd_bind (rd_bind m f) g r = rd_bind m (\<lambda>x. rd_bind (f x) g) r" for r
    by (cases "m r") (auto simp: rd_bind_def)
qed

lemma rd_bind_return [simp]: "rd_bind (rd_return x) f = f x"
  by (simp add: fun_eq_iff rd_bind_def rd_return_def)

lemma reads_take: "length bs = n \<Longrightarrow> reads (rd_take n) bs bs"
  by (auto simp: reads_def rd_take_def)

lemma reads_u8: "reads rd_u8 [v] v"
  unfolding rd_u8_def using reads_bind_return [OF reads_take [of "[v]" 1], of "\<lambda>b. b ! 0"] by simp

lemma reads_word:
  fixes v :: "'a::len word"
  assumes "LENGTH('a) \<le> 8 * n"
  shows "reads (rd_bind (rd_take n) (\<lambda>b. rd_return (from_le_bytes b))) (to_le_bytes n v) v"
  using reads_bind_return [OF reads_take [of "to_le_bytes n v" n], of "from_le_bytes :: bytes \<Rightarrow> 'a word"]
  by (simp add: from_le_to_le assms)

lemma reads_u16: "reads rd_u16 (to_le_bytes 2 v) v"
  unfolding rd_u16_def by (rule reads_word) simp

lemma reads_u32: "reads rd_u32 (to_le_bytes 4 v) v"
  unfolding rd_u32_def by (rule reads_word) simp

lemma reads_u64: "reads rd_u64 (to_le_bytes 8 v) v"
  unfolding rd_u64_def by (rule reads_word) simp

section \<open>Encoders and their decoders\<close>

definition codes :: "wr \<Rightarrow> (nat \<Rightarrow> 'a rd) \<Rightarrow> 'a \<Rightarrow> bool" where
  "codes f R y \<longleftrightarrow> (\<forall>w w'. f w = Ok w' \<longrightarrow> (\<exists>bs. w_buf w' = w_buf w @ bs
     \<and> (w_overflow w' = None \<longrightarrow> w_overflow w = None \<and> (\<forall>k. length bs < k \<longrightarrow> reads (R k) bs y))))"

text \<open>The same for an encoder that writes at least one byte.\<close>

definition codes1 :: "wr \<Rightarrow> (nat \<Rightarrow> 'a rd) \<Rightarrow> 'a \<Rightarrow> bool" where
  "codes1 f R y \<longleftrightarrow> codes f R y \<and> (\<forall>w w'. f w = Ok w' \<longrightarrow> length (w_buf w) < length (w_buf w'))"

lemma codes1_codes: "codes1 f R y \<Longrightarrow> codes f R y"
  by (simp add: codes1_def)

lemma codes_nil: "codes (wr_seq []) (\<lambda>k. rd_return y) y"
  by (auto simp: codes_def reads_return)

lemma codes_raw: "reads m bs y \<Longrightarrow> codes (w_raw bs) (\<lambda>k. m) y"
  by (auto simp: codes_def w_raw_def)

lemma codes1_raw: "reads m bs y \<Longrightarrow> bs \<noteq> [] \<Longrightarrow> codes1 (w_raw bs) (\<lambda>k. m) y"
  by (auto simp: codes1_def codes_raw w_raw_def)

lemma codes_cons:
  assumes "codes f M x" and "codes (wr_seq fs) (\<lambda>k. F k x) y"
  shows "codes (wr_seq (f # fs)) (\<lambda>k. rd_bind (M k) (F k)) y"
  unfolding codes_def
proof (intro allI impI)
  fix w w'
  assume "wr_seq (f # fs) w = Ok w'"
  then obtain w1 where w1: "f w = Ok w1" "wr_seq fs w1 = Ok w'" by auto
  from assms(1) w1(1) obtain bs where bs: "w_buf w1 = w_buf w @ bs"
    "w_overflow w1 = None \<longrightarrow> w_overflow w = None \<and> (\<forall>k. length bs < k \<longrightarrow> reads (M k) bs x)"
    unfolding codes_def by blast
  from assms(2) w1(2) obtain cs where cs: "w_buf w' = w_buf w1 @ cs"
    "w_overflow w' = None \<longrightarrow> w_overflow w1 = None \<and> (\<forall>k. length cs < k \<longrightarrow> reads (F k x) cs y)"
    unfolding codes_def by blast
  show "\<exists>bs. w_buf w' = w_buf w @ bs \<and> (w_overflow w' = None \<longrightarrow>
      w_overflow w = None \<and> (\<forall>k. length bs < k \<longrightarrow> reads (rd_bind (M k) (F k)) bs y))"
    using bs cs by (intro exI [of _ "bs @ cs"]) (simp add: reads_bind [where bs = bs and cs = cs and x = x])
qed

text \<open>One unit of fuel is spent after the first field, which has at least one byte.\<close>

lemma codes_fuel:
  assumes R: "\<And>k. R (Suc k) = rd_bind M (F k)" and f: "codes1 f (\<lambda>k. M) x"
    and fs: "codes (wr_seq fs) (\<lambda>k. F k x) y"
  shows "codes (wr_seq (f # fs)) R y"
  unfolding codes_def
proof (intro allI impI)
  fix w w'
  assume "wr_seq (f # fs) w = Ok w'"
  then obtain w1 where w1: "f w = Ok w1" "wr_seq fs w1 = Ok w'" by auto
  from f have f': "codes f (\<lambda>k. M) x" and grow: "length (w_buf w) < length (w_buf w1)"
    using w1(1) by (simp_all add: codes1_def)
  from f' w1(1) obtain bs where bs: "w_buf w1 = w_buf w @ bs"
    "w_overflow w1 = None \<longrightarrow> w_overflow w = None \<and> (\<forall>k. length bs < k \<longrightarrow> reads M bs x)"
    unfolding codes_def by blast
  have ne: "1 \<le> length bs" using grow bs(1) by (cases bs) simp_all
  from fs w1(2) obtain cs where cs: "w_buf w' = w_buf w1 @ cs"
    "w_overflow w' = None \<longrightarrow> w_overflow w1 = None \<and> (\<forall>k. length cs < k \<longrightarrow> reads (F k x) cs y)"
    unfolding codes_def by blast
  have "reads (R k) (bs @ cs) y" if ov: "w_overflow w' = None" and lt: "length (bs @ cs) < k" for k
  proof -
    define k' where "k' = k - 1"
    have "length bs + length cs < k" using lt by simp
    then have k: "k = Suc k'" "length cs < k'" using ne unfolding k'_def by linarith+
    from ov cs(2) have ov1: "w_overflow w1 = None" and F: "\<forall>k. length cs < k \<longrightarrow> reads (F k x) cs y"
      by simp_all
    from ov1 bs(2) have M: "\<forall>k. length bs < k \<longrightarrow> reads M bs x" by simp
    then have "reads M bs x" using lessI [of "length bs"] by blast
    moreover have "reads (F k' x) cs y" using F k(2) by simp
    ultimately show ?thesis unfolding k R by (rule reads_bind)
  qed
  with bs cs show "\<exists>bs. w_buf w' = w_buf w @ bs \<and> (w_overflow w' = None \<longrightarrow>
      w_overflow w = None \<and> (\<forall>k. length bs < k \<longrightarrow> reads (R k) bs y))"
    by (intro exI [of _ "bs @ cs"]) auto
qed

lemma codes1_cons:
  assumes "codes1 f M x" and "codes (wr_seq fs) (\<lambda>k. F k x) y"
  shows "codes1 (wr_seq (f # fs)) (\<lambda>k. rd_bind (M k) (F k)) y"
  unfolding codes1_def
proof (intro conjI allI impI)
  show "codes (wr_seq (f # fs)) (\<lambda>k. rd_bind (M k) (F k)) y"
    by (rule codes_cons [where F = F, OF codes1_codes [OF assms(1)] assms(2)])
  fix w w' assume "wr_seq (f # fs) w = Ok w'"
  then obtain w1 where "f w = Ok w1" "wr_seq fs w1 = Ok w'" by auto
  with assms show "length (w_buf w) < length (w_buf w')"
    unfolding codes1_def codes_def by fastforce
qed

lemma codes_seq1: "codes f R y \<Longrightarrow> codes (wr_seq [f]) R y"
proof -
  have "wr_seq [f] w = f w" for w by (cases "f w") simp_all
  then show "codes f R y \<Longrightarrow> codes (wr_seq [f]) R y" by (simp add: codes_def)
qed

lemma codes_cong: "codes f R y \<Longrightarrow> y = z \<Longrightarrow> codes f R z"
  by simp

section \<open>Primitive codecs\<close>

lemma codes1_u8: "codes1 (w_u8 v) (\<lambda>k. rd_u8) v"
  unfolding w_u8_def by (rule codes1_raw [OF reads_u8]) simp

lemma codes1_u16: "codes1 (w_u16 v) (\<lambda>k. rd_u16) v"
  unfolding w_u16_def by (rule codes1_raw [OF reads_u16]) (simp add: numeral_eq_Suc)

lemma codes1_u32: "codes1 (w_u32 v) (\<lambda>k. rd_u32) v"
  unfolding w_u32_def by (rule codes1_raw [OF reads_u32]) (simp add: numeral_eq_Suc)

lemma codes1_u64: "codes1 (w_u64 v) (\<lambda>k. rd_u64) v"
  unfolding w_u64_def by (rule codes1_raw [OF reads_u64]) (simp add: numeral_eq_Suc)

lemma codes1_f64: "codes1 (w_f64 v) (\<lambda>k. rd_f64) v"
  unfolding w_f64_def rd_f64_def by (rule codes1_raw [OF reads_u64]) (simp add: numeral_eq_Suc)

lemma codes_map:
  assumes "codes f M x"
  shows "codes f (\<lambda>k. rd_bind (M k) (\<lambda>x. rd_return (h x))) (h x)"
  unfolding codes_def
proof (intro allI impI)
  fix w w' assume "f w = Ok w'"
  with assms obtain bs where bs: "w_buf w' = w_buf w @ bs"
    "w_overflow w' = None \<longrightarrow> w_overflow w = None \<and> (\<forall>k. length bs < k \<longrightarrow> reads (M k) bs x)"
    unfolding codes_def by blast
  then show "\<exists>bs. w_buf w' = w_buf w @ bs \<and> (w_overflow w' = None \<longrightarrow> w_overflow w = None
      \<and> (\<forall>k. length bs < k \<longrightarrow> reads (rd_bind (M k) (\<lambda>x. rd_return (h x))) bs (h x)))"
    by (intro exI [of _ bs]) (simp add: reads_bind_return)
qed

lemma codes1_map: "codes1 f M x \<Longrightarrow> codes1 f (\<lambda>k. rd_bind (M k) (\<lambda>x. rd_return (h x))) (h x)"
  by (simp add: codes1_def codes_map)

lemma codes1_bool: "codes1 (w_bool b) (\<lambda>k. rd_bool) b"
  unfolding w_bool_def rd_bool_def
  using codes1_map [OF codes1_u8, of "1" "\<lambda>b. b \<noteq> 0"] codes1_map [OF codes1_u8, of "0" "\<lambda>b. b \<noteq> 0"]
  by (cases b) simp_all

lemma codes1_usize: "n < 2 ^ 64 \<Longrightarrow> codes1 (w_usize n) (\<lambda>k. rd_usize) n"
  unfolding w_usize_def rd_usize_def
  using codes1_map [OF codes1_u64, of "of_nat n" unat] by (simp add: unat_of_nat)

lemma codes1_write_len: "codes1 (write_len n what) (\<lambda>k. rd_len) n"
proof (cases "n < 2 ^ 32")
  case True
  have eq: "write_len n what = w_u32 (of_nat n)" using True by (simp add: write_len_def fun_eq_iff)
  show ?thesis
    unfolding eq rd_len_def using codes1_map [OF codes1_u32, of "of_nat n" unat] True
    by (simp add: unat_of_nat)
next
  case False
  have eq: "write_len n what w = Ok (w\<lparr>w_buf := w_buf w @ to_le_bytes 4 (- 1 :: u32),
      w_overflow := (if w_overflow w = None then Some (TooLarge what n) else w_overflow w)\<rparr>)" for w
    using False by (cases w) (simp add: write_len_def w_u32_def w_raw_def)
  show ?thesis by (auto simp: codes1_def codes_def eq split: if_splits)
qed

lemma codes1_len: "codes1 (w_len n) (\<lambda>k. rd_len) n"
  unfolding w_len_def by (rule codes1_write_len)

lemma codes1_bytes: "codes1 (w_bytes bs) (\<lambda>k. rd_bytes) bs"
  unfolding w_bytes_def rd_bytes_def
  by (rule codes1_cons [where M = "\<lambda>k. rd_len" and F = "\<lambda>k. rd_take", OF codes1_write_len
        codes_seq1 [OF codes_raw [OF reads_take [OF refl]]]])

lemma codes1_str: "utf8_valid s \<Longrightarrow> codes1 (w_str s) (\<lambda>k. rd_str) s"
proof -
  assume "utf8_valid s"
  moreover have "reads rd_str bs s" if "reads rd_bytes bs s" for bs
    unfolding rd_str_def
    using reads_bind [OF that, of "\<lambda>b. if utf8_valid b then rd_return b else rd_fail BadUtf8" "[]" s] \<open>utf8_valid s\<close>
    by (simp add: reads_return)
  ultimately show ?thesis
    using codes1_bytes [of s] unfolding codes1_def codes_def w_str_def by blast
qed

lemma wr_seq_append: "wr_seq (fs @ gs) w = res_bind (wr_seq fs w) (wr_seq gs)"
proof (induction fs arbitrary: w)
  case (Cons f fs)
  then show ?case by (cases "f w") simp_all
qed simp

lemma wr_seq_nest: "wr_seq (wr_seq fs # gs) = wr_seq (fs @ gs)"
  by (simp add: fun_eq_iff wr_seq_append)

lemma wr_seq_one: "wr_seq [f] = f"
proof
  show "wr_seq [f] w = f w" for w by (cases "f w") simp_all
qed

lemma w_list_map: "w_list f (map h xs) = w_list (\<lambda>x. f (h x)) xs"
  by (simp add: w_list_def comp_def)

lemma codes_many:
  assumes "\<And>x. x \<in> set xs \<Longrightarrow> codes (f x) R (g x)"
  shows "codes (wr_seq (map f xs)) (\<lambda>k. rd_many (R k) (length xs)) (map g xs)"
  using assms
proof (induction xs)
  case (Cons x xs)
  have "codes (wr_seq (map f xs)) (\<lambda>k. rd_bind (rd_many (R k) (length xs)) (\<lambda>ys. rd_return (g x # ys))) (g x # map g xs)"
    using codes_map [OF Cons.IH, of "\<lambda>ys. g x # ys"] Cons.prems by simp
  then show ?case
    using codes_cons [of "f x" R "g x" "map f xs"
        "\<lambda>k y. rd_bind (rd_many (R k) (length xs)) (\<lambda>ys. rd_return (y # ys))"] Cons.prems
    by (simp del: wr_seq.simps)
qed (simp add: codes_nil)

lemma codes1_list:
  assumes "\<And>x. x \<in> set xs \<Longrightarrow> codes (f x) R (g x)"
  shows "codes1 (w_list f xs) (\<lambda>k. rd_list (R k)) (map g xs)"
  unfolding w_list_def rd_list_def
  by (rule codes1_cons [where M = "\<lambda>k. rd_len" and F = "\<lambda>k. rd_many (R k)", OF codes1_len
        codes_seq1 [OF codes_many [OF assms]]])

lemma codes1_opt:
  assumes "\<And>x. o' = Some x \<Longrightarrow> codes (f x) R (g x)"
  shows "codes1 (w_opt f o') (\<lambda>k. rd_opt what (R k)) (map_option g o')"
proof (cases o')
  case None
  have "codes1 (wr_seq [w_u8 0]) (\<lambda>k. rd_opt what (R k)) None"
    unfolding rd_opt_def
    by (rule codes1_cons [where M = "\<lambda>k. rd_u8", OF codes1_u8]) (simp add: codes_nil)
  then show ?thesis using None by (simp add: w_opt_def wr_seq_one)
next
  case (Some x)
  have "codes (wr_seq [f x]) (\<lambda>k. rd_bind (R k) (\<lambda>x. rd_return (Some x))) (Some (g x))"
    by (rule codes_seq1 [OF codes_map [OF assms [OF Some]]])
  then have "codes1 (wr_seq [w_u8 1, f x]) (\<lambda>k. rd_opt what (R k)) (Some (g x))"
    unfolding rd_opt_def by (intro codes1_cons [where M = "\<lambda>k. rd_u8", OF codes1_u8]) simp
  then show ?thesis using Some by (simp add: w_opt_def)
qed

text \<open>
  One field of a record at a time: the decoder's continuation is entered with the value that was
  written.
\<close>

named_theorems codes_steps \<open>a field and the rest of a record\<close>

lemma codes_done [codes_steps]: "v = y \<Longrightarrow> codes (wr_seq []) (\<lambda>k. rd_return v) y"
  using codes_nil [of y] by simp

lemma codes_u8_step [codes_steps]:
  "codes (wr_seq fs) (\<lambda>k. F k v) y \<Longrightarrow> codes (wr_seq (w_u8 v # fs)) (\<lambda>k. rd_bind rd_u8 (F k)) y"
  by (rule codes_cons [where M = "\<lambda>k. rd_u8" and F = F, OF codes1_codes [OF codes1_u8]])

lemma codes_u16_step [codes_steps]:
  "codes (wr_seq fs) (\<lambda>k. F k v) y \<Longrightarrow> codes (wr_seq (w_u16 v # fs)) (\<lambda>k. rd_bind rd_u16 (F k)) y"
  by (rule codes_cons [where M = "\<lambda>k. rd_u16" and F = F, OF codes1_codes [OF codes1_u16]])

lemma codes_u32_step [codes_steps]:
  "codes (wr_seq fs) (\<lambda>k. F k v) y \<Longrightarrow> codes (wr_seq (w_u32 v # fs)) (\<lambda>k. rd_bind rd_u32 (F k)) y"
  by (rule codes_cons [where M = "\<lambda>k. rd_u32" and F = F, OF codes1_codes [OF codes1_u32]])

lemma codes_u64_step [codes_steps]:
  "codes (wr_seq fs) (\<lambda>k. F k v) y \<Longrightarrow> codes (wr_seq (w_u64 v # fs)) (\<lambda>k. rd_bind rd_u64 (F k)) y"
  by (rule codes_cons [where M = "\<lambda>k. rd_u64" and F = F, OF codes1_codes [OF codes1_u64]])

lemma codes_f64_step [codes_steps]:
  "codes (wr_seq fs) (\<lambda>k. F k v) y \<Longrightarrow> codes (wr_seq (w_f64 v # fs)) (\<lambda>k. rd_bind rd_f64 (F k)) y"
  by (rule codes_cons [where M = "\<lambda>k. rd_f64" and F = F, OF codes1_codes [OF codes1_f64]])

lemma codes_bool_step [codes_steps]:
  "codes (wr_seq fs) (\<lambda>k. F k v) y \<Longrightarrow> codes (wr_seq (w_bool v # fs)) (\<lambda>k. rd_bind rd_bool (F k)) y"
  by (rule codes_cons [where M = "\<lambda>k. rd_bool" and F = F, OF codes1_codes [OF codes1_bool]])

lemma codes_usize_step [codes_steps]:
  "n < 2 ^ 64 \<Longrightarrow> codes (wr_seq fs) (\<lambda>k. F k n) y \<Longrightarrow> codes (wr_seq (w_usize n # fs)) (\<lambda>k. rd_bind rd_usize (F k)) y"
  by (rule codes_cons [where M = "\<lambda>k. rd_usize" and F = F, OF codes1_codes [OF codes1_usize]])

lemma codes_bytes_step [codes_steps]:
  "codes (wr_seq fs) (\<lambda>k. F k v) y \<Longrightarrow> codes (wr_seq (w_bytes v # fs)) (\<lambda>k. rd_bind rd_bytes (F k)) y"
  by (rule codes_cons [where M = "\<lambda>k. rd_bytes" and F = F, OF codes1_codes [OF codes1_bytes]])

lemma codes_raw_step [codes_steps]:
  "length v = n \<Longrightarrow> codes (wr_seq fs) (\<lambda>k. F k v) y \<Longrightarrow> codes (wr_seq (w_raw v # fs)) (\<lambda>k. rd_bind (rd_take n) (F k)) y"
  by (rule codes_cons [where M = "\<lambda>k. rd_take n" and F = F, OF codes_raw [OF reads_take]])

text \<open>The step for a recursive decoder \<open>R\<close>.\<close>

lemma rec_step:
  "codes f R x \<Longrightarrow> codes (wr_seq fs) (\<lambda>k. F k x) y \<Longrightarrow> codes (wr_seq (f # fs)) (\<lambda>k. rd_bind (R k) (F k)) y"
  by (rule codes_cons [where F = F])

lemma codes_list_step:
  "(\<And>x. x \<in> set xs \<Longrightarrow> codes (f x) R (g x)) \<Longrightarrow> codes (wr_seq fs) (\<lambda>k. F k (map g xs)) y \<Longrightarrow>
    codes (wr_seq (w_list f xs # fs)) (\<lambda>k. rd_bind (rd_list (R k)) (F k)) y"
  by (rule codes_cons [where F = F, OF codes1_codes [OF codes1_list]])

lemma codes_fail [codes_steps]: "codes (wr_fail e) R y"
  by (simp add: codes_def wr_fail_def)

lemma codes_if [codes_steps]:
  "(P \<Longrightarrow> codes f (\<lambda>k. A k) y) \<Longrightarrow> (\<not> P \<Longrightarrow> codes f (\<lambda>k. B k) y) \<Longrightarrow> codes f (\<lambda>k. if P then A k else B k) y"
  by (cases P) simp_all

section \<open>Decoders on arbitrary bytes\<close>

text \<open>
  \<open>safe_rd k m\<close>: on every well-formed reader with fewer than \<open>k\<close> bytes left, \<open>m\<close> returns a value
  or an error and leaves the reader well-formed, not behind its old position.
\<close>

definition reader_ok :: "reader \<Rightarrow> bool" where
  "reader_ok r \<longleftrightarrow> r_pos r \<le> length (r_buf r)"

definition moved :: "reader \<Rightarrow> reader \<Rightarrow> bool" where
  "moved r r' \<longleftrightarrow> r_buf r' = r_buf r \<and> r_pos r \<le> r_pos r' \<and> reader_ok r'"

definition safe_rd :: "nat \<Rightarrow> 'a rd \<Rightarrow> bool" where
  "safe_rd k m \<longleftrightarrow> (\<forall>r. reader_ok r \<longrightarrow> remaining r < k \<longrightarrow>
     m r \<noteq> Panic \<and> (\<forall>x r'. m r = Ok (x, r') \<longrightarrow> moved r r'))"

text \<open>A decoder that consumes at least one byte.\<close>

definition eats :: "'a rd \<Rightarrow> bool" where
  "eats m \<longleftrightarrow> (\<forall>r x r'. m r = Ok (x, r') \<longrightarrow> r_pos r < r_pos r')"

named_theorems safe_intros \<open>decoders that do not panic\<close>

lemma safe_return [safe_intros]: "safe_rd k (rd_return x)"
  by (simp add: safe_rd_def rd_return_def moved_def)

lemma safe_fail [safe_intros]: "safe_rd k (rd_fail e)"
  by (simp add: safe_rd_def rd_fail_def)

lemma safe_take [safe_intros]: "safe_rd k (rd_take n)"
  by (auto simp: safe_rd_def rd_take_def moved_def reader_ok_def)

lemma safe_peek [safe_intros]: "safe_rd k rd_peek_u8"
  by (auto simp: safe_rd_def rd_peek_u8_def moved_def split: option.splits)

lemma moved_trans: "moved r r' \<Longrightarrow> moved r' r'' \<Longrightarrow> moved r r''"
  by (auto simp: moved_def)

lemma moved_remaining: "moved r r' \<Longrightarrow> remaining r' \<le> remaining r"
  by (auto simp: moved_def remaining_def)

lemma safe_bind [safe_intros]:
  assumes m: "safe_rd k m" and f: "\<And>x. safe_rd k (f x)"
  shows "safe_rd k (rd_bind m f)"
  unfolding safe_rd_def
proof (intro allI impI)
  fix r assume r: "reader_ok r" "remaining r < k"
  have next_ok: "reader_ok r' \<and> remaining r' < k \<and> moved r r'" if "m r = Ok (x, r')" for x r'
  proof -
    have "moved r r'" using m r that unfolding safe_rd_def by blast
    then show ?thesis using r moved_remaining [of r r'] by (simp add: moved_def)
  qed
  show "rd_bind m f r \<noteq> Panic \<and> (\<forall>x r'. rd_bind m f r = Ok (x, r') \<longrightarrow> moved r r')"
  proof (cases "m r")
    case (Ok p)
    obtain x r' where p: "p = (x, r')" by (cases p)
    note r' = next_ok [OF Ok [unfolded p]]
    then show ?thesis
      using f [of x] moved_trans [of r r'] unfolding safe_rd_def rd_bind_def by (auto simp: Ok p)
  next
    case Panic
    with m r show ?thesis by (auto simp: safe_rd_def)
  qed (simp add: rd_bind_def)
qed

text \<open>The first field of a recursive decoder pays for one unit of fuel.\<close>

lemma safe_fuel:
  assumes m: "safe_rd (Suc k) m" "eats m" and f: "\<And>x. safe_rd k (f x)"
  shows "safe_rd (Suc k) (rd_bind m f)"
  unfolding safe_rd_def
proof (intro allI impI)
  fix r assume r: "reader_ok r" "remaining r < Suc k"
  show "rd_bind m f r \<noteq> Panic \<and> (\<forall>x r'. rd_bind m f r = Ok (x, r') \<longrightarrow> moved r r')"
  proof (cases "m r")
    case (Ok p)
    obtain x r' where p: "p = (x, r')" by (cases p)
    have mv: "moved r r'" using m(1) r Ok p by (auto simp: safe_rd_def)
    moreover have "r_pos r < r_pos r'" using m(2) Ok p by (auto simp: eats_def)
    ultimately have "reader_ok r'" "remaining r' < k"
      using r by (auto simp: moved_def remaining_def reader_ok_def)
    then show ?thesis
      using f [of x] moved_trans [OF mv] unfolding safe_rd_def rd_bind_def by (auto simp: Ok p)
  next
    case Panic
    with m r show ?thesis by (auto simp: safe_rd_def)
  qed (simp add: rd_bind_def)
qed

lemma safe_zero: "safe_rd 0 m"
  by (simp add: safe_rd_def)

lemma safe_many [safe_intros]: "safe_rd k m \<Longrightarrow> safe_rd k (rd_many m n)"
  by (induction n) (auto intro: safe_intros)

lemma safe_prims [safe_intros]:
  "safe_rd k rd_u8" "safe_rd k rd_u16" "safe_rd k rd_u32" "safe_rd k rd_u64" "safe_rd k rd_f64"
  "safe_rd k rd_bool" "safe_rd k rd_usize" "safe_rd k rd_len" "safe_rd k rd_bytes" "safe_rd k rd_str"
  by (auto simp: rd_u8_def rd_u16_def rd_u32_def rd_u64_def rd_f64_def rd_bool_def rd_usize_def
      rd_len_def rd_bytes_def rd_str_def intro!: safe_intros)

lemma safe_list [safe_intros]: "safe_rd k m \<Longrightarrow> safe_rd k (rd_list m)"
  by (auto simp: rd_list_def intro!: safe_intros)

lemma safe_opt [safe_intros]: "safe_rd k m \<Longrightarrow> safe_rd k (rd_opt what m)"
  by (auto simp: rd_opt_def intro!: safe_intros)

lemma eats_take: "0 < n \<Longrightarrow> eats (rd_take n)"
  by (auto simp: eats_def rd_take_def split: if_splits)

lemma eats_bind_return: "eats m \<Longrightarrow> eats (rd_bind m (\<lambda>x. rd_return (f x)))"
  by (auto simp: eats_def rd_bind_def rd_return_def)

lemma eats_bind:
  assumes "eats m" and "\<And>x r y r'. f x r = Ok (y, r') \<Longrightarrow> r_pos r \<le> r_pos r'"
  shows "eats (rd_bind m f)"
  unfolding eats_def
proof (intro allI impI)
  fix r y r' assume "rd_bind m f r = Ok (y, r')"
  then obtain x r1 where "m r = Ok (x, r1)" "f x r1 = Ok (y, r')" by (auto simp: rd_bind_def)
  with assms show "r_pos r < r_pos r'" unfolding eats_def by (meson less_le_trans)
qed

lemma eats_u8: "eats rd_u8"
  unfolding rd_u8_def by (intro eats_bind_return eats_take) simp

lemma eats_usize: "eats rd_usize"
  unfolding rd_usize_def rd_u64_def by (intro eats_bind_return eats_take) simp

section \<open>Fuel\<close>

text \<open>
  The recursive decoders run with one unit of fuel more than bytes are left.
\<close>

definition with_fuel :: "(nat \<Rightarrow> 'a rd) \<Rightarrow> 'a rd" where
  "with_fuel R r = R (Suc (remaining r)) r"

lemma reads_with_fuel:
  assumes "\<And>k. length bs < k \<Longrightarrow> reads (R k) bs y"
  shows "reads (with_fuel R) bs y"
  unfolding reads_def
proof (intro allI impI)
  fix pre post :: bytes
  assume len: "length (pre @ bs @ post) < 2 ^ 63"
  let ?r = "\<lparr>r_buf = pre @ bs @ post, r_pos = length pre\<rparr>"
  have "length bs < Suc (remaining ?r)" by (simp add: remaining_def)
  from assms [OF this] len show "with_fuel R ?r = Ok (y, \<lparr>r_buf = pre @ bs @ post, r_pos = length pre + length bs\<rparr>)"
    unfolding with_fuel_def reads_def by blast
qed

lemma codes_with_fuel: "codes f R y \<Longrightarrow> codes f (\<lambda>k. with_fuel R) y"
  unfolding codes_def using reads_with_fuel by meson

lemma safe_with_fuel:
  assumes "\<And>k. safe_rd k (R k)"
  shows "safe_rd k (with_fuel R)"
  unfolding safe_rd_def with_fuel_def
proof (intro allI impI)
  fix r assume "reader_ok r"
  then show "R (Suc (remaining r)) r \<noteq> Panic \<and> (\<forall>x r'. R (Suc (remaining r)) r = Ok (x, r') \<longrightarrow> moved r r')"
    using assms [of "Suc (remaining r)"] by (simp add: safe_rd_def)
qed

section \<open>The interface of a codec\<close>

text \<open>
  What the format relies on for one type of data: the decoder reads back what the encoder wrote,
  up to the normal form \<open>norm\<close> (the data the format keeps), and does not panic on any input.
\<close>

locale codec =
  fixes valid :: "'a \<Rightarrow> bool" and wr :: "'a \<Rightarrow> wr" and rd :: "nat \<Rightarrow> 'a rd" and norm :: "'a \<Rightarrow> 'a"
  assumes round_trip: "valid x \<Longrightarrow> codes (wr x) rd (norm x)"
    and total: "safe_rd k (rd k)"
begin

lemma list_round_trip: "list_all valid xs \<Longrightarrow> codes (w_list wr xs) (\<lambda>k. rd_list (rd k)) (map norm xs)"
  by (rule codes1_codes [OF codes1_list]) (simp add: list_all_iff round_trip)

lemma list_total: "safe_rd k (rd_list (rd k))"
  by (intro safe_intros total)

lemma opt_round_trip:
  "pred_option valid o' \<Longrightarrow> codes (w_opt wr o') (\<lambda>k. rd_opt what (rd k)) (map_option norm o')"
  by (rule codes1_codes [OF codes1_opt]) (auto simp: round_trip)

lemma opt_total: "safe_rd k (rd_opt what (rd k))"
  by (intro safe_intros total)

lemma step:
  "valid x \<Longrightarrow> codes (wr_seq fs) (\<lambda>k. F k (norm x)) y \<Longrightarrow>
    codes (wr_seq (wr x # fs)) (\<lambda>k. rd_bind (rd k) (F k)) y"
  by (rule codes_cons [where F = F, OF round_trip])

lemma list_step:
  "list_all valid xs \<Longrightarrow> codes (wr_seq fs) (\<lambda>k. F k (map norm xs)) y \<Longrightarrow>
    codes (wr_seq (w_list wr xs # fs)) (\<lambda>k. rd_bind (rd_list (rd k)) (F k)) y"
  by (rule codes_cons [where F = F, OF list_round_trip])

lemma opt_step:
  "pred_option valid v \<Longrightarrow> codes (wr_seq fs) (\<lambda>k. F k (map_option norm v)) y \<Longrightarrow>
    codes (wr_seq (w_opt wr v # fs)) (\<lambda>k. rd_bind (rd_opt what (rd k)) (F k)) y"
  by (rule codes_cons [where F = F, OF opt_round_trip])

text \<open>A whole file: writing into an empty writer and reading from the start.\<close>

lemma decode_encode:
  assumes "valid x" and "wr x writer_new = Ok w" and "w_overflow w = None" and "length (w_buf w) < 2 ^ 63"
  shows "with_fuel rd (reader_new (w_buf w)) = Ok (norm x, \<lparr>r_buf = w_buf w, r_pos = length (w_buf w)\<rparr>)"
proof -
  from round_trip [OF assms(1)] assms(2,3) have "reads (rd k) (w_buf w) (norm x)" if "length (w_buf w) < k" for k
    using that by (fastforce simp: codes_def writer_new_def)
  then have "reads (with_fuel rd) (w_buf w) (norm x)" by (rule reads_with_fuel)
  then have "with_fuel rd \<lparr>r_buf = [] @ w_buf w @ [], r_pos = length ([] :: bytes)\<rparr>
      = Ok (norm x, \<lparr>r_buf = [] @ w_buf w @ [], r_pos = length ([] :: bytes) + length (w_buf w)\<rparr>)"
    using assms(4) unfolding reads_def by (metis append_Nil append_Nil2)
  then show ?thesis by (simp add: reader_new_def)
qed

lemma decode_total: "with_fuel rd (reader_new bs) \<noteq> Panic"
  using total [of "Suc (length bs)"]
  by (simp add: safe_rd_def with_fuel_def remaining_def reader_new_def reader_ok_def)

end

interpretation str: codec utf8_valid w_str "\<lambda>k. rd_str" "\<lambda>s. s"
  by unfold_locales (auto intro: codes1_codes codes1_str safe_intros)

lemma codes_opt_str_step [codes_steps]:
  "pred_option utf8_valid v \<Longrightarrow> codes (wr_seq fs) (\<lambda>k. F k v) y \<Longrightarrow>
    codes (wr_seq (w_opt_str v # fs)) (\<lambda>k. rd_bind rd_opt_str (F k)) y"
  unfolding w_opt_str_def rd_opt_str_def using str.opt_step [of v fs F y] by (simp add: option.map_ident)

lemma codes_strs_step [codes_steps]:
  "list_all utf8_valid v \<Longrightarrow> codes (wr_seq fs) (\<lambda>k. F k v) y \<Longrightarrow>
    codes (wr_seq (w_list w_str v # fs)) (\<lambda>k. rd_bind (rd_list rd_str) (F k)) y"
  using str.list_step [of v fs F y] by simp

declare str.step [codes_steps]

lemma safe_opt_str [safe_intros]: "safe_rd k rd_opt_str"
  unfolding rd_opt_str_def by (intro safe_intros)

declare wr_seq.simps [simp del]

end
