(* ===== verification/AsoType.thy ===== *)
theory AsoType
  imports AsoCodec Ast
begin

text \<open>
  Type annotations and parameters in the \<open>.aso\<close> format (\<open>write_type\<close>, \<open>read_type\<close>,
  \<open>write_opt_type\<close>, \<open>read_opt_type\<close>, \<open>write_param\<close>, \<open>read_param\<close> in \<open>src/src/vm/aso.rs\<close>), and
  the records without nested data: upvalue descriptors, imports and interface descriptors.

  Generics are erased: a type parameter is read back as \<open>any\<close> and a function signature as \<open>fn\<close>;
  the default of a parameter is read back as a placeholder.
\<close>

section \<open>Types\<close>

abbreviation (input) "TY_NUMBER \<equiv> 0 :: u8"
abbreviation (input) "TY_STRING \<equiv> 1 :: u8"
abbreviation (input) "TY_BOOL \<equiv> 2 :: u8"
abbreviation (input) "TY_NIL \<equiv> 3 :: u8"
abbreviation (input) "TY_ANY \<equiv> 4 :: u8"
abbreviation (input) "TY_FN \<equiv> 5 :: u8"
abbreviation (input) "TY_OBJECT \<equiv> 6 :: u8"
abbreviation (input) "TY_ERROR \<equiv> 7 :: u8"
abbreviation (input) "TY_ARRAY \<equiv> 8 :: u8"
abbreviation (input) "TY_RESULT \<equiv> 9 :: u8"
abbreviation (input) "TY_TUPLE \<equiv> 10 :: u8"
abbreviation (input) "TY_UNION \<equiv> 11 :: u8"
abbreviation (input) "TY_NAMED \<equiv> 12 :: u8"
abbreviation (input) "TY_MAP \<equiv> 13 :: u8"
abbreviation (input) "TY_FUTURE \<equiv> 14 :: u8"
abbreviation (input) "TY_OPTIONAL \<equiv> 15 :: u8"
abbreviation (input) "TY_INT \<equiv> 16 :: u8"
abbreviation (input) "TY_FLOAT \<equiv> 17 :: u8"

primrec write_type :: "ty \<Rightarrow> wr" where
  "write_type TyNumber = wr_seq [w_u8 TY_NUMBER]"
| "write_type TyInt = wr_seq [w_u8 TY_INT]"
| "write_type TyFloat = wr_seq [w_u8 TY_FLOAT]"
| "write_type TyString = wr_seq [w_u8 TY_STRING]"
| "write_type TyBool = wr_seq [w_u8 TY_BOOL]"
| "write_type TyNil = wr_seq [w_u8 TY_NIL]"
| "write_type TyAny = wr_seq [w_u8 TY_ANY]"
| "write_type TyFn = wr_seq [w_u8 TY_FN]"
| "write_type TyObject = wr_seq [w_u8 TY_OBJECT]"
| "write_type TyError = wr_seq [w_u8 TY_ERROR]"
| "write_type (TyArray inner) = wr_seq [w_u8 TY_ARRAY, write_type inner]"
| "write_type (TyResult inner) = wr_seq [w_u8 TY_RESULT, write_type inner]"
| "write_type (TyTuple ts) = wr_seq [w_u8 TY_TUPLE, w_list id (map write_type ts)]"
| "write_type (TyUnion a b) = wr_seq [w_u8 TY_UNION, write_type a, write_type b]"
| "write_type (TyNamed n) = wr_seq [w_u8 TY_NAMED, w_str n]"
| "write_type (TyMap k v) = wr_seq [w_u8 TY_MAP, write_type k, write_type v]"
| "write_type (TyFuture inner) = wr_seq [w_u8 TY_FUTURE, write_type inner]"
| "write_type (TyOptional inner) = wr_seq [w_u8 TY_OPTIONAL, write_type inner]"
| "write_type (TyParam _) = wr_seq [w_u8 TY_ANY]"
| "write_type (TyFnSig _ _) = wr_seq [w_u8 TY_FN]"

definition read_type_tag :: "ty rd \<Rightarrow> u8 \<Rightarrow> ty rd" where
  "read_type_tag rec tag =
     (if tag = TY_NUMBER then rd_return TyNumber
      else if tag = TY_INT then rd_return TyInt
      else if tag = TY_FLOAT then rd_return TyFloat
      else if tag = TY_STRING then rd_return TyString
      else if tag = TY_BOOL then rd_return TyBool
      else if tag = TY_NIL then rd_return TyNil
      else if tag = TY_ANY then rd_return TyAny
      else if tag = TY_FN then rd_return TyFn
      else if tag = TY_OBJECT then rd_return TyObject
      else if tag = TY_ERROR then rd_return TyError
      else if tag = TY_ARRAY then rd_bind rec (\<lambda>t. rd_return (TyArray t))
      else if tag = TY_RESULT then rd_bind rec (\<lambda>t. rd_return (TyResult t))
      else if tag = TY_TUPLE then rd_bind (rd_list rec) (\<lambda>ts. rd_return (TyTuple ts))
      else if tag = TY_UNION then rd_bind rec (\<lambda>a. rd_bind rec (\<lambda>b. rd_return (TyUnion a b)))
      else if tag = TY_NAMED then rd_bind rd_str (\<lambda>n. rd_return (TyNamed n))
      else if tag = TY_MAP then rd_bind rec (\<lambda>k. rd_bind rec (\<lambda>v. rd_return (TyMap k v)))
      else if tag = TY_FUTURE then rd_bind rec (\<lambda>t. rd_return (TyFuture t))
      else if tag = TY_OPTIONAL then rd_bind rec (\<lambda>t. rd_return (TyOptional t))
      else rd_fail (BadTag ''type'' tag))"

primrec read_type_f :: "nat \<Rightarrow> ty rd" where
  "read_type_f 0 = rd_stuck"
| "read_type_f (Suc k) = rd_bind rd_u8 (read_type_tag (read_type_f k))"

definition read_type :: "ty rd" where
  "read_type = with_fuel read_type_f"

text \<open>What is read back, and the types whose names are strings of the language.\<close>

primrec norm_ty :: "ty \<Rightarrow> ty" where
  "norm_ty TyNumber = TyNumber"
| "norm_ty TyInt = TyInt"
| "norm_ty TyFloat = TyFloat"
| "norm_ty TyString = TyString"
| "norm_ty TyBool = TyBool"
| "norm_ty TyNil = TyNil"
| "norm_ty TyAny = TyAny"
| "norm_ty TyFn = TyFn"
| "norm_ty TyObject = TyObject"
| "norm_ty TyError = TyError"
| "norm_ty (TyArray t) = TyArray (norm_ty t)"
| "norm_ty (TyResult t) = TyResult (norm_ty t)"
| "norm_ty (TyTuple ts) = TyTuple (map norm_ty ts)"
| "norm_ty (TyUnion a b) = TyUnion (norm_ty a) (norm_ty b)"
| "norm_ty (TyNamed n) = TyNamed n"
| "norm_ty (TyMap k v) = TyMap (norm_ty k) (norm_ty v)"
| "norm_ty (TyFuture t) = TyFuture (norm_ty t)"
| "norm_ty (TyOptional t) = TyOptional (norm_ty t)"
| "norm_ty (TyParam _) = TyAny"
| "norm_ty (TyFnSig _ _) = TyFn"

fun valid_ty :: "ty \<Rightarrow> bool" where
  "valid_ty (TyArray t) = valid_ty t"
| "valid_ty (TyResult t) = valid_ty t"
| "valid_ty (TyTuple ts) = (\<forall>t \<in> set ts. valid_ty t)"
| "valid_ty (TyUnion a b) = (valid_ty a \<and> valid_ty b)"
| "valid_ty (TyNamed n) = utf8_valid n"
| "valid_ty (TyMap k v) = (valid_ty k \<and> valid_ty v)"
| "valid_ty (TyFuture t) = valid_ty t"
| "valid_ty (TyOptional t) = valid_ty t"
| "valid_ty _ = True"

lemma read_type_step:
  "codes (wr_seq fs) (\<lambda>k. read_type_tag (read_type_f k) tag) y \<Longrightarrow> codes (wr_seq (w_u8 tag # fs)) read_type_f y"
  by (rule codes_fuel [where M = rd_u8 and F = "\<lambda>k. read_type_tag (read_type_f k)"]) (simp_all add: codes1_u8)

lemma codes_write_type: "valid_ty t \<Longrightarrow> codes (write_type t) read_type_f (norm_ty t)"
proof (induction t)
  case (TyTuple ts)
  then have "codes (w_list id (map write_type ts)) (\<lambda>k. rd_list (read_type_f k)) (map norm_ty ts)"
    by (simp add: w_list_map codes1_codes [OF codes1_list])
  from codes_seq1 [OF codes_map [OF this, of TyTuple]] show ?case
    by (simp add: read_type_tag_def read_type_step)
next
  case (TyNamed n)
  then show ?case by (auto simp: read_type_tag_def intro!: read_type_step codes_steps)
qed (simp_all add: read_type_step read_type_tag_def codes_nil codes_cons codes_seq1 codes_map)

lemma safe_read_type_f: "safe_rd k (read_type_f k)"
proof (induction k)
  case (Suc k)
  then have "safe_rd k (read_type_tag (read_type_f k) tag)" for tag
    by (auto simp: read_type_tag_def intro!: safe_intros)
  then show ?case by (simp add: safe_fuel eats_u8 safe_prims)
qed (simp add: safe_zero)

lemma codes_type: "valid_ty t \<Longrightarrow> codes (write_type t) (\<lambda>k. read_type) (norm_ty t)"
  unfolding read_type_def by (rule codes_with_fuel [OF codes_write_type])

lemma safe_read_type [safe_intros]: "safe_rd k read_type"
  unfolding read_type_def by (rule safe_with_fuel [OF safe_read_type_f])

interpretation tyc: codec valid_ty write_type "\<lambda>k. read_type" norm_ty
  by unfold_locales (auto intro: codes_type safe_intros)

definition write_opt_type :: "ty option \<Rightarrow> wr" where
  "write_opt_type t = w_opt write_type t"

definition read_opt_type :: "ty option rd" where
  "read_opt_type = rd_opt ''opt-type'' read_type"

lemma opt_type_step [codes_steps]:
  "pred_option valid_ty t \<Longrightarrow> codes (wr_seq fs) (\<lambda>k. F k (map_option norm_ty t)) y \<Longrightarrow>
    codes (wr_seq (write_opt_type t # fs)) (\<lambda>k. rd_bind read_opt_type (F k)) y"
  unfolding write_opt_type_def read_opt_type_def by (rule tyc.opt_step)

lemma safe_opt_type [safe_intros]: "safe_rd k read_opt_type"
  unfolding read_opt_type_def by (intro safe_intros)

section \<open>Parameters\<close>

text \<open>The two offsets of a span; the model keeps them as words of the \<open>usize\<close> width.\<close>

definition w_span :: "span \<Rightarrow> wr" where
  "w_span s = wr_seq [w_usize (unat (sp_start s)), w_usize (unat (sp_end s))]"

definition rd_span :: "span rd" where
  "rd_span = rd_bind rd_usize (\<lambda>start. rd_bind rd_usize (\<lambda>end'. rd_return (span_new (of_nat start) (of_nat end'))))"

lemma span_eta: "span_new (sp_start s) (sp_end s) = s"
  by (cases s) (simp add: span_new_def)

lemma unat_usize [simp]: "unat (w :: u64) < 2 ^ 64"
proof -
  have "unat w < 2 ^ LENGTH(64)" by (rule unsigned_less)
  then show ?thesis by simp
qed

interpretation spn: codec "\<lambda>s. True" w_span "\<lambda>k. rd_span" "\<lambda>s. s"
proof
  show "codes (w_span s) (\<lambda>k. rd_span) s" for s
    unfolding w_span_def rd_span_def
    by (intro codes_usize_step unat_usize codes_done) (simp add: span_eta)
  show "safe_rd k rd_span" for k unfolding rd_span_def by (intro safe_intros)
qed

lemma codes1_span: "codes1 (w_span s) (\<lambda>k. rd_span) s"
  unfolding w_span_def rd_span_def
  by (rule codes1_cons [where M = "\<lambda>k. rd_usize", OF codes1_usize [OF unat_usize]])
    (intro codes_usize_step codes_done unat_usize, simp add: span_eta)

lemma eats_span: "eats rd_span"
  unfolding rd_span_def
  by (rule eats_bind [OF eats_usize])
    (auto simp: rd_bind_def rd_return_def dest: eats_usize [unfolded eats_def, rule_format])

declare spn.step [codes_steps] spn.total [safe_intros]

definition write_param :: "param \<Rightarrow> wr" where
  "write_param p = wr_seq [w_str (p_name p), write_opt_type (p_ty p), w_span (p_name_span p), w_bool (p_rest p),
     w_bool (p_default p \<noteq> None)]"

definition read_param :: "param rd" where
  "read_param =
     rd_bind rd_str (\<lambda>name.
     rd_bind read_opt_type (\<lambda>ty.
     rd_bind rd_span (\<lambda>name_span.
     rd_bind rd_bool (\<lambda>rest.
     rd_bind rd_bool (\<lambda>has_default.
     rd_return \<lparr>p_name = name, p_ty = ty, p_name_span = name_span, p_rest = rest,
       p_default = (if has_default then Some (Expr ENil name_span) else None)\<rparr>)))))"

definition norm_param :: "param \<Rightarrow> param" where
  "norm_param p = p\<lparr>p_ty := map_option norm_ty (p_ty p),
     p_default := map_option (\<lambda>_. Expr ENil (p_name_span p)) (p_default p)\<rparr>"

definition valid_param :: "param \<Rightarrow> bool" where
  "valid_param p \<longleftrightarrow> utf8_valid (p_name p) \<and> pred_option valid_ty (p_ty p)"

interpretation prm: codec valid_param write_param "\<lambda>k. read_param" norm_param
proof
  show "codes (write_param p) (\<lambda>k. read_param) (norm_param p)" if "valid_param p" for p
    using that unfolding write_param_def read_param_def valid_param_def
    by (intro codes_steps) (auto simp: norm_param_def)
  show "safe_rd k read_param" for k unfolding read_param_def by (intro safe_intros)
qed

section \<open>Upvalues\<close>

abbreviation (input) "UV_PARENT_LOCAL \<equiv> 0 :: u8"
abbreviation (input) "UV_PARENT_UPVALUE \<equiv> 1 :: u8"

primrec write_upvalue :: "upvalue_descriptor \<Rightarrow> wr" where
  "write_upvalue (ParentLocal slot by_value) = wr_seq [w_u8 UV_PARENT_LOCAL, w_u32 slot, w_bool by_value]"
| "write_upvalue (ParentUpvalue i) = wr_seq [w_u8 UV_PARENT_UPVALUE, w_u32 i]"

definition read_upvalue :: "upvalue_descriptor rd" where
  "read_upvalue = rd_bind rd_u8 (\<lambda>tag.
     if tag = UV_PARENT_LOCAL then
       rd_bind rd_u32 (\<lambda>slot. rd_bind rd_bool (\<lambda>by_value. rd_return (ParentLocal slot by_value)))
     else if tag = UV_PARENT_UPVALUE then rd_bind rd_u32 (\<lambda>i. rd_return (ParentUpvalue i))
     else rd_fail (BadTag ''upvalue'' tag))"

interpretation upv: codec "\<lambda>u. True" write_upvalue "\<lambda>k. read_upvalue" "\<lambda>u. u"
proof
  show "codes (write_upvalue u) (\<lambda>k. read_upvalue) u" for u
    unfolding read_upvalue_def by (cases u) (auto intro!: codes_steps)
  show "safe_rd k read_upvalue" for k unfolding read_upvalue_def by (auto intro!: safe_intros)
qed

section \<open>Imports\<close>

abbreviation (input) "IMP_NAMED \<equiv> 0 :: u8"
abbreviation (input) "IMP_NAMESPACE \<equiv> 1 :: u8"

definition write_import_name :: "rstring \<times> u16 \<times> bool \<times> bool \<Rightarrow> wr" where
  "write_import_name = (\<lambda>(name, slot, is_cell, is_global).
     wr_seq [w_str name, w_u16 slot, w_bool is_cell, w_bool is_global])"

definition read_import_name :: "(rstring \<times> u16 \<times> bool \<times> bool) rd" where
  "read_import_name =
     rd_bind rd_str (\<lambda>name. rd_bind rd_u16 (\<lambda>slot. rd_bind rd_bool (\<lambda>is_cell. rd_bind rd_bool (\<lambda>is_global.
       rd_return (name, slot, is_cell, is_global)))))"

interpretation imn: codec "\<lambda>(name, _). utf8_valid name" write_import_name "\<lambda>k. read_import_name" "\<lambda>n. n"
proof
  show "codes (write_import_name n) (\<lambda>k. read_import_name) n" if "case n of (name, _) \<Rightarrow> utf8_valid name" for n
    using that unfolding write_import_name_def read_import_name_def by (cases n) (auto intro!: codes_steps)
  show "safe_rd k read_import_name" for k unfolding read_import_name_def by (intro safe_intros)
qed

primrec write_import :: "import_desc \<Rightarrow> wr" where
  "write_import (ImportNamed source names) = wr_seq [w_u8 IMP_NAMED, w_str source, w_list write_import_name names]"
| "write_import (ImportNamespace source alias slot is_cell is_global) =
     wr_seq [w_u8 IMP_NAMESPACE, w_str source, w_str alias, w_u16 slot, w_bool is_cell, w_bool is_global]"

definition read_import :: "import_desc rd" where
  "read_import = rd_bind rd_u8 (\<lambda>tag.
     if tag = IMP_NAMED then
       rd_bind rd_str (\<lambda>source. rd_bind (rd_list read_import_name) (\<lambda>names. rd_return (ImportNamed source names)))
     else if tag = IMP_NAMESPACE then
       rd_bind rd_str (\<lambda>source. rd_bind rd_str (\<lambda>alias. rd_bind rd_u16 (\<lambda>slot.
       rd_bind rd_bool (\<lambda>is_cell. rd_bind rd_bool (\<lambda>is_global.
         rd_return (ImportNamespace source alias slot is_cell is_global))))))
     else rd_fail (BadTag ''import'' tag))"

primrec valid_import :: "import_desc \<Rightarrow> bool" where
  "valid_import (ImportNamed source names) \<longleftrightarrow> utf8_valid source \<and> list_all (\<lambda>(name, _). utf8_valid name) names"
| "valid_import (ImportNamespace source alias _ _ _) \<longleftrightarrow> utf8_valid source \<and> utf8_valid alias"

interpretation imp: codec valid_import write_import "\<lambda>k. read_import" "\<lambda>i. i"
proof
  show "codes (write_import i) (\<lambda>k. read_import) i" if "valid_import i" for i
    using that unfolding read_import_def by (cases i) (auto intro!: codes_steps imn.list_step)
  show "safe_rd k read_import" for k unfolding read_import_def by (auto intro!: safe_intros imn.total)
qed

section \<open>Interfaces\<close>

definition write_requirement :: "rstring \<times> nat \<times> bool \<Rightarrow> wr" where
  "write_requirement = (\<lambda>(name, arity, has_rest). wr_seq [w_str name, w_usize arity, w_bool has_rest])"

definition read_requirement :: "(rstring \<times> nat \<times> bool) rd" where
  "read_requirement =
     rd_bind rd_str (\<lambda>name. rd_bind rd_usize (\<lambda>arity. rd_bind rd_bool (\<lambda>has_rest. rd_return (name, arity, has_rest))))"

definition valid_requirement :: "rstring \<times> nat \<times> bool \<Rightarrow> bool" where
  "valid_requirement = (\<lambda>(name, arity, _). utf8_valid name \<and> arity < 2 ^ 64)"

interpretation req: codec valid_requirement write_requirement "\<lambda>k. read_requirement" "\<lambda>n. n"
proof
  show "codes (write_requirement n) (\<lambda>k. read_requirement) n" if "valid_requirement n" for n
    using that unfolding write_requirement_def read_requirement_def valid_requirement_def
    by (cases n) (auto intro!: codes_steps)
  show "safe_rd k read_requirement" for k unfolding read_requirement_def by (intro safe_intros)
qed

definition write_interface_proto :: "interface_proto \<Rightarrow> wr" where
  "write_interface_proto ip =
     wr_seq [w_str (ip_name ip), w_list write_requirement (ip_methods ip), w_list w_str (ip_extends ip)]"

definition read_interface_proto :: "interface_proto rd" where
  "read_interface_proto =
     rd_bind rd_str (\<lambda>name.
     rd_bind (rd_list read_requirement) (\<lambda>methods.
     rd_bind (rd_list rd_str) (\<lambda>extends.
     rd_return \<lparr>ip_name = name, ip_methods = methods, ip_extends = extends\<rparr>)))"

definition valid_interface :: "interface_proto \<Rightarrow> bool" where
  "valid_interface ip \<longleftrightarrow> utf8_valid (ip_name ip) \<and> list_all valid_requirement (ip_methods ip)
     \<and> list_all utf8_valid (ip_extends ip)"

interpretation ifc: codec valid_interface write_interface_proto "\<lambda>k. read_interface_proto" "\<lambda>n. n"
proof
  show "codes (write_interface_proto ip) (\<lambda>k. read_interface_proto) ip" if "valid_interface ip" for ip
    using that unfolding write_interface_proto_def read_interface_proto_def valid_interface_def
    by (auto intro!: codes_steps req.list_step)
  show "safe_rd k read_interface_proto" for k
    unfolding read_interface_proto_def by (intro safe_intros req.total)
qed

end
