(* ===== verification/AsoExpr.thy ===== *)
theory AsoExpr
  imports AsoType
begin

text \<open>
  Field-default expressions in the \<open>.aso\<close> format (\<open>write_expr\<close>, \<open>read_expr\<close>, \<open>read_expr_kind\<close>,
  \<open>binop_tag\<close>, \<open>binop_from_tag\<close> in \<open>src/src/vm/aso.rs\<close>).  An arrow function, a \<open>match\<close> and a \<open>yield\<close>
  are refused by the writer; the elision mark of a call is not kept.
\<close>

section \<open>Operators\<close>

primrec binop_tag :: "bin_op \<Rightarrow> u8" where
  "binop_tag BAdd = 0"
| "binop_tag BSub = 1"
| "binop_tag BMul = 2"
| "binop_tag BDiv = 3"
| "binop_tag BMod = 4"
| "binop_tag BPow = 5"
| "binop_tag BLt = 6"
| "binop_tag BLe = 7"
| "binop_tag BGt = 8"
| "binop_tag BGe = 9"
| "binop_tag BEq = 10"
| "binop_tag BNe = 11"
| "binop_tag BAnd = 12"
| "binop_tag BOr = 13"
| "binop_tag BCoalesce = 14"
| "binop_tag BRange = 15"
| "binop_tag BInstanceOf = 16"
| "binop_tag BBitAnd = 17"
| "binop_tag BBitOr = 18"
| "binop_tag BBitXor = 19"
| "binop_tag BShl = 20"
| "binop_tag BShr = 21"
| "binop_tag BWrapAdd = 22"
| "binop_tag BWrapSub = 23"
| "binop_tag BWrapMul = 24"

definition binop_from_tag :: "u8 \<Rightarrow> (bin_op, aso_error) result" where
  "binop_from_tag tag =
     (if tag = 0 then Ok BAdd
      else if tag = 1 then Ok BSub
      else if tag = 2 then Ok BMul
      else if tag = 3 then Ok BDiv
      else if tag = 4 then Ok BMod
      else if tag = 5 then Ok BPow
      else if tag = 6 then Ok BLt
      else if tag = 7 then Ok BLe
      else if tag = 8 then Ok BGt
      else if tag = 9 then Ok BGe
      else if tag = 10 then Ok BEq
      else if tag = 11 then Ok BNe
      else if tag = 12 then Ok BAnd
      else if tag = 13 then Ok BOr
      else if tag = 14 then Ok BCoalesce
      else if tag = 15 then Ok BRange
      else if tag = 16 then Ok BInstanceOf
      else if tag = 17 then Ok BBitAnd
      else if tag = 18 then Ok BBitOr
      else if tag = 19 then Ok BBitXor
      else if tag = 20 then Ok BShl
      else if tag = 21 then Ok BShr
      else if tag = 22 then Ok BWrapAdd
      else if tag = 23 then Ok BWrapSub
      else if tag = 24 then Ok BWrapMul
      else Err (BadTag ''binop'' tag))"

primrec unop_tag :: "un_op \<Rightarrow> u8" where
  "unop_tag UNeg = 0"
| "unop_tag UNot = 1"
| "unop_tag UBitNot = 2"

definition unop_from_tag :: "u8 \<Rightarrow> (un_op, aso_error) result" where
  "unop_from_tag tag =
     (if tag = 0 then Ok UNeg else if tag = 1 then Ok UNot else if tag = 2 then Ok UBitNot
      else Err (BadTag ''unop'' tag))"

text \<open>A decoding step that does not read.\<close>

definition rd_lift :: "('a, aso_error) result \<Rightarrow> 'a rd" where
  "rd_lift m r = res_bind m (\<lambda>x. Ok (x, r))"

lemma binop_from_to_tag [simp]: "binop_from_tag (binop_tag op) = Ok op"
  by (cases op) (simp_all add: binop_from_tag_def)

lemma unop_from_to_tag [simp]: "unop_from_tag (unop_tag op) = Ok op"
  by (cases op) (simp_all add: unop_from_tag_def)

lemma rd_lift_Ok [simp]: "rd_lift (Ok x) = rd_return x"
  by (simp add: fun_eq_iff rd_lift_def rd_return_def)

lemma safe_lift [safe_intros]: "m \<noteq> Panic \<Longrightarrow> safe_rd k (rd_lift m)"
  by (cases m) (auto simp: safe_rd_def rd_lift_def rd_return_def moved_def)

lemma op_from_tag_no_panic [simp]: "binop_from_tag tag \<noteq> Panic" "unop_from_tag tag \<noteq> Panic"
  by (simp_all add: binop_from_tag_def unop_from_tag_def)

section \<open>Writing\<close>

abbreviation (input) "EX_NUMBER \<equiv> 0 :: u8"
abbreviation (input) "EX_STR \<equiv> 1 :: u8"
abbreviation (input) "EX_BOOL \<equiv> 2 :: u8"
abbreviation (input) "EX_NIL \<equiv> 3 :: u8"
abbreviation (input) "EX_IDENT \<equiv> 4 :: u8"
abbreviation (input) "EX_PAREN \<equiv> 5 :: u8"
abbreviation (input) "EX_UNARY \<equiv> 6 :: u8"
abbreviation (input) "EX_ARRAY \<equiv> 7 :: u8"
abbreviation (input) "EX_OBJECT \<equiv> 8 :: u8"
abbreviation (input) "EX_MEMBER \<equiv> 9 :: u8"
abbreviation (input) "EX_CALL \<equiv> 10 :: u8"
abbreviation (input) "EX_BINARY \<equiv> 11 :: u8"
abbreviation (input) "EX_INDEX \<equiv> 12 :: u8"
abbreviation (input) "EX_OPTMEMBER \<equiv> 13 :: u8"
abbreviation (input) "EX_TERNARY \<equiv> 14 :: u8"
abbreviation (input) "EX_TEMPLATE \<equiv> 15 :: u8"
abbreviation (input) "EX_TRY \<equiv> 16 :: u8"
abbreviation (input) "EX_UNWRAP \<equiv> 17 :: u8"
abbreviation (input) "EX_AWAIT \<equiv> 18 :: u8"
abbreviation (input) "EX_ASSIGN \<equiv> 19 :: u8"
abbreviation (input) "EX_RANGE \<equiv> 20 :: u8"
abbreviation (input) "EX_REPARSE \<equiv> 21 :: u8"
abbreviation (input) "EX_MAP \<equiv> 22 :: u8"
abbreviation (input) "EX_INT \<equiv> 23 :: u8"

abbreviation (input) "TP_LIT \<equiv> 0 :: u8"
abbreviation (input) "TP_EXPR \<equiv> 1 :: u8"
abbreviation (input) "EL_ITEM \<equiv> 0 :: u8"
abbreviation (input) "EL_SPREAD \<equiv> 1 :: u8"
abbreviation (input) "EL_NAMED \<equiv> 2 :: u8"

text \<open>The elements of compound expressions, over what writes their sub-expressions.\<close>

primrec w_array_elem :: "wr array_elem \<Rightarrow> wr" where
  "w_array_elem (ElemItem e) = wr_seq [w_u8 EL_ITEM, e]"
| "w_array_elem (ElemSpread e) = wr_seq [w_u8 EL_SPREAD, e]"

primrec w_obj_entry :: "wr obj_entry \<Rightarrow> wr" where
  "w_obj_entry (EntryKV key v) = wr_seq [w_u8 EL_ITEM, w_str key, v]"
| "w_obj_entry (EntrySpread e) = wr_seq [w_u8 EL_SPREAD, e]"

primrec w_call_arg :: "wr call_arg \<Rightarrow> wr" where
  "w_call_arg (ArgPos e) = wr_seq [w_u8 EL_ITEM, e]"
| "w_call_arg (ArgSpread e) = wr_seq [w_u8 EL_SPREAD, e]"
| "w_call_arg (ArgNamed name e) = wr_seq [w_u8 EL_NAMED, w_str name, e]"

primrec w_template_part :: "wr template_part \<Rightarrow> wr" where
  "w_template_part (PartLit s) = wr_seq [w_u8 TP_LIT, w_str s]"
| "w_template_part (PartExpr e) = wr_seq [w_u8 TP_EXPR, e]"

definition w_map_entry :: "wr \<times> wr \<Rightarrow> wr" where
  "w_map_entry = (\<lambda>(key, v). wr_seq [key, v])"

primrec write_expr :: "expr \<Rightarrow> wr" and write_expr_kind :: "expr_kind \<Rightarrow> wr" where
  "write_expr (Expr kind span) = wr_seq [w_span span, write_expr_kind kind]"
| "write_expr_kind (EInt i) = wr_seq [w_u8 EX_INT, w_u64 i]"
| "write_expr_kind (EFloat n) = wr_seq [w_u8 EX_NUMBER, w_f64 n]"
| "write_expr_kind (EStr s) = wr_seq [w_u8 EX_STR, w_str s]"
| "write_expr_kind (EBool b) = wr_seq [w_u8 EX_BOOL, w_bool b]"
| "write_expr_kind ENil = wr_seq [w_u8 EX_NIL]"
| "write_expr_kind (EIdent name) = wr_seq [w_u8 EX_IDENT, w_str name]"
| "write_expr_kind (EParen inner) = wr_seq [w_u8 EX_PAREN, write_expr inner]"
| "write_expr_kind (EUnary op e) = wr_seq [w_u8 EX_UNARY, w_u8 (unop_tag op), write_expr e]"
| "write_expr_kind (EArray els) =
     wr_seq [w_u8 EX_ARRAY, w_list w_array_elem (map (map_array_elem write_expr) els)]"
| "write_expr_kind (EObject entries) =
     wr_seq [w_u8 EX_OBJECT, w_list w_obj_entry (map (map_obj_entry write_expr) entries)]"
| "write_expr_kind (EMap entries) =
     wr_seq [w_u8 EX_MAP, w_list w_map_entry (map (map_prod write_expr write_expr) entries)]"
| "write_expr_kind (EMember object name) = wr_seq [w_u8 EX_MEMBER, w_str name, write_expr object]"
| "write_expr_kind (EOptMember object name) = wr_seq [w_u8 EX_OPTMEMBER, w_str name, write_expr object]"
| "write_expr_kind (EIndex object index) = wr_seq [w_u8 EX_INDEX, write_expr object, write_expr index]"
| "write_expr_kind (ECall callee args _) =
     wr_seq [w_u8 EX_CALL, write_expr callee, w_list w_call_arg (map (map_call_arg write_expr) args)]"
| "write_expr_kind (EBinary op lhs rhs) =
     wr_seq [w_u8 EX_BINARY, w_u8 (binop_tag op), write_expr lhs, write_expr rhs]"
| "write_expr_kind (ETernary cond thn els) =
     wr_seq [w_u8 EX_TERNARY, write_expr cond, write_expr thn, write_expr els]"
| "write_expr_kind (ETemplate parts) =
     wr_seq [w_u8 EX_TEMPLATE, w_list w_template_part (map (map_template_part write_expr) parts)]"
| "write_expr_kind (ETry e) = wr_seq [w_u8 EX_TRY, write_expr e]"
| "write_expr_kind (EUnwrap e) = wr_seq [w_u8 EX_UNWRAP, write_expr e]"
| "write_expr_kind (EAwait e) = wr_seq [w_u8 EX_AWAIT, write_expr e]"
| "write_expr_kind (EAssign target v) = wr_seq [w_u8 EX_ASSIGN, write_expr target, write_expr v]"
| "write_expr_kind (EArrow _) = wr_fail (NonLiteralConst ''arrow-default'')"
| "write_expr_kind (EMatch _) = wr_fail (NonLiteralConst ''match-default'')"
| "write_expr_kind (EYield _) = wr_fail (NonLiteralConst ''yield-default'')"
| "write_expr_kind (ERange start end' inclusive step) =
     wr_seq [w_u8 EX_RANGE, w_bool inclusive, write_expr start, write_expr end',
       w_opt id (map_option write_expr step)]"

section \<open>Reading\<close>

definition read_array_elem :: "'e rd \<Rightarrow> 'e array_elem rd" where
  "read_array_elem rec = rd_bind rd_u8 (\<lambda>tag.
     if tag = EL_ITEM then rd_bind rec (\<lambda>e. rd_return (ElemItem e))
     else if tag = EL_SPREAD then rd_bind rec (\<lambda>e. rd_return (ElemSpread e))
     else rd_fail (BadTag ''array-elem'' tag))"

definition read_obj_entry :: "'e rd \<Rightarrow> 'e obj_entry rd" where
  "read_obj_entry rec = rd_bind rd_u8 (\<lambda>tag.
     if tag = EL_ITEM then rd_bind rd_str (\<lambda>key. rd_bind rec (\<lambda>e. rd_return (EntryKV key e)))
     else if tag = EL_SPREAD then rd_bind rec (\<lambda>e. rd_return (EntrySpread e))
     else rd_fail (BadTag ''object-entry'' tag))"

definition read_call_arg :: "'e rd \<Rightarrow> 'e call_arg rd" where
  "read_call_arg rec = rd_bind rd_u8 (\<lambda>tag.
     if tag = EL_ITEM then rd_bind rec (\<lambda>e. rd_return (ArgPos e))
     else if tag = EL_SPREAD then rd_bind rec (\<lambda>e. rd_return (ArgSpread e))
     else if tag = EL_NAMED then rd_bind rd_str (\<lambda>name. rd_bind rec (\<lambda>e. rd_return (ArgNamed name e)))
     else rd_fail (BadTag ''call-arg'' tag))"

definition read_template_part :: "'e rd \<Rightarrow> 'e template_part rd" where
  "read_template_part rec = rd_bind rd_u8 (\<lambda>tag.
     if tag = TP_LIT then rd_bind rd_str (\<lambda>s. rd_return (PartLit s))
     else if tag = TP_EXPR then rd_bind rec (\<lambda>e. rd_return (PartExpr e))
     else rd_fail (BadTag ''template-part'' tag))"

definition read_map_entry :: "'e rd \<Rightarrow> ('e \<times> 'e) rd" where
  "read_map_entry rec = rd_bind rec (\<lambda>key. rd_bind rec (\<lambda>v. rd_return (key, v)))"

definition read_step :: "'e rd \<Rightarrow> 'e option rd" where
  "read_step rec = rd_bind rd_u8 (\<lambda>tag.
     if tag = 1 then rd_bind rec (\<lambda>s. rd_return (Some s)) else rd_return None)"

definition read_kind_with :: "expr rd \<Rightarrow> u8 \<Rightarrow> expr_kind rd" where
  "read_kind_with rec tag =
     (if tag = EX_INT then rd_bind rd_u64 (\<lambda>i. rd_return (EInt i))
      else if tag = EX_NUMBER then rd_bind rd_f64 (\<lambda>n. rd_return (EFloat n))
      else if tag = EX_STR then rd_bind rd_str (\<lambda>s. rd_return (EStr s))
      else if tag = EX_BOOL then rd_bind rd_bool (\<lambda>b. rd_return (EBool b))
      else if tag = EX_NIL then rd_return ENil
      else if tag = EX_IDENT then rd_bind rd_str (\<lambda>s. rd_return (EIdent s))
      else if tag = EX_PAREN then rd_bind rec (\<lambda>e. rd_return (EParen e))
      else if tag = EX_UNARY then
        rd_bind rd_u8 (\<lambda>t. rd_bind (rd_lift (unop_from_tag t)) (\<lambda>op. rd_bind rec (\<lambda>e. rd_return (EUnary op e))))
      else if tag = EX_ARRAY then rd_bind (rd_list (read_array_elem rec)) (\<lambda>els. rd_return (EArray els))
      else if tag = EX_OBJECT then rd_bind (rd_list (read_obj_entry rec)) (\<lambda>es. rd_return (EObject es))
      else if tag = EX_MAP then rd_bind (rd_list (read_map_entry rec)) (\<lambda>es. rd_return (EMap es))
      else if tag = EX_MEMBER then rd_bind rd_str (\<lambda>name. rd_bind rec (\<lambda>e. rd_return (EMember e name)))
      else if tag = EX_OPTMEMBER then rd_bind rd_str (\<lambda>name. rd_bind rec (\<lambda>e. rd_return (EOptMember e name)))
      else if tag = EX_INDEX then rd_bind rec (\<lambda>ob. rd_bind rec (\<lambda>ix. rd_return (EIndex ob ix)))
      else if tag = EX_CALL then
        rd_bind rec (\<lambda>f. rd_bind (rd_list (read_call_arg rec)) (\<lambda>args. rd_return (ECall f args False)))
      else if tag = EX_BINARY then
        rd_bind rd_u8 (\<lambda>t. rd_bind (rd_lift (binop_from_tag t)) (\<lambda>op.
          rd_bind rec (\<lambda>lhs. rd_bind rec (\<lambda>rhs. rd_return (EBinary op lhs rhs)))))
      else if tag = EX_TERNARY then
        rd_bind rec (\<lambda>c. rd_bind rec (\<lambda>t. rd_bind rec (\<lambda>e. rd_return (ETernary c t e))))
      else if tag = EX_TEMPLATE then rd_bind (rd_list (read_template_part rec)) (\<lambda>ps. rd_return (ETemplate ps))
      else if tag = EX_TRY then rd_bind rec (\<lambda>e. rd_return (ETry e))
      else if tag = EX_UNWRAP then rd_bind rec (\<lambda>e. rd_return (EUnwrap e))
      else if tag = EX_AWAIT then rd_bind rec (\<lambda>e. rd_return (EAwait e))
      else if tag = EX_ASSIGN then rd_bind rec (\<lambda>t. rd_bind rec (\<lambda>v. rd_return (EAssign t v)))
      else if tag = EX_RANGE then
        rd_bind rd_bool (\<lambda>inclusive. rd_bind rec (\<lambda>start. rd_bind rec (\<lambda>end'. rd_bind (read_step rec) (\<lambda>step.
          rd_return (ERange start end' inclusive step)))))
      else if tag = EX_REPARSE then rd_fail (BadTag ''expr'' tag)
      else rd_fail (BadTag ''expr'' tag))"

primrec read_expr_f :: "nat \<Rightarrow> expr rd" where
  "read_expr_f 0 = rd_stuck"
| "read_expr_f (Suc k) = rd_bind rd_span (\<lambda>span.
     rd_bind rd_u8 (\<lambda>tag. rd_bind (read_kind_with (read_expr_f k) tag) (\<lambda>kind. rd_return (Expr kind span))))"

definition read_expr :: "expr rd" where
  "read_expr = with_fuel read_expr_f"

definition read_expr_kind :: "u8 \<Rightarrow> expr_kind rd" where
  "read_expr_kind tag = with_fuel (\<lambda>k. read_kind_with (read_expr_f k) tag)"

section \<open>The round trip\<close>

text \<open>What is read back.\<close>

primrec norm_expr :: "expr \<Rightarrow> expr" and norm_expr_kind :: "expr_kind \<Rightarrow> expr_kind" where
  "norm_expr (Expr kind span) = Expr (norm_expr_kind kind) span"
| "norm_expr_kind (EInt i) = EInt i"
| "norm_expr_kind (EFloat n) = EFloat n"
| "norm_expr_kind (EStr s) = EStr s"
| "norm_expr_kind (EBool b) = EBool b"
| "norm_expr_kind ENil = ENil"
| "norm_expr_kind (EIdent name) = EIdent name"
| "norm_expr_kind (EParen e) = EParen (norm_expr e)"
| "norm_expr_kind (EUnary op e) = EUnary op (norm_expr e)"
| "norm_expr_kind (EArray els) = EArray (map (map_array_elem norm_expr) els)"
| "norm_expr_kind (EObject entries) = EObject (map (map_obj_entry norm_expr) entries)"
| "norm_expr_kind (EMap entries) = EMap (map (map_prod norm_expr norm_expr) entries)"
| "norm_expr_kind (EMember ob name) = EMember (norm_expr ob) name"
| "norm_expr_kind (EOptMember ob name) = EOptMember (norm_expr ob) name"
| "norm_expr_kind (EIndex ob ix) = EIndex (norm_expr ob) (norm_expr ix)"
| "norm_expr_kind (ECall f args _) = ECall (norm_expr f) (map (map_call_arg norm_expr) args) False"
| "norm_expr_kind (EBinary op l r) = EBinary op (norm_expr l) (norm_expr r)"
| "norm_expr_kind (ETernary c t e) = ETernary (norm_expr c) (norm_expr t) (norm_expr e)"
| "norm_expr_kind (ETemplate parts) = ETemplate (map (map_template_part norm_expr) parts)"
| "norm_expr_kind (ETry e) = ETry (norm_expr e)"
| "norm_expr_kind (EUnwrap e) = EUnwrap (norm_expr e)"
| "norm_expr_kind (EAwait e) = EAwait (norm_expr e)"
| "norm_expr_kind (EAssign t v) = EAssign (norm_expr t) (norm_expr v)"
| "norm_expr_kind (EArrow n) = EArrow n"
| "norm_expr_kind (EMatch n) = EMatch n"
| "norm_expr_kind (EYield n) = EYield n"
| "norm_expr_kind (ERange s e inclusive step) =
     ERange (norm_expr s) (norm_expr e) inclusive (map_option norm_expr step)"

text \<open>The strings of an expression are strings of the language.\<close>

primrec valid_obj_entry :: "bool obj_entry \<Rightarrow> bool" where
  "valid_obj_entry (EntryKV key e) \<longleftrightarrow> utf8_valid key \<and> e"
| "valid_obj_entry (EntrySpread e) \<longleftrightarrow> e"

primrec valid_call_arg :: "bool call_arg \<Rightarrow> bool" where
  "valid_call_arg (ArgPos e) \<longleftrightarrow> e"
| "valid_call_arg (ArgSpread e) \<longleftrightarrow> e"
| "valid_call_arg (ArgNamed name e) \<longleftrightarrow> utf8_valid name \<and> e"

primrec valid_template_part :: "bool template_part \<Rightarrow> bool" where
  "valid_template_part (PartLit s) \<longleftrightarrow> utf8_valid s"
| "valid_template_part (PartExpr e) \<longleftrightarrow> e"

primrec valid_array_elem :: "bool array_elem \<Rightarrow> bool" where
  "valid_array_elem (ElemItem e) \<longleftrightarrow> e"
| "valid_array_elem (ElemSpread e) \<longleftrightarrow> e"

primrec valid_expr :: "expr \<Rightarrow> bool" and valid_expr_kind :: "expr_kind \<Rightarrow> bool" where
  "valid_expr (Expr kind span) = valid_expr_kind kind"
| "valid_expr_kind (EInt i) = True"
| "valid_expr_kind (EFloat n) = True"
| "valid_expr_kind (EStr s) = utf8_valid s"
| "valid_expr_kind (EBool b) = True"
| "valid_expr_kind ENil = True"
| "valid_expr_kind (EIdent name) = utf8_valid name"
| "valid_expr_kind (EParen e) = valid_expr e"
| "valid_expr_kind (EUnary op e) = valid_expr e"
| "valid_expr_kind (EArray els) = list_all valid_array_elem (map (map_array_elem valid_expr) els)"
| "valid_expr_kind (EObject entries) = list_all valid_obj_entry (map (map_obj_entry valid_expr) entries)"
| "valid_expr_kind (EMap entries) = list_all (\<lambda>(k, v). k \<and> v) (map (map_prod valid_expr valid_expr) entries)"
| "valid_expr_kind (EMember ob name) = (utf8_valid name \<and> valid_expr ob)"
| "valid_expr_kind (EOptMember ob name) = (utf8_valid name \<and> valid_expr ob)"
| "valid_expr_kind (EIndex ob ix) = (valid_expr ob \<and> valid_expr ix)"
| "valid_expr_kind (ECall f args _) = (valid_expr f \<and> list_all valid_call_arg (map (map_call_arg valid_expr) args))"
| "valid_expr_kind (EBinary op l r) = (valid_expr l \<and> valid_expr r)"
| "valid_expr_kind (ETernary c t e) = (valid_expr c \<and> valid_expr t \<and> valid_expr e)"
| "valid_expr_kind (ETemplate parts) = list_all valid_template_part (map (map_template_part valid_expr) parts)"
| "valid_expr_kind (ETry e) = valid_expr e"
| "valid_expr_kind (EUnwrap e) = valid_expr e"
| "valid_expr_kind (EAwait e) = valid_expr e"
| "valid_expr_kind (EAssign t v) = (valid_expr t \<and> valid_expr v)"
| "valid_expr_kind (EArrow n) = True"
| "valid_expr_kind (EMatch n) = True"
| "valid_expr_kind (EYield n) = True"
| "valid_expr_kind (ERange s e inclusive step) =
     (valid_expr s \<and> valid_expr e \<and> pred_option id (map_option valid_expr step))"

text \<open>
  The elements of compound expressions.
\<close>

lemma codes_array_elem:
  assumes "valid_array_elem (map_array_elem v el)" and "\<And>e. e \<in> set_array_elem el \<Longrightarrow> v e \<Longrightarrow> codes (f e) R (g e)"
  shows "codes (w_array_elem (map_array_elem f el)) (\<lambda>k. read_array_elem (R k)) (map_array_elem g el)"
  using assms unfolding read_array_elem_def
  by (cases el) (auto intro!: codes_u8_step codes_if codes_done rec_step)

lemma codes_obj_entry:
  assumes "valid_obj_entry (map_obj_entry v el)" and "\<And>e. e \<in> set_obj_entry el \<Longrightarrow> v e \<Longrightarrow> codes (f e) R (g e)"
  shows "codes (w_obj_entry (map_obj_entry f el)) (\<lambda>k. read_obj_entry (R k)) (map_obj_entry g el)"
  using assms unfolding read_obj_entry_def
  by (cases el) (auto intro!: codes_u8_step codes_if codes_done str.step rec_step [where R = R])

lemma codes_call_arg:
  assumes "valid_call_arg (map_call_arg v el)" and "\<And>e. e \<in> set_call_arg el \<Longrightarrow> v e \<Longrightarrow> codes (f e) R (g e)"
  shows "codes (w_call_arg (map_call_arg f el)) (\<lambda>k. read_call_arg (R k)) (map_call_arg g el)"
  using assms unfolding read_call_arg_def
  by (cases el) (auto intro!: codes_u8_step codes_if codes_done str.step rec_step [where R = R])

lemma codes_template_part:
  assumes "valid_template_part (map_template_part v el)"
    and "\<And>e. e \<in> set_template_part el \<Longrightarrow> v e \<Longrightarrow> codes (f e) R (g e)"
  shows "codes (w_template_part (map_template_part f el)) (\<lambda>k. read_template_part (R k)) (map_template_part g el)"
  using assms unfolding read_template_part_def
  by (cases el) (auto intro!: codes_u8_step codes_if codes_done str.step rec_step [where R = R])

lemma codes_map_entry:
  assumes "codes (f a) R (g a)" "codes (f b) R (g b)"
  shows "codes (w_map_entry (map_prod f f (a, b))) (\<lambda>k. read_map_entry (R k)) (map_prod g g (a, b))"
  using assms unfolding read_map_entry_def w_map_entry_def
  by (auto intro!: codes_done rec_step)

lemma codes_step:
  assumes "\<And>e. s = Some e \<Longrightarrow> codes (f e) R (g e)"
  shows "codes (w_opt id (map_option f s)) (\<lambda>k. read_step (R k)) (map_option g s)"
proof (cases s)
  case None
  have "codes (wr_seq [w_u8 0]) (\<lambda>k. read_step (R k)) None"
    unfolding read_step_def by (auto intro!: codes_u8_step codes_if codes_done)
  with None show ?thesis by (simp add: w_opt_def wr_seq_one)
next
  case (Some e)
  with assms show ?thesis
    unfolding read_step_def by (auto simp: w_opt_def intro!: codes_u8_step codes_if codes_done rec_step)
qed

definition read_kind_f :: "nat \<Rightarrow> expr_kind rd" where
  "read_kind_f k = rd_bind rd_u8 (read_kind_with (read_expr_f k))"

text \<open>
  What one kind writes: nothing that is accepted, or its tag followed by what the decoder for that
  tag reads; the tag is never the one reserved for re-parsed defaults.
\<close>

definition kind_codes :: "expr_kind \<Rightarrow> bool" where
  "kind_codes kd \<longleftrightarrow> (\<exists>e. write_expr_kind kd = wr_fail e) \<or>
     (\<exists>tag fs. write_expr_kind kd = wr_seq (w_u8 tag # fs) \<and> tag \<noteq> EX_REPARSE
        \<and> codes (wr_seq fs) (\<lambda>k. read_kind_with (read_expr_f k) tag) (norm_expr_kind kd))"

lemma kind_codesI:
  "write_expr_kind kd = wr_seq (w_u8 tag # fs) \<Longrightarrow> tag \<noteq> EX_REPARSE \<Longrightarrow>
    codes (wr_seq fs) (\<lambda>k. read_kind_with (read_expr_f k) tag) (norm_expr_kind kd) \<Longrightarrow> kind_codes kd"
  unfolding kind_codes_def by blast

lemma kind_codes_fail: "write_expr_kind kd = wr_fail e \<Longrightarrow> kind_codes kd"
  unfolding kind_codes_def by blast

lemma codes_kind:
  assumes "kind_codes kd"
  shows "codes (write_expr_kind kd) read_kind_f (norm_expr_kind kd)"
  using assms codes_u8_step [where F = "\<lambda>k. read_kind_with (read_expr_f k)"]
  by (auto simp: kind_codes_def read_kind_f_def [abs_def] codes_fail)

lemma read_expr_step:
  assumes "codes (write_expr_kind kind) read_kind_f kind'"
  shows "codes (write_expr (Expr kind span)) read_expr_f (Expr kind' span)"
proof -
  have "codes (wr_seq [write_expr_kind kind]) (\<lambda>k. rd_bind rd_u8 (\<lambda>tag.
      rd_bind (read_kind_with (read_expr_f k) tag) (\<lambda>kind. rd_return (Expr kind span)))) (Expr kind' span)"
    using codes_seq1 [OF codes_map [OF assms, of "\<lambda>kind. Expr kind span"]]
    by (simp add: read_kind_f_def rd_bind_assoc)
  then show ?thesis
    unfolding write_expr.simps
    by (rule codes_fuel [where M = rd_span and x = span and F = "\<lambda>k span. rd_bind rd_u8 (\<lambda>tag.
      rd_bind (read_kind_with (read_expr_f k) tag) (\<lambda>kind. rd_return (Expr kind span)))", rotated 2])
      (simp_all add: codes1_span)
qed

lemmas read_kind_steps = write_expr_kind.simps(1-22,26) [THEN kind_codesI]
  write_expr_kind.simps(23-25) [THEN kind_codes_fail] codes_done codes_u64_step codes_f64_step codes_bool_step
  codes_u8_step str.step rec_step [where R = read_expr_f]
  rec_step [where R = "\<lambda>k. read_step (read_expr_f k)", OF codes_step]
  codes_list_step [where R = "\<lambda>k. read_array_elem (read_expr_f k)" and g = "map_array_elem norm_expr"]
  codes_list_step [where R = "\<lambda>k. read_obj_entry (read_expr_f k)" and g = "map_obj_entry norm_expr"]
  codes_list_step [where R = "\<lambda>k. read_call_arg (read_expr_f k)" and g = "map_call_arg norm_expr"]
  codes_list_step [where R = "\<lambda>k. read_template_part (read_expr_f k)" and g = "map_template_part norm_expr"]
  codes_array_elem [where v = valid_expr] codes_obj_entry [where v = valid_expr]
  codes_call_arg [where v = valid_expr] codes_template_part [where v = valid_expr]

lemma codes_write_expr:
  shows "valid_expr e \<Longrightarrow> codes (write_expr e) read_expr_f (norm_expr e)"
    and "valid_expr_kind kd \<Longrightarrow> kind_codes kd"
proof (induction e and kd)
  case (Expr kind span)
  then show ?case using read_expr_step [OF codes_kind, of kind span] by simp
next
  case (EMap entries)
  have "codes (w_map_entry (map_prod write_expr write_expr p)) (\<lambda>k. read_map_entry (read_expr_f k))
      (map_prod norm_expr norm_expr p)" if "p \<in> set entries" for p
  proof -
    obtain a b where p: "p = (a, b)" by (cases p)
    show ?thesis
      unfolding p
      by (rule codes_map_entry) (use EMap that p in \<open>force simp: list_all_iff\<close>)+
  qed
  then have "codes (wr_seq [w_list (\<lambda>p. w_map_entry (map_prod write_expr write_expr p)) entries])
      (\<lambda>k. rd_bind (rd_list (read_map_entry (read_expr_f k))) (\<lambda>es. rd_return (EMap es)))
      (EMap (map (map_prod norm_expr norm_expr) entries))"
    by (rule codes_list_step) (auto intro: codes_done)
  then show ?case by (auto simp: read_kind_with_def w_list_map intro!: read_kind_steps)
qed (auto simp: read_kind_with_def w_list_map list_all_iff intro!: read_kind_steps)

lemma safe_elems [safe_intros]:
  assumes "safe_rd k rec"
  shows "safe_rd k (read_array_elem rec)" "safe_rd k (read_obj_entry rec)" "safe_rd k (read_call_arg rec)"
    "safe_rd k (read_template_part rec)" "safe_rd k (read_map_entry rec)" "safe_rd k (read_step rec)"
  using assms
  by (auto simp: read_array_elem_def read_obj_entry_def read_call_arg_def read_template_part_def
      read_map_entry_def read_step_def intro!: safe_intros)

lemma safe_kind_with [safe_intros]: "safe_rd k rec \<Longrightarrow> safe_rd k (read_kind_with rec tag)"
  unfolding read_kind_with_def by (auto intro!: safe_intros)

lemma safe_read_expr_f: "safe_rd k (read_expr_f k)"
proof (induction k)
  case (Suc k)
  have "safe_rd k (rd_bind rd_u8 (\<lambda>tag. rd_bind (read_kind_with (read_expr_f k) tag)
      (\<lambda>kind. rd_return (Expr kind span))))" for span
    by (intro safe_intros Suc)
  then show ?case by (simp add: safe_fuel eats_span spn.total)
qed (simp add: safe_zero)

lemma safe_read_expr_kind [safe_intros]: "safe_rd k (read_expr_kind tag)"
  unfolding read_expr_kind_def by (rule safe_with_fuel) (intro safe_intros safe_read_expr_f)

interpretation exc: codec valid_expr write_expr "\<lambda>k. read_expr" norm_expr
proof
  show "codes (write_expr e) (\<lambda>k. read_expr) (norm_expr e)" if "valid_expr e" for e
    unfolding read_expr_def by (rule codes_with_fuel [OF codes_write_expr(1) [OF that]])
  show "safe_rd k read_expr" for k
    unfolding read_expr_def by (rule safe_with_fuel [OF safe_read_expr_f])
qed

end
