(* ===== verification/IndexMap.thy ===== *)
theory IndexMap
  imports Prelude
begin

text \<open>
  The insertion-ordered maps the program uses for objects, enums, classes and globals
  (\<open>IndexMap\<close>): an association list with distinct keys, in insertion order.  The operations are
  the ones the sources call: \<open>get\<close> is \<open>map_of\<close>, \<open>insert\<close> keeps the place of a present key,
  \<open>shift_remove\<close> keeps the order of the others, \<open>get_index_of\<close> and \<open>get_index\<close> give and use
  positions.
\<close>

fun im_insert :: "'k \<Rightarrow> 'v \<Rightarrow> ('k \<times> 'v) list \<Rightarrow> ('k \<times> 'v) list" where
  "im_insert k v [] = [(k, v)]"
| "im_insert k v ((k', v') # m) = (if k' = k then (k, v) # m else (k', v') # im_insert k v m)"

definition index_map_of :: "('k \<times> 'v) list \<Rightarrow> ('k \<times> 'v) list" where
  "index_map_of kvs = fold (\<lambda>(k, v). im_insert k v) kvs []"

definition im_shift_remove :: "'k \<Rightarrow> ('k \<times> 'v) list \<Rightarrow> ('k \<times> 'v) list" where
  "im_shift_remove k m = filter (\<lambda>e. fst e \<noteq> k) m"

definition im_index_of :: "'k \<Rightarrow> ('k \<times> 'v) list \<Rightarrow> nat option" where
  "im_index_of k m = find_index (\<lambda>e. fst e = k) m"

definition im_keys :: "('k \<times> 'v) list \<Rightarrow> 'k list" where
  "im_keys m = map fst m"

lemma im_insert_new: "k \<notin> fst ` set m \<Longrightarrow> im_insert k v m = m @ [(k, v)]"
  by (induction k v m rule: im_insert.induct) auto

lemma index_map_of_distinct: "distinct (map fst kvs) \<Longrightarrow> index_map_of kvs = kvs"
proof -
  have "distinct (map fst (m @ kvs)) \<Longrightarrow> fold (\<lambda>(k, v). im_insert k v) kvs m = m @ kvs" for m
  proof (induction kvs arbitrary: m)
    case (Cons e kvs)
    obtain k v where e: "e = (k, v)" by (cases e)
    have "k \<notin> fst ` set m" using Cons.prems e by auto
    then have "im_insert k v m = m @ [(k, v)]" by (rule im_insert_new)
    with Cons.IH [of "m @ [(k, v)]"] Cons.prems e show ?case by simp
  qed simp
  from this [of "[]"] show "distinct (map fst kvs) \<Longrightarrow> index_map_of kvs = kvs"
    by (simp add: index_map_of_def)
qed

lemma map_of_im_insert [simp]: "map_of (im_insert k v m) = (map_of m)(k \<mapsto> v)"
  by (induction k v m rule: im_insert.induct) (auto simp: fun_eq_iff)

lemma im_keys_insert:
  "map fst (im_insert k v m) = (if k \<in> fst ` set m then map fst m else map fst m @ [k])"
  by (induction k v m rule: im_insert.induct) auto

lemma distinct_im_insert [simp]: "distinct (map fst m) \<Longrightarrow> distinct (map fst (im_insert k v m))"
  by (simp add: im_keys_insert image_iff)

lemma distinct_shift_remove [simp]: "distinct (map fst m) \<Longrightarrow> distinct (map fst (im_shift_remove k m))"
  unfolding im_shift_remove_def by (induction m) auto

lemma map_of_shift_remove [simp]: "map_of (im_shift_remove k m) = (map_of m)(k := None)"
  unfolding im_shift_remove_def by (induction m) auto

lemma im_index_of_None: "im_index_of k m = None \<longleftrightarrow> k \<notin> fst ` set m"
  by (auto simp: im_index_of_def find_index_None)

lemma im_index_of_Some:
  "im_index_of k m = Some i \<Longrightarrow> i < length m \<and> fst (m ! i) = k \<and> map_of m k = Some (snd (m ! i))"
  unfolding im_index_of_def
  by (induction m arbitrary: i) (auto split: if_splits)

lemma im_insert_at: "im_index_of k m = Some i \<Longrightarrow> m[i := (k, v)] = im_insert k v m"
  unfolding im_index_of_def
  by (induction m arbitrary: i) (auto split: if_splits)

lemma im_index_of_zip:
  "length ks = length vs \<Longrightarrow> im_index_of k (zip ks vs) = find_index (\<lambda>k'. k' = k) ks"
  unfolding im_index_of_def by (induction ks vs rule: list_induct2) auto

lemma find_index_map: "find_index P (map f xs) = find_index (\<lambda>x. P (f x)) xs"
  by (induction xs) auto

lemma find_index_prefix: "find_index P xs = Some i \<Longrightarrow> find_index P (xs @ ys) = Some i"
  by (induction xs arbitrary: i) (auto split: if_splits)

end
