(* ===== verification/AsoValue.thy ===== *)
theory AsoValue
  imports AsoType IndexMap
begin

text \<open>
  Constant-pool values in the \<open>.aso\<close> format (\<open>literal_kind\<close>, \<open>check_consts_literal_only\<close>,
  \<open>write_value\<close>, \<open>read_value\<close> in \<open>src/src/vm/aso.rs\<close>).  Enums are written with their variants
  and payload schemas; the payload and the definition link of a variant are not kept.

  A decimal is held as its 16-byte serialized form.  Reading one back is
  \<open>Decimal::deserialize\<close> of the crate \<open>rust_decimal\<close>, the parameter \<open>deser\<close>.
\<close>

section \<open>Literal kinds\<close>

primrec other_kind_name :: "other_kind \<Rightarrow> string" where
  "other_kind_name KBuiltin = ''builtin''"
| "other_kind_name KFunction = ''function''"
| "other_kind_name KClosure = ''closure''"
| "other_kind_name KObject = ''object''"
| "other_kind_name KMap = ''map''"
| "other_kind_name KSet = ''non-literal''"
| "other_kind_name KBytes = ''bytes''"
| "other_kind_name KRegex = ''non-literal''"
| "other_kind_name KNative = ''non-literal''"
| "other_kind_name KNativeMethod = ''non-literal''"
| "other_kind_name KClass = ''class''"
| "other_kind_name KInterface = ''non-literal''"
| "other_kind_name KInstance = ''instance''"
| "other_kind_name KBoundMethod = ''non-literal''"
| "other_kind_name KSuper = ''non-literal''"
| "other_kind_name KFuture = ''non-literal''"
| "other_kind_name KGenerator = ''non-literal''"
| "other_kind_name KGeneratorMethod = ''non-literal''"
| "other_kind_name KClassMethod = ''non-literal''"
| "other_kind_name KShared = ''non-literal''"

fun literal_kind :: "val \<Rightarrow> (string, string) result" where
  "literal_kind VNil = Ok ''nil''"
| "literal_kind (VBool _) = Ok ''bool''"
| "literal_kind (VInt _) = Ok ''int''"
| "literal_kind (VFloat _) = Ok ''number''"
| "literal_kind (VStr _) = Ok ''string''"
| "literal_kind (VDecimal _) = Ok ''decimal''"
| "literal_kind (VEnum _) = Ok ''enum''"
| "literal_kind (VArray es) =
     res_bind (res_all (\<lambda>m. res_bind m (\<lambda>_. Ok ())) (map literal_kind es)) (\<lambda>_. Ok ''array'')"
| "literal_kind (VEnumVariant _) = Err ''enum-variant''"
| "literal_kind (VOther k) = Err (other_kind_name k)"

definition check_consts_literal_only :: "val list \<Rightarrow> (unit, string) result" where
  "check_consts_literal_only consts = res_all (\<lambda>v. res_bind (literal_kind v) (\<lambda>_. Ok ())) consts"

definition literal_err :: "val \<Rightarrow> string \<Rightarrow> string" where
  "literal_err v d = (case literal_kind v of Err kind \<Rightarrow> kind | _ \<Rightarrow> d)"

section \<open>Writing\<close>

abbreviation (input) "TAG_NIL \<equiv> 0 :: u8"
abbreviation (input) "TAG_BOOL \<equiv> 1 :: u8"
abbreviation (input) "TAG_NUMBER \<equiv> 2 :: u8"
abbreviation (input) "TAG_STR \<equiv> 3 :: u8"
abbreviation (input) "TAG_DECIMAL \<equiv> 4 :: u8"
abbreviation (input) "TAG_ENUM \<equiv> 5 :: u8"
abbreviation (input) "TAG_ARRAY \<equiv> 6 :: u8"
abbreviation (input) "TAG_INT \<equiv> 7 :: u8"

definition write_schema_field :: "rstring option \<times> ty \<Rightarrow> wr" where
  "write_schema_field = (\<lambda>(name, ty). wr_seq [w_opt w_str name, write_type ty])"

definition write_schema :: "rstring \<times> variant_schema \<Rightarrow> wr" where
  "write_schema = (\<lambda>(vname, schema). wr_seq [w_str vname, w_list write_schema_field (vs_fields schema)])"

lemma w_list_cong [fundef_cong]:
  "xs = ys \<Longrightarrow> (\<And>x. x \<in> set ys \<Longrightarrow> f x = g x) \<Longrightarrow> w_list f xs = w_list g ys"
  by (simp add: w_list_def cong: map_cong)

lemma size_variant: "p \<in> set vs \<Longrightarrow> size (snd p) < size (EnumDef name vs schemas)"
  by (induction vs) (auto simp: prod.size_gen_o_map split: prod.splits)

lemma size_elem: "(v :: val) \<in> set es \<Longrightarrow> size v < Suc (size_list size es)"
  by (induction es) auto

function write_value :: "val \<Rightarrow> wr" and write_variant :: "rstring \<times> val \<Rightarrow> wr" where
  "write_value VNil = wr_seq [w_u8 TAG_NIL]"
| "write_value (VBool b) = wr_seq [w_u8 TAG_BOOL, w_bool b]"
| "write_value (VInt i) = wr_seq [w_u8 TAG_INT, w_u64 i]"
| "write_value (VFloat n) = wr_seq [w_u8 TAG_NUMBER, w_f64 n]"
| "write_value (VStr s) = wr_seq [w_u8 TAG_STR, w_str s]"
| "write_value (VDecimal d) = wr_seq [w_u8 TAG_DECIMAL, w_raw d]"
| "write_value (VEnum (EnumDef name vs schemas)) =
     wr_seq [w_u8 TAG_ENUM, w_str name, w_list write_variant vs, w_list write_schema schemas]"
| "write_value (VArray es) = wr_seq [w_u8 TAG_ARRAY, w_list write_value es]"
| "write_value (VEnumVariant ev) = wr_fail (NonLiteralConst (literal_err (VEnumVariant ev) ''non-literal''))"
| "write_value (VOther k) = wr_fail (NonLiteralConst (literal_err (VOther k) ''non-literal''))"
| "write_variant (key, variant) = wr_seq [w_str key,
     (case variant of
        VEnumVariant (EnumVariant enum_name name v _ ctor _) \<Rightarrow>
          wr_seq [w_str enum_name, w_str name, write_value v, w_bool ctor]
      | _ \<Rightarrow> wr_fail (NonLiteralConst (literal_err variant ''enum-variant-payload'')))]"
  by pat_completeness auto
termination
  by (relation "measure (\<lambda>x. case x of Inl v \<Rightarrow> 2 * size v | Inr p \<Rightarrow> 2 * size (snd p) + 1)")
    (auto dest: size_variant size_elem)

section \<open>Reading\<close>

definition read_schema_field :: "(rstring option \<times> ty) rd" where
  "read_schema_field =
     rd_bind rd_bool (\<lambda>named. rd_bind (if named then rd_bind rd_str (\<lambda>n. rd_return (Some n)) else rd_return None)
       (\<lambda>name. rd_bind read_type (\<lambda>ty. rd_return (name, ty))))"

definition read_schema :: "(rstring \<times> variant_schema) rd" where
  "read_schema = rd_bind rd_str (\<lambda>vname. rd_bind (rd_list read_schema_field) (\<lambda>fields.
     rd_return (vname, VariantSchema fields)))"

definition read_variant :: "val rd \<Rightarrow> (rstring \<times> val) rd" where
  "read_variant rec =
     rd_bind rd_str (\<lambda>key. rd_bind rd_str (\<lambda>enum_name. rd_bind rd_str (\<lambda>vname. rd_bind rec (\<lambda>backing.
     rd_bind rd_bool (\<lambda>ctor.
       rd_return (key, VEnumVariant (EnumVariant enum_name vname backing None ctor None)))))))"

definition read_value_tag :: "(bytes \<Rightarrow> decimal) \<Rightarrow> val rd \<Rightarrow> u8 \<Rightarrow> val rd" where
  "read_value_tag deser rec tag =
     (if tag = TAG_NIL then rd_return VNil
      else if tag = TAG_BOOL then rd_bind rd_bool (\<lambda>b. rd_return (VBool b))
      else if tag = TAG_INT then rd_bind rd_u64 (\<lambda>i. rd_return (VInt i))
      else if tag = TAG_NUMBER then rd_bind rd_f64 (\<lambda>n. rd_return (VFloat n))
      else if tag = TAG_STR then rd_bind rd_str (\<lambda>s. rd_return (VStr s))
      else if tag = TAG_DECIMAL then rd_bind (rd_take 16) (\<lambda>b. rd_return (VDecimal (deser b)))
      else if tag = TAG_ENUM then
        rd_bind rd_str (\<lambda>name.
        rd_bind (rd_list (read_variant rec)) (\<lambda>variants.
        rd_bind (rd_list read_schema) (\<lambda>schemas.
          rd_return (VEnum (EnumDef name (index_map_of variants) (index_map_of schemas))))))
      else if tag = TAG_ARRAY then rd_bind (rd_list rec) (\<lambda>es. rd_return (VArray es))
      else rd_fail (BadConst tag))"

primrec read_value_f :: "(bytes \<Rightarrow> decimal) \<Rightarrow> nat \<Rightarrow> val rd" where
  "read_value_f deser 0 = rd_stuck"
| "read_value_f deser (Suc k) = rd_bind rd_u8 (read_value_tag deser (read_value_f deser k))"

definition read_value :: "(bytes \<Rightarrow> decimal) \<Rightarrow> val rd" where
  "read_value deser = with_fuel (read_value_f deser)"

section \<open>The round trip\<close>

definition norm_schema :: "variant_schema \<Rightarrow> variant_schema" where
  "norm_schema s = VariantSchema (map (apsnd norm_ty) (vs_fields s))"

text \<open>What is read back.\<close>

primrec norm_val :: "val \<Rightarrow> val" and norm_enum :: "enum_def \<Rightarrow> enum_def"
  and norm_variant :: "enum_variant \<Rightarrow> enum_variant" and norm_payload :: "payload \<Rightarrow> payload" where
  "norm_val VNil = VNil"
| "norm_val (VBool b) = VBool b"
| "norm_val (VInt i) = VInt i"
| "norm_val (VFloat n) = VFloat n"
| "norm_val (VDecimal d) = VDecimal d"
| "norm_val (VStr s) = VStr s"
| "norm_val (VArray es) = VArray (map norm_val es)"
| "norm_val (VEnum e) = VEnum (norm_enum e)"
| "norm_val (VEnumVariant ev) = VEnumVariant (norm_variant ev)"
| "norm_val (VOther k) = VOther k"
| "norm_enum (EnumDef name vs ss) = EnumDef name (map (map_prod id norm_val) vs) (map (apsnd norm_schema) ss)"
| "norm_variant (EnumVariant enum_name name v _ ctor _) = EnumVariant enum_name name (norm_val v) None ctor None"
| "norm_payload (Positional vs) = Positional vs"
| "norm_payload (Named kvs) = Named kvs"

definition valid_schema :: "rstring \<times> variant_schema \<Rightarrow> bool" where
  "valid_schema = (\<lambda>(vname, s). utf8_valid vname
     \<and> list_all (\<lambda>(name, ty). pred_option utf8_valid name \<and> valid_ty ty) (vs_fields s))"

text \<open>
  Strings are strings of the language, the maps of an enum have distinct keys, and a decimal
  survives the crate's own round trip.
\<close>

primrec valid_val :: "(bytes \<Rightarrow> decimal) \<Rightarrow> val \<Rightarrow> bool" and valid_enum :: "(bytes \<Rightarrow> decimal) \<Rightarrow> enum_def \<Rightarrow> bool"
  and valid_variant :: "(bytes \<Rightarrow> decimal) \<Rightarrow> enum_variant \<Rightarrow> bool"
  and valid_payload :: "(bytes \<Rightarrow> decimal) \<Rightarrow> payload \<Rightarrow> bool" where
  "valid_val deser VNil = True"
| "valid_val deser (VBool b) = True"
| "valid_val deser (VInt i) = True"
| "valid_val deser (VFloat n) = True"
| "valid_val deser (VDecimal d) = (length d = 16 \<and> deser d = d)"
| "valid_val deser (VStr s) = utf8_valid s"
| "valid_val deser (VArray es) = list_all id (map (valid_val deser) es)"
| "valid_val deser (VEnum e) = valid_enum deser e"
| "valid_val deser (VEnumVariant ev) = valid_variant deser ev"
| "valid_val deser (VOther k) = True"
| "valid_enum deser (EnumDef name vs ss) \<longleftrightarrow> utf8_valid name \<and> distinct (map fst vs)
     \<and> list_all (\<lambda>(key, v). utf8_valid key \<and> v) (map (map_prod id (valid_val deser)) vs)
     \<and> distinct (map fst ss) \<and> list_all valid_schema ss"
| "valid_variant deser (EnumVariant enum_name name v _ ctor _) \<longleftrightarrow>
     utf8_valid enum_name \<and> utf8_valid name \<and> valid_val deser v"
| "valid_payload deser (Positional vs) = True"
| "valid_payload deser (Named kvs) = True"

interpretation sfd: codec "\<lambda>(name, ty). pred_option utf8_valid name \<and> valid_ty ty" write_schema_field
  "\<lambda>k. read_schema_field" "apsnd norm_ty"
proof
  fix f :: "rstring option \<times> ty"
  assume valid: "case f of (name, ty) \<Rightarrow> pred_option utf8_valid name \<and> valid_ty ty"
  obtain name ty where f: "f = (name, ty)" by (cases f)
  have w_opt: "wr_seq [w_opt w_str name, write_type ty] = (case name of
      Some n \<Rightarrow> wr_seq [w_bool True, w_str n, write_type ty] | None \<Rightarrow> wr_seq [w_bool False, write_type ty])"
    by (auto simp: w_opt_def w_bool_def wr_seq_nest wr_seq_one split: option.split)
  show "codes (write_schema_field f) (\<lambda>k. read_schema_field) (apsnd norm_ty f)"
    using valid unfolding write_schema_field_def read_schema_field_def f
    by (auto simp: w_opt rd_bind_assoc split: option.split intro!: codes_steps tyc.step)
next
  show "safe_rd k read_schema_field" for k unfolding read_schema_field_def by (auto intro!: safe_intros)
qed

interpretation sch: codec valid_schema write_schema "\<lambda>k. read_schema" "apsnd norm_schema"
proof
  show "codes (write_schema s) (\<lambda>k. read_schema) (apsnd norm_schema s)" if "valid_schema s" for s
    using that unfolding write_schema_def read_schema_def valid_schema_def
    by (cases s) (auto simp: norm_schema_def intro!: codes_steps sfd.list_step)
  show "safe_rd k read_schema" for k unfolding read_schema_def by (intro safe_intros sfd.total)
qed

lemma wr_seq_flat: "wr_seq [f, wr_seq gs] = wr_seq (f # gs)"
proof
  have "res_bind (wr_seq gs w) (wr_seq []) = wr_seq gs w" for w
    by (cases "wr_seq gs w") (simp_all add: wr_seq.simps)
  then show "wr_seq [f, wr_seq gs] w = wr_seq (f # gs) w" for w
    by (cases "f w") (simp_all add: wr_seq.simps)
qed

lemma read_value_step:
  "codes (wr_seq fs) (\<lambda>k. read_value_tag deser (read_value_f deser k) tag) y \<Longrightarrow>
    codes (wr_seq (w_u8 tag # fs)) (read_value_f deser) y"
  by (rule codes_fuel [where M = rd_u8 and F = "\<lambda>k. read_value_tag deser (read_value_f deser k)"])
    (simp_all add: codes1_u8)

lemma fst_norm_entries: "map fst (map (map_prod id f) xs) = map fst xs" "map fst (map (apsnd g) ys) = map fst ys"
  by auto

lemma codes_write_value:
  shows "valid_val deser v \<Longrightarrow> codes (write_value v) (read_value_f deser) (norm_val v)"
    and "utf8_valid (fst p) \<Longrightarrow> valid_val deser (snd p) \<Longrightarrow>
      codes (write_variant p) (\<lambda>k. read_variant (read_value_f deser k)) (map_prod id norm_val p)"
proof (induction v and p rule: write_value_write_variant.induct)
  case (6 d)
  then show ?case by (auto simp: read_value_tag_def intro!: read_value_step codes_raw_step codes_done)
next
  case (7 name vs schemas)
  have key: "distinct (map fst (map (map_prod id norm_val) vs))" "distinct (map fst (map (apsnd norm_schema) schemas))"
    using 7(2) by (simp_all only: fst_norm_entries) simp_all
  have "codes (write_variant p) (\<lambda>k. read_variant (read_value_f deser k)) (map_prod id norm_val p)"
    if "p \<in> set vs" for p
  proof (rule 7(1) [OF that])
    have "list_all (\<lambda>q. utf8_valid (fst q) \<and> valid_val deser (snd q)) vs"
      using 7(2) by (simp add: list.pred_map comp_def split_beta)
    with that show "utf8_valid (fst p)" "valid_val deser (snd p)" by (simp_all add: list_all_iff)
  qed
  with 7(2) key show ?case
    by (auto simp: read_value_tag_def index_map_of_distinct simp del: map_map
        intro!: read_value_step str.step codes_list_step [where g = "map_prod id norm_val"] sch.list_step codes_done)
next
  case (8 es)
  then have "codes (write_value e) (read_value_f deser) (norm_val e)" if "e \<in> set es" for e
    using that by (auto simp: list_all_iff)
  then show ?case
    by (auto simp: read_value_tag_def intro!: read_value_step codes_list_step [where g = norm_val] codes_done)
next
  case (11 key variant)
  show ?case
  proof (cases variant)
    case (VEnumVariant ev)
    obtain enum_name name v pl ctor df where ev: "ev = EnumVariant enum_name name v pl ctor df" by (cases ev)
    have "write_variant (key, variant) = wr_seq [w_str key, w_str enum_name, w_str name, write_value v, w_bool ctor]"
      by (simp add: VEnumVariant ev wr_seq_flat)
    moreover have "codes (write_value v) (read_value_f deser) (norm_val v)"
      using 11 VEnumVariant ev by simp
    ultimately show ?thesis
      using 11(2,3) VEnumVariant ev
      by (auto simp: read_variant_def simp del: write_variant.simps
          intro!: str.step codes_bool_step codes_done rec_step [where R = "read_value_f deser"])
  qed (auto simp: codes_def wr_fail_def wr_seq.simps)
qed (auto simp: read_value_tag_def codes_fail intro!: read_value_step codes_steps)

lemma safe_read_value_f: "safe_rd k (read_value_f deser k)"
proof (induction k)
  case (Suc k)
  then have "safe_rd k (read_value_tag deser (read_value_f deser k) tag)" for tag
    by (auto simp: read_value_tag_def read_variant_def intro!: safe_intros sch.total)
  then show ?case by (simp add: safe_fuel eats_u8 safe_prims)
qed (simp add: safe_zero)

interpretation vac: codec "valid_val deser" write_value "\<lambda>k. read_value deser" norm_val for deser
proof
  show "codes (write_value v) (\<lambda>k. read_value deser) (norm_val v)" if "valid_val deser v" for v
    unfolding read_value_def by (rule codes_with_fuel [OF codes_write_value(1) [OF that]])
  show "safe_rd k (read_value deser)" for k
    unfolding read_value_def by (rule safe_with_fuel [OF safe_read_value_f])
qed

end
