(* ===== verification/AsoClass.thy ===== *)
theory AsoClass
  imports AsoExpr AsoValue
begin

text \<open>
  Class descriptors in the \<open>.aso\<close> format (\<open>write_class_proto\<close>, \<open>read_class_proto\<close>, \<open>write_class\<close>,
  \<open>read_class\<close>, \<open>write_field_default\<close>, \<open>read_field_default\<close> in \<open>src/src/vm/aso.rs\<close>).

  A field default that is an arrow function or a \<open>match\<close> is written as its source text, found in
  the class's \<open>default_sources\<close>, and lowered again when it is read.  The lowering is the compiler's
  \<open>reparse_default_from_source\<close>, the parameter \<open>reparse\<close>.  The model is the full build; the runtime-only
  build refuses such a default.
\<close>

section \<open>Field defaults\<close>

type_synonym sources = "rstring \<Rightarrow> rstring option"

text \<open>The lookup table collected from \<open>default_sources\<close>; a later entry for a name wins.\<close>

definition sources_of :: "(rstring \<times> rstring) list \<Rightarrow> sources" where
  "sources_of kvs = map_of (rev kvs)"

definition write_field_default :: "sources \<Rightarrow> rstring \<Rightarrow> expr \<Rightarrow> wr" where
  "write_field_default sources fname e =
     (case sources fname of
        Some src \<Rightarrow> wr_seq [w_span (ex_span e), w_u8 EX_REPARSE, w_str src]
      | None \<Rightarrow> write_expr e)"

definition read_field_default :: "(rstring \<Rightarrow> expr option) \<Rightarrow> (expr \<times> rstring option) rd" where
  "read_field_default reparse =
     rd_bind rd_span (\<lambda>span.
     rd_bind rd_peek_u8 (\<lambda>peeked.
       if peeked = EX_REPARSE then
         rd_bind rd_u8 (\<lambda>_. rd_bind rd_str (\<lambda>src.
           case reparse src of
             Some e \<Rightarrow> rd_return (e, Some src)
           | None \<Rightarrow> rd_fail (BadTag ''reparse-default'' EX_REPARSE)))
       else
         rd_bind rd_u8 (\<lambda>tag. rd_bind (read_expr_kind tag) (\<lambda>kind. rd_return (Expr kind span, None)))))"

definition valid_default :: "(rstring \<Rightarrow> expr option) \<Rightarrow> sources \<Rightarrow> rstring \<Rightarrow> expr \<Rightarrow> bool" where
  "valid_default reparse sources fname e =
     (case sources fname of
        Some src \<Rightarrow> utf8_valid src \<and> reparse src = Some e
      | None \<Rightarrow> valid_expr e)"

definition norm_default :: "sources \<Rightarrow> rstring \<Rightarrow> expr \<Rightarrow> expr" where
  "norm_default sources fname e = (if sources fname = None then norm_expr e else e)"

text \<open>Looking at the tag the writer has put there.\<close>

lemma codes_peek_step:
  assumes rest: "codes (wr_seq fs) G z" and f: "codes (wr_seq (w_u8 tag # fs)) (\<lambda>k. F k tag) y"
  shows "codes (wr_seq (w_u8 tag # fs)) (\<lambda>k. rd_bind rd_peek_u8 (F k)) y"
  unfolding codes_def
proof (intro allI impI)
  fix w w' assume w: "wr_seq (w_u8 tag # fs) w = Ok w'"
  then obtain cs where cs: "w_buf w' = w_buf w @ tag # cs"
    using rest unfolding codes_def by (fastforce simp: wr_seq.simps w_u8_def w_raw_def)
  have peek: "reads (rd_bind rd_peek_u8 (F k)) (tag # cs) y" if "reads (F k tag) (tag # cs) y" for k
    using that by (simp add: reads_def rd_bind_def rd_peek_u8_def vec_get_def)
  from f w obtain bs where "w_buf w' = w_buf w @ bs"
    "w_overflow w' = None \<longrightarrow> w_overflow w = None \<and> (\<forall>k. length bs < k \<longrightarrow> reads (F k tag) bs y)"
    unfolding codes_def by blast
  with cs peek show "\<exists>bs. w_buf w' = w_buf w @ bs \<and> (w_overflow w' = None \<longrightarrow> w_overflow w = None
      \<and> (\<forall>k. length bs < k \<longrightarrow> reads (rd_bind rd_peek_u8 (F k)) bs y))"
    by (intro exI [of _ "tag # cs"]) simp
qed

lemma codes_kind_default:
  assumes "kind_codes kd"
  shows "codes (wr_seq [write_expr_kind kd]) (\<lambda>k. rd_bind rd_peek_u8 (\<lambda>peeked.
      if peeked = EX_REPARSE then A k
      else rd_bind rd_u8 (\<lambda>tag. rd_bind (read_expr_kind tag) (\<lambda>kind. rd_return (h kind))))) (h (norm_expr_kind kd))"
proof (cases "\<exists>e. write_expr_kind kd = wr_fail e")
  case True
  then show ?thesis by (auto simp: codes_def wr_seq.simps wr_fail_def)
next
  case False
  with assms obtain tag fs where kd: "write_expr_kind kd = wr_seq (w_u8 tag # fs)" "tag \<noteq> EX_REPARSE"
    and fs: "codes (wr_seq fs) (\<lambda>k. read_kind_with (read_expr_f k) tag) (norm_expr_kind kd)"
    unfolding kind_codes_def by blast
  have "codes (wr_seq fs) (\<lambda>k. rd_bind (read_expr_kind tag) (\<lambda>kind. rd_return (h kind))) (h (norm_expr_kind kd))"
    unfolding read_expr_kind_def by (rule codes_map [OF codes_with_fuel [OF fs]])
  from codes_peek_step [OF fs, where F = "\<lambda>k peeked. if peeked = EX_REPARSE then A k
      else rd_bind rd_u8 (\<lambda>tag. rd_bind (read_expr_kind tag) (\<lambda>kind. rd_return (h kind)))"]
    codes_u8_step [of fs "\<lambda>k tag. rd_bind (read_expr_kind tag) (\<lambda>kind. rd_return (h kind))", OF this] kd
  show ?thesis by (simp add: wr_seq_one)
qed

lemma codes_field_default:
  assumes "valid_default reparse sources fname e"
  shows "codes (write_field_default sources fname e) (\<lambda>k. read_field_default reparse)
    (norm_default sources fname e, sources fname)"
proof (cases "sources fname")
  case None
  obtain kd span where e: "e = Expr kd span" by (cases e)
  have "kind_codes kd" using assms None codes_write_expr(2) by (simp add: valid_default_def e)
  with None show ?thesis
    unfolding write_field_default_def read_field_default_def norm_default_def e
    by (auto intro!: spn.step codes_kind_default [where h = "\<lambda>kind. (Expr kind span, None)"])
next
  case (Some src)
  with assms show ?thesis
    unfolding write_field_default_def read_field_default_def norm_default_def valid_default_def
    by (auto intro!: spn.step codes_peek_step codes_steps)
qed

lemma safe_read_field_default [safe_intros]: "safe_rd k (read_field_default reparse)"
  unfolding read_field_default_def by (auto split: option.split intro!: safe_intros)

section \<open>Classes\<close>

definition write_field :: "sources \<Rightarrow> rstring \<times> field_schema \<Rightarrow> wr" where
  "write_field sources = (\<lambda>(fname, schema).
     wr_seq [w_str fname, write_type (fs_ty schema), w_opt (write_field_default sources fname) (fs_default schema)])"

definition read_field :: "(rstring \<Rightarrow> expr option) \<Rightarrow> (rstring \<times> field_schema \<times> rstring option) rd" where
  "read_field reparse =
     rd_bind rd_str (\<lambda>fname.
     rd_bind read_type (\<lambda>ty.
     rd_bind (rd_opt ''field-default'' (read_field_default reparse)) (\<lambda>def'.
       rd_return (fname, \<lparr>fs_ty = ty, fs_default = map_option fst def'\<rparr>, Option.bind def' snd))))"

definition write_class :: "class_template \<Rightarrow> sources \<Rightarrow> wr" where
  "write_class c sources = wr_seq [w_str (cl_name c), w_bool (cl_is_worker c), w_list (write_field sources) (cl_fields c)]"

definition read_class :: "(rstring \<Rightarrow> expr option) \<Rightarrow> (class_template \<times> (rstring \<times> rstring) list) rd" where
  "read_class reparse =
     rd_bind rd_str (\<lambda>name.
     rd_bind rd_bool (\<lambda>is_worker.
     rd_bind (rd_list (read_field reparse)) (\<lambda>fields.
       rd_return (\<lparr>cl_name = name, cl_fields = index_map_of (map (\<lambda>(fname, schema, _). (fname, schema)) fields),
           cl_is_worker = is_worker\<rparr>,
         List.map_filter (\<lambda>(fname, _, src). map_option (Pair fname) src) fields))))"

definition write_capture :: "rstring \<times> u16 \<Rightarrow> wr" where
  "write_capture = (\<lambda>(name, idx). wr_seq [w_str name, w_u16 idx])"

definition read_capture :: "(rstring \<times> u16) rd" where
  "read_capture = rd_bind rd_str (\<lambda>name. rd_bind rd_u16 (\<lambda>idx. rd_return (name, idx)))"

definition write_class_proto :: "class_proto \<Rightarrow> wr" where
  "write_class_proto cp = wr_seq [write_class (cp_class cp) (sources_of (cp_default_sources cp)),
     w_list w_str (cp_default_fields cp), w_list w_str (cp_method_names cp), w_list w_str (cp_static_method_names cp),
     w_list (w_list write_capture) (cp_default_captures cp), w_bool (cp_has_super cp)]"

definition read_class_proto :: "(rstring \<Rightarrow> expr option) \<Rightarrow> class_proto rd" where
  "read_class_proto reparse =
     rd_bind (read_class reparse) (\<lambda>(class, default_sources).
     rd_bind (rd_list rd_str) (\<lambda>default_fields.
     rd_bind (rd_list rd_str) (\<lambda>method_names.
     rd_bind (rd_list rd_str) (\<lambda>static_method_names.
     rd_bind (rd_list (rd_list read_capture)) (\<lambda>default_captures.
     rd_bind rd_bool (\<lambda>has_super.
       rd_return \<lparr>cp_class = class, cp_default_fields = default_fields, cp_default_captures = default_captures,
         cp_default_sources = default_sources, cp_method_names = method_names,
         cp_static_method_names = static_method_names, cp_has_super = has_super\<rparr>))))))"

text \<open>What is read back: the sources in field order, one for each re-parsed default.\<close>

definition norm_field :: "sources \<Rightarrow> rstring \<times> field_schema \<Rightarrow> rstring \<times> field_schema" where
  "norm_field sources = (\<lambda>(fname, schema). (fname, \<lparr>fs_ty = norm_ty (fs_ty schema),
     fs_default = map_option (norm_default sources fname) (fs_default schema)\<rparr>))"

definition norm_class :: "sources \<Rightarrow> class_template \<Rightarrow> class_template" where
  "norm_class sources c = c\<lparr>cl_fields := map (norm_field sources) (cl_fields c)\<rparr>"

definition norm_sources :: "sources \<Rightarrow> (rstring \<times> field_schema) list \<Rightarrow> (rstring \<times> rstring) list" where
  "norm_sources sources flds = List.map_filter (\<lambda>(fname, schema).
     if fs_default schema = None then None else map_option (Pair fname) (sources fname)) flds"

definition norm_class_proto :: "class_proto \<Rightarrow> class_proto" where
  "norm_class_proto cp = (let sources = sources_of (cp_default_sources cp) in
     cp\<lparr>cp_class := norm_class sources (cp_class cp), cp_default_sources := norm_sources sources (cl_fields (cp_class cp))\<rparr>)"

definition valid_field :: "(rstring \<Rightarrow> expr option) \<Rightarrow> sources \<Rightarrow> rstring \<times> field_schema \<Rightarrow> bool" where
  "valid_field reparse sources = (\<lambda>(fname, schema). utf8_valid fname \<and> valid_ty (fs_ty schema)
     \<and> pred_option (valid_default reparse sources fname) (fs_default schema))"

definition valid_class_proto :: "(rstring \<Rightarrow> expr option) \<Rightarrow> class_proto \<Rightarrow> bool" where
  "valid_class_proto reparse cp \<longleftrightarrow>
     utf8_valid (cl_name (cp_class cp)) \<and> distinct (map fst (cl_fields (cp_class cp)))
     \<and> list_all (valid_field reparse (sources_of (cp_default_sources cp))) (cl_fields (cp_class cp))
     \<and> list_all utf8_valid (cp_default_fields cp) \<and> list_all utf8_valid (cp_method_names cp)
     \<and> list_all utf8_valid (cp_static_method_names cp)
     \<and> list_all (list_all (\<lambda>(name, _). utf8_valid name)) (cp_default_captures cp)"

definition field_read :: "sources \<Rightarrow> rstring \<times> field_schema \<Rightarrow> rstring \<times> field_schema \<times> rstring option" where
  "field_read sources = (\<lambda>f. (fst f, snd (norm_field sources f),
     if fs_default (snd f) = None then None else sources (fst f)))"

lemma codes_field:
  assumes "valid_field reparse sources f"
  shows "codes (write_field sources f) (\<lambda>k. read_field reparse) (field_read sources f)"
proof -
  obtain fname schema where f: "f = (fname, schema)" by (cases f)
  have "codes (w_opt (write_field_default sources fname) (fs_default schema))
      (\<lambda>k. rd_opt ''field-default'' (read_field_default reparse))
      (map_option (\<lambda>e. (norm_default sources fname e, sources fname)) (fs_default schema))"
    using assms by (intro codes1_codes [OF codes1_opt] codes_field_default) (auto simp: valid_field_def f)
  note def_step = rec_step [OF this]
  have "utf8_valid fname" "valid_ty (fs_ty schema)" using assms by (simp_all add: valid_field_def f)
  then show ?thesis
    unfolding write_field_def read_field_def f prod.case
    by (intro str.step tyc.step def_step codes_done; cases "fs_default schema"; simp add: field_read_def norm_field_def)
qed

lemma map_filter_field_read:
  "List.map_filter (\<lambda>(fname, _, src). map_option (Pair fname) src) (map (field_read sources) flds)
    = norm_sources sources flds"
  unfolding norm_sources_def
proof (induction flds)
  case (Cons f flds)
  obtain fname schema where f: "f = (fname, schema)" by (cases f)
  have "field_read sources f = (fname, snd (norm_field sources f), if fs_default schema = None then None else sources fname)"
    by (simp add: field_read_def f)
  with Cons show ?case by (simp add: f split: option.split)
qed simp

lemma index_map_field_read:
  assumes "distinct (map fst flds)"
  shows "index_map_of (map (\<lambda>(fname, schema, _). (fname, schema)) (map (field_read sources) flds))
    = map (norm_field sources) flds"
proof -
  have eq: "map (\<lambda>(fname, schema, _). (fname, schema)) (map (field_read sources) flds) = map (norm_field sources) flds"
    by (auto simp: field_read_def norm_field_def)
  have "map fst (map (norm_field sources) flds) = map fst flds" by (auto simp: norm_field_def)
  with assms show ?thesis unfolding eq by (intro index_map_of_distinct) (simp only:)
qed

lemma codes_class:
  assumes "utf8_valid (cl_name c)" "distinct (map fst (cl_fields c))" "list_all (valid_field reparse sources) (cl_fields c)"
  shows "codes (write_class c sources) (\<lambda>k. read_class reparse) (norm_class sources c, norm_sources sources (cl_fields c))"
proof -
  have fields: "codes (w_list (write_field sources) (cl_fields c)) (\<lambda>k. rd_list (read_field reparse))
      (map (field_read sources) (cl_fields c))"
    using assms(3) by (intro codes1_codes [OF codes1_list] codes_field) (simp add: list_all_iff)
  show ?thesis
    unfolding write_class_def read_class_def
    by (intro str.step codes_bool_step rec_step [OF fields] codes_done assms(1))
      (simp add: norm_class_def map_filter_field_read index_map_field_read [OF assms(2)] del: map_map)
qed

interpretation cap: codec "\<lambda>(name, _). utf8_valid name" write_capture "\<lambda>k. read_capture" "\<lambda>c. c"
proof
  show "codes (write_capture c) (\<lambda>k. read_capture) c" if "case c of (name, _) \<Rightarrow> utf8_valid name" for c
    using that unfolding write_capture_def read_capture_def by (cases c) (auto intro!: codes_steps)
  show "safe_rd k read_capture" for k unfolding read_capture_def by (intro safe_intros)
qed

interpretation cls: codec "valid_class_proto reparse" write_class_proto "\<lambda>k. read_class_proto reparse" norm_class_proto
  for reparse
proof
  fix cp assume valid: "valid_class_proto reparse cp"
  let ?sources = "sources_of (cp_default_sources cp)"
  have cl: "codes (write_class (cp_class cp) ?sources) (\<lambda>k. read_class reparse)
      (norm_class ?sources (cp_class cp), norm_sources ?sources (cl_fields (cp_class cp)))"
    using valid by (intro codes_class) (simp_all add: valid_class_proto_def)
  have captures: "codes (w_list (w_list write_capture) (cp_default_captures cp)) (\<lambda>k. rd_list (rd_list read_capture))
      (map (\<lambda>cs. cs) (cp_default_captures cp))"
    using valid by (intro codes1_codes [OF codes1_list])
      (use cap.list_round_trip in \<open>auto simp: valid_class_proto_def list_all_iff\<close>)
  show "codes (write_class_proto cp) (\<lambda>k. read_class_proto reparse) (norm_class_proto cp)"
    using valid unfolding write_class_proto_def read_class_proto_def valid_class_proto_def
    by (intro rec_step [OF cl], unfold prod.case, intro codes_strs_step rec_step [OF captures] codes_bool_step codes_done)
      (auto simp: norm_class_proto_def Let_def)
next
  show "safe_rd k (read_class_proto reparse)" for k
    unfolding read_class_proto_def read_class_def read_field_def
    by (auto intro!: safe_intros cap.total)
qed

end
