(* ===== verification/AsoChunk.thy ===== *)
theory AsoChunk
  imports AsoClass Chunk
begin

text \<open>
  Whole \<open>.aso\<close> files: chunks, function prototypes, the header and the optional debug section
  (\<open>write_chunk\<close>, \<open>read_chunk\<close>, \<open>write_proto\<close>, \<open>read_proto\<close>, \<open>Chunk::to_bytes_with_debug\<close>,
  \<open>Chunk::from_bytes\<close> in \<open>src/src/vm/aso.rs\<close>).

  The chunk of a prototype is written and read by the same code as the root chunk;
  \<open>write_chunk_with\<close> and \<open>read_chunk_with\<close> are that code over what handles the nested prototypes.
\<close>

section \<open>Prototypes and chunks\<close>

definition write_span_entry :: "nat \<times> span \<Rightarrow> wr" where
  "write_span_entry = (\<lambda>(off, span). wr_seq [w_usize off, w_span span])"

definition read_span_entry :: "(nat \<times> span) rd" where
  "read_span_entry = rd_bind rd_usize (\<lambda>off. rd_bind rd_span (\<lambda>span. rd_return (off, span)))"

definition write_chunk_with :: "wr list \<Rightarrow> chunk_flat \<Rightarrow> wr" where
  "write_chunk_with protos c = wr_seq [
     w_bytes (c_code c),
     w_list write_value (c_consts c),
     w_list id protos,
     w_list write_class_proto (c_class_protos c),
     w_list write_interface_proto (c_interface_protos c),
     w_list write_import (c_imports c),
     w_list write_type (c_type_consts c),
     w_list write_span_entry (c_spans c),
     w_list write_upvalue (c_upvalues c),
     w_list w_u32 (c_cell_slots c),
     w_u16 (c_slot_count c),
     w_u16 (c_ic_count c),
     w_opt_str (c_name c)]"

definition read_chunk_with :: "(bytes \<Rightarrow> decimal) \<Rightarrow> (rstring \<Rightarrow> expr option) \<Rightarrow> fn_proto rd \<Rightarrow> chunk rd" where
  "read_chunk_with deser reparse read_proto =
     rd_bind rd_bytes (\<lambda>code.
     rd_bind (rd_list (read_value deser)) (\<lambda>consts.
     rd_bind (rd_list read_proto) (\<lambda>protos.
     rd_bind (rd_list (read_class_proto reparse)) (\<lambda>class_protos.
     rd_bind (rd_list read_interface_proto) (\<lambda>interface_protos.
     rd_bind (rd_list read_import) (\<lambda>imports.
     rd_bind (rd_list read_type) (\<lambda>type_consts.
     rd_bind (rd_list read_span_entry) (\<lambda>spans.
     rd_bind (rd_list read_upvalue) (\<lambda>upvalues.
     rd_bind (rd_list rd_u32) (\<lambda>cell_slots.
     rd_bind rd_u16 (\<lambda>slot_count.
     rd_bind rd_u16 (\<lambda>ic_count.
     rd_bind rd_opt_str (\<lambda>name.
       rd_return (chunk_new\<lparr>c_code := code, c_consts := consts, c_protos := protos, c_class_protos := class_protos,
         c_interface_protos := interface_protos, c_imports := imports, c_type_consts := type_consts, c_spans := spans,
         c_upvalues := upvalues, c_cell_slots := cell_slots, c_slot_count := slot_count, c_ic_count := ic_count,
         c_name := name\<rparr>))))))))))))))"

definition proto_flags :: "fn_meta \<Rightarrow> u8" where
  "proto_flags m =
     of_bool (fm_has_rest m) OR push_bit 1 (of_bool (fm_is_async m)) OR push_bit 2 (of_bool (fm_is_generator m))
     OR push_bit 3 (of_bool (fm_is_worker m)) OR push_bit 4 (of_bool (fm_owning_class m \<noteq> None))"

definition write_local_name :: "u32 \<times> rstring \<Rightarrow> wr" where
  "write_local_name = (\<lambda>(slot, name). wr_seq [w_u32 slot, w_str name])"

definition read_local_name :: "(u32 \<times> rstring) rd" where
  "read_local_name = rd_bind rd_u32 (\<lambda>slot. rd_bind rd_str (\<lambda>name. rd_return (slot, name)))"

primrec write_proto :: "bool \<Rightarrow> fn_proto \<Rightarrow> wr" where
  "write_proto with_debug (FnProto m c protos) = wr_seq
     ([w_u8 (fm_arity m), w_u8 (proto_flags m), w_list write_param (fm_params m), write_opt_type (fm_ret m)]
      @ (case fm_owning_class m of Some cls \<Rightarrow> [w_str cls] | None \<Rightarrow> [])
      @ [write_chunk_with (map (write_proto with_debug) protos) c]
      @ (if with_debug then [w_list write_local_name (fm_local_names m), w_opt_str (fm_debug_name m)] else []))"

definition write_chunk :: "bool \<Rightarrow> chunk \<Rightarrow> wr" where
  "write_chunk with_debug c = write_chunk_with (map (write_proto with_debug) (c_protos c)) (chunk_flat.truncate c)"

primrec read_proto_f ::
  "(bytes \<Rightarrow> decimal) \<Rightarrow> (rstring \<Rightarrow> expr option) \<Rightarrow> bool \<Rightarrow> nat \<Rightarrow> fn_proto rd" where
  "read_proto_f deser reparse with_debug 0 = rd_stuck"
| "read_proto_f deser reparse with_debug (Suc k) =
     rd_bind rd_u8 (\<lambda>arity.
     rd_bind rd_u8 (\<lambda>flags.
     rd_bind (rd_list read_param) (\<lambda>params.
     rd_bind read_opt_type (\<lambda>ret.
     rd_bind (if flags AND 16 \<noteq> 0 then rd_bind rd_str (\<lambda>cls. rd_return (Some cls)) else rd_return None) (\<lambda>owning_class.
     rd_bind (read_chunk_with deser reparse (read_proto_f deser reparse with_debug k)) (\<lambda>c.
     rd_bind (if with_debug
              then rd_bind (rd_list read_local_name) (\<lambda>names. rd_bind rd_opt_str (\<lambda>name. rd_return (names, name)))
              else rd_return ([], None)) (\<lambda>(local_names, debug_name).
       rd_return (mk_proto \<lparr>fm_arity = arity, fm_has_rest = (flags AND 1 \<noteq> 0), fm_is_async = (flags AND 2 \<noteq> 0),
         fm_is_generator = (flags AND 4 \<noteq> 0), fm_is_worker = (flags AND 8 \<noteq> 0), fm_owning_class = owning_class,
         fm_params = params, fm_ret = ret, fm_local_names = local_names, fm_debug_name = debug_name,
         fm_name_span = None\<rparr> c))))))))"

definition read_chunk :: "(bytes \<Rightarrow> decimal) \<Rightarrow> (rstring \<Rightarrow> expr option) \<Rightarrow> bool \<Rightarrow> chunk rd" where
  "read_chunk deser reparse with_debug =
     with_fuel (\<lambda>k. read_chunk_with deser reparse (read_proto_f deser reparse with_debug k))"

section \<open>Files\<close>

definition ASO_MAGIC :: bytes where
  "ASO_MAGIC = [65, 83, 79, 0]"

definition ASO_FORMAT_VERSION :: u32 where
  "ASO_FORMAT_VERSION = 29"

definition write_source :: "source_info option \<Rightarrow> wr" where
  "write_source = w_opt (\<lambda>src. wr_seq [w_str (si_path src), w_str (si_text src)])"

definition to_bytes_with_debug :: "bool \<Rightarrow> chunk \<Rightarrow> (bytes, aso_error) result" where
  "to_bytes_with_debug with_debug c =
     res_bind (wr_seq ([w_raw ASO_MAGIC, w_u32 ASO_FORMAT_VERSION, w_bool with_debug]
         @ (if with_debug then [write_source (c_source c)] else []) @ [write_chunk with_debug c]) writer_new)
       (\<lambda>w. case w_overflow w of Some e \<Rightarrow> Err e | None \<Rightarrow> Ok (w_buf w))"

definition to_bytes :: "chunk \<Rightarrow> (bytes, aso_error) result" where
  "to_bytes c = to_bytes_with_debug False c"

definition read_source :: "source_info option rd" where
  "read_source = rd_bind rd_bool (\<lambda>present.
     if present then rd_bind rd_str (\<lambda>path. rd_bind rd_str (\<lambda>text. rd_return (Some \<lparr>si_path = path, si_text = text\<rparr>)))
     else rd_return None)"

definition bind_source :: "source_info option \<Rightarrow> chunk \<Rightarrow> chunk" where
  "bind_source src c = (case src of Some s \<Rightarrow> set_module_source s c | None \<Rightarrow> c)"

definition read_file :: "(bytes \<Rightarrow> decimal) \<Rightarrow> (rstring \<Rightarrow> expr option) \<Rightarrow> chunk rd" where
  "read_file deser reparse =
     rd_bind (rd_take 4) (\<lambda>magic.
       if magic \<noteq> ASO_MAGIC then rd_fail (BadMagic magic)
       else rd_bind rd_u32 (\<lambda>version.
         if version \<noteq> ASO_FORMAT_VERSION then rd_fail (VersionMismatch version ASO_FORMAT_VERSION)
         else rd_bind rd_bool (\<lambda>with_debug.
           rd_bind (if with_debug then read_source else rd_return None) (\<lambda>src.
           rd_bind (read_chunk deser reparse with_debug) (\<lambda>c.
             rd_return (bind_source src c))))))"

definition from_bytes :: "(bytes \<Rightarrow> decimal) \<Rightarrow> (rstring \<Rightarrow> expr option) \<Rightarrow> bytes \<Rightarrow> (chunk, aso_error) result" where
  "from_bytes deser reparse bytes =
     res_bind (read_file deser reparse (reader_new bytes)) (\<lambda>(c, r). if at_end r then Ok c else Err TrailingBytes)"

section \<open>What is read back\<close>

definition norm_flat :: "chunk_flat \<Rightarrow> chunk_flat" where
  "norm_flat c = c\<lparr>c_consts := map norm_val (c_consts c), c_class_protos := map norm_class_proto (c_class_protos c),
     c_type_consts := map norm_ty (c_type_consts c), c_overflow := None, c_patch_epoch := 0, c_source := None\<rparr>"

definition norm_meta :: "bool \<Rightarrow> fn_meta \<Rightarrow> fn_meta" where
  "norm_meta with_debug m = m\<lparr>fm_params := map norm_param (fm_params m), fm_ret := map_option norm_ty (fm_ret m),
     fm_local_names := (if with_debug then fm_local_names m else []),
     fm_debug_name := (if with_debug then fm_debug_name m else None), fm_name_span := None\<rparr>"

primrec norm_proto :: "bool \<Rightarrow> fn_proto \<Rightarrow> fn_proto" where
  "norm_proto with_debug (FnProto m c protos) =
     FnProto (norm_meta with_debug m) (norm_flat c) (map (norm_proto with_debug) protos)"

definition norm_chunk :: "bool \<Rightarrow> chunk \<Rightarrow> chunk" where
  "norm_chunk with_debug c =
     chunk_flat.extend (norm_flat (chunk_flat.truncate c)) (chunk.fields (map (norm_proto with_debug) (c_protos c)))"

definition loaded :: "bool \<Rightarrow> chunk \<Rightarrow> chunk" where
  "loaded with_debug c = bind_source (if with_debug then c_source c else None) (norm_chunk with_debug c)"

text \<open>
  The values a Rust program can hold: strings are UTF-8, offsets are \<open>usize\<close>, maps have distinct
  keys, and the source text of a re-parsed default lowers to that default.
\<close>

definition valid_flat :: "(bytes \<Rightarrow> decimal) \<Rightarrow> (rstring \<Rightarrow> expr option) \<Rightarrow> chunk_flat \<Rightarrow> bool" where
  "valid_flat deser reparse c \<longleftrightarrow>
     list_all (valid_val deser) (c_consts c) \<and> list_all (valid_class_proto reparse) (c_class_protos c)
     \<and> list_all valid_interface (c_interface_protos c) \<and> list_all valid_import (c_imports c)
     \<and> list_all valid_ty (c_type_consts c) \<and> list_all (\<lambda>(off, _). off < 2 ^ 64) (c_spans c)
     \<and> pred_option utf8_valid (c_name c)"

definition valid_meta :: "fn_meta \<Rightarrow> bool" where
  "valid_meta m \<longleftrightarrow> list_all valid_param (fm_params m) \<and> pred_option valid_ty (fm_ret m)
     \<and> pred_option utf8_valid (fm_owning_class m) \<and> list_all (\<lambda>(_, name). utf8_valid name) (fm_local_names m)
     \<and> pred_option utf8_valid (fm_debug_name m)"

primrec valid_proto :: "(bytes \<Rightarrow> decimal) \<Rightarrow> (rstring \<Rightarrow> expr option) \<Rightarrow> fn_proto \<Rightarrow> bool" where
  "valid_proto deser reparse (FnProto m c protos) \<longleftrightarrow>
     valid_meta m \<and> valid_flat deser reparse c \<and> list_all id (map (valid_proto deser reparse) protos)"

definition valid_source :: "source_info \<Rightarrow> bool" where
  "valid_source src \<longleftrightarrow> utf8_valid (si_path src) \<and> utf8_valid (si_text src)"

definition valid_chunk :: "(bytes \<Rightarrow> decimal) \<Rightarrow> (rstring \<Rightarrow> expr option) \<Rightarrow> chunk \<Rightarrow> bool" where
  "valid_chunk deser reparse c \<longleftrightarrow> valid_flat deser reparse (chunk_flat.truncate c)
     \<and> list_all (valid_proto deser reparse) (c_protos c) \<and> pred_option valid_source (c_source c)"

section \<open>The parts of a chunk\<close>

interpretation spe: codec "\<lambda>(off, _). off < 2 ^ 64" write_span_entry "\<lambda>k. read_span_entry" "\<lambda>e. e"
proof
  show "codes (write_span_entry e) (\<lambda>k. read_span_entry) e" if "case e of (off, _) \<Rightarrow> off < 2 ^ 64" for e
    using that unfolding write_span_entry_def read_span_entry_def by (cases e) (auto intro!: codes_steps)
  show "safe_rd k read_span_entry" for k unfolding read_span_entry_def by (intro safe_intros)
qed

interpretation lnm: codec "\<lambda>(_, name). utf8_valid name" write_local_name "\<lambda>k. read_local_name" "\<lambda>e. e"
proof
  show "codes (write_local_name e) (\<lambda>k. read_local_name) e" if "case e of (_, name) \<Rightarrow> utf8_valid name" for e
    using that unfolding write_local_name_def read_local_name_def by (cases e) (auto intro!: codes_steps)
  show "safe_rd k read_local_name" for k unfolding read_local_name_def by (intro safe_intros)
qed

interpretation slt: codec "\<lambda>s. True" w_u32 "\<lambda>k. rd_u32" "\<lambda>s. s"
  by unfold_locales (auto intro: codes1_codes codes1_u32 safe_intros)

interpretation src: codec "pred_option valid_source" write_source "\<lambda>k. read_source" "\<lambda>s. s"
proof
  fix s assume "pred_option valid_source s"
  moreover have "write_source s = (case s of
      Some i \<Rightarrow> wr_seq [w_bool True, w_str (si_path i), w_str (si_text i)] | None \<Rightarrow> wr_seq [w_bool False])"
    by (auto simp: write_source_def w_opt_def w_bool_def wr_seq_flat wr_seq_one split: option.split)
  ultimately show "codes (write_source s) (\<lambda>k. read_source) s"
    unfolding read_source_def by (auto simp: valid_source_def split: option.split intro!: codes_steps)
next
  show "safe_rd k read_source" for k unfolding read_source_def by (auto intro!: safe_intros)
qed

lemma norm_chunk_fields:
  "chunk_flat.extend (norm_flat f) (chunk.fields ps) = chunk_new\<lparr>c_code := c_code f, c_consts := map norm_val (c_consts f),
     c_protos := ps, c_class_protos := map norm_class_proto (c_class_protos f),
     c_interface_protos := c_interface_protos f, c_imports := c_imports f, c_type_consts := map norm_ty (c_type_consts f),
     c_spans := c_spans f, c_upvalues := c_upvalues f, c_cell_slots := c_cell_slots f, c_slot_count := c_slot_count f,
     c_ic_count := c_ic_count f, c_name := c_name f\<rparr>"
  by (cases f) (simp add: norm_flat_def chunk_new_def flat_default_def chunk_flat.defs chunk.defs)

lemma codes_chunk_with:
  assumes flat: "valid_flat deser reparse f" and protos: "\<And>p. p \<in> set ps \<Longrightarrow> codes (write_proto dbg p) R (norm_proto dbg p)"
  shows "codes (write_chunk_with (map (write_proto dbg) ps) f) (\<lambda>k. read_chunk_with deser reparse (R k))
    (chunk_flat.extend (norm_flat f) (chunk.fields (map (norm_proto dbg) ps)))"
proof -
  have ps: "codes (w_list id (map (write_proto dbg) ps)) (\<lambda>k. rd_list (R k)) (map (norm_proto dbg) ps)"
    using protos by (simp add: w_list_map codes1_codes [OF codes1_list])
  have id_steps: "codes (wr_seq (w_list w xs # fs)) (\<lambda>k. rd_bind (rd_list r) (F k)) y"
    if "codes (w_list w xs) (\<lambda>k. rd_list r) (map (\<lambda>x. x) xs)" "codes (wr_seq fs) (\<lambda>k. F k xs) y" for w xs r fs F y
    using rec_step [OF that(1), of fs F y] that(2) by simp
  show ?thesis
    unfolding write_chunk_with_def read_chunk_with_def norm_chunk_fields
    using flat unfolding valid_flat_def
    by (intro codes_bytes_step vac.list_step rec_step [OF ps] cls.list_step tyc.list_step
        id_steps [OF ifc.list_round_trip] id_steps [OF imp.list_round_trip] id_steps [OF spe.list_round_trip]
        id_steps [OF upv.list_round_trip] id_steps [OF slt.list_round_trip] codes_u16_step codes_opt_str_step codes_done)
      (auto simp: list_all_iff)
qed

lemma proto_flags_bits:
  "proto_flags m AND 1 \<noteq> 0 \<longleftrightarrow> fm_has_rest m" "proto_flags m AND 2 \<noteq> 0 \<longleftrightarrow> fm_is_async m"
  "proto_flags m AND 4 \<noteq> 0 \<longleftrightarrow> fm_is_generator m" "proto_flags m AND 8 \<noteq> 0 \<longleftrightarrow> fm_is_worker m"
  "proto_flags m AND 16 \<noteq> 0 \<longleftrightarrow> fm_owning_class m \<noteq> None"
  unfolding proto_flags_def
  by (cases "fm_has_rest m"; cases "fm_is_async m"; cases "fm_is_generator m"; cases "fm_is_worker m";
      cases "fm_owning_class m"; simp)+

lemma mk_proto_extend:
  "mk_proto m (chunk_flat.extend f (chunk.fields ps)) = FnProto m f ps"
  by (cases f) (simp add: mk_proto_def chunk_flat.defs chunk.defs)

text \<open>The fields after the nested chunk, and the optional owner before it.\<close>

lemma codes_debug_tail:
  assumes "valid_meta m"
  shows "codes (wr_seq (if dbg then [w_list write_local_name (fm_local_names m), w_opt_str (fm_debug_name m)] else []))
    (\<lambda>k. rd_bind (if dbg then rd_bind (rd_list read_local_name) (\<lambda>names. rd_bind rd_opt_str (\<lambda>name. rd_return (names, name)))
       else rd_return ([], None)) (\<lambda>(names, name). rd_return (h names name)))
    (h (fm_local_names (norm_meta dbg m)) (fm_debug_name (norm_meta dbg m)))"
proof (cases dbg)
  case True
  have names: "list_all (\<lambda>(_, name). utf8_valid name) (fm_local_names m)" "pred_option utf8_valid (fm_debug_name m)"
    using assms by (simp_all add: valid_meta_def)
  have "codes (wr_seq [w_list write_local_name (fm_local_names m), w_opt_str (fm_debug_name m)])
      (\<lambda>k. rd_bind (rd_list read_local_name) (\<lambda>names. rd_bind rd_opt_str (\<lambda>name. rd_return (h names name))))
      (h (fm_local_names m) (fm_debug_name m))"
    by (intro lnm.list_step codes_opt_str_step codes_done names) simp
  with True show ?thesis by (simp add: rd_bind_assoc norm_meta_def)
qed (simp add: norm_meta_def codes_nil)

lemma codes_owner:
  assumes "pred_option utf8_valid cls" and "codes (wr_seq fs) (\<lambda>k. F k cls) y"
  shows "codes (wr_seq ((case cls of Some c \<Rightarrow> [w_str c] | None \<Rightarrow> []) @ fs))
    (\<lambda>k. rd_bind (if cls \<noteq> None then rd_bind rd_str (\<lambda>c. rd_return (Some c)) else rd_return None) (F k)) y"
proof (cases cls)
  case (Some c)
  have "codes (wr_seq (w_str c # fs)) (\<lambda>k. rd_bind rd_str (\<lambda>c. F k (Some c))) y"
    using assms Some by (intro str.step) simp_all
  with Some show ?thesis by (simp add: rd_bind_assoc)
qed (use assms in simp)

lemma codes_write_proto:
  "valid_proto deser reparse p \<Longrightarrow> codes (write_proto dbg p) (read_proto_f deser reparse dbg) (norm_proto dbg p)"
proof (induction p)
  case (FnProto m f ps)
  let ?R = "read_proto_f deser reparse dbg"
  have meta: "valid_meta m" and flat: "valid_flat deser reparse f"
    using FnProto.prems by simp_all
  have ch: "codes (write_chunk_with (map (write_proto dbg) ps) f) (\<lambda>k. read_chunk_with deser reparse (?R k))
      (chunk_flat.extend (norm_flat f) (chunk.fields (map (norm_proto dbg) ps)))"
    using FnProto by (intro codes_chunk_with flat) (auto simp: list_all_iff)
  have head: "list_all valid_param (fm_params m)" "pred_option valid_ty (fm_ret m)"
    "pred_option utf8_valid (fm_owning_class m)"
    using meta by (simp_all add: valid_meta_def)
  have y: "\<lparr>fm_arity = fm_arity m, fm_has_rest = (proto_flags m AND 1 \<noteq> 0), fm_is_async = (proto_flags m AND 2 \<noteq> 0),
      fm_is_generator = (proto_flags m AND 4 \<noteq> 0), fm_is_worker = (proto_flags m AND 8 \<noteq> 0),
      fm_owning_class = fm_owning_class m, fm_params = map norm_param (fm_params m), fm_ret = map_option norm_ty (fm_ret m),
      fm_local_names = fm_local_names (norm_meta dbg m), fm_debug_name = fm_debug_name (norm_meta dbg m),
      fm_name_span = None\<rparr> = norm_meta dbg m"
    unfolding proto_flags_bits by (cases m) (simp add: norm_meta_def)
  show ?case
    unfolding write_proto.simps append.simps norm_proto.simps
    apply (rule codes_fuel, rule read_proto_f.simps(2), rule codes1_u8)
    apply (rule codes_u8_step, rule prm.list_step [OF head(1)], rule opt_type_step [OF head(2)])
    apply (subst proto_flags_bits(5), rule codes_owner [OF head(3)], rule rec_step [OF ch])
    apply (rule codes_cong [OF codes_debug_tail [OF meta]])
    apply (simp only: y mk_proto_extend)
    done
qed

section \<open>Totality of the decoders\<close>

lemma safe_chunk_with [safe_intros]: "safe_rd k read_proto \<Longrightarrow> safe_rd k (read_chunk_with deser reparse read_proto)"
  unfolding read_chunk_with_def
  by (intro safe_intros vac.total cls.total ifc.total imp.total spe.total upv.total)

lemma safe_read_proto_f: "safe_rd k (read_proto_f deser reparse dbg k)"
proof (induction k)
  case (Suc k)
  show ?case
    unfolding read_proto_f.simps
    using Suc by (intro safe_fuel) (auto simp: eats_u8 intro!: safe_intros prm.total lnm.total)
qed (simp add: safe_zero)

lemma safe_read_chunk [safe_intros]: "safe_rd k (read_chunk deser reparse dbg)"
  unfolding read_chunk_def by (rule safe_with_fuel) (intro safe_intros safe_read_proto_f)

lemma safe_read_file: "safe_rd k (read_file deser reparse)"
  unfolding read_file_def by (auto intro!: safe_intros src.total)

lemma read_file_moves:
  "read_file deser reparse (reader_new bs) \<noteq> Panic"
  "read_file deser reparse (reader_new bs) = Ok (c, r) \<Longrightarrow> r_buf r = bs \<and> r_pos r \<le> length bs"
proof -
  have "reader_ok (reader_new bs)" "remaining (reader_new bs) < Suc (length bs)"
    by (simp_all add: reader_ok_def reader_new_def remaining_def)
  then have safe: "read_file deser reparse (reader_new bs) \<noteq> Panic"
    "\<forall>c r. read_file deser reparse (reader_new bs) = Ok (c, r) \<longrightarrow> moved (reader_new bs) r"
    using safe_read_file [of "Suc (length bs)" deser reparse] unfolding safe_rd_def by blast+
  show "read_file deser reparse (reader_new bs) \<noteq> Panic" by (rule safe(1))
  show "r_buf r = bs \<and> r_pos r \<le> length bs" if "read_file deser reparse (reader_new bs) = Ok (c, r)"
    using safe(2) that by (auto simp: moved_def reader_new_def reader_ok_def)
qed

section \<open>The round trip of a file\<close>

lemma codes_write_chunk:
  assumes "valid_chunk deser reparse c"
  shows "codes (write_chunk dbg c) (\<lambda>k. read_chunk deser reparse dbg) (norm_chunk dbg c)"
  unfolding write_chunk_def read_chunk_def norm_chunk_def
  using assms by (intro codes_with_fuel codes_chunk_with codes_write_proto) (auto simp: valid_chunk_def list_all_iff)

lemma codes_file:
  assumes valid: "valid_chunk deser reparse c"
  shows "codes (wr_seq ([w_raw ASO_MAGIC, w_u32 ASO_FORMAT_VERSION, w_bool dbg]
      @ (if dbg then [write_source (c_source c)] else []) @ [write_chunk dbg c]))
    (\<lambda>k. read_file deser reparse) (loaded dbg c)"
proof -
  have body: "codes (wr_seq [write_chunk dbg c]) (\<lambda>k. rd_bind (read_chunk deser reparse dbg) (\<lambda>c. rd_return (bind_source s c)))
      (bind_source s (norm_chunk dbg c))" for s
    by (rule codes_seq1 [OF codes_map [OF codes_write_chunk [OF valid]]])
  have "codes (wr_seq ((if dbg then [write_source (c_source c)] else []) @ [write_chunk dbg c]))
      (\<lambda>k. rd_bind (if dbg then read_source else rd_return None) (\<lambda>src.
        rd_bind (read_chunk deser reparse dbg) (\<lambda>c. rd_return (bind_source src c)))) (loaded dbg c)"
    using body valid by (cases dbg) (auto simp: loaded_def valid_chunk_def intro!: src.step)
  then show ?thesis
    unfolding read_file_def append.simps
    by (auto simp: ASO_MAGIC_def intro!: codes_raw_step codes_u32_step codes_bool_step codes_if)
qed

lemma reads_file:
  assumes valid: "valid_chunk deser reparse c" and ok: "to_bytes_with_debug dbg c = Ok bs"
  shows "reads (read_file deser reparse) bs (loaded dbg c)"
proof -
  from ok obtain w where w: "wr_seq ([w_raw ASO_MAGIC, w_u32 ASO_FORMAT_VERSION, w_bool dbg]
      @ (if dbg then [write_source (c_source c)] else []) @ [write_chunk dbg c]) writer_new = Ok w"
    and ov: "w_overflow w = None" and bs: "bs = w_buf w"
    by (auto simp: to_bytes_with_debug_def split: option.splits)
  show ?thesis
    using codes_file [OF valid, of dbg, unfolded codes_def, rule_format, OF w] ov
    by (auto simp: bs writer_new_def)
qed

lemma from_to_bytes:
  assumes "valid_chunk deser reparse c" and "to_bytes_with_debug dbg c = Ok bs" and len: "length bs < 2 ^ 63"
  shows "from_bytes deser reparse bs = Ok (loaded dbg c)"
proof -
  have "read_file deser reparse \<lparr>r_buf = [] @ bs @ [], r_pos = length ([] :: bytes)\<rparr>
      = Ok (loaded dbg c, \<lparr>r_buf = [] @ bs @ [], r_pos = length ([] :: bytes) + length bs\<rparr>)"
    using reads_file [OF assms(1,2)] len unfolding reads_def by (metis append_Nil append_Nil2)
  then show ?thesis by (simp add: from_bytes_def reader_new_def at_end_def)
qed

end
