(* ===== verification/AsoProps.thy ===== *)
theory AsoProps
  imports AsoChunk VerifyProps
begin

text \<open>
  What the \<open>.aso\<close> format guarantees: the round trip of a file, totality of the loader, byte-identical
  re-serialization, the header errors, and that serialization does not change the verifier's verdict
  (\<open>Chunk::from_bytes_verified\<close> in \<open>src/src/vm/verify.rs\<close>).
\<close>

section \<open>Re-serialization\<close>

text \<open>The encoders do not see what normalization drops.\<close>

lemma write_norm_ty [simp]: "write_type (norm_ty t) = write_type t"
  by (induction t) (simp_all add: w_list_map cong: w_list_cong)

lemma map_elems_cong:
  "(\<And>el e. el \<in> set as \<Longrightarrow> e \<in> set_array_elem el \<Longrightarrow> write_expr (norm_expr e) = write_expr e) \<Longrightarrow>
     map (map_array_elem (\<lambda>e. write_expr (norm_expr e))) as = map (map_array_elem write_expr) as"
  "(\<And>el e. el \<in> set os \<Longrightarrow> e \<in> set_obj_entry el \<Longrightarrow> write_expr (norm_expr e) = write_expr e) \<Longrightarrow>
     map (map_obj_entry (\<lambda>e. write_expr (norm_expr e))) os = map (map_obj_entry write_expr) os"
  "(\<And>el e. el \<in> set cs \<Longrightarrow> e \<in> set_call_arg el \<Longrightarrow> write_expr (norm_expr e) = write_expr e) \<Longrightarrow>
     map (map_call_arg (\<lambda>e. write_expr (norm_expr e))) cs = map (map_call_arg write_expr) cs"
  "(\<And>el e. el \<in> set ts \<Longrightarrow> e \<in> set_template_part el \<Longrightarrow> write_expr (norm_expr e) = write_expr e) \<Longrightarrow>
     map (map_template_part (\<lambda>e. write_expr (norm_expr e))) ts = map (map_template_part write_expr) ts"
  by (auto intro!: array_elem.map_cong obj_entry.map_cong call_arg.map_cong template_part.map_cong)

lemma write_norm_expr [simp]:
  shows "write_expr (norm_expr e) = write_expr e" and "write_expr_kind (norm_expr_kind kd) = write_expr_kind kd"
proof (induction e and kd)
  case (EMap es)
  have "map_prod write_expr write_expr (map_prod norm_expr norm_expr p) = map_prod write_expr write_expr p"
    if "p \<in> set es" for p
    using EMap that by (cases p) fastforce
  then show ?case by (simp cong: map_cong)
next
  case (ERange s e incl step)
  then show ?case by (cases step) simp_all
qed (simp_all add: array_elem.map_comp obj_entry.map_comp call_arg.map_comp template_part.map_comp comp_def map_elems_cong)

lemma write_norm_schema [simp]: "write_schema (apsnd norm_schema s) = write_schema s"
  by (cases s) (simp add: write_schema_def norm_schema_def w_list_map write_schema_field_def case_prod_beta')

lemma literal_norm_val: "literal_kind (norm_val v) = literal_kind v"
  by (induction v rule: literal_kind.induct) (simp_all cong: map_cong)

lemma write_norm_val [simp]:
  shows "write_value (norm_val v) = write_value v" and "write_variant (map_prod id norm_val p) = write_variant p"
proof (induction v and p rule: write_value_write_variant.induct)
  case (11 key variant)
  show ?case
  proof (cases variant)
    case (VEnumVariant ev)
    with 11 show ?thesis by (cases ev) simp
  next
    case (VEnum e)
    then show ?thesis by (cases e) (simp add: literal_err_def)
  next
    case (VArray es)
    then show ?thesis using literal_norm_val [of variant] by (simp add: literal_err_def)
  qed (simp_all add: literal_err_def)
next
  case (7 name vs schemas)
  have "w_list (\<lambda>p. write_variant (map_prod id norm_val p)) vs = w_list write_variant vs"
    by (intro w_list_cong refl 7)
  then show ?case by (simp add: w_list_map)
qed (simp_all add: w_list_map literal_err_def cong: w_list_cong)

lemma write_norm_param [simp]: "write_param (norm_param p) = write_param p"
  by (cases "p_ty p"; cases "p_default p") (simp_all add: write_param_def norm_param_def write_opt_type_def w_opt_def)

text \<open>The sources found on loading are those the writer consulted.\<close>

lemma in_map_filter: "x \<in> set (List.map_filter g xs) \<longleftrightarrow> (\<exists>y \<in> set xs. g y = Some x)"
  by (induction xs) (auto split: option.split)

lemma sources_of_norm:
  assumes "distinct (map fst flds)" and "(fname, schema) \<in> set flds" and "fs_default schema \<noteq> None"
  shows "sources_of (norm_sources sources flds) fname = sources fname"
proof -
  have fsts: "distinct (map fst (norm_sources sources flds))"
    if "distinct (map fst flds)" for flds
    using that unfolding norm_sources_def
  proof (induction flds)
    case (Cons f flds)
    have "fst ` set (List.map_filter (\<lambda>(fname, schema). if fs_default schema = None then None
        else map_option (Pair fname) (sources fname)) flds) \<subseteq> fst ` set flds"
      by (force simp: in_map_filter split: if_splits)
    with Cons show ?case by (cases f) (auto split: option.split if_splits)
  qed simp
  have mem: "(fname, src) \<in> set (norm_sources sources flds) \<longleftrightarrow> sources fname = Some src" for src
  proof -
    have "(fname, src) \<in> set (norm_sources sources flds) \<longleftrightarrow>
        (\<exists>f \<in> set flds. (case f of (n, s) \<Rightarrow> if fs_default s = None then None else map_option (Pair n) (sources n))
          = Some (fname, src))"
      by (simp add: norm_sources_def in_map_filter)
    also have "\<dots> \<longleftrightarrow> sources fname = Some src"
      using assms(2,3) by (force split: if_splits)
    finally show ?thesis .
  qed
  have "distinct (map fst (rev (norm_sources sources flds)))"
    using fsts [OF assms(1)] by (simp flip: rev_map)
  then have "sources_of (norm_sources sources flds) fname = Some src \<longleftrightarrow> sources fname = Some src" for src
    unfolding sources_of_def by (simp add: map_of_eq_Some_iff mem)
  then show ?thesis by (metis not_Some_eq)
qed

lemma write_norm_field:
  assumes "sources' (fst f) = sources (fst f) \<or> fs_default (snd f) = None"
  shows "write_field sources' (norm_field sources f) = write_field sources f"
  using assms
  by (cases f; cases "fs_default (snd f)")
    (auto simp: write_field_def norm_field_def w_opt_def write_field_default_def norm_default_def split: option.split)

lemma write_norm_class_proto:
  assumes "distinct (map fst (cl_fields (cp_class cp)))"
  shows "write_class_proto (norm_class_proto cp) = write_class_proto cp"
proof -
  let ?s = "sources_of (cp_default_sources cp)" and ?f = "cl_fields (cp_class cp)"
  have "write_field (sources_of (norm_sources ?s ?f)) (norm_field ?s f) = write_field ?s f" if "f \<in> set ?f" for f
  proof (rule write_norm_field)
    show "sources_of (norm_sources ?s ?f) (fst f) = ?s (fst f) \<or> fs_default (snd f) = None"
      using sources_of_norm [OF assms, of "fst f" "snd f"] that by auto
  qed
  then have "w_list (write_field (sources_of (norm_sources ?s ?f))) (map (norm_field ?s) ?f) = w_list (write_field ?s) ?f"
    by (simp add: w_list_map cong: w_list_cong)
  then show ?thesis
    by (simp add: write_class_proto_def norm_class_proto_def write_class_def norm_class_def Let_def)
qed

lemma write_norm_flat:
  assumes "valid_flat deser reparse f"
  shows "write_chunk_with ws (norm_flat f) = write_chunk_with ws f"
proof -
  have "w_list write_class_proto (map norm_class_proto (c_class_protos f)) = w_list write_class_proto (c_class_protos f)"
    using assms unfolding w_list_map
    by (intro w_list_cong refl write_norm_class_proto) (simp add: valid_flat_def valid_class_proto_def list_all_iff)
  then show ?thesis by (simp add: write_chunk_with_def norm_flat_def w_list_map)
qed

lemma norm_meta_writes:
  "proto_flags (norm_meta dbg m) = proto_flags m"
  "w_list write_param (fm_params (norm_meta dbg m)) = w_list write_param (fm_params m)"
  "write_opt_type (fm_ret (norm_meta dbg m)) = write_opt_type (fm_ret m)"
  by (cases "fm_ret m"; simp add: proto_flags_def norm_meta_def w_list_map write_opt_type_def w_opt_def)+

lemma write_norm_proto: "valid_proto deser reparse p \<Longrightarrow> write_proto dbg (norm_proto dbg p) = write_proto dbg p"
proof (induction p)
  case (FnProto m f ps)
  have "map (write_proto dbg) (map (norm_proto dbg) ps) = map (write_proto dbg) ps"
    using FnProto by (auto simp: list_all_iff)
  then show ?case
    using FnProto.prems write_norm_flat [of deser reparse f]
    by (simp add: norm_meta_writes del: map_map) (simp add: norm_meta_def)
qed

lemma write_with_source: "write_chunk_with ws (f\<lparr>c_source := s\<rparr>) = write_chunk_with ws f"
  by (simp add: write_chunk_with_def)

lemma write_set_source [simp]: "write_proto dbg (set_source_proto src p) = write_proto dbg p"
proof (induction p)
  case (FnProto m f ps)
  then have "map (write_proto dbg) (map (set_source_proto src) ps) = map (write_proto dbg) ps" by simp
  then show ?case by (simp add: write_with_source del: map_map)
qed

lemma write_chunk_source: "write_chunk dbg (bind_source src c) = write_chunk dbg c"
  by (auto simp: bind_source_def set_module_source_def write_chunk_def write_chunk_with_def comp_def chunk_flat.defs
      split: option.split)

lemma write_norm_chunk:
  assumes "valid_chunk deser reparse c"
  shows "write_chunk dbg (norm_chunk dbg c) = write_chunk dbg c"
proof -
  have "map (write_proto dbg) (map (norm_proto dbg) (c_protos c)) = map (write_proto dbg) (c_protos c)"
    using assms by (auto simp: valid_chunk_def list_all_iff intro: write_norm_proto)
  moreover have "chunk_flat.truncate (norm_chunk dbg c) = norm_flat (chunk_flat.truncate c)"
    "c_protos (norm_chunk dbg c) = map (norm_proto dbg) (c_protos c)"
    by (simp_all add: norm_chunk_def chunk_flat.defs chunk.defs)
  ultimately show ?thesis
    using write_norm_flat [of deser reparse "chunk_flat.truncate c"] assms
    unfolding write_chunk_def by (simp add: valid_chunk_def del: map_map)
qed

lemma loaded_source: "c_source (loaded dbg c) = (if dbg then c_source c else None)"
  by (auto simp: loaded_def bind_source_def set_module_source_def norm_chunk_def norm_flat_def chunk_flat.defs chunk.defs
      split: option.split)

lemma to_bytes_loaded:
  assumes "valid_chunk deser reparse c"
  shows "to_bytes_with_debug dbg (loaded dbg c) = to_bytes_with_debug dbg c"
proof -
  have "write_chunk dbg (loaded dbg c) = write_chunk dbg c"
    unfolding loaded_def write_chunk_source by (rule write_norm_chunk [OF assms])
  then show ?thesis by (simp add: to_bytes_with_debug_def loaded_source)
qed

section \<open>Verification and serialization\<close>

text \<open>Everything the verifier looks at in a chunk.\<close>

definition same_shape :: "chunk \<Rightarrow> chunk \<Rightarrow> bool" where
  "same_shape c c' \<longleftrightarrow> c_code c' = c_code c \<and> map is_str (c_consts c') = map is_str (c_consts c)
     \<and> map class_pops (c_class_protos c') = map class_pops (c_class_protos c)
     \<and> c_interface_protos c' = c_interface_protos c \<and> length (c_type_consts c') = length (c_type_consts c)
     \<and> c_slot_count c' = c_slot_count c \<and> c_upvalues c' = c_upvalues c
     \<and> length (c_protos c') = length (c_protos c) \<and> c_imports c' = c_imports c"

lemma map_eq_nth: "map f xs = map f ys \<Longrightarrow> i < length ys \<Longrightarrow> f (xs ! i) = f (ys ! i)"
  by (frule map_eq_imp_length_eq) (drule arg_cong [where f = "\<lambda>l. l ! i"], simp)

lemma same_shape_reads:
  assumes "same_shape c c'"
  shows "read_u8 c' = read_u8 c" "read_u16 c' = read_u16 c" "read_i16 c' = read_i16 c"
    "length (c_consts c') = length (c_consts c)" "length (c_class_protos c') = length (c_class_protos c)"
    "check_name_const c' = check_name_const c" "check_jump c' = check_jump c" "jump_target c' = jump_target c"
    "c_interface_protos c' = c_interface_protos c" "length (c_type_consts c') = length (c_type_consts c)"
    "c_slot_count c' = c_slot_count c" "c_upvalues c' = c_upvalues c" "length (c_protos c') = length (c_protos c)"
    "c_imports c' = c_imports c" "c_code c' = c_code c"
proof -
  have code: "c_code c' = c_code c" and strs: "map is_str (c_consts c') = map is_str (c_consts c)"
    using assms by (simp_all add: same_shape_def)
  show rd: "read_u8 c' = read_u8 c" "read_u16 c' = read_u16 c"
    by (simp_all add: fun_eq_iff read_u8_def read_u16_def code)
  then show rd': "read_i16 c' = read_i16 c" by (simp add: fun_eq_iff read_i16_def)
  show "check_jump c' = check_jump c" unfolding fun_eq_iff check_jump_def code rd' by simp
  show "jump_target c' = jump_target c" unfolding fun_eq_iff jump_target_def rd' by simp
  show len: "length (c_consts c') = length (c_consts c)" "length (c_class_protos c') = length (c_class_protos c)"
    using assms by (auto simp: same_shape_def dest: map_eq_imp_length_eq)
  show "c_interface_protos c' = c_interface_protos c" "length (c_type_consts c') = length (c_type_consts c)"
    "c_slot_count c' = c_slot_count c" "c_upvalues c' = c_upvalues c" "length (c_protos c') = length (c_protos c)"
    "c_imports c' = c_imports c" "c_code c' = c_code c"
    using assms by (simp_all add: same_shape_def)
  show "check_name_const c' = check_name_const c"
    using map_eq_nth [OF strs] by (auto simp: fun_eq_iff check_name_const_def check_index_def vec_get_def len)
qed

lemma check_operands_same: "same_shape c c' \<Longrightarrow> check_operands c' b n ins = check_operands c b n ins"
  unfolding check_operands_def by (simp only: same_shape_reads)

lemma depth_out_same:
  assumes "same_shape c c'"
  shows "depth_out c' off op at d = depth_out c off op at d"
proof -
  have pops: "map class_pops (c_class_protos c') = map class_pops (c_class_protos c)"
    using assms by (simp add: same_shape_def)
  have counts: "op_stack_pops_pushes c' op at = op_stack_pops_pushes c op at"
    if "op = Op_DeferPush \<or> op = Op_DeferPushMethod"
    using that unfolding op_stack_pops_pushes_def same_shape_reads [OF assms] by auto
  show ?thesis
  proof (cases "op = Op_Class")
    case True
    then show ?thesis
      using map_eq_nth [OF pops]
      by (cases "read_u16 c at") (simp_all add: depth_out_def same_shape_reads [OF assms] vec_get_def)
  qed (auto simp: depth_out_def counts count_operand_def same_shape_reads [OF assms])
qed

lemma verify_chunk_same:
  assumes "same_shape c c'"
  shows "verify_chunk c' n = verify_chunk c n"
proof -
  note code = same_shape_reads(15) [OF assms]
  have succ: "successors c' = successors c" by (simp add: fun_eq_iff successors_def same_shape_reads [OF assms])
  have "visit c' is b = visit c is b" for "is" b
    by (intro ext) (simp only: visit_def depth_out_same [OF assms] succ)
  then have "verify_stack_balance c' is b = verify_stack_balance c is b" for "is" b
    by (simp add: verify_stack_balance_def code)
  then show ?thesis by (simp add: verify_chunk_def code check_operands_same [OF assms, abs_def])
qed

lemma verify_proto_chunk_same:
  assumes "same_shape c c'"
    and "list_all2 (\<lambda>p p'. verify_proto_chunk (fp_chunk p') (length (fm_params (fp_meta p')))
      = verify_proto_chunk (fp_chunk p) (length (fm_params (fp_meta p)))) (c_protos c) (c_protos c')"
  shows "verify_proto_chunk c' n = verify_proto_chunk c n"
proof -
  let ?v = "\<lambda>p. verify_proto_chunk (fp_chunk p) (length (fm_params (fp_meta p)))"
  have "res_all ?v ps' = res_all ?v ps" if "list_all2 (\<lambda>p p'. ?v p' = ?v p) ps ps'" for ps ps'
    using that by (induction rule: list_all2_induct) simp_all
  from this [OF assms(2)] show ?thesis
    by (subst (1 2) verify_proto_chunk.simps) (simp add: verify_chunk_same [OF assms(1)])
qed

lemma is_str_norm [simp]: "is_str (norm_val v) = is_str v"
  by (cases v) (simp_all add: is_str_def)

lemma same_shape_norm:
  "same_shape (chunk_flat.extend f (chunk.fields ps)) (chunk_flat.extend (norm_flat f) (chunk.fields (map g ps)))"
  by (simp add: same_shape_def norm_flat_def chunk_flat.defs chunk.defs comp_def class_pops_def norm_class_proto_def Let_def)

lemma verify_norm_proto:
  "verify_proto_chunk (fp_chunk (norm_proto dbg p)) n = verify_proto_chunk (fp_chunk p) n"
proof (induction p arbitrary: n)
  case (FnProto m f ps)
  have "same_shape (fp_chunk (FnProto m f ps)) (fp_chunk (norm_proto dbg (FnProto m f ps)))"
    by (simp add: fp_chunk_def same_shape_norm)
  then show ?case
  proof (rule verify_proto_chunk_same)
    have "length (fm_params (fp_meta (norm_proto dbg p))) = length (fm_params (fp_meta p))" for p
      by (cases p) (simp add: norm_meta_def)
    then show "list_all2 (\<lambda>p p'. verify_proto_chunk (fp_chunk p') (length (fm_params (fp_meta p')))
        = verify_proto_chunk (fp_chunk p) (length (fm_params (fp_meta p))))
        (c_protos (fp_chunk (FnProto m f ps))) (c_protos (fp_chunk (norm_proto dbg (FnProto m f ps))))"
      using FnProto by (simp add: list.rel_map list.rel_refl_strong)
  qed
qed

lemma verify_set_source:
  "verify_proto_chunk (fp_chunk (set_source_proto src p)) n = verify_proto_chunk (fp_chunk p) n"
proof (induction p arbitrary: n)
  case (FnProto m f ps)
  show ?case
  proof (cases "c_source f")
    case None
    have "same_shape (fp_chunk (FnProto m f ps)) (fp_chunk (set_source_proto src (FnProto m f ps)))"
      by (simp add: fp_chunk_def same_shape_def chunk_flat.defs chunk.defs None)
    then show ?thesis
    proof (rule verify_proto_chunk_same)
      have "fp_meta (set_source_proto src p) = fp_meta p" for p by (cases p) simp
      then show "list_all2 (\<lambda>p p'. verify_proto_chunk (fp_chunk p') (length (fm_params (fp_meta p')))
          = verify_proto_chunk (fp_chunk p) (length (fm_params (fp_meta p))))
          (c_protos (fp_chunk (FnProto m f ps))) (c_protos (fp_chunk (set_source_proto src (FnProto m f ps))))"
        using FnProto None by (simp add: list.rel_map list.rel_refl_strong)
    qed
  qed simp
qed

lemma verify_loaded_eq: "verify (loaded dbg c) = verify c"
proof -
  have norm: "verify (norm_chunk dbg c) = verify c"
    unfolding verify_def
  proof (rule verify_proto_chunk_same)
    have "same_shape (chunk_flat.extend (chunk_flat.truncate c) (chunk.fields (c_protos c))) (norm_chunk dbg c)"
      unfolding norm_chunk_def by (rule same_shape_norm)
    then show "same_shape c (norm_chunk dbg c)" by (cases c) (simp add: chunk_flat.defs chunk.defs)
    have "length (fm_params (fp_meta (norm_proto dbg p))) = length (fm_params (fp_meta p))" for p
      by (cases p) (simp add: norm_meta_def)
    then show "list_all2 (\<lambda>p p'. verify_proto_chunk (fp_chunk p') (length (fm_params (fp_meta p')))
        = verify_proto_chunk (fp_chunk p) (length (fm_params (fp_meta p)))) (c_protos c) (c_protos (norm_chunk dbg c))"
      by (simp add: norm_chunk_def chunk_flat.defs chunk.defs list.rel_map list.rel_refl_strong verify_norm_proto)
  qed
  have "verify (bind_source src c') = verify c'" for src c'
  proof (cases "src = None \<or> c_source c' \<noteq> None")
    case False
    then obtain i where src: "src = Some i" and none: "c_source c' = None" by (cases src) auto
    show ?thesis
      unfolding verify_def
    proof (rule verify_proto_chunk_same)
      show "same_shape c' (bind_source src c')"
        by (simp add: bind_source_def set_module_source_def same_shape_def src none)
      have "fp_meta (set_source_proto s p) = fp_meta p" for s p by (cases p) simp
      then show "list_all2 (\<lambda>p p'. verify_proto_chunk (fp_chunk p') (length (fm_params (fp_meta p')))
          = verify_proto_chunk (fp_chunk p) (length (fm_params (fp_meta p)))) (c_protos c') (c_protos (bind_source src c'))"
        by (simp add: bind_source_def set_module_source_def src none list.rel_map list.rel_refl_strong verify_set_source)
    qed
  qed (auto simp: bind_source_def set_module_source_def split: option.split)
  then show ?thesis by (simp add: loaded_def norm)
qed

section \<open>Loading\<close>

datatype from_bytes_verified_error = Decode aso_error | Verify verify_error

definition from_bytes_verified ::
  "(bytes \<Rightarrow> decimal) \<Rightarrow> (rstring \<Rightarrow> expr option) \<Rightarrow> bytes \<Rightarrow> (chunk, from_bytes_verified_error) result" where
  "from_bytes_verified deser reparse bytes =
     (case from_bytes deser reparse bytes of
        Panic \<Rightarrow> Panic
      | Err e \<Rightarrow> Err (Decode e)
      | Ok c \<Rightarrow> (case verify c of Panic \<Rightarrow> Panic | Err e \<Rightarrow> Err (Verify e) | Ok () \<Rightarrow> Ok c))"

lemma from_bytes_no_panic: "from_bytes deser reparse bs \<noteq> Panic"
  using read_file_moves(1) [of deser reparse bs] by (auto simp: from_bytes_def)

lemma from_bytes_trailing:
  assumes valid: "valid_chunk deser reparse c" and ok: "to_bytes_with_debug dbg c = Ok bs"
    and len: "length (bs @ extra) < 2 ^ 63" and extra: "extra \<noteq> []"
  shows "from_bytes deser reparse (bs @ extra) = Err TrailingBytes"
proof -
  have "read_file deser reparse \<lparr>r_buf = [] @ bs @ extra, r_pos = length ([] :: bytes)\<rparr>
      = Ok (loaded dbg c, \<lparr>r_buf = [] @ bs @ extra, r_pos = length ([] :: bytes) + length bs\<rparr>)"
    using reads_file [OF valid ok] len unfolding reads_def by (metis append_Nil)
  with extra show ?thesis by (simp add: from_bytes_def reader_new_def at_end_def)
qed

section \<open>A sample file\<close>

text \<open>A chunk that loads two constants and returns, with the bytes \<open>to_bytes\<close> makes of it.\<close>

definition sample :: chunk where
  "sample = chunk_new\<lparr>c_code := [0, 0, 0, 47], c_consts := [VInt 5, VStr [97]]\<rparr>"

definition sample_bytes :: bytes where
  "sample_bytes = [65, 83, 79, 0] @ to_le_bytes 4 ASO_FORMAT_VERSION @ [0]
     @ to_le_bytes 4 (4 :: u32) @ [0, 0, 0, 47]
     @ to_le_bytes 4 (2 :: u32) @ [7] @ to_le_bytes 8 (5 :: u64) @ [3] @ to_le_bytes 4 (1 :: u32) @ [97]
     @ concat (map (\<lambda>_. to_le_bytes 4 (0 :: u32)) [0 :: nat, 1, 2, 3, 4, 5, 6, 7]) @ to_le_bytes 2 (0 :: u16) @ to_le_bytes 2 (0 :: u16) @ [0]"

lemma sample_valid: "valid_chunk (\<lambda>_. undefined) (\<lambda>_. None) sample"
  by (simp add: sample_def valid_chunk_def valid_flat_def chunk_new_def flat_default_def chunk_flat.defs chunk.defs utf8_valid.simps)

lemma sample_to_bytes: "to_bytes_with_debug False sample = Ok sample_bytes"
  by (simp add: sample_bytes_def ASO_MAGIC_def ASO_FORMAT_VERSION_def to_bytes_with_debug_def sample_def chunk_new_def flat_default_def chunk_flat.defs chunk.defs
   wr_seq.simps w_raw_def w_u8_def w_u16_def w_u32_def w_u64_def w_bool_def w_list_def w_len_def write_len_def w_str_def
   w_bytes_def w_opt_def w_opt_str_def write_chunk_def write_chunk_with_def writer_new_def)

lemma sample_len: "length sample_bytes = 73"
  by (simp add: sample_bytes_def ASO_FORMAT_VERSION_def)

lemma sample_verify: "verify sample = Ok ()"
proof -
  have "verify_chunk sample 0 = Ok ()"
    by (simp add: verify_chunk_def sample_def decode_eval verify_eval)
  then show ?thesis unfolding verify_def by (subst verify_proto_chunk.simps) (simp add: sample_def)
qed

section \<open>Properties\<close>

text \<open>
  C7: the \<open>.aso\<close> round trip.  A file written from a chunk, with or without the debug section, is
  loaded as that chunk with what the format does not keep reset: erased generics, placeholder
  parameter defaults, the elision marks, enum links and, without the debug section, the debug tables
  and the source.  The same file with bytes appended is refused.
\<close>

theorem aso_round_trip:
  assumes "valid_chunk deser reparse c" and "to_bytes_with_debug dbg c = Ok bs" and "length (bs @ extra) < 2 ^ 63"
  shows "from_bytes deser reparse (bs @ extra) = (if extra = [] then Ok (loaded dbg c) else Err TrailingBytes)"
proof (cases "extra = []")
  case True
  with assms(3) have "from_bytes deser reparse bs = Ok (loaded dbg c)"
    by (intro from_to_bytes [OF assms(1,2)]) simp
  with True show ?thesis by simp
next
  case False
  with from_bytes_trailing [OF assms False] show ?thesis by simp
qed

theorem aso_round_trip_witness:
  "from_bytes (\<lambda>_. undefined) (\<lambda>_. None) (sample_bytes @ []) = Ok (loaded False sample)
   \<and> from_bytes (\<lambda>_. undefined) (\<lambda>_. None) (sample_bytes @ [0]) = Err TrailingBytes"
  using aso_round_trip [OF sample_valid sample_to_bytes, of "[]"] aso_round_trip [OF sample_valid sample_to_bytes, of "[0]"]
  by (simp add: sample_len)

text \<open>
  C12: loading does not panic, given the stack for it.  The recursive decoders are called with a bound on their
  nesting, the frames the native stack has left.  With room for one frame per byte left they return a value or
  an error wherever the reader stands, so that the nesting is never deeper than the bytes are many; and with
  that much room the loader and the verifying loader return a chunk or an error on any byte sequence
  whatsoever: no slice is out of range and no reservation follows a declared length.  The re-parsing of the
  captured source of a default is a parameter that returns an expression or an error.
\<close>

theorem aso_load_total:
  assumes "reader_ok r" and "remaining r < depth"
  shows "read_type_f depth r \<noteq> Panic \<and> read_expr_f depth r \<noteq> Panic \<and> read_value_f deser depth r \<noteq> Panic
    \<and> read_proto_f deser reparse with_debug depth r \<noteq> Panic
    \<and> from_bytes deser reparse bs \<noteq> Panic \<and> from_bytes_verified deser reparse bs \<noteq> Panic"
proof -
  have "from_bytes_verified deser reparse bs \<noteq> Panic"
  proof (cases "from_bytes deser reparse bs")
    case (Ok c)
    then show ?thesis using verify_total [of c] by (cases "verify c") (simp_all add: from_bytes_verified_def split: unit.split)
  qed (simp_all add: from_bytes_verified_def from_bytes_no_panic)
  then show ?thesis
    using assms safe_read_type_f [of depth] safe_read_expr_f [of depth] safe_read_value_f [of depth deser]
      safe_read_proto_f [of depth deser reparse with_debug] from_bytes_no_panic [of deser reparse bs]
    unfolding safe_rd_def by blast
qed

theorem aso_load_total_witness:
  "read_type_f 3 (reader_new [TY_ARRAY, TY_ARRAY]) \<noteq> Panic \<and> from_bytes (\<lambda>_. undefined) (\<lambda>_. None) [65, 83] \<noteq> Panic"
  using aso_load_total [of "reader_new [TY_ARRAY, TY_ARRAY]" 3 "\<lambda>_. undefined" "\<lambda>_. None" False "[65, 83]"]
  by (simp add: reader_ok_def remaining_def reader_new_def)

text \<open>The bound is exact: as many nested tags as there are frames exhaust them, whatever their number.\<close>

lemma nested_tags_from:
  assumes "d \<le> n" and "n < 2 ^ 64"
  shows "read_type_f d \<lparr>r_buf = replicate n TY_ARRAY, r_pos = n - d\<rparr> = Panic"
  using assms(1)
proof (induction d)
  case (Suc d)
  have "rd_u8 \<lparr>r_buf = replicate n TY_ARRAY, r_pos = n - Suc d\<rparr> = Ok (TY_ARRAY, \<lparr>r_buf = replicate n TY_ARRAY, r_pos = n - d\<rparr>)"
    using Suc.prems assms(2) by (simp add: rd_u8_def rd_bind_def rd_take_def rd_return_def Suc_diff_Suc)
  with Suc show ?case by (simp add: rd_bind_def read_type_tag_def)
qed (simp add: rd_stuck_def)

lemma nested_tags_exhaust: "n < 2 ^ 64 \<Longrightarrow> read_type_f n (reader_new (replicate n TY_ARRAY)) = Panic"
  using nested_tags_from [of n n] by (simp add: reader_new_def)

text \<open>
  A loaded chunk re-serializes byte-identically: writing what was loaded gives the bytes that
  writing the original gave, sources of re-parsed defaults included.
\<close>

theorem aso_reserialize:
  assumes "valid_chunk deser reparse c"
  shows "to_bytes_with_debug dbg (loaded dbg c) = to_bytes_with_debug dbg c"
  by (rule to_bytes_loaded [OF assms])

theorem aso_reserialize_witness: "to_bytes_with_debug False (loaded False sample) = Ok sample_bytes"
  unfolding aso_reserialize [OF sample_valid] by (rule sample_to_bytes)

text \<open>
  C19: serialization does not change the verifier's verdict.  A chunk that verifies still loads through
  the verifying loader after it was written, and one that does not is refused with the same error.
\<close>

theorem verified_load:
  assumes "valid_chunk deser reparse c" and "to_bytes_with_debug dbg c = Ok bs" and "length bs < 2 ^ 63"
  shows "from_bytes_verified deser reparse bs =
    (case verify c of Ok () \<Rightarrow> Ok (loaded dbg c) | Err e \<Rightarrow> Err (Verify e) | Panic \<Rightarrow> Panic)"
  using from_to_bytes [OF assms] by (simp add: from_bytes_verified_def verify_loaded_eq split: result.split)

theorem verified_load_witness:
  "from_bytes_verified (\<lambda>_. undefined) (\<lambda>_. None) sample_bytes = Ok (loaded False sample)"
  using verified_load [OF sample_valid sample_to_bytes] by (simp add: sample_len sample_verify split: unit.splits)

text \<open>
  The header checks.  A file shorter than the magic is truncated, a wrong magic is reported with the
  four bytes found, and a version other than the current one is reported with both versions, before
  anything else is read.
\<close>

theorem aso_header_errors:
  "let version = from_le_bytes (take 4 (drop 4 bs)) in
   if length bs < 4 then from_bytes deser reparse bs = Err Truncated
   else if take 4 bs \<noteq> ASO_MAGIC then from_bytes deser reparse bs = Err (BadMagic (take 4 bs))
   else if length bs < 8 then from_bytes deser reparse bs = Err Truncated
   else if version \<noteq> ASO_FORMAT_VERSION
     then from_bytes deser reparse bs = Err (VersionMismatch version ASO_FORMAT_VERSION)
   else if length bs < 9 then from_bytes deser reparse bs = Err Truncated
   else True"
  by (simp add: from_bytes_def read_file_def reader_new_def rd_bind_def rd_take_def rd_u32_def rd_bool_def
      rd_u8_def rd_return_def rd_fail_def Let_def)

end
