(* ===== verification/Shape.thy ===== *)
theory Shape
  imports IndexMap
begin

text \<open>
  The hidden-class registry (\<open>ShapeRegistry\<close> in \<open>src/src/vm/shape.rs\<close>).  A shape id stands for an
  ordered key list; ids are minted along the edges of a transition tree.  The hash maps are
  association lists with distinct keys, of which only lookup, insertion and size are used.

  \<open>reg_ok\<close> is the invariant: the ids are exactly the layouts minted so far, each once, closed
  under prefixes, with an edge for every pair of a layout and a one-key extension of it.  An id is
  a \<open>u32\<close> cast of the table length, so the invariant asks for at most \<open>2 ^ 32\<close> layouts and minting
  for fewer.  Indexing the key table with an id that was never minted panics: the functions that do
  so answer an option, \<open>None\<close> being the panic.
\<close>

section \<open>The registry\<close>

definition EMPTY_SHAPE :: u32 where "EMPTY_SHAPE = 0"
definition SLAB_MAX_KEYS :: nat where "SLAB_MAX_KEYS = 64"
definition SHAPE_FANOUT_MAX :: nat where "SHAPE_FANOUT_MAX = 128"

record shape_registry =
  sr_transitions :: "(u32 \<times> (rstring \<times> u32) list) list"
  sr_keys :: "rstring list list"

definition registry_new :: shape_registry where
  "registry_new = \<lparr>sr_transitions = [], sr_keys = [[]]\<rparr>"

definition edge :: "shape_registry \<Rightarrow> u32 \<Rightarrow> rstring \<Rightarrow> u32 option" where
  "edge r shape key = Option.bind (map_of (sr_transitions r) shape) (\<lambda>inner. map_of inner key)"

definition children :: "shape_registry \<Rightarrow> u32 \<Rightarrow> (rstring \<times> u32) list" where
  "children r shape = (case map_of (sr_transitions r) shape of Some inner \<Rightarrow> inner | None \<Rightarrow> [])"

definition add_key :: "shape_registry \<Rightarrow> u32 \<Rightarrow> rstring \<Rightarrow> (u32 option \<times> shape_registry) option" where
  "add_key r shape key =
     (case edge r shape key of
        Some child \<Rightarrow> Some (Some child, r)
      | None \<Rightarrow> Option.bind (vec_get (sr_keys r) (unat shape)) (\<lambda>parent_keys.
          if length parent_keys + 1 > SLAB_MAX_KEYS then Some (None, r)
          else if length (children r shape) \<ge> SHAPE_FANOUT_MAX then Some (None, r)
          else let child_id = of_nat (length (sr_keys r)) in
            Some (Some child_id, r\<lparr>
              sr_keys := sr_keys r @ [parent_keys @ [key]],
              sr_transitions := im_insert shape (im_insert key child_id (children r shape)) (sr_transitions r)\<rparr>)))"

fun shape_for_from ::
  "shape_registry \<Rightarrow> u32 \<Rightarrow> rstring list \<Rightarrow> (u32 option \<times> shape_registry) option" where
  "shape_for_from r shape [] = Some (Some shape, r)"
| "shape_for_from r shape (k # ks) = Option.bind (add_key r shape k) (\<lambda>(child, r').
     case child of Some c \<Rightarrow> shape_for_from r' c ks | None \<Rightarrow> Some (None, r'))"

definition shape_for :: "shape_registry \<Rightarrow> rstring list \<Rightarrow> (u32 option \<times> shape_registry) option" where
  "shape_for r ks = shape_for_from r EMPTY_SHAPE ks"

definition keys_of :: "shape_registry \<Rightarrow> u32 \<Rightarrow> rstring list option" where
  "keys_of r shape = vec_get (sr_keys r) (unat shape)"

definition keys_of_pgo :: "shape_registry \<Rightarrow> u32 \<Rightarrow> rstring list option" where
  "keys_of_pgo r shape = vec_get (sr_keys r) (unat shape)"

lemma unat_of_nat_u32: "n < 2 ^ 32 \<Longrightarrow> unat (of_nat n :: u32) = n"
  by (simp add: unsigned_of_nat take_bit_nat_eq_self)

lemma unat_inj: "unat s = unat t \<longleftrightarrow> s = t"
  by (metis unsigned_word_eqI)

section \<open>The invariant\<close>

definition minted :: "shape_registry \<Rightarrow> u32 \<Rightarrow> bool" where
  "minted r s \<longleftrightarrow> unat s < length (sr_keys r)"

definition layout :: "shape_registry \<Rightarrow> u32 \<Rightarrow> rstring list" where
  "layout r s = sr_keys r ! unat s"

definition reg_ok :: "shape_registry \<Rightarrow> bool" where
  "reg_ok r \<longleftrightarrow> sr_keys r \<noteq> [] \<and> sr_keys r ! 0 = [] \<and> length (sr_keys r) \<le> 2 ^ 32
     \<and> distinct (sr_keys r)
     \<and> (\<forall>ks \<in> set (sr_keys r). length ks \<le> SLAB_MAX_KEYS)
     \<and> (\<forall>ks k. ks @ [k] \<in> set (sr_keys r) \<longrightarrow> ks \<in> set (sr_keys r))
     \<and> (\<forall>p k c. edge r p k = Some c \<longleftrightarrow> minted r p \<and> minted r c \<and> layout r c = layout r p @ [k])
     \<and> (\<forall>p. distinct (map fst (children r p)) \<and> length (children r p) \<le> SHAPE_FANOUT_MAX)"

text \<open>Later registries only add layouts.\<close>

definition extends :: "shape_registry \<Rightarrow> shape_registry \<Rightarrow> bool" where
  "extends r r' \<longleftrightarrow> (\<exists>ext. sr_keys r' = sr_keys r @ ext)"

lemma extends_refl [simp]: "extends r r"
  by (simp add: extends_def)

lemma extends_trans: "extends r r' \<Longrightarrow> extends r' r'' \<Longrightarrow> extends r r''"
  by (auto simp: extends_def)

lemma extends_minted: "extends r r' \<Longrightarrow> minted r s \<Longrightarrow> minted r' s \<and> layout r' s = layout r s"
  by (auto simp: extends_def minted_def layout_def nth_append)

lemma extends_length: "extends r r' \<Longrightarrow> length (sr_keys r) \<le> length (sr_keys r')"
  by (auto simp: extends_def)

lemma keys_of_minted: "minted r s \<Longrightarrow> keys_of r s = Some (layout r s)"
  by (simp add: minted_def layout_def keys_of_def)

lemma minted_layout_inj: "reg_ok r \<Longrightarrow> minted r s \<Longrightarrow> minted r t \<Longrightarrow> layout r s = layout r t \<longleftrightarrow> s = t"
  by (simp add: reg_ok_def minted_def layout_def nth_eq_iff_index_eq unat_inj)

lemma empty_minted: "reg_ok r \<Longrightarrow> minted r 0 \<and> layout r 0 = []"
  by (simp add: reg_ok_def minted_def layout_def)

lemma edge_children: "edge r p k = map_of (children r p) k"
  by (simp add: edge_def children_def split: option.split bind_split)

lemma reg_ok_new: "reg_ok registry_new"
  by (auto simp: reg_ok_def registry_new_def edge_def children_def minted_def layout_def)

lemma layout_short: "reg_ok r \<Longrightarrow> minted r s \<Longrightarrow> length (layout r s) \<le> SLAB_MAX_KEYS"
  by (auto simp: reg_ok_def minted_def layout_def)

section \<open>Minting\<close>

lemma edge_iff:
  assumes "reg_ok r"
  shows "edge r p k = Some c \<longleftrightarrow> minted r p \<and> minted r c \<and> layout r c = layout r p @ [k]"
  using assms by (simp add: reg_ok_def)

lemma edge_None:
  assumes "reg_ok r" and "minted r p" and "edge r p k = None"
  shows "layout r p @ [k] \<notin> set (sr_keys r)"
proof
  assume "layout r p @ [k] \<in> set (sr_keys r)"
  then obtain i where i: "i < length (sr_keys r)" "sr_keys r ! i = layout r p @ [k]"
    by (auto simp: in_set_conv_nth)
  have "length (sr_keys r) \<le> 2 ^ 32" using assms(1) by (simp add: reg_ok_def)
  with i have "unat (of_nat i :: u32) = i" by (simp add: unat_of_nat_u32)
  with i have "minted r (of_nat i)" "layout r (of_nat i) = layout r p @ [k]"
    by (simp_all add: minted_def layout_def)
  with assms show False by (metis edge_iff option.distinct(1))
qed

text \<open>The registry after a new edge.\<close>

definition mint :: "shape_registry \<Rightarrow> u32 \<Rightarrow> rstring \<Rightarrow> shape_registry" where
  "mint r s k = r\<lparr>sr_keys := sr_keys r @ [layout r s @ [k]],
     sr_transitions := im_insert s (im_insert k (of_nat (length (sr_keys r))) (children r s)) (sr_transitions r)\<rparr>"

lemma children_mint:
  "children (mint r s k) p =
     (if p = s then im_insert k (of_nat (length (sr_keys r))) (children r s) else children r p)"
  by (simp add: mint_def children_def)

lemma reg_ok_mint:
  assumes ok: "reg_ok r" and s: "minted r s" and new: "edge r s k = None"
    and keys: "length (layout r s) < SLAB_MAX_KEYS" and fan: "length (children r s) < SHAPE_FANOUT_MAX"
    and room: "length (sr_keys r) < 2 ^ 32"
  shows "reg_ok (mint r s k)"
proof -
  let ?r = "mint r s k" and ?c = "of_nat (length (sr_keys r)) :: u32"
  have c: "unat ?c = length (sr_keys r)" using room by (simp add: unat_of_nat_u32)
  have ks: "sr_keys ?r = sr_keys r @ [layout r s @ [k]]" by (simp add: mint_def)
  have notin: "layout r s @ [k] \<notin> set (sr_keys r)" by (rule edge_None [OF ok s new])
  have mem: "layout r s \<in> set (sr_keys r)" using s by (simp add: minted_def layout_def)
  have minted: "minted ?r t \<longleftrightarrow> minted r t \<or> t = ?c" for t
    using c by (auto simp: minted_def ks less_Suc_eq simp flip: unat_inj [of t])
  have lay: "layout ?r t = (if t = ?c then layout r s @ [k] else layout r t)" if "minted ?r t" for t
    using that c unfolding minted by (auto simp: layout_def ks nth_append minted_def)
  have knew: "k \<notin> fst ` set (children r s)"
    using new by (simp add: edge_children map_of_eq_None_iff)
  have c_notin: "\<not> minted r ?c" using c by (simp add: minted_def)
  have edges: "edge ?r p k' = Some d \<longleftrightarrow> minted ?r p \<and> minted ?r d \<and> layout ?r d = layout ?r p @ [k']" for p k' d
  proof -
    have "edge ?r p k' = Some d \<longleftrightarrow> edge r p k' = Some d \<or> (p = s \<and> k' = k \<and> d = ?c)"
      using new by (auto simp: edge_children children_mint)
    also have "\<dots> \<longleftrightarrow> minted ?r p \<and> minted ?r d \<and> layout ?r d = layout ?r p @ [k']"
    proof (cases "minted r p")
      case True
      have "p \<noteq> ?c" using True c_notin by auto
      have lp: "layout ?r p = layout r p" using lay [of p] True \<open>p \<noteq> ?c\<close> by (simp add: minted)
      show ?thesis
      proof (cases "d = ?c")
        case True
        have "layout r s = layout r p \<longleftrightarrow> p = s" using minted_layout_inj [OF ok s \<open>minted r p\<close>] by auto
        then show ?thesis using lay [of d] lp True c_notin \<open>minted r p\<close> by (auto simp: minted edge_iff [OF ok])
      next
        case False
        then show ?thesis using lay [of d] lp \<open>minted r p\<close> by (auto simp: minted edge_iff [OF ok])
      qed
    next
      case False
      have "layout ?r d \<noteq> layout ?r ?c @ [k']" if "minted ?r d"
      proof
        assume eq: "layout ?r d = layout ?r ?c @ [k']"
        then have d: "d \<noteq> ?c" by auto
        then have "minted r d" using that minted by auto
        moreover have "layout r d = (layout r s @ [k]) @ [k']" using eq lay [of d] lay [of ?c] d that by (simp add: minted)
        ultimately have "(layout r s @ [k]) @ [k'] \<in> set (sr_keys r)" by (metis layout_def minted_def nth_mem)
        with ok notin show False unfolding reg_ok_def by blast
      qed
      moreover have "p \<noteq> s" using False s by auto
      ultimately show ?thesis using False by (auto simp: minted edge_iff [OF ok])
    qed
    finally show ?thesis .
  qed
  have "distinct (map fst (children ?r p)) \<and> length (children ?r p) \<le> SHAPE_FANOUT_MAX" for p
    using ok fan knew by (auto simp: children_mint im_insert_new reg_ok_def)
  moreover have "\<forall>ks k'. ks @ [k'] \<in> set (sr_keys ?r) \<longrightarrow> ks \<in> set (sr_keys ?r)"
    using ok mem by (auto simp: ks reg_ok_def)
  ultimately show ?thesis
    using ok keys room notin edges unfolding reg_ok_def by (simp add: ks nth_append)
qed

text \<open>What following the keys \<open>ks\<close> from the shape \<open>s\<close> answers.\<close>

definition grown :: "shape_registry \<Rightarrow> u32 \<Rightarrow> rstring list \<Rightarrow> u32 option \<times> shape_registry \<Rightarrow> bool" where
  "grown r s ks = (\<lambda>(child, r'). reg_ok r' \<and> extends r r' \<and> length (sr_keys r') \<le> length (sr_keys r) + length ks
     \<and> (case child of
          Some c \<Rightarrow> minted r' c \<and> layout r' c = layout r s @ ks
        | None \<Rightarrow> layout r s @ ks \<notin> set (sr_keys r')))"

lemma prefix_closed: "reg_ok r \<Longrightarrow> ks @ ls \<in> set (sr_keys r) \<Longrightarrow> ks \<in> set (sr_keys r)"
proof (induction ls rule: rev_induct)
  case (snoc x xs)
  from snoc.prems have "(ks @ xs) @ [x] \<in> set (sr_keys r)" by simp
  with snoc.prems(1) have "ks @ xs \<in> set (sr_keys r)" unfolding reg_ok_def by blast
  with snoc show ?case by blast
qed simp

lemma add_key_grown:
  assumes ok: "reg_ok r" and s: "minted r s" and room: "length (sr_keys r) < 2 ^ 32"
  shows "\<exists>x. add_key r s k = Some x \<and> grown r s [k] x"
proof (cases "edge r s k")
  case None
  have get: "vec_get (sr_keys r) (unat s) = Some (layout r s)" using s by (simp add: minted_def layout_def)
  show ?thesis
  proof (cases "length (layout r s) < SLAB_MAX_KEYS \<and> length (children r s) < SHAPE_FANOUT_MAX")
    case True
    then have "add_key r s k = Some (Some (of_nat (length (sr_keys r))), mint r s k)"
      by (simp add: add_key_def None get mint_def Let_def)
    moreover have "reg_ok (mint r s k)" using reg_ok_mint [OF ok s None _ _ room] True by blast
    ultimately show ?thesis
      by (simp add: grown_def extends_def minted_def unat_of_nat_u32 [OF room]) (simp add: layout_def mint_def unat_of_nat_u32 [OF room])
  next
    case False
    then have "add_key r s k = Some (None, r)" by (auto simp: add_key_def None get)
    then show ?thesis using ok edge_None [OF ok s None] by (simp add: grown_def)
  qed
next
  case (Some c)
  then have "add_key r s k = Some (Some c, r)" by (simp add: add_key_def)
  moreover have "minted r c \<and> layout r c = layout r s @ [k]" using Some edge_iff [OF ok] by blast
  ultimately show ?thesis using ok by (simp add: grown_def)
qed

lemma shape_for_from_grown:
  assumes "reg_ok r" and "minted r s" and "length (sr_keys r) + length ks \<le> 2 ^ 32"
  shows "\<exists>x. shape_for_from r s ks = Some x \<and> grown r s ks x"
  using assms
proof (induction ks arbitrary: r s)
  case (Cons k ks)
  have room: "length (sr_keys r) < 2 ^ 32" using Cons.prems(3) by simp
  from add_key_grown [OF Cons.prems(1,2) room, of k] obtain child r1 where
    run: "add_key r s k = Some (child, r1)" and g1: "grown r s [k] (child, r1)" by auto
  show ?case
  proof (cases child)
    case None
    from g1 None have "reg_ok r1" "layout r s @ [k] \<notin> set (sr_keys r1)" by (simp_all add: grown_def)
    then have "layout r s @ k # ks \<notin> set (sr_keys r1)" using prefix_closed [of r1 "layout r s @ [k]" ks] by auto
    with run g1 None show ?thesis by (auto simp: grown_def)
  next
    case (Some c)
    with g1 have c: "reg_ok r1" "minted r1 c" "layout r1 c = layout r s @ [k]" "extends r r1"
      "length (sr_keys r1) \<le> Suc (length (sr_keys r))" by (simp_all add: grown_def)
    have "length (sr_keys r1) + length ks \<le> 2 ^ 32" using c(5) Cons.prems(3) by simp
    from Cons.IH [OF c(1,2) this] obtain x where x: "shape_for_from r1 c ks = Some x" "grown r1 c ks x" by blast
    then have "grown r s (k # ks) x"
      using c by (auto simp: grown_def intro: extends_trans split: option.splits)
    with x run Some show ?thesis by simp
  qed
qed (auto simp: grown_def)

text \<open>A layout that exists is found again without a change of the registry.\<close>

lemma shape_for_from_known:
  assumes "reg_ok r" and "minted r s" and "minted r c" and "layout r c = layout r s @ ks"
  shows "shape_for_from r s ks = Some (Some c, r)"
  using assms
proof (induction ks arbitrary: s)
  case Nil
  then show ?case using minted_layout_inj [of r c s] by simp
next
  case (Cons k ks)
  have "layout r c \<in> set (sr_keys r)" using Cons.prems(3) by (simp add: minted_def layout_def)
  then have "layout r s @ [k] \<in> set (sr_keys r)"
    using prefix_closed [OF Cons.prems(1), of "layout r s @ [k]" ks] Cons.prems(4) by simp
  then obtain d where d: "edge r s k = Some d" using edge_None [OF Cons.prems(1,2), of k] by auto
  then have "minted r d" "layout r d = layout r s @ [k]" using edge_iff [OF Cons.prems(1)] by auto
  with Cons.IH [of d] Cons.prems d show ?case by (simp add: add_key_def)
qed

lemma shape_for_grown:
  assumes "reg_ok r" and "length (sr_keys r) + length ks \<le> 2 ^ 32"
  shows "\<exists>x. shape_for r ks = Some x \<and> grown r 0 ks x" "layout r 0 = []"
  using shape_for_from_grown [OF assms(1) _ assms(2), of 0] empty_minted [OF assms(1)]
  by (auto simp: shape_for_def EMPTY_SHAPE_def)

lemma shape_for_known: "reg_ok r \<Longrightarrow> minted r c \<Longrightarrow> shape_for r (layout r c) = Some (Some c, r)"
  using shape_for_from_known [of r 0 c] empty_minted [of r] by (simp add: shape_for_def EMPTY_SHAPE_def)

section \<open>Properties\<close>

text \<open>
  The registries a virtual machine can have: the fresh one, and what adding a key to a minted shape
  makes of one, as long as no more than \<open>2 ^ 32\<close> layouts result.
\<close>

inductive registry :: "shape_registry \<Rightarrow> bool" where
  fresh: "registry registry_new"
| grow: "registry r \<Longrightarrow> minted r s \<Longrightarrow> length (sr_keys r) < 2 ^ 32 \<Longrightarrow> add_key r s k = Some (c, r') \<Longrightarrow> registry r'"

lemma registry_ok: "registry r \<Longrightarrow> reg_ok r"
proof (induction rule: registry.induct)
  case (grow r s k c r')
  then show ?case using add_key_grown [of r s k] by (auto simp: grown_def)
qed (rule reg_ok_new)

text \<open>
  C26: a shape id is its key layout.  In every registry a machine can have, interning a key list does not
  panic; unless a cap is hit it answers an id whose canonical key list is exactly that list, order
  included; ids handed out before keep their layouts; and in every later registry interning the same
  list answers the same id without changing anything, while the id is never answered for another list.
\<close>

theorem shape_id_is_layout:
  assumes "registry r" and room: "length (sr_keys r) + length ks \<le> 2 ^ 32"
  shows "\<exists>child r'. shape_for r ks = Some (child, r') \<and> extends r r' \<and> (\<forall>s. child = Some s \<longrightarrow>
      keys_of r' s = Some ks \<and> length ks \<le> SLAB_MAX_KEYS
      \<and> (\<forall>r''. registry r'' \<and> extends r' r'' \<longrightarrow> shape_for r'' ks = Some (Some s, r'')
          \<and> (\<forall>ks'. length (sr_keys r'') + length ks' \<le> 2 ^ 32 \<longrightarrow>
               (\<exists>r3. shape_for r'' ks' = Some (Some s, r3)) = (ks' = ks))))"
proof -
  note ok = registry_ok [OF assms(1)]
  obtain child r' where run: "shape_for r ks = Some (child, r')" and g: "grown r 0 ks (child, r')"
    using shape_for_grown(1) [OF ok room] by auto
  have e: "layout r 0 = []" "reg_ok r'" "extends r r'" using g empty_minted [OF ok] by (simp_all add: grown_def)
  have later: "shape_for r'' ks = Some (Some s, r'')
      \<and> (\<forall>ks'. length (sr_keys r'') + length ks' \<le> 2 ^ 32 \<longrightarrow> (\<exists>r3. shape_for r'' ks' = Some (Some s, r3)) = (ks' = ks))"
    if r'': "registry r''" "extends r' r''" and s: "child = Some s" for r'' s
  proof -
    note ok'' = registry_ok [OF r''(1)]
    have s'': "minted r'' s" "layout r'' s = ks"
      using g s e extends_minted [OF r''(2), of s] by (auto simp: grown_def)
    have known: "shape_for r'' ks = Some (Some s, r'')" using shape_for_known [OF ok'' s''(1)] s''(2) by simp
    have "ks' = ks" if "length (sr_keys r'') + length ks' \<le> 2 ^ 32" "shape_for r'' ks' = Some (Some s, r3)" for ks' r3
      using shape_for_grown(1) [OF ok'' that(1)] that(2) empty_minted [OF ok''] extends_minted [of r'' r3 s] s''
      by (auto simp: grown_def)
    with known show ?thesis by blast
  qed
  have "keys_of r' s = Some ks \<and> length ks \<le> SLAB_MAX_KEYS" if "child = Some s" for s
    using g that e layout_short [OF e(2), of s] by (auto simp: grown_def keys_of_minted)
  with run e later show ?thesis by blast
qed

theorem shape_id_is_layout_witness:
  "\<exists>child r'. shape_for registry_new [[97], [98]] = Some (child, r') \<and> child = Some 2 \<and> keys_of r' 2 = Some [[97], [98]]"
proof -
  have "shape_for registry_new [[97], [98]] = Some (Some 2, mint (mint registry_new 0 [97]) 1 [98])"
    by (simp add: shape_for_def registry_new_def EMPTY_SHAPE_def add_key_def edge_def children_def vec_get_def
        SLAB_MAX_KEYS_def SHAPE_FANOUT_MAX_def mint_def layout_def)
  with shape_id_is_layout [OF registry.fresh, of "[[97], [98]]"] show ?thesis
    by (auto simp: registry_new_def)
qed

end
