(* ===== verification/ObjectStore.thy ===== *)
theory ObjectStore
  imports Shape
begin

text \<open>
  The storage of objects and instances (\<open>ObjectStorage\<close>, \<open>ObjectCell\<close>, \<open>Instance\<close> in
  \<open>src/src/value.rs\<close>) and the insertion of a property by the virtual machine
  (\<open>vm_object_insert\<close>, \<open>vm_instance_insert\<close> in \<open>src/src/vm/run.rs\<close>).  A storage is a slab, whose
  keys are the canonical key list of a shape, or an ordered dictionary; values are of any type.

  Abstractly a storage is the list of its entries, and every operation is the operation of the
  insertion-ordered map on it.  The locale \<open>shaped\<close> states what the property code relies on in a
  container with a storage and a shape; cells and instances interpret it.

  An accessor that may panic (indexing, \<open>unreachable!\<close>) answers an option, \<open>None\<close> being the panic.
\<close>

section \<open>Storage\<close>

datatype 'v object_storage = Slab "rstring list" "'v list" | Dict "(rstring \<times> 'v) list"

definition slab_pos :: "rstring list \<Rightarrow> rstring \<Rightarrow> nat option" where
  "slab_pos keys key = find_index (\<lambda>k. k = key) keys"

fun os_len :: "'v object_storage \<Rightarrow> nat" where
  "os_len (Slab keys values) = length values"
| "os_len (Dict m) = length m"

fun os_is_empty :: "'v object_storage \<Rightarrow> bool" where
  "os_is_empty (Slab keys values) = (values = [])"
| "os_is_empty (Dict m) = (m = [])"

fun os_is_slab :: "'v object_storage \<Rightarrow> bool" where
  "os_is_slab (Slab keys values) = True"
| "os_is_slab (Dict m) = False"

fun os_get :: "'v object_storage \<Rightarrow> rstring \<Rightarrow> 'v option option" where
  "os_get (Slab keys values) key =
     (case slab_pos keys key of Some i \<Rightarrow> map_option Some (vec_get values i) | None \<Rightarrow> Some None)"
| "os_get (Dict m) key = Some (map_of m key)"

fun os_contains_key :: "'v object_storage \<Rightarrow> rstring \<Rightarrow> bool" where
  "os_contains_key (Slab keys values) key = (key \<in> set keys)"
| "os_contains_key (Dict m) key = (map_of m key \<noteq> None)"

fun os_get_index_of :: "'v object_storage \<Rightarrow> rstring \<Rightarrow> nat option" where
  "os_get_index_of (Slab keys values) key = slab_pos keys key"
| "os_get_index_of (Dict m) key = im_index_of key m"

fun os_get_index :: "'v object_storage \<Rightarrow> nat \<Rightarrow> (rstring \<times> 'v) option option" where
  "os_get_index (Slab keys values) i =
     (if i < length values then map_option (\<lambda>k. Some (k, values ! i)) (vec_get keys i) else Some None)"
| "os_get_index (Dict m) i = Some (vec_get m i)"

fun os_value_at :: "'v object_storage \<Rightarrow> nat \<Rightarrow> 'v option" where
  "os_value_at (Slab keys values) i = vec_get values i"
| "os_value_at (Dict m) i = map_option snd (vec_get m i)"

fun os_set_value_at :: "'v object_storage \<Rightarrow> nat \<Rightarrow> 'v \<Rightarrow> bool \<times> 'v object_storage" where
  "os_set_value_at (Slab keys values) i v =
     (if i < length values then (True, Slab keys (values[i := v])) else (False, Slab keys values))"
| "os_set_value_at (Dict m) i v =
     (case vec_get m i of Some (k, _) \<Rightarrow> (True, Dict (m[i := (k, v)])) | None \<Rightarrow> (False, Dict m))"

fun os_demote_to_dict :: "'v object_storage \<Rightarrow> 'v object_storage" where
  "os_demote_to_dict (Slab keys values) = Dict (index_map_of (zip keys values))"
| "os_demote_to_dict (Dict m) = Dict m"

definition os_insert :: "'v object_storage \<Rightarrow> rstring \<Rightarrow> 'v \<Rightarrow> 'v object_storage option" where
  "os_insert s key v =
     (case os_get_index_of s key of
        Some i \<Rightarrow> Some (snd (os_set_value_at s i v))
      | None \<Rightarrow> (case (if os_is_slab s then os_demote_to_dict s else s) of
          Dict m \<Rightarrow> Some (Dict (im_insert key v m))
        | Slab _ _ \<Rightarrow> None))"

definition os_shift_remove :: "'v object_storage \<Rightarrow> rstring \<Rightarrow> ('v option \<times> 'v object_storage) option" where
  "os_shift_remove s key =
     (case (if os_is_slab s then os_demote_to_dict s else s) of
        Dict m \<Rightarrow> Some (map_of m key, Dict (im_shift_remove key m))
      | Slab _ _ \<Rightarrow> None)"

fun os_entries :: "'v object_storage \<Rightarrow> (rstring \<times> 'v) list" where
  "os_entries (Slab keys values) = zip keys values"
| "os_entries (Dict m) = m"

text \<open>A visitor is a function on a state it threads through.\<close>

fun os_for_each :: "(rstring \<Rightarrow> 'v \<Rightarrow> 's \<Rightarrow> 's) \<Rightarrow> 'v object_storage \<Rightarrow> 's \<Rightarrow> 's" where
  "os_for_each f (Slab keys values) s = fold (\<lambda>(k, v). f k v) (zip keys values) s"
| "os_for_each f (Dict m) s = fold (\<lambda>(k, v). f k v) m s"

fun os_keys_snapshot :: "'v object_storage \<Rightarrow> rstring list" where
  "os_keys_snapshot (Slab keys values) = keys"
| "os_keys_snapshot (Dict m) = im_keys m"

fun os_to_index_map :: "'v object_storage \<Rightarrow> (rstring \<times> 'v) list" where
  "os_to_index_map (Slab keys values) = index_map_of (zip keys values)"
| "os_to_index_map (Dict m) = m"

section \<open>Cells and instances\<close>

record 'v object_cell =
  oc_storage :: "'v object_storage"
  oc_shape :: u32
  oc_frozen :: bool

definition cell_new :: "(rstring \<times> 'v) list \<Rightarrow> 'v object_cell" where
  "cell_new m = \<lparr>oc_storage = Dict m, oc_shape = 0, oc_frozen = False\<rparr>"

definition new_slab :: "rstring list \<Rightarrow> 'v list \<Rightarrow> u32 \<Rightarrow> 'v object_cell" where
  "new_slab keys values shape = \<lparr>oc_storage = Slab keys values, oc_shape = shape, oc_frozen = False\<rparr>"

definition cell_demote_to_dict :: "'v object_cell \<Rightarrow> 'v object_cell" where
  "cell_demote_to_dict c = c\<lparr>oc_storage := os_demote_to_dict (oc_storage c), oc_shape := 0\<rparr>"

definition cell_slab_append :: "'v object_cell \<Rightarrow> u32 \<Rightarrow> rstring list \<Rightarrow> 'v \<Rightarrow> bool \<times> 'v object_cell" where
  "cell_slab_append c child_shape child_keys v =
     (case oc_storage c of
        Slab keys values \<Rightarrow> (True, c\<lparr>oc_storage := Slab child_keys (values @ [v]), oc_shape := child_shape\<rparr>)
      | Dict _ \<Rightarrow> (False, c))"

definition cell_set_value_at :: "'v object_cell \<Rightarrow> nat \<Rightarrow> 'v \<Rightarrow> bool \<times> 'v object_cell" where
  "cell_set_value_at c i v = (case os_set_value_at (oc_storage c) i v of (b, s) \<Rightarrow> (b, c\<lparr>oc_storage := s\<rparr>))"

definition cell_insert :: "'v object_cell \<Rightarrow> rstring \<Rightarrow> 'v \<Rightarrow> 'v object_cell option" where
  "cell_insert c key v =
     (let was_slab = os_is_slab (oc_storage c); had_key = os_contains_key (oc_storage c) key in
      map_option (\<lambda>s. if was_slab \<and> \<not> had_key then c\<lparr>oc_storage := s, oc_shape := 0\<rparr> else c\<lparr>oc_storage := s\<rparr>)
        (os_insert (oc_storage c) key v))"

definition cell_shift_remove :: "'v object_cell \<Rightarrow> rstring \<Rightarrow> ('v option \<times> 'v object_cell) option" where
  "cell_shift_remove c key =
     map_option (\<lambda>(removed, s). (removed,
         if os_is_slab (oc_storage c) then c\<lparr>oc_storage := s, oc_shape := 0\<rparr> else c\<lparr>oc_storage := s\<rparr>))
       (os_shift_remove (oc_storage c) key)"

definition cell_freeze :: "'v object_cell \<Rightarrow> 'v object_cell" where
  "cell_freeze c = c\<lparr>oc_frozen := True\<rparr>"

definition slab_keys :: "'v object_cell \<Rightarrow> rstring list option" where
  "slab_keys c = (case oc_storage c of Slab keys _ \<Rightarrow> Some keys | Dict _ \<Rightarrow> None)"

text \<open>\<open>try_for_each\<close>: the first error ends the visit.\<close>

definition try_for_each :: "(rstring \<Rightarrow> 'v \<Rightarrow> (unit, 'e) result) \<Rightarrow> 'v object_cell \<Rightarrow> (unit, 'e) result" where
  "try_for_each f c =
     (case oc_storage c of
        Slab keys values \<Rightarrow> res_all (\<lambda>(k, v). f k v) (zip keys values)
      | Dict m \<Rightarrow> res_all (\<lambda>(k, v). f k v) m)"

text \<open>The value under a key in the other object of \<open>content_eq\<close>.\<close>

fun content_get :: "'v object_storage \<Rightarrow> rstring \<Rightarrow> 'v option option" where
  "content_get (Slab bkeys bvals) k =
     (case slab_pos bkeys k of Some i \<Rightarrow> map_option Some (vec_get bvals i) | None \<Rightarrow> Some None)"
| "content_get (Dict m) k = Some (map_of m k)"

fun content_all :: "('v \<Rightarrow> 'v \<Rightarrow> bool) \<Rightarrow> 'v object_storage \<Rightarrow> (rstring \<times> 'v) list \<Rightarrow> bool option" where
  "content_all veq b [] = Some True"
| "content_all veq b ((k, v) # es) = Option.bind (content_get b k) (\<lambda>bv.
     case bv of Some w \<Rightarrow> if veq w v then content_all veq b es else Some False | None \<Rightarrow> Some False)"

definition content_eq :: "('v \<Rightarrow> 'v \<Rightarrow> bool) \<Rightarrow> 'v object_cell \<Rightarrow> 'v object_cell \<Rightarrow> bool option" where
  "content_eq veq a b =
     (if os_len (oc_storage a) \<noteq> os_len (oc_storage b) then Some False
      else content_all veq (oc_storage b)
        (case oc_storage a of Slab keys values \<Rightarrow> zip keys values | Dict m \<Rightarrow> m))"

text \<open>Classes are referred to by the address of their allocation.\<close>

type_synonym class_id = nat

record 'v instance_cell =
  in_class :: class_id
  in_fields :: "'v object_storage"
  in_shape_id :: u32
  in_frozen :: bool

definition from_dict :: "class_id \<Rightarrow> (rstring \<times> 'v) list \<Rightarrow> 'v instance_cell" where
  "from_dict cls m = \<lparr>in_class = cls, in_fields = Dict m, in_shape_id = 0, in_frozen = False\<rparr>"

definition new_empty_slab :: "class_id \<Rightarrow> 'v instance_cell" where
  "new_empty_slab cls = \<lparr>in_class = cls, in_fields = Slab [] [], in_shape_id = 0, in_frozen = False\<rparr>"

definition inst_set_value_at :: "'v instance_cell \<Rightarrow> nat \<Rightarrow> 'v \<Rightarrow> bool \<times> 'v instance_cell" where
  "inst_set_value_at c i v = (case os_set_value_at (in_fields c) i v of (b, s) \<Rightarrow> (b, c\<lparr>in_fields := s\<rparr>))"

definition inst_insert :: "'v instance_cell \<Rightarrow> rstring \<Rightarrow> 'v \<Rightarrow> 'v instance_cell option" where
  "inst_insert c key v =
     (let was_slab = os_is_slab (in_fields c); had_key = os_contains_key (in_fields c) key in
      map_option (\<lambda>s. if was_slab \<and> \<not> had_key then c\<lparr>in_fields := s, in_shape_id := 0\<rparr> else c\<lparr>in_fields := s\<rparr>)
        (os_insert (in_fields c) key v))"

definition inst_slab_append :: "'v instance_cell \<Rightarrow> u32 \<Rightarrow> rstring list \<Rightarrow> 'v \<Rightarrow> bool \<times> 'v instance_cell" where
  "inst_slab_append c child_shape child_keys v =
     (case in_fields c of
        Slab keys values \<Rightarrow> (True, c\<lparr>in_fields := Slab child_keys (values @ [v]), in_shape_id := child_shape\<rparr>)
      | Dict _ \<Rightarrow> (False, c))"

definition inst_demote_to_dict :: "'v instance_cell \<Rightarrow> 'v instance_cell" where
  "inst_demote_to_dict c = c\<lparr>in_fields := os_demote_to_dict (in_fields c), in_shape_id := 0\<rparr>"

section \<open>Insertion by the virtual machine\<close>

text \<open>
  The common text of \<open>vm_object_insert\<close> and \<open>vm_instance_insert\<close>, over the accessors of the container:
  an existing key is overwritten in place; a new key on a slab follows the registry's edge, and a
  refusal by a cap demotes the container; a new key on a dictionary is inserted.
\<close>

definition shaped_insert ::
  "('c \<Rightarrow> 'v object_storage) \<Rightarrow> ('c \<Rightarrow> u32) \<Rightarrow> ('c \<Rightarrow> nat \<Rightarrow> 'v \<Rightarrow> bool \<times> 'c)
   \<Rightarrow> ('c \<Rightarrow> u32 \<Rightarrow> rstring list \<Rightarrow> 'v \<Rightarrow> bool \<times> 'c) \<Rightarrow> ('c \<Rightarrow> 'c) \<Rightarrow> ('c \<Rightarrow> rstring \<Rightarrow> 'v \<Rightarrow> 'c option)
   \<Rightarrow> shape_registry \<Rightarrow> 'c \<Rightarrow> rstring \<Rightarrow> 'v \<Rightarrow> ('c \<times> shape_registry) option" where
  "shaped_insert store shape set_value_at slab_append demote ins reg c name value =
     (case os_get_index_of (store c) name of
        Some i \<Rightarrow> Some (snd (set_value_at c i value), reg)
      | None \<Rightarrow>
         if os_is_slab (store c) then
           Option.bind (add_key reg (shape c) name) (\<lambda>(child, reg').
             case child of
               Some ch \<Rightarrow> Option.bind (keys_of reg' ch) (\<lambda>child_keys.
                 case slab_append c ch child_keys value of
                   (True, c') \<Rightarrow> Some (c', reg')
                 | (False, c') \<Rightarrow> map_option (\<lambda>c''. (c'', reg')) (ins c' name value))
             | None \<Rightarrow> map_option (\<lambda>c''. (c'', reg')) (ins (demote c) name value))
         else map_option (\<lambda>c'. (c', reg)) (ins c name value))"

definition vm_object_insert ::
  "shape_registry \<Rightarrow> 'v object_cell \<Rightarrow> rstring \<Rightarrow> 'v \<Rightarrow> ('v object_cell \<times> shape_registry) option" where
  "vm_object_insert = shaped_insert oc_storage oc_shape cell_set_value_at cell_slab_append cell_demote_to_dict cell_insert"

definition vm_instance_insert ::
  "shape_registry \<Rightarrow> 'v instance_cell \<Rightarrow> rstring \<Rightarrow> 'v \<Rightarrow> ('v instance_cell \<times> shape_registry) option" where
  "vm_instance_insert = shaped_insert in_fields in_shape_id inst_set_value_at inst_slab_append inst_demote_to_dict inst_insert"

section \<open>Storage refines the ordered map of its entries\<close>

fun storage_ok :: "'v object_storage \<Rightarrow> bool" where
  "storage_ok (Slab keys values) = (length keys = length values \<and> distinct keys)"
| "storage_ok (Dict m) = distinct (map fst m)"

lemma distinct_entries: "storage_ok s \<Longrightarrow> distinct (map fst (os_entries s))"
  by (cases s) simp_all

lemma slab_pos_entries:
  "length keys = length values \<Longrightarrow> slab_pos keys key = im_index_of key (zip keys values)"
  by (simp add: slab_pos_def im_index_of_zip)

lemma get_index_of_entries: "storage_ok s \<Longrightarrow> os_get_index_of s key = im_index_of key (os_entries s)"
  by (cases s) (simp_all add: slab_pos_entries)

lemma value_at_entries: "storage_ok s \<Longrightarrow> os_value_at s i = map_option snd (vec_get (os_entries s) i)"
  by (cases s) (simp_all add: vec_get_def)

lemma get_entries: "storage_ok s \<Longrightarrow> os_get s key = Some (map_of (os_entries s) key)"
proof (cases s)
  case (Slab keys vals)
  assume "storage_ok s"
  with Slab have len: "length keys = length vals" by simp
  show ?thesis
  proof (cases "slab_pos keys key")
    case None
    then have "map_of (zip keys vals) key = None"
      using im_index_of_None [of key "zip keys vals"] len by (simp add: slab_pos_entries map_of_eq_None_iff)
    with None Slab show ?thesis by simp
  next
    case (Some i)
    then have "i < length vals \<and> map_of (zip keys vals) key = Some (vals ! i)"
      using im_index_of_Some [of key "zip keys vals" i] len by (auto simp: slab_pos_entries)
    with Some Slab show ?thesis by (simp add: vec_get_def)
  qed
qed simp

lemma contains_key_entries: "storage_ok s \<Longrightarrow> os_contains_key s key \<longleftrightarrow> key \<in> fst ` set (os_entries s)"
proof (cases s)
  case (Slab keys vals)
  assume "storage_ok s"
  then have "set keys = fst ` set (zip keys vals)" using Slab by (metis map_fst_zip set_map storage_ok.simps(1))
  then show ?thesis by (simp add: Slab)
qed (auto simp: map_of_eq_None_iff)

lemma get_index_entries: "storage_ok s \<Longrightarrow> os_get_index s i = Some (vec_get (os_entries s) i)"
  by (cases s) (auto simp: vec_get_def)

lemma len_entries: "storage_ok s \<Longrightarrow> os_len s = length (os_entries s) \<and> os_is_empty s = (os_entries s = [])"
  by (cases s) auto

lemma snapshots_entries:
  "storage_ok s \<Longrightarrow> os_keys_snapshot s = map fst (os_entries s) \<and> os_to_index_map s = os_entries s
    \<and> os_for_each f s x = fold (\<lambda>(k, v). f k v) (os_entries s) x"
  by (cases s) (simp_all add: im_keys_def index_map_of_distinct)

lemma demote_entries:
  "storage_ok s \<Longrightarrow> os_demote_to_dict s = Dict (os_entries s)"
  by (cases s) (simp_all add: index_map_of_distinct)

lemma set_dict:
  "i < length m \<Longrightarrow> os_set_value_at (Dict m) i v = (True, Dict (m[i := (fst (m ! i), v)]))"
  by (cases "m ! i") (simp add: vec_get_def)

lemma keys_update: "i < length m \<Longrightarrow> map fst (m[i := (fst (m ! i), v)]) = map fst m"
  by (metis fst_conv list_update_id map_update nth_map)

lemma zip_update: "i < length ks \<Longrightarrow> zip ks (vs[i := v]) = (zip ks vs)[i := (ks ! i, v)]"
  by (simp add: update_zip)

lemma set_value_at_entries:
  assumes "storage_ok s" and "i < length (os_entries s)"
  shows "fst (os_set_value_at s i v) \<and> storage_ok (snd (os_set_value_at s i v))
    \<and> os_entries (snd (os_set_value_at s i v)) = (os_entries s)[i := (fst (os_entries s ! i), v)]
    \<and> os_is_slab (snd (os_set_value_at s i v)) = os_is_slab s
    \<and> os_keys_snapshot (snd (os_set_value_at s i v)) = os_keys_snapshot s"
proof (cases s)
  case (Slab keys vals)
  with assms show ?thesis by (simp add: zip_update)
next
  case (Dict m)
  with assms set_dict [of i m v] keys_update [of i m v] show ?thesis
    by (simp add: im_keys_def del: os_set_value_at.simps)
qed

lemma set_value_at_outside: "storage_ok s \<Longrightarrow> length (os_entries s) \<le> i \<Longrightarrow> os_set_value_at s i v = (False, s)"
  by (cases s) (simp_all split: option.split)

lemma set_present_entries:
  assumes "storage_ok s" and "os_get_index_of s key = Some i"
  shows "fst (os_set_value_at s i v) \<and> storage_ok (snd (os_set_value_at s i v))
    \<and> os_entries (snd (os_set_value_at s i v)) = im_insert key v (os_entries s)
    \<and> os_is_slab (snd (os_set_value_at s i v)) = os_is_slab s
    \<and> os_keys_snapshot (snd (os_set_value_at s i v)) = os_keys_snapshot s"
proof -
  have i: "im_index_of key (os_entries s) = Some i" using assms by (simp add: get_index_of_entries)
  show ?thesis
    using set_value_at_entries [OF assms(1), of i v] im_index_of_Some [OF i] im_insert_at [OF i, of v] by simp
qed

lemma insert_entries:
  assumes "storage_ok s"
  obtains s' where "os_insert s key v = Some s'" "storage_ok s'" "os_entries s' = im_insert key v (os_entries s)"
    "os_is_slab s' \<longleftrightarrow> os_is_slab s \<and> os_contains_key s key"
    "os_is_slab s' \<Longrightarrow> os_keys_snapshot s' = os_keys_snapshot s"
proof (cases "os_get_index_of s key")
  case None
  then have new: "key \<notin> fst ` set (os_entries s)" using assms by (simp add: get_index_of_entries im_index_of_None)
  have "(if os_is_slab s then os_demote_to_dict s else s) = Dict (os_entries s)"
    using assms by (cases s) (simp_all add: index_map_of_distinct)
  then have "os_insert s key v = Some (Dict (im_insert key v (os_entries s)))" by (simp add: os_insert_def None)
  then show thesis
    by (rule that) (use new assms in \<open>auto simp: distinct_entries contains_key_entries\<close>)
next
  case (Some i)
  then have "key \<in> fst ` set (os_entries s)"
    using assms im_index_of_None [of key "os_entries s"] by (auto simp: get_index_of_entries)
  then show thesis
    using set_present_entries [OF assms Some, of v] assms Some
    by (intro that [of "snd (os_set_value_at s i v)"]) (auto simp: os_insert_def contains_key_entries)
qed

lemma shift_remove_entries:
  assumes "storage_ok s"
  shows "os_shift_remove s key = Some (map_of (os_entries s) key, Dict (im_shift_remove key (os_entries s)))"
  using assms by (cases s) (simp_all add: os_shift_remove_def index_map_of_distinct)

section \<open>Containers with a shape\<close>

text \<open>A slab has the keys of its shape; a dictionary has shape 0.\<close>

fun layout_ok :: "shape_registry \<Rightarrow> u32 \<Rightarrow> 'v object_storage \<Rightarrow> bool" where
  "layout_ok reg shape (Slab keys vals) = (minted reg shape \<and> layout reg shape = keys)"
| "layout_ok reg shape (Dict m) = (shape = 0)"

lemma layout_ok_mono: "layout_ok reg shape s \<Longrightarrow> extends reg reg' \<Longrightarrow> layout_ok reg' shape s"
  by (cases s) (auto dest: extends_minted)

lemma layout_ok_slab:
  "layout_ok reg shape s \<Longrightarrow> shape \<noteq> 0 \<Longrightarrow> os_is_slab s \<and> minted reg shape \<and> layout reg shape = os_keys_snapshot s"
  by (cases s) auto

lemma layout_ok_keys:
  "layout_ok reg shape s \<Longrightarrow> os_is_slab s' = os_is_slab s \<Longrightarrow> os_keys_snapshot s' = os_keys_snapshot s
    \<Longrightarrow> layout_ok reg shape s'"
  by (cases s; cases s') auto

locale shaped =
  fixes store :: "'c \<Rightarrow> 'v object_storage" and shape :: "'c \<Rightarrow> u32"
    and set_value_at :: "'c \<Rightarrow> nat \<Rightarrow> 'v \<Rightarrow> bool \<times> 'c"
    and slab_append :: "'c \<Rightarrow> u32 \<Rightarrow> rstring list \<Rightarrow> 'v \<Rightarrow> bool \<times> 'c"
    and demote :: "'c \<Rightarrow> 'c" and ins :: "'c \<Rightarrow> rstring \<Rightarrow> 'v \<Rightarrow> 'c option"
  assumes set_store: "os_set_value_at (store c) i v = (b, s) \<Longrightarrow>
      fst (set_value_at c i v) = b \<and> store (snd (set_value_at c i v)) = s \<and> shape (snd (set_value_at c i v)) = shape c"
    and append_slab: "store c = Slab keys vals \<Longrightarrow>
      fst (slab_append c ch ks v) \<and> store (snd (slab_append c ch ks v)) = Slab ks (vals @ [v])
      \<and> shape (snd (slab_append c ch ks v)) = ch"
    and demote_store: "store (demote c) = os_demote_to_dict (store c) \<and> shape (demote c) = 0"
    and ins_store: "os_insert (store c) key v = Some s \<Longrightarrow> \<exists>c'. ins c key v = Some c' \<and> store c' = s
      \<and> shape c' = (if os_is_slab (store c) \<and> \<not> os_contains_key (store c) key then 0 else shape c)"
begin

definition ok :: "shape_registry \<Rightarrow> 'c \<Rightarrow> bool" where
  "ok reg c \<longleftrightarrow> storage_ok (store c) \<and> layout_ok reg (shape c) (store c)"

lemma ok_mono: "ok reg c \<Longrightarrow> extends reg reg' \<Longrightarrow> ok reg' c"
  by (auto simp: ok_def intro: layout_ok_mono)

lemma set_present:
  assumes "ok reg c" and "os_get_index_of (store c) key = Some i"
  shows "fst (set_value_at c i v) \<and> ok reg (snd (set_value_at c i v))
    \<and> os_entries (store (snd (set_value_at c i v))) = im_insert key v (os_entries (store c))"
proof -
  obtain b s where bs: "os_set_value_at (store c) i v = (b, s)" by (cases "os_set_value_at (store c) i v")
  have "storage_ok (store c)" "layout_ok reg (shape c) (store c)" using assms(1) by (simp_all add: ok_def)
  with set_present_entries [OF this(1) assms(2), of v] set_store [OF bs] bs show ?thesis
    by (auto simp: ok_def intro: layout_ok_keys)
qed

lemma ins_entries:
  assumes "ok reg c"
  shows "\<exists>c'. ins c key v = Some c' \<and> ok reg c' \<and> os_entries (store c') = im_insert key v (os_entries (store c))"
proof -
  have st: "storage_ok (store c)" and lay: "layout_ok reg (shape c) (store c)" using assms by (simp_all add: ok_def)
  obtain s where s: "os_insert (store c) key v = Some s" "storage_ok s" "os_entries s = im_insert key v (os_entries (store c))"
    "os_is_slab s \<longleftrightarrow> os_is_slab (store c) \<and> os_contains_key (store c) key"
    "os_is_slab s \<Longrightarrow> os_keys_snapshot s = os_keys_snapshot (store c)"
    using insert_entries [OF st, of key v] by blast
  obtain c' where c': "ins c key v = Some c'" "store c' = s"
    "shape c' = (if os_is_slab (store c) \<and> \<not> os_contains_key (store c) key then 0 else shape c)"
    using ins_store [OF s(1)] by blast
  have "layout_ok reg (shape c') s"
  proof (cases "os_is_slab s")
    case True
    then show ?thesis using s lay c'(3) by (auto intro: layout_ok_keys)
  next
    case False
    then show ?thesis using s(4) lay c'(3) by (cases s; cases "store c") auto
  qed
  with c' s show ?thesis by (auto simp: ok_def)
qed

lemma demote_ok: "ok reg c \<Longrightarrow> ok reg (demote c) \<and> os_entries (store (demote c)) = os_entries (store c)"
  using demote_store [of c] by (simp add: ok_def demote_entries distinct_entries)

text \<open>Growing a slab along the registry's edge.\<close>

lemma append_ok:
  assumes "ok reg c" and "os_is_slab (store c)" and "os_get_index_of (store c) key = None"
    and g: "grown reg (shape c) [key] (Some ch, reg')"
  shows "keys_of reg' ch = Some (layout reg' ch) \<and> fst (slab_append c ch (layout reg' ch) v)
    \<and> ok reg' (snd (slab_append c ch (layout reg' ch) v))
    \<and> os_entries (store (snd (slab_append c ch (layout reg' ch) v))) = im_insert key v (os_entries (store c))"
proof -
  obtain keys vals where slab: "store c = Slab keys vals" using assms(2) by (cases "store c") auto
  have len: "length keys = length vals" "distinct keys" "layout reg (shape c) = keys"
    using assms(1) slab by (simp_all add: ok_def)
  have new: "key \<notin> fst ` set (zip keys vals)"
    using assms(1,3) slab get_index_of_entries [of "store c" key]
    by (simp add: ok_def flip: im_index_of_None)
  then have "key \<notin> set keys" using len(1) by (metis map_fst_zip set_map)
  moreover have "minted reg' ch" "layout reg' ch = keys @ [key]" using g len(3) by (simp_all add: grown_def)
  ultimately show ?thesis
    using append_slab [OF slab, of ch "keys @ [key]" v] len new
    by (simp add: ok_def keys_of_minted slab im_insert_new)
qed

lemma insert_refines:
  assumes reg: "reg_ok reg" and room: "length (sr_keys reg) < 2 ^ 32" and c: "ok reg c"
  shows "\<exists>c' reg'. shaped_insert store shape set_value_at slab_append demote ins reg c key v = Some (c', reg')
    \<and> reg_ok reg' \<and> extends reg reg' \<and> length (sr_keys reg') \<le> Suc (length (sr_keys reg))
    \<and> ok reg' c' \<and> os_entries (store c') = im_insert key v (os_entries (store c))"
proof (cases "os_get_index_of (store c) key")
  case None
  show ?thesis
  proof (cases "os_is_slab (store c)")
    case True
    then have "minted reg (shape c)" using c by (cases "store c") (simp_all add: ok_def)
    then obtain child reg' where run: "add_key reg (shape c) key = Some (child, reg')"
      and g: "grown reg (shape c) [key] (child, reg')"
      using add_key_grown [OF reg _ room] by force
    then have reg': "reg_ok reg'" "extends reg reg'" "length (sr_keys reg') \<le> Suc (length (sr_keys reg))"
      by (simp_all add: grown_def)
    show ?thesis
    proof (cases child)
      case (Some ch)
      note app = append_ok [OF c True None g [unfolded Some], of v]
      obtain c' where "slab_append c ch (layout reg' ch) v = (True, c')"
        using app by (cases "slab_append c ch (layout reg' ch) v") auto
      with app reg' run Some None True show ?thesis by (simp add: shaped_insert_def)
    next
      case no_child: None
      have d: "ok reg' (demote c)" "os_entries (store (demote c)) = os_entries (store c)"
        using demote_ok [OF ok_mono [OF c reg'(2)]] by simp_all
      from ins_entries [OF d(1), of key v] show ?thesis
        using reg' run no_child None True d(2) by (auto simp: shaped_insert_def)
    qed
  next
    case False
    from ins_entries [OF c, of key v] show ?thesis using False None reg by (auto simp: shaped_insert_def)
  qed
next
  case (Some i)
  then show ?thesis using set_present [OF c Some, of v] reg by (simp add: shaped_insert_def)
qed

end

interpretation obj: shaped oc_storage oc_shape cell_set_value_at cell_slab_append cell_demote_to_dict cell_insert
  by unfold_locales
    (auto simp: cell_set_value_at_def cell_slab_append_def cell_demote_to_dict_def cell_insert_def Let_def)

interpretation inst: shaped in_fields in_shape_id inst_set_value_at inst_slab_append inst_demote_to_dict inst_insert
  by unfold_locales
    (auto simp: inst_set_value_at_def inst_slab_append_def inst_demote_to_dict_def inst_insert_def Let_def)

section \<open>Properties\<close>

text \<open>The invariants of a cell and of an instance in a machine with the registry \<open>reg\<close>.\<close>

abbreviation cell_ok :: "shape_registry \<Rightarrow> 'v object_cell \<Rightarrow> bool" where
  "cell_ok \<equiv> obj.ok"

abbreviation inst_ok :: "shape_registry \<Rightarrow> 'v instance_cell \<Rightarrow> bool" where
  "inst_ok \<equiv> inst.ok"

lemmas cell_ok_def = obj.ok_def
lemmas inst_ok_def = inst.ok_def

definition cell_entries :: "'v object_cell \<Rightarrow> (rstring \<times> 'v) list" where
  "cell_entries c = os_entries (oc_storage c)"

lemma cell_ok_mono: "cell_ok reg c \<Longrightarrow> extends reg reg' \<Longrightarrow> cell_ok reg' c"
  by (rule obj.ok_mono)

lemma frozen_set [simp]:
  "oc_frozen (snd (cell_set_value_at c i v)) = oc_frozen c" "in_frozen (snd (inst_set_value_at d i v)) = in_frozen d"
  "in_class (snd (inst_set_value_at d i v)) = in_class d"
  by (simp_all add: cell_set_value_at_def inst_set_value_at_def split: prod.split)

lemma cell_new_ok: "distinct (map fst m) \<Longrightarrow> cell_ok reg (cell_new m) \<and> cell_entries (cell_new m) = m"
  by (simp add: cell_ok_def cell_new_def cell_entries_def)

lemma new_slab_ok:
  "minted reg shape \<Longrightarrow> layout reg shape = keys \<Longrightarrow> distinct keys \<Longrightarrow> length vals = length keys
    \<Longrightarrow> cell_ok reg (new_slab keys vals shape) \<and> cell_entries (new_slab keys vals shape) = zip keys vals"
  by (simp add: cell_ok_def new_slab_def cell_entries_def)

lemma cell_remove_dict:
  assumes "cell_ok reg c"
  shows "\<exists>c'. cell_shift_remove c key = Some (map_of (cell_entries c) key, c') \<and> cell_ok reg c'
    \<and> cell_entries c' = im_shift_remove key (cell_entries c) \<and> oc_shape c' = 0 \<and> oc_frozen c' = oc_frozen c"
proof -
  have "storage_ok (oc_storage c)" using assms by (simp add: cell_ok_def)
  then show ?thesis
    using assms shift_remove_entries [of "oc_storage c" key] distinct_entries [of "oc_storage c"]
    by (cases "oc_storage c") (auto simp: cell_shift_remove_def cell_ok_def cell_entries_def)
qed

text \<open>
  C27: object storage implements the insertion-ordered map.  For a cell in a machine state, inserting a
  property through the machine, whether it overwrites a slot, grows the slab along the shape registry
  or demotes the cell because a cap is hit, gives the cell whose entries are the ordered map with the
  key inserted; the cell stays consistent with the registry, the registry stays consistent, and no
  step panics.
\<close>

theorem object_insert_refines:
  assumes "reg_ok reg" and "length (sr_keys reg) < 2 ^ 32" and "cell_ok reg c"
  shows "\<exists>c' reg'. vm_object_insert reg c key v = Some (c', reg') \<and> reg_ok reg' \<and> extends reg reg'
    \<and> cell_ok reg' c' \<and> cell_entries c' = im_insert key v (cell_entries c)"
  using obj.insert_refines [OF assms, of key v] unfolding vm_object_insert_def cell_entries_def by blast

theorem object_insert_refines_witness:
  "\<exists>c' reg'. vm_object_insert registry_new (new_slab [] [] 0) [120] (7 :: int) = Some (c', reg')
    \<and> cell_entries c' = [([120], 7)]"
proof -
  have "cell_ok registry_new (new_slab [] [] 0 :: int object_cell)" "cell_entries (new_slab [] [] 0 :: int object_cell) = []"
    using new_slab_ok [of registry_new 0 "[]" "[] :: int list"] empty_minted [OF reg_ok_new] by simp_all
  moreover have "length (sr_keys registry_new) < 2 ^ 32" by (simp add: registry_new_def)
  ultimately show ?thesis
    using object_insert_refines [OF reg_ok_new, of "new_slab [] [] 0" "[120]" "7 :: int"] by auto
qed

text \<open>
  C36: Reading and removing.  On a consistent cell every read accessor answers what the ordered map of
  its entries answers, in slab and in dictionary mode alike, and removal takes the key out, keeps the
  order of the others and leaves a consistent cell, so a cached slot index cannot survive it.
\<close>

theorem object_accessors_refine:
  assumes "cell_ok reg c"
  shows "os_get (oc_storage c) key = Some (map_of (cell_entries c) key)
    \<and> os_contains_key (oc_storage c) key = (key \<in> fst ` set (cell_entries c))
    \<and> os_get_index_of (oc_storage c) key = im_index_of key (cell_entries c)
    \<and> os_get_index (oc_storage c) i = Some (vec_get (cell_entries c) i)
    \<and> os_keys_snapshot (oc_storage c) = map fst (cell_entries c)
    \<and> (\<exists>c'. cell_shift_remove c key = Some (map_of (cell_entries c) key, c') \<and> cell_ok reg c'
         \<and> oc_shape c' = 0 \<and> cell_entries c' = im_shift_remove key (cell_entries c))"
proof -
  have st: "storage_ok (oc_storage c)" using assms by (simp add: cell_ok_def)
  from cell_remove_dict [OF assms, of key] obtain c' where
    c': "cell_shift_remove c key = Some (map_of (cell_entries c) key, c')" "cell_ok reg c'" "oc_shape c' = 0"
      "cell_entries c' = im_shift_remove key (cell_entries c)" by blast
  with c' show ?thesis
    by (auto simp: get_entries [OF st] contains_key_entries [OF st] get_index_of_entries [OF st]
        get_index_entries [OF st] snapshots_entries [OF st] cell_entries_def)
qed

theorem object_accessors_refine_witness:
  "os_get (oc_storage (new_slab [[120]] [7 :: int] 1)) [120] = Some (Some 7)"
proof -
  let ?reg = "mint registry_new 0 [120]"
  have "cell_ok ?reg (new_slab [[120]] [7 :: int] 1) \<and> cell_entries (new_slab [[120]] [7 :: int] 1) = [([120], 7)]"
    using new_slab_ok [of ?reg 1 "[[120]]" "[7 :: int]"]
    by (simp add: mint_def registry_new_def minted_def layout_def)
  then show ?thesis using object_accessors_refine [of ?reg "new_slab [[120]] [7 :: int] 1" "[120]"] by simp
qed

lemma content_all_iff:
  assumes "storage_ok b"
  shows "content_all veq b es = Some (\<forall>(k, v) \<in> set es. \<exists>w. map_of (os_entries b) k = Some w \<and> veq w v)"
proof (induction es)
  case (Cons e es)
  obtain k v where e: "e = (k, v)" by (cases e)
  have "content_get b k = os_get b k" by (cases b) simp_all
  then show ?case
    using Cons get_entries [OF assms, of k] by (auto simp: e split: option.split)
qed simp

text \<open>
  C37: Structural equality of two objects ignores the order of the keys and the storage modes: it
  holds exactly when the two have the same keys and equal values under each of them.
\<close>

theorem content_eq_unordered:
  assumes "cell_ok reg a" and "cell_ok reg' b"
  shows "content_eq veq a b = Some (\<forall>k. rel_option veq (map_of (cell_entries b) k) (map_of (cell_entries a) k))"
proof -
  have a: "storage_ok (oc_storage a)" and b: "storage_ok (oc_storage b)" using assms by (simp_all add: cell_ok_def)
  let ?A = "cell_entries a" and ?B = "cell_entries b"
  have dist: "distinct (map fst ?A)" "distinct (map fst ?B)" using a b by (simp_all add: cell_entries_def distinct_entries)
  have card: "card (dom (map_of ?A)) = length ?A" "card (dom (map_of ?B)) = length ?B"
    using dist by (metis distinct_card dom_map_of_conv_image_fst length_map list.set_map)+
  have len: "os_len (oc_storage a) = length ?A" "os_len (oc_storage b) = length ?B"
    using len_entries a b by (auto simp: cell_entries_def)
  have es: "(case oc_storage a of Slab keys vs \<Rightarrow> zip keys vs | Dict m \<Rightarrow> m) = ?A"
    by (cases "oc_storage a") (simp_all add: cell_entries_def)
  let ?all = "\<forall>(k, v) \<in> set ?A. \<exists>w. map_of ?B k = Some w \<and> veq w v"
  have all: "?all \<longleftrightarrow> (\<forall>k v. map_of ?A k = Some v \<longrightarrow> (\<exists>w. map_of ?B k = Some w \<and> veq w v))"
    using dist(1) by (auto simp: map_of_eq_Some_iff)
  have iff: "(length ?A = length ?B \<and> ?all) \<longleftrightarrow> (\<forall>k. rel_option veq (map_of ?B k) (map_of ?A k))"
  proof
    assume L: "length ?A = length ?B \<and> ?all"
    then have "dom (map_of ?A) \<subseteq> dom (map_of ?B)" using all unfolding dom_def by blast
    then have "dom (map_of ?A) = dom (map_of ?B)"
      using L card by (metis card_subset_eq finite_dom_map_of)
    then have "map_of ?A k = None \<longleftrightarrow> map_of ?B k = None" for k by (metis domIff)
    then have none: "map_of ?A k = None \<Longrightarrow> map_of ?B k = None" for k by simp
    show "\<forall>k. rel_option veq (map_of ?B k) (map_of ?A k)"
    proof
      fix k
      show "rel_option veq (map_of ?B k) (map_of ?A k)"
      proof (cases "map_of ?A k")
        case (Some v)
        with L all obtain w where "map_of ?B k = Some w" "veq w v" by blast
        with Some show ?thesis by simp
      qed (simp add: none)
    qed
  next
    assume R: "\<forall>k. rel_option veq (map_of ?B k) (map_of ?A k)"
    have "map_of ?A k = None \<longleftrightarrow> map_of ?B k = None" for k
      using R [rule_format, of k] by (cases "map_of ?A k"; cases "map_of ?B k") auto
    then have "dom (map_of ?A) = dom (map_of ?B)" by (simp add: dom_def)
    moreover have ?all
      unfolding all
    proof (intro allI impI)
      fix k v assume "map_of ?A k = Some v"
      with R [rule_format, of k] show "\<exists>w. map_of ?B k = Some w \<and> veq w v" by (cases "map_of ?B k") auto
    qed
    ultimately show "length ?A = length ?B \<and> ?all" using card by simp
  qed
  show ?thesis
    unfolding iff [symmetric]
    using content_all_iff [OF b, of veq ?A] len
    by (simp add: content_eq_def es cell_entries_def [of b, symmetric])
qed

theorem content_eq_unordered_witness:
  "content_eq (=) (cell_new [([97], 1 :: int), ([98], 2)]) (cell_new [([98], 2), ([97], 1)]) = Some True"
proof -
  have "cell_ok registry_new (cell_new [([97], 1 :: int), ([98], 2)])" "cell_ok registry_new (cell_new [([98], 2 :: int), ([97], 1)])"
    by (simp_all add: cell_new_ok)
  from content_eq_unordered [OF this, of "(=)"] show ?thesis
    by (simp add: option.rel_eq cell_entries_def cell_new_def)
qed

end
