(* ===== verification/InlineCache.thy ===== *)
theory InlineCache
  imports ObjectStore
begin

text \<open>
  The per-site inline caches of property access (\<open>InlineCache\<close> in \<open>src/src/vm/ic.rs\<close>) and the
  property reads and writes of the run loop that consult them (\<open>ic_get_field\<close>, \<open>vm_read_member\<close>,
  \<open>vm_set_prop\<close> in \<open>src/src/vm/run.rs\<close>).

  A cache abstracts to the finite map of its live entries.  It is sound for a property name when
  every entry maps a minted, non-empty shape to the position of the name in the layout of that
  shape; soundness survives recording and the growth of the registry, and a sound cache answers
  what the uncached lookup answers.

  Slicing the entries beyond their length would panic, so lookup and recording answer an option.
\<close>

section \<open>The cache\<close>

definition POLY_MAX :: nat where "POLY_MAX = 4"

datatype inline_cache = Cold | Mono u32 u32 | Poly "(u32 \<times> u32) list" u8 | Mega

fun ic_lookup :: "inline_cache \<Rightarrow> u32 \<Rightarrow> u32 option option" where
  "ic_lookup Cold shape = Some None"
| "ic_lookup Mega shape = Some None"
| "ic_lookup (Mono s index) shape = Some (if s = shape then Some index else None)"
| "ic_lookup (Poly entries len) shape =
     (if unat len \<le> length entries
      then Some (map_option snd (List.find (\<lambda>(s, _). s = shape) (take (unat len) entries))) else None)"

fun ic_record :: "inline_cache \<Rightarrow> u32 \<Rightarrow> u32 \<Rightarrow> inline_cache option" where
  "ic_record Cold shape index = Some (Mono shape index)"
| "ic_record (Mono s i) shape index =
     Some (if s = shape then Mono s index
           else Poly ((replicate POLY_MAX (0, 0))[0 := (s, i), 1 := (shape, index)]) 2)"
| "ic_record (Poly entries len) shape index =
     (let n = unat len in
      if length entries < n then None
      else case find_index (\<lambda>(s, _). s = shape) (take n entries) of
          Some j \<Rightarrow> Some (Poly (entries[j := (fst (entries ! j), index)]) len)
        | None \<Rightarrow> if n < POLY_MAX then Some (Poly (entries[n := (shape, index)]) (of_nat (n + 1))) else Some Mega)"
| "ic_record Mega shape index = Some Mega"

text \<open>The live entries and the well-formed caches.\<close>

fun ic_live :: "inline_cache \<Rightarrow> (u32 \<times> u32) list" where
  "ic_live (Mono s i) = [(s, i)]"
| "ic_live (Poly entries len) = take (unat len) entries"
| "ic_live _ = []"

fun ic_wf :: "inline_cache \<Rightarrow> bool" where
  "ic_wf (Poly entries len) = (length entries = POLY_MAX \<and> 2 \<le> unat len \<and> unat len \<le> POLY_MAX
     \<and> distinct (map fst (take (unat len) entries)))"
| "ic_wf _ = True"

lemma find_map_of: "map_option snd (List.find (\<lambda>(s, _). s = k) m) = map_of m k"
  by (induction m) auto

lemma ic_lookup_live: "ic_wf ic \<Longrightarrow> ic_lookup ic shape = Some (map_of (ic_live ic) shape)"
  by (cases ic) (auto simp: find_map_of)

lemma find_index_fst: "find_index (\<lambda>(s, _). s = k) m = im_index_of k m"
  by (simp add: im_index_of_def case_prod_unfold)

lemma unat_Suc_u8: "n < 255 \<Longrightarrow> unat (of_nat (n + 1) :: u8) = n + 1"
  by (subst unsigned_of_nat) (simp add: take_bit_nat_eq_self)

text \<open>
  Recording adds or replaces the entry of the shape, and gives up only when \<open>POLY_MAX\<close> other
  shapes are already tracked.
\<close>

lemma ic_record_live:
  assumes "ic_wf ic"
  obtains (add) ic' where "ic_record ic shape index = Some ic'" "ic_wf ic'" "ic' \<noteq> Mega"
      "ic_live ic' = im_insert shape index (ic_live ic)"
  | (mega) "ic_record ic shape index = Some Mega" "ic = Mega \<or> length (ic_live ic) = POLY_MAX \<and> shape \<notin> fst ` set (ic_live ic)"
proof (cases ic)
  case (Poly entries len)
  let ?n = "unat len" and ?live = "take (unat len) entries"
  have wf: "length entries = POLY_MAX" "2 \<le> ?n" "?n \<le> POLY_MAX" "distinct (map fst ?live)"
    using assms Poly by simp_all
  show thesis
  proof (cases "im_index_of shape ?live")
    case (Some j)
    note j = im_index_of_Some [OF Some]
    have lt: "j < ?n" "?live ! j = entries ! j" using j wf(1,3) by simp_all
    have upd: "take ?n (entries[j := (fst (entries ! j), index)]) = im_insert shape index ?live"
      using im_insert_at [OF Some, of index] j lt by (simp add: take_update_swap)
    show thesis
      by (rule add [of "Poly (entries[j := (fst (entries ! j), index)]) len"])
        (use wf Some upd in \<open>simp_all add: Poly Let_def find_index_fst\<close>)
  next
    case None
    then have new: "shape \<notin> fst ` set ?live" by (simp add: im_index_of_None)
    show thesis
    proof (cases "?n < POLY_MAX")
      case True
      have len': "unat (of_nat (?n + 1) :: u8) = ?n + 1"
        by (rule unat_Suc_u8) (use True in \<open>simp add: POLY_MAX_def\<close>)
      have upd: "take (?n + 1) (entries[?n := (shape, index)]) = ?live @ [(shape, index)]"
        using True wf(1) by (simp add: take_Suc_conv_app_nth)
      show thesis
        by (rule add [of "Poly (entries[?n := (shape, index)]) (of_nat (?n + 1))"])
          (use True wf new upd len' None in \<open>simp_all add: Poly Let_def find_index_fst im_insert_new del: of_nat_add of_nat_Suc\<close>)
    next
      case False
      then show thesis using wf new None by (intro mega) (simp_all add: Poly Let_def find_index_fst)
    qed
  qed
next
  case (Mono s i)
  show thesis
  proof (cases "s = shape")
    case True
    then show thesis by (intro add [of "Mono s index"]) (simp_all add: Mono)
  next
    case False
    have es: "(replicate POLY_MAX (0, 0))[0 := (s, i), 1 := (shape, index)] = [(s, i), (shape, index), (0, 0), (0, 0)]"
      by (simp add: POLY_MAX_def numeral_eq_Suc)
    show thesis
      by (rule add [of "Poly [(s, i), (shape, index), (0, 0), (0, 0)] 2"])
        (use False es in \<open>simp_all add: Mono POLY_MAX_def\<close>)
  qed
next
  case Cold
  then show thesis by (intro add [of "Mono shape index"]) simp_all
qed (intro mega; simp)

section \<open>Soundness for a property name\<close>

definition ic_sound :: "shape_registry \<Rightarrow> rstring \<Rightarrow> inline_cache \<Rightarrow> bool" where
  "ic_sound reg name ic \<longleftrightarrow> ic_wf ic \<and> (\<forall>(s, i) \<in> set (ic_live ic).
     s \<noteq> 0 \<and> minted reg s \<and> slab_pos (layout reg s) name = Some (unat i))"

lemma ic_sound_cold [simp]: "ic_sound reg name Cold" "ic_sound reg name Mega"
  by (simp_all add: ic_sound_def)

lemma ic_sound_mono: "ic_sound reg name ic \<Longrightarrow> extends reg reg' \<Longrightarrow> ic_sound reg' name ic"
  by (fastforce simp: ic_sound_def dest: extends_minted)

lemma set_im_insert: "set (im_insert k v m) \<subseteq> insert (k, v) (set m)"
  by (induction k v m rule: im_insert.induct) auto

lemma ic_record_sound:
  assumes "ic_sound reg name ic" and "shape \<noteq> 0" and "minted reg shape"
    and "slab_pos (layout reg shape) name = Some (unat index)"
  shows "\<exists>ic'. ic_record ic shape index = Some ic' \<and> ic_sound reg name ic'"
proof -
  have "ic_wf ic" using assms(1) by (simp add: ic_sound_def)
  then show ?thesis
  proof (cases rule: ic_record_live [where shape = shape and index = index])
    case (add ic')
    moreover have "set (ic_live ic') \<subseteq> insert (shape, index) (set (ic_live ic))"
      using set_im_insert add(4) by metis
    ultimately show ?thesis using assms unfolding ic_sound_def by fastforce
  qed simp
qed

text \<open>A position fits the \<open>u32\<close> it is cast to, because layouts are short.\<close>

lemma slab_pos_u32:
  assumes "reg_ok reg" and "minted reg s" and "slab_pos (layout reg s) name = Some i"
  shows "unat (of_nat i :: u32) = i"
proof -
  have "i < 64"
    using find_index_Some [OF assms(3) [unfolded slab_pos_def]] layout_short [OF assms(1,2)]
    by (simp add: SLAB_MAX_KEYS_def)
  then show ?thesis by (intro unat_of_nat_u32) simp
qed

section \<open>Reading a field\<close>

text \<open>
  One arm of \<open>ic_get_field\<close>, over the storage and the shape of the receiver: the value found and the
  cache to store back when one was recorded.
\<close>

definition ic_read ::
  "inline_cache \<Rightarrow> u32 \<Rightarrow> 'v object_storage \<Rightarrow> rstring \<Rightarrow> ('v option \<times> inline_cache option) option" where
  "ic_read ic shape store name =
     Option.bind (ic_lookup ic shape) (\<lambda>hit.
       case Option.bind hit (\<lambda>idx. os_value_at store (unat idx)) of
         Some v \<Rightarrow> Some (Some v, None)
       | None \<Rightarrow>
          (case os_get_index_of store name of
             Some idx \<Rightarrow> map_option (\<lambda>ic'. (os_value_at store idx, Some ic')) (ic_record ic shape (of_nat idx))
           | None \<Rightarrow> Some (None, None)))"

lemma ic_read_correct:
  assumes reg: "reg_ok reg" and ic: "ic_sound reg name ic" and shape: "shape \<noteq> 0"
    and st: "storage_ok store" and lay: "layout_ok reg shape store"
  shows "\<exists>ic'. ic_read ic shape store name = Some (map_of (os_entries store) name, ic')
    \<and> (\<forall>c. ic' = Some c \<longrightarrow> ic_sound reg name c)"
proof -
  have slab: "os_is_slab store" "minted reg shape" "layout reg shape = os_keys_snapshot store"
    using layout_ok_slab [OF lay shape] by simp_all
  have pos: "os_get_index_of store name = slab_pos (layout reg shape) name"
    using slab(1,3) by (cases store) simp_all
  have val: "os_value_at store i = map_of (os_entries store) name \<and> map_of (os_entries store) name \<noteq> None"
    if "slab_pos (layout reg shape) name = Some i" for i
    using that im_index_of_Some [of name "os_entries store" i]
    by (simp add: value_at_entries [OF st] get_index_of_entries [OF st] flip: pos)
  have lookup: "ic_lookup ic shape = Some (map_of (ic_live ic) shape)"
    using ic by (simp add: ic_sound_def ic_lookup_live)
  show ?thesis
  proof (cases "map_of (ic_live ic) shape")
    case (Some idx)
    then have "slab_pos (layout reg shape) name = Some (unat idx)"
      using ic map_of_SomeD by (fastforce simp: ic_sound_def)
    from val [OF this] lookup Some show ?thesis by (auto simp: ic_read_def)
  next
    case None
    show ?thesis
    proof (cases "slab_pos (layout reg shape) name")
      case no: None
      then have "map_of (os_entries store) name = None"
        using pos get_index_of_entries [OF st, of name] by (simp add: im_index_of_None map_of_eq_None_iff)
      with no lookup None show ?thesis by (simp add: ic_read_def pos)
    next
      case (Some i)
      obtain ic' where "ic_record ic shape (of_nat i) = Some ic'" "ic_sound reg name ic'"
        using ic_record_sound [OF ic shape slab(2), of "of_nat i"] slab_pos_u32 [OF reg slab(2) Some] Some by auto
      with Some lookup None val [OF Some] show ?thesis by (simp add: ic_read_def pos)
    qed
  qed
qed

end
