(* ===== verification/PropAccess.thy ===== *)
theory PropAccess
  imports InlineCache
begin

text \<open>
  Property reads and writes of the run loop: \<open>GET_PROP\<close> with \<open>ic_get_field\<close> and \<open>vm_read_member\<close>,
  \<open>SET_PROP\<close> with \<open>vm_set_prop\<close>, \<open>SET_INDEX\<close> on an object (\<open>src/src/vm/run.rs\<close>), the frozen check
  (\<open>src/src/interp.rs\<close>) and the schema test (\<open>src/src/stdlib/schema.rs\<close>).  Every operation takes the
  \<open>specialize\<close> switch: off, the inline caches are not consulted.

  A receiver is an object, an instance or any other value.  What the properties do not depend on is
  the record \<open>host\<close>: the string test of a value, the methods a class binds, the field contracts of a
  class, and the behaviour of the other receivers.

  An abstract receiver is the ordered map of its entries.  Every operation, with the switch on or
  off, refines the operation on abstract receivers and keeps the caches sound.
\<close>

section \<open>Receivers\<close>

datatype ('v, 'o) receiver = RObject "'v object_cell" | RInstance "'v instance_cell" | ROther 'o

datatype 'e prop_error = CannotMutateFrozen string | ObjectIndexNotString | NotIndexAssignable | HostError 'e

record ('v, 'o, 'e) host =
  h_as_str :: "'v \<Rightarrow> rstring option"
  h_nil :: 'v
  h_is_nil :: "'o \<Rightarrow> bool"
  h_compiled :: "class_id \<Rightarrow> rstring \<Rightarrow> 'v option"
  h_method :: "class_id \<Rightarrow> rstring \<Rightarrow> 'v option"
  h_contract :: "class_id \<Rightarrow> rstring \<Rightarrow> 'v \<Rightarrow> (unit, 'e) result"
  h_frozen_other :: "'o \<Rightarrow> string option"
  h_read_other :: "'o \<Rightarrow> rstring \<Rightarrow> ('v, 'e) result"
  h_set_other :: "'o \<Rightarrow> rstring \<Rightarrow> 'v \<Rightarrow> ('v, 'e) result"
  h_index_other :: "'o \<Rightarrow> 'v \<Rightarrow> 'v \<Rightarrow> ('v \<times> 'o, 'e) result"
  h_freeze_other :: "'o \<Rightarrow> 'o"

fun host_err :: "('a, 'e) result \<Rightarrow> ('a, 'e prop_error) result" where
  "host_err (Ok x) = Ok x"
| "host_err (Err e) = Err (HostError e)"
| "host_err Panic = Panic"

text \<open>ASCII codes of a literal of the source.\<close>

definition lit :: "string \<Rightarrow> rstring" where
  "lit s = map (\<lambda>c. of_nat (of_char c)) s"

definition SCHEMA_KINDS :: "rstring list" where
  "SCHEMA_KINDS = map lit [''string'', ''number'', ''bool'', ''nil'', ''any'', ''literal'', ''array'', ''object'',
     ''map'', ''optional'', ''union'', ''oneOf'']"

definition schema_kind :: "('v, 'o, 'e) host \<Rightarrow> 'v object_cell \<Rightarrow> rstring option option" where
  "schema_kind h c = map_option (\<lambda>v. Option.bind v (h_as_str h)) (os_get (oc_storage c) (lit ''__kind''))"

definition is_schema_value :: "('v, 'o, 'e) host \<Rightarrow> 'v object_cell \<Rightarrow> bool option" where
  "is_schema_value h c =
     map_option (\<lambda>kind. case kind of Some k \<Rightarrow> k \<in> set SCHEMA_KINDS | None \<Rightarrow> False) (schema_kind h c)"

fun frozen_kind :: "('v, 'o, 'e) host \<Rightarrow> ('v, 'o) receiver \<Rightarrow> string option" where
  "frozen_kind h (RObject c) = (if oc_frozen c then Some ''object'' else None)"
| "frozen_kind h (RInstance i) = (if in_frozen i then Some ''instance'' else None)"
| "frozen_kind h (ROther x) = h_frozen_other h x"

definition check_not_frozen :: "('v, 'o, 'e) host \<Rightarrow> ('v, 'o) receiver \<Rightarrow> (unit, 'e prop_error) result" where
  "check_not_frozen h r = (case frozen_kind h r of Some kind \<Rightarrow> Err (CannotMutateFrozen kind) | None \<Rightarrow> Ok ())"

section \<open>The caches of a chunk\<close>

type_synonym field_ics = "nat \<Rightarrow> inline_cache option"

definition field_ic :: "field_ics \<Rightarrow> nat \<Rightarrow> inline_cache" where
  "field_ic ics off = (case ics off of Some ic \<Rightarrow> ic | None \<Rightarrow> Cold)"

definition set_field_ic :: "field_ics \<Rightarrow> nat \<Rightarrow> inline_cache \<Rightarrow> field_ics" where
  "set_field_ic ics off ic = ics(off \<mapsto> ic)"

text \<open>Writing back the recorded cache of a read, if any.\<close>

definition note_ic :: "field_ics \<Rightarrow> nat \<Rightarrow> inline_cache option \<Rightarrow> field_ics" where
  "note_ic ics off ic = (case ic of Some c \<Rightarrow> set_field_ic ics off c | None \<Rightarrow> ics)"

section \<open>Reading\<close>

definition ic_get_field ::
  "('v, 'o, 'e) host \<Rightarrow> field_ics \<Rightarrow> nat \<Rightarrow> ('v, 'o) receiver \<Rightarrow> rstring \<Rightarrow> ('v option \<times> field_ics) option" where
  "ic_get_field h ics off r name =
     (case r of
        RObject c \<Rightarrow>
          if oc_shape c = 0 then Some (None, ics)
          else Option.bind (is_schema_value h c) (\<lambda>schema.
            if schema then Some (None, ics)
            else map_option (\<lambda>(v, ic). (v, note_ic ics off ic))
              (ic_read (field_ic ics off) (oc_shape c) (oc_storage c) name))
      | RInstance i \<Rightarrow>
          if in_shape_id i = 0 then Some (None, ics)
          else map_option (\<lambda>(v, ic). (v, note_ic ics off ic))
              (ic_read (field_ic ics off) (in_shape_id i) (in_fields i) name)
      | ROther _ \<Rightarrow> Some (None, ics))"

definition or_nil :: "('v, 'o, 'e) host \<Rightarrow> 'v option \<Rightarrow> 'v" where
  "or_nil h v = (case v of Some x \<Rightarrow> x | None \<Rightarrow> h_nil h)"

text \<open>The shared member read of the interpreter on objects and instances.\<close>

fun read_member :: "('v, 'o, 'e) host \<Rightarrow> ('v, 'o) receiver \<Rightarrow> rstring \<Rightarrow> ('v, 'e prop_error) result" where
  "read_member h (RObject c) name = res_bind (or_panic (os_get (oc_storage c) name)) (\<lambda>v. Ok (or_nil h v))"
| "read_member h (RInstance i) name = res_bind (or_panic (os_get (in_fields i) name)) (\<lambda>v.
     case v of Some x \<Rightarrow> Ok x | None \<Rightarrow> Ok (or_nil h (h_method h (in_class i) name)))"
| "read_member h (ROther x) name = host_err (h_read_other h x name)"

definition vm_read_member :: "('v, 'o, 'e) host \<Rightarrow> ('v, 'o) receiver \<Rightarrow> rstring \<Rightarrow> ('v, 'e prop_error) result" where
  "vm_read_member h r name =
     (case r of
        RInstance i \<Rightarrow>
          if os_contains_key (in_fields i) name then read_member h r name
          else (case h_compiled h (in_class i) name of Some bm \<Rightarrow> Ok bm | None \<Rightarrow> read_member h r name)
      | _ \<Rightarrow> read_member h r name)"

definition get_prop ::
  "('v, 'o, 'e) host \<Rightarrow> bool \<Rightarrow> bool \<Rightarrow> field_ics \<Rightarrow> nat \<Rightarrow> ('v, 'o) receiver \<Rightarrow> rstring
   \<Rightarrow> ('v \<times> field_ics, 'e prop_error) result" where
  "get_prop h opt specialize ics off r name =
     (if opt \<and> (case r of ROther x \<Rightarrow> h_is_nil h x | _ \<Rightarrow> False) then Ok (h_nil h, ics)
      else res_bind (or_panic (if specialize then ic_get_field h ics off r name else Some (None, ics))) (\<lambda>(cached, ics').
        case cached of
          Some v \<Rightarrow> Ok (v, ics')
        | None \<Rightarrow> res_bind (vm_read_member h r name) (\<lambda>v. Ok (v, ics'))))"

section \<open>Writing\<close>

text \<open>Recording the position of the field just written, if the receiver has one.\<close>

definition record_field :: "field_ics \<Rightarrow> nat \<Rightarrow> u32 \<Rightarrow> 'v object_storage \<Rightarrow> rstring \<Rightarrow> field_ics option" where
  "record_field ics off shape store name =
     (case os_get_index_of store name of
        Some idx \<Rightarrow> map_option (set_field_ic ics off) (ic_record (field_ic ics off) shape (of_nat idx))
      | None \<Rightarrow> Some ics)"

text \<open>The write through a cached slot: the cell written, or nothing on a miss.\<close>

definition cached_write ::
  "('v, 'o, 'e) host \<Rightarrow> bool \<Rightarrow> field_ics \<Rightarrow> nat \<Rightarrow> 'v object_cell \<Rightarrow> 'v \<Rightarrow> 'v object_cell option option" where
  "cached_write h specialize ics off c value =
     (if specialize \<and> oc_shape c \<noteq> 0 then
        Option.bind (is_schema_value h c) (\<lambda>schema.
          if schema then Some None
          else map_option (\<lambda>hit. Option.bind hit (\<lambda>idx.
              case cell_set_value_at c (unat idx) value of (True, c') \<Rightarrow> Some c' | (False, _) \<Rightarrow> None))
            (ic_lookup (field_ic ics off) (oc_shape c)))
      else Some None)"

definition record_object ::
  "('v, 'o, 'e) host \<Rightarrow> bool \<Rightarrow> field_ics \<Rightarrow> nat \<Rightarrow> 'v object_cell \<Rightarrow> rstring \<Rightarrow> field_ics option" where
  "record_object h specialize ics off c name =
     (if specialize \<and> oc_shape c \<noteq> 0 then
        Option.bind (is_schema_value h c) (\<lambda>schema.
          if schema then Some ics else record_field ics off (oc_shape c) (oc_storage c) name)
      else Some ics)"

definition vm_set_prop ::
  "('v, 'o, 'e) host \<Rightarrow> bool \<Rightarrow> shape_registry \<Rightarrow> field_ics \<Rightarrow> nat \<Rightarrow> ('v, 'o) receiver \<Rightarrow> rstring \<Rightarrow> 'v
   \<Rightarrow> ('v \<times> ('v, 'o) receiver \<times> shape_registry \<times> field_ics, 'e prop_error) result" where
  "vm_set_prop h specialize reg ics off r name value =
     res_bind (check_not_frozen h r) (\<lambda>_.
       case r of
         RObject c \<Rightarrow>
           res_bind (or_panic (cached_write h specialize ics off c value)) (\<lambda>written.
             case written of
               Some c' \<Rightarrow> Ok (value, RObject c', reg, ics)
             | None \<Rightarrow>
                 res_bind (or_panic (vm_object_insert reg c name value)) (\<lambda>(c', reg').
                 res_bind (or_panic (record_object h specialize ics off c' name)) (\<lambda>ics'.
                 Ok (value, RObject c', reg', ics'))))
       | RInstance i \<Rightarrow>
           res_bind (host_err (h_contract h (in_class i) name value)) (\<lambda>_.
           res_bind (or_panic (vm_instance_insert reg i name value)) (\<lambda>(i', reg').
           res_bind (or_panic (if specialize \<and> in_shape_id i' \<noteq> 0
             then record_field ics off (in_shape_id i') (in_fields i') name else Some ics)) (\<lambda>ics'.
           Ok (value, RInstance i', reg', ics'))))
       | ROther x \<Rightarrow> res_bind (host_err (h_set_other h x name value)) (\<lambda>v. Ok (v, ROther x, reg, ics)))"

text \<open>\<open>SET_INDEX\<close> on an object.\<close>

definition set_index_object ::
  "('v, 'o, 'e) host \<Rightarrow> shape_registry \<Rightarrow> 'v object_cell \<Rightarrow> 'v \<Rightarrow> 'v
   \<Rightarrow> ('v \<times> 'v object_cell \<times> shape_registry, 'e prop_error) result" where
  "set_index_object h reg c idx value =
     (if oc_frozen c then Err (CannotMutateFrozen ''object'')
      else case h_as_str h idx of
        Some key \<Rightarrow> res_bind (or_panic (vm_object_insert reg c key value)) (\<lambda>(c', reg'). Ok (value, c', reg'))
      | None \<Rightarrow> Err ObjectIndexNotString)"

text \<open>
  Every other receiver goes to \<open>index_set\<close>: an instance is refused, the rest (the element of an
  array among them) is the host's.
\<close>

definition index_set_other ::
  "('v, 'o, 'e) host \<Rightarrow> ('v, 'o) receiver \<Rightarrow> 'v \<Rightarrow> 'v \<Rightarrow> ('v \<times> ('v, 'o) receiver, 'e prop_error) result" where
  "index_set_other h r idx value =
     (case frozen_kind h r of
        Some kind \<Rightarrow> Err (CannotMutateFrozen kind)
      | None \<Rightarrow>
          (case r of
             ROther x \<Rightarrow> res_bind (host_err (h_index_other h x idx value)) (\<lambda>(w, x'). Ok (w, ROther x'))
           | _ \<Rightarrow> Err NotIndexAssignable))"

section \<open>Abstract receivers\<close>

datatype ('v, 'o) areceiver =
    AObject "(rstring \<times> 'v) list" bool
  | AInstance class_id "(rstring \<times> 'v) list" bool
  | AOther 'o

fun abs_recv :: "('v, 'o) receiver \<Rightarrow> ('v, 'o) areceiver" where
  "abs_recv (RObject c) = AObject (cell_entries c) (oc_frozen c)"
| "abs_recv (RInstance i) = AInstance (in_class i) (os_entries (in_fields i)) (in_frozen i)"
| "abs_recv (ROther x) = AOther x"

fun abs_get :: "('v, 'o, 'e) host \<Rightarrow> bool \<Rightarrow> ('v, 'o) areceiver \<Rightarrow> rstring \<Rightarrow> ('v, 'e prop_error) result" where
  "abs_get h opt (AObject es frozen) name = Ok (or_nil h (map_of es name))"
| "abs_get h opt (AInstance cls es frozen) name =
     (case map_of es name of
        Some v \<Rightarrow> Ok v
      | None \<Rightarrow> (case h_compiled h cls name of Some bm \<Rightarrow> Ok bm | None \<Rightarrow> Ok (or_nil h (h_method h cls name))))"
| "abs_get h opt (AOther x) name =
     (if opt \<and> h_is_nil h x then Ok (h_nil h) else host_err (h_read_other h x name))"

fun abs_set :: "('v, 'o, 'e) host \<Rightarrow> ('v, 'o) areceiver \<Rightarrow> rstring \<Rightarrow> 'v \<Rightarrow> ('v \<times> ('v, 'o) areceiver, 'e prop_error) result" where
  "abs_set h (AObject es frozen) name v =
     (if frozen then Err (CannotMutateFrozen ''object'') else Ok (v, AObject (im_insert name v es) frozen))"
| "abs_set h (AInstance cls es frozen) name v =
     (if frozen then Err (CannotMutateFrozen ''instance'')
      else res_bind (host_err (h_contract h cls name v)) (\<lambda>_. Ok (v, AInstance cls (im_insert name v es) frozen)))"
| "abs_set h (AOther x) name v =
     (case h_frozen_other h x of
        Some kind \<Rightarrow> Err (CannotMutateFrozen kind)
      | None \<Rightarrow> res_bind (host_err (h_set_other h x name v)) (\<lambda>w. Ok (w, AOther x)))"

fun recv_ok :: "shape_registry \<Rightarrow> ('v, 'o) receiver \<Rightarrow> bool" where
  "recv_ok reg (RObject c) = cell_ok reg c"
| "recv_ok reg (RInstance i) = inst_ok reg i"
| "recv_ok reg (ROther x) = True"

lemma recv_ok_mono: "recv_ok reg r \<Longrightarrow> extends reg reg' \<Longrightarrow> recv_ok reg' r"
  by (cases r) (simp_all add: obj.ok_mono inst.ok_mono)

text \<open>The name a property site reads or writes is the constant its operand refers to.\<close>

definition ics_sound :: "shape_registry \<Rightarrow> (nat \<Rightarrow> rstring) \<Rightarrow> field_ics \<Rightarrow> bool" where
  "ics_sound reg site ics \<longleftrightarrow> (\<forall>off ic. ics off = Some ic \<longrightarrow> ic_sound reg (site off) ic)"

lemma ics_sound_mono: "ics_sound reg site ics \<Longrightarrow> extends reg reg' \<Longrightarrow> ics_sound reg' site ics"
  by (auto simp: ics_sound_def intro: ic_sound_mono)

lemma ics_sound_at: "ics_sound reg site ics \<Longrightarrow> ic_sound reg (site off) (field_ic ics off)"
  by (auto simp: ics_sound_def field_ic_def split: option.split)

lemma ics_sound_set: "ics_sound reg site ics \<Longrightarrow> ic_sound reg (site off) ic \<Longrightarrow> ics_sound reg site (set_field_ic ics off ic)"
  by (simp add: ics_sound_def set_field_ic_def)

lemma ics_sound_empty: "ics_sound reg site Map.empty"
  by (simp add: ics_sound_def)

lemma is_schema_total: "cell_ok reg c \<Longrightarrow> \<exists>b. is_schema_value h c = Some b"
  by (simp add: is_schema_value_def schema_kind_def cell_ok_def get_entries)

section \<open>Refinement of reads\<close>

lemma read_note:
  assumes "reg_ok reg" and "ics_sound reg site ics" and "shape \<noteq> 0" and "storage_ok store" and "layout_ok reg shape store"
  shows "\<exists>ics'. map_option (\<lambda>(v, ic). (v, note_ic ics off ic)) (ic_read (field_ic ics off) shape store (site off))
      = Some (map_of (os_entries store) (site off), ics') \<and> ics_sound reg site ics'"
proof -
  obtain ic' where "ic_read (field_ic ics off) shape store (site off) = Some (map_of (os_entries store) (site off), ic')"
    "\<forall>c. ic' = Some c \<longrightarrow> ic_sound reg (site off) c"
    using ic_read_correct [OF assms(1) ics_sound_at [OF assms(2)] assms(3-5)] by blast
  then show ?thesis using assms(2) ics_sound_set by (cases ic') (auto simp: note_ic_def)
qed

text \<open>The field cache answers a field of the receiver or nothing.\<close>

lemma ic_get_field_correct:
  assumes "reg_ok reg" and "recv_ok reg r" and "ics_sound reg site ics"
  shows "\<exists>v ics'. ic_get_field h ics off r (site off) = Some (v, ics') \<and> ics_sound reg site ics'
    \<and> (\<forall>x. v = Some x \<longrightarrow> (case r of RObject c \<Rightarrow> map_of (cell_entries c) (site off) = Some x
         | RInstance i \<Rightarrow> map_of (os_entries (in_fields i)) (site off) = Some x | ROther _ \<Rightarrow> False))"
proof (cases r)
  case (RObject c)
  with assms(2) have c: "cell_ok reg c" by simp
  obtain b where "is_schema_value h c = Some b" using is_schema_total [OF c] by blast
  then show ?thesis
    using assms c RObject read_note [OF assms(1,3), of "oc_shape c" "oc_storage c" off]
    by (auto simp: ic_get_field_def cell_ok_def cell_entries_def)
next
  case (RInstance i)
  then show ?thesis
    using assms read_note [OF assms(1,3), of "in_shape_id i" "in_fields i" off]
    by (auto simp: ic_get_field_def inst_ok_def)
qed (use assms in \<open>simp add: ic_get_field_def\<close>)

lemma vm_read_member_abs:
  assumes "recv_ok reg r"
  shows "vm_read_member h r name = abs_get h False (abs_recv r) name"
proof (cases r)
  case (RInstance i)
  with assms have st: "storage_ok (in_fields i)" by (simp add: inst_ok_def)
  have "os_contains_key (in_fields i) name \<longleftrightarrow> map_of (os_entries (in_fields i)) name \<noteq> None"
    by (simp add: contains_key_entries [OF st] map_of_eq_None_iff)
  then show ?thesis
    by (auto simp: RInstance vm_read_member_def get_entries [OF st] split: option.split)
qed (use assms in \<open>simp_all add: vm_read_member_def cell_ok_def get_entries cell_entries_def\<close>)

lemma get_prop_abs:
  assumes "reg_ok reg" and "recv_ok reg r" and "ics_sound reg site ics"
  shows "\<exists>ics'. ics_sound reg site ics' \<and> get_prop h opt specialize ics off r (site off)
    = res_bind (abs_get h opt (abs_recv r) (site off)) (\<lambda>v. Ok (v, ics'))"
proof (cases "opt \<and> (case r of ROther x \<Rightarrow> h_is_nil h x | _ \<Rightarrow> False)")
  case True
  then show ?thesis using assms(3) by (cases r) (auto simp: get_prop_def)
next
  case False
  then have abs: "abs_get h opt (abs_recv r) (site off) = vm_read_member h r (site off)"
    unfolding vm_read_member_abs [OF assms(2)] by (cases r) auto
  obtain v ics' where run: "(if specialize then ic_get_field h ics off r (site off) else Some (None, ics)) = Some (v, ics')"
    and sound: "ics_sound reg site ics'"
    and v: "\<And>x. v = Some x \<Longrightarrow> (case r of RObject c \<Rightarrow> map_of (cell_entries c) (site off) = Some x
      | RInstance i \<Rightarrow> map_of (os_entries (in_fields i)) (site off) = Some x | ROther _ \<Rightarrow> False)"
    using ic_get_field_correct [OF assms, of h off] assms(3) by (cases specialize) auto
  have "get_prop h opt specialize ics off r (site off) = res_bind (vm_read_member h r (site off)) (\<lambda>w. Ok (w, ics'))"
  proof (cases v)
    case (Some x)
    have "vm_read_member h r (site off) = Ok x"
      using v [OF Some] unfolding vm_read_member_abs [OF assms(2)] by (cases r) (simp_all add: or_nil_def)
    with Some show ?thesis unfolding get_prop_def if_not_P [OF False] run by simp
  next
    case None
    then show ?thesis unfolding get_prop_def if_not_P [OF False] run by simp
  qed
  with sound abs show ?thesis by auto
qed

section \<open>Refinement of writes\<close>

lemma insert_keeps_tags:
  "vm_object_insert reg c name v = Some (c', reg') \<Longrightarrow> oc_frozen c' = oc_frozen c"
  "vm_instance_insert reg i name v = Some (i', reg') \<Longrightarrow> in_frozen i' = in_frozen i \<and> in_class i' = in_class i"
  unfolding vm_object_insert_def vm_instance_insert_def shaped_insert_def
  by (auto simp: cell_insert_def inst_insert_def cell_demote_to_dict_def inst_demote_to_dict_def
      cell_slab_append_def inst_slab_append_def Let_def
      split: option.splits if_splits bind_splits prod.splits bool.splits object_storage.splits)

lemma record_field_sound:
  assumes reg: "reg_ok reg" and ics: "ics_sound reg site ics" and shape: "shape \<noteq> 0" and lay: "layout_ok reg shape store"
  shows "\<exists>ics'. record_field ics off shape store (site off) = Some ics' \<and> ics_sound reg site ics'"
proof (cases "os_get_index_of store (site off)")
  case (Some idx)
  have slab: "minted reg shape" "os_get_index_of store (site off) = slab_pos (layout reg shape) (site off)"
    using layout_ok_slab [OF lay shape] by (auto, cases store) simp_all
  with Some have "slab_pos (layout reg shape) (site off) = Some (unat (of_nat idx :: u32))"
    using slab_pos_u32 [OF reg slab(1)] by simp
  from ic_record_sound [OF ics_sound_at [OF ics] shape slab(1) this] Some show ?thesis
    using ics_sound_set [OF ics] by (auto simp: record_field_def)
qed (use ics in \<open>simp add: record_field_def\<close>)

text \<open>A hit of the cache writes the slot of the name, as an insertion of the present key would.\<close>

lemma cached_write_correct:
  assumes reg: "reg_ok reg" and c: "cell_ok reg c" and ics: "ics_sound reg site ics"
  shows "\<exists>w. cached_write h specialize ics off c v = Some w \<and> (\<forall>c'. w = Some c' \<longrightarrow> cell_ok reg c'
    \<and> cell_entries c' = im_insert (site off) v (cell_entries c) \<and> oc_frozen c' = oc_frozen c)"
proof (cases "specialize \<and> oc_shape c \<noteq> 0")
  case True
  obtain b where schema: "is_schema_value h c = Some b" using is_schema_total [OF c] by blast
  let ?ic = "field_ic ics off"
  have sound: "ic_sound reg (site off) ?ic" by (rule ics_sound_at [OF ics])
  then have look: "ic_lookup ?ic (oc_shape c) = Some (map_of (ic_live ?ic) (oc_shape c))"
    by (simp add: ic_sound_def ic_lookup_live)
  show ?thesis
  proof (cases "map_of (ic_live ?ic) (oc_shape c)")
    case (Some idx)
    have lay: "layout_ok reg (oc_shape c) (oc_storage c)" using c by (simp add: cell_ok_def)
    have "slab_pos (layout reg (oc_shape c)) (site off) = Some (unat idx)"
      using sound Some map_of_SomeD by (fastforce simp: ic_sound_def)
    then have "os_get_index_of (oc_storage c) (site off) = Some (unat idx)"
      using layout_ok_slab [OF lay] True by (cases "oc_storage c") simp_all
    note set = obj.set_present [OF c this, of v] frozen_set(1) [of c "unat idx" v]
    obtain c' where c': "cell_set_value_at c (unat idx) v = (True, c')"
      using set(1) by (cases "cell_set_value_at c (unat idx) v") auto
    show ?thesis using set True schema look Some c' by (auto simp: cached_write_def cell_entries_def)
  qed (use True schema look in \<open>auto simp: cached_write_def\<close>)
qed (auto simp: cached_write_def)

lemma object_insert_abs:
  assumes "reg_ok reg" and "length (sr_keys reg) < 2 ^ 32" and "cell_ok reg c"
  obtains c' reg' where "vm_object_insert reg c name v = Some (c', reg')" "reg_ok reg'" "extends reg reg'"
    "length (sr_keys reg') \<le> Suc (length (sr_keys reg))" "cell_ok reg' c'"
    "cell_entries c' = im_insert name v (cell_entries c)" "oc_frozen c' = oc_frozen c"
proof -
  obtain c' reg' where c': "vm_object_insert reg c name v = Some (c', reg')" "reg_ok reg'" "extends reg reg'"
    "length (sr_keys reg') \<le> Suc (length (sr_keys reg))" "cell_ok reg' c'"
    "os_entries (oc_storage c') = im_insert name v (os_entries (oc_storage c))"
    using obj.insert_refines [OF assms, of name v] unfolding vm_object_insert_def by metis
  show thesis by (rule that [OF c'(1-5)]) (simp_all add: c'(6) cell_entries_def insert_keeps_tags(1) [OF c'(1)])
qed

lemma instance_insert_abs:
  assumes "reg_ok reg" and "length (sr_keys reg) < 2 ^ 32" and "inst_ok reg i"
  obtains i' reg' where "vm_instance_insert reg i name v = Some (i', reg')" "reg_ok reg'" "extends reg reg'"
    "length (sr_keys reg') \<le> Suc (length (sr_keys reg))" "inst_ok reg' i'"
    "os_entries (in_fields i') = im_insert name v (os_entries (in_fields i))"
    "in_frozen i' = in_frozen i" "in_class i' = in_class i"
proof -
  obtain i' reg' where i': "vm_instance_insert reg i name v = Some (i', reg')" "reg_ok reg'" "extends reg reg'"
    "length (sr_keys reg') \<le> Suc (length (sr_keys reg))" "inst_ok reg' i'"
    "os_entries (in_fields i') = im_insert name v (os_entries (in_fields i))"
    using inst.insert_refines [OF assms, of name v] unfolding vm_instance_insert_def by metis
  show thesis by (rule that [OF i']) (simp_all add: insert_keeps_tags(2) [OF i'(1)])
qed

lemma record_object_sound:
  assumes "reg_ok reg" and "cell_ok reg c" and "ics_sound reg site ics"
  shows "\<exists>ics'. record_object h specialize ics off c (site off) = Some ics' \<and> ics_sound reg site ics'"
  using is_schema_total [OF assms(2), of h] record_field_sound [OF assms(1,3), of "oc_shape c" "oc_storage c" off] assms(2,3)
  by (auto simp: record_object_def cell_ok_def)

text \<open>What a write that refines the abstract one leaves behind.\<close>

definition wrote ::
  "shape_registry \<Rightarrow> (nat \<Rightarrow> rstring) \<Rightarrow> ('v, 'o) areceiver
   \<Rightarrow> ('v, 'o) receiver \<times> shape_registry \<times> field_ics \<Rightarrow> bool" where
  "wrote reg site a = (\<lambda>(r', reg', ics'). reg_ok reg' \<and> extends reg reg' \<and> length (sr_keys reg') \<le> Suc (length (sr_keys reg))
     \<and> recv_ok reg' r' \<and> ics_sound reg' site ics' \<and> abs_recv r' = a)"

lemma set_object_abs:
  assumes "reg_ok reg" and "length (sr_keys reg) < 2 ^ 32" and "cell_ok reg c" and "ics_sound reg site ics" and "\<not> oc_frozen c"
  shows "\<exists>out. wrote reg site (AObject (im_insert (site off) v (cell_entries c)) False) out
    \<and> vm_set_prop h specialize reg ics off (RObject c) (site off) v = Ok (v, out)"
proof -
  obtain w where w: "cached_write h specialize ics off c v = Some w"
    "\<And>c'. w = Some c' \<Longrightarrow> cell_ok reg c' \<and> cell_entries c' = im_insert (site off) v (cell_entries c) \<and> oc_frozen c' = oc_frozen c"
    using cached_write_correct [OF assms(1,3,4), of h specialize off v] by blast
  show ?thesis
  proof (cases w)
    case None
    obtain c' reg' where c': "vm_object_insert reg c (site off) v = Some (c', reg')" "reg_ok reg'" "extends reg reg'"
      "length (sr_keys reg') \<le> Suc (length (sr_keys reg))" "cell_ok reg' c'"
      "cell_entries c' = im_insert (site off) v (cell_entries c)" "oc_frozen c' = oc_frozen c"
      by (rule object_insert_abs [OF assms(1-3)])
    obtain ics' where "record_object h specialize ics off c' (site off) = Some ics'" "ics_sound reg' site ics'"
      using record_object_sound [OF c'(2,5) ics_sound_mono [OF assms(4) c'(3)]] by blast
    then show ?thesis
      using assms(5) w None c' by (intro exI [of _ "(RObject c', reg', ics')"]) (simp add: vm_set_prop_def check_not_frozen_def wrote_def)
  next
    case (Some c')
    then show ?thesis
      using assms w by (intro exI [of _ "(RObject c', reg, ics)"]) (simp add: vm_set_prop_def check_not_frozen_def wrote_def)
  qed
qed

lemma set_instance_abs:
  assumes "reg_ok reg" and "length (sr_keys reg) < 2 ^ 32" and "inst_ok reg i" and "ics_sound reg site ics" and "\<not> in_frozen i"
    and "h_contract h (in_class i) (site off) v = Ok ()"
  shows "\<exists>out. wrote reg site (AInstance (in_class i) (im_insert (site off) v (os_entries (in_fields i))) False) out
    \<and> vm_set_prop h specialize reg ics off (RInstance i) (site off) v = Ok (v, out)"
proof -
  obtain i' reg' where i': "vm_instance_insert reg i (site off) v = Some (i', reg')" "reg_ok reg'" "extends reg reg'"
    "length (sr_keys reg') \<le> Suc (length (sr_keys reg))" "inst_ok reg' i'"
    "os_entries (in_fields i') = im_insert (site off) v (os_entries (in_fields i))"
    "in_frozen i' = in_frozen i" "in_class i' = in_class i"
    by (rule instance_insert_abs [OF assms(1-3)])
  have ics: "ics_sound reg' site ics" by (rule ics_sound_mono [OF assms(4) i'(3)])
  have lay: "layout_ok reg' (in_shape_id i') (in_fields i')" using i'(5) by (simp add: inst_ok_def)
  obtain ics' where "(if specialize \<and> in_shape_id i' \<noteq> 0 then record_field ics off (in_shape_id i') (in_fields i') (site off)
      else Some ics) = Some ics'" "ics_sound reg' site ics'"
    using record_field_sound [OF i'(2) ics _ lay, of off] ics by (cases "specialize \<and> in_shape_id i' \<noteq> 0") auto
  then show ?thesis
    using assms(5,6) i'
    by (intro exI [of _ "(RInstance i', reg', ics')"]) (simp add: vm_set_prop_def check_not_frozen_def wrote_def)
qed

lemma set_prop_abs:
  assumes "reg_ok reg" and "length (sr_keys reg) < 2 ^ 32" and "recv_ok reg r" and "ics_sound reg site ics"
  shows "(\<exists>w a out. abs_set h (abs_recv r) (site off) v = Ok (w, a) \<and> wrote reg site a out
      \<and> vm_set_prop h specialize reg ics off r (site off) v = Ok (w, out))
    \<or> (\<exists>e. abs_set h (abs_recv r) (site off) v = Err e \<and> vm_set_prop h specialize reg ics off r (site off) v = Err e)
    \<or> (abs_set h (abs_recv r) (site off) v = Panic \<and> vm_set_prop h specialize reg ics off r (site off) v = Panic)"
proof (cases r)
  case (RObject c)
  then show ?thesis
  proof (cases "oc_frozen c")
    case False
    then show ?thesis using set_object_abs [OF assms(1,2) _ assms(4), of c off v h specialize] assms(3) RObject by auto
  qed (simp add: vm_set_prop_def check_not_frozen_def)
next
  case (RInstance i)
  consider "in_frozen i" | "\<not> in_frozen i" "h_contract h (in_class i) (site off) v = Ok ()"
    | e where "\<not> in_frozen i" "h_contract h (in_class i) (site off) v = Err e"
    | "\<not> in_frozen i" "h_contract h (in_class i) (site off) v = Panic"
    by (cases "h_contract h (in_class i) (site off) v") auto
  then show ?thesis
  proof cases
    case 2
    then show ?thesis using set_instance_abs [OF assms(1,2) _ assms(4), of i h off v specialize] assms(3) RInstance by auto
  qed (simp_all add: RInstance vm_set_prop_def check_not_frozen_def)
next
  case (ROther x)
  then show ?thesis
    using assms by (cases "h_set_other h x (site off) v")
      (auto simp: vm_set_prop_def check_not_frozen_def wrote_def split: option.splits)
qed

end
