(* ===== verification/ObjectLiteral.thy ===== *)
theory ObjectLiteral
  imports ObjectStore
begin

text \<open>
  Object literals: \<open>exec_new_object\<close> and \<open>new_object_generic\<close> (\<open>src/src/vm/run.rs\<close>) with the per-site
  cache \<open>LitShapeCache\<close> (\<open>src/src/vm/chunk.rs\<close>).  A literal receives its key and value operands in
  source order; a warm site skips the registry and drops the keys, placing each value in the slot
  recorded when the site first ran.

  The lemmas show that both builds give the cell whose entries are the ordered map of the pairs,
  provided that a site always has the keys it was recorded with, as compiled code has.
\<close>

section \<open>The two builds\<close>

datatype lit_shape_cache = Warm u32 "rstring list" "u16 list option" | Negative

type_synonym lit_shapes = "nat \<Rightarrow> lit_shape_cache option"

datatype 'v literal_error = KeyNotString 'v

text \<open>The popping loop: the pairs come off the stack last first.\<close>

fun pop_pairs :: "('v \<Rightarrow> rstring option) \<Rightarrow> ('v \<times> 'v) list \<Rightarrow> (rstring \<times> 'v) list
    \<Rightarrow> ((rstring \<times> 'v) list, 'v literal_error) result" where
  "pop_pairs as_str [] acc = Ok acc"
| "pop_pairs as_str ((k, v) # rest) acc =
     (case as_str k of Some s \<Rightarrow> pop_pairs as_str rest ((s, v) # acc) | None \<Rightarrow> Err (KeyNotString k))"

text \<open>Folding duplicates: the ordered keys, the values by key, the slot of every pair, whether a key repeats.\<close>

type_synonym 'v folded = "rstring list \<times> (rstring \<times> 'v) list \<times> u16 list \<times> bool"

fun fold_pair :: "rstring \<times> 'v \<Rightarrow> 'v folded \<Rightarrow> 'v folded" where
  "fold_pair (k, v) (order, vals, slots, dup) =
     (case im_index_of k vals of
        Some idx \<Rightarrow> (order, im_insert k v vals, slots @ [of_nat idx], True)
      | None \<Rightarrow> (order @ [k], im_insert k v vals, slots @ [of_nat (length order)], dup))"

definition fold_pairs :: "(rstring \<times> 'v) list \<Rightarrow> 'v folded" where
  "fold_pairs pairs = fold fold_pair pairs ([], [], [], False)"

text \<open>Taking the values out in key order; a missing key is the panic of \<open>unwrap\<close>.\<close>

fun take_values :: "rstring list \<Rightarrow> (rstring \<times> 'v) list \<Rightarrow> 'v list option" where
  "take_values [] vals = Some []"
| "take_values (k # ks) vals = Option.bind (map_of vals k) (\<lambda>v.
     map_option (Cons v) (take_values ks (im_shift_remove k vals)))"

definition identity_slots :: "u16 list \<Rightarrow> bool" where
  "identity_slots slots \<longleftrightarrow> list_all (\<lambda>(i, s). unat s = i) (enumerate 0 slots)"

definition new_object_generic ::
  "('v \<Rightarrow> rstring option) \<Rightarrow> shape_registry \<Rightarrow> lit_shapes \<Rightarrow> nat \<Rightarrow> bool \<Rightarrow> ('v \<times> 'v) list
   \<Rightarrow> ('v object_cell \<times> shape_registry \<times> lit_shapes, 'v literal_error) result" where
  "new_object_generic as_str reg lits off record kvs =
     res_bind (pop_pairs as_str (rev kvs) []) (\<lambda>pairs.
       case fold_pairs pairs of (order, vals, slots, had_dup) \<Rightarrow>
         res_bind (or_panic (shape_for reg order)) (\<lambda>(interned, reg').
           case interned of
             Some shape \<Rightarrow>
               res_bind (or_panic (keys_of reg' shape)) (\<lambda>keys.
               res_bind (or_panic (take_values order vals)) (\<lambda>vs.
                 let slot_of_pair = (if \<not> had_dup \<and> identity_slots slots then None else Some slots);
                     lits' = (if record then lits(off \<mapsto> Warm shape keys slot_of_pair) else lits)
                 in Ok (new_slab keys vs shape, reg', lits')))
           | None \<Rightarrow>
               res_bind (or_panic (take_values order vals)) (\<lambda>vs.
                 Ok (cell_new (index_map_of (zip order vs)), reg', if record then lits(off \<mapsto> Negative) else lits))))"

text \<open>The warm loops write the values, popped last first, into a vector of \<open>nil\<close>.\<close>

fun fill_identity :: "'v list \<Rightarrow> (nat \<times> 'v) list \<Rightarrow> 'v list option" where
  "fill_identity vals [] = Some vals"
| "fill_identity vals ((slot, v) # rest) =
     (if slot < length vals then fill_identity (vals[slot := v]) rest else None)"

fun fill_slots :: "'v list \<Rightarrow> bool list \<Rightarrow> (nat \<times> 'v) list \<Rightarrow> 'v list option" where
  "fill_slots vals filled [] = Some vals"
| "fill_slots vals filled ((slot, v) # rest) =
     (if slot < length filled then
        if \<not> filled ! slot then
          (if slot < length vals then fill_slots (vals[slot := v]) (filled[slot := True]) rest else None)
        else fill_slots vals filled rest
      else None)"

definition exec_new_object_cached ::
  "'v \<Rightarrow> ('v \<Rightarrow> rstring option) \<Rightarrow> bool \<Rightarrow> shape_registry \<Rightarrow> lit_shapes \<Rightarrow> nat \<Rightarrow> ('v \<times> 'v) list
   \<Rightarrow> ('v object_cell \<times> shape_registry \<times> lit_shapes, 'v literal_error) result" where
  "exec_new_object_cached nil as_str specialize reg lits off kvs =
     (if specialize then
        (case lits off of
           Some (Warm shape keys slot_of_pair) \<Rightarrow>
             let n = length kvs; vals = replicate (length keys) nil in
             res_bind (or_panic
               (case slot_of_pair of
                  None \<Rightarrow> fill_identity vals (rev (zip [0..<n] (map snd kvs)))
                | Some sop \<Rightarrow>
                    if length sop < n then None
                    else fill_slots vals (replicate (length keys) False) (rev (zip (map unat sop) (map snd kvs)))))
               (\<lambda>vs. Ok (new_slab keys vs shape, reg, lits))
         | Some Negative \<Rightarrow> new_object_generic as_str reg lits off False kvs
         | None \<Rightarrow> new_object_generic as_str reg lits off True kvs)
      else new_object_generic as_str reg lits off False kvs)"

section \<open>Folding the pairs\<close>

lemma pop_pairs_strings:
  "list_all2 (\<lambda>kv k. as_str (fst kv) = Some k) kvs ks \<Longrightarrow>
    pop_pairs as_str (rev kvs) acc = Ok (zip ks (map snd kvs) @ acc)"
proof (induction kvs ks arbitrary: acc rule: list_all2_induct)
  case (Cons kv kvs k ks)
  have app: "pop_pairs as_str (xs @ ys) acc = res_bind (pop_pairs as_str xs acc) (pop_pairs as_str ys)" for xs ys acc
    by (induction as_str xs acc rule: pop_pairs.induct) (auto split: option.split)
  show ?case using Cons by (cases kv) (simp add: app)
qed simp

lemma index_map_of_snoc: "index_map_of (kvs @ [(k, v)]) = im_insert k v (index_map_of kvs)"
  by (simp add: index_map_of_def)

lemma index_map_of_keys: "fst ` set (index_map_of kvs) = fst ` set kvs"
proof (induction kvs rule: rev_induct)
  case (snoc e kvs)
  obtain k v where e: "e = (k, v)" by (cases e)
  have "fst ` set (im_insert k v m) = insert k (fst ` set m)" for m :: "('a \<times> 'b) list"
    by (induction k v m rule: im_insert.induct) auto
  with snoc show ?case by (simp add: e index_map_of_snoc)
qed (simp add: index_map_of_def)

lemma distinct_index_map_of: "distinct (map fst (index_map_of kvs))"
proof (induction kvs rule: rev_induct)
  case (snoc e kvs)
  then show ?case by (cases e) (simp add: index_map_of_snoc)
qed (simp add: index_map_of_def)

lemma map_of_index_map_of: "map_of (index_map_of kvs) = map_of (rev kvs)"
proof (induction kvs rule: rev_induct)
  case (snoc e kvs)
  then show ?case by (cases e) (simp add: index_map_of_snoc)
qed (simp add: index_map_of_def)

text \<open>The distinct keys of a literal in order of first occurrence, and the slot of a key.\<close>

definition lit_order :: "rstring list \<Rightarrow> rstring list" where
  "lit_order ks = map fst (index_map_of (map (\<lambda>k. (k, ())) ks))"

definition lit_slot :: "rstring list \<Rightarrow> rstring \<Rightarrow> nat" where
  "lit_slot ks k = the (slab_pos (lit_order ks) k)"

lemma lit_order_snoc: "lit_order (ks @ [k]) = (if k \<in> set ks then lit_order ks else lit_order ks @ [k])"
  using index_map_of_keys [of "map (\<lambda>k. (k, ())) ks"]
  by (simp add: lit_order_def index_map_of_snoc im_keys_insert image_image)

lemma lit_order_set: "set (lit_order ks) = set ks"
  using index_map_of_keys [of "map (\<lambda>k. (k, ())) ks"] by (simp add: lit_order_def image_image)

lemma lit_order_distinct [simp]: "distinct (lit_order ks)"
  by (simp add: lit_order_def distinct_index_map_of)

lemma lit_order_length: "length (lit_order ks) \<le> length ks"
proof (induction ks rule: rev_induct)
  case (snoc k ks)
  then show ?case by (simp add: lit_order_snoc)
qed (simp add: lit_order_def index_map_of_def)

lemma lit_order_id: "length (lit_order ks) = length ks \<longleftrightarrow> distinct ks"
  using lit_order_set [of ks] lit_order_distinct [of ks] by (metis card_distinct distinct_card)

lemma lit_order_of_distinct: "distinct ks \<Longrightarrow> lit_order ks = ks"
  by (simp add: lit_order_def index_map_of_distinct comp_def)

lemma index_map_order: "map fst (index_map_of kvs) = lit_order (map fst kvs)"
proof (induction kvs rule: rev_induct)
  case (snoc e kvs)
  then show ?case
    using index_map_of_keys [of kvs] by (cases e) (auto simp: index_map_of_snoc im_keys_insert lit_order_snoc image_iff)
qed (simp add: lit_order_def index_map_of_def)

lemma slab_pos_known:
  assumes "k \<in> set ks"
  shows "slab_pos (lit_order ks) k = Some (lit_slot ks k) \<and> lit_slot ks k < length (lit_order ks) \<and> lit_order ks ! lit_slot ks k = k"
proof -
  have "slab_pos (lit_order ks) k \<noteq> None"
    using assms lit_order_set [of ks] by (simp add: slab_pos_def find_index_None)
  then obtain i where i: "slab_pos (lit_order ks) k = Some i" by blast
  then show ?thesis
    using find_index_Some [of "\<lambda>k'. k' = k" "lit_order ks" i] by (simp add: slab_pos_def lit_slot_def)
qed

lemma lit_slot_nth: "j < length (lit_order ks) \<Longrightarrow> lit_slot ks (lit_order ks ! j) = j"
  using slab_pos_known [of "lit_order ks ! j" ks] lit_order_set [of ks] lit_order_distinct [of ks]
  by (metis nth_eq_iff_index_eq nth_mem)

lemma lit_slot_snoc:
  assumes "k \<in> set ks"
  shows "lit_slot (ks @ [k']) k = lit_slot ks k"
proof -
  have "slab_pos (lit_order ks) k = Some (lit_slot ks k)" using slab_pos_known [OF assms] by simp
  then have "slab_pos (lit_order (ks @ [k'])) k = Some (lit_slot ks k)"
    unfolding slab_pos_def lit_order_snoc by (simp add: find_index_prefix)
  then show ?thesis by (simp add: lit_slot_def)
qed

lemma lit_slot_new:
  assumes "k \<notin> set ks"
  shows "lit_slot (ks @ [k]) k = length (lit_order ks)"
proof -
  have "find_index (\<lambda>k'. k' = k) (lit_order ks) = None" using assms lit_order_set [of ks] by (auto simp: find_index_None)
  then show ?thesis using assms by (simp add: lit_slot_def lit_order_snoc slab_pos_def find_index_append_None)
qed

lemma fold_pairs_spec:
  "fold_pairs pairs = (lit_order (map fst pairs), index_map_of pairs,
     map (\<lambda>k. of_nat (lit_slot (map fst pairs) k)) (map fst pairs), \<not> distinct (map fst pairs))"
proof (induction pairs rule: rev_induct)
  case Nil
  then show ?case by (simp add: fold_pairs_def lit_order_def index_map_of_def)
next
  case (snoc e pairs)
  obtain k v where e: "e = (k, v)" by (cases e)
  let ?ks = "map fst pairs"
  have keys: "fst ` set (index_map_of pairs) = set ?ks" using index_map_of_keys [of pairs] by simp
  have idx: "im_index_of k (index_map_of pairs) = slab_pos (lit_order ?ks) k"
    by (simp add: im_index_of_def slab_pos_def find_index_map flip: index_map_order)
  show ?case
  proof (cases "k \<in> set ?ks")
    case True
    then show ?thesis
      using snoc slab_pos_known [OF True] by (auto simp: fold_pairs_def e idx index_map_of_snoc lit_order_snoc lit_slot_snoc)
  next
    case False
    then have "slab_pos (lit_order ?ks) k = None" using keys by (simp add: im_index_of_None flip: idx)
    with False snoc show ?thesis
      by (auto simp: fold_pairs_def e idx index_map_of_snoc lit_order_snoc lit_slot_snoc lit_slot_new)
  qed
qed

section \<open>Placing the values\<close>

lemma take_values_all: "distinct (map fst m) \<Longrightarrow> take_values (map fst m) m = Some (map snd m)"
proof (induction m)
  case (Cons e m)
  obtain k v where e: "e = (k, v)" by (cases e)
  have "im_shift_remove k (e # m) = m" using Cons.prems by (auto simp: im_shift_remove_def e image_iff intro!: filter_True)
  with Cons show ?case by (simp add: e)
qed simp

lemma fill_slots_spec:
  assumes "length filled = length vals" and "\<forall>(slot, v) \<in> set es. slot < length vals"
  shows "\<exists>vs. fill_slots vals filled es = Some vs \<and> length vs = length vals
    \<and> (\<forall>j < length vals. vs ! j = (if filled ! j then vals ! j else case map_of es j of Some v \<Rightarrow> v | None \<Rightarrow> vals ! j))"
  using assms
proof (induction es arbitrary: vals filled)
  case (Cons e es)
  obtain slot v where e: "e = (slot, v)" by (cases e)
  have slot: "slot < length vals" using Cons.prems(2) by (simp add: e)
  show ?case
  proof (cases "filled ! slot")
    case True
    obtain vs where "fill_slots vals filled es = Some vs" "length vs = length vals"
      "\<forall>j < length vals. vs ! j = (if filled ! j then vals ! j else case map_of es j of Some v \<Rightarrow> v | None \<Rightarrow> vals ! j)"
      using Cons.IH [of filled vals] Cons.prems by auto
    with True slot Cons.prems(1) show ?thesis by (auto simp: e)
  next
    case False
    obtain vs where "fill_slots (vals[slot := v]) (filled[slot := True]) es = Some vs" "length vs = length vals"
      "\<forall>j < length vals. vs ! j = (if (filled[slot := True]) ! j then (vals[slot := v]) ! j
         else case map_of es j of Some v \<Rightarrow> v | None \<Rightarrow> (vals[slot := v]) ! j)"
      using Cons.IH [of "filled[slot := True]" "vals[slot := v]"] Cons.prems by auto
    with False slot Cons.prems(1) show ?thesis by (auto simp: e nth_list_update split: option.split)
  qed
qed simp

lemma fill_identity_slots:
  assumes "distinct (map fst es)" and "length filled = length vals" and "\<forall>(slot, v) \<in> set es. slot < length vals \<and> \<not> filled ! slot"
  shows "fill_identity vals es = fill_slots vals filled es"
  using assms
proof (induction es arbitrary: vals filled)
  case (Cons e es)
  obtain slot v where e: "e = (slot, v)" by (cases e)
  have "\<forall>(s, w) \<in> set es. s < length (vals[slot := v]) \<and> \<not> (filled[slot := True]) ! s"
    using Cons.prems by (force simp: e nth_list_update)
  with Cons.IH [of "filled[slot := True]" "vals[slot := v]"] Cons.prems show ?case by (simp add: e)
qed simp

lemma map_of_inj: "inj_on f (insert k (fst ` set m)) \<Longrightarrow> map_of (map (\<lambda>(k, v). (f k, v)) m) (f k) = map_of m k"
  by (induction m) (auto simp: inj_on_def)

lemma lit_slot_inj: "inj_on (lit_slot ks) (set ks)"
  by (rule inj_onI) (metis slab_pos_known)

text \<open>The values placed by the recorded slots are the values of the ordered map.\<close>

lemma fill_slots_map:
  assumes "length ks = length vs"
  shows "fill_slots (replicate (length (lit_order ks)) nil) (replicate (length (lit_order ks)) False)
      (rev (zip (map (lit_slot ks) ks) vs)) = Some (map snd (index_map_of (zip ks vs)))"
proof -
  let ?es = "rev (zip (map (lit_slot ks) ks) vs)" and ?n = "length (lit_order ks)"
  have slots: "\<forall>(slot, v) \<in> set ?es. slot < ?n"
    using slab_pos_known [of _ ks] by (auto dest!: set_zip_leftD)
  obtain ws where ws: "fill_slots (replicate ?n nil) (replicate ?n False) ?es = Some ws" "length ws = ?n"
    "\<forall>j < ?n. ws ! j = (case map_of ?es j of Some v \<Rightarrow> v | None \<Rightarrow> replicate ?n nil ! j)"
    using fill_slots_spec [of "replicate ?n False" "replicate ?n nil" ?es] slots by auto
  have fst: "map fst (zip ks vs) = ks" using assms by simp
  have order: "map fst (index_map_of (zip ks vs)) = lit_order ks" using index_map_order [of "zip ks vs"] assms by simp
  then have len: "length (index_map_of (zip ks vs)) = ?n" by (metis length_map)
  have es: "?es = map (\<lambda>(k, v). (lit_slot ks k, v)) (rev (zip ks vs))"
    by (simp add: zip_map1 rev_map)
  have "ws ! j = snd (index_map_of (zip ks vs) ! j)" if j: "j < ?n" for j
  proof -
    let ?k = "lit_order ks ! j" and ?e = "index_map_of (zip ks vs) ! j"
    have mem: "?k \<in> set ks" using j lit_order_set [of ks] nth_mem by blast
    have "lit_slot ks ?k = j" by (rule lit_slot_nth [OF j])
    moreover have "inj_on (lit_slot ks) (insert ?k (fst ` set (rev (zip ks vs))))"
      using lit_slot_inj [of ks] mem fst by (metis insert_absorb list.set_map set_rev)
    ultimately have "map_of ?es j = map_of (index_map_of (zip ks vs)) ?k"
      using map_of_inj [of "lit_slot ks" ?k "rev (zip ks vs)"] by (simp add: es map_of_index_map_of)
    also have "fst ?e = ?k" using order len j by (metis nth_map)
    then have "map_of (index_map_of (zip ks vs)) ?k = Some (snd ?e)"
      using distinct_index_map_of [of "zip ks vs"] j len by (simp add: map_of_eq_Some_iff) (metis nth_mem prod.collapse)
    finally show ?thesis using ws(3) j by simp
  qed
  then have "ws = map snd (index_map_of (zip ks vs))" using ws(2) len by (intro nth_equalityI) simp_all
  with ws(1) show ?thesis by simp
qed

lemma fill_identity_map:
  fixes ks :: "rstring list"
  assumes "length ks = length vs" and "distinct ks"
  shows "fill_identity (replicate (length ks) nil) (rev (zip [0..<length vs] vs)) = Some vs"
proof -
  have "lit_slot ks (ks ! i) = i" if "i < length ks" for i
    using lit_slot_nth [of i ks] that assms(2) by (simp add: lit_order_of_distinct)
  then have slots: "map (lit_slot ks) ks = [0..<length vs]" using assms(1) by (intro nth_equalityI) simp_all
  have "fill_identity (replicate (length ks) nil) (rev (zip [0..<length vs] vs))
      = fill_slots (replicate (length ks) nil) (replicate (length ks) False) (rev (zip [0..<length vs] vs))"
    using assms by (intro fill_identity_slots) (auto simp: rev_map [symmetric] dest!: set_zip_leftD)
  then show ?thesis
    using fill_slots_map [OF assms(1), of nil] assms
    by (simp add: slots lit_order_of_distinct index_map_of_distinct)
qed

section \<open>Both builds give the ordered map of the pairs\<close>

text \<open>What a recorded site knows about the keys \<open>keys_at off\<close> its code pushes.\<close>

definition lits_sound :: "shape_registry \<Rightarrow> (nat \<Rightarrow> rstring list) \<Rightarrow> lit_shapes \<Rightarrow> bool" where
  "lits_sound reg keys_at lits \<longleftrightarrow> (\<forall>off shape keys sop. lits off = Some (Warm shape keys sop) \<longrightarrow>
     minted reg shape \<and> layout reg shape = keys \<and> keys = lit_order (keys_at off)
     \<and> (case sop of None \<Rightarrow> distinct (keys_at off) | Some slots \<Rightarrow> map unat slots = map (lit_slot (keys_at off)) (keys_at off)))"

lemma lits_sound_mono:
  assumes "lits_sound reg keys_at lits" and "extends reg reg'"
  shows "lits_sound reg' keys_at lits"
  unfolding lits_sound_def
proof (intro allI impI)
  fix off shape keys sop assume "lits off = Some (Warm shape keys sop)"
  with assms(1) have w: "minted reg shape" "layout reg shape = keys" "keys = lit_order (keys_at off)"
    "case sop of None \<Rightarrow> distinct (keys_at off) | Some slots \<Rightarrow> map unat slots = map (lit_slot (keys_at off)) (keys_at off)"
    unfolding lits_sound_def by blast+
  with extends_minted [OF assms(2) w(1)]
  show "minted reg' shape \<and> layout reg' shape = keys \<and> keys = lit_order (keys_at off)
     \<and> (case sop of None \<Rightarrow> distinct (keys_at off) | Some slots \<Rightarrow> map unat slots = map (lit_slot (keys_at off)) (keys_at off))"
    by simp
qed

lemma lits_sound_empty: "lits_sound reg keys_at Map.empty"
  by (simp add: lits_sound_def)

definition literal_built ::
  "shape_registry \<Rightarrow> (nat \<Rightarrow> rstring list) \<Rightarrow> nat \<Rightarrow> (rstring \<times> 'v) list
   \<Rightarrow> 'v object_cell \<times> shape_registry \<times> lit_shapes \<Rightarrow> bool" where
  "literal_built reg keys_at n es = (\<lambda>(c, reg', lits'). reg_ok reg' \<and> extends reg reg'
     \<and> length (sr_keys reg') \<le> length (sr_keys reg) + n
     \<and> cell_ok reg' c \<and> \<not> oc_frozen c \<and> cell_entries c = es \<and> lits_sound reg' keys_at lits')"

lemma slot_words:
  assumes "length ks < 2 ^ 16"
  shows "map unat (map (\<lambda>k. of_nat (lit_slot ks k) :: u16) ks) = map (lit_slot ks) ks"
proof -
  have "unat (of_nat (lit_slot ks k) :: u16) = lit_slot ks k" if "k \<in> set ks" for k
    using slab_pos_known [OF that] lit_order_length [of ks] assms
    by (simp add: unsigned_of_nat take_bit_nat_eq_self)
  then show ?thesis by simp
qed

lemma new_object_generic_builds:
  assumes reg: "reg_ok reg" and room: "length (sr_keys reg) + length kvs \<le> 2 ^ 32"
    and keys: "list_all2 (\<lambda>kv k. as_str (fst kv) = Some k) kvs (keys_at off)" and n: "length kvs < 2 ^ 16"
    and lits: "lits_sound reg keys_at lits"
  shows "\<exists>out. new_object_generic as_str reg lits off record kvs = Ok out
    \<and> literal_built reg keys_at (length kvs) (index_map_of (zip (keys_at off) (map snd kvs))) out"
proof -
  let ?ks = "keys_at off" and ?vs = "map snd kvs"
  let ?pairs = "zip ?ks ?vs" and ?order = "lit_order ?ks"
  have len: "length ?ks = length kvs" using keys by (simp add: list_all2_lengthD)
  have pop: "pop_pairs as_str (rev kvs) [] = Ok ?pairs" using pop_pairs_strings [OF keys, of "[]"] by simp
  have order: "map fst (index_map_of ?pairs) = ?order" using index_map_order [of ?pairs] len by simp
  have fold: "fold_pairs ?pairs = (?order, index_map_of ?pairs, map (\<lambda>k. of_nat (lit_slot ?ks k)) ?ks, \<not> distinct ?ks)"
    using fold_pairs_spec [of ?pairs] len by simp
  have take: "take_values ?order (index_map_of ?pairs) = Some (map snd (index_map_of ?pairs))"
    using take_values_all [OF distinct_index_map_of, of ?pairs] order by simp
  have es: "zip ?order (map snd (index_map_of ?pairs)) = index_map_of ?pairs"
    by (simp add: zip_map_fst_snd flip: order)
  have "length (sr_keys reg) + length ?order \<le> 2 ^ 32" using room lit_order_length [of ?ks] len by simp
  then obtain interned reg' where sf: "shape_for reg ?order = Some (interned, reg')"
    and g: "grown reg 0 ?order (interned, reg')" using shape_for_grown(1) [OF reg] by force
  have reg': "reg_ok reg'" "extends reg reg'" "length (sr_keys reg') \<le> length (sr_keys reg) + length kvs"
    using g lit_order_length [of ?ks] len by (simp_all add: grown_def)
  note lits' = lits_sound_mono [OF lits reg'(2)]
  show ?thesis
  proof (cases interned)
    case None
    have "cell_ok reg' (cell_new (index_map_of ?pairs)) \<and> cell_entries (cell_new (index_map_of ?pairs)) = index_map_of ?pairs"
      by (intro cell_new_ok distinct_index_map_of)
    moreover have "lits_sound reg' keys_at (lits(off \<mapsto> Negative))" using lits' by (simp add: lits_sound_def)
    ultimately show ?thesis
      using reg' lits' None
      by (simp add: new_object_generic_def pop fold sf take es index_map_of_distinct distinct_index_map_of literal_built_def cell_new_def)
  next
    case (Some shape)
    with g have shape: "minted reg' shape" "layout reg' shape = ?order" using shape_for_grown(2) [OF reg, of "[]"] room by (simp_all add: grown_def)
    let ?slots = "map (\<lambda>k. of_nat (lit_slot ?ks k) :: u16) ?ks"
    let ?sop = "if distinct ?ks \<and> identity_slots ?slots then None else Some ?slots"
    have "length (map snd (index_map_of ?pairs)) = length ?order" using order by (metis length_map)
    then have "cell_ok reg' (new_slab ?order (map snd (index_map_of ?pairs)) shape)
        \<and> cell_entries (new_slab ?order (map snd (index_map_of ?pairs)) shape) = index_map_of ?pairs"
      using new_slab_ok [OF shape, of "map snd (index_map_of ?pairs)"] es by simp
    moreover have "lits_sound reg' keys_at (lits(off \<mapsto> Warm shape ?order ?sop))"
      using lits' shape slot_words [of ?ks] len n by (auto simp: lits_sound_def)
    ultimately show ?thesis
      using reg' lits' Some shape
      by (simp add: new_object_generic_def pop fold sf take keys_of_minted literal_built_def new_slab_def Let_def)
  qed
qed

lemma new_object_builds:
  assumes reg: "reg_ok reg" and room: "length (sr_keys reg) + length kvs \<le> 2 ^ 32"
    and keys: "list_all2 (\<lambda>kv k. as_str (fst kv) = Some k) kvs (keys_at off)" and n: "length kvs < 2 ^ 16"
    and lits: "lits_sound reg keys_at lits"
  shows "\<exists>out. exec_new_object_cached nil as_str specialize reg lits off kvs = Ok out
    \<and> literal_built reg keys_at (length kvs) (index_map_of (zip (keys_at off) (map snd kvs))) out"
proof (cases "\<exists>shape ks sop. specialize \<and> lits off = Some (Warm shape ks sop)")
  case True
  then obtain shape ks sop where warm: "specialize" "lits off = Some (Warm shape ks sop)" by blast
  let ?ks = "keys_at off" and ?vs = "map snd kvs"
  have len: "length ?ks = length ?vs" using keys by (simp add: list_all2_lengthD)
  have w: "minted reg shape" "layout reg shape = ks" "ks = lit_order ?ks"
    "case sop of None \<Rightarrow> distinct ?ks | Some slots \<Rightarrow> map unat slots = map (lit_slot ?ks) ?ks"
    using lits warm(2) unfolding lits_sound_def by blast+
  let ?M = "index_map_of (zip ?ks ?vs)"
  have order: "map fst ?M = ks" using index_map_order [of "zip ?ks ?vs"] len w(3) by simp
  have fill: "(case sop of None \<Rightarrow> fill_identity (replicate (length ks) nil) (rev (zip [0..<length kvs] ?vs))
      | Some slots \<Rightarrow> if length slots < length kvs then None
          else fill_slots (replicate (length ks) nil) (replicate (length ks) False) (rev (zip (map unat slots) ?vs)))
      = Some (map snd ?M)"
  proof (cases sop)
    case None
    then have "distinct ?ks" using w(4) by simp
    then show ?thesis using fill_identity_map [OF len, of nil] None w(3) len
      by (simp add: lit_order_of_distinct index_map_of_distinct)
  next
    case (Some slots)
    with w(4) have slots: "map unat slots = map (lit_slot ?ks) ?ks" by simp
    then have "length slots = length kvs" using len by (metis length_map)
    with Some slots w(3) show ?thesis using fill_slots_map [OF len, of nil] by simp
  qed
  have "length (map snd ?M) = length ks" using order by (metis length_map)
  moreover have "zip ks (map snd ?M) = ?M" by (simp add: zip_map_fst_snd flip: order)
  ultimately have "cell_ok reg (new_slab ks (map snd ?M) shape) \<and> cell_entries (new_slab ks (map snd ?M) shape) = ?M"
    using new_slab_ok [OF w(1,2), of "map snd ?M"] w(3) by simp
  with warm fill reg lits show ?thesis by (simp add: exec_new_object_cached_def Let_def literal_built_def new_slab_def)
next
  case False
  then have "\<exists>record. exec_new_object_cached nil as_str specialize reg lits off kvs = new_object_generic as_str reg lits off record kvs"
    by (cases "lits off") (auto simp: exec_new_object_cached_def split: lit_shape_cache.splits)
  then show ?thesis using new_object_generic_builds [of reg kvs as_str keys_at off lits] assms by metis
qed

end
