(* ===== verification/ObjectVm.thy ===== *)
theory ObjectVm
  imports PropAccess ObjectLiteral
begin

text \<open>
  The objects of a running machine: a heap of receivers, the shape registry and the caches of the
  chunks, with the operations of the run loop on them and the two standard-library operations that
  mutate an object in place without the registry (\<open>object.delete\<close> in \<open>src/src/stdlib/object.rs\<close>,
  \<open>freeze_value\<close> in \<open>src/src/value.rs\<close>).

  The specification is a machine whose heap holds ordered maps and which has no shapes, slabs or
  caches.  Any sequence of operations shows the same results on both, with specialization on or off.
\<close>

section \<open>Operations of the standard library\<close>

datatype ('v, 'e) object_error =
    PropError "'e prop_error" | LiteralError "'v literal_error" | ExpectsObject | ExpectsString | NoReceiver

fun map_err :: "('e \<Rightarrow> 'f) \<Rightarrow> ('a, 'e) result \<Rightarrow> ('a, 'f) result" where
  "map_err f (Ok x) = Ok x"
| "map_err f (Err e) = Err (f e)"
| "map_err f Panic = Panic"

definition object_delete ::
  "('v, 'o, 'e) host \<Rightarrow> ('v, 'o) receiver \<Rightarrow> 'v \<Rightarrow> (bool \<times> ('v, 'o) receiver, ('v, 'e) object_error) result" where
  "object_delete h r key =
     (case r of
        RObject c \<Rightarrow>
          (case h_as_str h key of
             Some k \<Rightarrow> res_bind (or_panic (cell_shift_remove c k)) (\<lambda>(removed, c').
               let existed = (removed \<noteq> None) in
               Ok (existed, RObject (if existed then c'\<lparr>oc_shape := 0\<rparr> else c')))
           | None \<Rightarrow> Err ExpectsString)
      | _ \<Rightarrow> Err ExpectsObject)"

fun freeze_value :: "('v, 'o, 'e) host \<Rightarrow> ('v, 'o) receiver \<Rightarrow> ('v, 'o) receiver" where
  "freeze_value h (RObject c) = RObject (cell_freeze c)"
| "freeze_value h (RInstance i) = RInstance (i\<lparr>in_frozen := True\<rparr>)"
| "freeze_value h (ROther x) = ROther (h_freeze_other h x)"

section \<open>The machine\<close>

record ('v, 'o) object_vm =
  ov_shapes :: shape_registry
  ov_heap :: "nat \<Rightarrow> ('v, 'o) receiver option"
  ov_field_ics :: field_ics
  ov_lit_shapes :: lit_shapes

datatype 'v object_op =
    GetProp bool nat nat
  | SetProp nat nat 'v
  | SetIndex nat 'v 'v
  | NewObject nat nat "('v \<times> 'v) list"
  | DeleteKey nat 'v
  | Freeze nat

datatype 'v obs = ObsValue 'v | ObsRef nat | ObsBool bool

definition with_recv :: "(nat \<Rightarrow> 'r option) \<Rightarrow> nat \<Rightarrow> ('r \<Rightarrow> ('a, ('v, 'e) object_error) result) \<Rightarrow> ('a, ('v, 'e) object_error) result" where
  "with_recv heap a f = (case heap a of Some r \<Rightarrow> f r | None \<Rightarrow> Err NoReceiver)"

definition set_index_recv ::
  "('v, 'o, 'e) host \<Rightarrow> shape_registry \<Rightarrow> ('v, 'o) receiver \<Rightarrow> 'v \<Rightarrow> 'v
   \<Rightarrow> ('v \<times> ('v, 'o) receiver \<times> shape_registry, ('v, 'e) object_error) result" where
  "set_index_recv h reg r idx v =
     map_err PropError (case r of
        RObject c \<Rightarrow> res_bind (set_index_object h reg c idx v) (\<lambda>(w, c', reg'). Ok (w, RObject c', reg'))
      | _ \<Rightarrow> res_bind (index_set_other h r idx v) (\<lambda>(w, r'). Ok (w, r', reg)))"

fun object_step ::
  "('v, 'o, 'e) host \<Rightarrow> (nat \<Rightarrow> rstring) \<Rightarrow> bool \<Rightarrow> 'v object_op \<Rightarrow> ('v, 'o) object_vm
   \<Rightarrow> ('v obs \<times> ('v, 'o) object_vm, ('v, 'e) object_error) result" where
  "object_step h site specialize (GetProp opt off a) s = with_recv (ov_heap s) a (\<lambda>r.
     res_bind (map_err PropError (get_prop h opt specialize (ov_field_ics s) off r (site off))) (\<lambda>(v, ics).
     Ok (ObsValue v, s\<lparr>ov_field_ics := ics\<rparr>)))"
| "object_step h site specialize (SetProp off a v) s = with_recv (ov_heap s) a (\<lambda>r.
     res_bind (map_err PropError (vm_set_prop h specialize (ov_shapes s) (ov_field_ics s) off r (site off) v))
       (\<lambda>(w, r', reg, ics).
     Ok (ObsValue w, s\<lparr>ov_heap := (ov_heap s)(a \<mapsto> r'), ov_shapes := reg, ov_field_ics := ics\<rparr>)))"
| "object_step h site specialize (SetIndex a idx v) s = with_recv (ov_heap s) a (\<lambda>r.
     res_bind (set_index_recv h (ov_shapes s) r idx v) (\<lambda>(w, r', reg).
     Ok (ObsValue w, s\<lparr>ov_heap := (ov_heap s)(a \<mapsto> r'), ov_shapes := reg\<rparr>)))"
| "object_step h site specialize (NewObject off a kvs) s =
     res_bind (map_err LiteralError (exec_new_object_cached (h_nil h) (h_as_str h) specialize (ov_shapes s) (ov_lit_shapes s) off kvs))
       (\<lambda>(c, reg, lits).
     Ok (ObsRef a, s\<lparr>ov_heap := (ov_heap s)(a \<mapsto> RObject c), ov_shapes := reg, ov_lit_shapes := lits\<rparr>))"
| "object_step h site specialize (DeleteKey a key) s = with_recv (ov_heap s) a (\<lambda>r.
     res_bind (object_delete h r key) (\<lambda>(existed, r').
     Ok (ObsBool existed, s\<lparr>ov_heap := (ov_heap s)(a \<mapsto> r')\<rparr>)))"
| "object_step h site specialize (Freeze a) s = with_recv (ov_heap s) a (\<lambda>r.
     Ok (ObsRef a, s\<lparr>ov_heap := (ov_heap s)(a \<mapsto> freeze_value h r)\<rparr>))"

text \<open>
  A program: an error leaves the state as it is (the run loop unwinds), a panic ends the run.  The
  run shows what each operation returned and the state it ends in.
\<close>

fun object_run ::
  "('v, 'o, 'e) host \<Rightarrow> (nat \<Rightarrow> rstring) \<Rightarrow> bool \<Rightarrow> 'v object_op list \<Rightarrow> ('v, 'o) object_vm
   \<Rightarrow> ('v obs, ('v, 'e) object_error) result list \<times> ('v, 'o) object_vm" where
  "object_run h site specialize [] s = ([], s)"
| "object_run h site specialize (op # ops) s =
     (case object_step h site specialize op s of
        Ok (x, s') \<Rightarrow> apfst ((#) (Ok x)) (object_run h site specialize ops s')
      | Err e \<Rightarrow> apfst ((#) (Err e)) (object_run h site specialize ops s)
      | Panic \<Rightarrow> ([Panic], s))"

section \<open>The specification\<close>

type_synonym ('v, 'o) abs_heap = "nat \<Rightarrow> ('v, 'o) areceiver option"

definition abs_set_index ::
  "('v, 'o, 'e) host \<Rightarrow> ('v, 'o) areceiver \<Rightarrow> 'v \<Rightarrow> 'v \<Rightarrow> ('v \<times> ('v, 'o) areceiver, ('v, 'e) object_error) result" where
  "abs_set_index h r idx v =
     (case r of
        AObject es frozen \<Rightarrow>
          if frozen then Err (PropError (CannotMutateFrozen ''object''))
          else (case h_as_str h idx of
              Some k \<Rightarrow> Ok (v, AObject (im_insert k v es) frozen)
            | None \<Rightarrow> Err (PropError ObjectIndexNotString))
      | AInstance cls es frozen \<Rightarrow>
          Err (PropError (if frozen then CannotMutateFrozen ''instance'' else NotIndexAssignable))
      | AOther x \<Rightarrow>
          (case h_frozen_other h x of
             Some kind \<Rightarrow> Err (PropError (CannotMutateFrozen kind))
           | None \<Rightarrow> res_bind (map_err (PropError \<circ> HostError) (h_index_other h x idx v)) (\<lambda>(w, x'). Ok (w, AOther x'))))"

definition abs_delete ::
  "('v, 'o, 'e) host \<Rightarrow> ('v, 'o) areceiver \<Rightarrow> 'v \<Rightarrow> (bool \<times> ('v, 'o) areceiver, ('v, 'e) object_error) result" where
  "abs_delete h r key =
     (case r of
        AObject es frozen \<Rightarrow>
          (case h_as_str h key of
             Some k \<Rightarrow> Ok (map_of es k \<noteq> None, AObject (im_shift_remove k es) frozen)
           | None \<Rightarrow> Err ExpectsString)
      | _ \<Rightarrow> Err ExpectsObject)"

fun abs_freeze :: "('v, 'o, 'e) host \<Rightarrow> ('v, 'o) areceiver \<Rightarrow> ('v, 'o) areceiver" where
  "abs_freeze h (AObject es frozen) = AObject es True"
| "abs_freeze h (AInstance cls es frozen) = AInstance cls es True"
| "abs_freeze h (AOther x) = AOther (h_freeze_other h x)"

fun abs_step ::
  "('v, 'o, 'e) host \<Rightarrow> (nat \<Rightarrow> rstring) \<Rightarrow> (nat \<Rightarrow> rstring list) \<Rightarrow> 'v object_op \<Rightarrow> ('v, 'o) abs_heap
   \<Rightarrow> ('v obs \<times> ('v, 'o) abs_heap, ('v, 'e) object_error) result" where
  "abs_step h site keys_at (GetProp opt off a) s = with_recv s a (\<lambda>r.
     res_bind (map_err PropError (abs_get h opt r (site off))) (\<lambda>v. Ok (ObsValue v, s)))"
| "abs_step h site keys_at (SetProp off a v) s = with_recv s a (\<lambda>r.
     res_bind (map_err PropError (abs_set h r (site off) v)) (\<lambda>(w, r'). Ok (ObsValue w, s(a \<mapsto> r'))))"
| "abs_step h site keys_at (SetIndex a idx v) s = with_recv s a (\<lambda>r.
     res_bind (abs_set_index h r idx v) (\<lambda>(w, r'). Ok (ObsValue w, s(a \<mapsto> r'))))"
| "abs_step h site keys_at (NewObject off a kvs) s =
     Ok (ObsRef a, s(a \<mapsto> AObject (index_map_of (zip (keys_at off) (map snd kvs))) False))"
| "abs_step h site keys_at (DeleteKey a key) s = with_recv s a (\<lambda>r.
     res_bind (abs_delete h r key) (\<lambda>(existed, r'). Ok (ObsBool existed, s(a \<mapsto> r'))))"
| "abs_step h site keys_at (Freeze a) s = with_recv s a (\<lambda>r. Ok (ObsRef a, s(a \<mapsto> abs_freeze h r)))"

fun abs_run ::
  "('v, 'o, 'e) host \<Rightarrow> (nat \<Rightarrow> rstring) \<Rightarrow> (nat \<Rightarrow> rstring list) \<Rightarrow> 'v object_op list \<Rightarrow> ('v, 'o) abs_heap
   \<Rightarrow> ('v obs, ('v, 'e) object_error) result list \<times> ('v, 'o) abs_heap" where
  "abs_run h site keys_at [] s = ([], s)"
| "abs_run h site keys_at (op # ops) s =
     (case abs_step h site keys_at op s of
        Ok (x, s') \<Rightarrow> apfst ((#) (Ok x)) (abs_run h site keys_at ops s')
      | Err e \<Rightarrow> apfst ((#) (Err e)) (abs_run h site keys_at ops s)
      | Panic \<Rightarrow> ([Panic], s))"

section \<open>Simulation\<close>

definition abs_vm :: "('v, 'o) object_vm \<Rightarrow> ('v, 'o) abs_heap" where
  "abs_vm s = (\<lambda>a. map_option abs_recv (ov_heap s a))"

definition vm_ok :: "(nat \<Rightarrow> rstring) \<Rightarrow> (nat \<Rightarrow> rstring list) \<Rightarrow> ('v, 'o) object_vm \<Rightarrow> bool" where
  "vm_ok site keys_at s \<longleftrightarrow> reg_ok (ov_shapes s) \<and> (\<forall>a r. ov_heap s a = Some r \<longrightarrow> recv_ok (ov_shapes s) r)
     \<and> ics_sound (ov_shapes s) site (ov_field_ics s) \<and> lits_sound (ov_shapes s) keys_at (ov_lit_shapes s)"

text \<open>The layouts an operation may mint, and the literals compiled code builds.\<close>

fun op_cost :: "'v object_op \<Rightarrow> nat" where
  "op_cost (SetProp off a v) = 1"
| "op_cost (SetIndex a idx v) = 1"
| "op_cost (NewObject off a kvs) = length kvs"
| "op_cost _ = 0"

fun op_ok :: "('v, 'o, 'e) host \<Rightarrow> (nat \<Rightarrow> rstring list) \<Rightarrow> 'v object_op \<Rightarrow> bool" where
  "op_ok h keys_at (NewObject off a kvs) = (length kvs < 2 ^ 16
     \<and> list_all2 (\<lambda>kv k. h_as_str h (fst kv) = Some k) kvs (keys_at off))"
| "op_ok h keys_at _ = True"

lemma abs_vm_at: "ov_heap s a = Some r \<Longrightarrow> abs_vm s a = Some (abs_recv r)" "ov_heap s a = None \<Longrightarrow> abs_vm s a = None"
  by (simp_all add: abs_vm_def)

text \<open>The concrete outcome of a step that refines an abstract one.\<close>

definition simulates ::
  "(nat \<Rightarrow> rstring) \<Rightarrow> (nat \<Rightarrow> rstring list) \<Rightarrow> nat \<Rightarrow> ('v, 'o) object_vm
   \<Rightarrow> ('x \<times> ('v, 'o) abs_heap, 'err) result \<Rightarrow> ('x \<times> ('v, 'o) object_vm, 'err) result \<Rightarrow> bool" where
  "simulates site keys_at n s spec conc = (case spec of
      Ok (x, t) \<Rightarrow> \<exists>s'. conc = Ok (x, s') \<and> vm_ok site keys_at s' \<and> abs_vm s' = t
        \<and> length (sr_keys (ov_shapes s')) \<le> length (sr_keys (ov_shapes s)) + n
    | Err e \<Rightarrow> conc = Err e
    | Panic \<Rightarrow> conc = Panic)"

text \<open>Changing one receiver and growing the registry.\<close>

lemma vm_ok_update:
  assumes "vm_ok site keys_at s" and "reg_ok (ov_shapes s')" and "extends (ov_shapes s) (ov_shapes s')"
    and "ov_heap s' = (ov_heap s)(a \<mapsto> r)" and "recv_ok (ov_shapes s') r"
    and "ics_sound (ov_shapes s') site (ov_field_ics s')" and "lits_sound (ov_shapes s') keys_at (ov_lit_shapes s')"
  shows "vm_ok site keys_at s' \<and> abs_vm s' = (abs_vm s)(a \<mapsto> abs_recv r)"
  using assms recv_ok_mono [OF _ assms(3)] by (auto simp: vm_ok_def abs_vm_def)

lemma vm_ok_parts:
  assumes "vm_ok site keys_at s"
  shows "reg_ok (ov_shapes s)" "ov_heap s a = Some r \<Longrightarrow> recv_ok (ov_shapes s) r"
    "ics_sound (ov_shapes s) site (ov_field_ics s)" "lits_sound (ov_shapes s) keys_at (ov_lit_shapes s)"
  using assms by (auto simp: vm_ok_def)

lemma with_recv_sim:
  assumes "\<And>r. ov_heap s a = Some r \<Longrightarrow> simulates site keys_at n s (f (abs_recv r)) (g r)"
  shows "simulates site keys_at n s (with_recv (abs_vm s) a f) (with_recv (ov_heap s) a g)"
  using assms by (cases "ov_heap s a") (simp_all add: with_recv_def abs_vm_def simulates_def)

lemma get_sim:
  assumes ok: "vm_ok site keys_at s"
  shows "simulates site keys_at 0 s (abs_step h site keys_at (GetProp opt off a) (abs_vm s))
    (object_step h site specialize (GetProp opt off a) s)"
  unfolding abs_step.simps object_step.simps
proof (rule with_recv_sim)
  fix r assume r: "ov_heap s a = Some r"
  note parts = vm_ok_parts [OF ok]
  obtain ics' where ics': "ics_sound (ov_shapes s) site ics'"
    "get_prop h opt specialize (ov_field_ics s) off r (site off)
      = res_bind (abs_get h opt (abs_recv r) (site off)) (\<lambda>v. Ok (v, ics'))"
    using get_prop_abs [OF parts(1) parts(2) [OF r] parts(3)] by blast
  have "vm_ok site keys_at (s\<lparr>ov_field_ics := ics'\<rparr>)" "abs_vm (s\<lparr>ov_field_ics := ics'\<rparr>) = abs_vm s"
    using ok ics'(1) by (simp_all add: vm_ok_def abs_vm_def)
  then show "simulates site keys_at 0 s
      (res_bind (map_err PropError (abs_get h opt (abs_recv r) (site off))) (\<lambda>v. Ok (ObsValue v, abs_vm s)))
      (res_bind (map_err PropError (get_prop h opt specialize (ov_field_ics s) off r (site off)))
        (\<lambda>(v, ics). Ok (ObsValue v, s\<lparr>ov_field_ics := ics\<rparr>)))"
    by (cases "abs_get h opt (abs_recv r) (site off)") (simp_all add: ics'(2) simulates_def)
qed

lemma set_sim:
  assumes ok: "vm_ok site keys_at s" and room: "length (sr_keys (ov_shapes s)) + 1 \<le> 2 ^ 32"
  shows "simulates site keys_at 1 s (abs_step h site keys_at (SetProp off a v) (abs_vm s))
    (object_step h site specialize (SetProp off a v) s)"
  unfolding abs_step.simps object_step.simps
proof (rule with_recv_sim)
  fix r assume r: "ov_heap s a = Some r"
  note parts = vm_ok_parts [OF ok]
  have room': "length (sr_keys (ov_shapes s)) < 2 ^ 32" using room by simp
  let ?abs = "abs_set h (abs_recv r) (site off) v"
  let ?conc = "vm_set_prop h specialize (ov_shapes s) (ov_field_ics s) off r (site off) v"
  from set_prop_abs [OF parts(1) room' parts(2) [OF r] parts(3), of h off v specialize]
  consider w b r' reg ics where "?abs = Ok (w, b)" "wrote (ov_shapes s) site b (r', reg, ics)" "?conc = Ok (w, r', reg, ics)"
    | e where "?abs = Err e" "?conc = Err e" | "?abs = Panic" "?conc = Panic"
    by (metis prod_cases3)
  then show "simulates site keys_at 1 s (res_bind (map_err PropError ?abs) (\<lambda>(w, r'). Ok (ObsValue w, (abs_vm s)(a \<mapsto> r'))))
      (res_bind (map_err PropError ?conc) (\<lambda>(w, r', reg, ics).
        Ok (ObsValue w, s\<lparr>ov_heap := (ov_heap s)(a \<mapsto> r'), ov_shapes := reg, ov_field_ics := ics\<rparr>)))"
  proof cases
    case 1
    then have w: "reg_ok reg" "extends (ov_shapes s) reg" "recv_ok reg r'" "ics_sound reg site ics" "abs_recv r' = b"
      "length (sr_keys reg) \<le> Suc (length (sr_keys (ov_shapes s)))" by (simp_all add: wrote_def)
    let ?s = "s\<lparr>ov_heap := (ov_heap s)(a \<mapsto> r'), ov_shapes := reg, ov_field_ics := ics\<rparr>"
    have "vm_ok site keys_at ?s \<and> abs_vm ?s = (abs_vm s)(a \<mapsto> abs_recv r')"
      by (rule vm_ok_update [OF ok]) (use w lits_sound_mono [OF parts(4) w(2)] in simp_all)
    with 1 w show ?thesis by (simp add: simulates_def)
  qed (simp_all add: simulates_def)
qed

lemma set_index_object_sim:
  assumes ok: "vm_ok site keys_at s" and room: "length (sr_keys (ov_shapes s)) + 1 \<le> 2 ^ 32"
    and r: "ov_heap s a = Some (RObject c)"
  shows "simulates site keys_at 1 s
      (res_bind (abs_set_index h (abs_recv (RObject c)) idx v) (\<lambda>(w, r'). Ok (ObsValue w, (abs_vm s)(a \<mapsto> r'))))
      (res_bind (set_index_recv h (ov_shapes s) (RObject c) idx v) (\<lambda>(w, r', reg).
        Ok (ObsValue w, s\<lparr>ov_heap := (ov_heap s)(a \<mapsto> r'), ov_shapes := reg\<rparr>)))"
proof (cases "\<not> oc_frozen c \<and> (\<exists>k. h_as_str h idx = Some k)")
  case True
  note parts = vm_ok_parts [OF ok]
  from True obtain k where c: "\<not> oc_frozen c" "h_as_str h idx = Some k" by blast
  have room': "length (sr_keys (ov_shapes s)) < 2 ^ 32" using room by simp
  have "cell_ok (ov_shapes s) c" using parts(2) [OF r] by simp
  then obtain c' reg where c': "vm_object_insert (ov_shapes s) c k v = Some (c', reg)" "reg_ok reg"
    "extends (ov_shapes s) reg" "length (sr_keys reg) \<le> Suc (length (sr_keys (ov_shapes s)))" "cell_ok reg c'"
    "cell_entries c' = im_insert k v (cell_entries c)" "oc_frozen c' = oc_frozen c"
    by (rule object_insert_abs [OF parts(1) room'])
  let ?s = "s\<lparr>ov_heap := (ov_heap s)(a \<mapsto> RObject c'), ov_shapes := reg\<rparr>"
  have "vm_ok site keys_at ?s \<and> abs_vm ?s = (abs_vm s)(a \<mapsto> abs_recv (RObject c'))"
    by (rule vm_ok_update [OF ok])
      (use c' ics_sound_mono [OF parts(3) c'(3)] lits_sound_mono [OF parts(4) c'(3)] in simp_all)
  with c c' show ?thesis
    by (simp add: simulates_def abs_set_index_def set_index_recv_def set_index_object_def)
next
  case False
  then show ?thesis
    by (cases "h_as_str h idx")
      (auto simp: simulates_def abs_set_index_def set_index_recv_def set_index_object_def)
qed

lemma set_index_other_sim:
  assumes ok: "vm_ok site keys_at s" and r: "ov_heap s a = Some (ROther x)"
  shows "simulates site keys_at 1 s
      (res_bind (abs_set_index h (abs_recv (ROther x)) idx v) (\<lambda>(w, r'). Ok (ObsValue w, (abs_vm s)(a \<mapsto> r'))))
      (res_bind (set_index_recv h (ov_shapes s) (ROther x) idx v) (\<lambda>(w, r', reg).
        Ok (ObsValue w, s\<lparr>ov_heap := (ov_heap s)(a \<mapsto> r'), ov_shapes := reg\<rparr>)))"
proof -
  note parts = vm_ok_parts [OF ok]
  let ?s = "\<lambda>y. s\<lparr>ov_heap := (ov_heap s)(a \<mapsto> ROther y)\<rparr>"
  have upd: "vm_ok site keys_at (?s y)" "abs_vm (?s y) = (abs_vm s)(a \<mapsto> AOther y)" for y
    using vm_ok_update [OF ok, of "?s y" a "ROther y"] parts by simp_all
  show ?thesis
  proof (cases "h_frozen_other h x")
    case None
    with upd show ?thesis
      by (cases "h_index_other h x idx v")
        (auto simp: simulates_def abs_set_index_def set_index_recv_def index_set_other_def)
  qed (simp add: simulates_def abs_set_index_def set_index_recv_def index_set_other_def)
qed

lemma set_index_sim:
  assumes ok: "vm_ok site keys_at s" and room: "length (sr_keys (ov_shapes s)) + 1 \<le> 2 ^ 32"
  shows "simulates site keys_at 1 s (abs_step h site keys_at (SetIndex a idx v) (abs_vm s))
    (object_step h site specialize (SetIndex a idx v) s)"
  unfolding abs_step.simps object_step.simps
proof (rule with_recv_sim)
  fix r assume r: "ov_heap s a = Some r"
  show "simulates site keys_at 1 s (res_bind (abs_set_index h (abs_recv r) idx v) (\<lambda>(w, r'). Ok (ObsValue w, (abs_vm s)(a \<mapsto> r'))))
      (res_bind (set_index_recv h (ov_shapes s) r idx v) (\<lambda>(w, r', reg).
        Ok (ObsValue w, s\<lparr>ov_heap := (ov_heap s)(a \<mapsto> r'), ov_shapes := reg\<rparr>)))"
  proof (cases r)
    case (RInstance i)
    then show ?thesis
      by (simp add: simulates_def abs_set_index_def set_index_recv_def index_set_other_def)
  qed (use r set_index_object_sim [OF ok room] set_index_other_sim [OF ok] in blast)+
qed

lemma new_object_sim:
  assumes ok: "vm_ok site keys_at s" and room: "length (sr_keys (ov_shapes s)) + length kvs \<le> 2 ^ 32"
    and op: "op_ok h keys_at (NewObject off a kvs)"
  shows "simulates site keys_at (length kvs) s (abs_step h site keys_at (NewObject off a kvs) (abs_vm s))
    (object_step h site specialize (NewObject off a kvs) s)"
proof -
  note parts = vm_ok_parts [OF ok]
  have len: "length kvs < 2 ^ 16" and keys: "list_all2 (\<lambda>kv k. h_as_str h (fst kv) = Some k) kvs (keys_at off)"
    using op by simp_all
  obtain c reg lits where run: "exec_new_object_cached (h_nil h) (h_as_str h) specialize (ov_shapes s) (ov_lit_shapes s) off kvs
      = Ok (c, reg, lits)"
    and b: "literal_built (ov_shapes s) keys_at (length kvs) (index_map_of (zip (keys_at off) (map snd kvs))) (c, reg, lits)"
    using new_object_builds [where nil = "h_nil h" and specialize = specialize, OF parts(1) room keys len parts(4)] by force
  have w: "reg_ok reg" "extends (ov_shapes s) reg" "cell_ok reg c" "\<not> oc_frozen c" "lits_sound reg keys_at lits"
    "cell_entries c = index_map_of (zip (keys_at off) (map snd kvs))"
    "length (sr_keys reg) \<le> length (sr_keys (ov_shapes s)) + length kvs" using b by (simp_all add: literal_built_def)
  let ?s = "s\<lparr>ov_heap := (ov_heap s)(a \<mapsto> RObject c), ov_shapes := reg, ov_lit_shapes := lits\<rparr>"
  have "vm_ok site keys_at ?s \<and> abs_vm ?s = (abs_vm s)(a \<mapsto> abs_recv (RObject c))"
    by (rule vm_ok_update [OF ok]) (use w ics_sound_mono [OF parts(3) w(2)] in simp_all)
  with run w show ?thesis by (simp add: simulates_def)
qed

lemma delete_sim:
  assumes ok: "vm_ok site keys_at s"
  shows "simulates site keys_at 0 s (abs_step h site keys_at (DeleteKey a key) (abs_vm s))
    (object_step h site specialize (DeleteKey a key) s)"
  unfolding abs_step.simps object_step.simps
proof (rule with_recv_sim)
  fix r assume r: "ov_heap s a = Some r"
  note parts = vm_ok_parts [OF ok]
  show "simulates site keys_at 0 s (res_bind (abs_delete h (abs_recv r) key) (\<lambda>(x, r'). Ok (ObsBool x, (abs_vm s)(a \<mapsto> r'))))
      (res_bind (object_delete h r key) (\<lambda>(x, r'). Ok (ObsBool x, s\<lparr>ov_heap := (ov_heap s)(a \<mapsto> r')\<rparr>)))"
  proof (cases "\<exists>c k. r = RObject c \<and> h_as_str h key = Some k")
    case True
    then obtain c k where c: "r = RObject c" "h_as_str h key = Some k" by blast
    then have cell: "cell_ok (ov_shapes s) c" using parts(2) [OF r] by simp
    obtain c' where c': "cell_shift_remove c k = Some (map_of (cell_entries c) k, c')" "cell_ok (ov_shapes s) c'"
      "cell_entries c' = im_shift_remove k (cell_entries c)" "oc_shape c' = 0" "oc_frozen c' = oc_frozen c"
      using cell_remove_dict [OF cell, of k] by blast
    then have same: "c'\<lparr>oc_shape := 0\<rparr> = c'" by (cases c') simp
    let ?s = "s\<lparr>ov_heap := (ov_heap s)(a \<mapsto> RObject c')\<rparr>"
    have "vm_ok site keys_at ?s \<and> abs_vm ?s = (abs_vm s)(a \<mapsto> abs_recv (RObject c'))"
      by (rule vm_ok_update [OF ok]) (use c' parts in simp_all)
    with c c' show ?thesis by (simp add: simulates_def abs_delete_def object_delete_def Let_def same)
  next
    case False
    then show ?thesis by (cases r; cases "h_as_str h key") (auto simp: simulates_def abs_delete_def object_delete_def)
  qed
qed

lemma freeze_sim:
  assumes ok: "vm_ok site keys_at s"
  shows "simulates site keys_at 0 s (abs_step h site keys_at (Freeze a) (abs_vm s)) (object_step h site specialize (Freeze a) s)"
  unfolding abs_step.simps object_step.simps
proof (rule with_recv_sim)
  fix r assume r: "ov_heap s a = Some r"
  note parts = vm_ok_parts [OF ok]
  have fr: "abs_recv (freeze_value h r) = abs_freeze h (abs_recv r)" "recv_ok (ov_shapes s) (freeze_value h r)"
    using parts(2) [OF r] by (cases r; simp add: cell_freeze_def cell_entries_def cell_ok_def inst_ok_def)+
  let ?s = "s\<lparr>ov_heap := (ov_heap s)(a \<mapsto> freeze_value h r)\<rparr>"
  have "vm_ok site keys_at ?s \<and> abs_vm ?s = (abs_vm s)(a \<mapsto> abs_recv (freeze_value h r))"
    by (rule vm_ok_update [OF ok]) (use fr parts in simp_all)
  with fr show "simulates site keys_at 0 s (Ok (ObsRef a, (abs_vm s)(a \<mapsto> abs_freeze h (abs_recv r)))) (Ok (ObsRef a, ?s))"
    by (simp add: simulates_def)
qed

lemma step_sim:
  assumes "vm_ok site keys_at s" and "op_ok h keys_at op" and "length (sr_keys (ov_shapes s)) + op_cost op \<le> 2 ^ 32"
  shows "simulates site keys_at (op_cost op) s (abs_step h site keys_at op (abs_vm s)) (object_step h site specialize op s)"
proof (cases op)
  case (SetProp off a v)
  then show ?thesis using assms set_sim [of site keys_at s h off a v specialize] by (simp del: abs_step.simps object_step.simps)
next
  case (SetIndex a idx v)
  then show ?thesis using assms set_index_sim [of site keys_at s h a idx v specialize] by (simp del: abs_step.simps object_step.simps)
next
  case (NewObject off a kvs)
  then show ?thesis using assms new_object_sim [of site keys_at s kvs h off a specialize] by (simp del: abs_step.simps object_step.simps)
qed (use assms get_sim delete_sim freeze_sim in \<open>simp_all del: abs_step.simps object_step.simps\<close>)

lemma run_sim:
  assumes "vm_ok site keys_at s" and "list_all (op_ok h keys_at) ops"
    and "length (sr_keys (ov_shapes s)) + sum_list (map op_cost ops) \<le> 2 ^ 32"
  shows "abs_run h site keys_at ops (abs_vm s) =
    (fst (object_run h site specialize ops s), abs_vm (snd (object_run h site specialize ops s)))"
  using assms
proof (induction ops arbitrary: s)
  case (Cons op ops)
  have sim: "simulates site keys_at (op_cost op) s (abs_step h site keys_at op (abs_vm s)) (object_step h site specialize op s)"
    using Cons.prems by (intro step_sim) simp_all
  show ?case
  proof (cases "abs_step h site keys_at op (abs_vm s)")
    case (Ok p)
    obtain x t where p: "p = (x, t)" by (cases p)
    from sim obtain s' where s': "object_step h site specialize op s = Ok (x, s')" "vm_ok site keys_at s'" "abs_vm s' = t"
      "length (sr_keys (ov_shapes s')) \<le> length (sr_keys (ov_shapes s)) + op_cost op" by (auto simp: simulates_def Ok p)
    have "abs_run h site keys_at ops (abs_vm s') =
        (fst (object_run h site specialize ops s'), abs_vm (snd (object_run h site specialize ops s')))"
      using s' Cons.prems by (intro Cons.IH) simp_all
    with s' Ok p show ?thesis by simp
  next
    case (Err e)
    with sim have "object_step h site specialize op s = Err e" by (simp add: simulates_def)
    moreover have "abs_run h site keys_at ops (abs_vm s) =
        (fst (object_run h site specialize ops s), abs_vm (snd (object_run h site specialize ops s)))"
      using Cons.prems by (intro Cons.IH) simp_all
    ultimately show ?thesis using Err by simp
  next
    case Panic
    with sim show ?thesis by (simp add: simulates_def)
  qed
qed simp

section \<open>Properties\<close>

definition vm_new :: "('v, 'o) object_vm" where
  "vm_new = \<lparr>ov_shapes = registry_new, ov_heap = Map.empty, ov_field_ics = Map.empty, ov_lit_shapes = Map.empty\<rparr>"

lemma vm_ok_new: "vm_ok site keys_at vm_new"
  by (simp add: vm_ok_def vm_new_def reg_ok_new ics_sound_empty lits_sound_empty)

text \<open>
  C6: hidden classes and inline caches are invisible.  Whatever sequence of property reads, property and
  index writes, object literals, deletions and freezes a program makes, a fresh machine shows the results
  of the machine whose objects are plain insertion-ordered maps: the same values, the same errors, no
  panic of its own, and at the end of the run every address holds the same receiver, with the same
  entries in the same order and the same frozen flag.  This holds with specialization on and with it off,
  so the switch changes nothing a program can see.  Compiled code fixes the name of a property site and
  the keys of a literal site, and the number of operations is bounded so that shape ids do not wrap.
\<close>

theorem caches_invisible:
  assumes "list_all (op_ok h keys_at) ops" and "sum_list (map op_cost ops) < 2 ^ 32"
    and "object_run h site specialize ops vm_new = (results, final)"
  shows "abs_run h site keys_at ops Map.empty = (results, \<lambda>a. map_option abs_recv (ov_heap final a))"
proof -
  have "abs_run h site keys_at ops (abs_vm vm_new) = (results, abs_vm final)"
    using run_sim [OF vm_ok_new assms(1), of site specialize] assms(2,3)
    by (simp add: vm_new_def registry_new_def)
  moreover have "abs_vm vm_new = (Map.empty :: ('a, 'b) abs_heap)" by (simp add: abs_vm_def vm_new_def)
  ultimately show ?thesis by (simp only: abs_vm_def [of final])
qed

text \<open>A host over strings, and a program that grows, shrinks, reads and freezes an object.\<close>

definition string_host :: "(rstring, unit, unit) host" where
  "string_host = \<lparr>h_as_str = Some, h_nil = [], h_is_nil = (\<lambda>_. True), h_compiled = (\<lambda>_ _. None), h_method = (\<lambda>_ _. None),
     h_contract = (\<lambda>_ _ _. Ok ()), h_frozen_other = (\<lambda>_. None), h_read_other = (\<lambda>_ _. Err ()), h_set_other = (\<lambda>_ _ _. Err ()),
     h_index_other = (\<lambda>_ _ _. Err ()), h_freeze_other = id\<rparr>"

definition sample_ops :: "rstring object_op list" where
  "sample_ops = [NewObject 0 1 [([97], [1]), ([98], [2]), ([97], [3])], SetProp 4 1 [9], GetProp False 4 1, GetProp False 8 1,
     DeleteKey 1 [97], GetProp False 8 1, Freeze 1, SetProp 4 1 [7]]"

theorem caches_invisible_witness:
  "\<exists>final. object_run string_host (\<lambda>off. if off = 4 then [99] else [98]) True sample_ops vm_new =
     ([Ok (ObsRef 1), Ok (ObsValue [9]), Ok (ObsValue [9]), Ok (ObsValue [2]), Ok (ObsBool True), Ok (ObsValue [2]),
       Ok (ObsRef 1), Err (PropError (CannotMutateFrozen ''object''))], final)
    \<and> map_option abs_recv (ov_heap final 1) = Some (AObject [([98], [2]), ([99], [9])] True)"
proof -
  have ok: "list_all (op_ok string_host (\<lambda>_. [[97], [98], [97]])) sample_ops" "sum_list (map op_cost sample_ops) < 2 ^ 32"
    by (simp_all add: sample_ops_def string_host_def)
  obtain results final where run:
    "object_run string_host (\<lambda>off. if off = 4 then [99] else [98]) True sample_ops vm_new = (results, final)" by fastforce
  have spec: "abs_run string_host (\<lambda>off. if off = 4 then [99] else [98]) (\<lambda>_. [[97], [98], [97]]) sample_ops Map.empty =
     ([Ok (ObsRef 1), Ok (ObsValue [9]), Ok (ObsValue [9]), Ok (ObsValue [2]), Ok (ObsBool True), Ok (ObsValue [2]),
       Ok (ObsRef 1), Err (PropError (CannotMutateFrozen ''object''))], [1 \<mapsto> AObject [([98], [2]), ([99], [9])] True])"
    by (simp add: sample_ops_def string_host_def with_recv_def abs_delete_def or_nil_def index_map_of_def im_shift_remove_def)
  have agree: "[Ok (ObsRef 1), Ok (ObsValue [9]), Ok (ObsValue [9]), Ok (ObsValue [2]), Ok (ObsBool True), Ok (ObsValue [2]),
       Ok (ObsRef 1), Err (PropError (CannotMutateFrozen ''object''))] = results
     \<and> [1 \<mapsto> AObject [([98], [2]), ([99], [9])] True] = (\<lambda>a. map_option abs_recv (ov_heap final a))"
    using caches_invisible [OF ok run] unfolding spec by (simp only: prod.inject)
  have "map_option abs_recv (ov_heap final 1) = Some (AObject [([98], [2]), ([99], [9])] True)"
    using fun_cong [OF conjunct2 [OF agree], of 1] by (metis fun_upd_same)
  with run conjunct1 [OF agree] show ?thesis by simp
qed



end
