(* ===== verification/Resolver.thy ===== *)
theory Resolver
  imports Ast
begin

text \<open>
  Name resolution (\<open>src/src/syntax/resolve/mod.rs\<close>) over the fragment of the syntax tree that has
  no function, class or pattern: literals, names, operators, assignments to names, ranges, the
  ternary operator, \<open>let\<close> and \<open>const\<close>, blocks, \<open>if\<close>, \<open>while\<close>, \<open>break\<close>, \<open>continue\<close>
  and \<open>return\<close>.

  A node keeps its text range, the key under which the resolver records what it finds, and the span
  of its code without leading trivia.  Without functions there is one frame, so the upvalue search
  ends at once, and nothing is hoisted or captured.

  Ranges are those of an ASCII source, where the byte range that keys the resolver's tables and the
  character span that the compiler records are the same numbers.  What the compiler relies on is stated
  and proved of these definitions in \<open>ResolverProps\<close>.
\<close>

section \<open>The syntax tree\<close>

datatype node = Node (text_range: span) (code_span: span)

datatype literal = NumInt u64 | NumFloat u64 | StrLit rstring | BoolLit bool | NilLit

datatype assign_tok = TokEq | TokPlusEq | TokMinusEq | TokStarEq | TokSlashEq

datatype cst =
    CLiteral literal node
  | CNameRef rstring node
  | CUnary un_op cst node
  | CBinary bin_op cst cst node
  | CParen cst node
  | CAssign assign_tok cst cst node
  | CRange cst cst bool "cst option" node
  | CTernary cst cst cst node

text \<open>The \<open>else\<close> of an \<open>if\<close> is another \<open>if\<close> or a block.\<close>

datatype cst_stmt =
    SExpr cst node
  | SLet bool rstring "cst option" node
  | SBlock "cst_stmt list" node
  | SIf cst "cst_stmt list" "cst_stmt option" node
  | SWhile cst "cst_stmt list" node
  | SBreak node
  | SContinue node
  | SReturn "cst option" node

section \<open>The resolver\<close>

datatype resolution = Local nat | Upvalue nat | Global rstring | Unresolved

datatype binding_kind =
    KindLet | KindConst | KindParam | KindFn | KindClass | KindInterface | KindEnum | KindImport
  | KindPatternBind | KindLoopVar

record rbinding =
  rb_name :: rstring
  rb_kind :: binding_kind
  rb_slot :: nat
  rb_decl :: span
  rb_captured :: bool
  rb_mutated :: bool
  rb_use_count :: nat
  rb_shadows :: "span option"
  rb_mutable :: bool
  rb_global :: bool

text \<open>
  The state: the maps of the result, the bindings and the slot counter of the one frame, its scopes
  (innermost first), and what is known of the module's globals.
\<close>

record resolver =
  rs_uses :: "span \<rightharpoonup> resolution"
  rs_immutable :: "span set"
  rs_global_decls :: "span set"
  rs_diagnostics :: "(rstring \<times> span) list"
  rs_bindings :: "rbinding list"
  rs_next_slot :: nat
  rs_scopes :: "(rstring \<rightharpoonup> nat) list"
  rs_module_globals :: "rstring set"
  rs_global_mutable :: "rstring \<rightharpoonup> bool"
  rs_global_uses :: "rstring \<Rightarrow> nat"
  rs_global_bindings :: "rbinding list"
  rs_mutated_globals :: "rstring set"

definition resolver_new :: resolver where
  "resolver_new = \<lparr>rs_uses = Map.empty, rs_immutable = {}, rs_global_decls = {}, rs_diagnostics = [],
     rs_bindings = [], rs_next_slot = 0, rs_scopes = [], rs_module_globals = {}, rs_global_mutable = Map.empty, rs_global_uses = (\<lambda>_. 0),
     rs_global_bindings = [], rs_mutated_globals = {}\<rparr>"

definition push_scope :: "resolver \<Rightarrow> resolver" where
  "push_scope r = r\<lparr>rs_scopes := Map.empty # rs_scopes r\<rparr>"

definition pop_scope :: "resolver \<Rightarrow> resolver" where
  "pop_scope r = r\<lparr>rs_scopes := tl (rs_scopes r)\<rparr>"

definition at_module_top :: "resolver \<Rightarrow> bool" where
  "at_module_top r \<longleftrightarrow> length (rs_scopes r) = 1"

definition kind_is_mutable :: "binding_kind \<Rightarrow> bool" where
  "kind_is_mutable k \<longleftrightarrow> k = KindLet \<or> k = KindParam"

definition U32_MAX :: nat where "U32_MAX = 2 ^ 32 - 1"

fun resolve_local_in :: "(rstring \<rightharpoonup> nat) list \<Rightarrow> rstring \<Rightarrow> nat option" where
  "resolve_local_in [] name = None"
| "resolve_local_in (scope # scopes) name =
     (case scope name of Some slot \<Rightarrow> Some slot | None \<Rightarrow> resolve_local_in scopes name)"

definition resolve_local :: "resolver \<Rightarrow> rstring \<Rightarrow> nat option" where
  "resolve_local r name = resolve_local_in (rs_scopes r) name"

definition declare_global :: "rstring \<Rightarrow> binding_kind \<Rightarrow> span \<Rightarrow> bool \<Rightarrow> resolver \<Rightarrow> resolver" where
  "declare_global name kind decl mutable r =
     (let r1 = r\<lparr>rs_global_decls := insert decl (rs_global_decls r)\<rparr> in
      if list_ex (\<lambda>b. rb_name b = name) (rs_global_bindings r1)
      then r1\<lparr>rs_diagnostics := rs_diagnostics r1 @ [(name, decl)]\<rparr>
      else r1\<lparr>rs_global_bindings := rs_global_bindings r1 @ [\<lparr>rb_name = name, rb_kind = kind, rb_slot = U32_MAX,
        rb_decl = decl, rb_captured = False, rb_mutated = False, rb_use_count = 0, rb_shadows = None,
        rb_mutable = mutable, rb_global = True\<rparr>]\<rparr>)"

definition shadowed :: "resolver \<Rightarrow> rstring \<Rightarrow> span option" where
  "shadowed r name =
     (case Option.bind (resolve_local r name) (\<lambda>outer.
        map_option rb_decl (find (\<lambda>b. rb_slot b = outer) (rs_bindings r))) of
        Some d \<Rightarrow> Some d
      | None \<Rightarrow> if name \<in> rs_module_globals r
          then map_option rb_decl (find (\<lambda>b. rb_name b = name) (rs_global_bindings r)) else None)"

definition declare_mut :: "rstring \<Rightarrow> binding_kind \<Rightarrow> span \<Rightarrow> bool \<Rightarrow> resolver \<Rightarrow> nat \<times> resolver" where
  "declare_mut name kind decl mutable r =
     (let slot = rs_next_slot r in
      (slot, r\<lparr>rs_next_slot := slot + 1,
        rs_bindings := rs_bindings r @ [\<lparr>rb_name = name, rb_kind = kind, rb_slot = slot, rb_decl = decl,
          rb_captured = False, rb_mutated = False, rb_use_count = 0, rb_shadows = shadowed r name,
          rb_mutable = mutable, rb_global = False\<rparr>],
        rs_scopes := (hd (rs_scopes r))(name \<mapsto> slot) # tl (rs_scopes r)\<rparr>))"

definition declare_binding_mut :: "rstring \<Rightarrow> binding_kind \<Rightarrow> span \<Rightarrow> bool \<Rightarrow> resolver \<Rightarrow> nat \<times> resolver" where
  "declare_binding_mut name kind decl mutable r =
     (if at_module_top r \<and> name \<in> rs_module_globals r then (U32_MAX, declare_global name kind decl mutable r)
      else declare_mut name kind decl mutable r)"

definition declare_binding :: "rstring \<Rightarrow> binding_kind \<Rightarrow> span \<Rightarrow> resolver \<Rightarrow> nat \<times> resolver" where
  "declare_binding name kind decl r = declare_binding_mut name kind decl (kind_is_mutable kind) r"

text \<open>The first binding with a slot is updated.\<close>

fun update_slot :: "(rbinding \<Rightarrow> rbinding) \<Rightarrow> nat \<Rightarrow> rbinding list \<Rightarrow> rbinding list" where
  "update_slot f slot [] = []"
| "update_slot f slot (b # bs) = (if rb_slot b = slot then f b # bs else b # update_slot f slot bs)"

definition bump_use :: "nat \<Rightarrow> resolver \<Rightarrow> resolver" where
  "bump_use slot r = r\<lparr>rs_bindings := update_slot (\<lambda>b. b\<lparr>rb_use_count := rb_use_count b + 1\<rparr>) slot (rs_bindings r)\<rparr>"

definition resolve_name :: "rstring \<Rightarrow> resolver \<Rightarrow> resolution \<times> resolver" where
  "resolve_name name r =
     (case resolve_local r name of
        Some slot \<Rightarrow> (Local slot, bump_use slot r)
      | None \<Rightarrow> (Global name,
          if name \<in> rs_module_globals r then r\<lparr>rs_global_uses := (rs_global_uses r)(name := rs_global_uses r name + 1)\<rparr> else r))"

definition mark_mutated_target :: "rstring \<Rightarrow> span \<Rightarrow> resolver \<Rightarrow> resolver" where
  "mark_mutated_target name key r =
     (case resolve_local r name of
        Some slot \<Rightarrow>
          (case find (\<lambda>b. rb_slot b = slot) (rs_bindings r) of
             Some b \<Rightarrow> r\<lparr>rs_bindings := update_slot (\<lambda>b. b\<lparr>rb_mutated := True\<rparr>) slot (rs_bindings r),
               rs_immutable := (if rb_mutable b then rs_immutable r else insert key (rs_immutable r))\<rparr>
           | None \<Rightarrow> r)
      | None \<Rightarrow>
          (case rs_global_mutable r name of
             Some mutable \<Rightarrow> r\<lparr>rs_immutable := (if mutable then rs_immutable r else insert key (rs_immutable r)),
               rs_mutated_globals := insert name (rs_mutated_globals r)\<rparr>
           | None \<Rightarrow> r))"

fun resolve_expr :: "cst \<Rightarrow> resolver \<Rightarrow> resolver" where
  "resolve_expr (CLiteral l nd) r = r"
| "resolve_expr (CNameRef name nd) r =
     (let (resolution, r1) = resolve_name name r in r1\<lparr>rs_uses := (rs_uses r1)(text_range nd \<mapsto> resolution)\<rparr>)"
| "resolve_expr (CUnary op e nd) r = resolve_expr e r"
| "resolve_expr (CBinary op a b nd) r = resolve_expr b (resolve_expr a r)"
| "resolve_expr (CParen e nd) r = resolve_expr e r"
| "resolve_expr (CAssign tok target v nd) r =
     (let r1 = (case target of CNameRef name tnd \<Rightarrow> mark_mutated_target name (text_range tnd) r | _ \<Rightarrow> r) in
      resolve_expr v (resolve_expr target r1))"
| "resolve_expr (CRange a b incl step nd) r =
     (let r1 = resolve_expr b (resolve_expr a r) in
      case step of Some s \<Rightarrow> resolve_expr s r1 | None \<Rightarrow> r1)"
| "resolve_expr (CTernary c a b nd) r = resolve_expr b (resolve_expr a (resolve_expr c r))"

definition let_kind :: "bool \<Rightarrow> binding_kind" where
  "let_kind is_const = (if is_const then KindConst else KindLet)"

definition declare_let_bindings :: "bool \<Rightarrow> rstring \<Rightarrow> node \<Rightarrow> resolver \<Rightarrow> resolver" where
  "declare_let_bindings is_const name nd r = snd (declare_binding name (let_kind is_const) (text_range nd) r)"

fun resolve_stmt :: "cst_stmt \<Rightarrow> resolver \<Rightarrow> resolver"
  and resolve_stmts :: "cst_stmt list \<Rightarrow> resolver \<Rightarrow> resolver" where
  "resolve_stmt (SExpr e nd) r = resolve_expr e r"
| "resolve_stmt (SLet is_const name init nd) r =
     declare_let_bindings is_const name nd (case init of Some e \<Rightarrow> resolve_expr e r | None \<Rightarrow> r)"
| "resolve_stmt (SBlock ss nd) r = pop_scope (resolve_stmts ss (push_scope r))"
| "resolve_stmt (SIf c thn els nd) r =
     (let r1 = pop_scope (resolve_stmts thn (push_scope (resolve_expr c r))) in
      case els of Some s \<Rightarrow> resolve_stmt s r1 | None \<Rightarrow> r1)"
| "resolve_stmt (SWhile c body nd) r = pop_scope (resolve_stmts body (push_scope (resolve_expr c r)))"
| "resolve_stmt (SBreak nd) r = r"
| "resolve_stmt (SContinue nd) r = r"
| "resolve_stmt (SReturn e nd) r = (case e of Some e \<Rightarrow> resolve_expr e r | None \<Rightarrow> r)"
| "resolve_stmts [] r = r"
| "resolve_stmts (s # ss) r = resolve_stmts ss (resolve_stmt s r)"

definition register_global :: "rstring \<Rightarrow> bool \<Rightarrow> resolver \<Rightarrow> resolver" where
  "register_global name mutable r =
     r\<lparr>rs_global_mutable := (case rs_global_mutable r name of Some _ \<Rightarrow> rs_global_mutable r
        | None \<Rightarrow> (rs_global_mutable r)(name \<mapsto> mutable)),
       rs_module_globals := insert name (rs_module_globals r)\<rparr>"

definition collect_module_globals :: "cst_stmt \<Rightarrow> resolver \<Rightarrow> resolver" where
  "collect_module_globals s r =
     (case s of SLet is_const name _ _ \<Rightarrow> register_global name (let_kind is_const = KindLet) r | _ \<Rightarrow> r)"

definition resolve_file :: "cst_stmt list \<Rightarrow> resolver \<Rightarrow> resolver" where
  "resolve_file ss r = pop_scope (resolve_stmts ss (fold collect_module_globals ss (push_scope r)))"

record resolve_result =
  rr_uses :: "span \<rightharpoonup> resolution"
  rr_immutable :: "span set"
  rr_global_decls :: "span set"
  rr_diagnostics :: "(rstring \<times> span) list"
  rr_bindings :: "rbinding list"
  rr_slot_count :: nat
  rr_cell_slots :: "nat list"
  rr_module_globals :: "rstring set"

definition split_capture_slots :: "rbinding list \<Rightarrow> nat list \<times> nat list" where
  "split_capture_slots bs =
     (map rb_slot (filter (\<lambda>b. rb_captured b \<and> rb_mutated b) bs), map rb_slot (filter (\<lambda>b. rb_captured b \<and> \<not> rb_mutated b) bs))"

definition finish :: "resolver \<Rightarrow> resolve_result" where
  "finish r = \<lparr>rr_uses = rs_uses r, rr_immutable = rs_immutable r, rr_global_decls = rs_global_decls r,
     rr_diagnostics = rs_diagnostics r,
     rr_bindings = rs_bindings r @ map (\<lambda>b. b\<lparr>rb_use_count := rs_global_uses r (rb_name b),
       rb_mutated := rb_mutated b \<or> rb_name b \<in> rs_mutated_globals r\<rparr>) (rs_global_bindings r),
     rr_slot_count = rs_next_slot r, rr_cell_slots = fst (split_capture_slots (rs_bindings r)),
     rr_module_globals = rs_module_globals r\<rparr>"

definition resolve :: "cst_stmt list \<Rightarrow> resolve_result" where
  "resolve ss = finish (resolve_file ss resolver_new)"

end
