(* ===== verification/Compiler.thy ===== *)
theory Compiler
  imports Resolver Chunk
begin

text \<open>
  The bytecode compiler (\<open>src/src/compile/mod.rs\<close>) on the fragment of the syntax tree of the
  resolver: it walks the tree with the resolver's result and appends to a chunk through the emitters.

  A compiler method is a function on the compiler's state that may fail; the methods of compound
  nodes take the compiled parts as arguments, and \<open>compile_expr\<close> and \<open>compile_stmt\<close> tie them
  together.  Forward jumps are emitted with a hole and patched later; the holes of \<open>break\<close> stay
  open until the loop that they leave is complete.
\<close>

section \<open>State\<close>

record loop_ctx =
  lc_continue_target :: "nat option"
  lc_continue_sites :: "nat list"
  lc_break_sites :: "nat list"

text \<open>The enclosing loops are listed innermost first.\<close>

record compiler =
  co_chunk :: chunk
  co_resolved :: resolve_result
  co_loops :: "loop_ctx list"
  co_cells :: "nat set"
  co_depth :: nat

type_synonym compile_error = "string \<times> span"
type_synonym action = "compiler \<Rightarrow> (compiler, compile_error) result"

definition EXPR_NEST_LIMIT :: nat where "EXPR_NEST_LIMIT = 3000"

fun node_of :: "cst \<Rightarrow> node" where
  "node_of (CLiteral _ nd) = nd"
| "node_of (CNameRef _ nd) = nd"
| "node_of (CUnary _ _ nd) = nd"
| "node_of (CBinary _ _ _ nd) = nd"
| "node_of (CParen _ nd) = nd"
| "node_of (CAssign _ _ _ nd) = nd"
| "node_of (CRange _ _ _ _ nd) = nd"
| "node_of (CTernary _ _ _ nd) = nd"

abbreviation node_span :: "node \<Rightarrow> span" where "node_span \<equiv> text_range"

section \<open>Emission\<close>

definition with_chunk :: "(chunk \<Rightarrow> chunk) \<Rightarrow> compiler \<Rightarrow> compiler" where
  "with_chunk f st = st\<lparr>co_chunk := f (co_chunk st)\<rparr>"

definition jump_from :: "op \<Rightarrow> span \<Rightarrow> compiler \<Rightarrow> compiler \<times> nat" where
  "jump_from op sp st = (case emit_jump op sp (co_chunk st) of (c, site) \<Rightarrow> (st\<lparr>co_chunk := c\<rparr>, site))"

definition patch_site :: "nat \<Rightarrow> action" where
  "patch_site site st = res_bind (or_panic (patch_jump site (co_chunk st))) (\<lambda>c. Ok (st\<lparr>co_chunk := c\<rparr>))"

fun patch_sites :: "nat list \<Rightarrow> action" where
  "patch_sites [] st = Ok st"
| "patch_sites (site # sites) st = res_bind (patch_site site st) (patch_sites sites)"

definition emit_with_const :: "(decimal \<Rightarrow> decimal \<Rightarrow> bool) \<Rightarrow> op \<Rightarrow> val \<Rightarrow> span \<Rightarrow> compiler \<Rightarrow> compiler" where
  "emit_with_const deq op v sp st =
     (case add_const deq v (co_chunk st) of (c, idx) \<Rightarrow> st\<lparr>co_chunk := emit_u16 op idx sp c\<rparr>)"

text \<open>\<open>u16::try_from\<close>\<close>

definition slot_u16 :: "nat \<Rightarrow> string \<Rightarrow> span \<Rightarrow> (u16, compile_error) result" where
  "slot_u16 slot msg sp = (if slot \<le> 65535 then Ok (of_nat slot) else Err (msg, sp))"

definition emit_get_local :: "u16 \<Rightarrow> span \<Rightarrow> compiler \<Rightarrow> compiler" where
  "emit_get_local slot sp st =
     with_chunk (emit_u16 (if unat slot \<in> co_cells st then Op_GetLocalCell else Op_GetLocal) slot sp) st"

definition emit_set_local :: "u16 \<Rightarrow> span \<Rightarrow> compiler \<Rightarrow> compiler" where
  "emit_set_local slot sp st =
     with_chunk (emit_u16 (if unat slot \<in> co_cells st then Op_SetLocalCell else Op_SetLocal) slot sp) st"

definition global_mutable :: "resolve_result \<Rightarrow> rstring \<Rightarrow> bool" where
  "global_mutable rr name =
     (case find (\<lambda>b. rb_global b \<and> rb_name b = name) (rr_bindings rr) of Some b \<Rightarrow> rb_mutable b | None \<Rightarrow> False)"

definition emit_define_global :: "(decimal \<Rightarrow> decimal \<Rightarrow> bool) \<Rightarrow> rstring \<Rightarrow> span \<Rightarrow> compiler \<Rightarrow> compiler" where
  "emit_define_global deq name sp st =
     (case add_const deq (VStr name) (co_chunk st) of (c, idx) \<Rightarrow>
        st\<lparr>co_chunk := emit_u16_u8 Op_DefineGlobal idx (if global_mutable (co_resolved st) name then 1 else 0) sp c\<rparr>)"

definition let_slot :: "node \<Rightarrow> resolve_result \<Rightarrow> (u16, compile_error) result" where
  "let_slot nd rr =
     (case find (\<lambda>b. rb_decl b = text_range nd) (rr_bindings rr) of
        None \<Rightarrow> Err (''let declaration has no resolver binding (compiler bug)'', node_span nd)
      | Some b \<Rightarrow> slot_u16 (rb_slot b) ''local slot index exceeds 65535'' (node_span nd))"

section \<open>Expressions\<close>

primrec literal_const_value :: "literal \<Rightarrow> val" where
  "literal_const_value (NumInt i) = VInt i"
| "literal_const_value (NumFloat f) = VFloat f"
| "literal_const_value (StrLit s) = VStr s"
| "literal_const_value (BoolLit b) = VBool b"
| "literal_const_value NilLit = VNil"

definition compile_literal :: "(decimal \<Rightarrow> decimal \<Rightarrow> bool) \<Rightarrow> literal \<Rightarrow> node \<Rightarrow> action" where
  "compile_literal deq l nd st = Ok (emit_with_const deq Op_Const (literal_const_value l) (node_span nd) st)"

definition compile_name_ref :: "(decimal \<Rightarrow> decimal \<Rightarrow> bool) \<Rightarrow> rstring \<Rightarrow> node \<Rightarrow> action" where
  "compile_name_ref deq name nd st =
     (case rr_uses (co_resolved st) (text_range nd) of
        Some (Local slot) \<Rightarrow> res_bind (slot_u16 slot ''local slot index exceeds 65535'' (node_span nd))
          (\<lambda>s. Ok (emit_get_local s (node_span nd) st))
      | Some (Upvalue idx) \<Rightarrow> res_bind (slot_u16 idx ''upvalue index exceeds 65535'' (node_span nd))
          (\<lambda>i. Ok (with_chunk (emit_u16 Op_GetUpvalue i (node_span nd)) st))
      | Some (Global name) \<Rightarrow> Ok (emit_with_const deq Op_GetGlobal (VStr name) (node_span nd) st)
      | _ \<Rightarrow> Err (''undefined name'', node_span nd))"

text \<open>Two branches that join: the shape of the ternary operator and of \<open>if\<close>.\<close>

definition branch :: "action \<Rightarrow> action \<Rightarrow> action \<Rightarrow> span \<Rightarrow> action" where
  "branch cond thn els sp st =
     res_bind (cond st) (\<lambda>st1.
     case jump_from Op_JumpIfFalse sp st1 of (st2, jf) \<Rightarrow>
     res_bind (thn st2) (\<lambda>st3.
     case jump_from Op_Jump sp st3 of (st4, je) \<Rightarrow>
     res_bind (patch_site jf st4) (\<lambda>st5.
     res_bind (els st5) (patch_site je))))"

definition compile_ternary :: "action \<Rightarrow> action \<Rightarrow> action \<Rightarrow> node \<Rightarrow> action" where
  "compile_ternary cond thn els nd = branch cond thn els (node_span nd)"

definition short_circuit_op :: "bin_op \<Rightarrow> op option" where
  "short_circuit_op op = (case op of
      BAnd \<Rightarrow> Some Op_JumpIfFalse
    | BOr \<Rightarrow> Some Op_JumpIfTrue
    | BCoalesce \<Rightarrow> Some Op_JumpIfNotNil
    | _ \<Rightarrow> None)"

definition short_circuit :: "op \<Rightarrow> action \<Rightarrow> action \<Rightarrow> span \<Rightarrow> action" where
  "short_circuit jop lhs rhs sp st =
     res_bind (lhs st) (\<lambda>st1.
     case jump_from jop sp (with_chunk (emit Op_Dup sp) st1) of (st2, skip) \<Rightarrow>
     res_bind (rhs (with_chunk (emit Op_Pop sp) st2)) (patch_site skip))"

definition binary_bytecode :: "bin_op \<Rightarrow> op option" where
  "binary_bytecode op = (case op of
      BAdd \<Rightarrow> Some Op_Add | BSub \<Rightarrow> Some Op_Sub | BMul \<Rightarrow> Some Op_Mul | BDiv \<Rightarrow> Some Op_Div
    | BMod \<Rightarrow> Some Op_Mod | BPow \<Rightarrow> Some Op_Pow | BLt \<Rightarrow> Some Op_Lt | BLe \<Rightarrow> Some Op_Le
    | BGt \<Rightarrow> Some Op_Gt | BGe \<Rightarrow> Some Op_Ge | BEq \<Rightarrow> Some Op_Eq | BNe \<Rightarrow> Some Op_Ne
    | BInstanceOf \<Rightarrow> Some Op_InstanceOf
    | BBitAnd \<Rightarrow> Some Op_BitAnd | BBitOr \<Rightarrow> Some Op_BitOr | BBitXor \<Rightarrow> Some Op_BitXor
    | BShl \<Rightarrow> Some Op_Shl | BShr \<Rightarrow> Some Op_Shr
    | BWrapAdd \<Rightarrow> Some Op_WrapAdd | BWrapSub \<Rightarrow> Some Op_WrapSub | BWrapMul \<Rightarrow> Some Op_WrapMul
    | BAnd \<Rightarrow> None | BOr \<Rightarrow> None | BCoalesce \<Rightarrow> None | BRange \<Rightarrow> None)"

text \<open>\<open>int\<close>, \<open>float\<close>, \<open>number\<close>, \<open>string\<close>, \<open>bool\<close>\<close>

definition is_reserved_instanceof_type_name :: "rstring \<Rightarrow> bool" where
  "is_reserved_instanceof_type_name name \<longleftrightarrow> name \<in> set
     [[105, 110, 116], [102, 108, 111, 97, 116], [110, 117, 109, 98, 101, 114], [115, 116, 114, 105, 110, 103],
      [98, 111, 111, 108]]"

definition reserved_rhs :: "bin_op \<Rightarrow> cst \<Rightarrow> rstring option" where
  "reserved_rhs op rhs =
     (case rhs of
        CNameRef name _ \<Rightarrow> if op = BInstanceOf \<and> is_reserved_instanceof_type_name name then Some name else None
      | _ \<Rightarrow> None)"

definition compile_binary ::
  "(decimal \<Rightarrow> decimal \<Rightarrow> bool) \<Rightarrow> bin_op \<Rightarrow> action \<Rightarrow> action \<Rightarrow> cst \<Rightarrow> node \<Rightarrow> action" where
  "compile_binary deq op clhs crhs rhs nd st =
     (case short_circuit_op op of
        Some jop \<Rightarrow> short_circuit jop clhs crhs (code_span nd) st
      | None \<Rightarrow>
         (case reserved_rhs op rhs of
            Some name \<Rightarrow> res_bind (clhs st) (\<lambda>st1.
              Ok (emit_with_const deq Op_InstanceOfType (VStr name) (code_span nd) st1))
          | None \<Rightarrow> res_bind (clhs st) (\<lambda>st1. res_bind (crhs st1) (\<lambda>st2.
              case binary_bytecode op of
                Some bytecode \<Rightarrow> Ok (with_chunk (emit bytecode (code_span nd)) st2)
              | None \<Rightarrow> Err (''internal: unexpected binary operator (compiler invariant)'', code_span nd)))))"

definition compile_range :: "action \<Rightarrow> action \<Rightarrow> bool \<Rightarrow> action option \<Rightarrow> node \<Rightarrow> action" where
  "compile_range cstart cend inclusive cstep nd st =
     (case cstep of
        Some cs \<Rightarrow> res_bind (cstart st) (\<lambda>st1. res_bind (cend st1) (\<lambda>st2. res_bind (cs st2) (\<lambda>st3.
          Ok (with_chunk (emit_u8 Op_RangeStepValue ((if inclusive then 1 else 0) OR 2) (code_span nd)) st3))))
      | None \<Rightarrow> res_bind (cstart st) (\<lambda>st1. res_bind (cend st1) (\<lambda>st2.
          Ok (with_chunk (emit (if inclusive then Op_RangeInclusive else Op_Range) (code_span nd)) st2))))"

definition unary_bytecode :: "un_op \<Rightarrow> op" where
  "unary_bytecode op = (case op of UNeg \<Rightarrow> Op_Neg | UNot \<Rightarrow> Op_Not | UBitNot \<Rightarrow> Op_BitNot)"

definition compile_unary :: "un_op \<Rightarrow> action \<Rightarrow> cst \<Rightarrow> action" where
  "compile_unary op coperand operand st = res_bind (coperand st) (\<lambda>st1.
     Ok (with_chunk (emit (unary_bytecode op) (code_span (node_of operand))) st1))"

definition compound_op :: "assign_tok \<Rightarrow> op option" where
  "compound_op tok = (case tok of
      TokEq \<Rightarrow> None | TokPlusEq \<Rightarrow> Some Op_Add | TokMinusEq \<Rightarrow> Some Op_Sub
    | TokStarEq \<Rightarrow> Some Op_Mul | TokSlashEq \<Rightarrow> Some Op_Div)"

definition is_name_ref :: "cst \<Rightarrow> bool" where
  "is_name_ref e = (case e of CNameRef _ _ \<Rightarrow> True | _ \<Rightarrow> False)"

definition compile_target_read :: "action \<Rightarrow> cst \<Rightarrow> action" where
  "compile_target_read ctarget target st =
     (if is_name_ref target then ctarget st
      else Err (''invalid compound-assignment target'', node_span (node_of target)))"

definition store_name :: "(decimal \<Rightarrow> decimal \<Rightarrow> bool) \<Rightarrow> rstring \<Rightarrow> node \<Rightarrow> span \<Rightarrow> action" where
  "store_name deq name tnd sp st =
     (let imm = text_range tnd \<in> rr_immutable (co_resolved st) in
      case rr_uses (co_resolved st) (text_range tnd) of
        Some (Local slot) \<Rightarrow>
          if imm then Ok (emit_with_const deq Op_ImmutableError (VStr name) (code_span tnd) st)
          else res_bind (slot_u16 slot ''local slot index exceeds 65535'' sp)
            (\<lambda>s. Ok (emit_set_local s sp (with_chunk (emit Op_Dup sp) st)))
      | Some (Upvalue idx) \<Rightarrow>
          if imm then Ok (emit_with_const deq Op_ImmutableError (VStr name) (code_span tnd) st)
          else res_bind (slot_u16 idx ''upvalue index exceeds 65535'' sp)
            (\<lambda>i. Ok (with_chunk (emit_u16 Op_SetUpvalue i sp) (with_chunk (emit Op_Dup sp) st)))
      | Some (Global g) \<Rightarrow> Ok (emit_with_const deq Op_SetGlobal (VStr g) (code_span tnd) st)
      | _ \<Rightarrow> Err (''internal: assignment target resolved to an unexpected binding (compiler invariant)'', node_span tnd))"

definition compile_assign ::
  "(decimal \<Rightarrow> decimal \<Rightarrow> bool) \<Rightarrow> assign_tok \<Rightarrow> action \<Rightarrow> action \<Rightarrow> cst \<Rightarrow> cst \<Rightarrow> node \<Rightarrow> action" where
  "compile_assign deq tok ctarget cvalue target v nd st =
     res_bind
       (case compound_op tok of
          Some binop \<Rightarrow> res_bind (compile_target_read ctarget target st) (\<lambda>st1. res_bind (cvalue st1) (\<lambda>st2.
            Ok (with_chunk (emit binop (span_new (sp_start (code_span (node_of target))) (sp_end (code_span (node_of v))))) st2)))
        | None \<Rightarrow> cvalue st)
       (\<lambda>st3. case target of
          CNameRef name tnd \<Rightarrow> store_name deq name tnd (node_span nd) st3
        | _ \<Rightarrow> Err (''invalid assignment target'', node_span (node_of target)))"

text \<open>The nesting counter of \<open>compile_expr\<close>.\<close>

definition nested :: "span \<Rightarrow> action \<Rightarrow> action" where
  "nested sp inner st =
     (if co_depth st + 1 > EXPR_NEST_LIMIT then Err (''maximum recursion depth exceeded'', sp)
      else res_bind (inner (st\<lparr>co_depth := co_depth st + 1\<rparr>)) (\<lambda>st1. Ok (st1\<lparr>co_depth := co_depth st1 - 1\<rparr>)))"

fun compile_expr :: "(decimal \<Rightarrow> decimal \<Rightarrow> bool) \<Rightarrow> cst \<Rightarrow> action" where
  "compile_expr deq (CLiteral l nd) st = nested (node_span nd) (compile_literal deq l nd) st"
| "compile_expr deq (CNameRef name nd) st = nested (node_span nd) (compile_name_ref deq name nd) st"
| "compile_expr deq (CUnary op e nd) st = nested (node_span nd) (compile_unary op (compile_expr deq e) e) st"
| "compile_expr deq (CBinary op a b nd) st =
     nested (node_span nd) (compile_binary deq op (compile_expr deq a) (compile_expr deq b) b nd) st"
| "compile_expr deq (CParen e nd) st = nested (node_span nd) (compile_expr deq e) st"
| "compile_expr deq (CAssign tok target v nd) st =
     nested (node_span nd) (compile_assign deq tok (compile_expr deq target) (compile_expr deq v) target v nd) st"
| "compile_expr deq (CRange a b incl step nd) st =
     nested (node_span nd) (compile_range (compile_expr deq a) (compile_expr deq b) incl
       (case step of Some s \<Rightarrow> Some (compile_expr deq s) | None \<Rightarrow> None) nd) st"
| "compile_expr deq (CTernary c a b nd) st =
     nested (node_span nd) (compile_ternary (compile_expr deq c) (compile_expr deq a) (compile_expr deq b) nd) st"

section \<open>Statements\<close>

text \<open>A declaration of one name without a type annotation; patterns and annotations are outside the fragment.\<close>

definition compile_let :: "(decimal \<Rightarrow> decimal \<Rightarrow> bool) \<Rightarrow> rstring \<Rightarrow> action option \<Rightarrow> node \<Rightarrow> action" where
  "compile_let deq name cinit nd st =
     (let value = (case cinit of Some ci \<Rightarrow> ci | None \<Rightarrow> (\<lambda>st. Ok (with_chunk (emit Op_Nil (node_span nd)) st))) in
      if text_range nd \<in> rr_global_decls (co_resolved st)
      then res_bind (value st) (\<lambda>st1. Ok (emit_define_global deq name (node_span nd) st1))
      else res_bind (let_slot nd (co_resolved st)) (\<lambda>slot.
        res_bind (value st) (\<lambda>st1. Ok (emit_set_local slot (node_span nd) st1))))"

definition compile_if :: "action \<Rightarrow> action \<Rightarrow> action option \<Rightarrow> node \<Rightarrow> action" where
  "compile_if cond thn els nd = branch cond thn (case els of Some e \<Rightarrow> e | None \<Rightarrow> Ok) (node_span nd)"

definition compile_while :: "action \<Rightarrow> action \<Rightarrow> node \<Rightarrow> action" where
  "compile_while cond body nd st =
     (let cond_start = length (c_code (co_chunk st)) in
      res_bind (cond st) (\<lambda>st1.
      case jump_from Op_JumpIfFalse (node_span nd) st1 of (st2, exit) \<Rightarrow>
      res_bind (body (st2\<lparr>co_loops := \<lparr>lc_continue_target = Some cond_start, lc_continue_sites = [], lc_break_sites = []\<rparr>
        # co_loops st2\<rparr>)) (\<lambda>st3.
      let st4 = with_chunk (emit_loop Op_Loop cond_start (node_span nd)) st3 in
      case co_loops st4 of
        [] \<Rightarrow> Panic
      | ctx # outer \<Rightarrow> res_bind (patch_site exit (st4\<lparr>co_loops := outer\<rparr>)) (patch_sites (lc_break_sites ctx)))))"

definition compile_break :: "node \<Rightarrow> action" where
  "compile_break nd st =
     (case jump_from Op_Jump (node_span nd) st of (st1, site) \<Rightarrow>
      case co_loops st1 of
        [] \<Rightarrow> Err (CHR 0x27 # ''break'' @ CHR 0x27 # '' outside of a loop'', node_span nd)
      | ctx # outer \<Rightarrow> Ok (st1\<lparr>co_loops := ctx\<lparr>lc_break_sites := lc_break_sites ctx @ [site]\<rparr> # outer\<rparr>))"

definition compile_continue :: "node \<Rightarrow> action" where
  "compile_continue nd st =
     (case co_loops st of
        [] \<Rightarrow> Err (CHR 0x27 # ''continue'' @ CHR 0x27 # '' outside of a loop'', node_span nd)
      | ctx # outer \<Rightarrow>
         (case lc_continue_target ctx of
            Some target \<Rightarrow> Ok (with_chunk (emit_loop Op_Loop target (node_span nd)) st)
          | None \<Rightarrow>
             (case jump_from Op_Jump (node_span nd) st of (st1, site) \<Rightarrow>
              Ok (st1\<lparr>co_loops := ctx\<lparr>lc_continue_sites := lc_continue_sites ctx @ [site]\<rparr> # outer\<rparr>))))"

definition compile_return :: "action option \<Rightarrow> node \<Rightarrow> action" where
  "compile_return ce nd st =
     res_bind (case ce of Some c \<Rightarrow> c st | None \<Rightarrow> Ok (with_chunk (emit Op_Nil (node_span nd)) st))
       (\<lambda>st1. Ok (with_chunk (emit Op_Return (node_span nd)) st1))"

text \<open>An expression statement never reaches \<open>compile_stmt\<close>: blocks and the file compile it themselves.\<close>

fun compile_stmt :: "(decimal \<Rightarrow> decimal \<Rightarrow> bool) \<Rightarrow> cst_stmt \<Rightarrow> action"
  and compile_block :: "(decimal \<Rightarrow> decimal \<Rightarrow> bool) \<Rightarrow> cst_stmt list \<Rightarrow> action" where
  "compile_stmt deq (SExpr e nd) st =
     Err (''internal: unexpected statement kind in compile_stmt (compiler invariant)'', node_span nd)"
| "compile_stmt deq (SLet is_const name init nd) st =
     compile_let deq name (case init of Some e \<Rightarrow> Some (compile_expr deq e) | None \<Rightarrow> None) nd st"
| "compile_stmt deq (SBlock ss nd) st = compile_block deq ss st"
| "compile_stmt deq (SIf c thn els nd) st =
     compile_if (compile_expr deq c) (compile_block deq thn)
       (case els of Some s \<Rightarrow> Some (compile_stmt deq s) | None \<Rightarrow> None) nd st"
| "compile_stmt deq (SWhile c body nd) st = compile_while (compile_expr deq c) (compile_block deq body) nd st"
| "compile_stmt deq (SBreak nd) st = compile_break nd st"
| "compile_stmt deq (SContinue nd) st = compile_continue nd st"
| "compile_stmt deq (SReturn e nd) st =
     compile_return (case e of Some e \<Rightarrow> Some (compile_expr deq e) | None \<Rightarrow> None) nd st"
| "compile_block deq [] st = Ok st"
| "compile_block deq (s # ss) st = res_bind
     (case s of
        SExpr e nd \<Rightarrow> res_bind (compile_expr deq e st) (\<lambda>st1. Ok (with_chunk (emit Op_Pop (node_span nd)) st1))
      | _ \<Rightarrow> compile_stmt deq s st) (compile_block deq ss)"

section \<open>Files\<close>

text \<open>The top-level statements; the value of a trailing expression statement is returned.\<close>

fun compile_top :: "(decimal \<Rightarrow> decimal \<Rightarrow> bool) \<Rightarrow> span \<Rightarrow> cst_stmt list \<Rightarrow> action" where
  "compile_top deq eof [] st = Ok (with_chunk (emit Op_Return eof) (with_chunk (emit Op_Nil eof) st))"
| "compile_top deq eof (s # ss) st =
     (case s of
        SExpr e nd \<Rightarrow> res_bind (compile_expr deq e st) (\<lambda>st1.
          if ss = [] then Ok (with_chunk (emit Op_Return (node_span nd)) st1)
          else compile_top deq eof ss (with_chunk (emit Op_Pop (node_span nd)) st1))
      | _ \<Rightarrow> res_bind (compile_stmt deq s st) (compile_top deq eof ss))"

text \<open>
  A whole file on the default path, with no keep-set and no elision set.  The blocking diagnostics of
  the resolver are those of or-patterns, which the fragment does not have.
\<close>

definition compile_source_inner :: "(decimal \<Rightarrow> decimal \<Rightarrow> bool) \<Rightarrow> span \<Rightarrow> cst_stmt list \<Rightarrow> (chunk, compile_error) result" where
  "compile_source_inner deq eof ss =
     (let rr = resolve ss in
      if rr_slot_count rr > 65535 then Err (''too many local slots in top-level frame (max 65535)'', span_new 0 (sp_end eof))
      else let chunk = chunk_new\<lparr>c_slot_count := of_nat (rr_slot_count rr), c_cell_slots := map of_nat (rr_cell_slots rr)\<rparr> in
        res_bind (compile_top deq eof ss \<lparr>co_chunk = chunk, co_resolved = rr, co_loops = [],
            co_cells = set (rr_cell_slots rr), co_depth = 0\<rparr>) (\<lambda>st.
          case take_overflow (co_chunk st) of
            (Some limit, c) \<Rightarrow> Err (into_message_span limit)
          | (None, c) \<Rightarrow> Ok c))"

end
