(* ===== verification/F64.thy ===== *)
theory F64
  imports Prelude "HOL-Library.Log_Nat"
begin

text \<open>
  The \<open>f64\<close> arithmetic the interpreter uses (binary64 of IEEE 754, round to nearest, ties to even).
  A finite number is its sign bit and its rational value; an operation computes the exact result and
  rounds it.  \<open>powf\<close> is not defined here: its result depends on the platform's mathematics library.

  The lemmas show that rounding returns representable numbers and leaves representable numbers as
  they are, so that integers up to \<open>2 ^ 53\<close> are computed exactly.
\<close>

section \<open>Rounding\<close>

text \<open>The binary exponent of a positive rational.\<close>

definition ilog2 :: "rat \<Rightarrow> int" where
  "ilog2 x = (case quotient_of x of (p, q) \<Rightarrow>
     let k = int (floorlog 2 (nat p)) - int (floorlog 2 (nat q)) in if 2 powi k \<le> x then k else k - 1)"

definition rne :: "rat \<Rightarrow> int" where
  "rne x = (let m = \<lfloor>x\<rfloor>; d = x - of_int m in if d < 1 / 2 \<or> d = 1 / 2 \<and> even m then m else m + 1)"

text \<open>The exponent of the last place, at least that of the subnormal numbers.\<close>

definition ulp_exp :: "rat \<Rightarrow> int" where
  "ulp_exp x = max (- 1074) (ilog2 \<bar>x\<bar> - 52)"

definition rnd :: "rat \<Rightarrow> rat" where
  "rnd x = (if x = 0 then 0 else of_int (rne (x / 2 powi ulp_exp x)) * 2 powi ulp_exp x)"

section \<open>Numbers and operations\<close>

datatype f64 = NaN | Inf bool | Fin bool rat

definition f64_of :: "bool \<Rightarrow> rat \<Rightarrow> f64" where
  "f64_of neg x = (let r = rnd x in
     if 2 ^ 1024 \<le> \<bar>r\<bar> then Inf (r < 0) else Fin (if r = 0 then neg else r < 0) r)"

fun f_neg :: "f64 \<Rightarrow> f64" where
  "f_neg NaN = NaN"
| "f_neg (Inf s) = Inf (\<not> s)"
| "f_neg (Fin s x) = Fin (\<not> s) (- x)"

fun f_add :: "f64 \<Rightarrow> f64 \<Rightarrow> f64" where
  "f_add NaN b = NaN"
| "f_add a NaN = NaN"
| "f_add (Inf s) (Inf t) = (if s = t then Inf s else NaN)"
| "f_add (Inf s) (Fin t y) = Inf s"
| "f_add (Fin s x) (Inf t) = Inf t"
| "f_add (Fin s x) (Fin t y) = f64_of (if x + y = 0 then s \<and> t else x + y < 0) (x + y)"

definition f_sub :: "f64 \<Rightarrow> f64 \<Rightarrow> f64" where
  "f_sub a b = f_add a (f_neg b)"

fun f_mul :: "f64 \<Rightarrow> f64 \<Rightarrow> f64" where
  "f_mul NaN b = NaN"
| "f_mul a NaN = NaN"
| "f_mul (Inf s) (Inf t) = Inf (s \<noteq> t)"
| "f_mul (Inf s) (Fin t y) = (if y = 0 then NaN else Inf (s \<noteq> t))"
| "f_mul (Fin s x) (Inf t) = (if x = 0 then NaN else Inf (s \<noteq> t))"
| "f_mul (Fin s x) (Fin t y) = f64_of (s \<noteq> t) (x * y)"

fun f_div :: "f64 \<Rightarrow> f64 \<Rightarrow> f64" where
  "f_div NaN b = NaN"
| "f_div a NaN = NaN"
| "f_div (Inf s) (Inf t) = NaN"
| "f_div (Inf s) (Fin t y) = Inf (s \<noteq> t)"
| "f_div (Fin s x) (Inf t) = Fin (s \<noteq> t) 0"
| "f_div (Fin s x) (Fin t y) =
     (if y = 0 then if x = 0 then NaN else Inf (s \<noteq> t) else f64_of (s \<noteq> t) (x / y))"

definition rat_trunc :: "rat \<Rightarrow> int" where
  "rat_trunc x = (if x < 0 then \<lceil>x\<rceil> else \<lfloor>x\<rfloor>)"

fun f_rem :: "f64 \<Rightarrow> f64 \<Rightarrow> f64" where
  "f_rem NaN b = NaN"
| "f_rem a NaN = NaN"
| "f_rem (Inf s) b = NaN"
| "f_rem (Fin s x) (Inf t) = Fin s x"
| "f_rem (Fin s x) (Fin t y) = (if y = 0 then NaN else f64_of s (x - y * of_int (rat_trunc (x / y))))"

fun f_lt :: "f64 \<Rightarrow> f64 \<Rightarrow> bool" where
  "f_lt NaN b = False"
| "f_lt a NaN = False"
| "f_lt (Inf s) (Inf t) = (s \<and> \<not> t)"
| "f_lt (Inf s) (Fin t y) = s"
| "f_lt (Fin s x) (Inf t) = (\<not> t)"
| "f_lt (Fin s x) (Fin t y) = (x < y)"

fun f_eq :: "f64 \<Rightarrow> f64 \<Rightarrow> bool" where
  "f_eq (Inf s) (Inf t) = (s = t)"
| "f_eq (Fin s x) (Fin t y) = (x = y)"
| "f_eq a b = False"

definition f_le :: "f64 \<Rightarrow> f64 \<Rightarrow> bool" where
  "f_le a b = (f_lt a b \<or> f_eq a b)"

fun is_nan :: "f64 \<Rightarrow> bool" where
  "is_nan NaN = True"
| "is_nan _ = False"

fun is_finite :: "f64 \<Rightarrow> bool" where
  "is_finite (Fin s x) = True"
| "is_finite _ = False"

fun f_trunc :: "f64 \<Rightarrow> f64" where
  "f_trunc (Fin s x) = f64_of s (of_int (rat_trunc x))"
| "f_trunc a = a"

definition f_fract :: "f64 \<Rightarrow> f64" where
  "f_fract a = f_sub a (f_trunc a)"

text \<open>The casts \<open>as f64\<close> and \<open>as i64\<close>; the latter saturates and sends NaN to 0.\<close>

definition f64_of_i64 :: "64 word \<Rightarrow> f64" where
  "f64_of_i64 i = f64_of False (of_int (sint i))"

definition I64_MIN :: int where "I64_MIN = - (2 ^ 63)"
definition I64_MAX :: int where "I64_MAX = 2 ^ 63 - 1"

fun i64_of_f64 :: "f64 \<Rightarrow> 64 word" where
  "i64_of_f64 NaN = 0"
| "i64_of_f64 (Inf s) = word_of_int (if s then I64_MIN else I64_MAX)"
| "i64_of_f64 (Fin s x) = word_of_int (max I64_MIN (min I64_MAX (rat_trunc x)))"

section \<open>Representable numbers\<close>

definition representable :: "rat \<Rightarrow> bool" where
  "representable x \<longleftrightarrow> (\<exists>m e :: int. \<bar>m\<bar> < 2 ^ 53 \<and> - 1074 \<le> e \<and> x = of_int m * 2 powi e)"

fun f64_ok :: "f64 \<Rightarrow> bool" where
  "f64_ok (Fin s x) \<longleftrightarrow> representable x \<and> \<bar>x\<bar> < 2 ^ 1024 \<and> (x \<noteq> 0 \<longrightarrow> s = (x < 0))"
| "f64_ok a \<longleftrightarrow> True"

lemma powi_less: "(2 :: rat) powi m < 2 powi n \<longleftrightarrow> m < n"
  using power_int_strict_increasing [of m n "2 :: rat"] power_int_increasing [of n m "2 :: rat"]
  by (cases "m < n") auto

lemma powi_add: "(2 :: rat) powi (m + n) = 2 powi m * 2 powi n"
  by (simp add: power_int_add)

lemma powi_diff: "(2 :: rat) powi (m - n) = 2 powi m / 2 powi n"
  by (simp add: power_int_diff)

lemma powi_pos [simp]: "(0 :: rat) < 2 powi n"
  by simp

lemma ilog2_bounds:
  assumes "0 < x"
  shows "2 powi ilog2 x \<le> x \<and> x < 2 powi (ilog2 x + 1)"
proof -
  obtain p q where pq: "quotient_of x = (p, q)" by (cases "quotient_of x")
  then have x: "x = of_int p / of_int q" and q: "0 < q"
    by (auto intro: quotient_of_div quotient_of_denom_pos)
  with assms have p: "0 < p" by (simp add: zero_less_divide_iff)
  define a b where "a = floorlog 2 (nat p)" and "b = floorlog 2 (nat q)"
  have bounds: "2 powi (int (floorlog 2 (nat n)) - 1) \<le> (of_int n :: rat) \<and> (of_int n :: rat) < 2 powi int (floorlog 2 (nat n))"
    if n: "0 < n" for n :: int
  proof -
    define l where "l = floorlog 2 (nat n)"
    have l: "2 ^ (l - 1) \<le> nat n \<and> nat n < 2 ^ l"
      using floorlog_bounds [of "nat n" 2] n by (simp add: l_def)
    have "l \<noteq> 0" using n by (simp add: l_def floorlog_eq_zero_iff)
    then have "(2 :: rat) powi (int l - 1) = 2 ^ (l - 1)" by (simp add: power_int_def nat_diff_distrib)
    moreover have "(2 :: rat) powi int l = 2 ^ l" by simp
    moreover have "of_nat (2 ^ (l - 1)) \<le> (of_nat (nat n) :: rat)" "of_nat (nat n) < (of_nat (2 ^ l) :: rat)"
      using l by (simp_all only: of_nat_le_iff of_nat_less_iff)
    moreover have "of_nat (nat n) = (of_int n :: rat)" using n by simp
    ultimately show ?thesis unfolding l_def [symmetric] by simp
  qed
  have P: "2 powi (int a - 1) \<le> (of_int p :: rat)" "(of_int p :: rat) < 2 powi int a"
    using bounds [OF p] by (auto simp: a_def)
  have Q: "2 powi (int b - 1) \<le> (of_int q :: rat)" "(of_int q :: rat) < 2 powi int b"
    using bounds [OF q] by (auto simp: b_def)
  let ?k = "int a - int b"
  have "x < 2 powi int a / 2 powi (int b - 1)"
    unfolding x using P Q q p by (intro frac_less) auto
  then have hi: "x < 2 powi (?k + 1)" by (simp add: power_int_add power_int_diff)
  have "2 powi (int a - 1) / 2 powi int b \<le> x"
    unfolding x using P Q q p by (intro frac_le) auto
  then have lo: "2 powi (?k - 1) \<le> x" by (simp add: power_int_diff)
  from hi lo show ?thesis
    by (auto simp: ilog2_def pq Let_def a_def [symmetric] b_def [symmetric])
qed

lemma rne_int: "rne (of_int m) = m"
  by (simp add: rne_def)

lemma rne_bound: "\<bar>of_int (rne x) - x\<bar> \<le> 1 / 2"
  by (auto simp: rne_def Let_def abs_if) linarith+

lemma rnd_0 [simp]: "rnd 0 = 0"
  by (simp add: rnd_def)

lemma rnd_exact:
  assumes "representable x"
  shows "rnd x = x"
proof (cases "x = 0")
  case False
  from assms obtain m e where m: "\<bar>m\<bar> < 2 ^ 53" and e: "- 1074 \<le> e" and x: "x = of_int m * 2 powi e"
    by (auto simp: representable_def)
  define l where "l = ilog2 \<bar>x\<bar>"
  have "2 powi l \<le> \<bar>x\<bar>" using ilog2_bounds [of "\<bar>x\<bar>"] False by (simp add: l_def)
  also have "\<bar>x\<bar> < 2 powi (53 + e)"
  proof -
    have "(of_int \<bar>m\<bar> :: rat) < of_int (2 ^ 53)" using m by (simp only: of_int_less_iff)
    then show ?thesis by (simp add: x abs_mult powi_add)
  qed
  finally have "l < 53 + e" by (simp add: powi_less)
  then have le: "ulp_exp x \<le> e" using e by (simp add: ulp_exp_def l_def)
  have "x / 2 powi ulp_exp x = of_int (m * 2 ^ nat (e - ulp_exp x))"
  proof -
    have "(2 :: rat) powi (e - ulp_exp x) = 2 ^ nat (e - ulp_exp x)" using le by (simp add: power_int_def)
    moreover have "x / 2 powi ulp_exp x = of_int m * 2 powi (e - ulp_exp x)" by (subst (1) x) (simp add: powi_diff)
    ultimately show ?thesis by simp
  qed
  then have "rnd x = of_int (m * 2 ^ nat (e - ulp_exp x)) * 2 powi ulp_exp x"
    using False by (simp only: rnd_def rne_int if_False)
  also have "\<dots> = x" using \<open>x / 2 powi ulp_exp x = _\<close> by (metis nonzero_eq_divide_eq powi_pos less_irrefl)
  finally show ?thesis .
qed simp

lemma representable_int:
  assumes "\<bar>n\<bar> \<le> 2 ^ 53"
  shows "representable (of_int n)"
proof (cases "\<bar>n\<bar> = 2 ^ 53")
  case True
  then consider "n = 2 ^ 53" | "n = - (2 ^ 53)" by linarith
  then show ?thesis
  proof cases
    case 1
    then show ?thesis unfolding representable_def by (intro exI [of _ "1 :: int"] exI [of _ "53 :: int"]) simp
  next
    case 2
    then show ?thesis unfolding representable_def by (intro exI [of _ "- 1 :: int"] exI [of _ "53 :: int"]) simp
  qed
next
  case False
  with assms show ?thesis unfolding representable_def by (intro exI [of _ n] exI [of _ 0]) simp
qed

text \<open>A rounded number is representable.\<close>

lemma rnd_representable: "representable (rnd x)"
proof (cases "x = 0")
  case True
  then show ?thesis using representable_int [of 0] by simp
next
  case False
  define u where "u = ulp_exp x"
  define m where "m = rne (x / 2 powi u)"
  have u: "- 1074 \<le> u" "ilog2 \<bar>x\<bar> + 1 \<le> u + 53" by (auto simp: u_def ulp_exp_def)
  have "\<bar>x\<bar> < 2 powi (ilog2 \<bar>x\<bar> + 1)" using ilog2_bounds [of "\<bar>x\<bar>"] False by simp
  also have "\<dots> \<le> 2 powi (u + 53)" using u(2) by (intro power_int_increasing) auto
  finally have "\<bar>x / 2 powi u\<bar> < 2 ^ 53" by (simp add: abs_divide powi_add divide_less_eq mult.commute)
  moreover have "\<bar>of_int m - x / 2 powi u\<bar> \<le> 1 / 2" unfolding m_def by (rule rne_bound)
  ultimately have "\<bar>of_int m :: rat\<bar> < 2 ^ 53 + 1" by linarith
  then have "(of_int \<bar>m\<bar> :: rat) < of_int (2 ^ 53 + 1)" by simp
  then have mb: "\<bar>m\<bar> \<le> 2 ^ 53" by (simp only: of_int_less_iff)
  then obtain m' e where "\<bar>m'\<bar> < (2 :: int) ^ 53" "0 \<le> e" "(of_int m :: rat) = of_int m' * 2 powi e"
  proof (cases "\<bar>m\<bar> = 2 ^ 53")
    case True
    then have "m = 2 ^ 53 \<or> m = - (2 ^ 53)" by linarith
    then show ?thesis using that [of 1 53] that [of "- 1" 53] by auto
  next
    case False
    with mb show ?thesis using that [of m 0] by simp
  qed
  then have "rnd x = of_int m' * 2 powi (e + u)" "- 1074 \<le> e + u"
    using False u(1) by (simp_all add: rnd_def u_def [symmetric] m_def [symmetric] powi_add)
  with \<open>\<bar>m'\<bar> < 2 ^ 53\<close> show ?thesis unfolding representable_def by blast
qed

section \<open>Every operation returns a number of the format\<close>

lemma f64_ok_of [simp]: "f64_ok (f64_of neg x)"
  by (simp add: f64_of_def Let_def rnd_representable)

lemma f64_ok_neg [simp]: "f64_ok (f_neg a) = f64_ok a"
proof (cases a)
  case (Fin s x)
  have "representable (- y)" if r: "representable y" for y
  proof -
    obtain m e where "\<bar>m\<bar> < 2 ^ 53" "- 1074 \<le> e" "y = of_int m * 2 powi e" using r by (auto simp: representable_def)
    then show ?thesis unfolding representable_def by (intro exI [of _ "- m"] exI [of _ e]) simp
  qed
  from this [of x] this [of "- x"] Fin show ?thesis by auto
qed simp_all

lemma f64_closed:
  assumes "f64_ok a" "f64_ok b"
  shows "f64_ok (f_add a b)" "f64_ok (f_sub a b)" "f64_ok (f_mul a b)" "f64_ok (f_div a b)" "f64_ok (f_rem a b)"
    "f64_ok (f_trunc a)" "f64_ok (f_fract a)"
proof -
  have add: "f64_ok (f_add c d)" if "f64_ok c" "f64_ok d" for c d by (cases c; cases d) (use that in simp_all)
  have trunc: "f64_ok (f_trunc c)" for c by (cases c) simp_all
  show "f64_ok (f_add a b)" using add assms .
  show "f64_ok (f_sub a b)" using add assms by (simp add: f_sub_def)
  show "f64_ok (f_mul a b)" by (cases a; cases b) simp_all
  show "f64_ok (f_div a b)" using representable_int [of 0] by (cases a; cases b) simp_all
  show "f64_ok (f_rem a b)" using assms by (cases a; cases b) simp_all
  show "f64_ok (f_trunc a)" by (rule trunc)
  show "f64_ok (f_fract a)" using add assms(1) trunc by (simp add: f_fract_def f_sub_def)
qed

section \<open>Exact cases\<close>

lemma f64_of_exact:
  "representable x \<Longrightarrow> \<bar>x\<bar> < 2 ^ 1024 \<Longrightarrow> f64_of neg x = Fin (if x = 0 then neg else x < 0) x"
  by (simp add: f64_of_def rnd_exact Let_def)

definition f_int :: "int \<Rightarrow> f64" where
  "f_int n = Fin (n < 0) (of_int n)"

lemma small_int:
  assumes "\<bar>n\<bar> \<le> 2 ^ 53"
  shows "\<bar>of_int n :: rat\<bar> < 2 ^ 1024"
proof -
  have "(of_int \<bar>n\<bar> :: rat) \<le> of_int (2 ^ 53)" using assms by (simp only: of_int_le_iff)
  also have "\<dots> < 2 ^ 1024" by simp
  finally show ?thesis by simp
qed

lemma f64_of_int: "\<bar>n\<bar> \<le> 2 ^ 53 \<Longrightarrow> f64_of False (of_int n) = f_int n"
  by (simp add: f64_of_exact representable_int small_int f_int_def)

lemma f_add_int: "\<bar>a + b\<bar> \<le> 2 ^ 53 \<Longrightarrow> f_add (f_int a) (f_int b) = f_int (a + b)"
  using f64_of_exact [OF representable_int small_int, of "a + b" "a + b < 0"]
    f64_of_exact [OF representable_int small_int, of "a + b" "a < 0 \<and> b < 0"]
  by (auto simp: f_int_def simp flip: of_int_add)

lemma f_int_cmp:
  "f_lt (f_int a) (f_int b) = (a < b)" "f_eq (f_int a) (f_int b) = (a = b)" "f_le (f_int a) (f_int b) = (a \<le> b)"
  by (auto simp: f_int_def f_le_def)

lemma rat_trunc_int [simp]: "rat_trunc (of_int n) = n"
  by (simp add: rat_trunc_def)

lemma rat_trunc_abs: "\<bar>of_int (rat_trunc x) :: rat\<bar> \<le> \<bar>x\<bar>"
proof (cases "x < 0")
  case True
  then have "\<lceil>x\<rceil> \<le> 0" by simp
  then have "(of_int \<lceil>x\<rceil> :: rat) \<le> 0" by (simp only: of_int_le_0_iff)
  moreover have "x \<le> of_int \<lceil>x\<rceil>" by simp
  moreover have "rat_trunc x = \<lceil>x\<rceil>" using True by (simp add: rat_trunc_def)
  ultimately show ?thesis using True by simp
qed (simp add: rat_trunc_def)

lemma rat_trunc_near: "\<bar>x - of_int (rat_trunc x)\<bar> < 1" "\<bar>x - of_int (rat_trunc x)\<bar> \<le> \<bar>x\<bar>"
  by (auto simp: rat_trunc_def abs_if) linarith+

text \<open>The integral and the fractional part of a number of the format are numbers of the format.\<close>

lemma representable_parts:
  assumes "representable x"
  shows "representable (of_int (rat_trunc x))" "representable (x - of_int (rat_trunc x))"
proof -
  from assms obtain m e where m: "\<bar>m\<bar> < 2 ^ 53" and e: "- 1074 \<le> e" and x: "x = of_int m * 2 powi e"
    by (auto simp: representable_def)
  have "representable (of_int (rat_trunc x)) \<and> representable (x - of_int (rat_trunc x))"
  proof (cases "0 \<le> e")
    case True
    then have "x = of_int (m * 2 ^ nat e)" by (simp add: x power_int_def)
    then have "of_int (rat_trunc x) = x" by (metis rat_trunc_int)
    with assms representable_int [of 0] show ?thesis by simp
  next
    case False
    define k where "k = nat (- e)"
    have k: "(2 :: rat) powi e = 1 / 2 ^ k" using False by (simp add: k_def power_int_def inverse_eq_divide power_one_over)
    let ?t = "rat_trunc x"
    have x': "x * 2 ^ k = of_int m" unfolding x k by simp
    have "\<bar>x\<bar> \<le> \<bar>of_int m\<bar>"
      using mult_left_mono [of 1 "(2 :: rat) ^ k" "\<bar>x\<bar>"] by (simp add: abs_mult flip: x')
    then have "of_int \<bar>?t\<bar> \<le> (of_int \<bar>m\<bar> :: rat)" using rat_trunc_abs [of x] by simp
    then have "\<bar>?t\<bar> \<le> \<bar>m\<bar>" by (simp only: of_int_le_iff)
    then have 1: "representable (of_int ?t)" using m by (intro representable_int) linarith
    let ?r = "m - ?t * 2 ^ k"
    have r: "x - of_int ?t = of_int ?r * 2 powi e" by (simp add: x k diff_divide_distrib)
    have "\<bar>of_int ?r :: rat\<bar> = \<bar>x - of_int ?t\<bar> * 2 ^ k" by (simp add: r k abs_mult)
    also have "\<dots> \<le> \<bar>x\<bar> * 2 ^ k" using rat_trunc_near(2) [of x] by (intro mult_right_mono) auto
    also have "\<dots> = \<bar>of_int m\<bar>" by (simp add: abs_mult flip: x')
    finally have "of_int \<bar>?r\<bar> \<le> (of_int \<bar>m\<bar> :: rat)" by simp
    then have "\<bar>?r\<bar> \<le> \<bar>m\<bar>" by (simp only: of_int_le_iff)
    then have "representable (x - of_int ?t)" unfolding representable_def
      using m e r by (intro exI [of _ ?r] exI [of _ e]) linarith
    with 1 show ?thesis ..
  qed
  then show "representable (of_int (rat_trunc x))" "representable (x - of_int (rat_trunc x))" by auto
qed

lemma f_trunc_Fin: "f64_ok (Fin s x) \<Longrightarrow> \<exists>t. f_trunc (Fin s x) = Fin t (of_int (rat_trunc x))"
  using representable_parts(1) [of x] rat_trunc_abs [of x] by (simp add: f64_of_exact)

lemma f_fract_Fin: "f64_ok (Fin s x) \<Longrightarrow> \<exists>t. f_fract (Fin s x) = Fin t (x - of_int (rat_trunc x))"
  using f_trunc_Fin [of s x] representable_parts(2) [of x] rat_trunc_near(2) [of x]
  by (auto simp: f_fract_def f_sub_def f64_of_exact)

end
