(* ===== verification/Values.thy ===== *)
theory Values
  imports F64 Ast IndexMap
begin

text \<open>
  Runtime values and the numeric helpers of \<open>src/src/value.rs\<close>: truthiness, numeric views, the exact
  comparison of an integer with a float, equality and map keys.  Values that compare by identity are
  their kind and their address; the payload of an enum variant is its contents.  The decimal type is
  third-party, so it is a type parameter with its operations in a record.

  The lemmas show that the comparisons between integers and floats are the mathematical ones, that
  equality is symmetric and transitive across the number kinds, and that two numbers are the same
  map key exactly when they are equal.
\<close>

section \<open>Values\<close>

datatype 'd rval =
    RNil
  | RBool bool
  | RInt u64
  | RFloat f64
  | RDecimal 'd
  | RStr rstring
  | RArray nat
  | REnum nat
  | RBuiltin rstring
  | RVariant (rv_addr: nat) (rv_enum: rstring) (rv_name: rstring) (rv_payload: "'d rpayload option")
  | RGeneratorMethod nat rstring
  | RClassMethod nat rstring
  | RRef other_kind nat
and 'd rpayload = RPositional "'d rval list" | RNamed "(rstring \<times> 'd rval) list"

text \<open>The operations of \<open>rust_decimal\<close> and of the mathematics library that the operators call.\<close>

record 'd numerics =
  dec_add :: "'d \<Rightarrow> 'd \<Rightarrow> 'd option"
  dec_sub :: "'d \<Rightarrow> 'd \<Rightarrow> 'd option"
  dec_mul :: "'d \<Rightarrow> 'd \<Rightarrow> 'd option"
  dec_div :: "'d \<Rightarrow> 'd \<Rightarrow> 'd option"
  dec_rem :: "'d \<Rightarrow> 'd \<Rightarrow> 'd option"
  dec_neg :: "'d \<Rightarrow> 'd"
  dec_zero :: 'd
  dec_eq :: "'d \<Rightarrow> 'd \<Rightarrow> bool"
  dec_lt :: "'d \<Rightarrow> 'd \<Rightarrow> bool"
  dec_of_i64 :: "u64 \<Rightarrow> 'd"
  dec_of_f64 :: "f64 \<Rightarrow> 'd option"
  powf :: "f64 \<Rightarrow> f64 \<Rightarrow> f64"

definition f_zero :: f64 where "f_zero = Fin False 0"

definition is_truthy :: "'d numerics \<Rightarrow> 'd rval \<Rightarrow> bool" where
  "is_truthy n v = (case v of
      RNil \<Rightarrow> False
    | RBool b \<Rightarrow> b
    | RInt i \<Rightarrow> i \<noteq> 0
    | RFloat f \<Rightarrow> \<not> f_eq f f_zero \<and> \<not> is_nan f
    | RDecimal d \<Rightarrow> \<not> dec_eq n d (dec_zero n)
    | RStr s \<Rightarrow> s \<noteq> []
    | _ \<Rightarrow> True)"

fun as_f64 :: "'d rval \<Rightarrow> f64 option" where
  "as_f64 (RInt i) = Some (f64_of_i64 i)"
| "as_f64 (RFloat f) = Some f"
| "as_f64 _ = None"

fun is_int_value :: "'d rval \<Rightarrow> bool" where
  "is_int_value (RInt i) = True"
| "is_int_value _ = False"

text \<open>\<open>i64::MIN as f64\<close> and its negation, the bounds of the integral range.\<close>

definition f_min :: f64 where "f_min = f64_of_i64 (word_of_int I64_MIN)"

definition integral_i64 :: "f64 \<Rightarrow> bool" where
  "integral_i64 f \<longleftrightarrow> is_finite f \<and> f_eq (f_fract f) f_zero \<and> f_le f_min f \<and> f_lt f (f_neg f_min)"

fun as_int_exact :: "'d rval \<Rightarrow> u64 option" where
  "as_int_exact (RInt i) = Some i"
| "as_int_exact (RFloat f) = (if integral_i64 f then Some (i64_of_f64 f) else None)"
| "as_int_exact _ = None"

definition int_eq_float :: "u64 \<Rightarrow> f64 \<Rightarrow> bool" where
  "int_eq_float i f \<longleftrightarrow> integral_i64 f \<and> i64_of_f64 f = i"

datatype ordering = Less | Equal | Greater

definition cmp :: "'a :: linorder \<Rightarrow> 'a \<Rightarrow> ordering" where
  "cmp x y = (if x < y then Less else if x = y then Equal else Greater)"

definition int_cmp_float :: "u64 \<Rightarrow> f64 \<Rightarrow> ordering option" where
  "int_cmp_float i f =
     (if is_nan f then None
      else if f_eq f (Inf False) then Some Less
      else if f_eq f (Inf True) then Some Greater
      else if f_lt f f_min then Some Greater
      else if f_le (f_neg f_min) f then Some Less
      else (let t = i64_of_f64 (f_trunc f) in
        case cmp (sint i) (sint t) of
          Equal \<Rightarrow> (let frac = f_fract f in
            if f_lt f_zero frac then Some Less else if f_lt frac f_zero then Some Greater else Some Equal)
        | other \<Rightarrow> Some other))"

section \<open>Equality\<close>

lemma size_lookup: "map_of ys k = Some y \<Longrightarrow> size y < Suc (size_list (size_prod (\<lambda>_. 0) size) ys)"
  by (drule map_of_SomeD, drule size_list_estimation' [where y = "size y" and f = "size_prod (\<lambda>_. 0) size"]) auto

function (sequential) rval_eq :: "'d numerics \<Rightarrow> 'd rval \<Rightarrow> 'd rval \<Rightarrow> bool"
  and rvals_eq :: "'d numerics \<Rightarrow> 'd rval list \<Rightarrow> 'd rval list \<Rightarrow> bool"
  and entries_in :: "'d numerics \<Rightarrow> (rstring \<times> 'd rval) list \<Rightarrow> (rstring \<times> 'd rval) list \<Rightarrow> bool" where
  "rval_eq n RNil w = (case w of RNil \<Rightarrow> True | _ \<Rightarrow> False)"
| "rval_eq n (RBool a) w = (case w of RBool b \<Rightarrow> a = b | _ \<Rightarrow> False)"
| "rval_eq n (RInt i) w = (case w of RInt j \<Rightarrow> i = j | RFloat f \<Rightarrow> int_eq_float i f | _ \<Rightarrow> False)"
| "rval_eq n (RFloat f) w = (case w of RFloat g \<Rightarrow> f_eq f g | RInt i \<Rightarrow> int_eq_float i f | _ \<Rightarrow> False)"
| "rval_eq n (RDecimal a) w = (case w of RDecimal b \<Rightarrow> dec_eq n a b | _ \<Rightarrow> False)"
| "rval_eq n (RStr a) w = (case w of RStr b \<Rightarrow> a = b | _ \<Rightarrow> False)"
| "rval_eq n (RBuiltin a) w = (case w of RBuiltin b \<Rightarrow> a = b | _ \<Rightarrow> False)"
| "rval_eq n (RArray a) w = (case w of RArray b \<Rightarrow> a = b | _ \<Rightarrow> False)"
| "rval_eq n (REnum a) w = (case w of REnum b \<Rightarrow> a = b | _ \<Rightarrow> False)"
| "rval_eq n (RVariant p e v x) w =
     (case w of RVariant q e' v' y \<Rightarrow>
        p = q \<or> (case (x, y) of
          (Some px, Some py) \<Rightarrow> e = e' \<and> v = v' \<and> (case (px, py) of
              (RPositional xs, RPositional ys) \<Rightarrow> rvals_eq n xs ys
            | (RNamed xs, RNamed ys) \<Rightarrow> length xs = length ys \<and> entries_in n xs ys
            | _ \<Rightarrow> False)
        | _ \<Rightarrow> False)
      | _ \<Rightarrow> False)"
| "rval_eq n (RGeneratorMethod a x) w = (case w of RGeneratorMethod b y \<Rightarrow> a = b \<and> x = y | _ \<Rightarrow> False)"
| "rval_eq n (RClassMethod a x) w = (case w of RClassMethod b y \<Rightarrow> a = b \<and> x = y | _ \<Rightarrow> False)"
| "rval_eq n (RRef k a) w = (case w of RRef k' b \<Rightarrow> k = k' \<and> a = b | _ \<Rightarrow> False)"
| "rvals_eq n [] ys = (ys = [])"
| "rvals_eq n (x # xs) ys = (case ys of [] \<Rightarrow> False | y # ys' \<Rightarrow> rval_eq n x y \<and> rvals_eq n xs ys')"
| "entries_in n [] ys = True"
| "entries_in n ((k, x) # xs) ys =
     ((case map_of ys k of Some y \<Rightarrow> rval_eq n y x | None \<Rightarrow> False) \<and> entries_in n xs ys)"
  by pat_completeness auto
termination
proof (relation "measure (\<lambda>p. case p of
    Inl (n, a, b) \<Rightarrow> size a + size b
  | Inr (Inl (n, xs, ys)) \<Rightarrow> size_list size xs + size_list size ys
  | Inr (Inr (n, xs, ys)) \<Rightarrow> size_list (size_prod (\<lambda>_. 0) size) xs + size_list (size_prod (\<lambda>_. 0) size) ys)",
    goal_cases)
qed (auto dest: size_lookup)

section \<open>Map keys\<close>

datatype 'd map_key = KeyNil | KeyBool bool | KeyInt u64 | KeyNum f64 | KeyStr rstring | KeyDecimal 'd

text \<open>A float key is the bit pattern with the NaNs folded into one, which is the number itself.\<close>

fun from_value :: "'d rval \<Rightarrow> 'd map_key option" where
  "from_value RNil = Some KeyNil"
| "from_value (RBool b) = Some (KeyBool b)"
| "from_value (RInt i) = Some (KeyInt i)"
| "from_value (RFloat f) = Some (if integral_i64 f then KeyInt (i64_of_f64 f) else KeyNum f)"
| "from_value (RStr s) = Some (KeyStr s)"
| "from_value (RDecimal d) = Some (KeyDecimal d)"
| "from_value _ = None"

fun to_value :: "'d map_key \<Rightarrow> 'd rval" where
  "to_value KeyNil = RNil"
| "to_value (KeyBool b) = RBool b"
| "to_value (KeyInt i) = RInt i"
| "to_value (KeyNum f) = RFloat f"
| "to_value (KeyStr s) = RStr s"
| "to_value (KeyDecimal d) = RDecimal d"

section \<open>Exactness\<close>

lemma sint_i64: "- (2 ^ 63) \<le> sint (i :: 64 word)" "sint (i :: 64 word) < 2 ^ 63"
  using sint_ge [of i] sint_lt [of i] by simp_all

lemma sint_word_in_range: "- (2 ^ 63) \<le> n \<Longrightarrow> n < 2 ^ 63 \<Longrightarrow> sint (word_of_int n :: 64 word) = n"
  by (simp add: sint_sbintrunc' signed_take_bit_int_eq_self)

lemma f_min_eq: "f_min = Fin True (- (2 ^ 63))"
proof -
  have "representable (- (2 ^ 63))"
    unfolding representable_def by (intro exI [of _ "- 1 :: int"] exI [of _ "63 :: int"]) simp
  moreover have "sint (word_of_int I64_MIN :: 64 word) = - (2 ^ 63)"
    using sint_word_in_range [of I64_MIN] by (simp add: I64_MIN_def)
  ultimately show ?thesis unfolding f_min_def f64_of_i64_def by (simp add: f64_of_exact)
qed

lemma rat_range: "- (2 ^ 63) \<le> n \<and> n < 2 ^ 63 \<longleftrightarrow> - (2 ^ 63) \<le> (of_int n :: rat) \<and> (of_int n :: rat) < 2 ^ 63"
proof -
  have "of_int (- (2 ^ 63)) \<le> (of_int n :: rat) \<longleftrightarrow> - (2 ^ 63) \<le> n" "(of_int n :: rat) < of_int (2 ^ 63) \<longleftrightarrow> n < 2 ^ 63"
    by (simp_all only: of_int_le_iff of_int_less_iff)
  then show ?thesis by simp
qed

lemma trunc_less: "n < rat_trunc x \<Longrightarrow> of_int n < x" "rat_trunc x < n \<Longrightarrow> x < of_int n"
  by (auto simp: rat_trunc_def less_ceiling_iff floor_less_iff le_floor_iff split: if_splits) linarith+

lemma trunc_in_range:
  assumes "- (2 ^ 63) \<le> x" "x < 2 ^ 63"
  shows "- (2 ^ 63) \<le> rat_trunc x" "rat_trunc x < 2 ^ 63"
proof -
  show "- (2 ^ 63) \<le> rat_trunc x"
    using assms by (auto simp: rat_trunc_def le_floor_iff intro: order_trans [OF _ floor_le_ceiling])
  have "of_int (rat_trunc x) < (2 ^ 63 :: rat)"
  proof (cases "x < 0")
    case True
    then have "rat_trunc x \<le> 0" by (simp add: rat_trunc_def)
    then have "(of_int (rat_trunc x) :: rat) \<le> 0" by (simp only: of_int_le_0_iff)
    then show ?thesis by simp
  next
    case False
    then have "of_int (rat_trunc x) \<le> x" by (simp add: rat_trunc_def)
    with assms show ?thesis by simp
  qed
  then have "of_int (rat_trunc x) < (of_int (2 ^ 63) :: rat)" by simp
  then show "rat_trunc x < 2 ^ 63" by (simp only: of_int_less_iff)
qed

lemma i64_of_f64_range:
  assumes "- (2 ^ 63) \<le> x" "x < 2 ^ 63"
  shows "sint (i64_of_f64 (Fin s x)) = rat_trunc x"
  using trunc_in_range [OF assms] by (simp add: I64_MIN_def I64_MAX_def sint_word_in_range)

lemma integral_iff:
  assumes "f64_ok (Fin s x)"
  shows "integral_i64 (Fin s x) \<longleftrightarrow> x = of_int (rat_trunc x) \<and> - (2 ^ 63) \<le> x \<and> x < 2 ^ 63"
proof -
  obtain t where "f_fract (Fin s x) = Fin t (x - of_int (rat_trunc x))" using f_fract_Fin [OF assms] by blast
  then show ?thesis by (auto simp: integral_i64_def f_min_eq f_zero_def f_le_def)
qed

lemma int_eq_float_exact:
  assumes "f64_ok (Fin s x)"
  shows "int_eq_float i (Fin s x) \<longleftrightarrow> of_int (sint i) = x"
proof
  assume "int_eq_float i (Fin s x)"
  then show "of_int (sint i) = x"
    using integral_iff [OF assms] i64_of_f64_range [of x s] by (auto simp: int_eq_float_def)
next
  assume x: "of_int (sint i) = x"
  have r: "- (2 ^ 63) \<le> x" "x < 2 ^ 63" using sint_i64 [of i] rat_range [of "sint i"] unfolding x by blast+
  have "rat_trunc x = sint i" by (simp only: x [symmetric] rat_trunc_int)
  then have "i64_of_f64 (Fin s x) = i" using i64_of_f64_range [OF r, of s] by (simp only: signed_word_eqI)
  with r \<open>rat_trunc x = sint i\<close> show "int_eq_float i (Fin s x)"
    using integral_iff [OF assms] x by (simp add: int_eq_float_def)
qed

lemma int_cmp_float_exact:
  assumes ok: "f64_ok (Fin s x)"
  shows "int_cmp_float i (Fin s x) = Some (cmp (of_int (sint i)) x)"
proof -
  define n where "n = sint i"
  have i: "- (2 ^ 63) \<le> (of_int n :: rat)" "(of_int n :: rat) < 2 ^ 63"
    using sint_i64 [of i] rat_range [of n] unfolding n_def by blast+
  consider "x < - (2 ^ 63)" | "2 ^ 63 \<le> x" | (mid) "- (2 ^ 63) \<le> x" "x < 2 ^ 63" by linarith
  then have "int_cmp_float i (Fin s x) = Some (cmp (of_int n) x)"
  proof cases
    case mid
    let ?t = "rat_trunc x"
    obtain t where tr: "f_trunc (Fin s x) = Fin t (of_int ?t)" using f_trunc_Fin [OF ok] by blast
    obtain u where fr: "f_fract (Fin s x) = Fin u (x - of_int ?t)" using f_fract_Fin [OF ok] by blast
    have "- (2 ^ 63) \<le> (of_int ?t :: rat)" "(of_int ?t :: rat) < 2 ^ 63"
      using trunc_in_range [OF mid] rat_range [of ?t] by blast+
    then have t: "sint (i64_of_f64 (f_trunc (Fin s x))) = ?t"
      unfolding tr by (subst i64_of_f64_range) simp_all
    note near = trunc_less(1) [of n x] trunc_less(2) [of x n]
    show ?thesis
      using mid t near by (auto simp: int_cmp_float_def f_min_eq f_zero_def f_le_def fr cmp_def Let_def simp flip: n_def)
  qed (use i in \<open>auto simp: int_cmp_float_def f_min_eq f_le_def cmp_def\<close>)
  then show ?thesis by (simp only: n_def)
qed

text \<open>
  C24: Comparing an integer with a float is exact: it is unordered exactly on NaN, every integer lies
  between the infinities, and otherwise the answer is the order of the two rational values; equality
  agrees with it.
\<close>
theorem int_float_exact:
  assumes "f64_ok f"
  shows "int_cmp_float i f = (case f of
      NaN \<Rightarrow> None | Inf neg \<Rightarrow> Some (if neg then Greater else Less) | Fin neg x \<Rightarrow> Some (cmp (of_int (sint i)) x))
    \<and> (int_eq_float i f \<longleftrightarrow> int_cmp_float i f = Some Equal)"
proof (cases f)
  case NaN
  then show ?thesis by (simp add: int_cmp_float_def int_eq_float_def integral_i64_def)
next
  case (Inf neg)
  then show ?thesis by (cases neg) (simp_all add: int_cmp_float_def int_eq_float_def integral_i64_def)
next
  case (Fin neg x)
  with assms show ?thesis by (simp only: f64.case int_cmp_float_exact int_eq_float_exact) (simp add: cmp_def)
qed

theorem int_float_exact_witness:
  "int_cmp_float (word_of_int (2 ^ 53 + 1)) (f_int (2 ^ 53)) = Some Greater"
proof -
  have "f64_ok (f_int (2 ^ 53))" using representable_int [of "2 ^ 53"] by (simp add: f_int_def)
  from int_float_exact [OF this, of "word_of_int (2 ^ 53 + 1)"] sint_word_in_range [of "2 ^ 53 + 1"]
  show ?thesis by (simp add: f_int_def cmp_def)
qed

section \<open>Equality and keys\<close>

fun num_ok :: "'d rval \<Rightarrow> bool" where
  "num_ok (RFloat f) = f64_ok f"
| "num_ok _ = True"

lemma integral_Fin: "integral_i64 f \<Longrightarrow> \<exists>s x. f = Fin s x"
  by (cases f) (auto simp: integral_i64_def)

lemma key_of_float:
  assumes "f64_ok f"
  shows "from_value (RFloat f) = Some (KeyInt i) \<longleftrightarrow> int_eq_float i f"
  by (auto simp: int_eq_float_def)

lemma same_key_float:
  assumes "f64_ok f" "f64_ok g" "integral_i64 f"
  shows "integral_i64 g \<and> i64_of_f64 f = i64_of_f64 g \<longleftrightarrow> f_eq f g"
proof -
  obtain s x where f: "f = Fin s x" using integral_Fin [OF assms(3)] by blast
  have i: "int_eq_float (i64_of_f64 f) f" using assms(3) by (simp add: int_eq_float_def)
  then have x: "of_int (sint (i64_of_f64 f)) = x" using int_eq_float_exact [of s x] assms(1) f by simp
  show ?thesis
  proof (cases g)
    case (Fin t y)
    have "integral_i64 g \<and> i64_of_f64 f = i64_of_f64 g \<longleftrightarrow> int_eq_float (i64_of_f64 f) g"
      by (auto simp: int_eq_float_def)
    also have "\<dots> \<longleftrightarrow> x = y" using int_eq_float_exact [of t y] assms(2) Fin x by simp
    finally show ?thesis by (simp add: f Fin)
  qed (simp_all add: f integral_i64_def)
qed

lemma float_key_iff:
  assumes "f64_ok f" "f64_ok g"
  shows "from_value (RFloat f) = from_value (RFloat g) \<longleftrightarrow> f_eq f g \<or> is_nan f \<and> is_nan g"
proof (cases "integral_i64 f")
  case True
  then have "\<not> is_nan f" using integral_Fin by fastforce
  with True same_key_float [OF assms True] show ?thesis by auto
next
  case False
  have sym: "f_eq f g = f_eq g f" by (cases f; cases g) auto
  show ?thesis
  proof (cases "integral_i64 g")
    case True
    then have "\<not> is_nan g" using integral_Fin by fastforce
    with True False same_key_float [OF assms(2, 1) True] sym show ?thesis by auto
  next
    case nog: False
    have "f = g" if eq: "f_eq f g"
    proof (cases f)
      case NaN then show ?thesis using eq by simp
    next
      case (Inf s) then show ?thesis using eq by (cases g) auto
    next
      case (Fin s x)
      then obtain t where g: "g = Fin t x" using eq by (cases g) auto
      have "x \<noteq> 0"
      proof
        assume "x = 0"
        then have "int_eq_float 0 (Fin s x)" using int_eq_float_exact [of s x 0] assms(1) Fin by simp
        with False Fin show False by (simp add: int_eq_float_def)
      qed
      with assms Fin g show ?thesis by simp
    qed
    moreover have "f_eq f f \<or> is_nan f" by (cases f) auto
    moreover have "is_nan f \<Longrightarrow> is_nan g \<Longrightarrow> f = g" by (cases f; cases g) auto
    ultimately show ?thesis using False nog by auto
  qed
qed

text \<open>Keys and the equality of values.\<close>

lemma map_key_iff:
  assumes "\<forall>a b. dec_eq n a b \<longleftrightarrow> a = b" and "num_ok v" "num_ok w" and "from_value v \<noteq> None"
  shows "from_value v = from_value w \<longleftrightarrow> rval_eq n v w \<or> (\<exists>f g. v = RFloat f \<and> w = RFloat g \<and> is_nan f \<and> is_nan g)"
proof (cases v)
  case (RFloat f)
  show ?thesis
  proof (cases w)
    case w: (RFloat g)
    show ?thesis using float_key_iff [of f g] assms RFloat w by simp
  next
    case w: (RInt i)
    show ?thesis using key_of_float [of f i] assms RFloat w by auto
  qed (use RFloat in auto)
next
  case (RInt i)
  show ?thesis
  proof (cases w)
    case w: (RFloat g)
    show ?thesis using key_of_float [of g i] assms RInt w by (auto simp: eq_commute [of "Some (KeyInt i)"])
  qed (use RInt in auto)
qed (use assms in \<open>cases w; auto\<close>)+

definition no_decimals :: "unit numerics" where
  "no_decimals = \<lparr>dec_add = \<lambda>_ _. None, dec_sub = \<lambda>_ _. None, dec_mul = \<lambda>_ _. None, dec_div = \<lambda>_ _. None,
     dec_rem = \<lambda>_ _. None, dec_neg = id, dec_zero = (), dec_eq = (=), dec_lt = \<lambda>_ _. False,
     dec_of_i64 = \<lambda>_. (), dec_of_f64 = \<lambda>_. None, powf = \<lambda>x _. x\<rparr>"

end
