(* ===== verification/Ranges.thy ===== *)
theory Ranges
  imports Values
begin

text \<open>
  Ranges (\<open>src/src/interp.rs\<close>): the direction and validation of the step, the loop predicate, the
  materialised array, the counters of the tree-walker's \<open>for\<close> loop and range patterns.  All of them
  count in \<open>f64\<close>, integer bounds included.  The loops are partial functions; \<open>None\<close> is a loop that
  does not end.
\<close>

section \<open>Steps and counters\<close>

datatype range_error = StepNotFinite | StepMovesAway f64 f64 | BoundsNotNumbers | StepNotNumber

definition f_one :: f64 where "f_one = Fin False 1"

definition resolve_step :: "f64 \<Rightarrow> f64 \<Rightarrow> f64 option \<Rightarrow> (f64, range_error) result" where
  "resolve_step lo hi step_v =
     (case step_v of
        Some s \<Rightarrow>
          if f_eq s f_zero \<or> \<not> is_finite s then Err StepNotFinite
          else if \<not> f_eq lo hi \<and> f_lt f_zero s \<noteq> f_lt lo hi then Err (StepMovesAway s hi)
          else Ok s
      | None \<Rightarrow> Ok (if f_le lo hi then f_one else f_neg f_one))"

definition range_counter_value :: "f64 \<Rightarrow> bool \<Rightarrow> 'd rval" where
  "range_counter_value i yields_int =
     (case (if yields_int then as_int_exact (RFloat i :: 'd rval) else None) of
        Some n \<Rightarrow> RInt n | None \<Rightarrow> RFloat i)"

definition range_has_next :: "f64 \<Rightarrow> f64 \<Rightarrow> f64 \<Rightarrow> bool \<Rightarrow> bool" where
  "range_has_next i hi step inclusive =
     (if f_lt f_zero step then if inclusive then f_le i hi else f_lt i hi
      else if inclusive then f_le hi i else f_lt hi i)"

section \<open>The loops\<close>

text \<open>The values of the counter, in order, that fill the materialised array.\<close>

partial_function (option) range_items ::
  "f64 \<Rightarrow> f64 \<Rightarrow> f64 \<Rightarrow> bool \<Rightarrow> bool \<Rightarrow> 'd rval list option" where
  [code]: "range_items i hi step inclusive yields_int =
     (if range_has_next i hi step inclusive
      then Option.bind (range_items (f_add i step) hi step inclusive yields_int)
        (\<lambda>rest. Some (range_counter_value i yields_int # rest))
      else Some [])"

definition materialize_range_stepped ::
  "'d rval \<Rightarrow> 'd rval \<Rightarrow> bool \<Rightarrow> 'd rval option \<Rightarrow> ('d rval list, range_error) result option" where
  "materialize_range_stepped l r inclusive step =
     (case (as_f64 l, as_f64 r) of
        (Some lo, Some hi) \<Rightarrow>
          (case (case step of
               None \<Rightarrow> Ok (None, True)
             | Some sv \<Rightarrow> (case as_f64 sv of Some s \<Rightarrow> Ok (Some s, is_int_value sv) | None \<Rightarrow> Err StepNotNumber)) of
             Ok (step_v, step_int) \<Rightarrow>
               (case resolve_step lo hi step_v of
                  Ok resolved \<Rightarrow> map_option Ok
                    (range_items lo hi resolved inclusive ((is_int_value l \<and> is_int_value r) \<and> step_int))
                | Err e \<Rightarrow> Some (Err e)
                | Panic \<Rightarrow> Some Panic)
           | Err e \<Rightarrow> Some (Err e)
           | Panic \<Rightarrow> Some Panic)
      | _ \<Rightarrow> Some (Err BoundsNotNumbers))"

definition materialize_range :: "'d rval \<Rightarrow> 'd rval \<Rightarrow> bool \<Rightarrow> ('d rval list, range_error) result option" where
  "materialize_range l r inclusive = materialize_range_stepped l r inclusive None"

text \<open>
  The \<open>for\<close> loop of the tree-walker over a range.  The body maps the loop variable and a state to how it
  ends: it goes on (normally or by \<open>continue\<close>), breaks, or leaves with a result (a \<open>return\<close> or an error).
\<close>

datatype ('s, 'r) body_end = BodyNext (next_state: 's) | BodyBreak (next_state: 's) | BodyLeave (left_with: 'r)

partial_function (option) for_range_loop ::
  "('d rval \<Rightarrow> 's \<Rightarrow> ('s, 'r) body_end) \<Rightarrow> f64 \<Rightarrow> f64 \<Rightarrow> f64 \<Rightarrow> bool \<Rightarrow> bool \<Rightarrow> 's \<Rightarrow> ('s + 'r) option" where
  [code]: "for_range_loop body i hi step inclusive yields_int s =
     (if range_has_next i hi step inclusive then
        let r = body (range_counter_value i yields_int) s in
        if is_BodyNext r then for_range_loop body (f_add i step) hi step inclusive yields_int (next_state r)
        else if is_BodyBreak r then Some (Inl (next_state r))
        else Some (Inr (left_with r))
      else Some (Inl s))"

definition for_range ::
  "('d rval \<Rightarrow> 's \<Rightarrow> ('s, 'r) body_end) \<Rightarrow> 'd rval \<Rightarrow> 'd rval \<Rightarrow> bool \<Rightarrow> 'd rval option \<Rightarrow> 's
   \<Rightarrow> ('s + 'r, range_error) result option" where
  "for_range body start_v end_v inclusive step s =
     (case (as_f64 start_v, as_f64 end_v) of
        (Some lo, Some hi) \<Rightarrow>
          (case (case step of
               Some sv \<Rightarrow> (case as_f64 sv of Some k \<Rightarrow> Ok (Some k, is_int_value sv) | None \<Rightarrow> Err StepNotNumber)
             | None \<Rightarrow> Ok (None, True)) of
             Ok (step_v, step_int) \<Rightarrow>
               (case resolve_step lo hi step_v of
                  Ok step_n \<Rightarrow> map_option Ok (for_range_loop body lo hi step_n inclusive
                    ((is_int_value start_v \<and> is_int_value end_v) \<and> step_int) s)
                | Err e \<Rightarrow> Some (Err e)
                | Panic \<Rightarrow> Some Panic)
           | Err e \<Rightarrow> Some (Err e)
           | Panic \<Rightarrow> Some Panic)
      | _ \<Rightarrow> Some (Err BoundsNotNumbers))"

definition range_pattern_contains :: "f64 \<Rightarrow> f64 \<Rightarrow> f64 \<Rightarrow> f64 option \<Rightarrow> bool \<Rightarrow> bool" where
  "range_pattern_contains x lo hi step_v inclusive =
     (let step = (case step_v of Some s \<Rightarrow> s | None \<Rightarrow> if f_le lo hi then f_one else f_neg f_one);
          upper_ok = range_has_next x hi step inclusive;
          lower_ok = (if f_lt f_zero step then f_le lo x else f_le x lo)
      in if \<not> (upper_ok \<and> lower_ok) then False
         else (case step_v of
            None \<Rightarrow> True
          | Some k \<Rightarrow> (let q = f_div (f_sub x lo) k in f_le f_zero q \<and> f_eq (f_fract q) f_zero)))"

section \<open>The mathematical range\<close>

text \<open>The number of elements, and the elements.\<close>

definition range_count :: "int \<Rightarrow> int \<Rightarrow> int \<Rightarrow> bool \<Rightarrow> nat" where
  "range_count lo hi s inclusive =
     (let d = (hi - lo) * sgn s in
      if inclusive then nat (d div \<bar>s\<bar> + 1) else nat ((d + \<bar>s\<bar> - 1) div \<bar>s\<bar>))"

definition int_range :: "int \<Rightarrow> int \<Rightarrow> int \<Rightarrow> bool \<Rightarrow> int list" where
  "int_range lo hi s inclusive = map (\<lambda>k. lo + int k * s) [0..<range_count lo hi s inclusive]"

definition int_has_next :: "int \<Rightarrow> int \<Rightarrow> int \<Rightarrow> bool \<Rightarrow> bool" where
  "int_has_next i hi s inclusive =
     (if 0 < s then if inclusive then i \<le> hi else i < hi else if inclusive then hi \<le> i else hi < i)"

lemma div_shift: "0 < a \<Longrightarrow> (d - a) div a = d div a - (1 :: int)"
  using div_add_self2 [of a "d - a"] by simp

lemma range_count_step:
  assumes "s \<noteq> 0"
  shows "range_count lo hi s inclusive =
    (if int_has_next lo hi s inclusive then Suc (range_count (lo + s) hi s inclusive) else 0)"
proof -
  define d where "d = (hi - lo) * sgn s"
  define a where "a = \<bar>s\<bar>"
  have a: "0 < a" using assms by (simp add: a_def)
  have d': "(hi - (lo + s)) * sgn s = d - a" by (simp add: d_def a_def abs_sgn algebra_simps)
  have next_iff: "int_has_next lo hi s inclusive \<longleftrightarrow> (if inclusive then 0 \<le> d else 0 < d)"
    using assms by (auto simp: int_has_next_def d_def sgn_if)
  have neg: "d < 0 \<Longrightarrow> d div a < 0" using a by (simp add: pos_imp_zdiv_neg_iff)
  have pos: "0 \<le> e \<Longrightarrow> 0 \<le> e div a" for e using a by (simp add: pos_imp_zdiv_nonneg_iff)
  have zero: "d \<le> 0 \<Longrightarrow> (d + a - 1) div a \<le> 0"
    using a zdiv_mono1 [of "d + a - 1" "a - 1" a] by simp
  have shift: "(d - a + a - 1) div a = (d + a - 1) div a - 1" using div_shift [OF a, of "d + a - 1"] by (simp add: algebra_simps)
  show ?thesis
  proof (cases inclusive)
    case True
    with next_iff neg pos [of d] div_shift [OF a, of d] show ?thesis
      by (auto simp: range_count_def Let_def d' d_def [symmetric] a_def [symmetric])
  next
    case False
    have "0 < d \<Longrightarrow> 0 < (d + a - 1) div a" using a pos [of "d - 1"] div_shift [OF a, of "d + a - 1"] by simp
    with False next_iff zero shift show ?thesis
      by (auto simp: range_count_def Let_def d' d_def [symmetric] a_def [symmetric])
  qed
qed

lemma int_range_step:
  assumes "s \<noteq> 0"
  shows "int_range lo hi s inclusive =
    (if int_has_next lo hi s inclusive then lo # int_range (lo + s) hi s inclusive else [])"
  by (subst int_range_def, subst range_count_step [OF assms])
    (simp add: int_range_def upt_conv_Cons map_Suc_upt [symmetric] algebra_simps del: upt_Suc)

section \<open>Counting in floats\<close>

lemma f_consts: "f_zero = f_int 0" "f_one = f_int 1" "f_neg f_one = f_int (- 1)"
  by (simp_all add: f_zero_def f_one_def f_int_def)

lemma has_next_int: "range_has_next (f_int i) (f_int hi) (f_int s) inclusive = int_has_next i hi s inclusive"
  by (simp add: range_has_next_def int_has_next_def f_consts f_int_cmp)

lemma f64_ok_int: "\<bar>n\<bar> \<le> 2 ^ 53 \<Longrightarrow> f64_ok (f_int n)"
  using f64_of_int [of n] f64_ok_of [of False "of_int n"] by simp

lemma as_f64_int: "\<bar>sint i\<bar> \<le> 2 ^ 53 \<Longrightarrow> f64_of_i64 i = f_int (sint i)"
  unfolding f64_of_i64_def by (rule f64_of_int)

lemma counter_int:
  assumes "\<bar>n\<bar> \<le> 2 ^ 53"
  shows "range_counter_value (f_int n) True = RInt (word_of_int n)"
proof -
  have n: "sint (word_of_int n :: 64 word) = n" using assms by (intro sint_word_in_range) auto
  have "int_eq_float (word_of_int n) (f_int n)"
    using int_eq_float_exact [of "n < 0" "of_int n" "word_of_int n"] f64_ok_int [OF assms]
    unfolding n by (simp only: f_int_def)
  then show ?thesis by (simp add: range_counter_value_def int_eq_float_def)
qed

lemma next_small:
  "int_has_next i hi s inclusive \<Longrightarrow> \<bar>i\<bar> \<le> b \<Longrightarrow> \<bar>hi\<bar> + \<bar>s\<bar> \<le> b \<Longrightarrow> \<bar>i + s\<bar> \<le> b"
  by (auto simp: int_has_next_def split: if_splits)

lemma range_items_int:
  assumes "s \<noteq> 0" "\<bar>lo\<bar> \<le> 2 ^ 53" "\<bar>hi\<bar> + \<bar>s\<bar> \<le> 2 ^ 53"
  shows "range_items (f_int lo) (f_int hi) (f_int s) inclusive True
    = Some (map (\<lambda>n. RInt (word_of_int n)) (int_range lo hi s inclusive))"
  using assms(2)
proof (induction "range_count lo hi s inclusive" arbitrary: lo)
  case 0
  then have "\<not> int_has_next lo hi s inclusive" using range_count_step [OF assms(1), of lo hi inclusive] by auto
  then show ?case using int_range_step [OF assms(1), of lo hi inclusive] by (simp add: range_items.simps has_next_int)
next
  case (Suc k)
  then have n: "int_has_next lo hi s inclusive" and k: "k = range_count (lo + s) hi s inclusive"
    using range_count_step [OF assms(1), of lo hi inclusive] by (auto split: if_splits)
  have small: "\<bar>lo + s\<bar> \<le> 2 ^ 53" using next_small [OF n Suc.prems assms(3)] .
  show ?case
    using Suc.hyps(1) [OF k small] n Suc.prems int_range_step [OF assms(1), of lo hi inclusive]
    by (subst range_items.simps) (simp add: has_next_int f_add_int [OF small] counter_int)
qed

lemma for_range_loop_int:
  assumes "s \<noteq> 0" "\<bar>lo\<bar> \<le> 2 ^ 53" "\<bar>hi\<bar> + \<bar>s\<bar> \<le> 2 ^ 53"
  shows "for_range_loop (\<lambda>v st. BodyNext (g v st)) (f_int lo) (f_int hi) (f_int s) inclusive True st
    = Some (Inl (fold (\<lambda>n. g (RInt (word_of_int n))) (int_range lo hi s inclusive) st))"
  using assms(2)
proof (induction "range_count lo hi s inclusive" arbitrary: lo st)
  case 0
  then have "\<not> int_has_next lo hi s inclusive" using range_count_step [OF assms(1), of lo hi inclusive] by auto
  then show ?case using int_range_step [OF assms(1), of lo hi inclusive] by (simp add: for_range_loop.simps has_next_int)
next
  case (Suc k)
  then have n: "int_has_next lo hi s inclusive" and k: "k = range_count (lo + s) hi s inclusive"
    using range_count_step [OF assms(1), of lo hi inclusive] by (auto split: if_splits)
  have small: "\<bar>lo + s\<bar> \<le> 2 ^ 53" using next_small [OF n Suc.prems assms(3)] .
  show ?case
    using Suc.hyps(1) [OF k small] n Suc.prems int_range_step [OF assms(1), of lo hi inclusive]
    by (subst for_range_loop.simps) (simp add: has_next_int f_add_int [OF small] counter_int)
qed

section \<open>Patterns\<close>

lemma has_next_mono:
  "if 0 < s then i \<le> j else j \<le> i \<Longrightarrow> int_has_next j hi s inclusive \<Longrightarrow> int_has_next i hi s inclusive"
  by (auto simp: int_has_next_def split: if_splits)

lemma less_range_count:
  assumes "s \<noteq> 0"
  shows "k < range_count lo hi s inclusive \<longleftrightarrow> int_has_next (lo + int k * s) hi s inclusive"
proof (induction k arbitrary: lo)
  case 0
  then show ?case by (subst range_count_step [OF assms]) simp
next
  case (Suc k)
  have "if 0 < s then lo \<le> lo + int (Suc k) * s else lo + int (Suc k) * s \<le> lo"
    using mult_nonneg_nonpos [of "int (Suc k)" s] by simp
  note earlier = has_next_mono [OF this, of hi inclusive]
  have "Suc k < range_count lo hi s inclusive
    \<longleftrightarrow> int_has_next lo hi s inclusive \<and> k < range_count (lo + s) hi s inclusive"
    by (subst range_count_step [OF assms]) simp
  with Suc.IH [of "lo + s"] earlier show ?case by (auto simp: algebra_simps)
qed

lemma in_int_range:
  assumes "s \<noteq> 0"
  shows "x \<in> set (int_range lo hi s inclusive)
    \<longleftrightarrow> s dvd x - lo \<and> 0 \<le> (x - lo) * sgn s \<and> int_has_next x hi s inclusive"
proof
  assume "x \<in> set (int_range lo hi s inclusive)"
  then obtain k where k: "k < range_count lo hi s inclusive" "x = lo + int k * s" by (auto simp: int_range_def)
  have "int k * s * sgn s = int k * \<bar>s\<bar>" by (simp only: abs_sgn mult.assoc)
  moreover have "0 \<le> int k * \<bar>s\<bar>" by simp
  ultimately have "0 \<le> (x - lo) * sgn s" by (simp only: k(2) add_diff_cancel_left')
  with k show "s dvd x - lo \<and> 0 \<le> (x - lo) * sgn s \<and> int_has_next x hi s inclusive"
    using less_range_count [OF assms] by auto
next
  assume r: "s dvd x - lo \<and> 0 \<le> (x - lo) * sgn s \<and> int_has_next x hi s inclusive"
  then obtain c where c: "x - lo = s * c" by blast
  have "0 \<le> \<bar>s\<bar> * c" using r by (simp add: c abs_sgn algebra_simps)
  then have "0 \<le> c" using assms by (simp add: zero_le_mult_iff)
  then have x: "x = lo + int (nat c) * s" using c by (simp add: algebra_simps)
  with r have lt: "nat c < range_count lo hi s inclusive" using less_range_count [OF assms] by metis
  show "x \<in> set (int_range lo hi s inclusive)"
    unfolding int_range_def set_map using x lt by (intro image_eqI [where x = "nat c"]) (simp_all only: set_upt atLeastLessThan_iff le0 simp_thms)
qed

text \<open>Rounding the quotient of two integers of the exact range makes no integer of a fraction.\<close>

lemma rnd_error:
  assumes "x \<noteq> 0" "2 powi (- 1000) \<le> \<bar>x\<bar>"
  shows "\<bar>rnd x - x\<bar> \<le> \<bar>x\<bar> / 2 ^ 53"
proof -
  define l where "l = ilog2 \<bar>x\<bar>"
  have l: "2 powi l \<le> \<bar>x\<bar>" "\<bar>x\<bar> < 2 powi (l + 1)" using ilog2_bounds [of "\<bar>x\<bar>"] assms(1) by (auto simp: l_def)
  have "2 powi (- 1000) < (2 :: rat) powi (l + 1)" using assms(2) l(2) by (rule le_less_trans)
  then have "- 1000 < l + 1" by (simp only: powi_less)
  then have u: "ulp_exp x = l - 52" by (simp add: ulp_exp_def l_def)
  define p :: rat where "p = 2 powi (l - 52)"
  have p: "0 < p" "p * 2 ^ 52 \<le> \<bar>x\<bar>" using l(1) by (simp_all add: p_def powi_diff)
  have "rnd x - x = (of_int (rne (x / p)) - x / p) * p"
    using assms(1) p(1) by (simp add: rnd_def u p_def [symmetric] algebra_simps)
  then have "\<bar>rnd x - x\<bar> = \<bar>of_int (rne (x / p)) - x / p\<bar> * p" using p(1) by (simp add: abs_mult)
  also have "\<dots> \<le> 1 / 2 * p" using p(1) rne_bound by (intro mult_right_mono) auto
  also have "\<dots> \<le> \<bar>x\<bar> / 2 ^ 53" using p(2) by simp
  finally show ?thesis .
qed

lemma rnd_quotient:
  assumes "\<bar>n\<bar> < 2 ^ 53" "k \<noteq> 0" "\<bar>k\<bar> \<le> 2 ^ 53" and z: "rnd (of_int n / of_int k) = of_int z"
  shows "k dvd n"
proof (cases "n = 0")
  case False
  let ?q = "of_int n / of_int k :: rat"
  have "(of_int \<bar>k\<bar> :: rat) \<le> of_int (2 ^ 53)" "1 \<le> (of_int \<bar>n\<bar> :: rat)" "(of_int \<bar>n\<bar> :: rat) < of_int (2 ^ 53)"
    using assms(1, 3) False by (simp_all only: of_int_le_iff of_int_less_iff of_int_1_le_iff)
  then have b: "\<bar>of_int k :: rat\<bar> \<le> 2 ^ 53" "1 \<le> \<bar>of_int n :: rat\<bar>" "\<bar>of_int n :: rat\<bar> < 2 ^ 53" by simp_all
  have k: "0 < \<bar>of_int k :: rat\<bar>" using assms(2) by simp
  have "(2 :: rat) powi (- 1000) \<le> 2 powi (- 53)" by (intro power_int_increasing) auto
  also have "\<dots> = 1 / 2 ^ 53" by (simp add: power_int_minus inverse_eq_divide)
  also have "\<dots> \<le> \<bar>of_int n\<bar> / \<bar>of_int k\<bar>" using b k by (intro frac_le) auto
  finally have "2 powi (- 1000) \<le> \<bar>?q\<bar>" by (simp add: abs_divide)
  then have "\<bar>of_int z - ?q\<bar> \<le> \<bar>?q\<bar> / 2 ^ 53" using rnd_error [of ?q] False assms(2) z by simp
  moreover have "of_int z - ?q = of_int (z * k - n) / of_int k" using assms(2) by (simp add: diff_divide_distrib)
  ultimately have "\<bar>of_int (z * k - n)\<bar> / \<bar>of_int k :: rat\<bar> \<le> \<bar>of_int n\<bar> / \<bar>of_int k\<bar> / 2 ^ 53"
    by (simp add: abs_divide)
  then have "\<bar>of_int (z * k - n) :: rat\<bar> \<le> \<bar>of_int n\<bar> / 2 ^ 53" using k by (simp add: divide_le_cancel field_simps)
  also have "\<dots> < 1" using b(3) by simp
  finally have "(of_int \<bar>z * k - n\<bar> :: rat) < of_int 1" by simp
  then have "z * k = n" by (simp only: of_int_less_iff)
  then show ?thesis by auto
qed simp

lemma f_sub_int: "\<bar>a - b\<bar> \<le> 2 ^ 53 \<Longrightarrow> f_sub (f_int a) (f_int b) = f_int (a - b)"
  using f64_of_exact [OF representable_int small_int, of "a - b" "a < b"]
    f64_of_exact [OF representable_int small_int, of "a - b" "a < 0 \<and> \<not> b < 0"]
  by (auto simp: f_sub_def f_int_def simp flip: of_int_diff)

lemma div_fract_zero:
  assumes n: "\<bar>n\<bar> < 2 ^ 53" and k: "k \<noteq> 0" "\<bar>k\<bar> \<le> 2 ^ 53" and pos: "0 \<le> n * sgn k"
  shows "f_le f_zero (f_div (f_int n) (f_int k)) \<and> f_eq (f_fract (f_div (f_int n) (f_int k))) f_zero \<longleftrightarrow> k dvd n"
proof -
  let ?q = "of_int n / of_int k :: rat"
  have "0 \<le> ?q" using pos k by (auto simp: sgn_if zero_le_divide_iff split: if_splits)
  have form: "f_div (f_int n) (f_int k) = f64_of ((n < 0) \<noteq> (k < 0)) ?q" using k(1) by (simp add: f_int_def)
  show ?thesis
  proof
    assume "f_le f_zero (f_div (f_int n) (f_int k)) \<and> f_eq (f_fract (f_div (f_int n) (f_int k))) f_zero"
    then have z: "f_eq (f_fract (f64_of ((n < 0) \<noteq> (k < 0)) ?q)) f_zero" by (simp add: form)
    obtain t where t: "f64_of ((n < 0) \<noteq> (k < 0)) ?q = Fin t (rnd ?q)"
    proof (cases "2 ^ 1024 \<le> \<bar>rnd ?q\<bar>")
      case True
      then show ?thesis using z by (simp add: f64_of_def Let_def f_fract_def f_sub_def f_zero_def)
    next
      case False
      then show ?thesis using that by (simp add: f64_of_def Let_def)
    qed
    then have ok: "f64_ok (Fin t (rnd ?q))" by (metis f64_ok_of)
    from f_fract_Fin [OF this] z t have "rnd ?q = of_int (rat_trunc (rnd ?q))" by (auto simp: f_zero_def)
    then show "k dvd n" using rnd_quotient [OF n k] by metis
  next
    assume "k dvd n"
    then obtain z where z: "n = k * z" by blast
    then have q: "?q = of_int z" using k(1) by simp
    have "\<bar>z\<bar> \<le> \<bar>n\<bar>" using k(1) mult_right_mono [of 1 "\<bar>k\<bar>" "\<bar>z\<bar>"] by (simp add: z abs_mult)
    then have small: "\<bar>z\<bar> \<le> 2 ^ 53" using n by linarith
    from f64_of_exact [OF representable_int small_int, OF small small] f64_ok_int [OF small]
    have f: "f_div (f_int n) (f_int k) = Fin (if z = 0 then (n < 0) \<noteq> (k < 0) else z < 0) (of_int z)" by (simp add: form q)
    moreover have "f64_ok (Fin (if z = 0 then (n < 0) \<noteq> (k < 0) else z < 0) (of_int z))" by (metis f form f64_ok_of)
    ultimately obtain t where "f_fract (f_div (f_int n) (f_int k)) = Fin t (of_int z - of_int (rat_trunc (of_int z)))"
      using f_fract_Fin by metis
    moreover have "0 \<le> (of_int z :: rat)" using \<open>0 \<le> ?q\<close> unfolding q .
    ultimately show "f_le f_zero (f_div (f_int n) (f_int k)) \<and> f_eq (f_fract (f_div (f_int n) (f_int k))) f_zero"
      using f by (auto simp: f_zero_def f_le_def)
  qed
qed

text \<open>
  C38: A range pattern matches exactly the elements of the mathematical range, with an explicit
  integer step that is not zero and at most \<open>2 ^ 53\<close> and with the step the bounds give, for an integer value and
  start of magnitude below \<open>2 ^ 52\<close>.
\<close>
theorem range_pattern_members:
  assumes "\<bar>x\<bar> < 2 ^ 52" "\<bar>lo\<bar> < 2 ^ 52" "k \<noteq> 0" "\<bar>k\<bar> \<le> 2 ^ 53"
  shows "(range_pattern_contains (f_int x) (f_int lo) (f_int hi) (Some (f_int k)) inclusive
      \<longleftrightarrow> x \<in> set (int_range lo hi k inclusive))
    \<and> (range_pattern_contains (f_int x) (f_int lo) (f_int hi) None inclusive
      \<longleftrightarrow> x \<in> set (int_range lo hi (if lo \<le> hi then 1 else - 1) inclusive))"
proof
  have side: "(if 0 < s then lo \<le> x else x \<le> lo) \<longleftrightarrow> 0 \<le> (x - lo) * sgn s" if "s \<noteq> 0" for s :: int
    using that by (auto simp: sgn_if)
  have small: "\<bar>x - lo\<bar> < 2 ^ 53" using assms(1, 2) by simp
  have sub: "f_sub (f_int x) (f_int lo) = f_int (x - lo)" using small by (intro f_sub_int) simp
  have lower: "(if f_lt f_zero (f_int s) then f_le (f_int lo) (f_int x) else f_le (f_int x) (f_int lo))
    \<longleftrightarrow> 0 \<le> (x - lo) * sgn s" if "s \<noteq> 0" for s
    using side [OF that] by (simp only: f_consts f_int_cmp)
  show "range_pattern_contains (f_int x) (f_int lo) (f_int hi) (Some (f_int k)) inclusive
      \<longleftrightarrow> x \<in> set (int_range lo hi k inclusive)"
    using div_fract_zero [OF small assms(3, 4)]
    unfolding range_pattern_contains_def Let_def option.case lower [OF assms(3)] has_next_int sub in_int_range [OF assms(3)]
    by auto
  let ?s = "if lo \<le> hi then 1 else - 1 :: int"
  have s: "(if f_le (f_int lo) (f_int hi) then f_one else f_neg f_one) = f_int ?s"
    by (simp add: f_int_cmp) (simp add: f_one_def f_int_def)
  have "?s \<noteq> 0" by simp
  then show "range_pattern_contains (f_int x) (f_int lo) (f_int hi) None inclusive
      \<longleftrightarrow> x \<in> set (int_range lo hi ?s inclusive)"
    unfolding range_pattern_contains_def Let_def option.case s lower [OF \<open>?s \<noteq> 0\<close>] has_next_int in_int_range [OF \<open>?s \<noteq> 0\<close>]
    by auto
qed

theorem range_pattern_members_witness:
  "range_pattern_contains (f_int 7) (f_int 1) (f_int 10) (Some (f_int 3)) False
    \<and> \<not> range_pattern_contains (f_int 8) (f_int 1) (f_int 10) (Some (f_int 3)) False"
  using range_pattern_members [of 7 1 3 10 False] range_pattern_members [of 8 1 3 10 False]
  by (simp add: in_int_range int_has_next_def)

section \<open>Beyond the exact integers\<close>

lemma ilog2_unique:
  assumes "2 powi l \<le> x" "x < 2 powi (l + 1)"
  shows "ilog2 x = l"
proof -
  have "0 < x" using assms(1) powi_pos [of l] by (rule less_le_trans [rotated])
  note b = ilog2_bounds [OF this]
  have "2 powi l < (2 :: rat) powi (ilog2 x + 1)" "2 powi ilog2 x < (2 :: rat) powi (l + 1)"
    using b assms by (auto intro: le_less_trans)
  then show ?thesis by (simp add: powi_less)
qed

lemma ilog2_mono: "2 powi k \<le> x \<Longrightarrow> k \<le> ilog2 x"
proof -
  assume k: "2 powi k \<le> x"
  have "0 < x" using k powi_pos [of k] by (rule less_le_trans [rotated])
  then have "2 powi k < (2 :: rat) powi (ilog2 x + 1)" using ilog2_bounds [of x] k by (metis le_less_trans)
  then show ?thesis by (simp add: powi_less)
qed

lemma rnd_large:
  assumes "2 powi k \<le> x" and "0 \<le> k"
  shows "2 powi k \<le> rnd x"
proof -
  define l where "l = ilog2 x"
  have x: "0 < x" using assms(1) powi_pos [of k] by (rule less_le_trans [rotated])
  have l: "2 powi l \<le> x" "k \<le> l" using ilog2_bounds [OF x] ilog2_mono [OF assms(1)] by (auto simp: l_def)
  have u: "ulp_exp x = l - 52" using x l(2) assms(2) by (simp add: ulp_exp_def l_def)
  have "(2 :: rat) ^ 52 \<le> x / 2 powi (l - 52)" using l(1) by (simp add: powi_diff field_simps)
  then have "(2 :: int) ^ 52 \<le> \<lfloor>x / 2 powi (l - 52)\<rfloor>" by (simp add: le_floor_iff)
  then have "(2 :: int) ^ 52 \<le> rne (x / 2 powi (l - 52))" by (auto simp: rne_def Let_def)
  then have "(of_int (2 ^ 52) :: rat) \<le> of_int (rne (x / 2 powi (l - 52)))" by (simp only: of_int_le_iff)
  then have "(2 :: rat) ^ 52 * 2 powi (l - 52) \<le> rnd x" using x by (simp add: rnd_def u)
  moreover have "(2 :: rat) ^ 52 * 2 powi (l - 52) = 2 powi l" by (simp add: powi_diff)
  moreover have "(2 :: rat) powi k \<le> 2 powi l" using l(2) by (intro power_int_increasing) auto
  ultimately show ?thesis by linarith
qed

lemma rne_below_half:
  assumes "0 < t" and "t < 1 / 2"
  shows "rne (of_int m + t) = m"
proof -
  have "\<lfloor>of_int m + t\<rfloor> = m" using assms by (simp add: floor_eq_iff)
  with assms show ?thesis by (simp add: rne_def)
qed

text \<open>A number of the format from \<open>2 ^ 54\<close> on absorbs the addition of 1.\<close>

lemma rnd_absorbs:
  assumes "representable x" and "2 ^ 54 \<le> x"
  shows "rnd (x + 1) = x"
proof -
  define l where "l = ilog2 x"
  have x: "0 < x" using assms(2) by (rule less_le_trans [rotated]) simp
  have b: "2 powi l \<le> x" "x < 2 powi (l + 1)" using ilog2_bounds [OF x] by (auto simp: l_def)
  have l54: "54 \<le> l" using ilog2_mono [of 54 x] assms(2) by (simp add: l_def)
  define p where "p = (2 :: rat) powi (l - 52)"
  have p: "4 \<le> p"
  proof -
    have "(2 :: rat) powi 2 \<le> 2 powi (l - 52)" using l54 by (intro power_int_increasing) auto
    then show ?thesis by (simp add: p_def)
  qed
  obtain m where m: "x = of_int m * p"
  proof -
    from assms(1) obtain m e where me: "\<bar>m\<bar> < 2 ^ 53" "x = of_int m * 2 powi e" by (auto simp: representable_def)
    have "(of_int \<bar>m\<bar> :: rat) < of_int (2 ^ 53)" using me(1) by (simp only: of_int_less_iff)
    then have "x < 2 powi (53 + e)" using x by (simp add: me(2) powi_add abs_if split: if_splits)
    then have "l < 53 + e" using b(1) by (metis le_less_trans powi_less)
    then have "(2 :: rat) powi (e - (l - 52)) = 2 ^ nat (e - (l - 52))" by (simp add: power_int_def)
    moreover have "(2 :: rat) powi e = 2 powi (e - (l - 52)) * p" unfolding p_def powi_add [symmetric] by simp
    ultimately have "(2 :: rat) powi e = 2 ^ nat (e - (l - 52)) * p" by simp
    then have "x = of_int (m * 2 ^ nat (e - (l - 52))) * p" by (simp add: me(2))
    then show thesis by (rule that)
  qed
  have pp: "2 powi (l + 1) = 2 ^ 53 * p" by (simp add: p_def powi_diff powi_add)
  have "of_int m < (2 ^ 53 :: rat)" using b(2) p unfolding m pp by simp
  then have "of_int m < (of_int (2 ^ 53) :: rat)" by simp
  then have "m + 1 \<le> 2 ^ 53" by (simp only: of_int_less_iff)
  then have "(of_int (m + 1) :: rat) \<le> of_int (2 ^ 53)" by (simp only: of_int_le_iff)
  then have "of_int (m + 1) * p \<le> 2 ^ 53 * p" using p by (intro mult_right_mono) auto
  then have "x + p \<le> 2 powi (l + 1)" unfolding pp by (simp add: m algebra_simps)
  then have "ilog2 \<bar>x + 1\<bar> = l" using b(1) p x by (intro ilog2_unique) auto
  then have u: "ulp_exp (x + 1) = l - 52" using l54 by (simp add: ulp_exp_def)
  have q: "(x + 1) / p = of_int m + 1 / p" using p by (simp add: m add_divide_distrib)
  have "1 / p \<le> 1 / 4" "0 < 1 / p" using p by (auto intro: divide_left_mono [of 4 p 1, simplified])
  then have "rne ((x + 1) / p) = m" unfolding q by (intro rne_below_half) linarith+
  then show ?thesis using u x by (simp add: rnd_def p_def [symmetric] m)
qed

lemma i64_large:
  assumes "2 ^ 54 \<le> sint i"
  shows "\<exists>x. f64_of_i64 i = Fin False x \<and> 2 ^ 54 \<le> x \<and> f_add (Fin False x) f_one = Fin False x"
proof -
  let ?n = "of_int (sint i) :: rat"
  have n: "2 powi 54 \<le> ?n" "?n \<le> 2 ^ 63"
  proof -
    have "(of_int (2 ^ 54) :: rat) \<le> ?n" using assms by (simp only: of_int_le_iff)
    then show "2 powi 54 \<le> ?n" by simp
    have "?n \<le> of_int (2 ^ 63)" using sint_i64 [of i] by (simp only: of_int_le_iff)
    then show "?n \<le> 2 ^ 63" by simp
  qed
  have r: "2 ^ 54 \<le> rnd ?n" using rnd_large [OF n(1)] by simp
  have "(2 :: rat) powi (- 1000) \<le> 2 powi 54" by (intro power_int_increasing) auto
  then have "\<bar>rnd ?n - ?n\<bar> \<le> \<bar>?n\<bar> / 2 ^ 53" using rnd_error [of ?n] n(1) by simp
  then have "rnd ?n \<le> 2 ^ 64" using n by (simp add: abs_if split: if_splits)
  also have "(2 :: rat) ^ 64 < 2 ^ 1024" by simp
  finally have fin: "\<not> 2 ^ 1024 \<le> \<bar>rnd ?n\<bar>" using r by simp
  have "f64_of_i64 i = Fin False (rnd ?n)" using fin r by (simp add: f64_of_i64_def f64_of_def Let_def)
  moreover have "f_add (Fin False (rnd ?n)) f_one = Fin False (rnd ?n)"
    using rnd_absorbs [OF rnd_representable r] fin r by (simp add: f_one_def f64_of_def Let_def)
  ultimately show ?thesis using r by blast
qed

lemma rnd_small:
  assumes "1 \<le> x" and "x \<le> 2 powi k"
  shows "rnd x \<le> 2 powi k"
proof -
  define l where "l = ilog2 x"
  have x: "0 < x" using assms(1) by simp
  have l: "2 powi l \<le> x" "x < 2 powi (l + 1)" "0 \<le> l" using ilog2_bounds [OF x] ilog2_mono [of 0 x] assms(1) by (auto simp: l_def)
  have "\<not> k < l" using l(1) assms(2) powi_less [of k l] by linarith
  then consider "l = k" | "l + 1 \<le> k" by linarith
  then show ?thesis
  proof cases
    case 1
    then have "x = 2 powi k" using l(1) assms(2) by simp
    moreover have "representable (2 powi k)"
      unfolding representable_def using 1 l(3) by (intro exI [of _ 1] exI [of _ k]) simp
    ultimately show ?thesis by (simp add: rnd_exact)
  next
    case 2
    have u: "ulp_exp x = l - 52" using x l(3) by (simp add: ulp_exp_def l_def)
    have "x / 2 powi (l - 52) < 2 ^ 53" using l(2) by (simp add: powi_diff powi_add field_simps)
    then have "\<lfloor>x / 2 powi (l - 52)\<rfloor> < 2 ^ 53" by (simp add: floor_less_iff)
    then have "rne (x / 2 powi (l - 52)) \<le> 2 ^ 53" by (auto simp: rne_def Let_def)
    then have "(of_int (rne (x / 2 powi (l - 52))) :: rat) \<le> of_int (2 ^ 53)" by (simp only: of_int_le_iff)
    then have "rnd x \<le> 2 ^ 53 * 2 powi (l - 52)" using x by (simp add: rnd_def u)
    also have "\<dots> = 2 powi (l + 1)" by (simp add: powi_diff powi_add)
    also have "\<dots> \<le> 2 powi k" using 2 by (intro power_int_increasing) auto
    finally show ?thesis .
  qed
qed

text \<open>No integer is read as a number above the largest one.\<close>

lemma i64_max_top:
  assumes "1 \<le> sint hi"
  shows "\<not> f_lt (f64_of_i64 (word_of_int I64_MAX)) (f64_of_i64 hi)"
proof -
  have m: "sint (word_of_int I64_MAX :: 64 word) = 2 ^ 63 - 1" by (simp add: I64_MAX_def)
  let ?x = "2 ^ 63 - 1 :: rat"
  have "ilog2 \<bar>?x\<bar> = 62" by (intro ilog2_unique) (simp_all add: power_int_def)
  then have u: "ulp_exp ?x = 10" by (simp add: ulp_exp_def)
  have "\<lfloor>?x / 1024\<rfloor> = 2 ^ 53 - 1" by (simp add: floor_eq_iff)
  then have "rne (?x / 2 powi 10) = 2 ^ 53" by (simp add: rne_def)
  then have "rnd ?x = 2 ^ 63" using u by (simp add: rnd_def)
  then have max: "f64_of_i64 (word_of_int I64_MAX) = Fin False (2 ^ 63)" unfolding f64_of_i64_def m by (simp add: f64_of_def)
  let ?h = "of_int (sint hi) :: rat"
  have "?h \<le> of_int (2 ^ 63)" "of_int 1 \<le> ?h" using sint_i64 [of hi] assms by (simp_all only: of_int_le_iff)
  then have r: "rnd ?h \<le> 2 ^ 63" using rnd_small [of ?h 63] by simp
  have "1 \<le> rnd ?h" using rnd_large [of 0 ?h] \<open>of_int 1 \<le> ?h\<close> by simp
  moreover have "(2 :: rat) ^ 63 < 2 ^ 1024" by simp
  ultimately have "\<not> 2 ^ 1024 \<le> \<bar>rnd ?h\<bar>" using r by linarith
  then have "f64_of_i64 hi = Fin False (rnd ?h)" using \<open>1 \<le> rnd ?h\<close> by (simp add: f64_of_i64_def f64_of_def Let_def)
  with max r show ?thesis by simp
qed

lemma i64_nonpos:
  assumes "sint hi \<le> 0" and "0 \<le> x"
  shows "\<not> f_lt (Fin False x) (f64_of_i64 hi)"
proof -
  let ?h = "of_int (sint hi) :: rat"
  have "?h \<le> of_int 0" using assms(1) by (simp only: of_int_le_iff)
  then have "?h / 2 powi ulp_exp ?h \<le> 0" using powi_pos [of "ulp_exp ?h"] by (simp add: divide_le_0_iff)
  moreover have "rne y \<le> 0" if "y \<le> 0" for y
  proof (cases "\<lfloor>y\<rfloor> = 0")
    case True
    then have "y = 0" using that of_int_floor_le [of y] by simp
    then show ?thesis by (simp add: rne_def)
  next
    case False
    have "\<lfloor>y\<rfloor> \<le> 0" using that by (simp add: floor_le_iff)
    with False show ?thesis by (auto simp: rne_def Let_def)
  qed
  ultimately have "rne (?h / 2 powi ulp_exp ?h) \<le> 0" by blast
  then have "rnd ?h \<le> 0" by (auto simp: rnd_def mult_le_0_iff)
  then show ?thesis using assms(2) by (simp add: f64_of_i64_def f64_of_def Let_def)
qed

text \<open>A counter that the step does not move: the loops never end.\<close>

lemma range_items_stuck:
  assumes "range_has_next i hi step inclusive" and "f_add i step = i"
  shows "range_items i hi step inclusive yields_int = (None :: 'd rval list option)"
proof (cases "range_items i hi step inclusive yields_int :: 'd rval list option")
  case (Some l)
  have "range_items i hi step inclusive yields_int = Option.bind (range_items i hi step inclusive yields_int)
      (\<lambda>rest. Some ((range_counter_value i yields_int :: 'd rval) # rest))"
    by (subst range_items.simps) (simp add: assms)
  with Some have "l = range_counter_value i yields_int # l" by simp
  then have "length l = Suc (length l)" by (metis length_Cons)
  then show ?thesis by simp
qed simp

lemma for_range_loop_stuck:
  assumes next_i: "range_has_next i hi step inclusive" and "f_add i step = i" and go: "\<And>v s. is_BodyNext (body v s)"
  shows "for_range_loop body i hi step inclusive yields_int s = None"
proof (rule ccontr)
  assume "for_range_loop body i hi step inclusive yields_int s \<noteq> None"
  then obtain r where "for_range_loop body i hi step inclusive yields_int s = Some r" by blast
  then have "\<not> (range_has_next i hi step inclusive \<and> f_add i step = i \<and> (\<forall>v s. is_BodyNext (body v s)))"
    by (rule for_range_loop.raw_induct [rotated]) (auto simp: Let_def split: if_splits)
  with assms show False by blast
qed

end
