(* ===== verification/Arith.thy ===== *)
theory Arith
  imports Ranges
begin

text \<open>
  The unary and binary operators (\<open>apply_unop\<close>, \<open>apply_binop\<close> and the helpers they call in
  \<open>src/src/interp.rs\<close>), and the adaptive dispatch in front of them in the virtual machine
  (\<open>src/src/vm/adapt.rs\<close>, \<open>eval_binop_adaptive\<close> in \<open>src/src/vm/run.rs\<close>).  Integers are 64-bit words read
  as signed; an error value names the message, with the operand where the message shows its type.

  The lemmas show that integer arithmetic is exact or raises, that the wrapping operators are
  arithmetic modulo \<open>2 ^ 64\<close>, that specialisation never changes a result, and that the loops over
  integer ranges of the two engines agree inside the exact range of floats.
\<close>

section \<open>Integers\<close>

datatype 'd arith_error =
    IntegerOverflow bin_op
  | NegOverflow
  | IntDivByZero
  | IntRemByZero
  | ShiftOutOfRange u64
  | CannotNegate "'d rval"
  | BitNotFloat
  | BitNotOf "'d rval"
  | DecimalOverflow bin_op
  | DecimalDivByZero
  | DecimalRemByZero
  | DecimalPow
  | IntOnlyOperator bin_op
  | RequiresNumbers "'d rval" "'d rval"
  | NonFiniteToDecimal
  | FloatToDecimalRange
  | FloatToDecimalCompare
  | RangeError range_error

text \<open>The checked operations of \<open>i64\<close>: the exact result if it is in range.\<close>

definition checked :: "int \<Rightarrow> u64 option" where
  "checked r = (if I64_MIN \<le> r \<and> r \<le> I64_MAX then Some (word_of_int r) else None)"

definition quot_trunc :: "int \<Rightarrow> int \<Rightarrow> int" where
  "quot_trunc a b = sgn a * sgn b * (\<bar>a\<bar> div \<bar>b\<bar>)"

definition int_or :: "'e \<Rightarrow> u64 option \<Rightarrow> ('d rval, 'e) result" where
  "int_or e r = (case r of Some v \<Rightarrow> Ok (RInt v) | None \<Rightarrow> Err e)"

definition int_shift :: "u64 \<Rightarrow> u64 \<Rightarrow> bool \<Rightarrow> (u64, 'd arith_error) result" where
  "int_shift a b left =
     (if 0 \<le> sint b \<and> sint b < 64
      then Ok (if left then push_bit (nat (sint b)) a else signed_drop_bit (nat (sint b)) a)
      else Err (ShiftOutOfRange b))"

definition int_pow :: "'d numerics \<Rightarrow> u64 \<Rightarrow> u64 \<Rightarrow> ('d rval, 'd arith_error) result" where
  "int_pow n base e =
     (if 0 \<le> sint e \<and> sint e \<le> 2 ^ 32 - 1
      then int_or (IntegerOverflow BPow) (checked (sint base ^ nat (sint e)))
      else Ok (RFloat (powf n (f64_of_i64 base) (f64_of_i64 e))))"

definition int_binop :: "'d numerics \<Rightarrow> bin_op \<Rightarrow> u64 \<Rightarrow> u64 \<Rightarrow> ('d rval, 'd arith_error) result" where
  "int_binop n op a b =
     (case op of
        BAdd \<Rightarrow> int_or (IntegerOverflow BAdd) (checked (sint a + sint b))
      | BSub \<Rightarrow> int_or (IntegerOverflow BSub) (checked (sint a - sint b))
      | BMul \<Rightarrow> int_or (IntegerOverflow BMul) (checked (sint a * sint b))
      | BDiv \<Rightarrow> if b = 0 then Err IntDivByZero
          else int_or (IntegerOverflow BDiv) (checked (quot_trunc (sint a) (sint b)))
      | BMod \<Rightarrow> if b = 0 then Err IntRemByZero
          else int_or (IntegerOverflow BMod) (if checked (quot_trunc (sint a) (sint b)) = None then None
            else checked (sint a - sint b * quot_trunc (sint a) (sint b)))
      | BPow \<Rightarrow> int_pow n a b
      | BLt \<Rightarrow> Ok (RBool (sint a < sint b))
      | BLe \<Rightarrow> Ok (RBool (sint a \<le> sint b))
      | BGt \<Rightarrow> Ok (RBool (sint b < sint a))
      | BGe \<Rightarrow> Ok (RBool (sint b \<le> sint a))
      | BBitAnd \<Rightarrow> Ok (RInt (a AND b))
      | BBitOr \<Rightarrow> Ok (RInt (a OR b))
      | BBitXor \<Rightarrow> Ok (RInt (a XOR b))
      | BShl \<Rightarrow> res_bind (int_shift a b True) (\<lambda>r. Ok (RInt r))
      | BShr \<Rightarrow> res_bind (int_shift a b False) (\<lambda>r. Ok (RInt r))
      | BWrapAdd \<Rightarrow> Ok (RInt (a + b))
      | BWrapSub \<Rightarrow> Ok (RInt (a - b))
      | BWrapMul \<Rightarrow> Ok (RInt (a * b))
      | _ \<Rightarrow> Panic)"

section \<open>Floats, mixed operands and decimals\<close>

definition float_binop :: "'d numerics \<Rightarrow> bin_op \<Rightarrow> f64 \<Rightarrow> f64 \<Rightarrow> ('d rval, 'd arith_error) result" where
  "float_binop n op a b =
     (case op of
        BAdd \<Rightarrow> Ok (RFloat (f_add a b))
      | BSub \<Rightarrow> Ok (RFloat (f_sub a b))
      | BMul \<Rightarrow> Ok (RFloat (f_mul a b))
      | BDiv \<Rightarrow> Ok (RFloat (f_div a b))
      | BMod \<Rightarrow> Ok (RFloat (f_rem a b))
      | BPow \<Rightarrow> Ok (RFloat (powf n a b))
      | BLt \<Rightarrow> Ok (RBool (f_lt a b))
      | BLe \<Rightarrow> Ok (RBool (f_le a b))
      | BGt \<Rightarrow> Ok (RBool (f_lt b a))
      | BGe \<Rightarrow> Ok (RBool (f_le b a))
      | _ \<Rightarrow> Panic)"

fun ord_reverse :: "ordering \<Rightarrow> ordering" where
  "ord_reverse Less = Greater"
| "ord_reverse Equal = Equal"
| "ord_reverse Greater = Less"

definition mixed_cmp :: "u64 \<Rightarrow> f64 \<Rightarrow> bool \<Rightarrow> bool \<Rightarrow> bool \<Rightarrow> bool \<Rightarrow> bool" where
  "mixed_cmp i f float_first want_lt want_eq want_gt =
     (case int_cmp_float i f of
        None \<Rightarrow> False
      | Some ord \<Rightarrow> (case (if float_first then ord_reverse ord else ord) of
          Less \<Rightarrow> want_lt | Equal \<Rightarrow> want_eq | Greater \<Rightarrow> want_gt))"

definition mixed_binop :: "'d numerics \<Rightarrow> bin_op \<Rightarrow> u64 \<Rightarrow> f64 \<Rightarrow> bool \<Rightarrow> ('d rval, 'd arith_error) result" where
  "mixed_binop n op i f float_first =
     (case op of
        BLt \<Rightarrow> Ok (RBool (mixed_cmp i f float_first True False False))
      | BLe \<Rightarrow> Ok (RBool (mixed_cmp i f float_first True True False))
      | BGt \<Rightarrow> Ok (RBool (mixed_cmp i f float_first False False True))
      | BGe \<Rightarrow> Ok (RBool (mixed_cmp i f float_first False True True))
      | _ \<Rightarrow> if float_first then float_binop n op f (f64_of_i64 i) else float_binop n op (f64_of_i64 i) f)"

fun coerce_to_decimal :: "'d numerics \<Rightarrow> 'd rval \<Rightarrow> ('d option, 'd arith_error) result" where
  "coerce_to_decimal n (RDecimal d) = Ok (Some d)"
| "coerce_to_decimal n (RInt i) = Ok (Some (dec_of_i64 n i))"
| "coerce_to_decimal n (RFloat f) =
     (if \<not> is_finite f then Err NonFiniteToDecimal
      else (case dec_of_f64 n f of Some d \<Rightarrow> Ok (Some d) | None \<Rightarrow> Err FloatToDecimalRange))"
| "coerce_to_decimal n v = Ok None"

definition decimal_cross_eq :: "'d numerics \<Rightarrow> 'd rval \<Rightarrow> 'd rval \<Rightarrow> (bool, 'd arith_error) result" where
  "decimal_cross_eq n l r =
     (let with_float = (\<lambda>a f. if \<not> is_finite f then Ok False
        else (case dec_of_f64 n f of Some b \<Rightarrow> Ok (dec_eq n a b) | None \<Rightarrow> Err FloatToDecimalCompare))
      in case (l, r) of
        (RDecimal a, RDecimal b) \<Rightarrow> Ok (dec_eq n a b)
      | (RDecimal a, RInt i) \<Rightarrow> Ok (dec_eq n a (dec_of_i64 n i))
      | (RInt i, RDecimal a) \<Rightarrow> Ok (dec_eq n a (dec_of_i64 n i))
      | (RDecimal a, RFloat f) \<Rightarrow> with_float a f
      | (RFloat f, RDecimal a) \<Rightarrow> with_float a f
      | _ \<Rightarrow> Ok (rval_eq n l r))"

definition is_int_only_binop :: "bin_op \<Rightarrow> bool" where
  "is_int_only_binop op = (op \<in> {BBitAnd, BBitOr, BBitXor, BShl, BShr, BWrapAdd, BWrapSub, BWrapMul})"

definition dec_or :: "bin_op \<Rightarrow> 'd option \<Rightarrow> ('d rval, 'd arith_error) result" where
  "dec_or op r = (case r of Some d \<Rightarrow> Ok (RDecimal d) | None \<Rightarrow> Err (DecimalOverflow op))"

definition decimal_binop :: "'d numerics \<Rightarrow> bin_op \<Rightarrow> 'd \<Rightarrow> 'd \<Rightarrow> ('d rval, 'd arith_error) result" where
  "decimal_binop n op a b =
     (case op of
        BAdd \<Rightarrow> dec_or BAdd (dec_add n a b)
      | BSub \<Rightarrow> dec_or BSub (dec_sub n a b)
      | BMul \<Rightarrow> dec_or BMul (dec_mul n a b)
      | BDiv \<Rightarrow> if dec_eq n b (dec_zero n) then Err DecimalDivByZero else dec_or BDiv (dec_div n a b)
      | BMod \<Rightarrow> if dec_eq n b (dec_zero n) then Err DecimalRemByZero else dec_or BMod (dec_rem n a b)
      | BLt \<Rightarrow> Ok (RBool (dec_lt n a b))
      | BLe \<Rightarrow> Ok (RBool (dec_lt n a b \<or> dec_eq n a b))
      | BGt \<Rightarrow> Ok (RBool (dec_lt n b a))
      | BGe \<Rightarrow> Ok (RBool (dec_lt n b a \<or> dec_eq n a b))
      | BPow \<Rightarrow> Err DecimalPow
      | _ \<Rightarrow> if is_int_only_binop op then Err (IntOnlyOperator op) else Panic)"

section \<open>The shared dispatch\<close>

definition apply_unop :: "'d numerics \<Rightarrow> un_op \<Rightarrow> 'd rval \<Rightarrow> ('d rval, 'd arith_error) result" where
  "apply_unop n op v =
     (case op of
        UNeg \<Rightarrow> (case v of
            RInt i \<Rightarrow> int_or NegOverflow (checked (- sint i))
          | RFloat f \<Rightarrow> Ok (RFloat (f_neg f))
          | RDecimal d \<Rightarrow> Ok (RDecimal (dec_neg n d))
          | _ \<Rightarrow> Err (CannotNegate v))
      | UNot \<Rightarrow> Ok (RBool (\<not> is_truthy n v))
      | UBitNot \<Rightarrow> (case v of
            RInt i \<Rightarrow> Ok (RInt (NOT i))
          | RFloat f \<Rightarrow> Err BitNotFloat
          | _ \<Rightarrow> Err (BitNotOf v)))"

text \<open>The numeric dispatch, after equality, ranges, concatenation and decimals.\<close>

definition is_float :: "'d rval \<Rightarrow> bool" where
  "is_float v = (case v of RFloat _ \<Rightarrow> True | _ \<Rightarrow> False)"

definition is_decimal :: "'d rval \<Rightarrow> bool" where
  "is_decimal v = (case v of RDecimal _ \<Rightarrow> True | _ \<Rightarrow> False)"

definition number_binop :: "'d numerics \<Rightarrow> bin_op \<Rightarrow> 'd rval \<Rightarrow> 'd rval \<Rightarrow> ('d rval, 'd arith_error) result" where
  "number_binop n op l r =
     (if is_int_only_binop op \<and> (is_float l \<or> is_float r) then Err (IntOnlyOperator op)
      else (case (l, r) of
          (RInt a, RInt b) \<Rightarrow> int_binop n op a b
        | (RInt i, RFloat f) \<Rightarrow> mixed_binop n op i f False
        | (RFloat f, RInt i) \<Rightarrow> mixed_binop n op i f True
        | (RFloat a, RFloat b) \<Rightarrow> float_binop n op a b
        | _ \<Rightarrow> Err (RequiresNumbers l r)))"

definition arith_binop :: "'d numerics \<Rightarrow> bin_op \<Rightarrow> 'd rval \<Rightarrow> 'd rval \<Rightarrow> ('d rval, 'd arith_error) result" where
  "arith_binop n op l r =
     (case (op, l, r) of
        (BAdd, RStr a, RStr b) \<Rightarrow> Ok (RStr (a @ b))
      | _ \<Rightarrow>
         if is_decimal l \<or> is_decimal r then
           res_bind (coerce_to_decimal n l) (\<lambda>da. res_bind (coerce_to_decimal n r) (\<lambda>db.
             case (da, db) of (Some a, Some b) \<Rightarrow> decimal_binop n op a b | _ \<Rightarrow> number_binop n op l r))
         else number_binop n op l r)"

datatype 'd outcome = Value "'d rval" | NewArray "'d rval list"

definition one :: "('d rval, 'e) result \<Rightarrow> ('d outcome, 'e) result" where
  "one r = res_bind r (\<lambda>v. Ok (Value v))"

definition range_outcome :: "('d rval list, range_error) result \<Rightarrow> ('d outcome, 'd arith_error) result" where
  "range_outcome r = (case r of Ok vs \<Rightarrow> Ok (NewArray vs) | Err e \<Rightarrow> Err (RangeError e) | Panic \<Rightarrow> Panic)"

definition apply_binop ::
  "'d numerics \<Rightarrow> bin_op \<Rightarrow> 'd rval \<Rightarrow> 'd rval \<Rightarrow> ('d outcome, 'd arith_error) result option" where
  "apply_binop n op l r =
     (case op of
        BEq \<Rightarrow> Some (res_bind (decimal_cross_eq n l r) (\<lambda>eq. Ok (Value (RBool eq))))
      | BNe \<Rightarrow> Some (res_bind (decimal_cross_eq n l r) (\<lambda>eq. Ok (Value (RBool (\<not> eq)))))
      | BRange \<Rightarrow> map_option range_outcome (materialize_range l r False)
      | BInstanceOf \<Rightarrow> Some Panic
      | _ \<Rightarrow> Some (one (arith_binop n op l r)))"

section \<open>Adaptive specialisation\<close>

definition WARMUP_THRESHOLD :: u16 where "WARMUP_THRESHOLD = 8"

datatype arith_kind = AInt | ANumber | ADecimal | AConcatStr

datatype arith_cache = Generic "arith_kind option" u16 | Specialized arith_kind

definition arith_default :: arith_cache where "arith_default = Generic None 0"

fun observe :: "arith_cache \<Rightarrow> arith_kind option \<Rightarrow> arith_cache" where
  "observe (Specialized k) kind = Specialized k"
| "observe (Generic candidate count) None = Generic None 0"
| "observe (Generic candidate count) (Some k) =
     (if candidate = Some k
      then (let nxt = count + 1 in if WARMUP_THRESHOLD \<le> nxt then Specialized k else Generic (Some k) nxt)
      else Generic (Some k) 1)"

definition deopt :: "arith_cache \<Rightarrow> arith_cache" where
  "deopt c = arith_default"

fun specialized :: "arith_cache \<Rightarrow> arith_kind option" where
  "specialized (Specialized k) = Some k"
| "specialized (Generic c n) = None"

definition decimal_specializable :: "bin_op \<Rightarrow> bool" where
  "decimal_specializable op = (op \<in> {BAdd, BSub, BMul})"

type_synonym arith_caches = "nat \<Rightarrow> arith_cache option"

definition arith_at :: "arith_caches \<Rightarrow> nat \<Rightarrow> arith_cache" where
  "arith_at caches off = (case caches off of Some c \<Rightarrow> c | None \<Rightarrow> arith_default)"

definition number_fast :: "'d numerics \<Rightarrow> bin_op \<Rightarrow> f64 \<Rightarrow> f64 \<Rightarrow> ('d rval, 'd arith_error) result" where
  "number_fast n op a b =
     (case op of
        BAdd \<Rightarrow> Ok (RFloat (f_add a b))
      | BSub \<Rightarrow> Ok (RFloat (f_sub a b))
      | BMul \<Rightarrow> Ok (RFloat (f_mul a b))
      | BDiv \<Rightarrow> Ok (RFloat (f_div a b))
      | BMod \<Rightarrow> Ok (RFloat (f_rem a b))
      | BPow \<Rightarrow> Ok (RFloat (powf n a b))
      | _ \<Rightarrow> Panic)"

definition decimal_fast :: "'d numerics \<Rightarrow> bin_op \<Rightarrow> 'd \<Rightarrow> 'd \<Rightarrow> ('d rval option, 'd arith_error) result" where
  "decimal_fast n op a b =
     (case op of
        BAdd \<Rightarrow> Ok (map_option RDecimal (dec_add n a b))
      | BSub \<Rightarrow> Ok (map_option RDecimal (dec_sub n a b))
      | BMul \<Rightarrow> Ok (map_option RDecimal (dec_mul n a b))
      | _ \<Rightarrow> Panic)"

definition observed_kind :: "bin_op \<Rightarrow> 'd rval \<Rightarrow> 'd rval \<Rightarrow> arith_kind option" where
  "observed_kind op a b =
     (case (a, b) of
        (RInt _, RInt _) \<Rightarrow> Some AInt
      | (RFloat _, RFloat _) \<Rightarrow> Some ANumber
      | (RDecimal _, RDecimal _) \<Rightarrow> if decimal_specializable op then Some ADecimal else None
      | (RStr _, RStr _) \<Rightarrow> if op = BAdd then Some AConcatStr else None
      | _ \<Rightarrow> None)"

text \<open>\<open>inst\<close> is the evaluation of \<open>instanceof\<close>, which both paths call first.\<close>

definition eval_binop_adaptive ::
  "'d numerics \<Rightarrow> ('d rval \<Rightarrow> 'd rval \<Rightarrow> ('d outcome, 'd arith_error) result) \<Rightarrow> bool \<Rightarrow> arith_caches \<Rightarrow> nat
   \<Rightarrow> bin_op \<Rightarrow> 'd rval \<Rightarrow> 'd rval \<Rightarrow> ('d outcome, 'd arith_error) result option \<times> arith_caches" where
  "eval_binop_adaptive n inst specialize caches off op a b =
     (if op = BInstanceOf then (Some (inst a b), caches)
      else if \<not> specialize then (apply_binop n op a b, caches)
      else if op \<notin> {BAdd, BSub, BMul, BDiv, BMod, BPow} then (apply_binop n op a b, caches)
      else (let cache = arith_at caches off in
        case specialized cache of
          Some kind \<Rightarrow>
            (case (kind, a, b) of
               (AInt, RInt x, RInt y) \<Rightarrow> (Some (one (int_binop n op x y)), caches)
             | (ANumber, RFloat x, RFloat y) \<Rightarrow> (Some (one (number_fast n op x y)), caches)
             | (ADecimal, RDecimal x, RDecimal y) \<Rightarrow>
                 if decimal_specializable op then
                   (case decimal_fast n op x y of
                      Ok (Some v) \<Rightarrow> (Some (Ok (Value v)), caches)
                    | Ok None \<Rightarrow> (apply_binop n op a b, caches)
                    | _ \<Rightarrow> (Some Panic, caches))
                 else (apply_binop n op a b, caches(off \<mapsto> deopt cache))
             | (AConcatStr, RStr x, RStr y) \<Rightarrow>
                 if op = BAdd then (Some (Ok (Value (RStr (x @ y)))), caches)
                 else (apply_binop n op a b, caches(off \<mapsto> deopt cache))
             | _ \<Rightarrow> (apply_binop n op a b, caches(off \<mapsto> deopt cache)))
        | None \<Rightarrow> (apply_binop n op a b, caches(off \<mapsto> observe cache (observed_kind op a b)))))"

section \<open>The \<open>for\<close> loop of the virtual machine\<close>






section \<open>Specialisation is invisible\<close>

lemma number_fast_float: "op \<in> {BAdd, BSub, BMul, BDiv, BMod, BPow} \<Longrightarrow> number_fast n op a b = float_binop n op a b"
  by (auto simp: number_fast_def float_binop_def)

lemma apply_arith: "op \<in> {BAdd, BSub, BMul, BDiv, BMod, BPow} \<Longrightarrow> apply_binop n op l r = Some (one (arith_binop n op l r))"
  by (auto simp: apply_binop_def)

lemma arith_kinds:
  "arith_binop n op (RInt x) (RInt y) = int_binop n op x y"
  "op \<in> {BAdd, BSub, BMul, BDiv, BMod, BPow} \<Longrightarrow> arith_binop n op (RFloat f) (RFloat g) = float_binop n op f g"
  "arith_binop n op (RDecimal d) (RDecimal e) = decimal_binop n op d e"
  "arith_binop n BAdd (RStr s) (RStr t) = Ok (RStr (s @ t))"
  by (auto simp: arith_binop_def number_binop_def is_decimal_def is_float_def is_int_only_binop_def split: bin_op.splits)

lemma eval_binop_generic:
  "fst (eval_binop_adaptive n inst specialize caches off op a b)
    = (if op = BInstanceOf then Some (inst a b) else apply_binop n op a b)"
proof (cases "op = BInstanceOf \<or> \<not> specialize \<or> op \<notin> {BAdd, BSub, BMul, BDiv, BMod, BPow}")
  case True
  then show ?thesis by (auto simp: eval_binop_adaptive_def)
next
  case False
  then have op: "op \<in> {BAdd, BSub, BMul, BDiv, BMod, BPow}" by blast
  have dec: "decimal_specializable op \<Longrightarrow> decimal_fast n op x y = Ok (Some v) \<Longrightarrow> decimal_binop n op x y = Ok v"
    "decimal_specializable op \<Longrightarrow> decimal_fast n op x y \<noteq> Err e" "decimal_specializable op \<Longrightarrow> decimal_fast n op x y \<noteq> Panic" for x y v e
    by (auto simp: decimal_specializable_def decimal_fast_def decimal_binop_def dec_or_def)
  show ?thesis
    using False op dec
    by (auto simp: eval_binop_adaptive_def Let_def apply_arith [OF op] arith_kinds(1, 3) arith_kinds(2) [OF op]
        number_fast_float [OF op] one_def arith_kinds(4) split: option.splits arith_kind.splits rval.splits result.splits)
qed

text \<open>
  C10: Specialising arithmetic never changes a result: whatever the state of the site's cache, the
  adaptive dispatch gives the value, the error or the overflow that the generic dispatch gives.
\<close>
theorem adaptive_invisible:
  "fst (eval_binop_adaptive n inst specialize caches off op a b)
    = (if op = BInstanceOf then Some (inst a b) else apply_binop n op a b)"
  by (rule eval_binop_generic)

section \<open>Integer arithmetic is exact or raises\<close>

lemma checked_Some: "checked r = Some w \<longleftrightarrow> I64_MIN \<le> r \<and> r \<le> I64_MAX \<and> w = word_of_int r"
  by (auto simp: checked_def)

lemma checked_sint: "checked r = Some w \<Longrightarrow> sint w = r"
  by (auto simp: checked_Some I64_MIN_def I64_MAX_def intro!: sint_word_in_range)

lemma int_or_Ok: "int_or e r = Ok (RInt w) \<longleftrightarrow> r = Some w"
  by (auto simp: int_or_def split: option.splits)

lemma int_or_total: "int_or e r = (case r of Some w \<Rightarrow> Ok (RInt w) | None \<Rightarrow> Err e)"
  by (simp add: int_or_def)

definition exact_or :: "int \<Rightarrow> 'd arith_error \<Rightarrow> ('d rval, 'd arith_error) result \<Rightarrow> bool" where
  "exact_or r e res \<longleftrightarrow>
     (if I64_MIN \<le> r \<and> r \<le> I64_MAX then \<exists>w. res = Ok (RInt w) \<and> sint w = r else res = Err e)"

lemma exact_or_checked [simp]: "exact_or r e (int_or e (checked r))"
  using checked_sint by (auto simp: exact_or_def int_or_def checked_def)


lemma quot_rem:
  assumes "b \<noteq> 0"
  shows "\<bar>a - b * quot_trunc a b\<bar> < \<bar>b\<bar>" "a - b * quot_trunc a b = 0 \<or> sgn (a - b * quot_trunc a b) = sgn a"
    "\<bar>quot_trunc a b\<bar> \<le> \<bar>a\<bar>"
proof -
  have "b * quot_trunc a b = sgn a * (\<bar>b\<bar> * (\<bar>a\<bar> div \<bar>b\<bar>))" by (simp add: quot_trunc_def abs_sgn algebra_simps)
  moreover have "a = sgn a * \<bar>a\<bar>" by (simp add: sgn_mult_abs)
  ultimately have r: "a - b * quot_trunc a b = sgn a * (\<bar>a\<bar> mod \<bar>b\<bar>)"
    by (metis minus_mult_div_eq_mod right_diff_distrib)
  have m: "0 \<le> \<bar>a\<bar> mod \<bar>b\<bar>" "\<bar>a\<bar> mod \<bar>b\<bar> < \<bar>b\<bar>" using assms by simp_all
  then show "\<bar>a - b * quot_trunc a b\<bar> < \<bar>b\<bar>" unfolding r by (auto simp: sgn_if abs_mult)
  show "a - b * quot_trunc a b = 0 \<or> sgn (a - b * quot_trunc a b) = sgn a"
    unfolding r using m(1) by (auto simp: sgn_mult sgn_if)
  have "\<bar>a\<bar> div \<bar>b\<bar> \<le> \<bar>a\<bar>" using assms zdiv_mono2 [of "\<bar>a\<bar>" 1 "\<bar>b\<bar>"] by simp
  moreover have "0 \<le> \<bar>a\<bar> div \<bar>b\<bar>" using assms by (simp add: pos_imp_zdiv_nonneg_iff)
  ultimately show "\<bar>quot_trunc a b\<bar> \<le> \<bar>a\<bar>" by (auto simp: quot_trunc_def sgn_if abs_mult)
qed

text \<open>The truncated quotient of two integers is one, but for \<open>i64::MIN / -1\<close>; the remainder always is.\<close>

lemma quot_in_range:
  fixes a b :: "64 word"
  assumes "b \<noteq> 0" and "\<not> (sint a = I64_MIN \<and> sint b = - 1)"
  shows "I64_MIN \<le> quot_trunc (sint a) (sint b) \<and> quot_trunc (sint a) (sint b) \<le> I64_MAX"
proof (cases "\<bar>quot_trunc (sint a) (sint b)\<bar> = 2 ^ 63")
  let ?q = "quot_trunc (sint a) (sint b)"
  have b: "sint b \<noteq> 0" using assms(1) by (metis signed_0 signed_word_eqI)
  note qr = quot_rem [OF b, of "sint a"]
  case True
  then have "\<bar>sint a\<bar> = 2 ^ 63" using qr(3) sint_i64 [of a] by auto
  then have a: "sint a = - (2 ^ 63)" using sint_i64 [of a] by auto
  have "\<bar>sint b\<bar> = 1"
  proof (rule ccontr)
    assume "\<bar>sint b\<bar> \<noteq> 1"
    then have "2 \<le> \<bar>sint b\<bar>" using b by linarith
    then have "2 ^ 63 div \<bar>sint b\<bar> \<le> 2 ^ 63 div (2 :: int)" by (intro zdiv_mono2) auto
    moreover have "\<bar>?q\<bar> \<le> 2 ^ 63 div \<bar>sint b\<bar>" using b by (auto simp: quot_trunc_def a sgn_if abs_mult pos_imp_zdiv_nonneg_iff)
    ultimately show False using True by simp
  qed
  then have "sint b = 1" using assms(2) a by (simp add: I64_MIN_def)
  then show ?thesis by (simp add: quot_trunc_def a I64_MIN_def I64_MAX_def)
next
  case False
  have "sint b \<noteq> 0" using assms(1) by (metis signed_0 signed_word_eqI)
  from False quot_rem(3) [OF this, of "sint a"] sint_i64 [of a] show ?thesis unfolding I64_MIN_def I64_MAX_def by auto
qed

lemma rem_in_range:
  fixes a b :: "64 word"
  assumes "b \<noteq> 0"
  shows "I64_MIN \<le> sint a - sint b * quot_trunc (sint a) (sint b) \<and> sint a - sint b * quot_trunc (sint a) (sint b) \<le> I64_MAX"
proof -
  have "sint b \<noteq> 0" using assms by (metis signed_0 signed_word_eqI)
  from quot_rem(1) [OF this, of "sint a"] sint_i64 [of b] show ?thesis unfolding I64_MIN_def I64_MAX_def by auto
qed

text \<open>
  C21: The checked integer operators, unary minus included, return the exact result when it is an \<open>i64\<close>
  and raise the overflow of the operator otherwise.  A zero divisor raises its own error.  The remainder of
  \<open>i64::MIN\<close> by \<open>-1\<close> raises the overflow although it would be 0.  A power with an exponent outside
  \<open>0..2^32\<close> is computed in floats.
\<close>
theorem int_ops_exact:
  "exact_or (sint a + sint b) (IntegerOverflow BAdd) (int_binop n BAdd a b)
    \<and> exact_or (sint a - sint b) (IntegerOverflow BSub) (int_binop n BSub a b)
    \<and> exact_or (sint a * sint b) (IntegerOverflow BMul) (int_binop n BMul a b)
    \<and> (if b = 0 then int_binop n BDiv a b = Err IntDivByZero \<and> int_binop n BMod a b = Err IntRemByZero
       else exact_or (quot_trunc (sint a) (sint b)) (IntegerOverflow BDiv) (int_binop n BDiv a b)
         \<and> (if sint a = I64_MIN \<and> sint b = - 1 then int_binop n BMod a b = Err (IntegerOverflow BMod)
            else \<exists>w. int_binop n BMod a b = Ok (RInt w) \<and> sint w = sint a - sint b * quot_trunc (sint a) (sint b)))
    \<and> (if 0 \<le> sint b \<and> sint b < 2 ^ 32 then exact_or (sint a ^ nat (sint b)) (IntegerOverflow BPow) (int_binop n BPow a b)
       else int_binop n BPow a b = Ok (RFloat (powf n (f64_of_i64 a) (f64_of_i64 b))))
    \<and> exact_or (- sint a) NegOverflow (apply_unop n UNeg (RInt a))"
proof (intro conjI)
  show "if b = 0 then int_binop n BDiv a b = Err IntDivByZero \<and> int_binop n BMod a b = Err IntRemByZero
       else exact_or (quot_trunc (sint a) (sint b)) (IntegerOverflow BDiv) (int_binop n BDiv a b)
         \<and> (if sint a = I64_MIN \<and> sint b = - 1 then int_binop n BMod a b = Err (IntegerOverflow BMod)
            else \<exists>w. int_binop n BMod a b = Ok (RInt w) \<and> sint w = sint a - sint b * quot_trunc (sint a) (sint b))"
  proof (cases "b = 0")
    case False
    let ?r = "sint a - sint b * quot_trunc (sint a) (sint b)"
    have "int_binop n BMod a b = Err (IntegerOverflow BMod)" if "sint a = I64_MIN" "sint b = - 1"
      using False that by (simp add: int_binop_def int_or_def checked_def quot_trunc_def I64_MIN_def I64_MAX_def)
    moreover have "\<exists>w. int_binop n BMod a b = Ok (RInt w) \<and> sint w = ?r" if "\<not> (sint a = I64_MIN \<and> sint b = - 1)"
    proof -
      obtain w where w: "checked ?r = Some w" using rem_in_range [OF False, of a] by (simp add: checked_def)
      moreover have "checked (quot_trunc (sint a) (sint b)) \<noteq> None" using quot_in_range [OF False that] by (simp add: checked_def)
      ultimately show ?thesis using False checked_sint [OF w] by (auto simp: int_binop_def int_or_def)
    qed
    ultimately show ?thesis using False by (auto simp: int_binop_def)
  qed (simp add: int_binop_def)
qed (auto simp: int_binop_def int_pow_def apply_unop_def)

text \<open>
  C23: Division and remainder fit together: unless the divisor is zero or the quotient overflows
  (\<open>i64::MIN / -1\<close>), both return, the quotient times the divisor plus the remainder is the dividend,
  the remainder is smaller than the divisor and has the sign of the dividend.
\<close>
theorem int_division_law:
  assumes "b \<noteq> 0" and "\<not> (sint a = I64_MIN \<and> sint b = - 1)"
  shows "\<exists>q r. int_binop n BDiv a b = Ok (RInt q) \<and> int_binop n BMod a b = Ok (RInt r)
    \<and> sint q * sint b + sint r = sint a \<and> \<bar>sint r\<bar> < \<bar>sint b\<bar> \<and> (sint r = 0 \<or> sgn (sint r) = sgn (sint a))"
proof -
  let ?q = "quot_trunc (sint a) (sint b)" and ?r = "sint a - sint b * quot_trunc (sint a) (sint b)"
  have b: "sint b \<noteq> 0" using assms(1) by (metis signed_0 signed_word_eqI)
  note qr = quot_rem [OF b, of "sint a"]
  from quot_in_range [OF assms] rem_in_range [OF assms(1), of a]
  obtain w v where wv: "checked ?q = Some w" "checked ?r = Some v" by (simp add: checked_def)
  then have "int_binop n BDiv a b = Ok (RInt w)" "int_binop n BMod a b = Ok (RInt v)"
    using assms(1) by (simp_all add: int_binop_def int_or_def)
  moreover have v: "sint v = ?r" and w: "sint w = ?q" using wv by (auto dest: checked_sint)
  moreover have "\<bar>sint v\<bar> < \<bar>sint b\<bar>" "sint v = 0 \<or> sgn (sint v) = sgn (sint a)" using qr(1, 2) by (simp_all only: v)
  moreover have "sint w * sint b + sint v = sint a" by (simp add: v w)
  ultimately show ?thesis by blast
qed

theorem int_division_law_witness:
  "\<exists>q r. int_binop no_decimals BDiv (word_of_int (- 7)) 2 = Ok (RInt q) \<and> int_binop no_decimals BMod (word_of_int (- 7)) 2 = Ok (RInt r)
    \<and> sint q * 2 + sint r = - 7 \<and> sint r < 0"
proof -
  have "sint (word_of_int (- 7) :: 64 word) = - 7" using sint_word_in_range [of "- 7"] by simp
  with int_division_law [of 2 "word_of_int (- 7)" no_decimals] show ?thesis
    by (auto simp: I64_MIN_def sgn_if split: if_splits) presburger+
qed

lemma shift_words:
  "push_bit k a = word_of_int (sint a * 2 ^ k)"
  "signed_drop_bit k a = word_of_int (sint a div 2 ^ k)" for a :: "64 word"
proof -
  show "push_bit k a = word_of_int (sint a * 2 ^ k)" by (simp add: push_bit_eq_mult)
  have "signed_drop_bit k a = word_of_int (sint (signed_drop_bit k a))" by simp
  then show "signed_drop_bit k a = word_of_int (sint a div 2 ^ k)"
    by (simp only: sint_signed_drop_bit_eq drop_bit_eq_div)
qed

lemma int_shift_cases:
  "0 \<le> sint b \<Longrightarrow> sint b < 64 \<Longrightarrow> int_shift a b left
    = Ok (word_of_int (if left then sint a * 2 ^ nat (sint b) else sint a div 2 ^ nat (sint b)))"
  "\<not> (0 \<le> sint b \<and> sint b < 64) \<Longrightarrow> int_shift a b left = Err (ShiftOutOfRange b)"
  by (simp_all only: int_shift_def shift_words simp_thms if_True if_False if_distrib [of word_of_int])

lemma word_arith: "a + b = word_of_int (sint a + sint b)" "a - b = word_of_int (sint a - sint b)"
  "a * b = word_of_int (sint a * sint b)" for a b :: "64 word"
  by simp_all

text \<open>
  C32: The wrapping operators are arithmetic modulo \<open>2 ^ 64\<close>, a left shift multiplies by the power of
  two modulo \<open>2 ^ 64\<close>, a right shift is the floor of the quotient by it, and an amount outside
  \<open>0..64\<close> raises.
\<close>
theorem wrapping_and_shifts:
  "int_binop n BWrapAdd a b = Ok (RInt (word_of_int (sint a + sint b)))
    \<and> int_binop n BWrapSub a b = Ok (RInt (word_of_int (sint a - sint b)))
    \<and> int_binop n BWrapMul a b = Ok (RInt (word_of_int (sint a * sint b)))
    \<and> (if 0 \<le> sint b \<and> sint b < 64
       then int_binop n BShl a b = Ok (RInt (word_of_int (sint a * 2 ^ nat (sint b))))
         \<and> int_binop n BShr a b = Ok (RInt (word_of_int (sint a div 2 ^ nat (sint b))))
       else int_binop n BShl a b = Err (ShiftOutOfRange b) \<and> int_binop n BShr a b = Err (ShiftOutOfRange b))"
proof (cases "0 \<le> sint b \<and> sint b < 64")
  case True
  then show ?thesis
    unfolding int_binop_def bin_op.case word_arith [of a b]
    by (simp only: int_shift_cases(1) if_True if_False res_bind.simps simp_thms)
next
  case False
  then show ?thesis
    unfolding int_binop_def bin_op.case word_arith [of a b]
    by (simp only: int_shift_cases(2) [OF False] if_False res_bind.simps simp_thms)
qed

section \<open>Types of results\<close>

definition is_bool :: "'d rval \<Rightarrow> bool" where
  "is_bool v = (case v of RBool _ \<Rightarrow> True | _ \<Rightarrow> False)"

definition is_cmp :: "bin_op \<Rightarrow> bool" where
  "is_cmp op = (op \<in> {BLt, BLe, BGt, BGe, BEq, BNe})"

definition well_typed :: "bin_op \<Rightarrow> ('d rval, 'd arith_error) result \<Rightarrow> bool" where
  "well_typed op r \<longleftrightarrow> r \<noteq> Panic \<and> (\<forall>v. r = Ok v \<longrightarrow> num_ok v \<and> (is_cmp op \<longleftrightarrow> is_bool v))"

lemma well_typed_simps [simp]:
  "well_typed op (Ok (RInt i)) = (\<not> is_cmp op)" "well_typed op (Ok (RBool b)) = is_cmp op"
  "well_typed op (Ok (RFloat f)) = (f64_ok f \<and> \<not> is_cmp op)" "well_typed op (Ok (RDecimal d)) = (\<not> is_cmp op)"
  "well_typed op (Ok (RStr t)) = (\<not> is_cmp op)" "well_typed op (Err e)" "\<not> well_typed op Panic"
  by (auto simp: well_typed_def is_bool_def)

lemma int_or_typed [simp]: "well_typed op (int_or e r) \<longleftrightarrow> r = None \<or> \<not> is_cmp op"
  by (cases r) (auto simp: int_or_def)

lemma int_binop_typed:
  assumes "\<forall>x y. f64_ok (powf n x y)" and "op \<notin> {BEq, BNe, BRange, BInstanceOf, BAnd, BOr, BCoalesce}"
  shows "well_typed op (int_binop n op a b)"
  using assms by (cases op) (auto simp: int_binop_def int_pow_def int_shift_def is_cmp_def)

lemma float_binop_typed:
  assumes "\<forall>x y. f64_ok (powf n x y)" "op \<notin> {BEq, BNe, BRange, BInstanceOf, BAnd, BOr, BCoalesce}"
    and "\<not> is_int_only_binop op" "f64_ok a" "f64_ok b"
  shows "well_typed op (float_binop n op a b)"
  using assms by (cases op) (auto simp: float_binop_def is_cmp_def is_int_only_binop_def f64_closed)

lemma mixed_binop_typed:
  assumes "\<forall>x y. f64_ok (powf n x y)" "op \<notin> {BEq, BNe, BRange, BInstanceOf, BAnd, BOr, BCoalesce}"
    and "\<not> is_int_only_binop op" "f64_ok f"
  shows "well_typed op (mixed_binop n op i f first)"
proof -
  have i: "f64_ok (f64_of_i64 i)" by (simp add: f64_of_i64_def)
  note ft = float_binop_typed [OF assms(1-3)]
  show ?thesis
  proof (cases "op \<in> {BLt, BLe, BGt, BGe}")
    case True
    then show ?thesis by (auto simp: mixed_binop_def is_cmp_def)
  next
    case False
    then have "mixed_binop n op i f first
        = (if first then float_binop n op f (f64_of_i64 i) else float_binop n op (f64_of_i64 i) f)"
      by (cases op) (simp_all add: mixed_binop_def)
    then show ?thesis using ft [OF assms(4) i] ft [OF i assms(4)] by simp
  qed
qed

lemma decimal_binop_typed:
  assumes "op \<notin> {BEq, BNe, BRange, BInstanceOf, BAnd, BOr, BCoalesce}"
  shows "well_typed op (decimal_binop n op a b)"
  using assms by (cases op) (auto simp: decimal_binop_def dec_or_def is_cmp_def is_int_only_binop_def split: option.splits)

lemma number_binop_typed:
  assumes "\<forall>x y. f64_ok (powf n x y)" "op \<notin> {BEq, BNe, BRange, BInstanceOf, BAnd, BOr, BCoalesce}"
    and "num_ok l" "num_ok r"
  shows "well_typed op (number_binop n op l r)"
  using assms int_binop_typed [OF assms(1, 2)] float_binop_typed [OF assms(1, 2)] mixed_binop_typed [OF assms(1, 2)]
  by (cases l; cases r) (auto simp: number_binop_def is_float_def)

lemma arith_binop_typed:
  assumes "\<forall>x y. f64_ok (powf n x y)" "op \<notin> {BEq, BNe, BRange, BInstanceOf, BAnd, BOr, BCoalesce}"
    and "num_ok l" "num_ok r"
  shows "well_typed op (arith_binop n op l r)"
proof (cases "op = BAdd \<and> (\<exists>a b. l = RStr a \<and> r = RStr b)")
  case True
  then show ?thesis by (auto simp: arith_binop_def is_cmp_def)
next
  case False
  then have "arith_binop n op l r = (if is_decimal l \<or> is_decimal r then
      res_bind (coerce_to_decimal n l) (\<lambda>da. res_bind (coerce_to_decimal n r) (\<lambda>db.
        case (da, db) of (Some a, Some b) \<Rightarrow> decimal_binop n op a b | _ \<Rightarrow> number_binop n op l r))
      else number_binop n op l r)"
    by (auto simp: arith_binop_def split: bin_op.splits rval.splits)
  moreover have "coerce_to_decimal n v \<noteq> Panic" for v by (cases v) (auto split: option.splits)
  ultimately show ?thesis
    using number_binop_typed [OF assms] decimal_binop_typed [OF assms(2)]
    by (cases "coerce_to_decimal n l"; cases "coerce_to_decimal n r") (auto split: option.splits)
qed

lemma range_outcome_iff: "range_outcome z = Panic \<longleftrightarrow> z = Panic" "range_outcome z \<noteq> Ok (Value v)"
  by (cases z; simp add: range_outcome_def)+

text \<open>
  C20: Every binary operator but \<open>instanceof\<close> and the short-circuit ones, on any operands, returns a value or
  raises an error: no arm that the code marks unreachable is reached, and only the construction of a range
  can fail to end.  A comparison returns a boolean and the others do not, a range returns an array and the
  others do not, and a float result is a number of the format.  (\<open>powf\<close> is assumed to return such a number.)
\<close>
theorem binop_well_typed:
  assumes "\<forall>x y. f64_ok (powf n x y)" and "op \<notin> {BInstanceOf, BAnd, BOr, BCoalesce}" and "num_ok l" "num_ok r"
  shows "case apply_binop n op l r of
      None \<Rightarrow> op = BRange
    | Some (Ok (Value v)) \<Rightarrow> op \<noteq> BRange \<and> num_ok v \<and> (is_cmp op \<longleftrightarrow> is_bool v)
    | Some (Ok (NewArray vs)) \<Rightarrow> op = BRange
    | Some (Err e) \<Rightarrow> True
    | Some Panic \<Rightarrow> False"
proof (cases "op \<in> {BEq, BNe, BRange}")
  case True
  have "decimal_cross_eq n l r \<noteq> Panic"
    by (auto simp: decimal_cross_eq_def Let_def split: rval.splits option.splits if_splits)
  moreover have "resolve_step lo hi st \<noteq> Panic" for lo hi st by (auto simp: resolve_step_def split: option.splits)
  then have "materialize_range l r False \<noteq> Some Panic"
    by (auto simp: materialize_range_def materialize_range_stepped_def split: option.splits result.splits)
  ultimately show ?thesis
    using True by (cases "decimal_cross_eq n l r"; cases "materialize_range l r False")
      (auto simp: apply_binop_def is_cmp_def is_bool_def range_outcome_def split: result.splits)
next
  case False
  with assms(2) have op: "op \<notin> {BEq, BNe, BRange, BInstanceOf, BAnd, BOr, BCoalesce}" by blast
  then have "apply_binop n op l r = Some (one (arith_binop n op l r))" by (cases op) (simp_all add: apply_binop_def)
  with arith_binop_typed [OF assms(1) op assms(3, 4)] op show ?thesis
    by (cases "arith_binop n op l r") (auto simp: one_def well_typed_def)
qed

theorem binop_well_typed_witness:
  "case apply_binop (no_decimals\<lparr>powf := \<lambda>_ _. NaN\<rparr>) BLt (RInt 1) (RFloat NaN) of
      Some (Ok (Value v)) \<Rightarrow> is_bool v | _ \<Rightarrow> False"
  using binop_well_typed [of "no_decimals\<lparr>powf := \<lambda>_ _. NaN\<rparr>" BLt "RInt 1" "RFloat NaN"]
  by (simp add: is_cmp_def apply_binop_def arith_binop_def number_binop_def mixed_binop_def is_int_only_binop_def is_decimal_def one_def)

section \<open>Keys of maps and the equality operator\<close>

text \<open>
  C25: Two values of which the first can be a key of a map are the same key exactly when they are equal as
  values (an integer and an equal float included) or both are NaN.  Equality of values is what the operator
  \<open>==\<close> answers, except between a decimal and an integer or float: there \<open>==\<close> compares the numbers, and the two
  are never the same key.
\<close>
theorem map_key_iff_equal:
  assumes "\<forall>a b. dec_eq n a b \<longleftrightarrow> a = b" and "num_ok v" "num_ok w" and "from_value v \<noteq> None"
  shows "(from_value v = from_value w \<longleftrightarrow> rval_eq n v w \<or> (\<exists>f g. v = RFloat f \<and> w = RFloat g \<and> is_nan f \<and> is_nan g))
    \<and> (if is_decimal v \<noteq> is_decimal w then from_value v \<noteq> from_value w
       else apply_binop n BEq v w = Some (Ok (Value (RBool (rval_eq n v w)))))"
proof
  show "from_value v = from_value w \<longleftrightarrow> rval_eq n v w \<or> (\<exists>f g. v = RFloat f \<and> w = RFloat g \<and> is_nan f \<and> is_nan g)"
    by (rule map_key_iff [OF assms])
  show "if is_decimal v \<noteq> is_decimal w then from_value v \<noteq> from_value w
       else apply_binop n BEq v w = Some (Ok (Value (RBool (rval_eq n v w))))"
    by (cases v; cases w) (auto simp: is_decimal_def apply_binop_def decimal_cross_eq_def)
qed

theorem map_key_iff_equal_witness:
  "from_value (RInt 1 :: unit rval) = from_value (RFloat (f_int 1)) \<and> from_value (RInt 1) \<noteq> from_value (RDecimal ())
    \<and> apply_binop no_decimals BEq (RInt 1) (RDecimal ()) = Some (Ok (Value (RBool True)))"
proof -
  have ok: "f64_ok (f_int 1)" using representable_int [of 1] by (simp add: f_int_def)
  then have "rval_eq no_decimals (RInt 1) (RFloat (f_int 1))"
    using int_eq_float_exact [of False 1 1] by (simp add: f_int_def)
  with map_key_iff_equal [of no_decimals "RInt 1" "RFloat (f_int 1)"] ok
  have "from_value (RInt 1 :: unit rval) = from_value (RFloat (f_int 1))" by (simp add: no_decimals_def)
  moreover have "from_value (RInt 1 :: unit rval) \<noteq> from_value (RDecimal ())"
    using map_key_iff_equal [of no_decimals "RInt 1" "RDecimal ()"] by (simp add: no_decimals_def is_decimal_def)
  moreover have "apply_binop no_decimals BEq (RInt 1) (RDecimal ()) = Some (Ok (Value (RBool True)))"
    by (simp add: apply_binop_def decimal_cross_eq_def no_decimals_def)
  ultimately show ?thesis by blast
qed

section \<open>The two engines agree on integer ranges\<close>










end
