(* ===== verification/Environment.thy ===== *)
theory Environment
  imports IndexMap
begin

text \<open>
  Lexical scopes (\<open>Environment\<close> in \<open>src/src/env.rs\<close>).  A handle is the index of a scope in a store,
  so that handles share scopes as the reference-counted cells of the code do; a scope links to its
  parent, which exists before it.  Defer lists are shared cells of their own.

  \<open>owner\<close> is the nearest scope that binds a name; reading, assigning and shadowing are characterised
  by it.
\<close>

section \<open>Scopes\<close>

record 'v binding =
  b_value :: 'v
  b_mutable :: bool

record 'v scope =
  sc_vars :: "(rstring \<times> 'v binding) list"
  sc_parent :: "nat option"
  sc_defers :: "nat option"

record ('v, 'd) env_store =
  es_scopes :: "'v scope list"
  es_defer_lists :: "'d list list"

datatype assign_error = Undefined | Immutable

datatype define_error = AlreadyDefined rstring

definition env_global :: "('v, 'd) env_store \<Rightarrow> nat \<times> ('v, 'd) env_store" where
  "env_global st = (length (es_scopes st),
     st\<lparr>es_scopes := es_scopes st @ [\<lparr>sc_vars = [], sc_parent = None, sc_defers = None\<rparr>]\<rparr>)"

definition env_child :: "('v, 'd) env_store \<Rightarrow> nat \<Rightarrow> nat \<times> ('v, 'd) env_store" where
  "env_child st e = (length (es_scopes st),
     st\<lparr>es_scopes := es_scopes st @ [\<lparr>sc_vars = [], sc_parent = Some e, sc_defers = None\<rparr>]\<rparr>)"

definition install_defer_scope :: "('v, 'd) env_store \<Rightarrow> nat \<Rightarrow> (nat \<times> ('v, 'd) env_store) option" where
  "install_defer_scope st e = map_option (\<lambda>sc. (length (es_defer_lists st),
       st\<lparr>es_defer_lists := es_defer_lists st @ [[]],
          es_scopes := (es_scopes st)[e := sc\<lparr>sc_defers := Some (length (es_defer_lists st))\<rparr>]\<rparr>))
     (vec_get (es_scopes st) e)"

text \<open>The walks outward; a parent is older than its child.\<close>

function defer_scope :: "('v, 'd) env_store \<Rightarrow> nat \<Rightarrow> nat option" where
  "defer_scope st e = Option.bind (vec_get (es_scopes st) e) (\<lambda>sc.
     case sc_defers sc of
       Some l \<Rightarrow> Some l
     | None \<Rightarrow> (case sc_parent sc of Some p \<Rightarrow> if p < e then defer_scope st p else None | None \<Rightarrow> None))"
  by pat_completeness auto
termination
  by (relation "measure snd") auto

definition env_define ::
  "('v, 'd) env_store \<Rightarrow> nat \<Rightarrow> rstring \<Rightarrow> 'v \<Rightarrow> bool \<Rightarrow> (('v, 'd) env_store, define_error) result" where
  "env_define st e name v mutable = res_bind (or_panic (vec_get (es_scopes st) e)) (\<lambda>sc.
     if map_of (sc_vars sc) name \<noteq> None then Err (AlreadyDefined name)
     else Ok (st\<lparr>es_scopes := (es_scopes st)[e := sc\<lparr>sc_vars :=
       im_insert name \<lparr>b_value = v, b_mutable = mutable\<rparr> (sc_vars sc)\<rparr>]\<rparr>))"

function env_get :: "('v, 'd) env_store \<Rightarrow> nat \<Rightarrow> rstring \<Rightarrow> 'v option" where
  "env_get st e name = Option.bind (vec_get (es_scopes st) e) (\<lambda>sc.
     case map_of (sc_vars sc) name of
       Some b \<Rightarrow> Some (b_value b)
     | None \<Rightarrow> (case sc_parent sc of Some p \<Rightarrow> if p < e then env_get st p name else None | None \<Rightarrow> None))"
  by pat_completeness auto
termination
  by (relation "measure (fst \<circ> snd)") auto

function env_assign :: "('v, 'd) env_store \<Rightarrow> nat \<Rightarrow> rstring \<Rightarrow> 'v \<Rightarrow> (('v, 'd) env_store, assign_error) result" where
  "env_assign st e name v = res_bind (or_panic (vec_get (es_scopes st) e)) (\<lambda>sc.
     case map_of (sc_vars sc) name of
       Some b \<Rightarrow>
         if \<not> b_mutable b then Err Immutable
         else Ok (st\<lparr>es_scopes := (es_scopes st)[e := sc\<lparr>sc_vars := im_insert name (b\<lparr>b_value := v\<rparr>) (sc_vars sc)\<rparr>]\<rparr>)
     | None \<Rightarrow> (case sc_parent sc of Some p \<Rightarrow> if p < e then env_assign st p name v else Panic | None \<Rightarrow> Err Undefined))"
  by pat_completeness auto
termination
  by (relation "measure (fst \<circ> snd)") auto

declare defer_scope.simps [simp del] env_get.simps [simp del] env_assign.simps [simp del]

section \<open>The nearest binding\<close>

definition env_wf :: "('v, 'd) env_store \<Rightarrow> bool" where
  "env_wf st \<longleftrightarrow> (\<forall>i < length (es_scopes st). \<forall>p. sc_parent (es_scopes st ! i) = Some p \<longrightarrow> p < i)"

function owner :: "('v, 'd) env_store \<Rightarrow> nat \<Rightarrow> rstring \<Rightarrow> nat option" where
  "owner st e name = Option.bind (vec_get (es_scopes st) e) (\<lambda>sc.
     if map_of (sc_vars sc) name \<noteq> None then Some e
     else (case sc_parent sc of Some p \<Rightarrow> if p < e then owner st p name else None | None \<Rightarrow> None))"
  by pat_completeness auto
termination
  by (relation "measure (fst \<circ> snd)") auto

declare owner.simps [simp del]

definition bound :: "('v, 'd) env_store \<Rightarrow> nat \<Rightarrow> rstring \<Rightarrow> 'v binding option" where
  "bound st i name = Option.bind (vec_get (es_scopes st) i) (\<lambda>sc. map_of (sc_vars sc) name)"

lemma owner_bound: "owner st e name = Some i \<Longrightarrow> i \<le> e \<and> i < length (es_scopes st) \<and> bound st i name \<noteq> None"
proof (induction st e name rule: owner.induct)
  case (1 st e name)
  show ?case
    using "1.prems" "1.IH"
    by (subst (asm) owner.simps) (auto simp: bound_def vec_get_def split: if_splits option.splits, fastforce+)
qed

lemma env_get_owner: "env_get st e name = Option.bind (owner st e name) (\<lambda>i. map_option b_value (bound st i name))"
proof (induction st e name rule: owner.induct)
  case (1 st e name)
  show ?case
    using "1.IH" by (subst env_get.simps, subst owner.simps) (auto simp: bound_def vec_get_def split: option.splits)
qed

text \<open>The store with one binding of one scope replaced.\<close>

definition set_var :: "('v, 'd) env_store \<Rightarrow> nat \<Rightarrow> rstring \<Rightarrow> 'v binding \<Rightarrow> ('v, 'd) env_store" where
  "set_var st i name b = st\<lparr>es_scopes := (es_scopes st)[i :=
     (es_scopes st ! i)\<lparr>sc_vars := im_insert name b (sc_vars (es_scopes st ! i))\<rparr>]\<rparr>"

lemma vec_get_out: "\<not> i < length xs \<Longrightarrow> vec_get xs i = None"
  by simp

lemma set_var_scope:
  assumes "i < length (es_scopes st)"
  shows "vec_get (es_scopes (set_var st i name b)) j = map_option (\<lambda>sc. if j = i
     then sc\<lparr>sc_vars := im_insert name b (sc_vars sc)\<rparr> else sc) (vec_get (es_scopes st) j)"
  using assms by (auto simp: set_var_def vec_get_def nth_list_update)

lemma bound_set_var:
  "i < length (es_scopes st) \<Longrightarrow>
    bound (set_var st i name b) j name' = (if j = i \<and> name' = name then Some b else bound st j name')"
  by (cases "j < length (es_scopes st)") (auto simp: bound_def set_var_scope vec_get_in vec_get_out)

lemma env_wf_set_var: "env_wf st \<Longrightarrow> i < length (es_scopes st) \<Longrightarrow> env_wf (set_var st i name b)"
  by (auto simp: env_wf_def set_var_def nth_list_update split: if_splits)

text \<open>Replacing a binding changes no owner; adding one can only make the scope it is in the owner.\<close>

lemma owner_set_var:
  assumes i: "i < length (es_scopes st)"
  shows "name' \<noteq> name \<Longrightarrow> owner (set_var st i name b) e name' = owner st e name'"
    and "owner (set_var st i name b) e name = owner st e name \<or> owner (set_var st i name b) e name = Some i"
    and "bound st i name \<noteq> None \<Longrightarrow> owner (set_var st i name b) e name = owner st e name"
proof -
  show "owner (set_var st i name b) e name' = owner st e name'" if "name' \<noteq> name"
  proof (induction e rule: less_induct)
    case (less e)
    then show ?case using that
      by (cases "e < length (es_scopes st)"; subst (1 2) owner.simps)
        (auto simp: set_var_scope [OF i] vec_get_in vec_get_out split: option.split)
  qed
  show "owner (set_var st i name b) e name = owner st e name \<or> owner (set_var st i name b) e name = Some i"
  proof (induction e rule: less_induct)
    case (less e)
    then show ?case
      by (cases "e < length (es_scopes st)"; subst (1 2 3) owner.simps)
        (auto simp: set_var_scope [OF i] vec_get_in vec_get_out split: option.split)
  qed
  show "owner (set_var st i name b) e name = owner st e name" if "bound st i name \<noteq> None"
  proof (induction e rule: less_induct)
    case (less e)
    then show ?case using that i
      by (cases "e < length (es_scopes st)"; subst (1 2) owner.simps)
        (auto simp: set_var_scope [OF i] vec_get_in vec_get_out bound_def split: option.split)
  qed
qed

lemma env_get_set_var:
  assumes i: "i < length (es_scopes st)"
  shows "env_get (set_var st i name b) e name' =
    (if name' = name \<and> owner (set_var st i name b) e name = Some i then Some (b_value b) else env_get st e name')"
proof (cases "name' = name")
  case True
  then show ?thesis
    using owner_set_var(2) [OF i, of name b e]
    by (cases "owner (set_var st i name b) e name = Some i") (auto simp: env_get_owner bound_set_var [OF i] split: bind_splits)
next
  case False
  then show ?thesis using owner_set_var(1) [OF i False] by (simp add: env_get_owner bound_set_var [OF i])
qed

lemma env_assign_owner:
  assumes "env_wf st" and "e < length (es_scopes st)"
  shows "env_assign st e name v = (case owner st e name of
      None \<Rightarrow> Err Undefined
    | Some i \<Rightarrow> (case bound st i name of
        Some b \<Rightarrow> if b_mutable b then Ok (set_var st i name (b\<lparr>b_value := v\<rparr>)) else Err Immutable
      | None \<Rightarrow> Panic))"
  using assms(2)
proof (induction e rule: less_induct)
  case (less e)
  have parent: "p < e" if "sc_parent (es_scopes st ! e) = Some p" for p
    using assms(1) less.prems that by (simp add: env_wf_def)
  show ?case
    using less parent
    by (subst env_assign.simps, subst owner.simps)
      (auto simp: vec_get_def bound_def set_var_def split: option.split)
qed

section \<open>Properties\<close>

text \<open>
  C28: assignment writes the nearest binding.  It fails on an unbound name and on an immutable binding;
  otherwise the new value is seen through exactly the handles whose nearest binding of the name is the
  one written, from whichever scope the assignment was made, and nothing else changes.
\<close>

theorem assign_nearest:
  assumes "env_wf st" and "e < length (es_scopes st)"
  shows "case owner st e name of
      None \<Rightarrow> env_get st e name = None \<and> env_assign st e name v = Err Undefined
    | Some i \<Rightarrow> (\<exists>b. bound st i name = Some b \<and> (if b_mutable b
        then \<exists>st'. env_assign st e name v = Ok st' \<and> env_wf st'
          \<and> (\<forall>e' name'. env_get st' e' name' = (if name' = name \<and> owner st e' name = Some i then Some v else env_get st e' name'))
        else env_assign st e name v = Err Immutable))"
proof (cases "owner st e name")
  case None
  then show ?thesis by (simp add: env_assign_owner [OF assms] env_get_owner)
next
  case (Some i)
  then obtain b where b: "bound st i name = Some b" and i: "i < length (es_scopes st)"
    using owner_bound by fastforce
  have "owner (set_var st i name c) e' name = owner st e' name" for c e'
    using owner_set_var(3) [OF i] b by simp
  then show ?thesis
    using Some b by (auto simp: env_assign_owner [OF assms] env_get_set_var [OF i] env_wf_set_var [OF assms(1) i])
qed

definition sample_env :: "(int, unit) env_store" where
  "sample_env = \<lparr>es_scopes = [
     \<lparr>sc_vars = [([120], \<lparr>b_value = 1, b_mutable = True\<rparr>)], sc_parent = None, sc_defers = None\<rparr>,
     \<lparr>sc_vars = [], sc_parent = Some 0, sc_defers = None\<rparr>], es_defer_lists = []\<rparr>"

theorem assign_nearest_witness:
  "\<exists>st'. env_assign sample_env 1 [120] 5 = Ok st' \<and> env_get st' 0 [120] = Some 5"
proof -
  have "env_wf sample_env" "(1 :: nat) < length (es_scopes sample_env)"
    by (auto simp: env_wf_def sample_env_def less_Suc_eq)
  moreover have "owner sample_env 1 [120] = Some 0" "owner sample_env 0 [120] = Some 0"
    by (subst owner.simps, simp add: sample_env_def vec_get_def, subst owner.simps, simp add: vec_get_def)
      (subst owner.simps, simp add: sample_env_def vec_get_def)
  moreover have "bound sample_env 0 [120] = Some \<lparr>b_value = 1, b_mutable = True\<rparr>"
    by (simp add: bound_def sample_env_def vec_get_def)
  ultimately show ?thesis using assign_nearest [of sample_env 1 "[120]" 5] by auto
qed

text \<open>
  C39: Definition shadows.  Defining a name fails exactly when its own scope already binds it; otherwise the
  scope sees the new value, the other names and every handle that does not reach the scope first are
  unaffected, and so are all scopes older than it.
\<close>

theorem define_shadows:
  assumes "env_wf st" and e: "e < length (es_scopes st)"
  shows "if bound st e name \<noteq> None then env_define st e name v mutable = Err (AlreadyDefined name)
    else \<exists>st'. env_define st e name v mutable = Ok st' \<and> env_wf st' \<and> env_get st' e name = Some v
      \<and> (\<forall>e' name'. env_get st' e' name' = (if name' = name \<and> owner st' e' name = Some e then Some v else env_get st e' name'))
      \<and> (\<forall>e' name'. e' < e \<longrightarrow> env_get st' e' name' = env_get st e' name')"
proof (cases "bound st e name = None")
  case True
  let ?st = "set_var st e name \<lparr>b_value = v, b_mutable = mutable\<rparr>"
  have run: "env_define st e name v mutable = Ok ?st"
    using True e by (simp add: env_define_def set_var_def bound_def vec_get_def)
  have "owner ?st e name = Some e"
    using e by (subst owner.simps) (simp add: set_var_scope [OF e] vec_get_in)
  moreover have "owner ?st e' name \<noteq> Some e" if "e' < e" for e'
    using owner_bound [of ?st e' name e] that by fastforce
  ultimately show ?thesis
    using True run by (auto simp: env_get_set_var [OF e] env_wf_set_var [OF assms(1) e])
next
  case False
  then show ?thesis using e by (simp add: env_define_def bound_def vec_get_def)
qed

theorem define_shadows_witness:
  "env_define sample_env 0 [120] 7 True = Err (AlreadyDefined [120])"
proof -
  have "env_wf sample_env" "(0 :: nat) < length (es_scopes sample_env)"
    by (auto simp: env_wf_def sample_env_def less_Suc_eq)
  moreover have "bound sample_env 0 [120] \<noteq> None" by (simp add: bound_def sample_env_def vec_get_def)
  ultimately show ?thesis using define_shadows [of sample_env 0 "[120]" 7 True] by simp
qed

end
