(* ===== verification/Globals.thy ===== *)
theory Globals
  imports Environment
begin

text \<open>
  Module-scope globals: the adaptive cache of a global site (\<open>GlobalCache\<close> in \<open>src/src/vm/adapt.rs\<close>),
  the table of user globals and the arms \<open>GET_GLOBAL\<close>, \<open>DEFINE_GLOBAL\<close>, \<open>SET_GLOBAL\<close> of the run loop
  with the helpers they call, and the class environment that is kept in step with the table
  (\<open>src/src/vm/run.rs\<close>).

  The specification is a machine with the table alone.  The lemmas show that the cached machine gives
  its results; a builtin is cached with the version of the table, which is a saturating counter, so
  the number of definitions is bounded.
\<close>

section \<open>The cache of a site\<close>

datatype 'v global_cache = GCold | GCached 'v u64 | GIndexBound nat u64

fun gc_get :: "'v global_cache \<Rightarrow> u64 \<Rightarrow> 'v option" where
  "gc_get (GCached v ver) version = (if ver = version then Some v else None)"
| "gc_get _ version = None"

fun gc_get_index :: "'v global_cache \<Rightarrow> u64 \<Rightarrow> nat option" where
  "gc_get_index (GIndexBound idx g) struct_gen = (if g = struct_gen then Some idx else None)"
| "gc_get_index _ struct_gen = None"

type_synonym 'v global_caches = "nat \<Rightarrow> 'v global_cache option"

definition gc_at :: "'v global_caches \<Rightarrow> nat \<Rightarrow> 'v global_cache" where
  "gc_at caches off = (case caches off of Some c \<Rightarrow> c | None \<Rightarrow> GCold)"

section \<open>The table\<close>

record 'v global_slot =
  gs_value :: 'v
  gs_mutable :: bool

record 'v globals =
  gl_user :: "(rstring \<times> 'v global_slot) list"
  gl_version :: u64
  gl_struct_gen :: u64
  gl_envs :: "('v, unit) env_store"
  gl_class_env :: "nat option"

datatype global_error = UndefinedVariable rstring | AlreadyDefinedHere rstring | ImmutableBinding rstring | AssignUndefined rstring

definition sat_inc :: "u64 \<Rightarrow> u64" where
  "sat_inc x = (if x = - 1 then x else x + 1)"

text \<open>The class environment follows the table; errors of these calls are discarded by the code.\<close>

definition sync_assign :: "'v globals \<Rightarrow> rstring \<Rightarrow> 'v \<Rightarrow> 'v globals option" where
  "sync_assign gl name v =
     (case gl_class_env gl of
        None \<Rightarrow> Some gl
      | Some e \<Rightarrow> (case env_assign (gl_envs gl) e name v of
          Ok st \<Rightarrow> Some (gl\<lparr>gl_envs := st\<rparr>) | Err _ \<Rightarrow> Some gl | Panic \<Rightarrow> None))"

definition define_or_assign :: "'v globals \<Rightarrow> rstring \<Rightarrow> 'v \<Rightarrow> bool \<Rightarrow> 'v globals option" where
  "define_or_assign gl name v mutable =
     (case gl_class_env gl of
        None \<Rightarrow> Some gl
      | Some e \<Rightarrow> (case env_define (gl_envs gl) e name v mutable of
          Ok st \<Rightarrow> Some (gl\<lparr>gl_envs := st\<rparr>) | Err _ \<Rightarrow> sync_assign gl name v | Panic \<Rightarrow> None))"

fun define_each :: "('v, unit) env_store \<Rightarrow> nat \<Rightarrow> (rstring \<times> 'v) list \<Rightarrow> bool \<Rightarrow> ('v, unit) env_store option" where
  "define_each st e [] mutable = Some st"
| "define_each st e ((k, v) # rest) mutable =
     (case env_define st e k v mutable of
        Ok st' \<Rightarrow> define_each st' e rest mutable | Err _ \<Rightarrow> define_each st e rest mutable | Panic \<Rightarrow> None)"

definition class_env :: "(rstring \<times> 'v) list \<Rightarrow> 'v globals \<Rightarrow> (nat \<times> 'v globals) option" where
  "class_env builtins gl =
     (case gl_class_env gl of
        Some e \<Rightarrow> Some (e, gl)
      | None \<Rightarrow>
         (case env_global (gl_envs gl) of (root, st0) \<Rightarrow>
          Option.bind (define_each st0 root builtins False) (\<lambda>st1.
          case env_child st1 root of (e, st2) \<Rightarrow>
          Option.bind (define_each st2 e (map (\<lambda>(k, s). (k, gs_value s)) (gl_user gl)) True) (\<lambda>st3.
          Some (e, gl\<lparr>gl_envs := st3, gl_class_env := Some e\<rparr>)))))"

definition user_global_full :: "'v globals \<Rightarrow> rstring \<Rightarrow> (nat \<times> 'v) option" where
  "user_global_full gl name =
     (case im_index_of name (gl_user gl) of Some i \<Rightarrow> Some (i, gs_value (snd (gl_user gl ! i))) | None \<Rightarrow> None)"

definition set_user_global_at :: "'v globals \<Rightarrow> nat \<Rightarrow> 'v \<Rightarrow> (bool option \<times> 'v globals) option" where
  "set_user_global_at gl idx v =
     (case vec_get (gl_user gl) idx of
        None \<Rightarrow> Some (None, gl)
      | Some (name, slot) \<Rightarrow>
         if gs_mutable slot then
           map_option (Pair (Some True)) (sync_assign (gl\<lparr>gl_user := (gl_user gl)[idx := (name, slot\<lparr>gs_value := v\<rparr>)]\<rparr>) name v)
         else Some (Some False, gl))"

definition update_user_global :: "'v globals \<Rightarrow> rstring \<Rightarrow> 'v \<Rightarrow> 'v globals option" where
  "update_user_global gl name v =
     sync_assign (case map_of (gl_user gl) name of
         Some slot \<Rightarrow> gl\<lparr>gl_user := im_insert name (slot\<lparr>gs_value := v\<rparr>) (gl_user gl)\<rparr> | None \<Rightarrow> gl) name v"

definition define_user_global :: "'v globals \<Rightarrow> rstring \<Rightarrow> 'v \<Rightarrow> bool \<Rightarrow> 'v globals option" where
  "define_user_global gl name v mutable =
     define_or_assign (gl\<lparr>gl_user := im_insert name \<lparr>gs_value = v, gs_mutable = mutable\<rparr> (gl_user gl),
       gl_version := sat_inc (gl_version gl), gl_struct_gen := sat_inc (gl_struct_gen gl)\<rparr>) name v True"

section \<open>The arms\<close>

definition get_global ::
  "(rstring \<times> 'v) list \<Rightarrow> bool \<Rightarrow> 'v globals \<Rightarrow> 'v global_caches \<Rightarrow> nat \<Rightarrow> rstring
   \<Rightarrow> ('v \<times> 'v global_caches, global_error) result" where
  "get_global builtins specialize gl caches off name =
     (let cache = gc_at caches off in
      case (if specialize then gc_get_index cache (gl_struct_gen gl) else None) of
        Some idx \<Rightarrow> res_bind (or_panic (vec_get (gl_user gl) idx)) (\<lambda>(_, s). Ok (gs_value s, caches))
      | None \<Rightarrow>
         (case (if specialize then gc_get cache (gl_version gl) else None) of
            Some v \<Rightarrow> Ok (v, caches)
          | None \<Rightarrow>
             (case user_global_full gl name of
                Some (idx, v) \<Rightarrow> Ok (v, if specialize then caches(off \<mapsto> GIndexBound idx (gl_struct_gen gl)) else caches)
              | None \<Rightarrow>
                 (case map_of builtins name of
                    Some v \<Rightarrow> Ok (v, if specialize then caches(off \<mapsto> GCached v (gl_version gl)) else caches)
                  | None \<Rightarrow> Err (UndefinedVariable name)))))"

definition define_global :: "'v globals \<Rightarrow> rstring \<Rightarrow> 'v \<Rightarrow> bool \<Rightarrow> ('v globals, global_error) result" where
  "define_global gl name v mutable =
     (if map_of (gl_user gl) name \<noteq> None then Err (AlreadyDefinedHere name)
      else or_panic (define_user_global gl name v mutable))"

definition set_global_by_name ::
  "bool \<Rightarrow> 'v globals \<Rightarrow> 'v global_caches \<Rightarrow> nat \<Rightarrow> rstring \<Rightarrow> 'v
   \<Rightarrow> ('v globals \<times> 'v global_caches, global_error) result" where
  "set_global_by_name specialize gl caches off name v =
     (case map_option gs_mutable (map_of (gl_user gl) name) of
        Some True \<Rightarrow> res_bind (or_panic (update_user_global gl name v)) (\<lambda>gl'.
          Ok (gl', case (if specialize then user_global_full gl' name else None) of
              Some (idx, _) \<Rightarrow> caches(off \<mapsto> GIndexBound idx (gl_struct_gen gl')) | None \<Rightarrow> caches))
      | Some False \<Rightarrow> Err (ImmutableBinding name)
      | None \<Rightarrow> Err (AssignUndefined name))"

definition set_global ::
  "bool \<Rightarrow> 'v globals \<Rightarrow> 'v global_caches \<Rightarrow> nat \<Rightarrow> rstring \<Rightarrow> 'v
   \<Rightarrow> ('v globals \<times> 'v global_caches, global_error) result" where
  "set_global specialize gl caches off name v =
     (case (if specialize then gc_get_index (gc_at caches off) (gl_struct_gen gl) else None) of
        Some idx \<Rightarrow> res_bind (or_panic (set_user_global_at gl idx v)) (\<lambda>(done, gl').
          case done of
            Some True \<Rightarrow> Ok (gl', caches)
          | Some False \<Rightarrow> Err (ImmutableBinding name)
          | None \<Rightarrow> set_global_by_name specialize gl caches off name v)
      | None \<Rightarrow> set_global_by_name specialize gl caches off name v)"

text \<open>The registration of a class that \<open>CLASS\<close> makes in the class environment.\<close>

definition register_class :: "(rstring \<times> 'v) list \<Rightarrow> 'v globals \<Rightarrow> rstring \<Rightarrow> 'v \<Rightarrow> 'v globals option" where
  "register_class builtins gl name cls =
     Option.bind (class_env builtins gl) (\<lambda>(e, gl'). define_or_assign gl' name cls False)"

section \<open>Coherence\<close>

definition cache_ok :: "(rstring \<times> 'v) list \<Rightarrow> 'v globals \<Rightarrow> rstring \<Rightarrow> 'v global_cache \<Rightarrow> bool" where
  "cache_ok builtins gl name c = (case c of
      GCold \<Rightarrow> True
    | GIndexBound idx g \<Rightarrow> im_index_of name (gl_user gl) = Some idx
    | GCached v ver \<Rightarrow> ver \<le> gl_version gl
        \<and> (ver = gl_version gl \<longrightarrow> map_of (gl_user gl) name = None \<and> map_of builtins name = Some v))"

definition globals_ok :: "(rstring \<times> 'v) list \<Rightarrow> (nat \<Rightarrow> rstring) \<Rightarrow> 'v globals \<Rightarrow> 'v global_caches \<Rightarrow> bool" where
  "globals_ok builtins site gl caches \<longleftrightarrow> distinct (map fst (gl_user gl)) \<and> env_wf (gl_envs gl)
     \<and> (\<forall>e. gl_class_env gl = Some e \<longrightarrow> e < length (es_scopes (gl_envs gl)))
     \<and> (\<forall>off c. caches off = Some c \<longrightarrow> cache_ok builtins gl (site off) c)"

lemma im_index_of_keys: "im_index_of k m = find_index (\<lambda>k'. k' = k) (map fst m)"
  by (simp add: im_index_of_def find_index_map)

lemma im_index_insert_old:
  "im_index_of k m = Some i \<Longrightarrow> im_index_of k (im_insert k' v m) = Some i"
  by (simp add: im_index_of_keys im_keys_insert find_index_prefix)

lemma im_index_insert_same: "k \<in> fst ` set m \<Longrightarrow> im_index_of k' (im_insert k v m) = im_index_of k' m"
  by (simp add: im_index_of_keys im_keys_insert)

lemma sync_assign_ok:
  assumes "env_wf (gl_envs gl)" and "\<forall>e. gl_class_env gl = Some e \<longrightarrow> e < length (es_scopes (gl_envs gl))"
  shows "\<exists>st. sync_assign gl name v = Some (gl\<lparr>gl_envs := st\<rparr>) \<and> env_wf st \<and> length (es_scopes st) = length (es_scopes (gl_envs gl))"
proof (cases "gl_class_env gl")
  case None
  then show ?thesis using assms(1) by (intro exI [of _ "gl_envs gl"]) (simp add: sync_assign_def)
next
  case (Some e)
  then have e: "e < length (es_scopes (gl_envs gl))" using assms(2) by blast
  note run = env_assign_owner [OF assms(1) e, of name v]
  show ?thesis
  proof (cases "owner (gl_envs gl) e name")
    case None
    then show ?thesis using run Some assms(1) by (intro exI [of _ "gl_envs gl"]) (simp add: sync_assign_def)
  next
    case own: (Some i)
    then obtain b where b: "bound (gl_envs gl) i name = Some b" "i < length (es_scopes (gl_envs gl))"
      using owner_bound by fastforce
    show ?thesis
    proof (cases "b_mutable b")
      case True
      then show ?thesis
        using run Some own b env_wf_set_var [OF assms(1) b(2)]
        by (intro exI [of _ "set_var (gl_envs gl) i name (b\<lparr>b_value := v\<rparr>)"]) (simp add: sync_assign_def set_var_def)
    next
      case False
      then show ?thesis using run Some own b assms(1) by (intro exI [of _ "gl_envs gl"]) (simp add: sync_assign_def)
    qed
  qed
qed

lemma define_or_assign_ok:
  assumes "env_wf (gl_envs gl)" and "\<forall>e. gl_class_env gl = Some e \<longrightarrow> e < length (es_scopes (gl_envs gl))"
  shows "\<exists>st. define_or_assign gl name v mutable = Some (gl\<lparr>gl_envs := st\<rparr>) \<and> env_wf st
    \<and> length (es_scopes st) = length (es_scopes (gl_envs gl))"
proof (cases "gl_class_env gl")
  case None
  then show ?thesis using assms(1) by (intro exI [of _ "gl_envs gl"]) (simp add: define_or_assign_def)
next
  case (Some e)
  then have e: "e < length (es_scopes (gl_envs gl))" using assms(2) by blast
  show ?thesis
  proof (cases "bound (gl_envs gl) e name")
    case None
    then have "env_define (gl_envs gl) e name v mutable = Ok (set_var (gl_envs gl) e name \<lparr>b_value = v, b_mutable = mutable\<rparr>)"
      using e by (simp add: env_define_def set_var_def bound_def vec_get_in)
    then show ?thesis
      using Some env_wf_set_var [OF assms(1) e]
      by (intro exI [of _ "set_var (gl_envs gl) e name \<lparr>b_value = v, b_mutable = mutable\<rparr>"]) (simp add: define_or_assign_def set_var_def)
  next
    case (Some b)
    then have "env_define (gl_envs gl) e name v mutable = Err (AlreadyDefined name)"
      using e by (simp add: env_define_def bound_def vec_get_in)
    then show ?thesis using \<open>gl_class_env gl = Some e\<close> sync_assign_ok [OF assms] by (simp add: define_or_assign_def)
  qed
qed


section \<open>The arms against the table\<close>

definition table_get :: "(rstring \<times> 'v) list \<Rightarrow> (rstring \<times> 'v global_slot) list \<Rightarrow> rstring \<Rightarrow> ('v, global_error) result" where
  "table_get builtins t name =
     (case map_of t name of
        Some s \<Rightarrow> Ok (gs_value s)
      | None \<Rightarrow> (case map_of builtins name of Some v \<Rightarrow> Ok v | None \<Rightarrow> Err (UndefinedVariable name)))"

definition table_define ::
  "(rstring \<times> 'v global_slot) list \<Rightarrow> rstring \<Rightarrow> 'v \<Rightarrow> bool \<Rightarrow> ((rstring \<times> 'v global_slot) list, global_error) result" where
  "table_define t name v mutable =
     (if map_of t name \<noteq> None then Err (AlreadyDefinedHere name)
      else Ok (t @ [(name, \<lparr>gs_value = v, gs_mutable = mutable\<rparr>)]))"

definition table_set ::
  "(rstring \<times> 'v global_slot) list \<Rightarrow> rstring \<Rightarrow> 'v \<Rightarrow> ((rstring \<times> 'v global_slot) list, global_error) result" where
  "table_set t name v =
     (case map_of t name of
        Some s \<Rightarrow> if gs_mutable s then Ok (im_insert name (s\<lparr>gs_value := v\<rparr>) t) else Err (ImmutableBinding name)
      | None \<Rightarrow> Err (AssignUndefined name))"

lemma user_global_full_table:
  "user_global_full gl name = (case map_of (gl_user gl) name of
     Some s \<Rightarrow> Some (the (im_index_of name (gl_user gl)), gs_value s) | None \<Rightarrow> None)"
proof (cases "im_index_of name (gl_user gl)")
  case None
  then have "map_of (gl_user gl) name = None" by (simp add: im_index_of_None map_of_eq_None_iff)
  with None show ?thesis by (simp add: user_global_full_def)
next
  case (Some i)
  with im_index_of_Some [OF Some] show ?thesis by (simp add: user_global_full_def)
qed

lemma index_of_bound: "map_of m k = Some x \<Longrightarrow> im_index_of k m = Some (the (im_index_of k m))"
  by (cases "im_index_of k m") (auto simp: im_index_of_None dest: map_of_SomeD intro: rev_image_eqI)

lemma globals_okD:
  assumes "globals_ok builtins site gl caches"
  shows "cache_ok builtins gl (site off) (gc_at caches off)"
    and "distinct (map fst (gl_user gl))" and "env_wf (gl_envs gl)"
    and "\<forall>e. gl_class_env gl = Some e \<longrightarrow> e < length (es_scopes (gl_envs gl))"
  using assms by (auto simp: globals_ok_def gc_at_def cache_ok_def split: option.splits global_cache.splits)

lemma globals_ok_cache:
  "globals_ok builtins site gl caches \<Longrightarrow> cache_ok builtins gl (site off) c
    \<Longrightarrow> globals_ok builtins site gl (caches(off \<mapsto> c))"
  by (simp add: globals_ok_def)

lemma get_global_table:
  assumes ok: "globals_ok builtins site gl caches"
  shows "\<exists>caches'. get_global builtins specialize gl caches off (site off)
      = map_result (\<lambda>v. (v, caches')) id (table_get builtins (gl_user gl) (site off))
    \<and> globals_ok builtins site gl caches'"
proof (cases "(if specialize then gc_get_index (gc_at caches off) (gl_struct_gen gl) else None)")
  case (Some idx)
  then obtain g where "gc_at caches off = GIndexBound idx g"
    by (cases "gc_at caches off") (auto split: if_splits)
  then have "im_index_of (site off) (gl_user gl) = Some idx"
    using globals_okD(1) [OF ok, of off] by (simp add: cache_ok_def)
  from im_index_of_Some [OF this] Some ok show ?thesis
    by (intro exI [of _ caches]) (auto simp: get_global_def table_get_def vec_get_in split: prod.splits)
next
  case miss: None
  show ?thesis
  proof (cases "(if specialize then gc_get (gc_at caches off) (gl_version gl) else None)")
    case (Some v)
    then have "gc_at caches off = GCached v (gl_version gl)"
      by (cases "gc_at caches off") (auto split: if_splits)
    then have "map_of (gl_user gl) (site off) = None \<and> map_of builtins (site off) = Some v"
      using globals_okD(1) [OF ok, of off] by (simp add: cache_ok_def)
    with miss Some ok show ?thesis by (intro exI [of _ caches]) (simp add: get_global_def table_get_def)
  next
    case None
    show ?thesis
    proof (cases "map_of (gl_user gl) (site off)")
      case bound: (Some s)
      note fill = globals_ok_cache [OF ok, of off "GIndexBound (the (im_index_of (site off) (gl_user gl))) (gl_struct_gen gl)"]
      show ?thesis
        using miss None bound ok fill index_of_bound [OF bound]
        by (intro exI [of _ "if specialize then caches(off \<mapsto> GIndexBound (the (im_index_of (site off) (gl_user gl))) (gl_struct_gen gl)) else caches"])
          (simp add: get_global_def table_get_def user_global_full_table cache_ok_def)
    next
      case free: None
      show ?thesis
      proof (cases "map_of builtins (site off)")
        case None
        with miss \<open>(if specialize then gc_get (gc_at caches off) (gl_version gl) else None) = None\<close> free ok
        show ?thesis by (intro exI [of _ caches]) (simp add: get_global_def table_get_def user_global_full_table)
      next
        case builtin: (Some v)
        show ?thesis
          using miss \<open>(if specialize then gc_get (gc_at caches off) (gl_version gl) else None) = None\<close> free builtin ok
            globals_ok_cache [OF ok, of off "GCached v (gl_version gl)"]
          by (intro exI [of _ "if specialize then caches(off \<mapsto> GCached v (gl_version gl)) else caches"])
            (simp add: get_global_def table_get_def user_global_full_table cache_ok_def)
      qed
    qed
  qed
qed

text \<open>A change of the environments or a replaced value keeps every cache coherent.\<close>

lemma cache_ok_mono:
  assumes "cache_ok builtins gl name c"
    and "\<And>i. im_index_of name (gl_user gl) = Some i \<Longrightarrow> im_index_of name (gl_user gl') = Some i"
    and "gl_version gl \<le> gl_version gl'"
    and "gl_version gl' = gl_version gl \<Longrightarrow> map_of (gl_user gl) name = None \<Longrightarrow> map_of (gl_user gl') name = None"
  shows "cache_ok builtins gl' name c"
  using assms by (cases c) (auto simp: cache_ok_def)

lemma globals_ok_envs:
  assumes "globals_ok builtins site gl caches" and "env_wf st"
    and "length (es_scopes st) = length (es_scopes (gl_envs gl))"
  shows "globals_ok builtins site (gl\<lparr>gl_envs := st\<rparr>) caches"
proof -
  have "cache_ok builtins (gl\<lparr>gl_envs := st\<rparr>) (site off) c" if "caches off = Some c" for off c
    by (rule cache_ok_mono [of _ gl]) (use assms(1) that in \<open>auto simp: globals_ok_def\<close>)
  with assms show ?thesis by (simp add: globals_ok_def)
qed

lemma globals_ok_update:
  assumes "globals_ok builtins site gl caches" and "map_of (gl_user gl) name = Some s"
  shows "globals_ok builtins site (gl\<lparr>gl_user := im_insert name s' (gl_user gl)\<rparr>) caches"
proof -
  have "cache_ok builtins (gl\<lparr>gl_user := im_insert name s' (gl_user gl)\<rparr>) (site off) c" if "caches off = Some c" for off c
  proof (rule cache_ok_mono)
    show "cache_ok builtins gl (site off) c" using assms(1) that by (simp add: globals_ok_def)
  qed (use assms(2) in \<open>auto simp: im_index_insert_old simp del: map_of_eq_None_iff\<close>)
  then show ?thesis using assms(1) by (simp add: globals_ok_def)
qed

lemma sync_assign_table:
  assumes "globals_ok builtins site gl caches"
  shows "\<exists>gl'. sync_assign gl name v = Some gl' \<and> gl_user gl' = gl_user gl
    \<and> gl_version gl' = gl_version gl \<and> gl_struct_gen gl' = gl_struct_gen gl \<and> globals_ok builtins site gl' caches"
proof -
  from sync_assign_ok [OF globals_okD(3, 4) [OF assms], of name v] obtain st where
    st: "sync_assign gl name v = Some (gl\<lparr>gl_envs := st\<rparr>)" "env_wf st"
      "length (es_scopes st) = length (es_scopes (gl_envs gl))"
    by blast
  from globals_ok_envs [OF assms st(2, 3)] st(1) show ?thesis by simp
qed

lemma set_by_name_table:
  assumes ok: "globals_ok builtins site gl caches"
  shows "\<exists>gl' caches'. set_global_by_name specialize gl caches off (site off) v
      = map_result (\<lambda>_. (gl', caches')) id (table_set (gl_user gl) (site off) v)
    \<and> (\<forall>t. table_set (gl_user gl) (site off) v = Ok t
        \<longrightarrow> gl_user gl' = t \<and> gl_version gl' = gl_version gl \<and> globals_ok builtins site gl' caches')"
proof (cases "map_of (gl_user gl) (site off)")
  case None
  then show ?thesis by (simp add: set_global_by_name_def table_set_def)
next
  case (Some s)
  let ?gl = "gl\<lparr>gl_user := im_insert (site off) (s\<lparr>gs_value := v\<rparr>) (gl_user gl)\<rparr>"
  from sync_assign_table [OF globals_ok_update [OF ok Some], of "s\<lparr>gs_value := v\<rparr>" "site off" v] obtain gl' where
    gl': "sync_assign ?gl (site off) v = Some gl'" "gl_user gl' = gl_user ?gl" "gl_version gl' = gl_version gl"
      "gl_struct_gen gl' = gl_struct_gen gl" "globals_ok builtins site gl' caches"
    by auto
  let ?i = "the (im_index_of (site off) (gl_user gl'))"
  have new: "map_of (gl_user gl') (site off) = Some (s\<lparr>gs_value := v\<rparr>)" by (simp add: gl'(2))
  have "globals_ok builtins site gl' (caches(off \<mapsto> GIndexBound ?i (gl_struct_gen gl')))"
    using globals_ok_cache [OF gl'(5)] index_of_bound [OF new] by (simp add: cache_ok_def)
  with gl' new Some show ?thesis
    by (cases "gs_mutable s"; cases specialize)
      (auto simp: set_global_by_name_def table_set_def update_user_global_def user_global_full_table)
qed

lemma set_global_table:
  assumes ok: "globals_ok builtins site gl caches"
  shows "\<exists>gl' caches'. set_global specialize gl caches off (site off) v
      = map_result (\<lambda>_. (gl', caches')) id (table_set (gl_user gl) (site off) v)
    \<and> (\<forall>t. table_set (gl_user gl) (site off) v = Ok t
        \<longrightarrow> gl_user gl' = t \<and> gl_version gl' = gl_version gl \<and> globals_ok builtins site gl' caches')"
proof (cases "(if specialize then gc_get_index (gc_at caches off) (gl_struct_gen gl) else None)")
  case None
  with set_by_name_table [OF ok, of specialize off v] show ?thesis by (simp add: set_global_def)
next
  case (Some idx)
  then obtain g where "gc_at caches off = GIndexBound idx g"
    by (cases "gc_at caches off") (auto split: if_splits)
  then have at: "im_index_of (site off) (gl_user gl) = Some idx"
    using globals_okD(1) [OF ok, of off] by (simp add: cache_ok_def)
  note here = im_index_of_Some [OF at]
  then obtain s where s: "gl_user gl ! idx = (site off, s)" by (cases "gl_user gl ! idx") auto
  with here have b: "map_of (gl_user gl) (site off) = Some s" by simp
  note same = im_insert_at [OF at, of "s\<lparr>gs_value := v\<rparr>"]
  from sync_assign_table [OF globals_ok_update [OF ok b], of "s\<lparr>gs_value := v\<rparr>" "site off" v] same Some s b here
  show ?thesis
    by (cases "gs_mutable s") (auto simp: set_global_def set_user_global_at_def table_set_def vec_get_in)
qed

text \<open>A definition makes a new version, so that a cached builtin of the same name is not read.\<close>

lemma sat_inc_less: "x \<noteq> - 1 \<Longrightarrow> y \<le> x \<Longrightarrow> y < sat_inc x"
proof -
  assume "x \<noteq> - 1" "y \<le> x"
  then have "unat (1 + x) = Suc (unat x)" by (intro unatSuc) (metis add.commute add_eq_0_iff)
  with \<open>x \<noteq> - 1\<close> \<open>y \<le> x\<close> show "y < sat_inc x"
    by (simp add: sat_inc_def word_le_nat_alt word_less_nat_alt add.commute)
qed

lemma define_global_table:
  assumes ok: "globals_ok builtins site gl caches" and "gl_version gl \<noteq> - 1"
  shows "\<exists>gl'. define_global gl name v mutable = map_result (\<lambda>_. gl') id (table_define (gl_user gl) name v mutable)
    \<and> (\<forall>t. table_define (gl_user gl) name v mutable = Ok t
        \<longrightarrow> gl_user gl' = t \<and> gl_version gl' = sat_inc (gl_version gl) \<and> globals_ok builtins site gl' caches)"
proof (cases "map_of (gl_user gl) name")
  case (Some s)
  then show ?thesis by (simp add: define_global_def table_define_def)
next
  case None
  then have fresh: "name \<notin> fst ` set (gl_user gl)" by (simp add: map_of_eq_None_iff)
  let ?gl = "gl\<lparr>gl_user := im_insert name \<lparr>gs_value = v, gs_mutable = mutable\<rparr> (gl_user gl),
       gl_version := sat_inc (gl_version gl), gl_struct_gen := sat_inc (gl_struct_gen gl)\<rparr>"
  have later: "gl_version gl < sat_inc (gl_version gl)" using sat_inc_less [OF assms(2)] by simp
  have "cache_ok builtins ?gl (site off) c" if "caches off = Some c" for off c
  proof (rule cache_ok_mono)
    show "cache_ok builtins gl (site off) c" using ok that by (simp add: globals_ok_def)
  qed (use later in \<open>auto simp: im_index_insert_old\<close>)
  then have ok': "globals_ok builtins site ?gl caches" using ok by (simp add: globals_ok_def)
  from define_or_assign_ok [OF globals_okD(3, 4) [OF ok'], of name v True] obtain st where
    st: "define_or_assign ?gl name v True = Some (?gl\<lparr>gl_envs := st\<rparr>)" "env_wf st"
      "length (es_scopes st) = length (es_scopes (gl_envs ?gl))"
    by blast
  from globals_ok_envs [OF ok' st(2, 3)] st(1) None fresh show ?thesis
    by (simp add: define_global_def table_define_def define_user_global_def im_insert_new)
qed

text \<open>The class environment is built from the table and does not change it.\<close>

lemma define_each_ok:
  "env_wf st \<Longrightarrow> e < length (es_scopes st) \<Longrightarrow>
    \<exists>st'. define_each st e kvs mutable = Some st' \<and> env_wf st' \<and> length (es_scopes st') = length (es_scopes st)"
proof (induction kvs arbitrary: st)
  case (Cons kv kvs)
  obtain k v where kv: "kv = (k, v)" by (cases kv)
  show ?case
  proof (cases "bound st e k")
    case (Some b)
    then have "env_define st e k v mutable = Err (AlreadyDefined k)"
      using Cons.prems by (simp add: env_define_def bound_def vec_get_in)
    with Cons kv show ?thesis by simp
  next
    case None
    then have "env_define st e k v mutable = Ok (set_var st e k \<lparr>b_value = v, b_mutable = mutable\<rparr>)"
      using Cons.prems by (simp add: env_define_def set_var_def bound_def vec_get_in)
    moreover have "length (es_scopes (set_var st e k b)) = length (es_scopes st)" for b by (simp add: set_var_def)
    ultimately show ?thesis
      using Cons.IH [OF env_wf_set_var [OF Cons.prems, of k "\<lparr>b_value = v, b_mutable = mutable\<rparr>"]] Cons.prems kv by simp
  qed
qed simp

lemma env_wf_grow:
  "env_wf st \<Longrightarrow> (\<And>p. sc_parent sc = Some p \<Longrightarrow> p < length (es_scopes st)) \<Longrightarrow>
    env_wf (st\<lparr>es_scopes := es_scopes st @ [sc]\<rparr>)"
  by (auto simp: env_wf_def nth_append less_Suc_eq)

lemma class_env_ok:
  assumes ok: "globals_ok builtins site gl caches"
  shows "\<exists>e gl'. class_env builtins gl = Some (e, gl') \<and> gl_user gl' = gl_user gl \<and> gl_version gl' = gl_version gl
    \<and> gl_class_env gl' = Some e \<and> globals_ok builtins site gl' caches"
proof (cases "gl_class_env gl")
  case (Some e)
  with ok show ?thesis by (simp add: class_env_def)
next
  case None
  let ?st0 = "snd (env_global (gl_envs gl))" and ?root = "length (es_scopes (gl_envs gl))"
  have wf0: "env_wf ?st0" and len0: "length (es_scopes ?st0) = Suc ?root"
    using env_wf_grow [OF globals_okD(3) [OF ok], of "\<lparr>sc_vars = [], sc_parent = None, sc_defers = None\<rparr>"]
    by (auto simp: env_global_def)
  from define_each_ok [OF wf0, of ?root builtins False] len0 obtain st1 where
    st1: "define_each ?st0 ?root builtins False = Some st1" "env_wf st1" "length (es_scopes st1) = Suc ?root" by auto
  let ?st2 = "snd (env_child st1 ?root)"
  let ?vars = "map (\<lambda>(k, s). (k, gs_value s)) (gl_user gl)"
  have wf2: "env_wf ?st2" and len2: "length (es_scopes ?st2) = Suc (Suc ?root)"
    using env_wf_grow [OF st1(2), of "\<lparr>sc_vars = [], sc_parent = Some ?root, sc_defers = None\<rparr>"] st1(3)
    by (auto simp: env_child_def)
  from define_each_ok [OF wf2, of "Suc ?root" ?vars True] len2 obtain st3 where
    st3: "define_each ?st2 (Suc ?root) ?vars True = Some st3" "env_wf st3" "length (es_scopes st3) = Suc (Suc ?root)" by auto
  let ?gl = "gl\<lparr>gl_envs := st3, gl_class_env := Some (Suc ?root)\<rparr>"
  have "class_env builtins gl = Some (Suc ?root, ?gl)"
    using None st1 st3 by (simp add: class_env_def env_global_def env_child_def case_prod_beta)
  moreover have "cache_ok builtins ?gl (site off) c" if "caches off = Some c" for off c
    by (rule cache_ok_mono [of _ gl]) (use ok that in \<open>auto simp: globals_ok_def\<close>)
  then have "globals_ok builtins site ?gl caches" using ok st3 by (simp add: globals_ok_def)
  ultimately show ?thesis by simp
qed

lemma register_class_ok:
  assumes "globals_ok builtins site gl caches"
  shows "\<exists>gl'. register_class builtins gl name cls = Some gl' \<and> gl_user gl' = gl_user gl
    \<and> gl_version gl' = gl_version gl \<and> globals_ok builtins site gl' caches"
proof -
  from class_env_ok [OF assms] obtain e gl1 where
    gl1: "class_env builtins gl = Some (e, gl1)" "gl_user gl1 = gl_user gl" "gl_version gl1 = gl_version gl"
      "globals_ok builtins site gl1 caches" by blast
  from define_or_assign_ok [OF globals_okD(3, 4) [OF gl1(4)], of name cls False] obtain st where
    st: "define_or_assign gl1 name cls False = Some (gl1\<lparr>gl_envs := st\<rparr>)" "env_wf st"
      "length (es_scopes st) = length (es_scopes (gl_envs gl1))" by blast
  from globals_ok_envs [OF gl1(4) st(2, 3)] st(1) gl1 show ?thesis by (simp add: register_class_def)
qed

section \<open>Runs\<close>

text \<open>
  The four steps that touch the globals, each at its own instruction offset; a step that fails leaves
  the state as it is, since a program may recover from the failure and go on.
\<close>

datatype 'v global_op = GetG nat | SetG nat 'v | DefineG rstring 'v bool | ClassG rstring 'v

definition keep :: "'s \<Rightarrow> ('a \<times> 's, 'e) result \<Rightarrow> ('a, 'e) result \<times> 's" where
  "keep s r = (case r of Ok (x, s') \<Rightarrow> (Ok x, s') | Err e \<Rightarrow> (Err e, s) | Panic \<Rightarrow> (Panic, s))"

fun global_step ::
  "(rstring \<times> 'v) list \<Rightarrow> bool \<Rightarrow> (nat \<Rightarrow> rstring) \<Rightarrow> 'v global_op \<Rightarrow> 'v globals \<times> 'v global_caches
   \<Rightarrow> ('v option, global_error) result \<times> 'v globals \<times> 'v global_caches" where
  "global_step builtins specialize site (GetG off) (gl, caches) = keep (gl, caches)
     (res_bind (get_global builtins specialize gl caches off (site off)) (\<lambda>(v, caches'). Ok (Some v, gl, caches')))"
| "global_step builtins specialize site (SetG off v) (gl, caches) = keep (gl, caches)
     (res_bind (set_global specialize gl caches off (site off) v) (\<lambda>(gl', caches'). Ok (None, gl', caches')))"
| "global_step builtins specialize site (DefineG name v mutable) (gl, caches) = keep (gl, caches)
     (res_bind (define_global gl name v mutable) (\<lambda>gl'. Ok (None, gl', caches)))"
| "global_step builtins specialize site (ClassG name cls) (gl, caches) = keep (gl, caches)
     (res_bind (or_panic (register_class builtins gl name cls)) (\<lambda>gl'. Ok (None, gl', caches)))"

fun global_run where
  "global_run builtins specialize site [] s = ([], s)"
| "global_run builtins specialize site (op # ops) s =
     (case global_step builtins specialize site op s of (r, s') \<Rightarrow> apfst ((#) r) (global_run builtins specialize site ops s'))"

text \<open>The specification: the table and nothing else.\<close>

fun table_step ::
  "(rstring \<times> 'v) list \<Rightarrow> (nat \<Rightarrow> rstring) \<Rightarrow> 'v global_op \<Rightarrow> (rstring \<times> 'v global_slot) list
   \<Rightarrow> ('v option, global_error) result \<times> (rstring \<times> 'v global_slot) list" where
  "table_step builtins site (GetG off) t = keep t (res_bind (table_get builtins t (site off)) (\<lambda>v. Ok (Some v, t)))"
| "table_step builtins site (SetG off v) t = keep t (res_bind (table_set t (site off) v) (\<lambda>t'. Ok (None, t')))"
| "table_step builtins site (DefineG name v mutable) t = keep t (res_bind (table_define t name v mutable) (\<lambda>t'. Ok (None, t')))"
| "table_step builtins site (ClassG name cls) t = (Ok None, t)"

fun table_run where
  "table_run builtins site [] t = ([], t)"
| "table_run builtins site (op # ops) t =
     (case table_step builtins site op t of (r, t') \<Rightarrow> apfst ((#) r) (table_run builtins site ops t'))"

lemma keep_simps [simp]:
  "keep s (Ok (x, s')) = (Ok x, s')" "keep s (Err e) = (Err e, s)" "keep s Panic = (Panic, s)"
  by (simp_all add: keep_def)

definition globals_new :: "'v globals" where
  "globals_new = \<lparr>gl_user = [], gl_version = 0, gl_struct_gen = 0,
     gl_envs = \<lparr>es_scopes = [], es_defer_lists = []\<rparr>, gl_class_env = None\<rparr>"

lemma globals_ok_new: "globals_ok builtins site globals_new (\<lambda>_. None)"
  by (simp add: globals_ok_def globals_new_def env_wf_def)

lemma sat_inc_unat: "unat (sat_inc x) \<le> Suc (unat x)"
proof (cases "x = - 1")
  case False
  then have "unat (1 + x) = Suc (unat x)" by (intro unatSuc) (metis add.commute add_eq_0_iff)
  then show ?thesis by (simp add: sat_inc_def add.commute)
qed (simp add: sat_inc_def)

lemma global_step_table:
  assumes ok: "globals_ok builtins site gl caches" and "gl_version gl \<noteq> - 1"
  shows "\<exists>r gl' caches'. global_step builtins specialize site op (gl, caches) = (r, gl', caches')
    \<and> table_step builtins site op (gl_user gl) = (r, gl_user gl') \<and> r \<noteq> Panic
    \<and> globals_ok builtins site gl' caches' \<and> unat (gl_version gl') \<le> Suc (unat (gl_version gl))"
proof (cases op)
  case (GetG off)
  show ?thesis
    using get_global_table [OF ok, of specialize off] ok GetG
    by (cases "table_get builtins (gl_user gl) (site off)") (auto simp: table_get_def split: option.splits)
next
  case (SetG off v)
  show ?thesis
    using set_global_table [OF ok, of specialize off v] ok SetG
    by (cases "table_set (gl_user gl) (site off) v") (auto simp: table_set_def split: option.splits if_splits)
next
  case (DefineG name v mutable)
  show ?thesis
    using define_global_table [OF assms, of name v mutable] ok DefineG sat_inc_unat [of "gl_version gl"]
    by (cases "table_define (gl_user gl) name v mutable") (auto simp: table_define_def split: if_splits)
next
  case (ClassG name cls)
  show ?thesis using register_class_ok [OF ok, of name cls] ClassG by auto
qed

lemma global_run_table:
  assumes "globals_ok builtins site gl caches" and "unat (gl_version gl) + length ops < 2 ^ 64"
  shows "\<exists>gl' caches'. global_run builtins specialize site ops (gl, caches)
      = (fst (table_run builtins site ops (gl_user gl)), gl', caches')
    \<and> gl_user gl' = snd (table_run builtins site ops (gl_user gl))
    \<and> Panic \<notin> set (fst (table_run builtins site ops (gl_user gl)))"
  using assms
proof (induction ops arbitrary: gl caches)
  case (Cons op ops)
  have "gl_version gl \<noteq> - 1"
  proof
    assume "gl_version gl = - 1"
    then have "unat (gl_version gl) = 2 ^ 64 - 1" by (simp add: unsigned_minus_1_eq_mask mask_eq_exp_minus_1)
    with Cons.prems(2) show False by simp
  qed
  from global_step_table [OF Cons.prems(1) this, of specialize op] obtain r gl1 caches1 where
    step: "global_step builtins specialize site op (gl, caches) = (r, gl1, caches1)"
      "table_step builtins site op (gl_user gl) = (r, gl_user gl1)" "r \<noteq> Panic"
      "globals_ok builtins site gl1 caches1" "unat (gl_version gl1) \<le> Suc (unat (gl_version gl))"
    by blast
  from Cons.IH [OF step(4)] step Cons.prems(2) show ?case
    by (auto simp: case_prod_beta)
qed simp

text \<open>
  C9: Caching at the global sites is invisible.  Whether specialisation is on or off, any sequence of
  reads, assignments, definitions and class registrations, shorter than the range of the version
  counter, gives the results and the table of the machine that has the table alone: a read gives the
  user global of that name, then the builtin; a definition fails on a present name; an assignment
  fails on an absent or immutable one.  No step aborts.
\<close>
theorem global_caches_invisible:
  assumes "length ops < 2 ^ 64"
  shows "\<exists>gl' caches'. global_run builtins specialize site ops (globals_new, \<lambda>_. None)
      = (fst (table_run builtins site ops []), gl', caches')
    \<and> gl_user gl' = snd (table_run builtins site ops [])
    \<and> Panic \<notin> set (fst (table_run builtins site ops []))"
  using global_run_table [OF globals_ok_new, where ops = ops and builtins = builtins and site = site and specialize = specialize] assms
  by (simp add: globals_new_def)

theorem global_caches_invisible_witness:
  "fst (global_run [([108, 101, 110], 7)] True (\<lambda>_. [108, 101, 110])
      [GetG 0, GetG 0, DefineG [108, 101, 110] (9 :: nat) True, GetG 0, SetG 4 5, GetG 0, DefineG [108, 101, 110] 1 False]
      (globals_new, \<lambda>_. None))
    = [Ok (Some 7), Ok (Some 7), Ok None, Ok (Some 9), Ok None, Ok (Some 5), Err (AlreadyDefinedHere [108, 101, 110])]"
proof -
  let ?ops = "[GetG 0, GetG 0, DefineG [108, 101, 110] (9 :: nat) True, GetG 0, SetG 4 5, GetG 0, DefineG [108, 101, 110] 1 False]"
  have "fst (table_run [([108, 101, 110], 7)] (\<lambda>_. [108, 101, 110]) ?ops [])
    = [Ok (Some 7), Ok (Some 7), Ok None, Ok (Some 9), Ok None, Ok (Some 5), Err (AlreadyDefinedHere [108, 101, 110])]"
    by (simp add: table_get_def table_set_def table_define_def)
  moreover have "length ?ops < 2 ^ 64" by simp
  ultimately show ?thesis
    using global_caches_invisible [of ?ops "[([108, 101, 110], 7)]" True "\<lambda>_. [108, 101, 110]"] by auto
qed




end
