(* ===== verification/ValueVm.thy ===== *)
theory ValueVm
  imports Arith Globals Chunk
begin

text \<open>
  The dispatch loop of the VM on values (\<open>run_loop\<close> in \<open>src/src/vm/run.rs\<close>), for the
  instructions of the straight-line fragment: constants, stack shuffles, operators, ranges, locals,
  globals, jumps and the return from the root frame.

  The state is that of the root frame: the instruction pointer, the operands (top first) and the
  window of local slots below them, with the globals and the caches of the chunk.  The theory of the
  run loop shows that verified code never mixes operands and window, so they are two lists here.
  Each arm of the dispatch is a definition; an instruction outside of the fragment answers
  \<open>VOutside\<close>, a Rust panic of the loop \<open>VFault\<close>, and an operation that never returns (the
  materialisation of a range whose counter stands still) \<open>VHang\<close>.
\<close>

section \<open>Values of constants\<close>

text \<open>\<open>f64::from_bits\<close>\<close>

definition f64_from_bits :: "u64 \<Rightarrow> f64" where
  "f64_from_bits w =
     (let neg = bit w 63; e = unat (drop_bit 52 w AND 0x7FF); m = unat (w AND 0xFFFFFFFFFFFFF);
          signed = (\<lambda>x :: rat. if neg then - x else x) in
      if e = 2047 then (if m = 0 then Inf neg else NaN)
      else if e = 0 then Fin neg (signed (of_nat m / 2 ^ 1074))
      else Fin neg (signed (if 1075 \<le> e then of_nat (2 ^ 52 + m) * 2 ^ (e - 1075) else of_nat (2 ^ 52 + m) / 2 ^ (1075 - e))))"

definition const_value :: "val \<Rightarrow> 'd rval option" where
  "const_value v = (case v of
      VNil \<Rightarrow> Some RNil
    | VBool b \<Rightarrow> Some (RBool b)
    | VInt i \<Rightarrow> Some (RInt i)
    | VFloat w \<Rightarrow> Some (RFloat (f64_from_bits w))
    | VStr s \<Rightarrow> Some (RStr s)
    | _ \<Rightarrow> None)"

section \<open>Engines and states\<close>

text \<open>
  What both engines share: the numeric operations of the libraries, \<open>instanceof\<close> on classes and
  interfaces, and whether the VM specialises.
\<close>

record 'd engine =
  en_num :: "'d numerics"
  en_inst :: "'d rval \<Rightarrow> 'd rval \<Rightarrow> ('d outcome, 'd arith_error) result"
  en_specialize :: bool

datatype 'd run_error = OperatorError "'d arith_error" | BindingError global_error | DepthExceeded | InvalidTarget | BadOperand

definition BUILTIN_NAMES :: "rstring list" where
  "BUILTIN_NAMES =
    [[112, 114, 105, 110, 116],
     [79, 107],
     [69, 114, 114],
     [97, 115, 115, 101, 114, 116],
     [114, 101, 99, 111, 118, 101, 114],
     [116, 101, 115, 116],
     [108, 101, 110],
     [116, 121, 112, 101],
     [114, 97, 110, 103, 101],
     [101, 120, 105, 116],
     [105, 110, 116],
     [102, 108, 111, 97, 116],
     [114, 117, 110, 95, 105, 110, 95, 119, 111, 114, 107, 101, 114]]"

definition BUILTINS :: "(rstring \<times> 'd rval) list" where
  "BUILTINS = map (\<lambda>name. (name, RBuiltin name)) BUILTIN_NAMES"

record 'd vm =
  vm_ip :: nat
  vm_stack :: "'d rval list"
  vm_locals :: "'d rval list"
  vm_globals :: "'d rval globals"
  vm_global_caches :: "'d rval global_caches"
  vm_arith_caches :: arith_caches
  vm_arrays :: "'d rval list list"

datatype 'd vm_out = VNext "'d vm" | VDone "'d rval" "'d vm" | VRaise "'d run_error" "'d vm" | VHang | VFault | VOutside

definition push :: "'d rval \<Rightarrow> 'd vm \<Rightarrow> 'd vm" where
  "push v vm = vm\<lparr>vm_stack := v # vm_stack vm\<rparr>"

text \<open>The result of an operator: a value, a fresh array, an error.\<close>

definition push_outcome :: "('d outcome, 'd arith_error) result option \<Rightarrow> 'd vm \<Rightarrow> 'd vm_out" where
  "push_outcome r vm =
     (case r of
        None \<Rightarrow> VHang
      | Some (Ok (Value v)) \<Rightarrow> VNext (push v vm)
      | Some (Ok (NewArray vs)) \<Rightarrow> VNext (push (RArray (length (vm_arrays vm))) (vm\<lparr>vm_arrays := vm_arrays vm @ [vs]\<rparr>))
      | Some (Err e) \<Rightarrow> VRaise (OperatorError e) vm
      | Some Panic \<Rightarrow> VFault)"

text \<open>A constant that has to be a name.\<close>

definition with_name :: "chunk \<Rightarrow> nat \<Rightarrow> 'd vm \<Rightarrow> (rstring \<Rightarrow> 'd vm_out) \<Rightarrow> 'd vm_out" where
  "with_name F pc vm k =
     (case Option.bind (read_u16 F pc) (\<lambda>idx. vec_get (c_consts F) (unat idx)) of
        None \<Rightarrow> VFault
      | Some v \<Rightarrow> (case v of VStr name \<Rightarrow> k name | _ \<Rightarrow> VRaise BadOperand vm))"

section \<open>The arms\<close>

definition step_const :: "chunk \<Rightarrow> nat \<Rightarrow> 'd vm \<Rightarrow> 'd vm_out" where
  "step_const F pc vm =
     (case Option.bind (read_u16 F pc) (\<lambda>idx. vec_get (c_consts F) (unat idx)) of
        None \<Rightarrow> VFault
      | Some c \<Rightarrow> (case const_value c of Some v \<Rightarrow> VNext (push v vm) | None \<Rightarrow> VOutside))"

definition step_push :: "'d rval \<Rightarrow> 'd vm \<Rightarrow> 'd vm_out" where
  "step_push v vm = VNext (push v vm)"

definition step_pop :: "'d vm \<Rightarrow> 'd vm_out" where
  "step_pop vm = (case vm_stack vm of [] \<Rightarrow> VFault | v # rest \<Rightarrow> VNext (vm\<lparr>vm_stack := rest\<rparr>))"

definition step_dup :: "'d vm \<Rightarrow> 'd vm_out" where
  "step_dup vm = (case vm_stack vm of [] \<Rightarrow> VFault | v # rest \<Rightarrow> VNext (push v vm))"

definition step_swap :: "'d vm \<Rightarrow> 'd vm_out" where
  "step_swap vm = (case vm_stack vm of b # a # rest \<Rightarrow> VNext (vm\<lparr>vm_stack := a # b # rest\<rparr>) | _ \<Rightarrow> VFault)"

definition step_rot3 :: "'d vm \<Rightarrow> 'd vm_out" where
  "step_rot3 vm = (case vm_stack vm of c # b # a # rest \<Rightarrow> VNext (vm\<lparr>vm_stack := a # c # b # rest\<rparr>) | _ \<Rightarrow> VFault)"

definition step_binop :: "'d engine \<Rightarrow> nat \<Rightarrow> bin_op \<Rightarrow> 'd vm \<Rightarrow> 'd vm_out" where
  "step_binop en fault op vm =
     (case vm_stack vm of
        b # a # rest \<Rightarrow>
          (case eval_binop_adaptive (en_num en) (en_inst en) (en_specialize en) (vm_arith_caches vm) fault op a b of
             (r, caches) \<Rightarrow> push_outcome r (vm\<lparr>vm_stack := rest, vm_arith_caches := caches\<rparr>))
      | _ \<Rightarrow> VFault)"

definition step_unop :: "'d engine \<Rightarrow> un_op \<Rightarrow> 'd vm \<Rightarrow> 'd vm_out" where
  "step_unop en op vm =
     (case vm_stack vm of
        a # rest \<Rightarrow> push_outcome (Some (one (apply_unop (en_num en) op a))) (vm\<lparr>vm_stack := rest\<rparr>)
      | _ \<Rightarrow> VFault)"

definition instanceof_reserved_type :: "'d rval \<Rightarrow> rstring \<Rightarrow> bool option" where
  "instanceof_reserved_type v name =
     (if name = [105, 110, 116] then Some (case v of RInt _ \<Rightarrow> True | _ \<Rightarrow> False)
      else if name = [102, 108, 111, 97, 116] then Some (case v of RFloat _ \<Rightarrow> True | _ \<Rightarrow> False)
      else if name = [110, 117, 109, 98, 101, 114] then Some (case v of RInt _ \<Rightarrow> True | RFloat _ \<Rightarrow> True | _ \<Rightarrow> False)
      else if name = [115, 116, 114, 105, 110, 103] then Some (case v of RStr _ \<Rightarrow> True | _ \<Rightarrow> False)
      else if name = [98, 111, 111, 108] then Some (case v of RBool _ \<Rightarrow> True | _ \<Rightarrow> False)
      else None)"

definition step_instance_of_type :: "chunk \<Rightarrow> nat \<Rightarrow> 'd vm \<Rightarrow> 'd vm_out" where
  "step_instance_of_type F pc vm = with_name F pc vm (\<lambda>name.
     case vm_stack vm of
       [] \<Rightarrow> VFault
     | v # rest \<Rightarrow> (case instanceof_reserved_type v name of
         Some b \<Rightarrow> VNext (push (RBool b) (vm\<lparr>vm_stack := rest\<rparr>)) | None \<Rightarrow> VRaise BadOperand vm))"

definition step_range_inclusive :: "'d vm \<Rightarrow> 'd vm_out" where
  "step_range_inclusive vm =
     (case vm_stack vm of
        b # a # rest \<Rightarrow> push_outcome (map_option range_outcome (materialize_range a b True)) (vm\<lparr>vm_stack := rest\<rparr>)
      | _ \<Rightarrow> VFault)"

definition step_range_step_value :: "chunk \<Rightarrow> nat \<Rightarrow> 'd vm \<Rightarrow> 'd vm_out" where
  "step_range_step_value F pc vm =
     (case (read_u8 F pc, vm_stack vm) of
        (Some flags, step # hi # lo # rest) \<Rightarrow>
          push_outcome (map_option range_outcome (materialize_range_stepped lo hi (flags AND 1 \<noteq> 0)
            (if flags AND 2 \<noteq> 0 then Some step else None))) (vm\<lparr>vm_stack := rest\<rparr>)
      | _ \<Rightarrow> VFault)"

definition step_get_local :: "chunk \<Rightarrow> nat \<Rightarrow> 'd vm \<Rightarrow> 'd vm_out" where
  "step_get_local F pc vm =
     (case Option.bind (read_u16 F pc) (\<lambda>slot. vec_get (vm_locals vm) (unat slot)) of
        Some v \<Rightarrow> VNext (push v vm) | None \<Rightarrow> VFault)"

definition step_set_local :: "chunk \<Rightarrow> nat \<Rightarrow> 'd vm \<Rightarrow> 'd vm_out" where
  "step_set_local F pc vm =
     (case (read_u16 F pc, vm_stack vm) of
        (Some slot, v # rest) \<Rightarrow>
          if unat slot < length (vm_locals vm)
          then VNext (vm\<lparr>vm_stack := rest, vm_locals := (vm_locals vm)[unat slot := v]\<rparr>) else VFault
      | _ \<Rightarrow> VFault)"

definition step_get_global :: "'d engine \<Rightarrow> chunk \<Rightarrow> nat \<Rightarrow> nat \<Rightarrow> 'd vm \<Rightarrow> 'd vm_out" where
  "step_get_global en F fault pc vm = with_name F pc vm (\<lambda>name.
     case get_global BUILTINS (en_specialize en) (vm_globals vm) (vm_global_caches vm) fault name of
       Ok (v, caches) \<Rightarrow> VNext (push v (vm\<lparr>vm_global_caches := caches\<rparr>))
     | Err e \<Rightarrow> VRaise (BindingError e) vm
     | Panic \<Rightarrow> VFault)"

definition step_define_global :: "chunk \<Rightarrow> nat \<Rightarrow> 'd vm \<Rightarrow> 'd vm_out" where
  "step_define_global F pc vm = with_name F pc vm (\<lambda>name.
     case (read_u8 F (pc + 2), vm_stack vm) of
       (Some flag, v # rest) \<Rightarrow>
         (case define_global (vm_globals vm) name v (flag \<noteq> 0) of
            Ok gl \<Rightarrow> VNext (vm\<lparr>vm_stack := rest, vm_globals := gl\<rparr>)
          | Err e \<Rightarrow> VRaise (BindingError e) (vm\<lparr>vm_stack := rest\<rparr>)
          | Panic \<Rightarrow> VFault)
     | _ \<Rightarrow> VFault)"

definition step_set_global :: "'d engine \<Rightarrow> chunk \<Rightarrow> nat \<Rightarrow> nat \<Rightarrow> 'd vm \<Rightarrow> 'd vm_out" where
  "step_set_global en F fault pc vm = with_name F pc vm (\<lambda>name.
     case vm_stack vm of
       [] \<Rightarrow> VFault
     | v # _ \<Rightarrow>
         (case set_global (en_specialize en) (vm_globals vm) (vm_global_caches vm) fault name v of
            Ok (gl, caches) \<Rightarrow> VNext (vm\<lparr>vm_globals := gl, vm_global_caches := caches\<rparr>)
          | Err e \<Rightarrow> VRaise (BindingError e) vm
          | Panic \<Rightarrow> VFault))"

definition step_immutable_error :: "chunk \<Rightarrow> nat \<Rightarrow> 'd vm \<Rightarrow> 'd vm_out" where
  "step_immutable_error F pc vm = with_name F pc vm (\<lambda>name. VRaise (BindingError (ImmutableBinding name)) vm)"

text \<open>\<open>(base + disp as isize) as usize\<close>: a negative sum wraps to the top of the address range.\<close>

definition jump_by :: "int \<Rightarrow> 'd vm \<Rightarrow> 'd vm" where
  "jump_by disp vm = (let t = int (vm_ip vm) + disp in vm\<lparr>vm_ip := nat (if t < 0 then t + 2 ^ 64 else t)\<rparr>)"

definition step_jump :: "chunk \<Rightarrow> nat \<Rightarrow> 'd vm \<Rightarrow> 'd vm_out" where
  "step_jump F pc vm = (case read_i16 F pc of Some disp \<Rightarrow> VNext (jump_by disp vm) | None \<Rightarrow> VFault)"

definition step_jump_if :: "('d rval \<Rightarrow> bool) \<Rightarrow> chunk \<Rightarrow> nat \<Rightarrow> 'd vm \<Rightarrow> 'd vm_out" where
  "step_jump_if test F pc vm =
     (case vm_stack vm of
        [] \<Rightarrow> VFault
      | v # rest \<Rightarrow> (let vm1 = vm\<lparr>vm_stack := rest\<rparr> in
          if test v then (case read_i16 F pc of Some disp \<Rightarrow> VNext (jump_by disp vm1) | None \<Rightarrow> VFault)
          else VNext vm1))"

definition step_return :: "'d vm \<Rightarrow> 'd vm_out" where
  "step_return vm = (case vm_stack vm of [] \<Rightarrow> VFault | v # rest \<Rightarrow> VDone v (vm\<lparr>vm_stack := rest\<rparr>))"

section \<open>The dispatch\<close>

primrec exec_arm :: "op \<Rightarrow> 'd engine \<Rightarrow> chunk \<Rightarrow> nat \<Rightarrow> nat \<Rightarrow> 'd vm \<Rightarrow> 'd vm_out" where
  "exec_arm Op_Const en F fault pc vm = step_const F pc vm"
| "exec_arm Op_Nil en F fault pc vm = step_push RNil vm"
| "exec_arm Op_True en F fault pc vm = step_push (RBool True) vm"
| "exec_arm Op_False en F fault pc vm = step_push (RBool False) vm"
| "exec_arm Op_Pop en F fault pc vm = step_pop vm"
| "exec_arm Op_Dup en F fault pc vm = step_dup vm"
| "exec_arm Op_Swap en F fault pc vm = step_swap vm"
| "exec_arm Op_Rot3 en F fault pc vm = step_rot3 vm"
| "exec_arm Op_GetLocal en F fault pc vm = step_get_local F pc vm"
| "exec_arm Op_SetLocal en F fault pc vm = step_set_local F pc vm"
| "exec_arm Op_GetUpvalue en F fault pc vm = VOutside"
| "exec_arm Op_SetUpvalue en F fault pc vm = VOutside"
| "exec_arm Op_CloseUpvalue en F fault pc vm = VOutside"
| "exec_arm Op_GetGlobal en F fault pc vm = step_get_global en F fault pc vm"
| "exec_arm Op_DefineGlobal en F fault pc vm = step_define_global F pc vm"
| "exec_arm Op_SetGlobal en F fault pc vm = step_set_global en F fault pc vm"
| "exec_arm Op_ImmutableError en F fault pc vm = step_immutable_error F pc vm"
| "exec_arm Op_Add en F fault pc vm = step_binop en fault BAdd vm"
| "exec_arm Op_Sub en F fault pc vm = step_binop en fault BSub vm"
| "exec_arm Op_Mul en F fault pc vm = step_binop en fault BMul vm"
| "exec_arm Op_Div en F fault pc vm = step_binop en fault BDiv vm"
| "exec_arm Op_Mod en F fault pc vm = step_binop en fault BMod vm"
| "exec_arm Op_Pow en F fault pc vm = step_binop en fault BPow vm"
| "exec_arm Op_Neg en F fault pc vm = step_unop en UNeg vm"
| "exec_arm Op_Not en F fault pc vm = step_unop en UNot vm"
| "exec_arm Op_Eq en F fault pc vm = step_binop en fault BEq vm"
| "exec_arm Op_Ne en F fault pc vm = step_binop en fault BNe vm"
| "exec_arm Op_Lt en F fault pc vm = step_binop en fault BLt vm"
| "exec_arm Op_Le en F fault pc vm = step_binop en fault BLe vm"
| "exec_arm Op_Gt en F fault pc vm = step_binop en fault BGt vm"
| "exec_arm Op_Ge en F fault pc vm = step_binop en fault BGe vm"
| "exec_arm Op_Range en F fault pc vm = step_binop en fault BRange vm"
| "exec_arm Op_RangeInclusive en F fault pc vm = step_range_inclusive vm"
| "exec_arm Op_CheckNumbers en F fault pc vm = VOutside"
| "exec_arm Op_RangeStepValue en F fault pc vm = step_range_step_value F pc vm"
| "exec_arm Op_RangeResolveStep en F fault pc vm = VOutside"
| "exec_arm Op_RangeHasNext en F fault pc vm = VOutside"
| "exec_arm Op_Jump en F fault pc vm = step_jump F pc vm"
| "exec_arm Op_JumpIfFalse en F fault pc vm = step_jump_if (\<lambda>v. \<not> is_truthy (en_num en) v) F pc vm"
| "exec_arm Op_JumpIfTrue en F fault pc vm = step_jump_if (is_truthy (en_num en)) F pc vm"
| "exec_arm Op_JumpIfNotNil en F fault pc vm = step_jump_if (\<lambda>v. \<not> rval_eq (en_num en) v RNil) F pc vm"
| "exec_arm Op_Loop en F fault pc vm = step_jump F pc vm"
| "exec_arm Op_JumpIfArgSupplied en F fault pc vm = VOutside"
| "exec_arm Op_CheckParam en F fault pc vm = VOutside"
| "exec_arm Op_Call en F fault pc vm = VOutside"
| "exec_arm Op_CallMethod en F fault pc vm = VOutside"
| "exec_arm Op_CallMethodSpread en F fault pc vm = VOutside"
| "exec_arm Op_Return en F fault pc vm = step_return vm"
| "exec_arm Op_Closure en F fault pc vm = VOutside"
| "exec_arm Op_NewArray en F fault pc vm = VOutside"
| "exec_arm Op_NewObject en F fault pc vm = VOutside"
| "exec_arm Op_NewMap en F fault pc vm = VOutside"
| "exec_arm Op_MapEntry en F fault pc vm = VOutside"
| "exec_arm Op_Spread en F fault pc vm = VOutside"
| "exec_arm Op_SpreadArgs en F fault pc vm = VOutside"
| "exec_arm Op_AppendArray en F fault pc vm = VOutside"
| "exec_arm Op_AppendObject en F fault pc vm = VOutside"
| "exec_arm Op_SpreadObject en F fault pc vm = VOutside"
| "exec_arm Op_CallSpread en F fault pc vm = VOutside"
| "exec_arm Op_GetIndex en F fault pc vm = VOutside"
| "exec_arm Op_SetIndex en F fault pc vm = VOutside"
| "exec_arm Op_GetProp en F fault pc vm = VOutside"
| "exec_arm Op_SetProp en F fault pc vm = VOutside"
| "exec_arm Op_GetPropOpt en F fault pc vm = VOutside"
| "exec_arm Op_Class en F fault pc vm = VOutside"
| "exec_arm Op_DefineInterface en F fault pc vm = VOutside"
| "exec_arm Op_Method en F fault pc vm = VOutside"
| "exec_arm Op_GetSuper en F fault pc vm = VOutside"
| "exec_arm Op_InstanceOf en F fault pc vm = step_binop en fault BInstanceOf vm"
| "exec_arm Op_InstanceOfType en F fault pc vm = step_instance_of_type F pc vm"
| "exec_arm Op_Template en F fault pc vm = VOutside"
| "exec_arm Op_Await en F fault pc vm = VOutside"
| "exec_arm Op_Yield en F fault pc vm = VOutside"
| "exec_arm Op_MakeGenerator en F fault pc vm = VOutside"
| "exec_arm Op_Propagate en F fault pc vm = VOutside"
| "exec_arm Op_Unwrap en F fault pc vm = VOutside"
| "exec_arm Op_Import en F fault pc vm = VOutside"
| "exec_arm Op_GetIter en F fault pc vm = VOutside"
| "exec_arm Op_IterNext en F fault pc vm = VOutside"
| "exec_arm Op_IterClose en F fault pc vm = VOutside"
| "exec_arm Op_IterSnapshot en F fault pc vm = VOutside"
| "exec_arm Op_ArrayLen en F fault pc vm = VOutside"
| "exec_arm Op_GetLocalCell en F fault pc vm = VOutside"
| "exec_arm Op_SetLocalCell en F fault pc vm = VOutside"
| "exec_arm Op_FreshCell en F fault pc vm = VOutside"
| "exec_arm Op_CheckArrayDestructure en F fault pc vm = VOutside"
| "exec_arm Op_CheckObjectDestructure en F fault pc vm = VOutside"
| "exec_arm Op_ArrayElem en F fault pc vm = VOutside"
| "exec_arm Op_ObjectKey en F fault pc vm = VOutside"
| "exec_arm Op_ArrayRest en F fault pc vm = VOutside"
| "exec_arm Op_ObjectRest en F fault pc vm = VOutside"
| "exec_arm Op_MatchArray en F fault pc vm = VOutside"
| "exec_arm Op_MatchObject en F fault pc vm = VOutside"
| "exec_arm Op_MatchHasKey en F fault pc vm = VOutside"
| "exec_arm Op_MatchRange en F fault pc vm = VOutside"
| "exec_arm Op_MatchNoArm en F fault pc vm = VOutside"
| "exec_arm Op_DefineExport en F fault pc vm = VOutside"
| "exec_arm Op_BitAnd en F fault pc vm = step_binop en fault BBitAnd vm"
| "exec_arm Op_BitOr en F fault pc vm = step_binop en fault BBitOr vm"
| "exec_arm Op_BitXor en F fault pc vm = step_binop en fault BBitXor vm"
| "exec_arm Op_Shl en F fault pc vm = step_binop en fault BShl vm"
| "exec_arm Op_Shr en F fault pc vm = step_binop en fault BShr vm"
| "exec_arm Op_BitNot en F fault pc vm = step_unop en UBitNot vm"
| "exec_arm Op_WrapAdd en F fault pc vm = step_binop en fault BWrapAdd vm"
| "exec_arm Op_WrapSub en F fault pc vm = step_binop en fault BWrapSub vm"
| "exec_arm Op_WrapMul en F fault pc vm = step_binop en fault BWrapMul vm"
| "exec_arm Op_CheckLocal en F fault pc vm = VOutside"
| "exec_arm Op_MatchVariant en F fault pc vm = VOutside"
| "exec_arm Op_VariantElem en F fault pc vm = VOutside"
| "exec_arm Op_VariantField en F fault pc vm = VOutside"
| "exec_arm Op_MatchVariantArity en F fault pc vm = VOutside"
| "exec_arm Op_MatchVariantHasField en F fault pc vm = VOutside"
| "exec_arm Op_CallNamed en F fault pc vm = VOutside"
| "exec_arm Op_AppendNamedArg en F fault pc vm = VOutside"
| "exec_arm Op_AppendPosArg en F fault pc vm = VOutside"
| "exec_arm Op_AppendSpreadArg en F fault pc vm = VOutside"
| "exec_arm Op_CallNamedSpread en F fault pc vm = VOutside"
| "exec_arm Op_Break en F fault pc vm = VOutside"
| "exec_arm Op_DeferPush en F fault pc vm = VOutside"
| "exec_arm Op_DeferPushMethod en F fault pc vm = VOutside"
| "exec_arm Op_CallElided en F fault pc vm = VOutside"

definition vm_step :: "'d engine \<Rightarrow> chunk \<Rightarrow> 'd vm \<Rightarrow> 'd vm_out" where
  "vm_step en F vm =
     (case Option.bind (vec_get (c_code F) (vm_ip vm)) from_u8 of
        None \<Rightarrow> VFault
      | Some op \<Rightarrow> exec_arm op en F (vm_ip vm) (vm_ip vm + 1) (vm\<lparr>vm_ip := vm_ip vm + 1 + operand_width op\<rparr>))"

text \<open>A fresh root frame: \<open>Fiber::new\<close> reserves the slots as \<open>nil\<close>.\<close>

definition vm_start :: "chunk \<Rightarrow> 'd vm" where
  "vm_start F = \<lparr>vm_ip = 0, vm_stack = [], vm_locals = replicate (unat (c_slot_count F)) RNil, vm_globals = globals_new,
     vm_global_caches = (\<lambda>_. None), vm_arith_caches = (\<lambda>_. None), vm_arrays = []\<rparr>"

fun vm_run :: "nat \<Rightarrow> 'd engine \<Rightarrow> chunk \<Rightarrow> 'd vm \<Rightarrow> 'd vm_out" where
  "vm_run 0 en F vm = VNext vm"
| "vm_run (Suc k) en F vm = (case vm_step en F vm of VNext vm' \<Rightarrow> vm_run k en F vm' | out \<Rightarrow> out)"

end
