(* ===== verification/TreeWalk.thy ===== *)
theory TreeWalk
  imports Compiler ValueVm
begin

text \<open>
  The tree-walking interpreter (\<open>src/src/interp.rs\<close>) on the fragment of the compiler:
  \<open>eval_expr\<close> and \<open>assign_to\<close> on expressions, \<open>exec_stmt\<close> and \<open>exec\<close> on statements, over
  the lexical environments of \<open>Environment\<close>.

  An expression always ends, so \<open>eval_expr\<close> recurses over it.  A statement may loop, so
  \<open>exec_stmt\<close> takes a bound on the iterations of each loop and answers \<open>None\<close> when a loop
  exceeds it.  An expression of another kind answers \<open>TOutside\<close>.

  \<open>ast_of\<close> is the tree that the interpreter's own parser (\<open>src/src/parser.rs\<close>) builds for a
  syntax tree of the compiler: a compound assignment is an assignment of a binary operation.
\<close>

section \<open>States and results\<close>

record 'd tw =
  tw_envs :: "('d rval, unit) env_store"
  tw_arrays :: "'d rval list list"

datatype ('a, 'd) tw_out = TOk 'a "'d tw" | TRaise "'d run_error" "'d tw" | THang | TFault | TOutside

fun tw_bind :: "('a, 'd) tw_out \<Rightarrow> ('a \<Rightarrow> 'd tw \<Rightarrow> ('b, 'd) tw_out) \<Rightarrow> ('b, 'd) tw_out" where
  "tw_bind (TOk v st) k = k v st"
| "tw_bind (TRaise e st) k = TRaise e st"
| "tw_bind THang k = THang"
| "tw_bind TFault k = TFault"
| "tw_bind TOutside k = TOutside"

definition tw_outcome :: "('d outcome, 'd arith_error) result option \<Rightarrow> 'd tw \<Rightarrow> ('d rval, 'd) tw_out" where
  "tw_outcome r st =
     (case r of
        None \<Rightarrow> THang
      | Some (Ok (Value v)) \<Rightarrow> TOk v st
      | Some (Ok (NewArray vs)) \<Rightarrow> TOk (RArray (length (tw_arrays st))) (st\<lparr>tw_arrays := tw_arrays st @ [vs]\<rparr>)
      | Some (Err e) \<Rightarrow> TRaise (OperatorError e) st
      | Some Panic \<Rightarrow> TFault)"

section \<open>Expressions\<close>

definition assign_to :: "expr \<Rightarrow> 'd rval \<Rightarrow> nat \<Rightarrow> 'd tw \<Rightarrow> ('d rval, 'd) tw_out" where
  "assign_to target v env st =
     (case ex_kind target of
        EIdent name \<Rightarrow>
          (case env_assign (tw_envs st) env name v of
             Ok envs \<Rightarrow> TOk v (st\<lparr>tw_envs := envs\<rparr>)
           | Err Undefined \<Rightarrow> TRaise (BindingError (AssignUndefined name)) st
           | Err Immutable \<Rightarrow> TRaise (BindingError (ImmutableBinding name)) st
           | Panic \<Rightarrow> TFault)
      | EIndex _ _ \<Rightarrow> TOutside
      | EMember _ _ \<Rightarrow> TOutside
      | _ \<Rightarrow> TRaise InvalidTarget st)"

definition reserved_ident :: "bin_op \<Rightarrow> expr \<Rightarrow> rstring option" where
  "reserved_ident op rhs =
     (case ex_kind rhs of
        EIdent name \<Rightarrow> if op = BInstanceOf \<and> is_reserved_instanceof_type_name name then Some name else None
      | _ \<Rightarrow> None)"

fun eval_expr :: "'d engine \<Rightarrow> nat \<Rightarrow> expr \<Rightarrow> nat \<Rightarrow> 'd tw \<Rightarrow> ('d rval, 'd) tw_out"
  and eval_kind :: "'d engine \<Rightarrow> nat \<Rightarrow> expr_kind \<Rightarrow> nat \<Rightarrow> 'd tw \<Rightarrow> ('d rval, 'd) tw_out" where
  "eval_expr en d (Expr k sp) env st =
     (if d + 1 > EXPR_NEST_LIMIT then TRaise DepthExceeded st else eval_kind en (d + 1) k env st)"
| "eval_kind en d (EInt i) env st = TOk (RInt i) st"
| "eval_kind en d (EFloat w) env st = TOk (RFloat (f64_from_bits w)) st"
| "eval_kind en d (EStr s) env st = TOk (RStr s) st"
| "eval_kind en d (EBool b) env st = TOk (RBool b) st"
| "eval_kind en d ENil env st = TOk RNil st"
| "eval_kind en d (EIdent name) env st =
     (case env_get (tw_envs st) env name of
        Some v \<Rightarrow> TOk v st
      | None \<Rightarrow> TRaise (BindingError (UndefinedVariable name)) st)"
| "eval_kind en d (EAssign target v) env st = tw_bind (eval_expr en d v env st) (\<lambda>x. assign_to target x env)"
| "eval_kind en d (EUnary op e) env st =
     tw_bind (eval_expr en d e env st) (\<lambda>v. tw_outcome (Some (one (apply_unop (en_num en) op v))))"
| "eval_kind en d (EBinary op lhs rhs) env st =
     (if op = BAnd then tw_bind (eval_expr en d lhs env st) (\<lambda>l st1.
        if is_truthy (en_num en) l then eval_expr en d rhs env st1 else TOk l st1)
      else if op = BOr then tw_bind (eval_expr en d lhs env st) (\<lambda>l st1.
        if is_truthy (en_num en) l then TOk l st1 else eval_expr en d rhs env st1)
      else if op = BCoalesce then tw_bind (eval_expr en d lhs env st) (\<lambda>l st1.
        if rval_eq (en_num en) l RNil then eval_expr en d rhs env st1 else TOk l st1)
      else (case reserved_ident op rhs of
          Some name \<Rightarrow> tw_bind (eval_expr en d lhs env st) (\<lambda>l.
            TOk (RBool (case instanceof_reserved_type l name of Some b \<Rightarrow> b | None \<Rightarrow> False)))
        | None \<Rightarrow> tw_bind (eval_expr en d lhs env st) (\<lambda>l st1. tw_bind (eval_expr en d rhs env st1) (\<lambda>r.
            tw_outcome (if op = BInstanceOf then Some (en_inst en l r) else apply_binop (en_num en) op l r)))))"
| "eval_kind en d (ETernary c a b) env st = tw_bind (eval_expr en d c env st) (\<lambda>v st1.
     if is_truthy (en_num en) v then eval_expr en d a env st1 else eval_expr en d b env st1)"
| "eval_kind en d (ERange a b inclusive step) env st =
     tw_bind (eval_expr en d a env st) (\<lambda>lo st1. tw_bind (eval_expr en d b env st1) (\<lambda>hi st2.
     case step of
       Some e \<Rightarrow> tw_bind (eval_expr en d e env st2) (\<lambda>s.
         tw_outcome (map_option range_outcome (materialize_range_stepped lo hi inclusive (Some s))))
     | None \<Rightarrow> tw_outcome (map_option range_outcome (materialize_range_stepped lo hi inclusive None)) st2))"
| "eval_kind en d (EParen e) env st = eval_expr en d e env st"
| "eval_kind en d (ECall _ _ _) env st = TOutside"
| "eval_kind en d (EArrow _) env st = TOutside"
| "eval_kind en d (EArray _) env st = TOutside"
| "eval_kind en d (EIndex _ _) env st = TOutside"
| "eval_kind en d (EObject _) env st = TOutside"
| "eval_kind en d (EMap _) env st = TOutside"
| "eval_kind en d (EMember _ _) env st = TOutside"
| "eval_kind en d (EOptMember _ _) env st = TOutside"
| "eval_kind en d (ETry _) env st = TOutside"
| "eval_kind en d (EUnwrap _) env st = TOutside"
| "eval_kind en d (ETemplate _) env st = TOutside"
| "eval_kind en d (EMatch _) env st = TOutside"
| "eval_kind en d (EAwait _) env st = TOutside"
| "eval_kind en d (EYield _) env st = TOutside"

section \<open>Statements\<close>

datatype stmt =
    StmtExpr expr
  | StmtLet rstring "expr option" bool
  | StmtBlock "stmt list"
  | StmtIf expr "stmt list" "stmt list option"
  | StmtWhile expr "stmt list"
  | StmtReturn "expr option"
  | StmtBreak
  | StmtContinue

datatype 'd flow = FNormal | FReturn "'d rval" | FBreak | FContinue

text \<open>Sequencing in the presence of the iteration bound.\<close>

definition tw_then :: "('a, 'd) tw_out option \<Rightarrow> ('a \<Rightarrow> 'd tw \<Rightarrow> ('b, 'd) tw_out option) \<Rightarrow> ('b, 'd) tw_out option" where
  "tw_then m k =
     (case m of
        None \<Rightarrow> None
      | Some (TOk v st) \<Rightarrow> k v st
      | Some (TRaise e st) \<Rightarrow> Some (TRaise e st)
      | Some THang \<Rightarrow> Some THang
      | Some TFault \<Rightarrow> Some TFault
      | Some TOutside \<Rightarrow> Some TOutside)"

definition in_child :: "nat \<Rightarrow> 'd tw \<Rightarrow> (nat \<Rightarrow> 'd tw \<Rightarrow> 'b) \<Rightarrow> 'b" where
  "in_child env st k = (case env_child (tw_envs st) env of (child, envs) \<Rightarrow> k child (st\<lparr>tw_envs := envs\<rparr>))"

definition eval_opt :: "'d engine \<Rightarrow> expr option \<Rightarrow> nat \<Rightarrow> 'd tw \<Rightarrow> ('d rval, 'd) tw_out" where
  "eval_opt en e env st = (case e of Some e \<Rightarrow> eval_expr en 0 e env st | None \<Rightarrow> TOk RNil st)"

definition define_in :: "nat \<Rightarrow> rstring \<Rightarrow> 'd rval \<Rightarrow> bool \<Rightarrow> 'd tw \<Rightarrow> ('d flow, 'd) tw_out" where
  "define_in env name v mutable st =
     (case env_define (tw_envs st) env name v mutable of
        Ok envs \<Rightarrow> TOk FNormal (st\<lparr>tw_envs := envs\<rparr>)
      | Err (AlreadyDefined x) \<Rightarrow> TRaise (BindingError (AlreadyDefinedHere x)) st
      | Panic \<Rightarrow> TFault)"

fun exec_stmt :: "nat \<Rightarrow> 'd engine \<Rightarrow> stmt \<Rightarrow> nat \<Rightarrow> 'd tw \<Rightarrow> ('d flow, 'd) tw_out option"
  and exec :: "nat \<Rightarrow> 'd engine \<Rightarrow> stmt list \<Rightarrow> nat \<Rightarrow> 'd tw \<Rightarrow> ('d flow, 'd) tw_out option" where
  "exec_stmt fuel en (StmtExpr e) env st = Some (tw_bind (eval_expr en 0 e env st) (\<lambda>_. TOk FNormal))"
| "exec_stmt fuel en (StmtLet name v mutable) env st =
     Some (tw_bind (eval_opt en v env st) (\<lambda>x. define_in env name x mutable))"
| "exec_stmt fuel en (StmtBlock ss) env st = in_child env st (\<lambda>child. exec fuel en ss child)"
| "exec_stmt fuel en (StmtIf c thn els) env st = tw_then (Some (eval_expr en 0 c env st)) (\<lambda>v st1.
     if is_truthy (en_num en) v then in_child env st1 (\<lambda>child. exec fuel en thn child)
     else (case els of
         Some ss \<Rightarrow> in_child env st1 (\<lambda>child. exec fuel en ss child)
       | None \<Rightarrow> Some (TOk FNormal st1)))"
| "exec_stmt 0 en (StmtWhile c body) env st = None"
| "exec_stmt (Suc fuel) en (StmtWhile c body) env st = tw_then (Some (eval_expr en 0 c env st)) (\<lambda>v st1.
     if \<not> is_truthy (en_num en) v then Some (TOk FNormal st1)
     else tw_then (in_child env st1 (\<lambda>child. exec (Suc fuel) en body child)) (\<lambda>fl st2.
       case fl of
         FBreak \<Rightarrow> Some (TOk FNormal st2)
       | FReturn x \<Rightarrow> Some (TOk (FReturn x) st2)
       | _ \<Rightarrow> exec_stmt fuel en (StmtWhile c body) env st2))"
| "exec_stmt fuel en (StmtReturn e) env st = Some (tw_bind (eval_opt en e env st) (\<lambda>v. TOk (FReturn v)))"
| "exec_stmt fuel en StmtBreak env st = Some (TOk FBreak st)"
| "exec_stmt fuel en StmtContinue env st = Some (TOk FContinue st)"
| "exec fuel en [] env st = Some (TOk FNormal st)"
| "exec fuel en (s # ss) env st = tw_then (exec_stmt fuel en s env st) (\<lambda>fl st1.
     case fl of FNormal \<Rightarrow> exec fuel en ss env st1 | _ \<Rightarrow> Some (TOk fl st1))"

section \<open>Programs\<close>

text \<open>The builtins in a scope of their own, the module below it.\<close>

definition global_env :: "(nat \<times> ('d rval, unit) env_store) option" where
  "global_env = (case env_global \<lparr>es_scopes = [], es_defer_lists = []\<rparr> of (g, st) \<Rightarrow>
     map_option (Pair g) (define_each st g BUILTINS False))"

definition run_program :: "nat \<Rightarrow> 'd engine \<Rightarrow> stmt list \<Rightarrow> ('d flow, 'd) tw_out option" where
  "run_program fuel en ss =
     (case global_env of
        None \<Rightarrow> Some TFault
      | Some (g, envs) \<Rightarrow> in_child g \<lparr>tw_envs = envs, tw_arrays = []\<rparr> (\<lambda>env. exec fuel en ss env))"

section \<open>The two parsers\<close>

definition desugar_op :: "assign_tok \<Rightarrow> bin_op option" where
  "desugar_op tok = (case tok of
      TokEq \<Rightarrow> None | TokPlusEq \<Rightarrow> Some BAdd | TokMinusEq \<Rightarrow> Some BSub | TokStarEq \<Rightarrow> Some BMul | TokSlashEq \<Rightarrow> Some BDiv)"

primrec literal_kind :: "literal \<Rightarrow> expr_kind" where
  "literal_kind (NumInt i) = EInt i"
| "literal_kind (NumFloat w) = EFloat w"
| "literal_kind (StrLit s) = EStr s"
| "literal_kind (BoolLit b) = EBool b"
| "literal_kind NilLit = ENil"

definition make_binary :: "expr \<Rightarrow> bin_op \<Rightarrow> expr \<Rightarrow> expr" where
  "make_binary left op right = Expr (EBinary op left right) (span_new (sp_start (ex_span left)) (sp_end (ex_span right)))"

fun ast_of :: "cst \<Rightarrow> expr" where
  "ast_of (CLiteral l nd) = Expr (literal_kind l) (code_span nd)"
| "ast_of (CNameRef name nd) = Expr (EIdent name) (code_span nd)"
| "ast_of (CUnary op e nd) = Expr (EUnary op (ast_of e)) (code_span nd)"
| "ast_of (CBinary op a b nd) = Expr (EBinary op (ast_of a) (ast_of b)) (code_span nd)"
| "ast_of (CParen e nd) = Expr (EParen (ast_of e)) (code_span nd)"
| "ast_of (CAssign tok target v nd) =
     Expr (EAssign (ast_of target) (case desugar_op tok of
         Some op \<Rightarrow> make_binary (ast_of target) op (ast_of v) | None \<Rightarrow> ast_of v)) (code_span nd)"
| "ast_of (CRange a b inclusive step nd) =
     Expr (ERange (ast_of a) (ast_of b) inclusive (case step of Some s \<Rightarrow> Some (ast_of s) | None \<Rightarrow> None)) (code_span nd)"
| "ast_of (CTernary c a b nd) = Expr (ETernary (ast_of c) (ast_of a) (ast_of b)) (code_span nd)"

text \<open>An \<open>else if\<close> is the one statement of the \<open>else\<close> branch; the block of an \<open>else\<close> is the branch.\<close>

fun stmt_of :: "cst_stmt \<Rightarrow> stmt" where
  "stmt_of (SExpr e nd) = StmtExpr (ast_of e)"
| "stmt_of (SLet is_const name init nd) = StmtLet name (map_option ast_of init) (\<not> is_const)"
| "stmt_of (SBlock ss nd) = StmtBlock (map stmt_of ss)"
| "stmt_of (SIf c thn els nd) = StmtIf (ast_of c) (map stmt_of thn)
     (case els of
        None \<Rightarrow> None
      | Some s \<Rightarrow> Some (case s of SBlock ss _ \<Rightarrow> map stmt_of ss | _ \<Rightarrow> [stmt_of s]))"
| "stmt_of (SWhile c body nd) = StmtWhile (ast_of c) (map stmt_of body)"
| "stmt_of (SBreak nd) = StmtBreak"
| "stmt_of (SContinue nd) = StmtContinue"
| "stmt_of (SReturn e nd) = StmtReturn (map_option ast_of e)"

end
