(* ===== verification/CompilerProps.thy ===== *)
theory CompilerProps
  imports Compiler
begin

text \<open>
  What compiling does to the chunk.  A compiler method only appends: it keeps the code that is there,
  the constants and the resolver's result (\<open>extends\<close>); an expression keeps the enclosing loops as
  they are, a statement adds the open holes of its \<open>break\<close>s to the innermost loop (\<open>opens\<close>).  The
  facts are proved once for the emitters and the ways in which methods are composed.
\<close>

declare op_as_u8.simps [simp del]

abbreviation code_of :: "compiler \<Rightarrow> bytes" where "code_of st \<equiv> c_code (co_chunk st)"
abbreviation clen :: "compiler \<Rightarrow> nat" where "clen st \<equiv> length (c_code (co_chunk st))"
abbreviation consts_of :: "compiler \<Rightarrow> val list" where "consts_of st \<equiv> c_consts (co_chunk st)"
abbreviation overflowed :: "compiler \<Rightarrow> bool" where "overflowed st \<equiv> c_overflow (co_chunk st) \<noteq> None"

section \<open>Extension\<close>

definition extends :: "compiler \<Rightarrow> compiler \<Rightarrow> bool" where
  "extends st st' \<longleftrightarrow> clen st \<le> clen st' \<and> (\<forall>p < clen st. code_of st' ! p = code_of st ! p)
     \<and> (\<exists>cs. consts_of st' = consts_of st @ cs)
     \<and> co_resolved st' = co_resolved st \<and> co_cells st' = co_cells st
     \<and> c_slot_count (co_chunk st') = c_slot_count (co_chunk st)
     \<and> (\<not> overflowed st' \<longrightarrow> \<not> overflowed st \<and> (length (consts_of st) \<le> 65536 \<longrightarrow> length (consts_of st') \<le> 65536))"

lemma code_extends_refl [simp]: "extends st st"
  by (simp add: extends_def)

lemma code_extends_trans [trans]: "extends a b \<Longrightarrow> extends b c \<Longrightarrow> extends a c"
  unfolding extends_def by fastforce

lemma extends_overflow: "extends a b \<Longrightarrow> \<not> overflowed b \<Longrightarrow> \<not> overflowed a"
  by (simp add: extends_def)

lemma extends_len: "extends a b \<Longrightarrow> clen a \<le> clen b"
  by (simp add: extends_def)

lemma extends_resolved: "extends a b \<Longrightarrow> co_resolved b = co_resolved a \<and> co_cells b = co_cells a"
  by (simp add: extends_def)

text \<open>Fields that \<open>extends\<close> does not read.\<close>

lemma extends_loops [simp]:
  "extends (st\<lparr>co_loops := l\<rparr>) st' = extends st st'" "extends st (st'\<lparr>co_loops := l\<rparr>) = extends st st'"
  "extends (st\<lparr>co_depth := d\<rparr>) st' = extends st st'" "extends st (st'\<lparr>co_depth := d\<rparr>) = extends st st'"
  by (simp_all add: extends_def)

section \<open>Emitters\<close>

lemma with_chunk_simps [simp]:
  "co_chunk (with_chunk f st) = f (co_chunk st)" "co_resolved (with_chunk f st) = co_resolved st"
  "co_loops (with_chunk f st) = co_loops st" "co_cells (with_chunk f st) = co_cells st"
  "co_depth (with_chunk f st) = co_depth st"
  by (simp_all add: with_chunk_def)

lemma emit_fields [simp]:
  "c_code (emit op sp c) = c_code c @ [op_as_u8 op]"
  "c_code (emit_u16 op w sp c) = c_code c @ op_as_u8 op # to_le_bytes 2 w"
  "c_code (emit_u8 op b sp c) = c_code c @ [op_as_u8 op, b]"
  "c_code (emit_u16_u8 op w b sp c) = c_code c @ op_as_u8 op # to_le_bytes 2 w @ [b]"
  "c_consts (emit op sp c) = c_consts c" "c_consts (emit_u16 op w sp c) = c_consts c"
  "c_consts (emit_u8 op b sp c) = c_consts c" "c_consts (emit_u16_u8 op w b sp c) = c_consts c"
  "c_overflow (emit op sp c) = c_overflow c" "c_overflow (emit_u16 op w sp c) = c_overflow c"
  "c_overflow (emit_u8 op b sp c) = c_overflow c" "c_overflow (emit_u16_u8 op w b sp c) = c_overflow c"
  "c_slot_count (emit op sp c) = c_slot_count c" "c_slot_count (emit_u16 op w sp c) = c_slot_count c"
  "c_slot_count (emit_u8 op b sp c) = c_slot_count c" "c_slot_count (emit_u16_u8 op w b sp c) = c_slot_count c"
  by (simp_all add: emit_defs)

lemma extends_emit [simp]:
  "extends st (with_chunk (emit op sp) st)" "extends st (with_chunk (emit_u16 op w sp) st)"
  "extends st (with_chunk (emit_u8 op b sp) st)"
  by (simp_all add: extends_def nth_append)

lemma add_const_keeps:
  assumes "add_const deq v c = (c', i)"
  shows "c_code c' = c_code c" "\<exists>cs. c_consts c' = c_consts c @ cs" "c_slot_count c' = c_slot_count c"
    "c_overflow c' = None \<Longrightarrow> c_overflow c = None \<and> (length (c_consts c) \<le> 65536 \<longrightarrow> length (c_consts c') \<le> 65536)"
  using assms
  by (auto simp: add_const_def narrow_index_def record_overflow_def Let_def split: option.splits if_splits)

lemma emit_with_const_fields [simp]:
  "co_resolved (emit_with_const deq op v sp st) = co_resolved st"
  "co_loops (emit_with_const deq op v sp st) = co_loops st"
  "co_cells (emit_with_const deq op v sp st) = co_cells st"
  "co_depth (emit_with_const deq op v sp st) = co_depth st"
  by (simp_all add: emit_with_const_def case_prod_beta)

text \<open>The index that an instruction with a constant carries names the constant.\<close>

lemma emit_with_const_code:
  assumes "\<And>d. v \<noteq> VDecimal d"
  obtains idx :: u16 where "code_of (emit_with_const deq op v sp st) = code_of st @ op_as_u8 op # to_le_bytes 2 idx"
    "\<not> overflowed (emit_with_const deq op v sp st)
      \<Longrightarrow> vec_get (consts_of (emit_with_const deq op v sp st)) (unat idx) = Some v"
proof (cases "add_const deq v (co_chunk st)")
  case (Pair c idx)
  show thesis
  proof (rule that [of idx])
    show "code_of (emit_with_const deq op v sp st) = code_of st @ op_as_u8 op # to_le_bytes 2 idx"
      using add_const_keeps(1) [OF Pair] by (simp add: emit_with_const_def Pair)
    assume "\<not> overflowed (emit_with_const deq op v sp st)"
    then have "c_overflow c = None" by (simp add: emit_with_const_def Pair)
    from add_const_slot [OF Pair this] assms
    show "vec_get (consts_of (emit_with_const deq op v sp st)) (unat idx) = Some v"
      by (simp add: emit_with_const_def Pair)
  qed
qed

lemma extends_emit_with_const [simp]: "extends st (emit_with_const deq op v sp st)"
proof (cases "add_const deq v (co_chunk st)")
  case (Pair c idx)
  with add_const_keeps [OF Pair] show ?thesis
    by (auto simp: extends_def emit_with_const_def nth_append)
qed

lemma emit_define_global_fields [simp]:
  "co_resolved (emit_define_global deq name sp st) = co_resolved st"
  "co_loops (emit_define_global deq name sp st) = co_loops st"
  "co_cells (emit_define_global deq name sp st) = co_cells st"
  "co_depth (emit_define_global deq name sp st) = co_depth st"
  by (simp_all add: emit_define_global_def case_prod_beta)

lemma emit_define_global_code:
  obtains idx :: u16 where "code_of (emit_define_global deq name sp st) = code_of st @ op_as_u8 Op_DefineGlobal # to_le_bytes 2 idx
      @ [if global_mutable (co_resolved st) name then 1 else 0]"
    "\<not> overflowed (emit_define_global deq name sp st)
      \<Longrightarrow> vec_get (consts_of (emit_define_global deq name sp st)) (unat idx) = Some (VStr name)"
proof (cases "add_const deq (VStr name) (co_chunk st)")
  case (Pair c idx)
  show thesis
  proof (rule that [of idx])
    show "code_of (emit_define_global deq name sp st) = code_of st @ op_as_u8 Op_DefineGlobal # to_le_bytes 2 idx
        @ [if global_mutable (co_resolved st) name then 1 else 0]"
      using add_const_keeps(1) [OF Pair] by (simp add: emit_define_global_def Pair)
    assume "\<not> overflowed (emit_define_global deq name sp st)"
    then have "c_overflow c = None" by (simp add: emit_define_global_def Pair)
    from add_const_slot [OF Pair this]
    show "vec_get (consts_of (emit_define_global deq name sp st)) (unat idx) = Some (VStr name)"
      by (simp add: emit_define_global_def Pair)
  qed
qed

lemma extends_emit_define_global [simp]: "extends st (emit_define_global deq name sp st)"
proof (cases "add_const deq (VStr name) (co_chunk st)")
  case (Pair c idx)
  with add_const_keeps [OF Pair] show ?thesis
    by (auto simp: extends_def emit_define_global_def nth_append)
qed

lemma emit_local_simps [simp]:
  "co_cells st = {} \<Longrightarrow> emit_get_local slot sp st = with_chunk (emit_u16 Op_GetLocal slot sp) st"
  "co_cells st = {} \<Longrightarrow> emit_set_local slot sp st = with_chunk (emit_u16 Op_SetLocal slot sp) st"
  by (simp_all add: emit_get_local_def emit_set_local_def)

lemma emit_local_fields [simp]:
  "extends st (emit_get_local slot sp st)" "co_loops (emit_get_local slot sp st) = co_loops st"
  "co_depth (emit_get_local slot sp st) = co_depth st"
  "extends st (emit_set_local slot sp st)" "co_loops (emit_set_local slot sp st) = co_loops st"
  "co_depth (emit_set_local slot sp st) = co_depth st"
  by (simp_all add: emit_get_local_def emit_set_local_def)

section \<open>Jumps\<close>

text \<open>A jump is emitted with its hole at the end of the code.\<close>

lemma jump_from_cases:
  obtains st' where "jump_from op sp st = (st', clen st + 1)" "extends st st'"
    "code_of st' = code_of st @ op_as_u8 op # to_le_bytes 2 (0 :: u16)" "co_loops st' = co_loops st"
    "co_depth st' = co_depth st" "consts_of st' = consts_of st"
  by (rule that [of "fst (jump_from op sp st)"])
    (auto simp: jump_from_def emit_jump_def Let_def push_code_def record_span_def extends_def nth_append to_le_2 nth_Cons' split: nat.splits)

text \<open>Filling a hole: the displacement leads from behind the operand to the end of the code.\<close>

definition fills :: "nat \<Rightarrow> compiler \<Rightarrow> compiler \<Rightarrow> bool" where
  "fills site st st' \<longleftrightarrow> clen st' = clen st \<and> site + 2 \<le> clen st
     \<and> (\<forall>p. p < site \<or> site + 2 \<le> p \<longrightarrow> code_of st' ! p = code_of st ! p)
     \<and> consts_of st' = consts_of st \<and> co_resolved st' = co_resolved st \<and> co_cells st' = co_cells st
     \<and> co_loops st' = co_loops st \<and> co_depth st' = co_depth st \<and> c_slot_count (co_chunk st') = c_slot_count (co_chunk st)
     \<and> (\<not> overflowed st' \<longrightarrow> \<not> overflowed st \<and> read_i16 (co_chunk st') site = Some (int (clen st) - int (site + 2)))"

lemma patch_jump_keeps:
  "patch_jump site c = Some c' \<Longrightarrow> c_consts c' = c_consts c \<and> c_slot_count c' = c_slot_count c \<and> site + 2 \<le> length (c_code c)"
  by (auto simp: patch_jump_def narrow_disp_def record_overflow_def Let_def split: if_splits)

lemma patch_site_fills: "patch_site site st = Ok st' \<Longrightarrow> fills site st st'"
proof -
  assume "patch_site site st = Ok st'"
  then obtain c where c: "patch_jump site (co_chunk st) = Some c" "st' = st\<lparr>co_chunk := c\<rparr>"
    by (auto simp: patch_site_def)
  note keeps = patch_jump_keeps [OF c(1)]
  with patch_jump_reads [of site "co_chunk st"] c show ?thesis
    by (auto simp: fills_def split: if_splits option.splits)
qed

lemma extends_fills: "extends a st \<Longrightarrow> clen a \<le> site \<Longrightarrow> fills site st st' \<Longrightarrow> extends a st'"
  by (auto simp: extends_def fills_def)

section \<open>Segments\<close>

text \<open>
  \<open>opens bs st st'\<close>: from \<open>st\<close> to \<open>st'\<close> the code grows, and \<open>bs\<close> are the holes that the segment
  leaves to the innermost loop, apart from each other.
\<close>

fun add_breaks :: "nat list \<Rightarrow> loop_ctx list \<Rightarrow> loop_ctx list" where
  "add_breaks bs [] = []"
| "add_breaks bs (ctx # outer) = ctx\<lparr>lc_break_sites := lc_break_sites ctx @ bs\<rparr> # outer"

definition sites_in :: "nat list \<Rightarrow> nat \<Rightarrow> nat \<Rightarrow> bool" where
  "sites_in bs lo hi \<longleftrightarrow> sorted_wrt (\<lambda>a b. a + 2 \<le> b) bs \<and> (\<forall>s \<in> set bs. lo \<le> s \<and> s + 2 \<le> hi)"

definition opens :: "nat list \<Rightarrow> compiler \<Rightarrow> compiler \<Rightarrow> bool" where
  "opens bs st st' \<longleftrightarrow> extends st st' \<and> co_depth st' = co_depth st \<and> co_loops st' = add_breaks bs (co_loops st)
     \<and> sites_in bs (clen st) (clen st') \<and> (co_loops st = [] \<longrightarrow> bs = [])"

definition emits :: "bytes \<Rightarrow> compiler \<Rightarrow> compiler \<Rightarrow> bool" where
  "emits bytes st st' \<longleftrightarrow> opens [] st st' \<and> code_of st' = code_of st @ bytes"

lemma add_breaks_Nil [simp]: "add_breaks [] l = l"
  by (cases l) auto

lemma add_breaks_append: "add_breaks bs2 (add_breaks bs1 l) = add_breaks (bs1 @ bs2) l"
  by (cases l) auto

lemma sites_in_Nil [simp]: "sites_in [] lo hi"
  by (simp add: sites_in_def)

lemma opens_refl [simp]: "opens [] st st"
  by (simp add: opens_def)

lemma opens_trans: "opens bs1 a b \<Longrightarrow> opens bs2 b c \<Longrightarrow> opens (bs1 @ bs2) a c"
  using code_extends_trans [of a b c] extends_len [of a b] extends_len [of b c]
  by (fastforce simp: opens_def add_breaks_append sites_in_def sorted_wrt_append)

lemma opens_unique: "opens bs a b \<Longrightarrow> opens bs' a b \<Longrightarrow> bs' = bs"
  by (cases "co_loops a") (auto simp: opens_def dest: arg_cong [where f = lc_break_sites])

lemma opens_extends: "opens bs a b \<Longrightarrow> extends a b"
  by (simp add: opens_def)

lemma opens_fills: "opens bs a st \<Longrightarrow> clen a \<le> site \<Longrightarrow> fills site st st' \<Longrightarrow> opens bs a st'"
  using extends_fills [of a st site st'] by (auto simp: opens_def fills_def)

lemma emits_opens: "emits bytes st st' \<Longrightarrow> opens [] st st'"
  by (simp add: emits_def)

lemma emits_extends: "emits bytes st st' \<Longrightarrow> extends st st'"
  by (simp add: emits_def opens_def)

lemma emits_len: "emits bytes st st' \<Longrightarrow> clen st' = clen st + length bytes"
  by (simp add: emits_def)

lemma emits_emit [simp]:
  "emits [op_as_u8 op] st (with_chunk (emit op sp) st)"
  "emits (op_as_u8 op # to_le_bytes 2 w) st (with_chunk (emit_u16 op w sp) st)"
  "emits [op_as_u8 op, b] st (with_chunk (emit_u8 op b sp) st)"
  by (simp_all add: emits_def opens_def)

lemma emits_jump:
  obtains st' where "jump_from op sp st = (st', clen st + 1)" "emits (op_as_u8 op # to_le_bytes 2 (0 :: u16)) st st'"
  by (rule jump_from_cases [of op sp st]) (auto simp: emits_def opens_def)

text \<open>In this fragment every loop knows where \<open>continue\<close> goes.\<close>

definition loops_known :: "compiler \<Rightarrow> bool" where
  "loops_known st \<longleftrightarrow> (\<forall>ctx \<in> set (co_loops st). lc_continue_target ctx \<noteq> None)"

lemma loops_known_opens: "loops_known st \<Longrightarrow> opens bs st st' \<Longrightarrow> loops_known st'"
  by (cases "co_loops st") (auto simp: loops_known_def opens_def)

lemma loops_known_fills: "fills site st st' \<Longrightarrow> loops_known st' = loops_known st"
  by (simp add: fills_def loops_known_def)

text \<open>A method that compiles an expression, and one that compiles a statement.\<close>

definition expr_action :: "action \<Rightarrow> bool" where
  "expr_action m \<longleftrightarrow> (\<forall>st st'. m st = Ok st' \<longrightarrow> opens [] st st')"

definition stmt_action :: "action \<Rightarrow> bool" where
  "stmt_action m \<longleftrightarrow> (\<forall>st st'. loops_known st \<longrightarrow> m st = Ok st' \<longrightarrow> (\<exists>bs. opens bs st st'))"

lemma expr_actionD: "expr_action m \<Longrightarrow> m st = Ok st' \<Longrightarrow> opens [] st st'"
  by (simp add: expr_action_def)

lemma stmt_actionE:
  assumes "stmt_action m" and "loops_known st" and "m st = Ok st'"
  obtains bs where "opens bs st st'"
  using assms by (auto simp: stmt_action_def)

lemma expr_stmt_action: "expr_action m \<Longrightarrow> stmt_action m"
  by (auto simp: expr_action_def stmt_action_def)

lemma opens_then: "opens [] a b \<Longrightarrow> opens bs b c \<Longrightarrow> opens bs a c"
  using opens_trans [of "[]" a b bs c] by simp

lemma opens_emits: "opens bs a b \<Longrightarrow> emits bytes b c \<Longrightarrow> opens bs a c"
  using opens_trans [of bs a b "[]" c] by (simp add: emits_def)

lemma expr_action_emit:
  "expr_action m \<Longrightarrow> (\<And>st. emits (bytes st) st (f st)) \<Longrightarrow> expr_action (\<lambda>st. res_bind (m st) (\<lambda>st1. Ok (f st1)))"
  unfolding expr_action_def by (fastforce intro: opens_emits)

section \<open>Expressions\<close>

text \<open>The stations of the two compositions with jumps.\<close>

lemma branchE:
  assumes "branch cond thn els sp st = Ok st'"
  obtains st1 st2 st3 st4 st5 st6 where "cond st = Ok st1" "emits (op_as_u8 Op_JumpIfFalse # to_le_bytes 2 (0 :: u16)) st1 st2"
    "thn st2 = Ok st3" "emits (op_as_u8 Op_Jump # to_le_bytes 2 (0 :: u16)) st3 st4" "fills (clen st1 + 1) st4 st5"
    "els st5 = Ok st6" "fills (clen st3 + 1) st6 st'"
proof -
  from assms obtain st1 where 1: "cond st = Ok st1" by (auto simp: branch_def)
  obtain st2 where 2: "jump_from Op_JumpIfFalse sp st1 = (st2, clen st1 + 1)" "emits (op_as_u8 Op_JumpIfFalse # to_le_bytes 2 (0 :: u16)) st1 st2"
    by (rule emits_jump)
  from assms 1 2 obtain st3 where 3: "thn st2 = Ok st3" by (auto simp: branch_def)
  obtain st4 where 4: "jump_from Op_Jump sp st3 = (st4, clen st3 + 1)" "emits (op_as_u8 Op_Jump # to_le_bytes 2 (0 :: u16)) st3 st4"
    by (rule emits_jump)
  from assms 1 2 3 4 obtain st5 st6 where "patch_site (clen st1 + 1) st4 = Ok st5" "els st5 = Ok st6" "patch_site (clen st3 + 1) st6 = Ok st'"
    by (auto simp: branch_def)
  with 1 2 3 4 show thesis by (intro that) (auto dest: patch_site_fills)
qed

lemma branch_opens:
  assumes "opens [] st st1" "emits b1 st1 st2" "opens bs st2 st3"
    "emits b2 st3 st4" "fills (clen st1 + 1) st4 st5" "opens bs' st5 st6" "fills (clen st3 + 1) st6 st'"
  shows "opens (bs @ bs') st st'"
proof -
  have "opens bs st1 st4"
    using opens_emits [OF opens_then [OF emits_opens [OF assms(2)] assms(3)] assms(4)] .
  from opens_fills [OF this _ assms(5)] have "opens bs st1 st5" by simp
  then have "opens (bs @ bs') st1 st6" using assms(6) by (rule opens_trans)
  moreover have "clen st1 \<le> clen st3 + 1"
    using assms(2,3) by (auto dest!: emits_len opens_extends extends_len)
  ultimately have "opens (bs @ bs') st1 st'" using assms(7) opens_fills by blast
  then show ?thesis using assms(1) by (rule opens_then [rotated])
qed

lemma short_circuitE:
  assumes "short_circuit jop lhs rhs sp st = Ok st'"
  obtains st1 st2 st3 st4 where "lhs st = Ok st1" "emits [op_as_u8 Op_Dup] st1 (with_chunk (emit Op_Dup sp) st1)"
    "emits (op_as_u8 jop # to_le_bytes 2 (0 :: u16)) (with_chunk (emit Op_Dup sp) st1) st2"
    "emits [op_as_u8 Op_Pop] st2 st3" "rhs st3 = Ok st4" "fills (clen st1 + 2) st4 st'"
proof -
  from assms obtain st1 where 1: "lhs st = Ok st1" by (auto simp: short_circuit_def)
  obtain st2 where 2: "jump_from jop sp (with_chunk (emit Op_Dup sp) st1) = (st2, clen (with_chunk (emit Op_Dup sp) st1) + 1)"
    "emits (op_as_u8 jop # to_le_bytes 2 (0 :: u16)) (with_chunk (emit Op_Dup sp) st1) st2"
    by (rule emits_jump)
  from assms 1 2 obtain st4 where "rhs (with_chunk (emit Op_Pop sp) st2) = Ok st4" "patch_site (clen st1 + 2) st4 = Ok st'"
    by (auto simp: short_circuit_def)
  with 1 2(2) show thesis by (intro that) (auto dest: patch_site_fills)
qed

lemma short_circuit_action:
  assumes "expr_action lhs" and "expr_action rhs"
  shows "expr_action (short_circuit jop lhs rhs sp)"
  unfolding expr_action_def
proof (intro allI impI)
  fix st st' assume "short_circuit jop lhs rhs sp st = Ok st'"
  then show "opens [] st st'"
  proof (rule short_circuitE)
    fix st1 st2 st3 st4
    assume s: "lhs st = Ok st1" "emits [op_as_u8 Op_Dup] st1 (with_chunk (emit Op_Dup sp) st1)"
      "emits (op_as_u8 jop # to_le_bytes 2 (0 :: u16)) (with_chunk (emit Op_Dup sp) st1) st2"
      "emits [op_as_u8 Op_Pop] st2 st3" "rhs st3 = Ok st4" "fills (clen st1 + 2) st4 st'"
    have "opens [] st1 st4"
      using s(2-4) expr_actionD [OF assms(2) s(5)] by (meson emits_opens opens_then)
    from opens_fills [OF this _ s(6)] have "opens [] st1 st'" by simp
    then show ?thesis using expr_actionD [OF assms(1) s(1)] by (rule opens_then [rotated])
  qed
qed

lemma nested_action: "expr_action m \<Longrightarrow> expr_action (nested sp m)"
  by (fastforce simp: expr_action_def nested_def opens_def split: if_splits)

lemma branch_action: "expr_action c \<Longrightarrow> expr_action t \<Longrightarrow> expr_action e \<Longrightarrow> expr_action (branch c t e sp)"
  unfolding expr_action_def
proof (intro allI impI)
  assume m: "\<forall>st st'. c st = Ok st' \<longrightarrow> opens [] st st'" "\<forall>st st'. t st = Ok st' \<longrightarrow> opens [] st st'"
    "\<forall>st st'. e st = Ok st' \<longrightarrow> opens [] st st'"
  fix st st' assume "branch c t e sp st = Ok st'"
  then show "opens [] st st'"
    by (rule branchE) (rule branch_opens [where bs = "[]" and bs' = "[]", simplified], (use m in \<open>(simp; fail) | blast\<close>)+)
qed

lemma opens_const: "opens [] st (emit_with_const deq op v sp st)"
  by (simp add: opens_def)

lemma opens_local: "opens [] st (emit_get_local slot sp st)" "opens [] st (emit_set_local slot sp st)"
  by (simp_all add: opens_def)

lemma opens_emit:
  "opens [] st (with_chunk (emit op sp) st)" "opens [] st (with_chunk (emit_u16 op w sp) st)"
  "opens [] st (with_chunk (emit_u8 op b sp) st)"
  by (simp_all add: opens_def)

lemmas opens_intros = opens_const opens_local opens_emit

lemma literal_action: "expr_action (compile_literal deq l nd)"
  by (simp add: expr_action_def compile_literal_def opens_const)

lemma name_ref_action: "expr_action (compile_name_ref deq name nd)"
  by (auto simp: expr_action_def compile_name_ref_def opens_intros split: option.splits resolution.splits)

lemma unary_action: "expr_action m \<Longrightarrow> expr_action (compile_unary op m e)"
  by (fastforce simp: expr_action_def compile_unary_def intro: opens_then opens_emit)

lemma binary_action:
  assumes "expr_action ca" and "expr_action cb"
  shows "expr_action (compile_binary deq op ca cb b nd)"
proof (cases "short_circuit_op op")
  case (Some jop)
  then show ?thesis
    using short_circuit_action [OF assms] by (simp add: expr_action_def compile_binary_def)
next
  case None
  then show ?thesis
    using assms
    by (fastforce simp: expr_action_def compile_binary_def intro: opens_then opens_const opens_emit split: option.splits)
qed

lemma range_action:
  assumes "expr_action ca" and "expr_action cb" and "\<And>cs. cstep = Some cs \<Longrightarrow> expr_action cs"
  shows "expr_action (compile_range ca cb incl cstep nd)"
proof (cases cstep)
  case None
  then show ?thesis
    using assms(1,2) by (fastforce simp: expr_action_def compile_range_def intro: opens_then opens_emit)
next
  case (Some cs)
  then show ?thesis
    using assms(1,2) assms(3) [OF Some]
    by (fastforce simp: expr_action_def compile_range_def intro: opens_then opens_emit)
qed

lemma store_action: "expr_action (store_name deq name tnd sp)"
  unfolding expr_action_def
proof (intro allI impI)
  fix st st' assume "store_name deq name tnd sp st = Ok st'"
  then show "opens [] st st'"
    by (auto simp: store_name_def Let_def opens_const split: option.splits resolution.splits if_splits
        intro: opens_then [OF opens_emit(1) opens_local(2)] opens_then [OF opens_emit(1) opens_emit(2)])
qed

lemma assign_action:
  assumes "expr_action ct" and "expr_action cv"
  shows "expr_action (compile_assign deq tok ct cv target v nd)"
  unfolding expr_action_def
proof (intro allI impI)
  fix st st' assume run: "compile_assign deq tok ct cv target v nd st = Ok st'"
  then obtain st3 where "opens [] st st3"
    and 3: "(case target of CNameRef name tnd \<Rightarrow> store_name deq name tnd (node_span nd) st3
      | _ \<Rightarrow> Err (''invalid assignment target'', node_span (node_of target))) = Ok st'"
  proof (cases "compound_op tok")
    case (Some binop)
    let ?sp = "span_new (sp_start (code_span (node_of target))) (sp_end (code_span (node_of v)))"
    from run Some obtain st1 st2 where "ct st = Ok st1" "cv st1 = Ok st2"
      and s: "(case target of CNameRef name tnd \<Rightarrow> store_name deq name tnd (node_span nd) (with_chunk (emit binop ?sp) st2)
        | _ \<Rightarrow> Err (''invalid assignment target'', node_span (node_of target))) = Ok st'"
      by (auto simp: compile_assign_def compile_target_read_def split: if_splits)
    then have "opens [] st (with_chunk (emit binop ?sp) st2)"
      using assms by (meson expr_actionD opens_emit(1) opens_then)
    then show thesis using s that by blast
  next
    case None
    with run obtain st3 where "cv st = Ok st3"
      and s: "(case target of CNameRef name tnd \<Rightarrow> store_name deq name tnd (node_span nd) st3
        | _ \<Rightarrow> Err (''invalid assignment target'', node_span (node_of target))) = Ok st'"
      by (auto simp: compile_assign_def)
    then show thesis using that expr_actionD [OF assms(2)] by blast
  qed
  from 3 have "opens [] st3 st'"
    using store_action by (auto simp: expr_action_def split: cst.splits)
  with \<open>opens [] st st3\<close> show "opens [] st st'" by (rule opens_then)
qed

lemma compile_expr_action: "expr_action (compile_expr deq e)"
proof (induction e)
  case (CRange a b incl step nd)
  have "expr_action (compile_range (compile_expr deq a) (compile_expr deq b) incl
      (case step of Some s \<Rightarrow> Some (compile_expr deq s) | None \<Rightarrow> None) nd)"
    by (rule range_action) (use CRange in \<open>auto split: option.splits\<close>)
  from nested_action [OF this] show ?case by (simp add: expr_action_def)
next
  case (CBinary op a b nd)
  from nested_action [OF binary_action [OF CBinary]] show ?case by (simp add: expr_action_def)
next
  case (CAssign tok t v nd)
  from nested_action [OF assign_action [OF CAssign]] show ?case by (simp add: expr_action_def)
next
  case (CTernary c a b nd)
  from nested_action [OF branch_action [OF CTernary]] show ?case by (simp add: expr_action_def compile_ternary_def)
next
  case (CUnary op e nd)
  from nested_action [OF unary_action [OF CUnary]] show ?case by (simp add: expr_action_def)
next
  case (CParen e nd)
  from nested_action [OF CParen] show ?case by (simp add: expr_action_def)
qed (use nested_action [OF literal_action] nested_action [OF name_ref_action] in \<open>simp_all add: expr_action_def\<close>)

lemmas compile_expr_opens = expr_actionD [OF compile_expr_action]

section \<open>Statements\<close>

text \<open>Filling all the holes of a loop.\<close>

definition fills_all :: "nat list \<Rightarrow> compiler \<Rightarrow> compiler \<Rightarrow> bool" where
  "fills_all sites st st' \<longleftrightarrow> clen st' = clen st
     \<and> (\<forall>p. (\<forall>s \<in> set sites. p < s \<or> s + 2 \<le> p) \<longrightarrow> code_of st' ! p = code_of st ! p)
     \<and> consts_of st' = consts_of st \<and> co_resolved st' = co_resolved st \<and> co_cells st' = co_cells st
     \<and> co_loops st' = co_loops st \<and> co_depth st' = co_depth st \<and> c_slot_count (co_chunk st') = c_slot_count (co_chunk st)
     \<and> (\<forall>s \<in> set sites. s + 2 \<le> clen st)
     \<and> (\<not> overflowed st' \<longrightarrow> \<not> overflowed st
       \<and> (\<forall>s \<in> set sites. read_i16 (co_chunk st') s = Some (int (clen st) - int (s + 2))))"

lemma fills_all_same:
  "fills_all sites st st' \<Longrightarrow> (\<And>s. s \<in> set sites \<Longrightarrow> p < s \<or> s + 2 \<le> p) \<Longrightarrow> code_of st' ! p = code_of st ! p"
  by (simp add: fills_all_def)

lemma read_i16_cong:
  "s + 2 \<le> length (c_code c) \<Longrightarrow> s + 2 \<le> length (c_code c') \<Longrightarrow> c_code c' ! s = c_code c ! s
    \<Longrightarrow> c_code c' ! (s + 1) = c_code c ! (s + 1) \<Longrightarrow> read_i16 c' s = read_i16 c s"
  by (simp add: read_i16_def read_u16_def)

lemma patch_sites_fills:
  "patch_sites sites st = Ok st' \<Longrightarrow> sorted_wrt (\<lambda>a b. a + 2 \<le> b) sites \<Longrightarrow> fills_all sites st st'"
proof (induction sites arbitrary: st)
  case (Cons site sites)
  from Cons.prems(1) obtain st1 where 1: "patch_site site st = Ok st1" "patch_sites sites st1 = Ok st'" by auto
  note f = patch_site_fills [OF 1(1)]
  have g: "fills_all sites st1 st'" using Cons.IH [OF 1(2)] Cons.prems(2) by simp
  have "site + 2 \<le> s" if "s \<in> set sites" for s using Cons.prems(2) that by simp
  then have "code_of st' ! site = code_of st1 ! site" "code_of st' ! (site + 1) = code_of st1 ! (site + 1)"
    by (fastforce intro: fills_all_same [OF g])+
  then have "read_i16 (co_chunk st') site = read_i16 (co_chunk st1) site"
    using f g by (intro read_i16_cong) (simp_all add: fills_def fills_all_def)
  moreover have "code_of st' ! p = code_of st ! p" if "\<forall>s \<in> set (site # sites). p < s \<or> s + 2 \<le> p" for p
    using fills_all_same [OF g, of p] f that by (auto simp: fills_def)
  ultimately show ?case
    using f g by (simp add: fills_def fills_all_def)
qed (simp add: fills_all_def)

lemma opens_fills_all:
  assumes "opens bs a st" and "\<forall>s \<in> set sites. clen a \<le> s" and f: "fills_all sites st st'"
  shows "opens bs a st'"
proof -
  have same: "code_of st' ! p = code_of st ! p" if "p < clen a" for p
    by (rule fills_all_same [OF f]) (use assms(2) that in force)
  then show ?thesis
    using assms(1) f by (auto simp: opens_def extends_def fills_all_def same)
qed

text \<open>A backward jump.\<close>

definition loops_back :: "nat \<Rightarrow> compiler \<Rightarrow> compiler \<Rightarrow> bool" where
  "loops_back target st st' \<longleftrightarrow> opens [] st st' \<and> clen st' = clen st + 3 \<and> code_of st' ! clen st = op_as_u8 Op_Loop
     \<and> consts_of st' = consts_of st
     \<and> (\<not> overflowed st' \<longrightarrow> read_i16 (co_chunk st') (clen st + 1) = Some (int target - int (clen st + 3)))"

lemma emit_loop_keeps:
  "c_consts (emit_loop op target sp c) = c_consts c" "c_slot_count (emit_loop op target sp c) = c_slot_count c"
  "\<exists>bytes. c_code (emit_loop op target sp c) = c_code c @ bytes"
  "c_overflow (emit_loop op target sp c) = None \<Longrightarrow> c_overflow c = None"
  by (auto simp: emit_loop_def narrow_disp_def record_overflow_def push_code_def record_span_def Let_def split: if_splits)

lemma emit_loop_back: "loops_back target st (with_chunk (emit_loop Op_Loop target sp) st)"
proof -
  obtain bytes where "c_code (emit_loop Op_Loop target sp (co_chunk st)) = code_of st @ bytes"
    using emit_loop_keeps(3) by blast
  then show ?thesis
    using emit_loop_correct [of Op_Loop target sp "co_chunk st"] emit_loop_keeps [of Op_Loop target sp "co_chunk st"]
    by (auto simp: loops_back_def opens_def extends_def Let_def nth_append split: if_splits)
qed

lemma whileE:
  assumes "compile_while cond body nd st = Ok st'" and "expr_action cond" and "stmt_action body" and "loops_known st"
  obtains st1 st2 bs st3 st4 st5 where "cond st = Ok st1" "opens [] st st1"
    "emits (op_as_u8 Op_JumpIfFalse # to_le_bytes 2 (0 :: u16)) st1 st2"
    "body (st2\<lparr>co_loops := \<lparr>lc_continue_target = Some (clen st), lc_continue_sites = [], lc_break_sites = []\<rparr> # co_loops st2\<rparr>) = Ok st3"
    "opens bs (st2\<lparr>co_loops := \<lparr>lc_continue_target = Some (clen st), lc_continue_sites = [], lc_break_sites = []\<rparr> # co_loops st2\<rparr>) st3"
    "loops_back (clen st) st3 st4" "fills (clen st1 + 1) (st4\<lparr>co_loops := co_loops st\<rparr>) st5" "fills_all bs st5 st'"
proof -
  let ?ctx = "\<lparr>lc_continue_target = Some (clen st), lc_continue_sites = [], lc_break_sites = []\<rparr>"
  let ?st4 = "\<lambda>st3. with_chunk (emit_loop Op_Loop (clen st) (node_span nd)) st3"
  from assms(1) obtain st1 where 1: "cond st = Ok st1" by (auto simp: compile_while_def Let_def)
  note o1 = expr_actionD [OF assms(2) 1]
  obtain st2 where 2: "jump_from Op_JumpIfFalse (node_span nd) st1 = (st2, clen st1 + 1)"
    "emits (op_as_u8 Op_JumpIfFalse # to_le_bytes 2 (0 :: u16)) st1 st2" by (rule emits_jump)
  have l2: "co_loops st2 = co_loops st" using o1 2(2) by (simp add: opens_def emits_def)
  from assms(1) 1 2 obtain st3 where 3: "body (st2\<lparr>co_loops := ?ctx # co_loops st2\<rparr>) = Ok st3"
    by (auto simp: compile_while_def Let_def)
  have "loops_known (st2\<lparr>co_loops := ?ctx # co_loops st2\<rparr>)" using assms(4) l2 by (simp add: loops_known_def)
  from stmt_actionE [OF assms(3) this 3] obtain bs where o3: "opens bs (st2\<lparr>co_loops := ?ctx # co_loops st2\<rparr>) st3" .
  then have l3: "co_loops st3 = ?ctx\<lparr>lc_break_sites := bs\<rparr> # co_loops st" using l2 by (simp add: opens_def)
  have sorted: "sorted_wrt (\<lambda>a b. a + 2 \<le> b) bs" using o3 by (simp add: opens_def sites_in_def)
  from assms(1) 1 2 3 l3 obtain st5 where "patch_site (clen st1 + 1) ((?st4 st3)\<lparr>co_loops := co_loops st\<rparr>) = Ok st5"
    "patch_sites bs st5 = Ok st'"
    by (auto simp: compile_while_def Let_def)
  then show thesis
    by (intro that [OF 1 o1 2(2) 3 o3 emit_loop_back]) (auto dest: patch_site_fills patch_sites_fills [OF _ sorted])
qed

lemma while_opens:
  assumes "expr_action cond" and "stmt_action body"
    and known: "loops_known st" and "compile_while cond body nd st = Ok st'"
  shows "opens [] st st'"
proof -
  from assms(4) show "opens [] st st'"
  proof (rule whileE [OF _ assms(1,2) known])
    fix st1 st2 :: compiler and bs :: "nat list" and st3 st4 st5 :: compiler
    let ?in = "st2\<lparr>co_loops := \<lparr>lc_continue_target = Some (clen st), lc_continue_sites = [], lc_break_sites = []\<rparr> # co_loops st2\<rparr>"
    assume s: "opens [] st st1" "emits (op_as_u8 Op_JumpIfFalse # to_le_bytes 2 (0 :: u16)) st1 st2" "opens bs ?in st3"
      "loops_back (clen st) st3 st4" "fills (clen st1 + 1) (st4\<lparr>co_loops := co_loops st\<rparr>) st5" "fills_all bs st5 st'"
    have e: "extends st1 st3"
      using emits_extends [OF s(2)] opens_extends [OF s(3)] by (auto intro: code_extends_trans)
    have "extends st st4"
      using opens_extends [OF s(1)] e s(4) by (meson code_extends_trans loops_back_def opens_extends)
    then have "opens [] st (st4\<lparr>co_loops := co_loops st\<rparr>)"
      using s(1-4) by (simp add: opens_def emits_def loops_back_def)
    from opens_fills [OF this _ s(5)] have "opens [] st st5"
      using extends_len [OF opens_extends [OF s(1)]] by simp
    moreover have "\<forall>b \<in> set bs. clen st \<le> b"
      using s(3) emits_len [OF s(2)] extends_len [OF opens_extends [OF s(1)]] by (fastforce simp: opens_def sites_in_def)
    ultimately show ?thesis using s(6) by (rule opens_fills_all)
  qed
qed

lemma if_action:
  assumes "expr_action cond" and "stmt_action thn" and "\<And>e. els = Some e \<Longrightarrow> stmt_action e"
  shows "stmt_action (compile_if cond thn els nd)"
  unfolding stmt_action_def
proof (intro allI impI)
  fix st st' assume known: "loops_known st" and "compile_if cond thn els nd st = Ok st'"
  from this(2) show "\<exists>bs. opens bs st st'"
    unfolding compile_if_def
  proof (rule branchE)
    fix st1 st2 st3 st4 st5 st6
    assume s: "cond st = Ok st1" "emits (op_as_u8 Op_JumpIfFalse # to_le_bytes 2 (0 :: u16)) st1 st2" "thn st2 = Ok st3"
      "emits (op_as_u8 Op_Jump # to_le_bytes 2 (0 :: u16)) st3 st4" "fills (clen st1 + 1) st4 st5"
      "(case els of Some e \<Rightarrow> e | None \<Rightarrow> Ok) st5 = Ok st6" "fills (clen st3 + 1) st6 st'"
    have k2: "loops_known st2"
      using known expr_actionD [OF assms(1) s(1)] emits_opens [OF s(2)] by (meson loops_known_opens)
    obtain bs where o: "opens bs st2 st3" using stmt_actionE [OF assms(2) k2 s(3)] .
    have k5: "loops_known st5"
      using loops_known_opens [OF loops_known_opens [OF k2 o] emits_opens [OF s(4)]] loops_known_fills [OF s(5)] by simp
    obtain bs' where "opens bs' st5 st6"
      using s(6) assms(3) k5 by (cases els) (auto elim: stmt_actionE intro: that [of "[]"])
    with o show ?thesis
      using branch_opens [OF expr_actionD [OF assms(1) s(1)] s(2) _ s(4,5) _ s(7)] by blast
  qed
qed

lemma let_action:
  assumes "\<And>c. cinit = Some c \<Longrightarrow> expr_action c"
  shows "expr_action (compile_let deq name cinit nd)"
proof -
  have v: "opens [] st st1" if "(case cinit of Some ci \<Rightarrow> ci | None \<Rightarrow> (\<lambda>st. Ok (with_chunk (emit Op_Nil (node_span nd)) st))) st = Ok st1" for st st1
    using that assms expr_actionD by (cases cinit) (auto intro: opens_emit)
  have d: "opens [] st (emit_define_global deq name sp st)" for st sp by (simp add: opens_def)
  show ?thesis
    unfolding expr_action_def compile_let_def Let_def
    by (auto simp del: emit_local_simps intro: opens_then [OF v d] opens_then [OF v opens_local(2)] split: if_splits)
qed

lemma return_action: "(\<And>c. ce = Some c \<Longrightarrow> expr_action c) \<Longrightarrow> expr_action (compile_return ce nd)"
  unfolding expr_action_def compile_return_def
  by (cases ce) (auto intro: opens_then [OF opens_emit(1) opens_emit(1)] opens_then [OF _ opens_emit(1)])

lemma break_action: "stmt_action (compile_break nd)"
  unfolding stmt_action_def
proof (intro allI impI)
  fix st st' assume run: "compile_break nd st = Ok st'"
  obtain st1 where j: "jump_from Op_Jump (node_span nd) st = (st1, clen st + 1)" "emits (op_as_u8 Op_Jump # to_le_bytes 2 (0 :: u16)) st st1"
    by (rule emits_jump)
  from run j obtain ctx outer where l: "co_loops st1 = ctx # outer"
    and st': "st' = st1\<lparr>co_loops := ctx\<lparr>lc_break_sites := lc_break_sites ctx @ [clen st + 1]\<rparr> # outer\<rparr>"
    by (auto simp: compile_break_def split: list.splits)
  have "co_loops st = ctx # outer" using j(2) l by (simp add: emits_def opens_def)
  then have "opens [clen st + 1] st st'"
    using j(2) st' by (simp add: opens_def emits_def sites_in_def to_le_2)
  then show "\<exists>bs. opens bs st st'" by blast
qed


lemma continue_action: "stmt_action (compile_continue nd)"
  unfolding stmt_action_def
proof (intro allI impI)
  fix st st' assume "loops_known st" "compile_continue nd st = Ok st'"
  then obtain target where "st' = with_chunk (emit_loop Op_Loop target (node_span nd)) st"
    by (auto simp: compile_continue_def loops_known_def split: list.splits option.splits)
  then have "opens [] st st'" using emit_loop_back by (simp add: loops_back_def)
  then show "\<exists>bs. opens bs st st'" by blast
qed

lemma block_cons_action:
  assumes "stmt_action m" and "stmt_action k"
  shows "stmt_action (\<lambda>st. res_bind (m st) k)"
  unfolding stmt_action_def
proof (intro allI impI)
  fix st st' assume known: "loops_known st" and "res_bind (m st) k = Ok st'"
  then obtain st1 where 1: "m st = Ok st1" "k st1 = Ok st'" by auto
  obtain bs where o: "opens bs st st1" using stmt_actionE [OF assms(1) known 1(1)] .
  obtain bs' where "opens bs' st1 st'" using stmt_actionE [OF assms(2) loops_known_opens [OF known o] 1(2)] .
  with o show "\<exists>bs. opens bs st st'" using opens_trans by blast
qed

lemma expr_stmt_pop: "expr_action (\<lambda>st. res_bind (compile_expr deq e st) (\<lambda>st1. Ok (with_chunk (emit Op_Pop sp) st1)))"
  by (rule expr_action_emit [OF compile_expr_action, where bytes = "\<lambda>_. [op_as_u8 Op_Pop]"]) simp

lemma block_action: "(\<And>s. s \<in> set ss \<Longrightarrow> stmt_action (compile_stmt deq s)) \<Longrightarrow> stmt_action (compile_block deq ss)"
proof (induction ss)
  case (Cons s ss)
  let ?m = "\<lambda>st. case s of SExpr e nd \<Rightarrow> res_bind (compile_expr deq e st) (\<lambda>st1. Ok (with_chunk (emit Op_Pop (node_span nd)) st1))
      | _ \<Rightarrow> compile_stmt deq s st"
  have "stmt_action ?m"
    using Cons.prems [of s] expr_stmt_action [OF expr_stmt_pop] by (cases s) simp_all
  moreover have "stmt_action (compile_block deq ss)" using Cons by simp
  ultimately have "stmt_action (\<lambda>st. res_bind (?m st) (compile_block deq ss))" by (rule block_cons_action)
  moreover have "compile_block deq (s # ss) = (\<lambda>st. res_bind (?m st) (compile_block deq ss))"
    by (rule ext) simp
  ultimately show ?case by (simp only:)
qed (auto simp: stmt_action_def intro: exI [of _ "[]"])

lemma compile_stmt_action: "stmt_action (compile_stmt deq s)"
proof (induction s)
  case (SLet is_const name init nd)
  have "expr_action (compile_let deq name (case init of Some e \<Rightarrow> Some (compile_expr deq e) | None \<Rightarrow> None) nd)"
    by (rule let_action) (auto simp: compile_expr_action split: option.splits)
  then show ?case by (auto simp: stmt_action_def expr_action_def)
next
  case (SBlock ss nd)
  then show ?case using block_action [of ss deq] by (simp add: stmt_action_def)
next
  case (SIf c thn els nd)
  have "stmt_action (compile_if (compile_expr deq c) (compile_block deq thn)
      (case els of Some s \<Rightarrow> Some (compile_stmt deq s) | None \<Rightarrow> None) nd)"
    by (rule if_action [OF compile_expr_action block_action]) (use SIf in \<open>auto split: option.splits\<close>)
  then show ?case by (simp add: stmt_action_def)
next
  case (SWhile c body nd)
  have "stmt_action (compile_block deq body)" using SWhile by (rule block_action)
  then show ?case
    using while_opens [OF compile_expr_action] by (simp add: stmt_action_def) blast
next
  case (SReturn e nd)
  have "expr_action (compile_return (case e of Some e \<Rightarrow> Some (compile_expr deq e) | None \<Rightarrow> None) nd)"
    by (rule return_action) (auto simp: compile_expr_action split: option.splits)
  then show ?case by (auto simp: stmt_action_def expr_action_def)
qed (use break_action continue_action in \<open>simp_all add: stmt_action_def\<close>)

lemmas compile_block_action = block_action [OF compile_stmt_action]

end
