(* ===== verification/ResolverProps.thy ===== *)
theory ResolverProps
  imports Compiler
begin

text \<open>
  The contract between the resolver and the compiler.  The scopes around a place in the tree are a
  list of maps from names to a slot and a mutability, innermost first, without the module's scope.
  \<open>resolved_stmts\<close> walks the tree with these scopes and says what the resolver's result has to hold:
  a name is recorded with its slot or as a global, an assignment to an immutable local is recorded as
  such, and a declaration in a block has a slot that no visible name has.
\<close>

section \<open>Scopes\<close>

type_synonym statics = "(rstring \<rightharpoonup> nat \<times> bool) list"

fun slookup :: "statics \<Rightarrow> rstring \<Rightarrow> (nat \<times> bool) option" where
  "slookup [] x = None"
| "slookup (s # sc) x = (case s x of Some b \<Rightarrow> Some b | None \<Rightarrow> slookup sc x)"

definition slots_of :: "(rstring \<rightharpoonup> nat \<times> bool) \<Rightarrow> nat set" where
  "slots_of s = {slot. \<exists>x m. s x = Some (slot, m)}"

definition all_slots :: "statics \<Rightarrow> nat set" where
  "all_slots sc = (\<Union>s \<in> set sc. slots_of s)"

text \<open>Two visible names never share a slot.\<close>

fun separate :: "statics \<Rightarrow> bool" where
  "separate [] \<longleftrightarrow> True"
| "separate (s # sc) \<longleftrightarrow> separate sc \<and> slots_of s \<inter> all_slots sc = {}
     \<and> (\<forall>x y slot m m'. s x = Some (slot, m) \<longrightarrow> s y = Some (slot, m') \<longrightarrow> x = y)"

section \<open>The contract\<close>

definition resolution_of :: "statics \<Rightarrow> rstring \<Rightarrow> resolution" where
  "resolution_of sc x = (case slookup sc x of Some (slot, _) \<Rightarrow> Local slot | None \<Rightarrow> Global x)"

fun resolved_expr :: "resolve_result \<Rightarrow> statics \<Rightarrow> cst \<Rightarrow> bool" where
  "resolved_expr rr sc (CLiteral l nd) = True"
| "resolved_expr rr sc (CNameRef x nd) = (rr_uses rr (text_range nd) = Some (resolution_of sc x))"
| "resolved_expr rr sc (CUnary op e nd) = resolved_expr rr sc e"
| "resolved_expr rr sc (CBinary op a b nd) = (resolved_expr rr sc a \<and> resolved_expr rr sc b)"
| "resolved_expr rr sc (CParen e nd) = resolved_expr rr sc e"
| "resolved_expr rr sc (CAssign tok target v nd) = (resolved_expr rr sc target \<and> resolved_expr rr sc v
     \<and> (case target of
          CNameRef x tnd \<Rightarrow> (case slookup sc x of Some (_, m) \<Rightarrow> (text_range tnd \<in> rr_immutable rr) = (\<not> m) | None \<Rightarrow> True)
        | _ \<Rightarrow> True))"
| "resolved_expr rr sc (CRange a b incl step nd) = (resolved_expr rr sc a \<and> resolved_expr rr sc b
     \<and> (case step of Some s \<Rightarrow> resolved_expr rr sc s | None \<Rightarrow> True))"
| "resolved_expr rr sc (CTernary c a b nd) = (resolved_expr rr sc c \<and> resolved_expr rr sc a \<and> resolved_expr rr sc b)"

definition slot_at :: "resolve_result \<Rightarrow> node \<Rightarrow> nat option" where
  "slot_at rr nd = map_option rb_slot (find (\<lambda>b. rb_decl b = text_range nd) (rr_bindings rr))"

text \<open>What a declaration adds to the names of the module and to the scopes.\<close>

fun declared :: "resolve_result \<Rightarrow> cst_stmt \<Rightarrow> rstring set \<times> statics \<Rightarrow> rstring set \<times> statics" where
  "declared rr (SLet is_const x init nd) z =
     (case z of
        (D, []) \<Rightarrow> (insert x D, [])
      | (D, s # sc) \<Rightarrow> (D, s(x \<mapsto> (the (slot_at rr nd), \<not> is_const)) # sc))"
| "declared rr _ z = z"

definition resolved_let :: "resolve_result \<Rightarrow> rstring set \<times> statics \<Rightarrow> bool \<Rightarrow> rstring \<Rightarrow> node \<Rightarrow> bool" where
  "resolved_let rr z is_const x nd =
     (case z of
        (D, []) \<Rightarrow> text_range nd \<in> rr_global_decls rr \<and> (x \<notin> D \<longrightarrow>
          map_option rb_mutable (find (\<lambda>b. rb_global b \<and> rb_name b = x) (rr_bindings rr)) = Some (\<not> is_const))
      | (D, s # sc) \<Rightarrow> text_range nd \<notin> rr_global_decls rr \<and> s x = None
          \<and> (case slot_at rr nd of Some slot \<Rightarrow> slot \<notin> all_slots (s # sc) \<and> slot < rr_slot_count rr | None \<Rightarrow> False))"

fun resolved_stmt :: "resolve_result \<Rightarrow> rstring set \<times> statics \<Rightarrow> cst_stmt \<Rightarrow> bool"
  and resolved_stmts :: "resolve_result \<Rightarrow> rstring set \<times> statics \<Rightarrow> cst_stmt list \<Rightarrow> bool" where
  "resolved_stmt rr z (SExpr e nd) = resolved_expr rr (snd z) e"
| "resolved_stmt rr z (SLet is_const x init nd) = (resolved_let rr z is_const x nd
     \<and> (case init of Some e \<Rightarrow> resolved_expr rr (snd z) e | None \<Rightarrow> True))"
| "resolved_stmt rr z (SBlock ss nd) = resolved_stmts rr (fst z, Map.empty # snd z) ss"
| "resolved_stmt rr z (SIf c thn els nd) = (resolved_expr rr (snd z) c \<and> resolved_stmts rr (fst z, Map.empty # snd z) thn
     \<and> (case els of
          Some s \<Rightarrow> (case s of
              SBlock ss _ \<Rightarrow> resolved_stmts rr (fst z, Map.empty # snd z) ss
            | _ \<Rightarrow> resolved_stmt rr (fst z, Map.empty # snd z) s)
        | None \<Rightarrow> True))"
| "resolved_stmt rr z (SWhile c body nd) = (resolved_expr rr (snd z) c \<and> resolved_stmts rr (fst z, Map.empty # snd z) body)"
| "resolved_stmt rr z (SBreak nd) = True"
| "resolved_stmt rr z (SContinue nd) = True"
| "resolved_stmt rr z (SReturn e nd) = (case e of Some e \<Rightarrow> resolved_expr rr (snd z) e | None \<Rightarrow> True)"
| "resolved_stmts rr z [] = True"
| "resolved_stmts rr z (s # ss) = (resolved_stmt rr z s \<and> resolved_stmts rr (declared rr s z) ss)"

section \<open>The resolver keeps the contract\<close>

text \<open>The keys under which a tree is recorded, and the trees whose keys are distinct.\<close>

fun name_keys :: "cst \<Rightarrow> span list" where
  "name_keys (CLiteral l nd) = []"
| "name_keys (CNameRef x nd) = [text_range nd]"
| "name_keys (CUnary op e nd) = name_keys e"
| "name_keys (CBinary op a b nd) = name_keys a @ name_keys b"
| "name_keys (CParen e nd) = name_keys e"
| "name_keys (CAssign tok target v nd) = name_keys target @ name_keys v"
| "name_keys (CRange a b incl step nd) = name_keys a @ name_keys b @ (case step of Some s \<Rightarrow> name_keys s | None \<Rightarrow> [])"
| "name_keys (CTernary c a b nd) = name_keys c @ name_keys a @ name_keys b"

fun use_keys :: "cst_stmt \<Rightarrow> span list" where
  "use_keys (SExpr e nd) = name_keys e"
| "use_keys (SLet c x init nd) = (case init of Some e \<Rightarrow> name_keys e | None \<Rightarrow> [])"
| "use_keys (SBlock ss nd) = concat (map use_keys ss)"
| "use_keys (SIf c thn els nd) = name_keys c @ concat (map use_keys thn) @ (case els of Some s \<Rightarrow> use_keys s | None \<Rightarrow> [])"
| "use_keys (SWhile c body nd) = name_keys c @ concat (map use_keys body)"
| "use_keys (SBreak nd) = []"
| "use_keys (SContinue nd) = []"
| "use_keys (SReturn e nd) = (case e of Some e \<Rightarrow> name_keys e | None \<Rightarrow> [])"

fun let_keys :: "cst_stmt \<Rightarrow> span list" where
  "let_keys (SLet c x init nd) = [text_range nd]"
| "let_keys (SBlock ss nd) = concat (map let_keys ss)"
| "let_keys (SIf c thn els nd) = concat (map let_keys thn) @ (case els of Some s \<Rightarrow> let_keys s | None \<Rightarrow> [])"
| "let_keys (SWhile c body nd) = concat (map let_keys body)"
| "let_keys _ = []"

fun let_names :: "cst_stmt \<Rightarrow> rstring list" where
  "let_names (SLet c x init nd) = [x]"
| "let_names _ = []"

text \<open>A block declares a name once; an \<open>else\<close> holds a block or an \<open>if\<close>.\<close>

fun tree_ok :: "cst_stmt \<Rightarrow> bool" where
  "tree_ok (SBlock ss nd) = (distinct (concat (map let_names ss)) \<and> list_all tree_ok ss)"
| "tree_ok (SIf c thn els nd) = (distinct (concat (map let_names thn)) \<and> list_all tree_ok thn
     \<and> (case els of
          Some s \<Rightarrow> tree_ok s \<and> (case s of SBlock _ _ \<Rightarrow> True | SIf _ _ _ _ \<Rightarrow> True | _ \<Rightarrow> False)
        | None \<Rightarrow> True))"
| "tree_ok (SWhile c body nd) = (distinct (concat (map let_names body)) \<and> list_all tree_ok body)"
| "tree_ok _ = True"

subsection \<open>What a step changes\<close>

definition core :: "rbinding \<Rightarrow> nat \<times> span \<times> bool \<times> bool \<times> bool" where
  "core b = (rb_slot b, rb_decl b, rb_mutable b, rb_captured b, rb_global b)"

definition frame :: "span set \<Rightarrow> span set \<Rightarrow> resolver \<Rightarrow> resolver \<Rightarrow> bool" where
  "frame K G r r' \<longleftrightarrow> (\<forall>k. k \<notin> K \<longrightarrow> rs_uses r' k = rs_uses r k \<and> (k \<in> rs_immutable r' \<longleftrightarrow> k \<in> rs_immutable r))
     \<and> (\<forall>k. k \<notin> G \<longrightarrow> (k \<in> rs_global_decls r' \<longleftrightarrow> k \<in> rs_global_decls r))
     \<and> (\<exists>new. map core (rs_bindings r') = map core (rs_bindings r) @ map core new \<and> rb_decl ` set new \<subseteq> G)
     \<and> (\<exists>new. rs_global_bindings r' = rs_global_bindings r @ new \<and> rb_decl ` set new \<subseteq> G)
     \<and> length (rs_scopes r') = length (rs_scopes r) \<and> tl (rs_scopes r') = tl (rs_scopes r)
     \<and> rs_module_globals r' = rs_module_globals r \<and> rs_next_slot r \<le> rs_next_slot r'"

lemma frame_refl [simp]: "frame K G r r"
  by (auto simp: frame_def intro: exI [of _ "[]"])

lemma frame_trans:
  assumes "frame K G a b" and "frame K' G' b c"
  shows "frame (K \<union> K') (G \<union> G') a c"
proof -
  obtain n1 n2 where "map core (rs_bindings b) = map core (rs_bindings a) @ map core n1" "rb_decl ` set n1 \<subseteq> G"
    "map core (rs_bindings c) = map core (rs_bindings b) @ map core n2" "rb_decl ` set n2 \<subseteq> G'"
    using assms by (auto simp: frame_def)
  then have b: "\<exists>new. map core (rs_bindings c) = map core (rs_bindings a) @ map core new \<and> rb_decl ` set new \<subseteq> G \<union> G'"
    by (intro exI [of _ "n1 @ n2"]) auto
  obtain m1 m2 where "rs_global_bindings b = rs_global_bindings a @ m1" "rb_decl ` set m1 \<subseteq> G"
    "rs_global_bindings c = rs_global_bindings b @ m2" "rb_decl ` set m2 \<subseteq> G'"
    using assms by (auto simp: frame_def)
  then have g: "\<exists>new. rs_global_bindings c = rs_global_bindings a @ new \<and> rb_decl ` set new \<subseteq> G \<union> G'"
    by (intro exI [of _ "m1 @ m2"]) auto
  show ?thesis using assms b g by (auto simp: frame_def)
qed

lemma frame_mono: "frame K G r r' \<Longrightarrow> K \<subseteq> K' \<Longrightarrow> G \<subseteq> G' \<Longrightarrow> frame K' G' r r'"
  unfolding frame_def by (meson subset_iff)

lemma update_slot_core: "(\<And>b. core (f b) = core b) \<Longrightarrow> map core (update_slot f slot bs) = map core bs"
  by (induction bs) auto

lemma resolve_name_frame: "frame K G r (snd (resolve_name x r))"
  using update_slot_core [of "\<lambda>b. b\<lparr>rb_use_count := rb_use_count b + 1\<rparr>"]
  by (auto simp: resolve_name_def bump_use_def frame_def core_def intro: exI [of _ "[]"] split: option.splits)

lemma mark_frame: "frame {key} G r (mark_mutated_target x key r)"
  using update_slot_core [of "\<lambda>b. b\<lparr>rb_mutated := True\<rparr>"]
  by (auto simp: mark_mutated_target_def frame_def core_def intro: exI [of _ "[]"] split: option.splits)

lemma expr_frame: "frame (set (name_keys e)) {} r (resolve_expr e r)"
proof (induction e arbitrary: r)
  case (CNameRef x nd)
  then show ?case using resolve_name_frame [of "{}" "{}" r x] by (auto simp: frame_def Let_def split: prod.splits)
next
  case (CAssign tok target v nd)
  let ?r1 = "case target of CNameRef name tnd \<Rightarrow> mark_mutated_target name (text_range tnd) r | _ \<Rightarrow> r"
  have "frame (set (name_keys target)) {} r ?r1" using mark_frame by (auto split: cst.splits)
  from frame_trans [OF frame_trans [OF this CAssign(1)] CAssign(2)] show ?case by (simp add: Let_def)
next
  case (CBinary op a b nd)
  from frame_trans [OF CBinary] show ?case by simp
next
  case (CTernary c a b nd)
  from frame_trans [OF frame_trans [OF CTernary(1,2)] CTernary(3)] show ?case by (simp add: Un_assoc)
next
  case (CRange a b incl step nd)
  show ?case
  proof (cases step)
    case (Some s)
    with frame_trans [OF frame_trans [OF CRange(1,2)] CRange(3)] show ?thesis by (auto simp: Let_def Un_assoc)
  qed (use frame_trans [OF CRange(1,2)] in \<open>simp add: Let_def\<close>)
qed auto

lemma block_frame:
  assumes "frame K G (push_scope r) r1"
  shows "frame K G r (pop_scope r1)" "rs_scopes (pop_scope r1) = rs_scopes r"
  using assms by (auto simp: frame_def push_scope_def pop_scope_def)

lemma one_new: "rb_decl b \<in> G \<Longrightarrow> \<exists>new. [core b] = map core new \<and> rb_decl ` set new \<subseteq> G"
  by (rule exI [of _ "[b]"]) simp

lemma let_frame: "rs_scopes r \<noteq> [] \<Longrightarrow> frame {} {text_range nd} r (declare_let_bindings c x nd r)"
  by (cases "rs_scopes r")
    (auto simp: declare_let_bindings_def declare_binding_def declare_binding_mut_def declare_global_def declare_mut_def
      frame_def Let_def intro: exI [of _ "[]"] one_new)

lemma frame_scopes: "frame K G r r' \<Longrightarrow> rs_scopes r \<noteq> [] \<Longrightarrow> rs_scopes r' \<noteq> []"
  by (auto simp: frame_def)

lemma stmt_frame:
  "rs_scopes r \<noteq> [] \<Longrightarrow> frame (set (use_keys s)) (set (let_keys s)) r (resolve_stmt s r)"
  "rs_scopes r \<noteq> [] \<Longrightarrow> frame (\<Union>s \<in> set ss. set (use_keys s)) (\<Union>s \<in> set ss. set (let_keys s)) r (resolve_stmts ss r)"
proof (induction s r and ss r rule: resolve_stmt_resolve_stmts.induct)
  case (2 c x init nd r)
  let ?r1 = "case init of Some e \<Rightarrow> resolve_expr e r | None \<Rightarrow> r"
  have f: "frame (set (use_keys (SLet c x init nd))) {} r ?r1" using expr_frame by (cases init) auto
  from frame_trans [OF f let_frame [OF frame_scopes [OF f 2]]] show ?case by simp
next
  case (3 ss nd r)
  have "frame (\<Union>s \<in> set ss. set (use_keys s)) (\<Union>s \<in> set ss. set (let_keys s)) (push_scope r) (resolve_stmts ss (push_scope r))"
    using 3(1) by (simp add: push_scope_def)
  then show ?case using block_frame(1) by simp
next
  case (4 c thn els nd r)
  let ?rc = "push_scope (resolve_expr c r)"
  let ?r1 = "pop_scope (resolve_stmts thn ?rc)"
  have t: "frame (\<Union>s \<in> set thn. set (use_keys s)) (\<Union>s \<in> set thn. set (let_keys s)) ?rc (resolve_stmts thn ?rc)"
    using 4(1) by (simp add: push_scope_def)
  from frame_trans [OF expr_frame block_frame(1) [OF t]]
  have r1: "frame (set (name_keys c) \<union> (\<Union>s \<in> set thn. set (use_keys s))) (\<Union>s \<in> set thn. set (let_keys s)) r ?r1" by simp
  show ?case
  proof (cases els)
    case (Some s)
    have "frame (set (use_keys s)) (set (let_keys s)) ?r1 (resolve_stmt s ?r1)"
      using 4(2) [OF refl Some] frame_scopes [OF r1 4(3)] by simp
    from frame_trans [OF r1 this] Some show ?thesis by (simp add: Let_def Un_assoc)
  qed (use r1 in \<open>simp add: Let_def\<close>)
next
  case (5 c body nd r)
  let ?rc = "push_scope (resolve_expr c r)"
  have t: "frame (\<Union>s \<in> set body. set (use_keys s)) (\<Union>s \<in> set body. set (let_keys s)) ?rc (resolve_stmts body ?rc)"
    using 5(1) by (simp add: push_scope_def)
  from frame_trans [OF expr_frame block_frame(1) [OF t]] show ?case by simp
next
  case (10 s ss r)
  have f: "frame (set (use_keys s)) (set (let_keys s)) r (resolve_stmt s r)" using 10 by simp
  from frame_trans [OF f 10(2)] frame_scopes [OF f 10(3)] show ?case by simp
qed (use expr_frame in \<open>auto split: option.splits\<close>)

subsection \<open>The state of the resolver\<close>

definition good :: "resolver \<Rightarrow> bool" where
  "good r \<longleftrightarrow> map fst (map core (rs_bindings r)) = [0..<rs_next_slot r]
     \<and> (\<forall>(slot, decl, mutable, captured, global) \<in> set (map core (rs_bindings r)). \<not> captured \<and> \<not> global)
     \<and> (\<forall>b \<in> set (rs_global_bindings r). rb_global b)"

text \<open>An expression changes what is recorded of its names and nothing else.\<close>

definition sig :: "resolver \<Rightarrow> (nat \<times> span \<times> bool \<times> bool \<times> bool) list \<times> nat \<times> rbinding list \<times> (rstring \<rightharpoonup> nat) list \<times> rstring set \<times> span set" where
  "sig r = (map core (rs_bindings r), rs_next_slot r, rs_global_bindings r, rs_scopes r, rs_module_globals r, rs_global_decls r)"

lemma name_sig: "sig (snd (resolve_name x r)) = sig r"
  using update_slot_core [of "\<lambda>b. b\<lparr>rb_use_count := rb_use_count b + 1\<rparr>"]
  by (auto simp: resolve_name_def bump_use_def sig_def core_def split: option.splits)

lemma mark_sig: "sig (mark_mutated_target x key r) = sig r"
  using update_slot_core [of "\<lambda>b. b\<lparr>rb_mutated := True\<rparr>"]
  by (auto simp: mark_mutated_target_def sig_def core_def split: option.splits)

lemma expr_sig: "sig (resolve_expr e r) = sig r"
proof (induction e arbitrary: r)
  case (CNameRef x nd)
  then show ?case using name_sig [of x r] by (auto simp: sig_def Let_def split: prod.splits)
next
  case (CAssign tok target v nd)
  then show ?case using mark_sig by (auto simp: Let_def split: cst.splits)
qed (auto simp: Let_def split: option.splits)

lemma good_sig: "sig r' = sig r \<Longrightarrow> good r' = good r"
  by (simp add: sig_def good_def)

lemma good_let: "good r \<Longrightarrow> good (declare_let_bindings c x nd r)"
  by (auto simp: good_def declare_let_bindings_def declare_binding_def declare_binding_mut_def declare_global_def declare_mut_def
      Let_def core_def)

lemma good_scope [simp]: "good (push_scope r) = good r" "good (pop_scope r) = good r"
  by (simp_all add: good_def push_scope_def pop_scope_def)

lemma good_stmt:
  "good r \<Longrightarrow> good (resolve_stmt s r)"
  "good r \<Longrightarrow> good (resolve_stmts ss r)"
  by (induction s r and ss r rule: resolve_stmt_resolve_stmts.induct)
    (auto simp: Let_def good_sig [OF expr_sig] intro!: good_let split: option.splits)

subsection \<open>Later steps keep what holds\<close>

lemma rr_core: "map core (rr_bindings (finish r)) = map core (rs_bindings r) @ map core (rs_global_bindings r)"
  by (simp add: finish_def core_def comp_def)

lemma find_core: "map_option rb_slot (find (\<lambda>b. rb_decl b = k) bs) = map_option fst (find (\<lambda>c. fst (snd c) = k) (map core bs))"
  by (induction bs) (auto simp: core_def)

lemma find_none: "rb_decl ` set new \<subseteq> G \<Longrightarrow> k \<notin> G \<Longrightarrow> find (\<lambda>c. fst (snd c) = k) (map core new) = None"
  by (auto simp: find_None_iff core_def)

lemma find_append: "find P (xs @ ys) = (case find P xs of Some x \<Rightarrow> Some x | None \<Rightarrow> find P ys)"
  by (induction xs) auto

lemma slot_at_frame:
  assumes "frame K G r r'" and "text_range nd \<notin> G"
  shows "slot_at (finish r') nd = slot_at (finish r) nd"
proof -
  obtain n1 n2 where n: "map core (rs_bindings r') = map core (rs_bindings r) @ map core n1" "rb_decl ` set n1 \<subseteq> G"
    "rs_global_bindings r' = rs_global_bindings r @ n2" "rb_decl ` set n2 \<subseteq> G"
    using assms(1) by (auto simp: frame_def)
  then show ?thesis
    using find_none [OF n(2) assms(2)] find_none [OF n(4) assms(2)]
    by (simp add: slot_at_def find_core rr_core find_append split: option.splits)
qed

lemma find_counts:
  "\<forall>b \<in> set bs. rb_global b \<Longrightarrow> map_option rb_mutable (find (\<lambda>b. rb_global b \<and> rb_name b = x) (map (\<lambda>b. b\<lparr>rb_use_count := u b, rb_mutated := m b\<rparr>) bs))
    = map_option rb_mutable (find (\<lambda>b. rb_name b = x) bs)"
  by (induction bs) auto

lemma global_find:
  assumes "good r"
  shows "map_option rb_mutable (find (\<lambda>b. rb_global b \<and> rb_name b = x) (rr_bindings (finish r)))
    = map_option rb_mutable (find (\<lambda>b. rb_name b = x) (rs_global_bindings r))"
proof -
  have "find (\<lambda>b. rb_global b \<and> rb_name b = x) (rs_bindings r) = None"
    using assms by (auto simp: good_def core_def find_None_iff)
  then show ?thesis using assms by (simp add: finish_def find_append good_def find_counts)
qed

lemma resolved_expr_frame:
  "frame K G r r' \<Longrightarrow> set (name_keys e) \<inter> K = {} \<Longrightarrow> resolved_expr (finish r) sc e \<Longrightarrow> resolved_expr (finish r') sc e"
proof (induction e)
  case (CAssign tok target v nd)
  then have "resolved_expr (finish r') sc target" "resolved_expr (finish r') sc v" by (auto simp: Int_Un_distrib2)
  moreover have "case target of
      CNameRef x tnd \<Rightarrow> (case slookup sc x of Some (_, m) \<Rightarrow> (text_range tnd \<in> rr_immutable (finish r')) = (\<not> m) | None \<Rightarrow> True)
    | _ \<Rightarrow> True"
    using CAssign.prems by (cases target) (auto simp: frame_def finish_def split: option.splits)
  ultimately show ?case by simp
qed (auto simp: frame_def finish_def Int_Un_distrib2 split: option.splits)

lemma declared_frame: "frame K G r r' \<Longrightarrow> set (let_keys s) \<inter> G = {} \<Longrightarrow> declared (finish r') s z = declared (finish r) s z"
  by (cases s) (auto simp: slot_at_frame split: prod.splits list.splits)

lemma resolved_let_frame:
  assumes f: "frame K G r r'" and "good r" "good r'" and k: "text_range nd \<notin> G" and l: "resolved_let (finish r) z c x nd"
  shows "resolved_let (finish r') z c x nd"
proof -
  obtain D sc where z: "z = (D, sc)" by (cases z)
  have decls: "(text_range nd \<in> rr_global_decls (finish r')) = (text_range nd \<in> rr_global_decls (finish r))"
    using f k by (simp add: frame_def finish_def)
  show ?thesis
  proof (cases sc)
    case Nil
    obtain n2 where n: "rs_global_bindings r' = rs_global_bindings r @ n2" using f by (auto simp: frame_def)
    have "map_option rb_mutable (find (\<lambda>b. rb_name b = x) (rs_global_bindings r')) = Some (\<not> c)"
      if "map_option rb_mutable (find (\<lambda>b. rb_name b = x) (rs_global_bindings r)) = Some (\<not> c)"
      using that n by (auto simp: find_append)
    with l show ?thesis by (simp add: z Nil resolved_let_def decls global_find assms(2,3))
  next
    case (Cons s sc')
    have "rr_slot_count (finish r) \<le> rr_slot_count (finish r')" using f by (simp add: frame_def finish_def)
    with l show ?thesis
      by (auto simp: z Cons resolved_let_def decls slot_at_frame [OF f k] split: option.splits)
  qed
qed

lemma resolved_list_frame:
  assumes "frame K G r r'" and "\<And>s z. s \<in> set ss \<Longrightarrow> resolved_stmt (finish r) z s \<Longrightarrow> resolved_stmt (finish r') z s"
    and "\<And>s. s \<in> set ss \<Longrightarrow> set (let_keys s) \<inter> G = {}" and "resolved_stmts (finish r) z ss"
  shows "resolved_stmts (finish r') z ss"
  using assms(2-4)
proof (induction ss arbitrary: z)
  case (Cons s ss)
  have "declared (finish r') s z = declared (finish r) s z" using declared_frame [OF assms(1)] Cons.prems(2) by simp
  with Cons show ?case by simp
qed simp

lemma else_no_block: "\<nexists>ss nd. s = SBlock ss nd \<Longrightarrow> (case s of SBlock ss _ \<Rightarrow> A ss | _ \<Rightarrow> B) = B"
  by (cases s) auto

lemma resolved_stmt_frame:
  assumes f: "frame K G r r'" and g: "good r" "good r'"
  shows "set (use_keys s) \<inter> K = {} \<Longrightarrow> set (let_keys s) \<inter> G = {} \<Longrightarrow> resolved_stmt (finish r) z s \<Longrightarrow> resolved_stmt (finish r') z s"
proof (induction s arbitrary: z)
  case (SLet c x init nd)
  then show ?case
    using resolved_let_frame [OF f g] resolved_expr_frame [OF f] by (auto split: option.splits)
next
  case (SBlock ss nd)
  have "resolved_stmts (finish r') (fst z, Map.empty # snd z) ss"
    by (rule resolved_list_frame [OF f SBlock.IH]) (use SBlock.prems in auto)
  then show ?case by simp
next
  case (SIf c thn els nd)
  have t: "resolved_stmts (finish r') (fst z, Map.empty # snd z) thn"
    by (rule resolved_list_frame [OF f SIf.IH(1)]) (use SIf.prems in auto)
  have e: "case els of Some s \<Rightarrow> (case s of SBlock ss _ \<Rightarrow> resolved_stmts (finish r') (fst z, Map.empty # snd z) ss
      | _ \<Rightarrow> resolved_stmt (finish r') (fst z, Map.empty # snd z) s) | None \<Rightarrow> True"
  proof (cases els)
    case (Some s)
    then have k: "set (use_keys s) \<inter> K = {}" "set (let_keys s) \<inter> G = {}" using SIf.prems by auto
    have IH: "resolved_stmt (finish r) z s \<Longrightarrow> resolved_stmt (finish r') z s" for z using SIf.IH(2) [of s] Some k by simp
    show ?thesis
    proof (cases "\<exists>ss nd. s = SBlock ss nd")
      case True
      then show ?thesis using IH [of z] SIf.prems(3) Some by auto
    next
      case False
      then show ?thesis
        using IH [of "(fst z, Map.empty # snd z)"] SIf.prems(3) Some by (simp add: else_no_block)
    qed
  qed simp
  have "resolved_expr (finish r') (snd z) c" using resolved_expr_frame [OF f] SIf.prems by auto
  with t e show ?case by simp
next
  case (SWhile c body nd)
  have "resolved_stmts (finish r') (fst z, Map.empty # snd z) body"
    by (rule resolved_list_frame [OF f SWhile.IH]) (use SWhile.prems in auto)
  moreover have "resolved_expr (finish r') (snd z) c" using resolved_expr_frame [OF f] SWhile.prems by auto
  ultimately show ?case by simp
qed (use resolved_expr_frame [OF f] in \<open>auto split: option.splits\<close>)

subsection \<open>Every step keeps the contract\<close>

definition tracks :: "resolver \<Rightarrow> rstring set \<times> statics \<Rightarrow> bool" where
  "tracks r z \<longleftrightarrow> good r \<and> rs_scopes r \<noteq> []
     \<and> (\<forall>x. resolve_local_in (rs_scopes r) x = map_option fst (slookup (snd z) x))
     \<and> (\<forall>s \<in> set (snd z). \<forall>x slot m. s x = Some (slot, m) \<longrightarrow> slot < rs_next_slot r \<and> fst (snd (snd (core (rs_bindings r ! slot)))) = m)
     \<and> rb_name ` set (rs_global_bindings r) \<subseteq> fst z"

lemma nth_core: "map core bs' = map core bs \<Longrightarrow> i < length bs \<Longrightarrow> core (bs' ! i) = core (bs ! i)"
  by (metis length_map nth_map)

lemma good_length: "good r \<Longrightarrow> length (rs_bindings r) = rs_next_slot r"
  unfolding good_def by (metis length_map length_upt minus_nat.diff_0)

lemma tracks_sig: "tracks r z \<Longrightarrow> sig r' = sig r \<Longrightarrow> tracks r' z"
proof -
  assume t: "tracks r z" and s: "sig r' = sig r"
  then have b: "map core (rs_bindings r') = map core (rs_bindings r)" and n: "rs_next_slot r' = rs_next_slot r" by (simp_all add: sig_def)
  have "core (rs_bindings r' ! i) = core (rs_bindings r ! i)" if "i < rs_next_slot r" for i
    using nth_core [OF b] that t good_length [of r] by (simp add: tracks_def)
  then show ?thesis using t s good_sig [OF s] by (auto simp: tracks_def sig_def)
qed

lemma slookup_in: "slookup sc x = Some (slot, m) \<Longrightarrow> \<exists>s \<in> set sc. s x = Some (slot, m)"
  by (induction sc) (auto split: option.splits)

lemma tracks_binding:
  assumes "tracks r z" and "slookup (snd z) x = Some (slot, m)"
  shows "\<exists>b. find (\<lambda>b. rb_slot b = slot) (rs_bindings r) = Some b \<and> rb_mutable b = m"
proof -
  from slookup_in [OF assms(2)] assms(1) have lt: "slot < rs_next_slot r" and m: "rb_mutable (rs_bindings r ! slot) = m"
    by (auto simp: tracks_def core_def)
  have g: "good r" using assms(1) by (simp add: tracks_def)
  have slots: "rb_slot (rs_bindings r ! i) = i" if "i < rs_next_slot r" for i
  proof -
    have "map fst (map core (rs_bindings r)) ! i = [0..<rs_next_slot r] ! i" using g by (simp add: good_def)
    then show ?thesis using that good_length [OF g] by (simp add: core_def)
  qed
  have "find (\<lambda>b. rb_slot b = slot) (rs_bindings r) = Some (rs_bindings r ! slot)"
    unfolding find_Some_iff using lt slots good_length [OF g] by (intro exI [of _ slot]) auto
  with m show ?thesis by blast
qed

lemma mark_immutable:
  assumes "tracks r z" and "slookup (snd z) x = Some (slot, m)" and "key \<notin> rs_immutable r"
  shows "(key \<in> rs_immutable (mark_mutated_target x key r)) = (\<not> m)"
proof -
  have "resolve_local r x = Some slot" using assms(1,2) by (simp add: tracks_def resolve_local_def)
  with tracks_binding [OF assms(1,2)] assms(3) show ?thesis by (auto simp: mark_mutated_target_def)
qed

lemma name_immutable: "rs_immutable (snd (resolve_name x r)) = rs_immutable r"
  by (auto simp: resolve_name_def bump_use_def split: option.splits)

lemma name_ref_ok:
  assumes "tracks r z"
  shows "rr_uses (finish (resolve_expr (CNameRef x nd) r)) (text_range nd) = Some (resolution_of (snd z) x)"
    "rs_immutable (resolve_expr (CNameRef x nd) r) = rs_immutable r"
  using assms name_immutable [of x r]
  by (auto simp: tracks_def finish_def resolve_name_def resolve_local_def resolution_of_def bump_use_def Let_def split: option.splits)

lemma imm_frame:
  assumes "frame K' G r r'" and "K' \<inter> K = {}" and "K \<inter> rs_immutable r = {}"
  shows "K \<inter> rs_immutable r' = {}"
proof -
  have "k \<in> rs_immutable r' \<longleftrightarrow> k \<in> rs_immutable r" if "k \<notin> K'" for k using assms(1) that by (simp add: frame_def)
  with assms(2,3) show ?thesis by blast
qed

lemmas expr_fresh = imm_frame [OF expr_frame]

lemma exprs_frame: "frame (set (concat (map name_keys es))) {} r (fold resolve_expr es r)"
proof (induction es arbitrary: r)
  case (Cons e es)
  from frame_trans [OF expr_frame Cons.IH] show ?case by simp
qed simp

lemma exprs_ok:
  assumes "\<And>e r. e \<in> set es \<Longrightarrow> tracks r z \<Longrightarrow> set (name_keys e) \<inter> rs_immutable r = {} \<Longrightarrow> distinct (name_keys e)
      \<Longrightarrow> resolved_expr (finish (resolve_expr e r)) (snd z) e"
    and "tracks r z" and "set (concat (map name_keys es)) \<inter> rs_immutable r = {}" and "distinct (concat (map name_keys es))"
  shows "\<forall>e \<in> set es. resolved_expr (finish (fold resolve_expr es r)) (snd z) e"
  using assms
proof (induction es arbitrary: r)
  case (Cons e es)
  let ?r1 = "resolve_expr e r"
  have "resolved_expr (finish ?r1) (snd z) e" using Cons.prems by (auto simp: Int_Un_distrib2)
  then have "resolved_expr (finish (fold resolve_expr es ?r1)) (snd z) e"
    by (rule resolved_expr_frame [OF exprs_frame, rotated]) (use Cons.prems(4) in auto)
  moreover have "set (concat (map name_keys es)) \<inter> rs_immutable ?r1 = {}"
    by (rule expr_fresh) (use Cons.prems(3,4) in auto)
  then have "\<forall>e \<in> set es. resolved_expr (finish (fold resolve_expr es ?r1)) (snd z) e"
    using Cons.prems tracks_sig [OF Cons.prems(2) expr_sig] by (intro Cons.IH) auto
  ultimately show ?case by simp
qed simp

lemma expr_ok:
  "tracks r z \<Longrightarrow> set (name_keys e) \<inter> rs_immutable r = {} \<Longrightarrow> distinct (name_keys e) \<Longrightarrow> resolved_expr (finish (resolve_expr e r)) (snd z) e"
proof (induction e arbitrary: r)
  case (CNameRef x nd)
  then show ?case using name_ref_ok(1) [OF CNameRef.prems(1)] by simp
next
  case (CBinary op a b nd)
  then show ?case using exprs_ok [of "[a, b]" z r] by auto
next
  case (CTernary c a b nd)
  then show ?case using exprs_ok [of "[c, a, b]" z r] by auto
next
  case (CRange a b incl step nd)
  let ?es = "[a, b] @ (case step of Some s \<Rightarrow> [s] | None \<Rightarrow> [])"
  have IH: "tracks r z \<Longrightarrow> set (name_keys e) \<inter> rs_immutable r = {} \<Longrightarrow> distinct (name_keys e)
      \<Longrightarrow> resolved_expr (finish (resolve_expr e r)) (snd z) e" if "e \<in> set ?es" for e r
    using that CRange.IH by (auto split: option.splits)
  have "\<forall>e \<in> set ?es. resolved_expr (finish (fold resolve_expr ?es r)) (snd z) e"
    by (rule exprs_ok [OF IH]) (use CRange.prems in \<open>auto split: option.splits\<close>)
  then show ?case by (cases step) (auto simp: Let_def)
next
  case (CAssign tok target v nd)
  show ?case
  proof (cases "\<exists>x tnd. target = CNameRef x tnd")
    case False
    then have run: "resolve_expr (CAssign tok target v nd) r = fold resolve_expr [target, v] r" by (cases target) auto
    have IH: "tracks r z \<Longrightarrow> set (name_keys e) \<inter> rs_immutable r = {} \<Longrightarrow> distinct (name_keys e)
        \<Longrightarrow> resolved_expr (finish (resolve_expr e r)) (snd z) e" if "e \<in> set [target, v]" for e r
      using that CAssign.IH by auto
    have "\<forall>e \<in> set [target, v]. resolved_expr (finish (fold resolve_expr [target, v] r)) (snd z) e"
      by (rule exprs_ok [OF IH]) (use CAssign.prems in auto)
    moreover have "case target of CNameRef x tnd \<Rightarrow> Q x tnd | _ \<Rightarrow> True" for Q using False by (cases target) auto
    ultimately show ?thesis unfolding run by simp
  next
    case True
    then obtain x tnd where target: "target = CNameRef x tnd" by blast
    let ?r1 = "mark_mutated_target x (text_range tnd) r"
    let ?r2 = "resolve_expr (CNameRef x tnd) ?r1"
    have t: "tracks ?r1 z" "tracks ?r2 z" using tracks_sig [OF CAssign.prems(1)] mark_sig expr_sig by metis+
    have imm: "rs_immutable ?r2 = rs_immutable ?r1" by (rule name_ref_ok(2) [OF t(1)])
    have f: "frame (set (name_keys v)) {} ?r2 (resolve_expr v ?r2)" by (rule expr_frame)
    have key: "text_range tnd \<notin> set (name_keys v)" "text_range tnd \<notin> rs_immutable r" using CAssign.prems target by auto
    have "k \<in> rs_immutable ?r1 \<longleftrightarrow> k \<in> rs_immutable r" if "k \<noteq> text_range tnd" for k
      using mark_frame [of "text_range tnd" "{}" r x] that by (simp add: frame_def)
    moreover have "set (name_keys v) \<inter> rs_immutable r = {}" using CAssign.prems(2) by auto
    ultimately have "set (name_keys v) \<inter> rs_immutable ?r2 = {}" using key(1) unfolding imm by (metis disjoint_iff)
    then have "resolved_expr (finish (resolve_expr v ?r2)) (snd z) v"
      using CAssign.prems(3) t(2) by (intro CAssign.IH) auto
    moreover have "resolved_expr (finish (resolve_expr v ?r2)) (snd z) target"
      by (rule resolved_expr_frame [OF f]) (use name_ref_ok(1) [OF t(1)] key target in auto)
    moreover have "(text_range tnd \<in> rr_immutable (finish (resolve_expr v ?r2))) = (\<not> m)" if "slookup (snd z) x = Some (slot, m)" for slot m
      using mark_immutable [OF CAssign.prems(1) that key(2)] imm f key(1) by (simp add: frame_def finish_def)
    ultimately show ?thesis using target by (auto simp: Let_def split: option.splits)
  qed
qed auto

text \<open>A declaration.\<close>

definition let_fresh :: "resolver \<Rightarrow> span set \<Rightarrow> bool" where
  "let_fresh r G \<longleftrightarrow> G \<inter> rs_global_decls r = {} \<and> G \<inter> rb_decl ` set (rs_bindings r) = {} \<and> G \<inter> rb_decl ` set (rs_global_bindings r) = {}"

lemma decl_core: "rb_decl ` set bs = (fst \<circ> snd) ` set (map core bs)"
  by (simp add: core_def image_image comp_def)

lemma disjoint_grow: "A' \<subseteq> A \<union> G \<Longrightarrow> G' \<inter> G = {} \<Longrightarrow> G' \<inter> A = {} \<Longrightarrow> G' \<inter> A' = {}"
  by blast

lemma fresh_frame: "frame K G r r' \<Longrightarrow> G' \<inter> G = {} \<Longrightarrow> let_fresh r G' \<Longrightarrow> let_fresh r' G'"
proof -
  assume f: "frame K G r r'" and d: "G' \<inter> G = {}" and l: "let_fresh r G'"
  obtain n1 n2 where "map core (rs_bindings r') = map core (rs_bindings r) @ map core n1" "rb_decl ` set n1 \<subseteq> G"
    "rs_global_bindings r' = rs_global_bindings r @ n2" "rb_decl ` set n2 \<subseteq> G"
    using f by (auto simp: frame_def)
  then have b: "rb_decl ` set (rs_bindings r') \<subseteq> rb_decl ` set (rs_bindings r) \<union> G"
    and g: "rb_decl ` set (rs_global_bindings r') \<subseteq> rb_decl ` set (rs_global_bindings r) \<union> G"
    unfolding decl_core [of "rs_bindings r'"] decl_core [of "rs_bindings r"] by (auto simp: core_def)
  have decls: "rs_global_decls r' \<subseteq> rs_global_decls r \<union> G" using f by (auto simp: frame_def)
  have "G' \<inter> rs_global_decls r = {}" "G' \<inter> rb_decl ` set (rs_bindings r) = {}" "G' \<inter> rb_decl ` set (rs_global_bindings r) = {}"
    using l by (simp_all add: let_fresh_def)
  note old = this
  have "G' \<inter> rs_global_decls r' = {}" by (rule disjoint_grow [OF decls d old(1)])
  moreover have "G' \<inter> rb_decl ` set (rs_bindings r') = {}" by (rule disjoint_grow [OF b d old(2)])
  moreover have "G' \<inter> rb_decl ` set (rs_global_bindings r') = {}" by (rule disjoint_grow [OF g d old(3)])
  ultimately show "let_fresh r' G'" by (simp add: let_fresh_def)
qed

lemma let_top_ok:
  assumes t: "tracks r (D, [])" and top: "at_module_top r" "x \<in> rs_module_globals r"
  shows "resolved_let (finish (declare_let_bindings c x nd r)) (D, []) c x nd" "tracks (declare_let_bindings c x nd r) (insert x D, [])"
proof -
  let ?r = "declare_let_bindings c x nd r"
  have good: "good ?r" using t good_let by (simp add: tracks_def)
  have "map_option rb_mutable (find (\<lambda>b. rb_name b = x) (rs_global_bindings ?r)) = Some (\<not> c)" if "x \<notin> D"
  proof -
    have "\<not> list_ex (\<lambda>b. rb_name b = x) (rs_global_bindings r)" "find (\<lambda>b. rb_name b = x) (rs_global_bindings r) = None"
      using t that by (auto simp: tracks_def list_ex_iff find_None_iff)
    then show ?thesis
      using top by (simp add: declare_let_bindings_def declare_binding_def declare_binding_mut_def declare_global_def Let_def
          find_append let_kind_def kind_is_mutable_def)
  qed
  moreover have "text_range nd \<in> rr_global_decls (finish ?r)"
    using top by (simp add: declare_let_bindings_def declare_binding_def declare_binding_mut_def declare_global_def Let_def finish_def)
  ultimately show "resolved_let (finish ?r) (D, []) c x nd" by (simp add: resolved_let_def global_find [OF good])
  show "tracks ?r (insert x D, [])"
    using t good top
    by (auto simp: tracks_def declare_let_bindings_def declare_binding_def declare_binding_mut_def declare_global_def Let_def)
qed

lemma let_block_ok:
  assumes t: "tracks r (D, s # sc)" and nt: "\<not> at_module_top r" and "s x = None" and fresh: "let_fresh r {text_range nd}"
  shows "resolved_let (finish (declare_let_bindings c x nd r)) (D, s # sc) c x nd"
    "tracks (declare_let_bindings c x nd r) (declared (finish (declare_let_bindings c x nd r)) (SLet c x init nd) (D, s # sc))"
proof -
  let ?r = "declare_let_bindings c x nd r" and ?n = "rs_next_slot r"
  have good: "good ?r" using t good_let by (simp add: tracks_def)
  let ?b = "\<lparr>rb_name = x, rb_kind = let_kind c, rb_slot = ?n, rb_decl = text_range nd, rb_captured = False, rb_mutated = False,
    rb_use_count = 0, rb_shadows = shadowed r x, rb_mutable = (\<not> c), rb_global = False\<rparr>"
  have r: "?r = r\<lparr>rs_next_slot := ?n + 1, rs_bindings := rs_bindings r @ [?b], rs_scopes := (hd (rs_scopes r))(x \<mapsto> ?n) # tl (rs_scopes r)\<rparr>"
    using nt by (simp add: declare_let_bindings_def declare_binding_def declare_binding_mut_def declare_mut_def Let_def let_kind_def kind_is_mutable_def)
  have "find (\<lambda>b. rb_decl b = text_range nd) (rs_bindings r) = None" using fresh by (force simp: let_fresh_def find_None_iff)
  then have slot: "slot_at (finish ?r) nd = Some ?n" by (simp add: slot_at_def finish_def find_append r)
  have len: "length (rs_bindings r) = ?n" using t good_length by (simp add: tracks_def)
  have "?n \<notin> all_slots (s # sc)"
  proof
    assume "?n \<in> all_slots (s # sc)"
    then obtain s0 y m where "s0 \<in> set (s # sc)" "s0 y = Some (?n, m)" by (auto simp: all_slots_def slots_of_def)
    with t have "?n < ?n" unfolding tracks_def snd_conv by blast
    then show False by simp
  qed
  moreover have "text_range nd \<notin> rr_global_decls (finish ?r)" using fresh by (simp add: let_fresh_def finish_def r)
  ultimately show "resolved_let (finish ?r) (D, s # sc) c x nd"
    using assms(3) slot by (simp add: resolved_let_def finish_def r)
  obtain h rest where scopes: "rs_scopes r = h # rest" using t by (cases "rs_scopes r") (auto simp: tracks_def)
  have look: "resolve_local_in (h # rest) y = map_option fst (slookup (s # sc) y)" for y using t scopes by (simp add: tracks_def)
  have "resolve_local_in (rs_scopes ?r) y = map_option fst (slookup (s(x \<mapsto> (?n, \<not> c)) # sc) y)" for y
    using look [of y] scopes by (simp add: r)
  moreover have "slot < ?n + 1 \<and> fst (snd (snd (core (rs_bindings ?r ! slot)))) = m"
    if "s' \<in> set (s(x \<mapsto> (?n, \<not> c)) # sc)" "s' y = Some (slot, m)" for s' y slot m
  proof (cases "s' = s(x \<mapsto> (?n, \<not> c)) \<and> y = x")
    case True
    then show ?thesis using that by (auto simp: r nth_append len core_def)
  next
    case False
    then have "\<exists>s0 \<in> set (s # sc). s0 y = Some (slot, m)" using that by auto
    then have "slot < ?n \<and> fst (snd (snd (core (rs_bindings r ! slot)))) = m" using t by (auto simp: tracks_def)
    then show ?thesis by (simp add: r nth_append len)
  qed
  ultimately show "tracks ?r (declared (finish ?r) (SLet c x init nd) (D, s # sc))"
    using t good slot by (simp add: tracks_def r)
qed

text \<open>Scopes.\<close>

lemma tracks_empty [simp]: "tracks r (D, Map.empty # sc) = tracks r (D, sc)"
  by (simp add: tracks_def)

lemma tracks_push: "tracks r (D, sc) \<Longrightarrow> tracks (push_scope r) (D, Map.empty # sc)" "tracks r z \<Longrightarrow> \<not> at_module_top (push_scope r)"
  by (simp_all add: tracks_def push_scope_def at_module_top_def good_def)

lemma tracks_pop:
  assumes t: "tracks r z" and f: "frame K G (push_scope r) r1" and t1: "tracks r1 z1" and "fst z1 = fst z"
  shows "tracks (pop_scope r1) z"
proof -
  have scopes: "rs_scopes (pop_scope r1) = rs_scopes r" by (rule block_frame(2) [OF f])
  obtain n1 where b: "map core (rs_bindings r1) = map core (rs_bindings r) @ map core n1" and n: "rs_next_slot r \<le> rs_next_slot r1"
    using f by (auto simp: frame_def push_scope_def)
  have len: "length (rs_bindings r) = rs_next_slot r" using t good_length by (simp add: tracks_def)
  have "core (rs_bindings r1 ! i) = core (rs_bindings r ! i)" if "i < rs_next_slot r" for i
  proof -
    have "length (rs_bindings r) \<le> length (rs_bindings r1)" using arg_cong [OF b, of length] by simp
    then have "core (rs_bindings r1 ! i) = map core (rs_bindings r1) ! i" using that len by simp
    also have "\<dots> = core (rs_bindings r ! i)" using that len by (simp add: b nth_append)
    finally show ?thesis .
  qed
  then show ?thesis
    using t t1 assms(4) n scopes by (fastforce simp: tracks_def pop_scope_def good_def)
qed

definition fits :: "resolver \<Rightarrow> rstring set \<times> statics \<Rightarrow> rstring list \<Rightarrow> bool" where
  "fits r z names \<longleftrightarrow> (names \<noteq> [] \<longrightarrow> (snd z = [] \<longleftrightarrow> at_module_top r))
     \<and> (case snd z of [] \<Rightarrow> set names \<subseteq> rs_module_globals r | h # _ \<Rightarrow> distinct names \<and> (\<forall>x \<in> set names. h x = None))"

definition keeps :: "cst_stmt \<Rightarrow> bool" where
  "keeps s \<longleftrightarrow> (\<forall>r z. tracks r z \<longrightarrow> fits r z (let_names s) \<longrightarrow> distinct (use_keys s) \<longrightarrow> distinct (let_keys s)
     \<longrightarrow> set (use_keys s) \<inter> rs_immutable r = {} \<longrightarrow> let_fresh r (set (let_keys s))
     \<longrightarrow> resolved_stmt (finish (resolve_stmt s r)) z s \<and> tracks (resolve_stmt s r) (declared (finish (resolve_stmt s r)) s z))"

lemma keepsD:
  "keeps s \<Longrightarrow> tracks r z \<Longrightarrow> fits r z (let_names s) \<Longrightarrow> distinct (use_keys s) \<Longrightarrow> distinct (let_keys s)
    \<Longrightarrow> set (use_keys s) \<inter> rs_immutable r = {} \<Longrightarrow> let_fresh r (set (let_keys s))
    \<Longrightarrow> resolved_stmt (finish (resolve_stmt s r)) z s \<and> tracks (resolve_stmt s r) (declared (finish (resolve_stmt s r)) s z)"
  unfolding keeps_def by blast

lemma declared_fst: "snd z \<noteq> [] \<Longrightarrow> fst (declared rr s z) = fst z \<and> snd (declared rr s z) \<noteq> []"
  by (cases s; cases z; cases "snd z") auto

lemma fits_rest:
  assumes "fits r z (let_names s @ names)" and f: "frame K G r r'"
  shows "fits r z (let_names s)" "fits r' (declared rr s z) names"
proof -
  have "at_module_top r' = at_module_top r" "rs_module_globals r' = rs_module_globals r" using f by (auto simp: frame_def at_module_top_def)
  with assms(1) show "fits r z (let_names s)" "fits r' (declared rr s z) names"
    by (cases s; cases z; cases "snd z"; auto simp: fits_def)+
qed

lemma stmts_ok:
  "(\<And>s. s \<in> set ss \<Longrightarrow> keeps s) \<Longrightarrow> tracks r z \<Longrightarrow> fits r z (concat (map let_names ss)) \<Longrightarrow> distinct (concat (map use_keys ss))
    \<Longrightarrow> distinct (concat (map let_keys ss)) \<Longrightarrow> set (concat (map use_keys ss)) \<inter> rs_immutable r = {} \<Longrightarrow> let_fresh r (set (concat (map let_keys ss)))
    \<Longrightarrow> resolved_stmts (finish (resolve_stmts ss r)) z ss \<and> (\<exists>z'. tracks (resolve_stmts ss r) z' \<and> (snd z \<noteq> [] \<longrightarrow> fst z' = fst z))"
proof (induction ss arbitrary: r z)
  case (Cons s ss)
  let ?r1 = "resolve_stmt s r" let ?r2 = "resolve_stmts ss ?r1" and ?K = "\<Union>s \<in> set ss. set (use_keys s)" and ?G = "\<Union>s \<in> set ss. set (let_keys s)"
  have ne: "rs_scopes r \<noteq> []" using Cons.prems(2) by (simp add: tracks_def)
  note f1 = stmt_frame(1) [OF ne, of s]
  note f2 = stmt_frame(2) [OF frame_scopes [OF f1 ne], of ss]
  have d: "set (use_keys s) \<inter> ?K = {}" "set (let_keys s) \<inter> ?G = {}" using Cons.prems(4,5) by auto
  have fit: "fits r z (let_names s)" "fits ?r1 (declared (finish ?r1) s z) (concat (map let_names ss))"
    using fits_rest [OF _ f1] Cons.prems(3) by simp_all
  have lf: "let_fresh r (set (let_keys s))" "let_fresh r ?G" using Cons.prems(7) by (auto simp: let_fresh_def)
  have s: "resolved_stmt (finish ?r1) z s" "tracks ?r1 (declared (finish ?r1) s z)"
    using keepsD [OF _ Cons.prems(2) fit(1) _ _ _ lf(1)] Cons.prems(1,4-6) by auto
  have "?K \<inter> rs_immutable r = {}" using Cons.prems(6) by auto
  then have "?K \<inter> rs_immutable ?r1 = {}" by (rule imm_frame [OF f1 d(1)])
  moreover have "let_fresh ?r1 ?G" by (rule fresh_frame [OF f1 _ lf(2)]) (use d(2) in blast)
  ultimately obtain z' where rest: "resolved_stmts (finish ?r2) (declared (finish ?r1) s z) ss" "tracks ?r2 z'"
    "snd (declared (finish ?r1) s z) \<noteq> [] \<Longrightarrow> fst z' = fst (declared (finish ?r1) s z)"
    using Cons.IH [of ?r1 "declared (finish ?r1) s z"] Cons.prems(1,4,5) s(2) fit(2) by auto
  have g: "good ?r1" "good ?r2" using s(2) rest(2) by (simp_all add: tracks_def)
  have "resolved_stmt (finish ?r2) z s" by (rule resolved_stmt_frame [OF f2 g d s(1)])
  moreover have "declared (finish ?r2) s z = declared (finish ?r1) s z" by (rule declared_frame [OF f2 d(2)])
  ultimately have "resolved_stmts (finish ?r2) z (s # ss)" using rest(1) by simp
  moreover have "snd z \<noteq> [] \<longrightarrow> fst z' = fst z" using rest(3) declared_fst [of z "finish ?r1" s] by simp
  ultimately show ?case using rest(2) unfolding resolve_stmts.simps by blast
qed auto

lemma block_ok:
  assumes k: "\<And>s. s \<in> set ss \<Longrightarrow> keeps s" and t: "tracks r z" and "distinct (concat (map let_names ss))"
    and keys: "distinct (concat (map use_keys ss))" "distinct (concat (map let_keys ss))" "set (concat (map use_keys ss)) \<inter> rs_immutable r = {}"
    and fresh: "let_fresh r (set (concat (map let_keys ss)))"
  defines "r1 \<equiv> pop_scope (resolve_stmts ss (push_scope r))"
  shows "resolved_stmts (finish r1) (fst z, Map.empty # snd z) ss" "tracks r1 z" "good r1"
    "frame (set (concat (map use_keys ss))) (set (concat (map let_keys ss))) r r1"
proof -
  let ?r = "push_scope r"
  have t1: "tracks ?r (fst z, Map.empty # snd z)" and nt: "\<not> at_module_top ?r" using tracks_push(1) [of r "fst z" "snd z"] tracks_push(2) [OF t] t by auto
  have "fits ?r (fst z, Map.empty # snd z) (concat (map let_names ss))" using nt assms(3) by (auto simp: fits_def)
  moreover have "set (concat (map use_keys ss)) \<inter> rs_immutable ?r = {}" "let_fresh ?r (set (concat (map let_keys ss)))"
    using keys(3) fresh by (simp_all add: push_scope_def let_fresh_def)
  ultimately obtain z' where o: "resolved_stmts (finish (resolve_stmts ss ?r)) (fst z, Map.empty # snd z) ss" "tracks (resolve_stmts ss ?r) z'" "fst z' = fst z"
    using stmts_ok [OF k t1 _ keys(1,2)] by auto
  have f: "frame (set (concat (map use_keys ss))) (set (concat (map let_keys ss))) ?r (resolve_stmts ss ?r)"
    using stmt_frame(2) [of ?r ss] by (simp add: push_scope_def)
  have "finish r1 = finish (resolve_stmts ss ?r)" by (simp add: r1_def finish_def pop_scope_def)
  with o(1) show "resolved_stmts (finish r1) (fst z, Map.empty # snd z) ss" by simp
  show "tracks r1 z" unfolding r1_def by (rule tracks_pop [OF t f o(2,3)])
  then show "good r1" by (simp add: tracks_def)
  show "frame (set (concat (map use_keys ss))) (set (concat (map let_keys ss))) r r1" unfolding r1_def by (rule block_frame(1) [OF f])
qed

lemma after_expr:
  assumes "tracks r z" and "set (name_keys e) \<inter> rs_immutable r = {}" and "distinct (name_keys e)"
    and "set (name_keys e) \<inter> K = {}" and "K \<inter> rs_immutable r = {}" and "let_fresh r G"
  shows "resolved_expr (finish (resolve_expr e r)) (snd z) e" "tracks (resolve_expr e r) z"
    "K \<inter> rs_immutable (resolve_expr e r) = {}" "let_fresh (resolve_expr e r) G"
  using expr_ok [OF assms(1-3)] tracks_sig [OF assms(1) expr_sig] expr_fresh [OF assms(4,5)] fresh_frame [OF expr_frame _ assms(6)] by auto

lemma keepsI:
  "(\<And>r z. tracks r z \<Longrightarrow> fits r z (let_names s) \<Longrightarrow> distinct (use_keys s) \<Longrightarrow> distinct (let_keys s)
      \<Longrightarrow> set (use_keys s) \<inter> rs_immutable r = {} \<Longrightarrow> let_fresh r (set (let_keys s))
      \<Longrightarrow> resolved_stmt (finish (resolve_stmt s r)) z s \<and> tracks (resolve_stmt s r) (declared (finish (resolve_stmt s r)) s z)) \<Longrightarrow> keeps s"
  unfolding keeps_def by blast

lemma keeps_let: "keeps (SLet c x init nd)"
proof (rule keepsI)
  fix r z
  let ?s = "SLet c x init nd" and ?r1 = "case init of Some e \<Rightarrow> resolve_expr e r | None \<Rightarrow> r"
  let ?r2 = "declare_let_bindings c x nd ?r1"
  assume a: "tracks r z" "fits r z (let_names ?s)" "distinct (use_keys ?s)" "set (use_keys ?s) \<inter> rs_immutable r = {}" "let_fresh r (set (let_keys ?s))"
  have r1: "case init of Some e \<Rightarrow> resolved_expr (finish ?r1) (snd z) e | None \<Rightarrow> True" "tracks ?r1 z" "let_fresh ?r1 {text_range nd}" "sig ?r1 = sig r"
    using a after_expr [of r z _ "{}" "{text_range nd}"] expr_sig by (auto split: option.splits)
  have ne: "rs_scopes ?r1 \<noteq> []" using r1(2) by (simp add: tracks_def)
  have e: "case init of Some e \<Rightarrow> resolved_expr (finish ?r2) (snd z) e | None \<Rightarrow> True"
    using r1(1) resolved_expr_frame [OF let_frame [OF ne]] by (auto split: option.splits)
  have top: "at_module_top ?r1 = at_module_top r" "rs_module_globals ?r1 = rs_module_globals r"
    using r1(4) by (simp_all add: sig_def at_module_top_def)
  obtain D sc where z: "z = (D, sc)" by (cases z)
  have "resolved_let (finish ?r2) z c x nd \<and> tracks ?r2 (declared (finish ?r2) ?s z)"
  proof (cases sc)
    case Nil
    with let_top_ok [of ?r1 D x c nd] a(2) r1(2) top z show ?thesis by (simp add: fits_def)
  next
    case (Cons h t)
    with let_block_ok(1) [of ?r1 D h t x nd c] let_block_ok(2) [of ?r1 D h t x nd c init] a(2) r1(2,3) top z show ?thesis by (simp add: fits_def)
  qed
  with e show "resolved_stmt (finish (resolve_stmt ?s r)) z ?s \<and> tracks (resolve_stmt ?s r) (declared (finish (resolve_stmt ?s r)) ?s z)" by simp
qed

lemma keeps_if:
  assumes thn: "\<And>s. s \<in> set thn \<Longrightarrow> keeps s" "distinct (concat (map let_names thn))"
    and els: "\<And>s. els = Some s \<Longrightarrow> keeps s \<and> (case s of SBlock _ _ \<Rightarrow> True | SIf _ _ _ _ \<Rightarrow> True | _ \<Rightarrow> False)"
  shows "keeps (SIf c thn els nd)"
proof (rule keepsI)
  fix r z
  let ?s = "SIf c thn els nd" and ?r1 = "resolve_expr c r"
  let ?r2 = "pop_scope (resolve_stmts thn (push_scope ?r1))"
  let ?K = "set (concat (map use_keys thn))" and ?G = "set (concat (map let_keys thn))"
  let ?KE = "case els of Some s \<Rightarrow> set (use_keys s) | None \<Rightarrow> {}" and ?GE = "case els of Some s \<Rightarrow> set (let_keys s) | None \<Rightarrow> {}"
  assume a: "tracks r z" "distinct (use_keys ?s)" "distinct (let_keys ?s)" "set (use_keys ?s) \<inter> rs_immutable r = {}" "let_fresh r (set (let_keys ?s))"
  have ks: "set (name_keys c) \<inter> rs_immutable r = {}" "distinct (name_keys c)" "set (name_keys c) \<inter> (?K \<union> ?KE) = {}"
    "(?K \<union> ?KE) \<inter> rs_immutable r = {}" "let_fresh r (?G \<union> ?GE)"
    using a by (cases els; auto)+
  note c = after_expr [OF a(1) ks]
  have d: "distinct (concat (map use_keys thn))" "distinct (concat (map let_keys thn))" using a(2,3) by auto
  have u: "?K \<inter> rs_immutable ?r1 = {}" "let_fresh ?r1 ?G" using c(3,4) by (auto simp: let_fresh_def)
  note b = block_ok [OF thn(1) c(2) thn(2) d u]
  have g1: "good ?r1" using c(2) by (simp add: tracks_def)
  have c2: "resolved_expr (finish ?r2) (snd z) c" by (rule resolved_expr_frame [OF b(4) _ c(1)]) (use a(2) in auto)
  show "resolved_stmt (finish (resolve_stmt ?s r)) z ?s \<and> tracks (resolve_stmt ?s r) (declared (finish (resolve_stmt ?s r)) ?s z)"
  proof (cases els)
    case None
    with b c2 show ?thesis by (simp add: Let_def)
  next
    case (Some s)
    let ?r3 = "resolve_stmt s ?r2"
    have ks: "keeps s" and shape: "(\<exists>ss nd. s = SBlock ss nd) \<or> (\<exists>c t e nd. s = SIf c t e nd)" using els [OF Some] by (auto split: cst_stmt.splits)
    then have nl: "let_names s = []" "declared rr s z' = z'" for rr z' by auto
    have "set (use_keys s) \<inter> rs_immutable ?r2 = {}" by (rule imm_frame [OF b(4)]) (use c(3) a(2) Some in auto)
    moreover have "let_fresh ?r2 (set (let_keys s))" by (rule fresh_frame [OF b(4)]) (use a(3) c(4) Some in \<open>auto simp: let_fresh_def\<close>)
    moreover have "distinct (use_keys s)" "distinct (let_keys s)" using a(2,3) Some by auto
    moreover have "fits ?r2 z' (let_names s)" for z' using nl by (simp add: fits_def split: list.splits)
    moreover have "tracks ?r2 (fst z, Map.empty # snd z)" using b(2) by simp
    ultimately have e: "resolved_stmt (finish ?r3) z s \<and> tracks ?r3 z" "resolved_stmt (finish ?r3) (fst z, Map.empty # snd z) s"
      using keepsD [OF ks] b(2) nl(2) by metis+
    note f = stmt_frame(1) [of ?r2 s]
    have ne: "rs_scopes ?r2 \<noteq> []" using b(2) by (simp add: tracks_def)
    have g3: "good ?r3" using e by (simp add: tracks_def)
    have "resolved_stmts (finish ?r3) (fst z, Map.empty # snd z) thn"
      by (rule resolved_list_frame [OF f [OF ne] resolved_stmt_frame [OF f [OF ne] b(3) g3]]) (use a(2,3) b(1) Some in auto)
    moreover have "resolved_expr (finish ?r3) (snd z) c" by (rule resolved_expr_frame [OF f [OF ne] _ c2]) (use a(2) Some in auto)
    moreover have "case s of SBlock ss _ \<Rightarrow> resolved_stmts (finish ?r3) (fst z, Map.empty # snd z) ss
        | _ \<Rightarrow> resolved_stmt (finish ?r3) (fst z, Map.empty # snd z) s"
      using shape e by auto
    ultimately show ?thesis using e(1) Some by (simp add: Let_def)
  qed
qed

lemma tree_keeps: "tree_ok s \<Longrightarrow> keeps s"
proof (induction s)
  case (SLet c x init nd)
  show ?case by (rule keeps_let)
next
  case (SBlock ss nd)
  show ?case
  proof (rule keepsI)
    fix r z assume a: "tracks r z" "distinct (use_keys (SBlock ss nd))" "distinct (let_keys (SBlock ss nd))"
      "set (use_keys (SBlock ss nd)) \<inter> rs_immutable r = {}" "let_fresh r (set (let_keys (SBlock ss nd)))"
    have k: "keeps s" if "s \<in> set ss" for s using SBlock that by (auto simp: list_all_iff)
    from block_ok [OF k a(1)] a SBlock.prems
    show "resolved_stmt (finish (resolve_stmt (SBlock ss nd) r)) z (SBlock ss nd)
        \<and> tracks (resolve_stmt (SBlock ss nd) r) (declared (finish (resolve_stmt (SBlock ss nd) r)) (SBlock ss nd) z)"
      by simp
  qed
next
  case (SIf c thn els nd)
  show ?case by (rule keeps_if) (use SIf in \<open>auto simp: list_all_iff\<close>)
next
  case (SWhile c body nd)
  have "keeps (SIf c body None nd)" by (rule keeps_if) (use SWhile in \<open>auto simp: list_all_iff\<close>)
  then show ?case by (simp add: keeps_def Let_def)
next
  case (SExpr e nd)
  show ?case by (rule keepsI) (use after_expr [where K = "{}" and G = "{}"] in \<open>simp add: let_fresh_def\<close>)
next
  case (SReturn e nd)
  show ?case
    by (rule keepsI) (use after_expr [where K = "{}" and G = "{}"] in \<open>auto simp: let_fresh_def split: option.splits\<close>)
qed (auto simp: keeps_def)

text \<open>Every file whose keys are distinct is resolved as the compiler expects.\<close>

lemma collect_globals:
  "rs_module_globals (fold collect_module_globals ss r) = rs_module_globals r \<union> set (concat (map let_names ss))
    \<and> sig (fold collect_module_globals ss r\<lparr>rs_module_globals := {}\<rparr>) = sig (r\<lparr>rs_module_globals := {}\<rparr>)
    \<and> rs_immutable (fold collect_module_globals ss r) = rs_immutable r"
proof (induction ss arbitrary: r)
  case (Cons s ss)
  have "rs_module_globals (collect_module_globals s r) = rs_module_globals r \<union> set (let_names s)"
    "sig (collect_module_globals s r\<lparr>rs_module_globals := {}\<rparr>) = sig (r\<lparr>rs_module_globals := {}\<rparr>)"
    "rs_immutable (collect_module_globals s r) = rs_immutable r"
    by (cases s; simp add: collect_module_globals_def register_global_def sig_def)+
  with Cons show ?case by auto
qed simp

lemma finish_pop [simp]: "finish (pop_scope r) = finish r"
  by (simp add: finish_def pop_scope_def)

lemma resolve_resolved:
  assumes "list_all tree_ok ss" and "distinct (concat (map use_keys ss))" and "distinct (concat (map let_keys ss))"
  shows "resolved_stmts (resolve ss) ({}, []) ss" "rr_cell_slots (resolve ss) = []"
proof -
  let ?r0 = "fold collect_module_globals ss (push_scope resolver_new)"
  have c: "rs_module_globals ?r0 = set (concat (map let_names ss))" "rs_immutable ?r0 = {}" "rs_bindings ?r0 = []" "rs_next_slot ?r0 = 0"
    "rs_global_bindings ?r0 = []" "rs_scopes ?r0 = [Map.empty]" "rs_global_decls ?r0 = {}"
    using collect_globals [of ss "push_scope resolver_new"] by (auto simp: sig_def push_scope_def resolver_new_def)
  have t: "tracks ?r0 ({}, [])" by (simp add: tracks_def good_def c)
  have fit: "fits ?r0 ({}, []) (concat (map let_names ss))" by (simp add: fits_def at_module_top_def c)
  have k: "keeps s" if "s \<in> set ss" for s using assms(1) that tree_keeps by (simp add: list_all_iff)
  have fresh: "set (concat (map use_keys ss)) \<inter> rs_immutable ?r0 = {}" "let_fresh ?r0 (set (concat (map let_keys ss)))"
    by (simp_all add: let_fresh_def c)
  from stmts_ok [OF k t fit assms(2,3) fresh] obtain z where
    o: "resolved_stmts (finish (resolve_stmts ss ?r0)) ({}, []) ss" "tracks (resolve_stmts ss ?r0) z" by auto
  then show "resolved_stmts (resolve ss) ({}, []) ss" by (simp add: resolve_def resolve_file_def)
  have "good (resolve_stmts ss ?r0)" using o(2) by (simp add: tracks_def)
  then have "filter (\<lambda>b. rb_captured b \<and> rb_mutated b) (rs_bindings (resolve_stmts ss ?r0)) = []"
    by (auto simp: good_def core_def filter_empty_conv)
  then show "rr_cell_slots (resolve ss) = []"
    by (simp add: resolve_def resolve_file_def split_capture_slots_def finish_def pop_scope_def)
qed

end
