(* ===== verification/EngineState.thy ===== *)
theory EngineState
  imports TreeWalk CompilerProps ResolverProps
begin

text \<open>
  The common state of the two engines.  \<open>leads\<close> is the reasoning about runs of the VM: a run reaches
  an outcome with a property, in parts that are joined by \<open>leads_seq\<close>.  \<open>agrees\<close> says that a finished
  chunk has the code of a segment that the compiler emitted, apart from open holes.  \<open>rel\<close> relates the
  environments of the interpreter with the slots and globals of the VM: the scopes of the enclosing
  blocks are the slots that the resolver gave to their names, the module's scope is the table of
  globals, and behind it are the builtins.
\<close>

section \<open>Runs of the VM\<close>

definition leads :: "'d engine \<Rightarrow> chunk \<Rightarrow> 'd vm \<Rightarrow> ('d vm_out \<Rightarrow> bool) \<Rightarrow> bool" where
  "leads en F vm P \<longleftrightarrow> (\<exists>k. P (vm_run k en F vm))"

definition busy :: "'d engine \<Rightarrow> chunk \<Rightarrow> nat \<Rightarrow> 'd vm \<Rightarrow> bool" where
  "busy en F n vm \<longleftrightarrow> (\<exists>k \<ge> n. \<exists>vm'. vm_run k en F vm = VNext vm')"

lemma vm_run_add:
  "vm_run (j + k) en F vm = (case vm_run j en F vm of VNext vm' \<Rightarrow> vm_run k en F vm' | out \<Rightarrow> out)"
  by (induction j arbitrary: vm) (auto split: vm_out.splits)

lemma leads_now: "P (VNext vm) \<Longrightarrow> leads en F vm P"
  unfolding leads_def by (metis vm_run.simps(1))

lemma vm_run_step: "vm_step en F vm = VNext vm' \<Longrightarrow> vm_run (Suc k) en F vm = vm_run k en F vm'"
  by simp

lemma leads_step: "vm_step en F vm = VNext vm' \<Longrightarrow> leads en F vm' P \<Longrightarrow> leads en F vm P"
  unfolding leads_def by (metis vm_run_step)

lemma leads_end: "vm_step en F vm = out \<Longrightarrow> P out \<Longrightarrow> (\<And>vm'. out \<noteq> VNext vm') \<Longrightarrow> leads en F vm P"
  unfolding leads_def by (rule exI [of _ 1]) (cases out, auto)

lemma leads_seq:
  assumes "leads en F vm P" and "\<And>vm'. P (VNext vm') \<Longrightarrow> leads en F vm' Q"
    and "\<And>out. P out \<Longrightarrow> (\<And>vm'. out \<noteq> VNext vm') \<Longrightarrow> Q out"
  shows "leads en F vm Q"
proof -
  obtain j where j: "P (vm_run j en F vm)" using assms(1) by (auto simp: leads_def)
  show ?thesis
  proof (cases "\<exists>vm'. vm_run j en F vm = VNext vm'")
    case True
    then obtain vm' where v: "vm_run j en F vm = VNext vm'" by blast
    then obtain k where "Q (vm_run k en F vm')" using assms(2) j by (auto simp: leads_def)
    then have "Q (vm_run (j + k) en F vm)" by (simp add: vm_run_add v)
    then show ?thesis by (auto simp: leads_def)
  qed (use assms(3) [OF j] in \<open>auto simp: leads_def\<close>)
qed

lemma busy_seq:
  assumes "leads en F vm P" and "\<And>out. P out \<Longrightarrow> \<exists>vm'. out = VNext vm' \<and> busy en F n vm'"
  shows "busy en F n vm"
proof -
  obtain j vm' where "vm_run j en F vm = VNext vm'" "busy en F n vm'" using assms unfolding leads_def by meson
  then obtain k vm'' where "n \<le> k" "vm_run (j + k) en F vm = VNext vm''" by (auto simp: busy_def vm_run_add)
  then show ?thesis unfolding busy_def by (metis trans_le_add2)
qed

lemma busy_step: "vm_step en F vm = VNext vm' \<Longrightarrow> busy en F n vm' \<Longrightarrow> busy en F (Suc n) vm"
  unfolding busy_def by (metis Suc_le_mono vm_run_step)

lemma busy_0 [simp]: "busy en F 0 vm"
  unfolding busy_def by (metis le0 vm_run.simps(1))

text \<open>A run that ends with an outcome is not busy for longer.\<close>

lemma run_end_unique:
  assumes "vm_run j en F vm = out" "\<And>vm'. out \<noteq> VNext vm'" and "j \<le> k"
  shows "vm_run k en F vm = out"
proof -
  have "vm_run (j + (k - j)) en F vm = out" using assms(1,2) by (auto simp: vm_run_add split: vm_out.splits)
  then show ?thesis using assms(3) by simp
qed

lemma vm_step_op:
  "vm_ip vm < length (c_code F) \<Longrightarrow> c_code F ! vm_ip vm = op_as_u8 op
    \<Longrightarrow> vm_step en F vm = exec_arm op en F (vm_ip vm) (vm_ip vm + 1) (vm\<lparr>vm_ip := vm_ip vm + 1 + operand_width op\<rparr>)"
  by (simp add: vm_step_def vec_get_in)

section \<open>The finished chunk\<close>

definition agrees :: "chunk \<Rightarrow> nat set \<Rightarrow> compiler \<Rightarrow> compiler \<Rightarrow> bool" where
  "agrees F H st st' \<longleftrightarrow>
     (\<forall>p. clen st \<le> p \<and> p < clen st' \<and> p \<notin> H \<longrightarrow> p < length (c_code F) \<and> c_code F ! p = code_of st' ! p)
     \<and> (\<exists>cs. c_consts F = consts_of st' @ cs)"

definition same_on :: "nat \<Rightarrow> nat \<Rightarrow> compiler \<Rightarrow> compiler \<Rightarrow> bool" where
  "same_on lo hi st st' \<longleftrightarrow> (\<forall>p. lo \<le> p \<and> p < hi \<longrightarrow> code_of st' ! p = code_of st ! p) \<and> (\<exists>cs. consts_of st' = consts_of st @ cs)"

lemma same_refl [simp]: "same_on lo hi st st"
  by (simp add: same_on_def)

lemma same_trans: "same_on lo hi a b \<Longrightarrow> same_on lo hi b c \<Longrightarrow> same_on lo hi a c"
  unfolding same_on_def by fastforce

lemma same_extends: "extends a b \<Longrightarrow> hi \<le> clen a \<Longrightarrow> same_on lo hi a b"
  by (auto simp: same_on_def extends_def)

lemma same_fills: "fills s a b \<Longrightarrow> hi \<le> s \<or> s + 2 \<le> lo \<Longrightarrow> same_on lo hi a b"
  by (auto simp: same_on_def fills_def)

lemma agrees_sub:
  "agrees F H st st' \<Longrightarrow> clen st \<le> clen a \<Longrightarrow> clen b \<le> clen st' \<Longrightarrow> same_on (clen a) (clen b) b st'
    \<Longrightarrow> (\<And>p. clen a \<le> p \<Longrightarrow> p < clen b \<Longrightarrow> p \<in> H \<Longrightarrow> p \<in> H') \<Longrightarrow> agrees F H' a b"
  unfolding agrees_def same_on_def by (metis (no_types, lifting) append.assoc le_trans less_le_trans)

lemma agrees_op:
  assumes "agrees F {} a b" and "emits (op_as_u8 op # bytes) a b"
  shows "clen a < length (c_code F)" "c_code F ! clen a = op_as_u8 op"
  using assms by (auto simp: agrees_def emits_def nth_append)

lemma agrees_nth: "agrees F {} a b \<Longrightarrow> code_of b = code_of a @ bytes \<Longrightarrow> i < length bytes
    \<Longrightarrow> clen a + i < length (c_code F) \<and> c_code F ! (clen a + i) = bytes ! i"
  by (auto simp: agrees_def nth_append)

lemma agrees_u16:
  assumes "agrees F {} a b" and "code_of b = code_of a @ byte # to_le_bytes 2 w @ rest"
  shows "read_u16 F (clen a + 1) = Some w"
  using agrees_nth [OF assms, of 1] agrees_nth [OF assms, of 2]
  by (simp add: read_u16_def to_le_2 nth_append numeral_2_eq_2)

lemma agrees_const:
  "agrees F H a b \<Longrightarrow> vec_get (consts_of b) i = Some v \<Longrightarrow> vec_get (c_consts F) i = Some v"
  by (auto simp: agrees_def nth_append)

lemma agrees_read_i16:
  "agrees F H a b \<Longrightarrow> clen a \<le> s \<Longrightarrow> s + 2 \<le> clen b \<Longrightarrow> s \<notin> H \<Longrightarrow> s + 1 \<notin> H \<Longrightarrow> read_i16 F s = read_i16 (co_chunk b) s"
  by (auto simp: agrees_def read_i16_def read_u16_def)

section \<open>The relation\<close>

text \<open>The scopes from \<open>e\<close> outwards to the module's scope, which is the second of the store.\<close>

fun chain :: "('d rval, unit) env_store \<Rightarrow> nat \<Rightarrow> statics \<Rightarrow> 'd rval list \<Rightarrow> bool" where
  "chain st e [] L \<longleftrightarrow> e = 1"
| "chain st e (s # sc) L \<longleftrightarrow> 1 < e \<and> e < length (es_scopes st)
     \<and> (\<exists>p < e. sc_parent (es_scopes st ! e) = Some p \<and> chain st p sc L)
     \<and> (\<forall>x. map_of (sc_vars (es_scopes st ! e)) x = map_option (\<lambda>(slot, m). \<lparr>b_value = L ! slot, b_mutable = m\<rparr>) (s x))
     \<and> (\<forall>slot \<in> slots_of s. slot < length L)"

definition builtin_vars :: "(rstring \<times> 'd rval binding) list" where
  "builtin_vars = map (\<lambda>(k, v). (k, \<lparr>b_value = v, b_mutable = False\<rparr>)) BUILTINS"

definition global_vars :: "(rstring \<times> 'v global_slot) list \<Rightarrow> (rstring \<times> 'v binding) list" where
  "global_vars t = map (\<lambda>(k, s). (k, \<lparr>b_value = gs_value s, b_mutable = gs_mutable s\<rparr>)) t"

definition module_ok :: "('d rval, unit) env_store \<Rightarrow> (rstring \<times> 'd rval global_slot) list \<Rightarrow> bool" where
  "module_ok st t \<longleftrightarrow> 2 \<le> length (es_scopes st) \<and> sc_vars (es_scopes st ! 0) = builtin_vars \<and> sc_parent (es_scopes st ! 0) = None
     \<and> sc_vars (es_scopes st ! 1) = global_vars t \<and> sc_parent (es_scopes st ! 1) = Some 0"

definition site_name :: "chunk \<Rightarrow> nat \<Rightarrow> rstring" where
  "site_name F off = (case Option.bind (read_u16 F (off + 1)) (\<lambda>i. vec_get (c_consts F) (unat i)) of Some (VStr s) \<Rightarrow> s | _ \<Rightarrow> [])"

text \<open>What outlives the scopes: the table of globals and the arrays.\<close>

definition shared :: "'d tw \<Rightarrow> 'd vm \<Rightarrow> bool" where
  "shared s vm \<longleftrightarrow> tw_arrays s = vm_arrays vm \<and> module_ok (tw_envs s) (gl_user (vm_globals vm))"

definition rel :: "chunk \<Rightarrow> rstring set \<Rightarrow> statics \<Rightarrow> nat \<Rightarrow> 'd tw \<Rightarrow> 'd vm \<Rightarrow> bool" where
  "rel F D sc env s vm \<longleftrightarrow> shared s vm
     \<and> chain (tw_envs s) env sc (vm_locals vm) \<and> separate sc \<and> length (vm_locals vm) = unat (c_slot_count F)
     \<and> globals_ok BUILTINS (site_name F) (vm_globals vm) (vm_global_caches vm)
     \<and> unat (gl_version (vm_globals vm)) \<le> length (gl_user (vm_globals vm))
     \<and> VStr ` fst ` set (gl_user (vm_globals vm)) \<subseteq> set (c_consts F)
     \<and> D \<subseteq> fst ` set (gl_user (vm_globals vm))"

lemma shared_simps [simp]:
  "shared s (vm\<lparr>vm_ip := ip\<rparr>) = shared s vm" "shared s (vm\<lparr>vm_stack := S\<rparr>) = shared s vm"
  "shared s (vm\<lparr>vm_arith_caches := ac\<rparr>) = shared s vm" "shared s (vm\<lparr>vm_global_caches := gc\<rparr>) = shared s vm"
  "shared s (push v vm) = shared s vm" "shared s (jump_by d vm) = shared s vm"
  "shared s (vm\<lparr>vm_locals := L\<rparr>) = shared s vm"
  by (simp_all add: shared_def push_def jump_by_def Let_def)

lemma rel_shared: "rel F D sc env s vm \<Longrightarrow> shared s vm"
  by (simp add: rel_def)

lemma rel_simps [simp]:
  "rel F D sc env s (vm\<lparr>vm_ip := ip\<rparr>) = rel F D sc env s vm" "rel F D sc env s (vm\<lparr>vm_stack := S\<rparr>) = rel F D sc env s vm"
  "rel F D sc env s (vm\<lparr>vm_arith_caches := ac\<rparr>) = rel F D sc env s vm" "rel F D sc env s (push v vm) = rel F D sc env s vm"
  "rel F D sc env s (jump_by d vm) = rel F D sc env s vm"
  by (simp_all add: rel_def shared_def push_def jump_by_def Let_def)

lemma rel_array:
  "rel F D sc env s vm \<Longrightarrow> rel F D sc env (s\<lparr>tw_arrays := tw_arrays s @ [vs]\<rparr>) (vm\<lparr>vm_arrays := vm_arrays vm @ [vs]\<rparr>)"
  by (simp add: rel_def shared_def)

lemma map_of_global_vars: "map_of (global_vars t) x = map_option (\<lambda>s. \<lparr>b_value = gs_value s, b_mutable = gs_mutable s\<rparr>) (map_of t x)"
  unfolding global_vars_def by (induction t) auto

lemma map_of_builtin_vars: "map_of builtin_vars x = map_option (\<lambda>v. \<lparr>b_value = v, b_mutable = False\<rparr>) (map_of BUILTINS x)"
proof -
  have "map_of (map (\<lambda>(k, v). (k, \<lparr>b_value = v, b_mutable = False\<rparr>)) l) x = map_option (\<lambda>v. \<lparr>b_value = v, b_mutable = False\<rparr>) (map_of l x)" for l :: "(rstring \<times> 'd rval) list"
    by (induction l) auto
  then show ?thesis by (simp add: builtin_vars_def)
qed

lemma map_of_BUILTINS: "map_of (BUILTINS :: (rstring \<times> 'd rval) list) x = (if x \<in> set BUILTIN_NAMES then Some (RBuiltin x) else None)"
proof -
  have "map_of (map (\<lambda>name. (name, RBuiltin name :: 'd rval)) names) x = (if x \<in> set names then Some (RBuiltin x) else None)" for names
    by (induction names) auto
  then show ?thesis by (simp add: BUILTINS_def)
qed

subsection \<open>Reading\<close>

lemma module_get:
  assumes "module_ok st t"
  shows "env_get st 1 x = (case map_of t x of Some s \<Rightarrow> Some (gs_value s) | None \<Rightarrow> map_of BUILTINS x)"
proof -
  have len: "0 < length (es_scopes st)" "1 < length (es_scopes st)" using assms by (auto simp: module_ok_def)
  have "env_get st 0 x = map_of BUILTINS x"
    using assms len by (subst env_get.simps) (simp add: vec_get_def module_ok_def map_of_builtin_vars split: option.splits)
  then show ?thesis
    using assms len by (subst env_get.simps) (simp add: vec_get_def module_ok_def map_of_global_vars split: option.splits)
qed

lemma chain_get:
  "chain st e sc L \<Longrightarrow> module_ok st t \<Longrightarrow> env_get st e x = (case slookup sc x of Some (slot, m) \<Rightarrow> Some (L ! slot)
      | None \<Rightarrow> (case map_of t x of Some s \<Rightarrow> Some (gs_value s) | None \<Rightarrow> map_of BUILTINS x))"
proof (induction st e sc L rule: chain.induct)
  case (1 st e L)
  then show ?case using module_get by fastforce
next
  case (2 st e s sc L)
  then obtain p where p: "sc_parent (es_scopes st ! e) = Some p" "p < e" "chain st p sc L" by auto
  show ?case
    using 2 p by (subst env_get.simps) (auto simp: vec_get_in split: option.splits)
qed

lemma slookup_bound: "chain st e sc L \<Longrightarrow> slookup sc x = Some (slot, m) \<Longrightarrow> slot < length L"
  by (induction st e sc L rule: chain.induct) (fastforce simp: slots_of_def split: option.splits)+

lemma slookup_slots: "slookup sc x = Some (slot, m) \<Longrightarrow> slot \<in> all_slots sc"
  by (induction sc) (fastforce simp: all_slots_def slots_of_def split: option.splits)+

subsection \<open>Writing\<close>

lemma chain_env: "chain st e sc L \<Longrightarrow> module_ok st t \<Longrightarrow> 1 \<le> e \<and> e < length (es_scopes st)"
  by (cases sc) (auto simp: module_ok_def)

lemma chain_frame:
  "chain st e sc L \<Longrightarrow> (\<And>i. 1 < i \<Longrightarrow> i \<le> e \<Longrightarrow> es_scopes st' ! i = es_scopes st ! i)
    \<Longrightarrow> length (es_scopes st) \<le> length (es_scopes st') \<Longrightarrow> length L' = length L \<Longrightarrow> (\<And>slot. slot \<in> all_slots sc \<Longrightarrow> L' ! slot = L ! slot)
    \<Longrightarrow> chain st' e sc L'"
proof (induction st e sc L rule: chain.induct)
  case (2 st e s sc L)
  then obtain p where p: "sc_parent (es_scopes st ! e) = Some p" "p < e" "chain st p sc L" by auto
  have "chain st' p sc L'"
    by (rule 2(1)) (use 2 p in \<open>auto simp: all_slots_def\<close>)
  moreover have "map_option (\<lambda>(slot, m). \<lparr>b_value = L' ! slot, b_mutable = m\<rparr>) (s x)
      = map_option (\<lambda>(slot, m). \<lparr>b_value = L ! slot, b_mutable = m\<rparr>) (s x)" for x
    using 2(6) by (cases "s x") (auto simp: all_slots_def slots_of_def)
  ultimately show ?case using 2 p by auto
qed simp

lemma global_vars_insert:
  "im_insert x \<lparr>b_value = gs_value s, b_mutable = gs_mutable s\<rparr> (global_vars t) = global_vars (im_insert x s t)"
  unfolding global_vars_def by (induction x s t rule: im_insert.induct) auto

lemma module_assign:
  assumes m: "module_ok st t"
  shows "case map_of t x of
      Some s \<Rightarrow> if gs_mutable s then \<exists>st'. env_assign st 1 x v = Ok st' \<and> module_ok st' (im_insert x (s\<lparr>gs_value := v\<rparr>) t)
          \<and> length (es_scopes st') = length (es_scopes st) \<and> (\<forall>i > 1. es_scopes st' ! i = es_scopes st ! i)
        else env_assign st 1 x v = Err Immutable
    | None \<Rightarrow> env_assign st 1 x v = Err (if x \<in> set BUILTIN_NAMES then Immutable else Undefined)"
proof -
  have len: "0 < length (es_scopes st)" "1 < length (es_scopes st)" using m by (auto simp: module_ok_def)
  have root: "env_assign st 0 x v = Err (if x \<in> set BUILTIN_NAMES then Immutable else Undefined)"
    using m len
    by (subst env_assign.simps) (auto simp: vec_get_def module_ok_def map_of_builtin_vars map_of_BUILTINS split: option.splits)
  show ?thesis
  proof (cases "map_of t x")
    case None
    then show ?thesis
      using m len root by (subst env_assign.simps) (simp add: vec_get_def module_ok_def map_of_global_vars)
  next
    case (Some s)
    let ?sc = "(es_scopes st ! 1)\<lparr>sc_vars := im_insert x \<lparr>b_value = v, b_mutable = gs_mutable s\<rparr> (sc_vars (es_scopes st ! 1))\<rparr>"
    have "env_assign st 1 x v = (if gs_mutable s then Ok (st\<lparr>es_scopes := (es_scopes st)[1 := ?sc]\<rparr>) else Err Immutable)"
      using m len Some by (subst env_assign.simps) (simp add: vec_get_def module_ok_def map_of_global_vars)
    moreover have "module_ok (st\<lparr>es_scopes := (es_scopes st)[1 := ?sc]\<rparr>) (im_insert x (s\<lparr>gs_value := v\<rparr>) t)" if "gs_mutable s"
      using m len global_vars_insert [of x "s\<lparr>gs_value := v\<rparr>" t] by (auto simp: module_ok_def nth_list_update)
    ultimately show ?thesis using Some by auto
  qed
qed

lemma chain_assign_local:
  "chain st e sc L \<Longrightarrow> module_ok st t \<Longrightarrow> separate sc \<Longrightarrow> slookup sc x = Some (slot, m)
    \<Longrightarrow> if m then \<exists>st'. env_assign st e x v = Ok st' \<and> chain st' e sc (L[slot := v]) \<and> module_ok st' t
          \<and> length (es_scopes st') = length (es_scopes st) \<and> (\<forall>i > e. es_scopes st' ! i = es_scopes st ! i)
        else env_assign st e x v = Err Immutable"
proof (induction st e sc L rule: chain.induct)
  case (2 st e s sc L)
  then obtain p where p: "sc_parent (es_scopes st ! e) = Some p" "p < e" "chain st p sc L" by auto
  have e: "1 < e" "e < length (es_scopes st)" using 2(2) by auto
  have vars: "map_of (sc_vars (es_scopes st ! e)) y = map_option (\<lambda>(slot, m). \<lparr>b_value = L ! slot, b_mutable = m\<rparr>) (s y)" for y
    using 2(2) by simp
  show ?case
  proof (cases "s x")
    case (Some b)
    then have b: "s x = Some (slot, m)" using 2(5) by simp
    then have fresh: "slot \<notin> all_slots sc" and slot: "slot \<in> slots_of s" using 2(4) by (auto simp: slots_of_def)
    then have lt: "slot < length L" using 2(2) by simp
    let ?sc = "(es_scopes st ! e)\<lparr>sc_vars := im_insert x \<lparr>b_value = v, b_mutable = m\<rparr> (sc_vars (es_scopes st ! e))\<rparr>"
    have run: "env_assign st e x v = (if m then Ok (st\<lparr>es_scopes := (es_scopes st)[e := ?sc]\<rparr>) else Err Immutable)"
      using e vars [of x] b by (subst env_assign.simps) (simp add: vec_get_def)
    have "chain (st\<lparr>es_scopes := (es_scopes st)[e := ?sc]\<rparr>) p sc (L[slot := v])"
    proof (rule chain_frame [OF p(3)])
      fix i assume "i \<in> all_slots sc"
      then show "L[slot := v] ! i = L ! i" using fresh by (cases "i = slot") auto
    qed (use p(2) in \<open>auto simp: nth_list_update\<close>)
    moreover have "map_of (sc_vars ?sc) y = map_option (\<lambda>(slot', m). \<lparr>b_value = L[slot := v] ! slot', b_mutable = m\<rparr>) (s y)" for y
    proof (cases "y = x")
      case False
      then have "s y = Some (slot', m') \<Longrightarrow> slot' \<noteq> slot" for slot' m' using 2(4) b by auto
      then show ?thesis using False vars [of y] by (cases "s y") auto
    qed (use b lt in simp)
    ultimately have "chain (st\<lparr>es_scopes := (es_scopes st)[e := ?sc]\<rparr>) e (s # sc) (L[slot := v])"
      using e p 2(2) by auto
    moreover have "module_ok (st\<lparr>es_scopes := (es_scopes st)[e := ?sc]\<rparr>) t" using 2(3) e by (simp add: module_ok_def)
    ultimately show ?thesis using run by (cases m) (simp_all del: chain.simps)
  next
    case None
    then have look: "slookup sc x = Some (slot, m)" using 2(5) by simp
    have step: "env_assign st e x v = env_assign st p x v"
      using e p vars [of x] None by (subst env_assign.simps) (simp add: vec_get_def)
    have sep: "separate sc" and fresh: "slot \<notin> slots_of s" using 2(4) slookup_slots [OF look] by auto
    note IH = 2(1) [OF p(3) 2(3) sep look]
    have "chain st' e (s # sc) (L[slot := v])"
      if "chain st' p sc (L[slot := v])" "length (es_scopes st') = length (es_scopes st)" "\<forall>i > p. es_scopes st' ! i = es_scopes st ! i" for st'
    proof -
      have "map_option (\<lambda>(slot', m). \<lparr>b_value = L[slot := v] ! slot', b_mutable = m\<rparr>) (s y)
          = map_option (\<lambda>(slot, m). \<lparr>b_value = L ! slot, b_mutable = m\<rparr>) (s y)" for y
        using fresh by (cases "s y") (auto simp: slots_of_def intro!: nth_list_update_neq)
      then show ?thesis using that e p 2(2) by auto
    qed
    then show ?thesis using IH step p(2) by (auto simp: all_slots_def)
  qed
qed simp

lemma chain_assign_global:
  "chain st e sc L \<Longrightarrow> slookup sc x = None \<Longrightarrow> env_assign st e x v = env_assign st 1 x v"
proof (induction st e sc L rule: chain.induct)
  case (2 st e s sc L)
  then obtain p where p: "sc_parent (es_scopes st ! e) = Some p" "p < e" "chain st p sc L" by auto
  have "env_assign st e x v = env_assign st p x v"
    using 2 p by (subst env_assign.simps) (auto simp: vec_get_def split: option.splits)
  then show ?case using 2 p by (auto split: option.splits)
qed simp

subsection \<open>Scopes and definitions\<close>

lemma chain_child:
  assumes "chain st e sc L" and "module_ok st t"
  shows "\<exists>st'. env_child st e = (length (es_scopes st), st') \<and> chain st' (length (es_scopes st)) (Map.empty # sc) L \<and> module_ok st' t"
proof -
  note e = chain_env [OF assms]
  let ?st' = "st\<lparr>es_scopes := es_scopes st @ [\<lparr>sc_vars = [], sc_parent = Some e, sc_defers = None\<rparr>]\<rparr>"
  have "chain ?st' e sc L"
    by (rule chain_frame [OF assms(1)]) (use e in \<open>auto simp: nth_append\<close>)
  then have "chain ?st' (length (es_scopes st)) (Map.empty # sc) L" using e by (auto simp: slots_of_def)
  moreover have "module_ok ?st' t" using assms(2) by (auto simp: module_ok_def nth_append)
  ultimately show ?thesis by (simp add: env_child_def)
qed

lemma chain_define:
  assumes c: "chain st e (s # sc) L" and m: "module_ok st t" and "s x = None" and slot: "slot \<notin> all_slots (s # sc)" "slot < length L"
  shows "\<exists>st'. env_define st e x v mut = Ok st' \<and> chain st' e (s(x \<mapsto> (slot, mut)) # sc) (L[slot := v]) \<and> module_ok st' t"
proof -
  obtain p where p: "sc_parent (es_scopes st ! e) = Some p" "p < e" "chain st p sc L" using c by auto
  have e: "1 < e" "e < length (es_scopes st)" using c by auto
  have vars: "map_of (sc_vars (es_scopes st ! e)) y = map_option (\<lambda>(slot, m). \<lparr>b_value = L ! slot, b_mutable = m\<rparr>) (s y)" for y
    using c by simp
  let ?sc = "(es_scopes st ! e)\<lparr>sc_vars := im_insert x \<lparr>b_value = v, b_mutable = mut\<rparr> (sc_vars (es_scopes st ! e))\<rparr>"
  have run: "env_define st e x v mut = Ok (st\<lparr>es_scopes := (es_scopes st)[e := ?sc]\<rparr>)"
    using e vars [of x] assms(3) by (simp add: env_define_def vec_get_def)
  have "chain (st\<lparr>es_scopes := (es_scopes st)[e := ?sc]\<rparr>) p sc (L[slot := v])"
  proof (rule chain_frame [OF p(3)])
    fix i assume "i \<in> all_slots sc"
    then show "L[slot := v] ! i = L ! i" using slot by (cases "i = slot") (auto simp: all_slots_def)
  qed (use p(2) in \<open>auto simp: nth_list_update\<close>)
  moreover have "map_of (sc_vars ?sc) y
      = map_option (\<lambda>(slot', m). \<lparr>b_value = L[slot := v] ! slot', b_mutable = m\<rparr>) ((s(x \<mapsto> (slot, mut))) y)" for y
  proof (cases "y = x")
    case False
    have "s y = Some (slot', m') \<Longrightarrow> slot' \<noteq> slot" for slot' m' using slot(1) by (auto simp: all_slots_def slots_of_def)
    then show ?thesis using False vars [of y] by (cases "s y") auto
  qed (use slot in simp)
  moreover have "\<forall>i \<in> slots_of (s(x \<mapsto> (slot, mut))). i < length L"
    using c slot(2) by (auto simp: slots_of_def split: if_splits)
  ultimately have "chain (st\<lparr>es_scopes := (es_scopes st)[e := ?sc]\<rparr>) e (s(x \<mapsto> (slot, mut)) # sc) (L[slot := v])"
    using e p by auto
  moreover have "module_ok (st\<lparr>es_scopes := (es_scopes st)[e := ?sc]\<rparr>) t" using m e by (simp add: module_ok_def)
  ultimately show ?thesis using run by blast
qed

lemma module_define:
  assumes m: "module_ok st t"
  shows "if map_of t x = None then \<exists>st'. env_define st 1 x v mut = Ok st' \<and> module_ok st' (t @ [(x, \<lparr>gs_value = v, gs_mutable = mut\<rparr>)])
      else env_define st 1 x v mut = Err (AlreadyDefined x)"
proof -
  have len: "1 < length (es_scopes st)" using m by (auto simp: module_ok_def)
  have "im_insert x \<lparr>b_value = v, b_mutable = mut\<rparr> (global_vars t) = global_vars (t @ [(x, \<lparr>gs_value = v, gs_mutable = mut\<rparr>)])"
    if "map_of t x = None"
    using that global_vars_insert [of x "\<lparr>gs_value = v, gs_mutable = mut\<rparr>" t] by (simp add: im_insert_new map_of_eq_None_iff)
  then show ?thesis
    using m len by (auto simp: env_define_def vec_get_def module_ok_def map_of_global_vars nth_list_update)
qed

end
