(* ===== verification/Simulation.thy ===== *)
theory Simulation
  imports EngineState
begin

text \<open>
  The VM on compiled code does what the interpreter does on the tree.  \<open>post\<close> says how an outcome of
  the interpreter shows in the VM; \<open>segment\<close> is a part of the finished chunk together with the states
  of the compiler around it.  One lemma per construct; \<open>expr_sim\<close> and \<open>stmt_sim\<close> join them by
  induction over the tree.
\<close>

declare op_as_u8.simps [simp del]

section \<open>Outcomes\<close>

fun post :: "('a \<Rightarrow> 'd tw \<Rightarrow> 'd vm_out \<Rightarrow> bool) \<Rightarrow> ('a, 'd) tw_out \<Rightarrow> 'd vm_out \<Rightarrow> bool" where
  "post Q (TOk v s) out = Q v s out"
| "post Q (TRaise e s) out = (\<exists>vm. out = VRaise e vm \<and> shared s vm)"
| "post Q THang out = (out = VHang)"
| "post Q TFault out = (out = VFault)"
| "post Q TOutside out = False"

definition gives :: "chunk \<Rightarrow> rstring set \<Rightarrow> statics \<Rightarrow> nat \<Rightarrow> 'd rval list \<Rightarrow> nat \<Rightarrow> 'd rval \<Rightarrow> 'd tw \<Rightarrow> 'd vm_out \<Rightarrow> bool" where
  "gives F D sc env S ip v s out \<longleftrightarrow> (\<exists>vm. out = VNext vm \<and> vm_ip vm = ip \<and> vm_stack vm = v # S \<and> rel F D sc env s vm)"

lemma givesI: "vm_ip vm = ip \<Longrightarrow> vm_stack vm = v # S \<Longrightarrow> rel F D sc env s vm \<Longrightarrow> gives F D sc env S ip v s (VNext vm)"
  by (simp add: gives_def)

lemma leads_one: "P (vm_step en F vm) \<Longrightarrow> leads en F vm P"
  unfolding leads_def by (rule exI [of _ 1]) (auto split: vm_out.splits)

lemma tw_bind_TOk: "tw_bind r TOk = r"
  by (cases r) auto

lemma post_bind:
  assumes "leads en F vm (post (gives F D sc env S ip) r)"
    and "\<And>v s vm'. vm_ip vm' = ip \<Longrightarrow> vm_stack vm' = v # S \<Longrightarrow> rel F D sc env s vm' \<Longrightarrow> leads en F vm' (post Q (k v s))"
  shows "leads en F vm (post Q (tw_bind r k))"
proof (rule leads_seq [OF assms(1)])
  fix vm' assume "post (gives F D sc env S ip) r (VNext vm')"
  then show "leads en F vm' (post Q (tw_bind r k))"
    using assms(2) by (cases r) (auto simp: gives_def)
next
  fix out assume "post (gives F D sc env S ip) r out" "\<And>vm'. out \<noteq> VNext vm'"
  then show "post Q (tw_bind r k) out" by (cases r) (auto simp: gives_def)
qed

section \<open>Segments\<close>

definition holes :: "nat list \<Rightarrow> nat set" where
  "holes bs = (\<Union>s \<in> set bs. {s, s + 1})"

definition segment :: "chunk \<Rightarrow> nat list \<Rightarrow> compiler \<Rightarrow> compiler \<Rightarrow> bool" where
  "segment F bs st st' \<longleftrightarrow> agrees F (holes bs) st st' \<and> \<not> overflowed st' \<and> co_cells st = {}
     \<and> rr_slot_count (co_resolved st) = unat (c_slot_count F) \<and> length (c_consts F) \<le> 65536"

lemma holes_Nil [simp]: "holes [] = {}"
  by (simp add: holes_def)

lemma segment_part:
  assumes "segment F bs st st'" and "extends st a" and "clen b \<le> clen st'" and "\<not> overflowed b"
    and "same_on (clen a) (clen b) b st'" and "\<And>p. clen a \<le> p \<Longrightarrow> p < clen b \<Longrightarrow> p \<in> holes bs \<Longrightarrow> p \<in> holes bs'"
  shows "segment F bs' a b"
  using assms agrees_sub [of F "holes bs" st st' a b "holes bs'"] extends_len [OF assms(2)] extends_resolved [OF assms(2)]
  by (simp add: segment_def)

lemma segment_mid:
  assumes "segment F [] st st'" and "extends st a" and "extends b st'"
  shows "segment F [] a b"
  using assms by (intro segment_part [OF assms(1,2)]) (auto simp: segment_def dest: extends_len extends_overflow intro: same_extends)

lemma segment_step:
  assumes "segment F bs a b" and "emits (op_as_u8 op # bytes) a b" and "clen a \<notin> holes bs" and "length bytes = operand_width op"
    and "vm_ip vm = clen a"
  shows "vm_step en F vm = exec_arm op en F (clen a) (clen a + 1) (vm\<lparr>vm_ip := clen b\<rparr>)"
proof -
  have "clen a < length (c_code F)" "c_code F ! clen a = op_as_u8 op"
    using assms(1-3) by (auto simp: segment_def agrees_def emits_def nth_append)
  then show ?thesis using assms(2,4,5) vm_step_op [of vm F op en] by (simp add: emits_len)
qed

text \<open>An instruction at the end of a segment.\<close>

lemma leads_op:
  assumes "segment F [] a b" and "emits (op_as_u8 op # bytes) a b" and "length bytes = operand_width op" and "vm_ip vm = clen a"
    and "P (exec_arm op en F (clen a) (clen a + 1) (vm\<lparr>vm_ip := clen b\<rparr>))"
  shows "leads en F vm P"
  using assms(5) segment_step [OF assms(1,2) _ assms(3,4)] by (intro leads_one) simp

lemma segment_u16:
  "segment F [] a b \<Longrightarrow> code_of b = code_of a @ byte # to_le_bytes 2 w @ rest \<Longrightarrow> read_u16 F (clen a + 1) = Some w"
  using agrees_u16 unfolding segment_def holes_Nil by blast

lemma segment_name:
  assumes "segment F [] a b" and "code_of b = code_of a @ byte # to_le_bytes 2 (idx :: u16) @ rest"
    and "vec_get (consts_of b) (unat idx) = Some (VStr x)"
  shows "with_name F (clen a + 1) vm k = k x" "site_name F (clen a) = x"
proof -
  have "vec_get (c_consts F) (unat idx) = Some (VStr x)"
    using assms(1,3) agrees_const unfolding segment_def by blast
  then show "with_name F (clen a + 1) vm k = k x" "site_name F (clen a) = x"
    using segment_u16 [OF assms(1,2)] by (simp_all add: with_name_def site_name_def vec_get_def)
qed

section \<open>Bindings\<close>

lemma post_outcome:
  "rel F D sc env s vm \<Longrightarrow> vm_ip vm = ip \<Longrightarrow> vm_stack vm = S \<Longrightarrow> post (gives F D sc env S ip) (tw_outcome r s) (push_outcome r vm)"
  using rel_array [of F D sc env s vm]
  by (auto simp: tw_outcome_def push_outcome_def gives_def push_def rel_def shared_def split: option.splits result.splits outcome.splits)

lemma rel_get_global:
  assumes "rel F D sc env s vm" and "site_name F off = x" and "slookup sc x = None"
  shows "\<exists>caches. get_global BUILTINS sp (vm_globals vm) (vm_global_caches vm) off x
      = (case env_get (tw_envs s) env x of Some v \<Rightarrow> Ok (v, caches) | None \<Rightarrow> Err (UndefinedVariable x))
    \<and> rel F D sc env s (vm\<lparr>vm_global_caches := caches\<rparr>)"
proof -
  have ok: "globals_ok BUILTINS (site_name F) (vm_globals vm) (vm_global_caches vm)"
    and c: "chain (tw_envs s) env sc (vm_locals vm)" and m: "module_ok (tw_envs s) (gl_user (vm_globals vm))"
    using assms(1) by (auto simp: rel_def shared_def)
  obtain caches where "get_global BUILTINS sp (vm_globals vm) (vm_global_caches vm) off x
      = map_result (\<lambda>v. (v, caches)) id (table_get BUILTINS (gl_user (vm_globals vm)) x)"
    and "globals_ok BUILTINS (site_name F) (vm_globals vm) caches"
    using get_global_table [OF ok, of sp off] assms(2) by auto
  then show ?thesis
    using assms(1,3) chain_get [OF c m, of x]
    by (intro exI [of _ caches]) (auto simp: rel_def table_get_def split: option.splits)
qed

lemma rel_get_local:
  assumes "rel F D sc env s vm" and "slookup sc x = Some (slot, m)"
  shows "env_get (tw_envs s) env x = Some (vm_locals vm ! slot)" "slot < length (vm_locals vm)"
  using assms chain_get [of "tw_envs s" env sc "vm_locals vm" "gl_user (vm_globals vm)" x]
    slookup_bound [of "tw_envs s" env sc "vm_locals vm" x slot m]
  by (auto simp: rel_def shared_def)

lemma rel_set_local:
  assumes "rel F D sc env s vm" and "slookup sc x = Some (slot, m)"
  shows "if m then \<exists>envs. env_assign (tw_envs s) env x v = Ok envs
      \<and> rel F D sc env (s\<lparr>tw_envs := envs\<rparr>) (vm\<lparr>vm_locals := (vm_locals vm)[slot := v]\<rparr>)
    else env_assign (tw_envs s) env x v = Err Immutable"
proof -
  have c: "chain (tw_envs s) env sc (vm_locals vm)" "module_ok (tw_envs s) (gl_user (vm_globals vm))" "separate sc"
    using assms(1) by (auto simp: rel_def shared_def)
  from chain_assign_local [OF c assms(2), of v] show ?thesis
    using assms(1) by (auto simp: rel_def shared_def)
qed

lemma rel_set_global:
  assumes "rel F D sc env s vm" and "site_name F off = x" and "slookup sc x = None" and "x \<notin> set BUILTIN_NAMES"
  shows "case env_assign (tw_envs s) env x v of
      Ok envs \<Rightarrow> \<exists>gl caches. set_global sp (vm_globals vm) (vm_global_caches vm) off x v = Ok (gl, caches)
        \<and> rel F D sc env (s\<lparr>tw_envs := envs\<rparr>) (vm\<lparr>vm_globals := gl, vm_global_caches := caches\<rparr>)
    | Err Undefined \<Rightarrow> set_global sp (vm_globals vm) (vm_global_caches vm) off x v = Err (AssignUndefined x)
    | Err Immutable \<Rightarrow> set_global sp (vm_globals vm) (vm_global_caches vm) off x v = Err (ImmutableBinding x)
    | Panic \<Rightarrow> False"
proof -
  let ?t = "gl_user (vm_globals vm)"
  have ok: "globals_ok BUILTINS (site_name F) (vm_globals vm) (vm_global_caches vm)"
    and c: "chain (tw_envs s) env sc (vm_locals vm)" and m: "module_ok (tw_envs s) ?t"
    using assms(1) by (auto simp: rel_def shared_def)
  obtain gl caches where set: "set_global sp (vm_globals vm) (vm_global_caches vm) off x v = map_result (\<lambda>_. (gl, caches)) id (table_set ?t x v)"
    and gl: "\<And>t. table_set ?t x v = Ok t \<Longrightarrow> gl_user gl = t \<and> gl_version gl = gl_version (vm_globals vm)
      \<and> globals_ok BUILTINS (site_name F) gl caches"
    using set_global_table [OF ok, of sp off v] assms(2) by blast
  have assign: "env_assign (tw_envs s) env x v = env_assign (tw_envs s) 1 x v" using chain_assign_global [OF c assms(3)] .
  show ?thesis
  proof (cases "map_of ?t x")
    case None
    with set assign module_assign [OF m, of x v] assms(4) show ?thesis by (simp add: table_set_def)
  next
    case (Some b)
    show ?thesis
    proof (cases "gs_mutable b")
      case False
      with set assign module_assign [OF m, of x v] Some show ?thesis by (simp add: table_set_def)
    next
      case True
      with module_assign [OF m, of x v] Some obtain envs where e: "env_assign (tw_envs s) 1 x v = Ok envs"
        "module_ok envs (im_insert x (b\<lparr>gs_value := v\<rparr>) ?t)" "length (es_scopes envs) = length (es_scopes (tw_envs s))"
        "\<forall>i > 1. es_scopes envs ! i = es_scopes (tw_envs s) ! i"
        by auto
      have t: "table_set ?t x v = Ok (im_insert x (b\<lparr>gs_value := v\<rparr>) ?t)" using Some True by (simp add: table_set_def)
      have "chain envs env sc (vm_locals vm)" by (rule chain_frame [OF c]) (use e(3,4) in auto)
      moreover have "map fst (im_insert x (b\<lparr>gs_value := v\<rparr>) ?t) = map fst ?t"
        using Some by (simp add: im_keys_insert) (metis domI dom_map_of_conv_image_fst)
      then have "fst ` set (im_insert x (b\<lparr>gs_value := v\<rparr>) ?t) = fst ` set ?t"
        "length (im_insert x (b\<lparr>gs_value := v\<rparr>) ?t) = length ?t"
        by (metis list.set_map, metis length_map)
      ultimately have "rel F D sc env (s\<lparr>tw_envs := envs\<rparr>) (vm\<lparr>vm_globals := gl, vm_global_caches := caches\<rparr>)"
        using assms(1) gl [OF t] e(2) by (simp add: rel_def shared_def)
      with set assign e(1) t show ?thesis by simp
    qed
  qed
qed

section \<open>Expressions\<close>

text \<open>The code between two states of the compiler evaluates as \<open>ev\<close>.\<close>

definition simulates ::
  "'d engine \<Rightarrow> chunk \<Rightarrow> rstring set \<Rightarrow> statics \<Rightarrow> nat \<Rightarrow> compiler \<Rightarrow> compiler \<Rightarrow> ('d tw \<Rightarrow> ('d rval, 'd) tw_out) \<Rightarrow> bool" where
  "simulates en F D sc env a b ev \<longleftrightarrow> (\<forall>s vm. rel F D sc env s vm \<longrightarrow> vm_ip vm = clen a
     \<longrightarrow> leads en F vm (post (gives F D sc env (vm_stack vm) (clen b)) (ev s)))"

lemma simulatesI:
  "(\<And>s vm. rel F D sc env s vm \<Longrightarrow> vm_ip vm = clen a \<Longrightarrow> leads en F vm (post (gives F D sc env (vm_stack vm) (clen b)) (ev s)))
    \<Longrightarrow> simulates en F D sc env a b ev"
  by (simp add: simulates_def)

lemma simulatesD:
  "simulates en F D sc env a b ev \<Longrightarrow> rel F D sc env s vm \<Longrightarrow> vm_ip vm = clen a \<Longrightarrow> vm_stack vm = S
    \<Longrightarrow> leads en F vm (post (gives F D sc env S (clen b)) (ev s))"
  by (auto simp: simulates_def)

text \<open>One part after the other.\<close>

lemma simulates_bind:
  assumes "simulates en F D sc env a b ev"
    and "\<And>v s vm S. vm_ip vm = clen b \<Longrightarrow> vm_stack vm = v # S \<Longrightarrow> rel F D sc env s vm \<Longrightarrow> leads en F vm (post (gives F D sc env S (clen c)) (k v s))"
  shows "simulates en F D sc env a c (\<lambda>s. tw_bind (ev s) k)"
  by (rule simulatesI) (rule post_bind [OF simulatesD [OF assms(1)]], auto intro: assms(2))

lemma simulates_bind2:
  assumes "simulates en F D sc env a b ev" and "simulates en F D sc env b c ev'"
    and "\<And>v w s vm S. vm_ip vm = clen c \<Longrightarrow> vm_stack vm = w # v # S \<Longrightarrow> rel F D sc env s vm
      \<Longrightarrow> leads en F vm (post (gives F D sc env S (clen d)) (k v w s))"
  shows "simulates en F D sc env a d (\<lambda>s. tw_bind (ev s) (\<lambda>v s1. tw_bind (ev' s1) (k v)))"
  by (rule simulates_bind [OF assms(1)]) (rule post_bind [OF simulatesD [OF assms(2)]], auto intro: assms(3))

lemma depth_irrelevant [simp]:
  "segment F bs (st\<lparr>co_depth := d\<rparr>) st' = segment F bs st st'" "segment F bs st (st'\<lparr>co_depth := d\<rparr>) = segment F bs st st'"
  "simulates en F D sc env (st\<lparr>co_depth := d\<rparr>) st' ev = simulates en F D sc env st st' ev"
  "simulates en F D sc env st (st'\<lparr>co_depth := d\<rparr>) ev = simulates en F D sc env st st' ev"
  by (simp_all add: segment_def agrees_def simulates_def)

lemma nested_sim:
  assumes "nested sp inner st = Ok st'" and "segment F [] st st'" and "d + 1 \<le> EXPR_NEST_LIMIT"
    and "\<And>a b. inner a = Ok b \<Longrightarrow> segment F [] a b \<Longrightarrow> co_resolved a = co_resolved st
      \<Longrightarrow> simulates en F D sc env a b (eval_kind en (d + 1) k env)"
  shows "simulates en F D sc env st st' (eval_expr en d (Expr k sp') env)"
proof -
  obtain b where b: "inner (st\<lparr>co_depth := co_depth st + 1\<rparr>) = Ok b" "st' = b\<lparr>co_depth := co_depth b - 1\<rparr>"
    using assms(1) by (auto simp: nested_def split: if_splits)
  with assms(2) assms(4) [OF b(1)] have "simulates en F D sc env st st' (eval_kind en (d + 1) k env)" by simp
  then show ?thesis using assms(3) by (simp add: simulates_def)
qed

subsection \<open>Literals and names\<close>

lemma emits_const: "\<exists>idx :: u16. emits (op_as_u8 op # to_le_bytes 2 idx) st (emit_with_const deq op (VStr x) sp st)
    \<and> (\<not> overflowed (emit_with_const deq op (VStr x) sp st) \<longrightarrow> vec_get (consts_of (emit_with_const deq op (VStr x) sp st)) (unat idx) = Some (VStr x))"
  by (rule emit_with_const_code [of "VStr x" deq op sp st]) (auto simp: emits_def opens_const)

text \<open>An instruction that carries a name.\<close>

lemma leads_named:
  assumes "segment F [] st (emit_with_const deq op (VStr x) sp st)" and "operand_width op = 2" and "vm_ip vm = clen st"
    and "(\<And>(b :: 'd vm) k. with_name F (clen st + 1) b k = k x) \<Longrightarrow> site_name F (clen st) = x
      \<Longrightarrow> P (exec_arm op en F (clen st) (clen st + 1) (vm\<lparr>vm_ip := clen (emit_with_const deq op (VStr x) sp st)\<rparr>))"
  shows "leads en F vm P"
proof -
  let ?b = "emit_with_const deq op (VStr x) sp st"
  obtain idx :: u16 where e: "emits (op_as_u8 op # to_le_bytes 2 idx) st ?b" "vec_get (consts_of ?b) (unat idx) = Some (VStr x)"
    using emits_const [of op st deq x sp] assms(1) by (auto simp: segment_def)
  have code: "code_of ?b = code_of st @ op_as_u8 op # to_le_bytes 2 idx @ []" using e(1) by (simp add: emits_def)
  show ?thesis
    by (rule leads_op [OF assms(1) e(1) _ assms(3)])
      (use assms(2,4) segment_name [OF assms(1) code e(2)] in \<open>auto simp: to_le_2\<close>)
qed

lemma literal_sim:
  assumes "compile_literal deq l nd st = Ok st'" and "segment F [] st st'"
  shows "simulates (en :: 'd engine) F D sc env st st' (eval_kind en d (literal_kind l) env)"
proof (rule simulatesI)
  fix s and vm :: "'d vm" assume rel: "rel F D sc env s vm" and ip: "vm_ip vm = clen st"
  have st': "st' = emit_with_const deq Op_Const (literal_const_value l) (node_span nd) st"
    using assms(1) by (simp add: compile_literal_def)
  obtain idx :: u16 where code: "code_of st' = code_of st @ op_as_u8 Op_Const # to_le_bytes 2 idx @ []"
    and const: "vec_get (consts_of st') (unat idx) = Some (literal_const_value l)"
  proof (rule emit_with_const_code [of "literal_const_value l" deq Op_Const "node_span nd" st])
    show "literal_const_value l \<noteq> VDecimal dc" for dc by (cases l) auto
  qed (use assms(2) in \<open>auto simp: st' segment_def\<close>)
  have "vec_get (c_consts F) (unat idx) = Some (literal_const_value l)"
    using assms(2) const agrees_const unfolding segment_def by blast
  then have step: "step_const F (clen st + 1) (vm\<lparr>vm_ip := clen st'\<rparr>)
      = (case const_value (literal_const_value l) of Some v \<Rightarrow> VNext (push v (vm\<lparr>vm_ip := clen st'\<rparr>)) | None \<Rightarrow> VOutside)"
    using segment_u16 [OF assms(2) code] by (simp add: step_const_def vec_get_def)
  have e: "emits (op_as_u8 Op_Const # to_le_bytes 2 idx) st st'"
    using code st' by (simp add: emits_def opens_const)
  show "leads en F vm (post (gives F D sc env (vm_stack vm) (clen st')) (eval_kind en d (literal_kind l) env s))"
    by (rule leads_op [OF assms(2) e _ ip]) (use rel step in \<open>cases l; simp add: to_le_2 const_value_def gives_def push_def\<close>)+
qed

lemma slot_u16_Ok: "slot_u16 slot msg sp = Ok w \<Longrightarrow> unat w = slot"
  by (auto simp: slot_u16_def unat_of_nat split: if_splits)

lemma name_sim:
  assumes "compile_name_ref deq x nd st = Ok st'" and "segment F [] st st'"
    and "rr_uses (co_resolved st) (text_range nd) = Some (resolution_of sc x)"
  shows "simulates (en :: 'd engine) F D sc env st st' (eval_kind en d (EIdent x) env)"
proof (rule simulatesI)
  fix s and vm :: "'d vm" assume rel: "rel F D sc env s vm" and ip: "vm_ip vm = clen st"
  have cells: "co_cells st = {}" using assms(2) by (simp add: segment_def)
  show "leads en F vm (post (gives F D sc env (vm_stack vm) (clen st')) (eval_kind en d (EIdent x) env s))"
  proof (cases "slookup sc x")
    case None
    then have st': "st' = emit_with_const deq Op_GetGlobal (VStr x) (node_span nd) st"
      using assms(1,3) by (simp add: compile_name_ref_def resolution_of_def)
    show ?thesis
    proof (rule leads_named [OF assms(2) [unfolded st'] _ ip])
      assume n: "\<And>(b :: 'd vm) k. with_name F (clen st + 1) b k = k x" "site_name F (clen st) = x"
      obtain caches where c: "get_global BUILTINS (en_specialize en) (vm_globals vm) (vm_global_caches vm) (clen st) x
          = (case env_get (tw_envs s) env x of Some v \<Rightarrow> Ok (v, caches) | None \<Rightarrow> Err (UndefinedVariable x))"
        "rel F D sc env s (vm\<lparr>vm_global_caches := caches\<rparr>)"
        using rel_get_global [OF rel n(2) None] by blast
      then have "rel F D sc env s (vm\<lparr>vm_ip := clen st', vm_global_caches := caches\<rparr>)" by (simp add: rel_def shared_def)
      with c(1) n(1) rel show "post (gives F D sc env (vm_stack vm) (clen st')) (eval_kind en d (EIdent x) env s)
          (exec_arm Op_GetGlobal en F (clen st) (clen st + 1)
            (vm\<lparr>vm_ip := clen (emit_with_const deq Op_GetGlobal (VStr x) (node_span nd) st)\<rparr>))"
        by (cases "env_get (tw_envs s) env x") (auto simp: step_get_global_def gives_def push_def st' rel_shared)
    qed simp
  next
    case (Some b)
    then obtain slot m where b: "slookup sc x = Some (slot, m)" by (cases b) auto
    then obtain w where w: "unat w = slot" and st': "st' = with_chunk (emit_u16 Op_GetLocal w (node_span nd)) st"
      using assms(1,3) cells by (auto simp: compile_name_ref_def resolution_of_def dest: slot_u16_Ok)
    have code: "code_of st' = code_of st @ op_as_u8 Op_GetLocal # to_le_bytes 2 w @ []" by (simp add: st')
    have "emits (op_as_u8 Op_GetLocal # to_le_bytes 2 w) st st'" by (simp add: st')
    then show ?thesis
      by (rule leads_op [OF assms(2) _ _ ip])
        (use rel segment_u16 [OF assms(2) code] rel_get_local [OF rel b] w
          in \<open>auto simp: to_le_2 step_get_local_def vec_get_def gives_def push_def\<close>)
  qed
qed

subsection \<open>Operators\<close>

lemma op_sim1:
  assumes "simulates (en :: 'd engine) F D sc env a b ev" and "segment F [] b c" and "emits [op_as_u8 op] b c" and "operand_width op = 0"
    and "\<And>pc fault vm. exec_arm op en F fault pc vm = step_unop en uop vm"
  shows "simulates en F D sc env a c (\<lambda>s. tw_bind (ev s) (\<lambda>v. tw_outcome (Some (one (apply_unop (en_num en) uop v)))))"
proof (rule simulates_bind [OF assms(1)])
  fix v s and vm :: "'d vm" and S assume vm: "vm_ip vm = clen b" "vm_stack vm = v # S" "rel F D sc env s vm"
  show "leads en F vm (post (gives F D sc env S (clen c)) (tw_outcome (Some (one (apply_unop (en_num en) uop v))) s))"
    by (rule leads_op [OF assms(2,3) _ vm(1)]) (use assms(4,5) vm in \<open>auto simp: step_unop_def intro!: post_outcome\<close>)
qed

lemma binop_step:
  assumes "segment F [] c d" and "emits [op_as_u8 op] c d" and "operand_width op = 0"
    and "\<And>pc fault vm. exec_arm op en F fault pc vm = step_binop en fault bop vm"
    and vm: "vm_ip vm = clen c" "vm_stack vm = w # v # S" "rel F D sc env s vm"
  shows "leads en F vm (post (gives F D sc env S (clen d))
    (tw_outcome (if bop = BInstanceOf then Some (en_inst en v w) else apply_binop (en_num en) bop v w) s))"
proof (rule leads_op [OF assms(1,2) _ vm(1)])
  obtain r caches where r: "eval_binop_adaptive (en_num en) (en_inst en) (en_specialize en) (vm_arith_caches vm) (clen c) bop v w = (r, caches)"
    by fastforce
  have "r = (if bop = BInstanceOf then Some (en_inst en v w) else apply_binop (en_num en) bop v w)"
    using eval_binop_generic [of "en_num en" "en_inst en" "en_specialize en" "vm_arith_caches vm" "clen c" bop v w] r by simp
  moreover have "exec_arm op en F (clen c) (clen c + 1) (vm\<lparr>vm_ip := clen d\<rparr>)
      = push_outcome r (vm\<lparr>vm_ip := clen d, vm_stack := S, vm_arith_caches := caches\<rparr>)"
    using assms(4) vm(2) r by (simp add: step_binop_def)
  ultimately show "post (gives F D sc env S (clen d))
    (tw_outcome (if bop = BInstanceOf then Some (en_inst en v w) else apply_binop (en_num en) bop v w) s)
    (exec_arm op en F (clen c) (clen c + 1) (vm\<lparr>vm_ip := clen d\<rparr>))"
    using vm(3) by (simp only:) (rule post_outcome, simp_all)
qed (use assms(3) in simp)

lemma segment_over: "segment F bs st st' \<Longrightarrow> \<not> overflowed st'"
  by (simp add: segment_def)

lemma unary_sim:
  assumes "compile_unary op ce e st = Ok st'" and "segment F [] st st'" and "expr_action ce"
    and "\<And>a b. ce a = Ok b \<Longrightarrow> segment F [] a b \<Longrightarrow> co_resolved a = co_resolved st \<Longrightarrow> simulates en F D sc env a b ev"
  shows "simulates en F D sc env st st' (\<lambda>s. tw_bind (ev s) (\<lambda>v. tw_outcome (Some (one (apply_unop (en_num en) op v)))))"
proof -
  obtain st1 where st1: "ce st = Ok st1" "st' = with_chunk (emit (unary_bytecode op) (code_span (node_of e))) st1"
    using assms(1) by (auto simp: compile_unary_def)
  have x: "extends st st1" "extends st1 st'" using expr_actionD [OF assms(3) st1(1)] st1(2) by (simp_all add: opens_def)
  show ?thesis
  proof (rule op_sim1)
    show "simulates en F D sc env st st1 ev" using assms(4) [OF st1(1)] segment_mid [OF assms(2) _ x(2)] by simp
    show "segment F [] st1 st'" using segment_mid [OF assms(2) x(1)] by simp
    show "emits [op_as_u8 (unary_bytecode op)] st1 st'" by (simp add: st1(2))
    show "exec_arm (unary_bytecode op) en F fault pc vm = step_unop en op vm" for pc fault vm
      by (cases op) (simp_all add: unary_bytecode_def)
    show "operand_width (unary_bytecode op) = 0" by (cases op) (simp_all add: unary_bytecode_def)
  qed
qed

subsection \<open>Jumps\<close>

lemma segment_jump:
  assumes "segment F bs st st'" and "clen st \<le> p" and "p + 3 \<le> clen st'" and "code_of st' ! p = op_as_u8 op"
    and "read_i16 (co_chunk st') (p + 1) = Some (int t - int (p + 3))" and "{p, p + 1, p + 2} \<inter> holes bs = {}"
    and "operand_width op = 2" and "vm_ip vm = p"
  shows "vm_step en F vm = exec_arm op en F p (p + 1) (vm\<lparr>vm_ip := p + 3\<rparr>)"
    and "read_i16 F (p + 1) = Some (int t - int (p + 3))"
proof -
  have a: "agrees F (holes bs) st st'" using assms(1) by (simp add: segment_def)
  with assms(2-4,6) have "p < length (c_code F)" "c_code F ! p = op_as_u8 op" by (auto simp: agrees_def)
  then show "vm_step en F vm = exec_arm op en F p (p + 1) (vm\<lparr>vm_ip := p + 3\<rparr>)"
    using vm_step_op [of vm F op en] assms(7,8) by (simp add: numeral_3_eq_3)
  show "read_i16 F (p + 1) = Some (int t - int (p + 3))"
    using agrees_read_i16 [OF a, of "p + 1"] assms(2,3,5,6) by simp
qed

lemma jump_by_target [simp]: "jump_by (int t - int (p + 3)) (vm\<lparr>vm_ip := p + 3\<rparr>) = vm\<lparr>vm_ip := t\<rparr>"
  by (simp add: jump_by_def Let_def)

lemma jump_if_target:
  assumes "read_i16 F pc = Some (int t - int (p + 3))" and "vm_stack vm = v # S"
  shows "step_jump_if test F pc (vm\<lparr>vm_ip := p + 3\<rparr>) = VNext (vm\<lparr>vm_stack := S, vm_ip := if test v then t else p + 3\<rparr>)"
proof -
  have "jump_by (int t - int (p + 3)) (vm\<lparr>vm_ip := p + 3, vm_stack := S\<rparr>) = vm\<lparr>vm_stack := S, vm_ip := t\<rparr>"
    by (simp add: jump_by_def Let_def)
  then show ?thesis using assms by (simp add: step_jump_if_def Let_def)
qed

text \<open>A filled hole is read as it was filled.\<close>

lemma fills_read:
  assumes "fills site a b" and "\<not> overflowed b" and "same_on site (site + 2) b c" and "clen b \<le> clen c"
  shows "read_i16 (co_chunk c) site = Some (int (clen a) - int (site + 2))"
proof -
  have "read_i16 (co_chunk c) site = read_i16 (co_chunk b) site"
    using assms by (intro read_i16_cong) (auto simp: fills_def same_on_def)
  then show ?thesis using assms(1,2) by (simp add: fills_def)
qed

lemma fills_extends: "fills site a b \<Longrightarrow> clen st \<le> site \<Longrightarrow> extends st a \<Longrightarrow> extends st b"
  by (rule extends_fills)

lemma short_circuit_sim:
  assumes run: "short_circuit jop cl cr sp st = Ok st'" and seg: "segment F [] st st'" and act: "expr_action cl" "expr_action cr"
    and l: "\<And>a b. cl a = Ok b \<Longrightarrow> segment F [] a b \<Longrightarrow> co_resolved a = co_resolved st \<Longrightarrow> simulates (en :: 'd engine) F D sc env a b ev"
    and r: "\<And>a b. cr a = Ok b \<Longrightarrow> segment F [] a b \<Longrightarrow> co_resolved a = co_resolved st \<Longrightarrow> simulates en F D sc env a b ev'"
    and jop: "operand_width jop = 2" "\<And>fault pc vm. exec_arm jop en F fault pc vm = step_jump_if test F pc vm"
  shows "simulates en F D sc env st st' (\<lambda>s. tw_bind (ev s) (\<lambda>v s1. if test v then TOk v s1 else ev' s1))"
  using run
proof (rule short_circuitE)
  fix st1 st2 st3 st4
  let ?d = "with_chunk (emit Op_Dup sp) st1"
  assume s: "cl st = Ok st1" "emits [op_as_u8 Op_Dup] st1 ?d" "emits (op_as_u8 jop # to_le_bytes 2 (0 :: u16)) ?d st2"
    "emits [op_as_u8 Op_Pop] st2 st3" "cr st3 = Ok st4" "fills (clen st1 + 2) st4 st'"
  have len: "clen ?d = clen st1 + 1" "clen st2 = clen st1 + 4" "clen st3 = clen st1 + 5" "clen st' = clen st4"
    using s(2-4,6) by (simp_all add: emits_len to_le_2 fills_def)
  have x: "extends st st1" "extends st1 ?d" "extends ?d st2" "extends st2 st3" "extends st3 st4"
    using s(2-4) expr_actionD [OF act(1) s(1)] expr_actionD [OF act(2) s(5)] by (auto simp: emits_extends dest: opens_extends)
  have y: "extends st st3" "extends ?d st4" "extends st st2" using x code_extends_trans by blast+
  have z: "extends ?d st'" using extends_fills [OF y(2) _ s(6)] len by simp
  then have z1: "extends st1 st'" using x code_extends_trans by blast
  have over: "\<not> overflowed st4" using s(6) seg by (simp add: segment_def fills_def)
  have tail: "segment F [] a b" if "extends st a" "clen st2 \<le> clen a" "extends b st4" for a b
    by (rule segment_part [OF seg that(1)])
      (use that len over extends_len [OF that(3)] in \<open>auto intro: same_trans [OF same_extends same_fills [OF s(6)]] dest: extends_overflow\<close>)
  have jump: "code_of st' ! clen ?d = op_as_u8 jop" "read_i16 (co_chunk st') (clen ?d + 1) = Some (int (clen st') - int (clen ?d + 3))"
    using s(3,6) y(2) x(3-5) len seg fills_read [OF s(6), of st'] extends_len [OF x(5)]
    by (auto simp: emits_def fills_def extends_def nth_append segment_def)
  note left = l [OF s(1) segment_mid [OF seg code_extends_refl z1] refl]
  show ?thesis
  proof (rule simulates_bind [OF left])
    fix v s0 and vm :: "'d vm" and S
    assume vm: "vm_ip vm = clen st1" "vm_stack vm = v # S" "rel F D sc env s0 vm"
    let ?vm1 = "push v (vm\<lparr>vm_ip := clen ?d\<rparr>)"
    have dup: "vm_step en F vm = VNext ?vm1"
      using segment_step [OF segment_mid [OF seg x(1) z] s(2) _ _ vm(1)] vm(2) by (simp add: step_dup_def)
    have ip1: "vm_ip ?vm1 = clen ?d" "vm_stack ?vm1 = v # v # S" "rel F D sc env s0 ?vm1" using vm by (simp_all add: push_def)
    have "clen st \<le> clen ?d" "clen ?d + 3 \<le> clen st'" using extends_len [OF x(1)] extends_len [OF x(5)] len by auto
    note j = segment_jump [OF seg this jump _ jop(1) ip1(1)]
    then have step: "vm_step en F ?vm1 = VNext (?vm1\<lparr>vm_stack := v # S, vm_ip := if test v then clen st' else clen ?d + 3\<rparr>)"
      using jop(2) jump_if_target [OF j(2) ip1(2)] by simp
    show "leads en F vm (post (gives F D sc env S (clen st')) (if test v then TOk v s0 else ev' s0))"
    proof (rule leads_step [OF dup], rule leads_step [OF step])
      let ?vm2 = "?vm1\<lparr>vm_stack := v # S, vm_ip := if test v then clen st' else clen ?d + 3\<rparr>"
      show "leads en F ?vm2 (post (gives F D sc env S (clen st')) (if test v then TOk v s0 else ev' s0))"
      proof (cases "test v")
        case True
        then show ?thesis using ip1(3) by (auto intro!: leads_now givesI)
      next
        case False
        have ip2: "vm_ip ?vm2 = clen st2" "vm_stack ?vm2 = v # S" "rel F D sc env s0 ?vm2" using False len ip1(3) by simp_all
        have pop: "vm_step en F ?vm2 = VNext (?vm2\<lparr>vm_ip := clen st3, vm_stack := S\<rparr>)"
          using segment_step [OF tail [OF y(3) order.refl x(5)] s(4) _ _ ip2(1)] ip2(2) s(4)
          by (simp add: step_pop_def)
        have right: "simulates en F D sc env st3 st4 ev'"
          using r [OF s(5) tail] y(1) len extends_resolved [OF y(1)] by simp
        show ?thesis
          by (rule leads_step [OF pop]) (use False len simulatesD [OF right, of s0 _ S] ip2(3) in simp)
      qed
    qed
  qed
qed

text \<open>The parts of two branches that join.\<close>

lemma holes_append [simp]: "holes (bs @ bs') = holes bs \<union> holes bs'"
  by (auto simp: holes_def)

lemma holes_in: "opens bs a b \<Longrightarrow> p \<in> holes bs \<Longrightarrow> clen a \<le> p \<and> p < clen b"
  by (fastforce simp: opens_def sites_in_def holes_def)

lemma branch_parts:
  assumes seg: "segment F (bs @ bs') st st'"
    and s: "opens [] st st1" "emits (op_as_u8 Op_JumpIfFalse # to_le_bytes 2 (0 :: u16)) st1 st2" "opens bs st2 st3"
      "emits (op_as_u8 Op_Jump # to_le_bytes 2 (0 :: u16)) st3 st4" "fills (clen st1 + 1) st4 st5" "opens bs' st5 st6"
      "fills (clen st3 + 1) st6 st'"
  shows "segment F [] st st1" "segment F bs st2 st3" "segment F bs' st5 st6"
    and "co_resolved st2 = co_resolved st" "co_resolved st5 = co_resolved st" "clen st6 = clen st'"
    and "vm_ip vm = clen st1 \<Longrightarrow> vm_stack vm = v # S
      \<Longrightarrow> vm_step en F vm = VNext (vm\<lparr>vm_stack := S, vm_ip := if is_truthy (en_num en) v then clen st2 else clen st5\<rparr>)"
    and "vm_ip vm' = clen st3 \<Longrightarrow> vm_step en F vm' = VNext (vm'\<lparr>vm_ip := clen st'\<rparr>)"
proof -
  have len: "clen st2 = clen st1 + 3" "clen st4 = clen st3 + 3" "clen st5 = clen st4" "clen st' = clen st6"
    using s(2,4,5,7) by (simp_all add: emits_len to_le_2 fills_def)
  have x: "extends st st1" "extends st1 st2" "extends st2 st3" "extends st3 st4" "extends st5 st6"
    using s by (auto simp: emits_extends dest: opens_extends)
  note le = x [THEN extends_len]
  have st2: "extends st st2" and st1_4: "extends st1 st4" and st_4: "extends st st4" using x code_extends_trans by blast+
  have st1_5: "extends st1 st5" using extends_fills [OF st1_4 _ s(5)] by simp
  then have st5: "extends st st5" and st1_6: "extends st1 st6" using x code_extends_trans by blast+
  have st1': "extends st1 st'" using extends_fills [OF st1_6 _ s(7)] le len by simp
  show "co_resolved st2 = co_resolved st" "co_resolved st5 = co_resolved st" "clen st6 = clen st'"
    using extends_resolved [OF st2] extends_resolved [OF st5] len by simp_all
  have over: "\<not> overflowed st'" "\<not> overflowed st6" "\<not> overflowed st5" "\<not> overflowed st4" "\<not> overflowed st3" "\<not> overflowed st1"
    using seg s(5,7) x(4,5) st1' by (auto simp: segment_def fills_def dest: extends_overflow)
  have out: "p \<notin> holes bs \<or> clen st2 \<le> p \<and> p < clen st3" "p \<notin> holes bs' \<or> clen st5 \<le> p \<and> p < clen st6" for p
    using holes_in [OF s(3)] holes_in [OF s(6)] by blast+
  show "segment F [] st st1"
    by (rule segment_part [OF seg code_extends_refl]) (use over out same_extends [OF st1'] le len in fastforce)+
  have "same_on (clen st2) (clen st3) st3 st4" "same_on (clen st2) (clen st3) st4 st5"
    "same_on (clen st2) (clen st3) st5 st6" "same_on (clen st2) (clen st3) st6 st'"
    using same_extends [OF x(4)] same_fills [OF s(5)] same_extends [OF x(5)] same_fills [OF s(7)] len by simp_all
  then have same3: "same_on (clen st2) (clen st3) st3 st'" using same_trans by blast
  show "segment F bs st2 st3"
    by (rule segment_part [OF seg st2]) (use over out same3 le len in fastforce)+
  show "segment F bs' st5 st6"
    by (rule segment_part [OF seg st5]) (use over out same_fills [OF s(7)] le len in fastforce)+
  have same5: "same_on (clen st1 + 1) (clen st1 + 3) st5 st'"
    using same_trans [OF same_extends [OF x(5)] same_fills [OF s(7)]] le len by simp
  have jf: "read_i16 (co_chunk st') (clen st1 + 1) = Some (int (clen st5) - int (clen st1 + 3))"
    using fills_read [OF s(5) over(3), of st'] same5 le len by (simp add: numeral_3_eq_3)
  have jm: "read_i16 (co_chunk st') (clen st3 + 1) = Some (int (clen st') - int (clen st3 + 3))"
    using fills_read [OF s(7) over(1), of st'] len by (simp add: numeral_3_eq_3)
  have "code_of st2 ! clen st1 = op_as_u8 Op_JumpIfFalse" "code_of st4 ! clen st3 = op_as_u8 Op_Jump"
    using s(2,4) by (simp_all add: emits_def)
  moreover have "code_of st' ! clen st1 = code_of st2 ! clen st1"
  proof -
    have "same_on (clen st1) (clen st1 + 1) st2 st3" "same_on (clen st1) (clen st1 + 1) st3 st4" "same_on (clen st1) (clen st1 + 1) st4 st5"
      "same_on (clen st1) (clen st1 + 1) st5 st6" "same_on (clen st1) (clen st1 + 1) st6 st'"
      using same_extends [OF x(3)] same_extends [OF x(4)] same_fills [OF s(5)] same_extends [OF x(5)] same_fills [OF s(7)] le len by simp_all
    then show ?thesis by (simp add: same_on_def)
  qed
  moreover have "code_of st' ! clen st3 = code_of st4 ! clen st3"
  proof -
    have "same_on (clen st3) (clen st3 + 1) st4 st5" "same_on (clen st3) (clen st3 + 1) st5 st6" "same_on (clen st3) (clen st3 + 1) st6 st'"
      using same_fills [OF s(5)] same_extends [OF x(5)] same_fills [OF s(7)] le len by simp_all
    then show ?thesis by (simp add: same_on_def)
  qed
  ultimately have op: "code_of st' ! clen st1 = op_as_u8 Op_JumpIfFalse" "code_of st' ! clen st3 = op_as_u8 Op_Jump" by simp_all
  have bounds: "clen st \<le> clen st1" "clen st1 + 3 \<le> clen st'" "clen st \<le> clen st3" "clen st3 + 3 \<le> clen st'"
    "{clen st1, clen st1 + 1, clen st1 + 2} \<inter> holes (bs @ bs') = {}" "{clen st3, clen st3 + 1, clen st3 + 2} \<inter> holes (bs @ bs') = {}"
    using le len out by fastforce+
  show "vm_step en F vm = VNext (vm\<lparr>vm_stack := S, vm_ip := if is_truthy (en_num en) v then clen st2 else clen st5\<rparr>)"
    if vm: "vm_ip vm = clen st1" "vm_stack vm = v # S"
  proof -
    note j = segment_jump [OF seg bounds(1,2) op(1) jf bounds(5) _ vm(1)]
    show ?thesis using j(1) jump_if_target [OF j(2) vm(2)] len by simp
  qed
  show "vm_step en F vm' = VNext (vm'\<lparr>vm_ip := clen st'\<rparr>)" if vm: "vm_ip vm' = clen st3"
    using segment_jump [OF seg bounds(3,4) op(2) jm bounds(6) _ vm] jump_by_target [of "clen st'" "clen st3" vm'] len
    by (simp add: step_jump_def)
qed

lemma ternary_sim:
  assumes run: "compile_ternary cc ca cb nd st = Ok st'" and seg: "segment F [] st st'" and act: "expr_action cc" "expr_action ca" "expr_action cb"
    and c: "\<And>a b. cc a = Ok b \<Longrightarrow> segment F [] a b \<Longrightarrow> co_resolved a = co_resolved st \<Longrightarrow> simulates (en :: 'd engine) F D sc env a b ec"
    and t: "\<And>a b. ca a = Ok b \<Longrightarrow> segment F [] a b \<Longrightarrow> co_resolved a = co_resolved st \<Longrightarrow> simulates en F D sc env a b ea"
    and e: "\<And>a b. cb a = Ok b \<Longrightarrow> segment F [] a b \<Longrightarrow> co_resolved a = co_resolved st \<Longrightarrow> simulates en F D sc env a b eb"
  shows "simulates en F D sc env st st' (\<lambda>s. tw_bind (ec s) (\<lambda>v s1. if is_truthy (en_num en) v then ea s1 else eb s1))"
  using run unfolding compile_ternary_def
proof (rule branchE)
  fix st1 st2 st3 st4 st5 st6
  assume s: "cc st = Ok st1" "emits (op_as_u8 Op_JumpIfFalse # to_le_bytes 2 (0 :: u16)) st1 st2" "ca st2 = Ok st3"
    "emits (op_as_u8 Op_Jump # to_le_bytes 2 (0 :: u16)) st3 st4" "fills (clen st1 + 1) st4 st5" "cb st5 = Ok st6" "fills (clen st3 + 1) st6 st'"
  have "segment F ([] @ []) st st'" using seg by simp
  note p = branch_parts [OF this expr_actionD [OF act(1) s(1)] s(2) expr_actionD [OF act(2) s(3)] s(4,5) expr_actionD [OF act(3) s(6)] s(7)]
  show ?thesis
  proof (rule simulates_bind [OF c [OF s(1) p(1) refl]])
    fix v s0 and vm :: "'d vm" and S
    assume vm: "vm_ip vm = clen st1" "vm_stack vm = v # S" "rel F D sc env s0 vm"
    let ?vm = "vm\<lparr>vm_stack := S, vm_ip := if is_truthy (en_num en) v then clen st2 else clen st5\<rparr>"
    show "leads en F vm (post (gives F D sc env S (clen st')) (if is_truthy (en_num en) v then ea s0 else eb s0))"
    proof (rule leads_step [OF p(7) [OF vm(1,2)]], cases "is_truthy (en_num en) v")
      case True
      have "simulates en F D sc env st2 st3 ea" using t [OF s(3) p(2,4)] .
      then have "leads en F ?vm (post (gives F D sc env S (clen st3)) (ea s0))"
        by (rule simulatesD) (use vm(3) True in simp_all)
      then have "leads en F ?vm (post (gives F D sc env S (clen st')) (tw_bind (ea s0) TOk))"
      proof (rule post_bind)
        fix w s1 and vm' :: "'d vm" assume w: "vm_ip vm' = clen st3" "vm_stack vm' = w # S" "rel F D sc env s1 vm'"
        show "leads en F vm' (post (gives F D sc env S (clen st')) (TOk w s1))"
          by (rule leads_step [OF p(8) [OF w(1)]], rule leads_now) (use w in \<open>simp add: gives_def\<close>)
      qed
      then show "leads en F ?vm (post (gives F D sc env S (clen st')) (if is_truthy (en_num en) v then ea s0 else eb s0))"
        using True by (simp add: tw_bind_TOk)
    next
      case False
      have "simulates en F D sc env st5 st6 eb" using e [OF s(6) p(3,5)] .
      then have "leads en F ?vm (post (gives F D sc env S (clen st6)) (eb s0))"
        by (rule simulatesD) (use vm(3) False in simp_all)
      then show "leads en F ?vm (post (gives F D sc env S (clen st')) (if is_truthy (en_num en) v then ea s0 else eb s0))"
        using False p(6) by simp
    qed
  qed
qed

text \<open>The binary operators that are not short-circuiting have an instruction each.\<close>

lemma binary_arm:
  "binary_bytecode op = Some bytecode \<Longrightarrow> exec_arm bytecode en F fault pc vm = step_binop en fault op vm \<and> operand_width bytecode = 0"
  by (cases op) (auto simp: binary_bytecode_def)

lemma reserved_agree: "reserved_ident op (ast_of e) = reserved_rhs op e"
proof (cases e)
  case (CLiteral l nd)
  then show ?thesis by (cases l) (auto simp: reserved_ident_def reserved_rhs_def)
qed (auto simp: reserved_ident_def reserved_rhs_def)

lemma reserved_type: "reserved_rhs op e = Some name \<Longrightarrow> op = BInstanceOf \<and> (\<exists>b. instanceof_reserved_type v name = Some b)"
  by (auto simp: reserved_rhs_def is_reserved_instanceof_type_name_def instanceof_reserved_type_def split: cst.splits if_splits)

lemma if_flip: "(if \<not> P then x else y) = (if P then y else x)"
  by simp

lemma short_circuit_kind:
  assumes "short_circuit_op op = Some jop"
  obtains test where "operand_width jop = 2" "\<And>fault pc vm. exec_arm jop en F fault pc vm = step_jump_if test F pc vm"
    "\<And>d lhs rhs env. eval_kind en d (EBinary op lhs rhs) env
      = (\<lambda>s. tw_bind (eval_expr en d lhs env s) (\<lambda>v s1. if test v then TOk v s1 else eval_expr en d rhs env s1))"
proof (cases op)
  case BAnd
  then show thesis using assms that [of "\<lambda>v. \<not> is_truthy (en_num en) v"] by (simp add: short_circuit_op_def fun_eq_iff if_flip)
next
  case BOr
  then show thesis using assms that [of "is_truthy (en_num en)"] by (simp add: short_circuit_op_def fun_eq_iff)
next
  case BCoalesce
  then show thesis using assms that [of "\<lambda>v. \<not> rval_eq (en_num en) v RNil"] by (simp add: short_circuit_op_def fun_eq_iff if_flip)
qed (use assms in \<open>simp_all add: short_circuit_op_def\<close>)

lemma binary_sim:
  assumes run: "compile_binary deq op ca cb rhs nd st = Ok st'" and seg: "segment F [] st st'" and act: "expr_action ca" "expr_action cb"
    and l: "\<And>a b. ca a = Ok b \<Longrightarrow> segment F [] a b \<Longrightarrow> co_resolved a = co_resolved st
      \<Longrightarrow> simulates (en :: 'd engine) F D sc env a b (eval_expr en d lhs env)"
    and r: "\<And>a b. cb a = Ok b \<Longrightarrow> segment F [] a b \<Longrightarrow> co_resolved a = co_resolved st
      \<Longrightarrow> simulates en F D sc env a b (eval_expr en d (ast_of rhs) env)"
  shows "simulates en F D sc env st st' (eval_kind en d (EBinary op lhs (ast_of rhs)) env)"
proof (cases "short_circuit_op op")
  case (Some jop)
  from run Some have sc: "short_circuit jop ca cb (code_span nd) st = Ok st'" by (simp add: compile_binary_def)
  show ?thesis
  proof (rule short_circuit_kind [OF Some, where en = en and F = F])
    fix test
    assume t: "operand_width jop = 2" "\<And>fault pc vm. exec_arm jop en F fault pc vm = step_jump_if test F pc vm"
      "\<And>d lhs rhs env. eval_kind en d (EBinary op lhs rhs) env
        = (\<lambda>s. tw_bind (eval_expr en d lhs env s) (\<lambda>v s1. if test v then TOk v s1 else eval_expr en d rhs env s1))"
    show ?thesis unfolding t(3) by (rule short_circuit_sim [OF sc seg act l r t(1,2)])
  qed
next
  case None
  then have op: "op \<noteq> BAnd" "op \<noteq> BOr" "op \<noteq> BCoalesce" by (auto simp: short_circuit_op_def)
  show ?thesis
  proof (cases "reserved_rhs op rhs")
    case (Some name)
    with run None obtain st1 where st1: "ca st = Ok st1" "st' = emit_with_const deq Op_InstanceOfType (VStr name) (code_span nd) st1"
      by (auto simp: compile_binary_def)
    have x: "extends st st1" "extends st1 st'" using expr_actionD [OF act(1) st1(1)] st1(2) by (simp_all add: opens_def)
    have "simulates en F D sc env st st' (\<lambda>s. tw_bind (eval_expr en d lhs env s) (\<lambda>l.
        TOk (RBool (case instanceof_reserved_type l name of Some b \<Rightarrow> b | None \<Rightarrow> False))))"
    proof (rule simulates_bind [OF l [OF st1(1) segment_mid [OF seg code_extends_refl x(2)] refl]])
      fix v s0 and vm :: "'d vm" and S
      assume vm: "vm_ip vm = clen st1" "vm_stack vm = v # S" "rel F D sc env s0 vm"
      obtain b where b: "instanceof_reserved_type v name = Some b" using reserved_type [OF Some] by blast
      show "leads en F vm (post (gives F D sc env S (clen st'))
          (TOk (RBool (case instanceof_reserved_type v name of Some b \<Rightarrow> b | None \<Rightarrow> False)) s0))"
      proof (rule leads_named [OF segment_mid [OF seg x(1) code_extends_refl, unfolded st1(2)] _ vm(1)])
        assume "\<And>(b :: 'd vm) k. with_name F (clen st1 + 1) b k = k name"
        with vm b show "post (gives F D sc env S (clen st'))
            (TOk (RBool (case instanceof_reserved_type v name of Some b \<Rightarrow> b | None \<Rightarrow> False)) s0)
            (exec_arm Op_InstanceOfType en F (clen st1) (clen st1 + 1)
              (vm\<lparr>vm_ip := clen (emit_with_const deq Op_InstanceOfType (VStr name) (code_span nd) st1)\<rparr>))"
          by (auto simp: step_instance_of_type_def gives_def push_def st1(2))
      qed simp
    qed
    moreover have "eval_kind en d (EBinary op lhs (ast_of rhs)) env = (\<lambda>s. tw_bind (eval_expr en d lhs env s) (\<lambda>l.
        TOk (RBool (case instanceof_reserved_type l name of Some b \<Rightarrow> b | None \<Rightarrow> False))))"
      using op Some by (simp add: fun_eq_iff reserved_agree)
    ultimately show ?thesis by simp
  next
    case plain: None
    with run None obtain st1 st2 bytecode where s: "ca st = Ok st1" "cb st1 = Ok st2" "binary_bytecode op = Some bytecode"
      "st' = with_chunk (emit bytecode (code_span nd)) st2"
      by (auto simp: compile_binary_def split: option.splits)
    have x: "extends st st1" "extends st1 st2" "extends st2 st'"
      using expr_actionD [OF act(1) s(1)] expr_actionD [OF act(2) s(2)] s(4) by (simp_all add: opens_def)
    have y: "extends st st2" "extends st1 st'" using x code_extends_trans by blast+
    have "simulates en F D sc env st st' (\<lambda>s. tw_bind (eval_expr en d lhs env s) (\<lambda>l s1. tw_bind (eval_expr en d (ast_of rhs) env s1) (\<lambda>r.
        tw_outcome (if op = BInstanceOf then Some (en_inst en l r) else apply_binop (en_num en) op l r))))"
    proof (rule simulates_bind2)
      show "simulates en F D sc env st st1 (eval_expr en d lhs env)" using l [OF s(1) segment_mid [OF seg code_extends_refl y(2)] refl] .
      show "simulates en F D sc env st1 st2 (eval_expr en d (ast_of rhs) env)"
        using r [OF s(2) segment_mid [OF seg x(1,3)]] extends_resolved [OF x(1)] by simp
    qed (rule binop_step [where op = bytecode, OF segment_mid [OF seg y(1) code_extends_refl]], simp_all add: s(4) binary_arm [OF s(3)])
    then show ?thesis using op plain by (simp add: reserved_agree fun_eq_iff simulates_def)
  qed
qed

lemma range_sim:
  assumes run: "compile_range ca cb incl cstep nd st = Ok st'" and seg: "segment F [] st st'"
    and act: "expr_action ca" "expr_action cb" "\<And>c. cstep = Some c \<Longrightarrow> expr_action c"
    and lo: "\<And>a b. ca a = Ok b \<Longrightarrow> segment F [] a b \<Longrightarrow> co_resolved a = co_resolved st
      \<Longrightarrow> simulates (en :: 'd engine) F D sc env a b (eval_expr en d ea env)"
    and hi: "\<And>a b. cb a = Ok b \<Longrightarrow> segment F [] a b \<Longrightarrow> co_resolved a = co_resolved st
      \<Longrightarrow> simulates en F D sc env a b (eval_expr en d eb env)"
    and step: "case (cstep, es) of (None, None) \<Rightarrow> True
      | (Some c, Some e) \<Rightarrow> (\<forall>a b. c a = Ok b \<longrightarrow> segment F [] a b \<longrightarrow> co_resolved a = co_resolved st
          \<longrightarrow> simulates en F D sc env a b (eval_expr en d e env))
      | _ \<Rightarrow> False"
  shows "simulates en F D sc env st st' (eval_kind en d (ERange ea eb incl es) env)"
proof -
  have "\<exists>st1 st2. ca st = Ok st1 \<and> cb st1 = Ok st2" using run by (auto simp: compile_range_def split: option.splits)
  then obtain st1 st2 where s: "ca st = Ok st1" "cb st1 = Ok st2" by blast
  have x: "extends st st1" "extends st1 st2" using expr_actionD [OF act(1) s(1)] expr_actionD [OF act(2) s(2)] by (simp_all add: opens_def)
  have st2: "extends st st2" using x code_extends_trans by blast
  have l: "simulates en F D sc env st st1 (eval_expr en d ea env)" if "extends st2 st'"
    using lo [OF s(1) segment_mid [OF seg code_extends_refl] refl] x that code_extends_trans by blast
  have h: "simulates en F D sc env st1 st2 (eval_expr en d eb env)" if "extends st2 st'"
    using hi [OF s(2) segment_mid [OF seg x(1) that]] extends_resolved [OF x(1)] by simp
  show ?thesis
  proof (cases cstep)
    case None
    let ?op = "if incl then Op_RangeInclusive else Op_Range"
    from None step have es: "es = None" by (auto split: option.splits)
    from run None s have st': "st' = with_chunk (emit ?op (code_span nd)) st2" by (simp add: compile_range_def)
    then have st2': "extends st2 st'" by simp
    have "simulates en F D sc env st st' (\<lambda>s. tw_bind (eval_expr en d ea env s) (\<lambda>lo s1. tw_bind (eval_expr en d eb env s1) (\<lambda>hi.
        tw_outcome (map_option range_outcome (materialize_range_stepped lo hi incl None)))))"
    proof (rule simulates_bind2 [OF l h])
      fix v w s0 and vm :: "'d vm" and S assume vm: "vm_ip vm = clen st2" "vm_stack vm = w # v # S" "rel F D sc env s0 vm"
      note seg2 = segment_mid [OF seg st2 code_extends_refl]
      show "leads en F vm (post (gives F D sc env S (clen st')) (tw_outcome (map_option range_outcome (materialize_range_stepped v w incl None)) s0))"
      proof (cases incl)
        case True
        show ?thesis
          by (rule leads_op [OF seg2 _ _ vm(1), where op = Op_RangeInclusive and bytes = "[]"])
            (use True vm st' in \<open>auto simp: step_range_inclusive_def materialize_range_def intro!: post_outcome\<close>)
      next
        case False
        from False binop_step [OF seg2, of Op_Range en BRange vm w v S D sc env s0] vm st'
        show ?thesis by (simp add: apply_binop_def materialize_range_def)
      qed
    qed (use st2' in simp_all)
    then show ?thesis by (simp add: es simulates_def)
  next
    case (Some cs)
    with step obtain e where es: "es = Some e" by (cases es) auto
    let ?flags = "(if incl then 1 else 0) OR 2 :: 8 word"
    from run Some s obtain st3 where st3: "cs st2 = Ok st3" "st' = with_chunk (emit_u8 Op_RangeStepValue ?flags (code_span nd)) st3"
      by (auto simp: compile_range_def)
    have x3: "extends st2 st3" "extends st3 st'" using expr_actionD [OF act(3) [OF Some] st3(1)] st3(2) by (simp_all add: opens_def)
    then have st2': "extends st2 st'" and st3e: "extends st st3" using st2 code_extends_trans by blast+
    have sim: "simulates en F D sc env st2 st3 (eval_expr en d e env)"
      using step Some es st3(1) segment_mid [OF seg st2 x3(2)] extends_resolved [OF st2] by simp
    note seg3 = segment_mid [OF seg st3e code_extends_refl]
    have code: "code_of st' = code_of st3 @ [op_as_u8 Op_RangeStepValue, ?flags]" by (simp add: st3(2))
    have flags: "read_u8 F (clen st3 + 1) = Some ?flags"
      using agrees_nth [of F st3 st' "[op_as_u8 Op_RangeStepValue, ?flags]" 1] seg3 code by (simp add: segment_def read_u8_def)
    have bits: "(?flags AND 1 \<noteq> 0) = incl" "?flags AND 2 \<noteq> 0" by simp_all
    have "simulates en F D sc env st st' (\<lambda>s. tw_bind (eval_expr en d ea env s) (\<lambda>lo s1. tw_bind (eval_expr en d eb env s1) (\<lambda>hi s2.
        tw_bind (eval_expr en d e env s2) (\<lambda>sv. tw_outcome (map_option range_outcome (materialize_range_stepped lo hi incl (Some sv)))))))"
    proof (rule simulates_bind2 [OF l h])
      fix v w s0 and vm :: "'d vm" and S assume vm: "vm_ip vm = clen st2" "vm_stack vm = w # v # S" "rel F D sc env s0 vm"
      show "leads en F vm (post (gives F D sc env S (clen st')) (tw_bind (eval_expr en d e env s0) (\<lambda>sv.
          tw_outcome (map_option range_outcome (materialize_range_stepped v w incl (Some sv))))))"
      proof (rule post_bind [OF simulatesD [OF sim vm(3,1,2)]])
        fix u s1 and vm' :: "'d vm" assume vm': "vm_ip vm' = clen st3" "vm_stack vm' = u # w # v # S" "rel F D sc env s1 vm'"
        show "leads en F vm' (post (gives F D sc env S (clen st')) (tw_outcome (map_option range_outcome (materialize_range_stepped v w incl (Some u))) s1))"
          by (rule leads_op [OF seg3 _ _ vm'(1), where op = Op_RangeStepValue and bytes = "[?flags]"])
            (use vm' st3(2) flags bits in \<open>auto simp: step_range_step_value_def simp del: bit_0_eq intro!: post_outcome\<close>)
      qed
    qed (use st2' in simp_all)
    then show ?thesis by (simp add: es simulates_def)
  qed
qed

subsection \<open>Assignments\<close>

lemma to_le_width: "length (to_le_bytes 2 (w :: u16)) = 2"
  by (simp add: to_le_2)

lemma store_sim:
  assumes run: "store_name deq x tnd sp st = Ok st'" and seg: "segment F [] st st'"
    and uses: "rr_uses (co_resolved st) (text_range tnd) = Some (resolution_of sc x)"
    and imm: "\<And>slot m. slookup sc x = Some (slot, m) \<Longrightarrow> (text_range tnd \<in> rr_immutable (co_resolved st)) = (\<not> m)"
    and bi: "x \<notin> set BUILTIN_NAMES"
    and vm: "vm_ip (vm :: 'd vm) = clen st" "vm_stack vm = v # S" "rel F D sc env s vm"
  shows "leads en F vm (post (gives F D sc env S (clen st')) (assign_to (Expr (EIdent x) esp) v env s))"
proof (cases "slookup sc x")
  case None
  then have st': "st' = emit_with_const deq Op_SetGlobal (VStr x) (code_span tnd) st"
    using run uses by (simp add: store_name_def resolution_of_def)
  show ?thesis
  proof (rule leads_named [OF seg [unfolded st'] _ vm(1)])
    assume n: "\<And>(b :: 'd vm) k. with_name F (clen st + 1) b k = k x" "site_name F (clen st) = x"
    have "rel F D sc env s (vm\<lparr>vm_ip := clen st'\<rparr>)" using vm(3) by simp
    from rel_set_global [OF this n(2) None bi, where v = v and sp = "en_specialize en"] vm(2) n(1)
    show "post (gives F D sc env S (clen st')) (assign_to (Expr (EIdent x) esp) v env s)
        (exec_arm Op_SetGlobal en F (clen st) (clen st + 1) (vm\<lparr>vm_ip := clen (emit_with_const deq Op_SetGlobal (VStr x) (code_span tnd) st)\<rparr>))"
      using rel_shared [OF vm(3)]
      by (auto simp: step_set_global_def assign_to_def gives_def st' split: result.splits assign_error.splits)
  qed simp
next
  case (Some b)
  then obtain slot m where b: "slookup sc x = Some (slot, m)" by (cases b) auto
  show ?thesis
  proof (cases m)
    case False
    then have st': "st' = emit_with_const deq Op_ImmutableError (VStr x) (code_span tnd) st"
      using run uses imm [OF b] b by (simp add: store_name_def resolution_of_def)
    show ?thesis
    proof (rule leads_named [OF seg [unfolded st'] _ vm(1)])
      assume "\<And>(b :: 'd vm) k. with_name F (clen st + 1) b k = k x"
      then show "post (gives F D sc env S (clen st')) (assign_to (Expr (EIdent x) esp) v env s)
          (exec_arm Op_ImmutableError en F (clen st) (clen st + 1) (vm\<lparr>vm_ip := clen (emit_with_const deq Op_ImmutableError (VStr x) (code_span tnd) st)\<rparr>))"
        using rel_set_local [OF vm(3) b, of v] False rel_shared [OF vm(3)] by (simp add: step_immutable_error_def assign_to_def)
    qed simp
  next
    case True
    let ?d = "with_chunk (emit Op_Dup sp) st"
    have cells: "co_cells st = {}" using seg by (simp add: segment_def)
    from run uses imm [OF b] True b cells obtain w where w: "unat w = slot" "st' = with_chunk (emit_u16 Op_SetLocal w sp) ?d"
      by (auto simp: store_name_def resolution_of_def dest: slot_u16_Ok)
    have x: "extends st ?d" "extends ?d st'" by (simp_all add: w)
    have dup: "vm_step en F vm = VNext (push v (vm\<lparr>vm_ip := clen ?d\<rparr>))"
      using segment_step [OF segment_mid [OF seg code_extends_refl x(2)] _ _ _ vm(1), of Op_Dup "[]"] vm(2) by (simp add: step_dup_def)
    have code: "code_of st' = code_of ?d @ op_as_u8 Op_SetLocal # to_le_bytes 2 w @ []" by (simp add: w)
    note seg2 = segment_mid [OF seg x(1) code_extends_refl]
    obtain envs where e: "env_assign (tw_envs s) env x v = Ok envs"
      "rel F D sc env (s\<lparr>tw_envs := envs\<rparr>) (vm\<lparr>vm_locals := (vm_locals vm)[slot := v]\<rparr>)"
      using rel_set_local [OF vm(3) b, of v] True by auto
    then have r: "rel F D sc env (s\<lparr>tw_envs := envs\<rparr>) (vm\<lparr>vm_ip := ip, vm_stack := S', vm_locals := (vm_locals vm)[slot := v]\<rparr>)" for ip S'
      by (simp add: rel_def shared_def)
    show ?thesis
    proof (rule leads_step [OF dup], rule leads_op [OF seg2, where op = Op_SetLocal and bytes = "to_le_bytes 2 w"])
      show "post (gives F D sc env S (clen st')) (assign_to (Expr (EIdent x) esp) v env s)
          (exec_arm Op_SetLocal en F (clen ?d) (clen ?d + 1) (push v (vm\<lparr>vm_ip := clen ?d\<rparr>)\<lparr>vm_ip := clen st'\<rparr>))"
        using segment_u16 [OF seg2 code] rel_get_local [OF vm(3) b] e(1) r w(1) vm(2)
        by (auto simp: step_set_local_def push_def assign_to_def gives_def)
    qed (use w(2) in \<open>simp_all add: push_def to_le_width\<close>)
  qed
qed

fun nesting :: "cst \<Rightarrow> nat" where
  "nesting (CLiteral l nd) = 1"
| "nesting (CNameRef x nd) = 1"
| "nesting (CUnary op e nd) = Suc (nesting e)"
| "nesting (CBinary op a b nd) = Suc (max (nesting a) (nesting b))"
| "nesting (CParen e nd) = Suc (nesting e)"
| "nesting (CAssign tok target v nd) =
     (if tok = TokEq then Suc (nesting v) else Suc (Suc (max (nesting target) (nesting v))))"
| "nesting (CRange a b incl step nd) =
     Suc (max (max (nesting a) (nesting b)) (case step of Some s \<Rightarrow> nesting s | None \<Rightarrow> 0))"
| "nesting (CTernary c a b nd) = Suc (max (nesting c) (max (nesting a) (nesting b)))"

fun targets :: "cst \<Rightarrow> rstring set" where
  "targets (CLiteral l nd) = {}"
| "targets (CNameRef x nd) = {}"
| "targets (CUnary op e nd) = targets e"
| "targets (CBinary op a b nd) = targets a \<union> targets b"
| "targets (CParen e nd) = targets e"
| "targets (CAssign tok target v nd) = targets target \<union> targets v \<union> (case target of CNameRef x _ \<Rightarrow> {x} | _ \<Rightarrow> {})"
| "targets (CRange a b incl step nd) = targets a \<union> targets b \<union> (case step of Some s \<Rightarrow> targets s | None \<Rightarrow> {})"
| "targets (CTernary c a b nd) = targets c \<union> targets a \<union> targets b"

lemma assign_sim:
  assumes run: "compile_assign deq tok (compile_expr deq target) (compile_expr deq v) target v nd st = Ok st'" and seg: "segment F [] st st'"
    and d: "d + (if tok = TokEq then 0 else 1) \<le> EXPR_NEST_LIMIT"
    and t: "\<And>a b. compile_expr deq target a = Ok b \<Longrightarrow> segment F [] a b \<Longrightarrow> co_resolved a = co_resolved st \<Longrightarrow> tok \<noteq> TokEq
      \<Longrightarrow> simulates (en :: 'd engine) F D sc env a b (eval_expr en (d + 1) (ast_of target) env)"
    and e: "\<And>a b. compile_expr deq v a = Ok b \<Longrightarrow> segment F [] a b \<Longrightarrow> co_resolved a = co_resolved st
      \<Longrightarrow> simulates en F D sc env a b (eval_expr en (if tok = TokEq then d else d + 1) (ast_of v) env)"
    and res: "resolved_expr (co_resolved st) sc (CAssign tok target v nd)" and bi: "targets (CAssign tok target v nd) \<inter> set BUILTIN_NAMES = {}"
  shows "simulates en F D sc env st st' (eval_kind en d (EAssign (ast_of target) (case desugar_op tok of
         Some op \<Rightarrow> make_binary (ast_of target) op (ast_of v) | None \<Rightarrow> ast_of v)) env)"
proof -
  let ?v = "case desugar_op tok of Some op \<Rightarrow> make_binary (ast_of target) op (ast_of v) | None \<Rightarrow> ast_of v"
  from run obtain x tnd where target: "target = CNameRef x tnd"
    by (cases target) (auto simp: compile_assign_def)
  have name: "rr_uses (co_resolved st) (text_range tnd) = Some (resolution_of sc x)" "x \<notin> set BUILTIN_NAMES"
    "\<And>slot m. slookup sc x = Some (slot, m) \<Longrightarrow> (text_range tnd \<in> rr_immutable (co_resolved st)) = (\<not> m)"
    using res bi target by auto
  have "\<exists>st3. extends st st3 \<and> store_name deq x tnd (node_span nd) st3 = Ok st'
      \<and> (segment F [] st st3 \<longrightarrow> simulates en F D sc env st st3 (eval_expr en d ?v env))"
  proof (cases "compound_op tok")
    case None
    then have tok: "tok = TokEq" by (cases tok) (auto simp: compound_op_def)
    from run None target obtain st3 where st3: "compile_expr deq v st = Ok st3" "store_name deq x tnd (node_span nd) st3 = Ok st'"
      by (auto simp: compile_assign_def)
    from e [OF st3(1)] tok st3(2) opens_extends [OF compile_expr_opens [OF st3(1)]] show ?thesis
      by (auto simp: desugar_op_def)
  next
    case (Some binop)
    let ?sp = "span_new (sp_start (code_span (node_of target))) (sp_end (code_span (node_of v)))"
    from Some have tok: "tok \<noteq> TokEq" by (auto simp: compound_op_def)
    from Some obtain op where op: "desugar_op tok = Some op" "binary_bytecode op = Some binop" "short_circuit_op op = None" "op \<noteq> BInstanceOf"
      by (cases tok) (auto simp: compound_op_def desugar_op_def binary_bytecode_def short_circuit_op_def)
    from run Some target obtain st1 st2 where s: "compile_expr deq target st = Ok st1" "compile_expr deq v st1 = Ok st2"
      "store_name deq x tnd (node_span nd) (with_chunk (emit binop ?sp) st2) = Ok st'"
      by (auto simp: compile_assign_def compile_target_read_def is_name_ref_def)
    let ?b = "with_chunk (emit binop ?sp) st2"
    have x: "extends st ?b"
      using opens_extends [OF compile_expr_opens [OF s(1)]] opens_extends [OF compile_expr_opens [OF s(2)]] extends_emit(1) code_extends_trans by blast
    have "simulates en F D sc env st ?b (eval_expr en d ?v env)" if seg3: "segment F [] st ?b"
    proof -
      have cb: "compile_binary deq op (compile_expr deq target) (compile_expr deq v) v (Node ?sp ?sp) st = Ok ?b"
        using op s by (auto simp: compile_binary_def reserved_rhs_def split: cst.splits option.splits)
      have "simulates en F D sc env st ?b (eval_kind en (d + 1) (EBinary op (ast_of target) (ast_of v)) env)"
        by (rule binary_sim [OF cb seg3 compile_expr_action compile_expr_action]) (use t e tok in auto)
      then show ?thesis using op(1) d tok by (simp add: make_binary_def simulates_def)
    qed
    with x s(3) show ?thesis by blast
  qed
  then obtain st3 where st3: "extends st st3" "store_name deq x tnd (node_span nd) st3 = Ok st'"
    "segment F [] st st3 \<Longrightarrow> simulates en F D sc env st st3 (eval_expr en d ?v env)" by blast
  have x3: "extends st3 st'" using store_action st3(2) by (blast dest: expr_actionD opens_extends)
  have sim: "simulates en F D sc env st st3 (eval_expr en d ?v env)" using st3(3) segment_mid [OF seg code_extends_refl x3] .
  have "simulates en F D sc env st st' (\<lambda>s. tw_bind (eval_expr en d ?v env s) (\<lambda>w. assign_to (Expr (EIdent x) (code_span tnd)) w env))"
    by (rule simulates_bind [OF sim], rule store_sim [OF st3(2) segment_mid [OF seg st3(1) code_extends_refl]])
      (use name extends_resolved [OF st3(1)] in simp_all)
  then show ?thesis by (simp add: target simulates_def)
qed

subsection \<open>All expressions\<close>

lemma expr_sim:
  "compile_expr deq e st = Ok st' \<Longrightarrow> segment F [] st st' \<Longrightarrow> resolved_expr (co_resolved st) sc e
    \<Longrightarrow> targets e \<inter> set BUILTIN_NAMES = {} \<Longrightarrow> d + nesting e \<le> EXPR_NEST_LIMIT
    \<Longrightarrow> simulates (en :: 'd engine) F D sc env st st' (eval_expr en d (ast_of e) env)"
proof (induction e arbitrary: st st' d)
  case (CLiteral l nd)
  then show ?case unfolding ast_of.simps by (intro nested_sim [OF _ CLiteral.prems(2)] literal_sim) auto
next
  case (CNameRef x nd)
  then show ?case unfolding ast_of.simps by (intro nested_sim [OF _ CNameRef.prems(2)] name_sim) auto
next
  case (CUnary op e nd)
  show ?case
    unfolding ast_of.simps
  proof (rule nested_sim [OF _ CUnary.prems(2)])
    fix a b assume "compile_unary op (compile_expr deq e) e a = Ok b" "segment F [] a b" "co_resolved a = co_resolved st"
    from unary_sim [OF this(1,2) compile_expr_action, of en D sc env "eval_expr en (d + 1) (ast_of e) env"] CUnary.IH CUnary.prems this(3)
    show "simulates en F D sc env a b (eval_kind en (d + 1) (EUnary op (ast_of e)) env)" by (simp add: simulates_def)
  qed (use CUnary.prems in auto)
next
  case (CBinary op a b nd)
  show ?case
    unfolding ast_of.simps
  proof (rule nested_sim [OF _ CBinary.prems(2)])
    fix p q assume "compile_binary deq op (compile_expr deq a) (compile_expr deq b) b nd p = Ok q" "segment F [] p q" "co_resolved p = co_resolved st"
    then show "simulates en F D sc env p q (eval_kind en (d + 1) (EBinary op (ast_of a) (ast_of b)) env)"
      by (intro binary_sim [OF _ _ compile_expr_action compile_expr_action] CBinary.IH) (use CBinary.prems in auto)
  qed (use CBinary.prems in auto)
next
  case (CParen e nd)
  show ?case
    unfolding ast_of.simps
  proof (rule nested_sim [OF _ CParen.prems(2)])
    fix a b assume "compile_expr deq e a = Ok b" "segment F [] a b" "co_resolved a = co_resolved st"
    with CParen.IH [of a b "d + 1"] CParen.prems
    show "simulates en F D sc env a b (eval_kind en (d + 1) (EParen (ast_of e)) env)" by (simp add: simulates_def)
  qed (use CParen.prems in auto)
next
  case (CAssign tok target v nd)
  show ?case
    unfolding ast_of.simps
  proof (rule nested_sim [OF _ CAssign.prems(2)])
    fix a b assume r: "compile_assign deq tok (compile_expr deq target) (compile_expr deq v) target v nd a = Ok b"
      "segment F [] a b" "co_resolved a = co_resolved st"
    show "simulates en F D sc env a b (eval_kind en (d + 1) (EAssign (ast_of target) (case desugar_op tok of
         Some op \<Rightarrow> make_binary (ast_of target) op (ast_of v) | None \<Rightarrow> ast_of v)) env)"
      by (intro assign_sim [OF r(1,2)] CAssign.IH) (use CAssign.prems r(3) in \<open>auto split: if_splits\<close>)
  qed (use CAssign.prems in \<open>auto split: if_splits\<close>)
next
  case (CRange lo hi incl step nd)
  show ?case
    unfolding ast_of.simps
  proof (rule nested_sim [OF _ CRange.prems(2)])
    fix a b assume r: "compile_range (compile_expr deq lo) (compile_expr deq hi) incl
        (case step of Some s \<Rightarrow> Some (compile_expr deq s) | None \<Rightarrow> None) nd a = Ok b"
      "segment F [] a b" "co_resolved a = co_resolved st"
    show "simulates en F D sc env a b (eval_kind en (d + 1) (ERange (ast_of lo) (ast_of hi) incl
        (case step of Some s \<Rightarrow> Some (ast_of s) | None \<Rightarrow> None)) env)"
    proof (rule range_sim [OF r(1,2) compile_expr_action compile_expr_action])
      show "case (case step of Some s \<Rightarrow> Some (compile_expr deq s) | None \<Rightarrow> None, case step of Some s \<Rightarrow> Some (ast_of s) | None \<Rightarrow> None) of
          (None, None) \<Rightarrow> True
        | (Some c, Some e) \<Rightarrow> (\<forall>p q. c p = Ok q \<longrightarrow> segment F [] p q \<longrightarrow> co_resolved p = co_resolved a
            \<longrightarrow> simulates en F D sc env p q (eval_expr en (d + 1) e env))
        | _ \<Rightarrow> False"
        using CRange.prems r(3) by (cases step) (auto intro!: CRange.IH(3))
    qed (use CRange.prems r(3) compile_expr_action in \<open>auto intro!: CRange.IH(1,2) split: option.splits\<close>)
  qed (use CRange.prems in auto)
next
  case (CTernary c x y nd)
  show ?case
    unfolding ast_of.simps
  proof (rule nested_sim [OF _ CTernary.prems(2)])
    fix a b assume r: "compile_ternary (compile_expr deq c) (compile_expr deq x) (compile_expr deq y) nd a = Ok b"
      "segment F [] a b" "co_resolved a = co_resolved st"
    have "simulates en F D sc env a b (\<lambda>s. tw_bind (eval_expr en (d + 1) (ast_of c) env s) (\<lambda>v s1.
        if is_truthy (en_num en) v then eval_expr en (d + 1) (ast_of x) env s1 else eval_expr en (d + 1) (ast_of y) env s1))"
      by (intro ternary_sim [OF r(1,2) compile_expr_action compile_expr_action compile_expr_action] CTernary.IH)
        (use CTernary.prems r(3) in auto)
    then show "simulates en F D sc env a b (eval_kind en (d + 1) (ETernary (ast_of c) (ast_of x) (ast_of y)) env)"
      by (simp add: simulates_def cong: if_cong)
  qed (use CTernary.prems in auto)
qed

end
