(* ===== verification/StmtSimulation.thy ===== *)
theory StmtSimulation
  imports Simulation
begin

text \<open>
  Statements: the VM follows the flow of the interpreter.  A statement that completes normally leaves
  the VM behind its code, \<open>break\<close> and \<open>continue\<close> leave it at the targets of the innermost loop, and
  \<open>return\<close> ends the run with the value.  When a loop of the interpreter exceeds the bound on its
  iterations, the VM has at least as many steps to go, so a program that never ends in one engine
  never ends in the other.
\<close>


section \<open>Parents of scopes\<close>

text \<open>Evaluation never changes which scope encloses which.\<close>

definition kept :: "'d tw \<Rightarrow> 'd tw \<Rightarrow> bool" where
  "kept s s' \<longleftrightarrow> length (es_scopes (tw_envs s)) \<le> length (es_scopes (tw_envs s'))
     \<and> (\<forall>i < length (es_scopes (tw_envs s)). sc_parent (es_scopes (tw_envs s') ! i) = sc_parent (es_scopes (tw_envs s) ! i))"

lemma kept_refl [simp]: "kept s s"
  by (simp add: kept_def)

lemma kept_trans: "kept a b \<Longrightarrow> kept b c \<Longrightarrow> kept a c"
  by (auto simp: kept_def)

lemma tw_bind_TOkE: "tw_bind r k = TOk v s' \<longleftrightarrow> (\<exists>w s1. r = TOk w s1 \<and> k w s1 = TOk v s')"
  by (cases r) auto

lemma tw_outcome_kept: "tw_outcome r s = TOk v s' \<Longrightarrow> kept s s'"
  by (auto simp: tw_outcome_def kept_def split: option.splits result.splits outcome.splits)

lemma env_assign_kept:
  "env_assign st e x v = Ok st' \<Longrightarrow> length (es_scopes st') = length (es_scopes st)
    \<and> (\<forall>i < length (es_scopes st). sc_parent (es_scopes st' ! i) = sc_parent (es_scopes st ! i))"
proof (induction st e x v rule: env_assign.induct)
  case (1 st e x v)
  from 1(2) show ?case
    by (subst (asm) env_assign.simps)
      (auto simp: nth_list_update split: option.splits if_splits dest!: 1(1))
qed

lemma assign_to_kept: "assign_to t v env s = TOk w s' \<Longrightarrow> kept s s'"
  by (auto simp: assign_to_def kept_def dest!: env_assign_kept split: expr_kind.splits result.splits assign_error.splits)

lemma eval_kept:
  "eval_expr en d e env s = TOk v s' \<Longrightarrow> kept s s'"
  "eval_kind en d k env s = TOk v s' \<Longrightarrow> kept s s'"
  by (induction en d e env s and en d k env s arbitrary: v s' and v s' rule: eval_expr_eval_kind.induct)
    (fastforce simp: tw_bind_TOkE split: if_splits option.splits dest: tw_outcome_kept assign_to_kept kept_trans)+

lemma define_in_kept: "define_in env x v m s = TOk fl s' \<Longrightarrow> kept s s'"
  by (auto simp: define_in_def env_define_def kept_def nth_list_update split: result.splits define_error.splits if_splits)

lemma eval_opt_kept: "eval_opt en e env s = TOk v s' \<Longrightarrow> kept s s'"
  by (auto simp: eval_opt_def dest: eval_kept split: option.splits)

lemma tw_then_Some: "tw_then m k = Some (TOk v s') \<longleftrightarrow> (\<exists>w s1. m = Some (TOk w s1) \<and> k w s1 = Some (TOk v s'))"
  by (auto simp: tw_then_def split: option.splits tw_out.splits)

lemma child_kept: "kept s (s\<lparr>tw_envs := snd (env_child (tw_envs s) env)\<rparr>)"
  by (auto simp: kept_def env_child_def nth_append)

lemma in_child_kept:
  assumes "in_child env s k = Some (TOk fl s')" and "\<And>child s1. k child s1 = Some (TOk fl s') \<Longrightarrow> kept s1 s'"
  shows "kept s s'"
proof -
  have "kept (s\<lparr>tw_envs := snd (env_child (tw_envs s) env)\<rparr>) s'"
    using assms by (auto simp: in_child_def split: prod.splits)
  with child_kept show ?thesis by (rule kept_trans)
qed

lemma exec_kept:
  "exec_stmt fuel en x env s = Some (TOk fl s') \<Longrightarrow> kept s s'"
  "exec fuel en xs env s = Some (TOk fl s') \<Longrightarrow> kept s s'"
proof (induction fuel en x env s and fuel en xs env s arbitrary: fl s' and fl s' rule: exec_stmt_exec.induct)
  case (3 fuel en ss env st)
  then show ?case by (auto elim: in_child_kept)
next
  case (4 fuel en c thn els env st)
  then obtain v s1 where v: "eval_expr en 0 c env st = TOk v s1"
    and run: "(if is_truthy (en_num en) v then in_child env s1 (\<lambda>child. exec fuel en thn child)
      else (case els of Some ss \<Rightarrow> in_child env s1 (\<lambda>child. exec fuel en ss child) | None \<Rightarrow> Some (TOk FNormal s1))) = Some (TOk fl s')"
    by (auto simp: tw_then_Some)
  have "kept s1 s'"
  proof (cases "is_truthy (en_num en) v")
    case True
    show ?thesis by (rule in_child_kept [of env s1 "exec fuel en thn"]) (use run True 4(1) in auto)
  next
    case False
    show ?thesis
    proof (cases els)
      case (Some ss)
      show ?thesis by (rule in_child_kept [of env s1 "exec fuel en ss"]) (use run False Some 4(2) in auto)
    qed (use run False in simp)
  qed
  with eval_kept(1) [OF v] show ?case by (rule kept_trans)
next
  case (6 fuel en c body env st)
  then obtain v s1 where v: "eval_expr en 0 c env st = TOk v s1"
    and run: "(if \<not> is_truthy (en_num en) v then Some (TOk FNormal s1)
      else tw_then (in_child env s1 (\<lambda>child. exec (Suc fuel) en body child)) (\<lambda>fl st2. case fl of
         FBreak \<Rightarrow> Some (TOk FNormal st2) | FReturn x \<Rightarrow> Some (TOk (FReturn x) st2)
       | _ \<Rightarrow> exec_stmt fuel en (StmtWhile c body) env st2)) = Some (TOk fl s')"
    by (auto simp: tw_then_Some)
  have "kept s1 s'"
  proof (cases "is_truthy (en_num en) v")
    case True
    with run obtain fl1 s2 where b: "in_child env s1 (\<lambda>child. exec (Suc fuel) en body child) = Some (TOk fl1 s2)"
      and r: "(case fl1 of FBreak \<Rightarrow> Some (TOk FNormal s2) | FReturn x \<Rightarrow> Some (TOk (FReturn x) s2)
         | _ \<Rightarrow> exec_stmt fuel en (StmtWhile c body) env s2) = Some (TOk fl s')"
      by (auto simp: tw_then_Some)
    have "kept s1 s2" by (rule in_child_kept [OF b]) (use True 6(1) in auto)
    moreover have "kept s2 s'" using r True 6(2) by (cases fl1) auto
    ultimately show ?thesis by (rule kept_trans)
  qed (use run in simp)
  with eval_kept(1) [OF v] show ?case by (rule kept_trans)
next
  case (11 fuel en s ss env st)
  then obtain fl1 s1 where s1: "exec_stmt fuel en s env st = Some (TOk fl1 s1)"
    and r: "(case fl1 of FNormal \<Rightarrow> exec fuel en ss env s1 | _ \<Rightarrow> Some (TOk fl1 s1)) = Some (TOk fl s')"
    by (auto simp: tw_then_Some)
  have "kept s1 s'" using r 11(2) by (cases fl1) auto
  with 11(1) [OF s1] show ?case by (rule kept_trans)
qed (auto simp: tw_bind_TOkE tw_then_Some dest!: eval_kept(1) eval_opt_kept define_in_kept elim: kept_trans)

section \<open>Outcomes of statements\<close>

definition same_tail :: "statics \<Rightarrow> statics \<Rightarrow> bool" where
  "same_tail sc sc' \<longleftrightarrow> tl sc' = tl sc \<and> (sc' = [] \<longleftrightarrow> sc = [])"

abbreviation exact :: "chunk \<Rightarrow> rstring set \<times> statics \<Rightarrow> nat \<Rightarrow> 'd tw \<Rightarrow> 'd vm \<Rightarrow> bool" where
  "exact F z \<equiv> rel F (fst z) (snd z)"

definition leaves :: "chunk \<Rightarrow> rstring set \<Rightarrow> statics \<Rightarrow> nat \<Rightarrow> 'd tw \<Rightarrow> 'd vm \<Rightarrow> bool" where
  "leaves F D sc env s vm \<longleftrightarrow> (\<exists>sc'. same_tail sc sc' \<and> rel F D sc' env s vm)"

text \<open>\<open>ip\<close>, \<open>brk\<close> and \<open>cont\<close> are the places behind the statement and the targets of the innermost loop.\<close>

text \<open>\<open>L\<close> is what holds where a statement is left early.\<close>

fun flows ::
  "chunk \<Rightarrow> (nat \<Rightarrow> 'd tw \<Rightarrow> 'd vm \<Rightarrow> bool) \<Rightarrow> rstring set \<times> statics \<Rightarrow> nat \<Rightarrow> 'd rval list \<Rightarrow> nat \<Rightarrow> nat \<Rightarrow> nat
    \<Rightarrow> 'd flow \<Rightarrow> 'd tw \<Rightarrow> 'd vm_out \<Rightarrow> bool" where
  "flows F L z' env S ip brk cont FNormal s out =
     (\<exists>vm. out = VNext vm \<and> vm_ip vm = ip \<and> vm_stack vm = S \<and> rel F (fst z') (snd z') env s vm)"
| "flows F L z' env S ip brk cont FBreak s out =
     (\<exists>vm. out = VNext vm \<and> vm_ip vm = brk \<and> vm_stack vm = S \<and> L env s vm)"
| "flows F L z' env S ip brk cont FContinue s out =
     (\<exists>vm. out = VNext vm \<and> vm_ip vm = cont \<and> vm_stack vm = S \<and> L env s vm)"
| "flows F L z' env S ip brk cont (FReturn v) s out = (\<exists>vm. out = VDone v vm \<and> shared s vm)"

text \<open>A run under the iteration bound \<open>n\<close>.\<close>

definition sim_opt :: "'d engine \<Rightarrow> chunk \<Rightarrow> nat \<Rightarrow> 'd vm \<Rightarrow> ('a \<Rightarrow> 'd tw \<Rightarrow> 'd vm_out \<Rightarrow> bool) \<Rightarrow> ('a, 'd) tw_out option \<Rightarrow> bool" where
  "sim_opt en F n vm Q r \<longleftrightarrow> (case r of None \<Rightarrow> busy en F n vm | Some out \<Rightarrow> leads en F vm (post Q out))"

lemma leads_mono: "leads en F vm P \<Longrightarrow> (\<And>out. P out \<Longrightarrow> Q out) \<Longrightarrow> leads en F vm Q"
  by (auto simp: leads_def)

lemma post_mono: "post Q r out \<Longrightarrow> (\<And>v s. Q v s out \<Longrightarrow> Q' v s out) \<Longrightarrow> post Q' r out"
  by (cases r) auto

lemma sim_step: "vm_step en F vm = VNext vm' \<Longrightarrow> sim_opt en F n vm' Q r \<Longrightarrow> sim_opt en F n vm Q r"
  by (auto simp: sim_opt_def intro: leads_step busy_seq [OF leads_one, where P = "\<lambda>out. out = VNext vm'"] split: option.splits)

lemma sim_step_Suc:
  assumes "vm_step en F vm = VNext vm'" and "sim_opt en F n vm' Q r"
  shows "sim_opt en F (Suc n) vm Q r"
  using assms by (auto simp: sim_opt_def intro: leads_step busy_step split: option.splits)

lemma sim_leads:
  assumes "leads en F vm (\<lambda>out. \<exists>vm'. out = VNext vm' \<and> sim_opt en F n vm' Q r)"
  shows "sim_opt en F n vm Q r"
proof (cases r)
  case None
  then show ?thesis using assms busy_seq [OF assms] by (auto simp: sim_opt_def)
next
  case (Some out)
  then show ?thesis using leads_seq [OF assms, of "post Q out"] by (auto simp: sim_opt_def)
qed

lemma sim_less: "sim_opt en F m vm Q r \<Longrightarrow> n \<le> m \<Longrightarrow> sim_opt en F n vm Q r"
  by (auto simp: sim_opt_def busy_def split: option.splits) (meson order_trans)

lemma sim_mono: "sim_opt en F n vm Q r \<Longrightarrow> (\<And>v s out. Q v s out \<Longrightarrow> Q' v s out) \<Longrightarrow> sim_opt en F n vm Q' r"
  by (auto simp: sim_opt_def elim!: leads_mono post_mono split: option.splits)

text \<open>An expression, then the rest.\<close>

lemma sim_expr:
  assumes "leads en F vm (post (gives F D sc env S ip) r)"
    and "\<And>v s vm'. vm_ip vm' = ip \<Longrightarrow> vm_stack vm' = v # S \<Longrightarrow> rel F D sc env s vm' \<Longrightarrow> sim_opt en F n vm' Q (k v s)"
  shows "sim_opt en F n vm Q (tw_then (Some r) k)"
proof (cases "\<exists>v s. r = TOk v s")
  case True
  then obtain v s where r: "r = TOk v s" by blast
  have "leads en F vm (\<lambda>out. \<exists>vm'. out = VNext vm' \<and> sim_opt en F n vm' Q (k v s))"
    by (rule leads_mono [OF assms(1)]) (use assms(2) r in \<open>auto simp: gives_def\<close>)
  then show ?thesis using sim_leads r by (simp add: tw_then_def)
next
  case False
  then show ?thesis using assms(1) by (cases r) (auto simp: sim_opt_def tw_then_def leads_def)
qed

lemma tw_then_bind: "Some (tw_bind r k) = tw_then (Some r) (\<lambda>v s. Some (k v s))"
  by (cases r) (auto simp: tw_then_def)

text \<open>A statement, then the rest.\<close>

lemma sim_then:
  assumes "sim_opt en F n vm (flows F L z' env S ip brk cont) m"
    and normal: "\<And>s vm'. vm_ip vm' = ip \<Longrightarrow> vm_stack vm' = S \<Longrightarrow> rel F (fst z') (snd z') env s vm' \<Longrightarrow> m = Some (TOk FNormal s) \<Longrightarrow> sim_opt en F n vm' Q (k FNormal s)"
    and brk: "\<And>s vm'. vm_ip vm' = brk \<Longrightarrow> vm_stack vm' = S \<Longrightarrow> L env s vm' \<Longrightarrow> m = Some (TOk FBreak s) \<Longrightarrow> sim_opt en F n vm' Q (k FBreak s)"
    and cont: "\<And>s vm'. vm_ip vm' = cont \<Longrightarrow> vm_stack vm' = S \<Longrightarrow> L env s vm' \<Longrightarrow> m = Some (TOk FContinue s) \<Longrightarrow> sim_opt en F n vm' Q (k FContinue s)"
    and ret: "\<And>v s vm'. shared s vm' \<Longrightarrow> \<exists>r. k (FReturn v) s = Some r \<and> post Q r (VDone v vm')"
  shows "sim_opt en F n vm Q (tw_then m k)"
proof (cases "\<exists>fl s. m = Some (TOk fl s)")
  case True
  then obtain fl s where m: "m = Some (TOk fl s)" by blast
  then have l: "leads en F vm (flows F L z' env S ip brk cont fl s)" using assms(1) by (simp add: sim_opt_def leads_def)
  have "sim_opt en F n vm Q (k fl s)"
  proof (cases fl)
    case FNormal
    show ?thesis by (rule sim_leads, rule leads_mono [OF l]) (use FNormal normal m in auto)
  next
    case FBreak
    show ?thesis by (rule sim_leads, rule leads_mono [OF l]) (use FBreak brk m in auto)
  next
    case FContinue
    show ?thesis by (rule sim_leads, rule leads_mono [OF l]) (use FContinue cont m in auto)
  next
    case (FReturn v)
    then obtain vm' j where "vm_run j en F vm = VDone v vm'" "shared s vm'" using l by (auto simp: leads_def)
    moreover from ret [OF this(2), of v] obtain r where "k (FReturn v) s = Some r" "post Q r (VDone v vm')" by blast
    ultimately show ?thesis using FReturn by (auto simp: sim_opt_def leads_def intro!: exI [of _ j])
  qed
  then show ?thesis by (simp add: m tw_then_def)
next
  case False
  show ?thesis
  proof (cases m)
    case (Some r)
    with False assms(1) show ?thesis by (cases r) (auto simp: sim_opt_def tw_then_def leads_def)
  qed (use assms(1) in \<open>simp add: sim_opt_def tw_then_def\<close>)
qed

section \<open>Scopes\<close>

lemma rel_child:
  assumes "rel F D sc env s vm"
  obtains envs where "env_child (tw_envs s) env = (length (es_scopes (tw_envs s)), envs)"
    "rel F D (Map.empty # sc) (length (es_scopes (tw_envs s))) (s\<lparr>tw_envs := envs\<rparr>) vm"
    "sc_parent (es_scopes envs ! length (es_scopes (tw_envs s))) = Some env" "length (es_scopes (tw_envs s)) < length (es_scopes envs)"
proof -
  from assms chain_child [of "tw_envs s" env sc "vm_locals vm" "gl_user (vm_globals vm)"] obtain envs where
    e: "env_child (tw_envs s) env = (length (es_scopes (tw_envs s)), envs)"
      "chain envs (length (es_scopes (tw_envs s))) (Map.empty # sc) (vm_locals vm)" "module_ok envs (gl_user (vm_globals vm))"
    by (auto simp: rel_def shared_def)
  have "separate (Map.empty # sc)" using assms by (simp add: rel_def slots_of_def)
  then have "rel F D (Map.empty # sc) (length (es_scopes (tw_envs s))) (s\<lparr>tw_envs := envs\<rparr>) vm"
    using assms e(2,3) by (simp add: rel_def shared_def del: chain.simps)
  then show thesis using that e(1) by (auto simp: env_child_def)
qed

lemma rel_parent:
  assumes "rel F D (h # sc) child s vm" and "sc_parent (es_scopes (tw_envs s) ! child) = Some env"
  shows "rel F D sc env s vm"
  using assms by (auto simp: rel_def)

lemma rel_mono: "rel F D' sc env s vm \<Longrightarrow> D \<subseteq> D' \<Longrightarrow> rel F D sc env s vm"
  by (auto simp: rel_def)

lemma same_tail_Cons [simp]: "same_tail (h # sc) sc' \<longleftrightarrow> (\<exists>h'. sc' = h' # sc)"
  by (cases sc') (auto simp: same_tail_def)

lemma same_tail_refl [simp]: "same_tail sc sc"
  by (simp add: same_tail_def)

lemma leaves_rel: "rel F D sc env s vm \<Longrightarrow> leaves F D sc env s vm"
  using same_tail_refl unfolding leaves_def by blast

text \<open>A block: the scope of the block is gone afterwards, whichever way it is left.\<close>

lemma sim_block:
  assumes "rel F D sc env s vm" and tl: "same_tail (Map.empty # sc) (snd z')" and D: "D \<subseteq> fst z'"
    and body: "\<And>child s1. rel F D (Map.empty # sc) child s1 vm \<Longrightarrow> sim_opt en F n vm (flows F (leaves F D (Map.empty # sc)) z' child S ip brk cont) (exec n en ss child s1)"
  shows "sim_opt en F n vm (flows F (rel F D sc) (D, sc) env S ip brk cont) (in_child env s (\<lambda>child. exec n en ss child))"
proof -
  from rel_child [OF assms(1)] obtain envs where
    e: "env_child (tw_envs s) env = (length (es_scopes (tw_envs s)), envs)"
      "rel F D (Map.empty # sc) (length (es_scopes (tw_envs s))) (s\<lparr>tw_envs := envs\<rparr>) vm"
      "sc_parent (es_scopes envs ! length (es_scopes (tw_envs s))) = Some env" "length (es_scopes (tw_envs s)) < length (es_scopes envs)" .
  let ?child = "length (es_scopes (tw_envs s))"
  let ?r = "exec n en ss ?child (s\<lparr>tw_envs := envs\<rparr>)"
  have parent: "sc_parent (es_scopes (tw_envs s') ! ?child) = Some env" if "?r = Some (TOk fl s')" for fl s'
    using exec_kept(2) [OF that] e(3,4) by (simp add: kept_def)
  obtain h where z': "snd z' = h # sc" using tl by auto
  have "sim_opt en F n vm (flows F (rel F D sc) (D, sc) env S ip brk cont) (tw_then ?r (\<lambda>fl s. Some (TOk fl s)))"
  proof (rule sim_then [OF body [OF e(2)]])
    fix s' and vm' :: "'a vm"
    assume vm': "vm_ip vm' = ip" "vm_stack vm' = S" "rel F (fst z') (snd z') ?child s' vm'" "?r = Some (TOk FNormal s')"
    have "rel F D sc env s' vm'" using rel_parent [OF _ parent [OF vm'(4)]] vm'(3) z' rel_mono [OF _ D] by metis
    then show "sim_opt en F n vm' (flows F (rel F D sc) (D, sc) env S ip brk cont) (Some (TOk FNormal s'))"
      using vm' by (simp add: sim_opt_def leads_now)
  next
    fix s' and vm' :: "'a vm"
    assume vm': "vm_ip vm' = brk" "vm_stack vm' = S" "leaves F D (Map.empty # sc) ?child s' vm'" "?r = Some (TOk FBreak s')"
    then have "rel F D sc env s' vm'" using parent by (auto simp: leaves_def intro: rel_parent)
    then show "sim_opt en F n vm' (flows F (rel F D sc) (D, sc) env S ip brk cont) (Some (TOk FBreak s'))"
      using vm' by (simp add: sim_opt_def leads_now)
  next
    fix s' and vm' :: "'a vm"
    assume vm': "vm_ip vm' = cont" "vm_stack vm' = S" "leaves F D (Map.empty # sc) ?child s' vm'" "?r = Some (TOk FContinue s')"
    then have "rel F D sc env s' vm'" using parent by (auto simp: leaves_def intro: rel_parent)
    then show "sim_opt en F n vm' (flows F (rel F D sc) (D, sc) env S ip brk cont) (Some (TOk FContinue s'))"
      using vm' by (simp add: sim_opt_def leads_now)
  qed simp
  moreover have "tw_then ?r (\<lambda>fl s. Some (TOk fl s)) = ?r" by (auto simp: tw_then_def split: option.splits tw_out.splits)
  ultimately show ?thesis using e(1) by (simp add: in_child_def)
qed

section \<open>Declarations\<close>

lemma slots_of_upd: "h x = None \<Longrightarrow> slots_of (h(x \<mapsto> (slot, m))) = {slot} \<union> slots_of h"
  by (auto simp: slots_of_def) (metis option.distinct(1))

lemma rel_define_local:
  assumes "rel F D (h # sc) env s vm" and "h x = None" and "slot \<notin> all_slots (h # sc)" and "slot < unat (c_slot_count F)"
  shows "\<exists>envs. env_define (tw_envs s) env x v m = Ok envs
    \<and> rel F D (h(x \<mapsto> (slot, m)) # sc) env (s\<lparr>tw_envs := envs\<rparr>) (vm\<lparr>vm_locals := (vm_locals vm)[slot := v]\<rparr>)"
proof -
  have c: "chain (tw_envs s) env (h # sc) (vm_locals vm)" "module_ok (tw_envs s) (gl_user (vm_globals vm))" "slot < length (vm_locals vm)"
    using assms(1,4) by (auto simp: rel_def shared_def simp del: chain.simps)
  from chain_define [OF c(1,2) assms(2,3) c(3), of v m] obtain envs where
    e: "env_define (tw_envs s) env x v m = Ok envs" "chain envs env (h(x \<mapsto> (slot, m)) # sc) ((vm_locals vm)[slot := v])"
      "module_ok envs (gl_user (vm_globals vm))" by blast
  have "slot \<notin> slots_of h" "slot \<notin> all_slots sc" using assms(3) by (auto simp: all_slots_def)
  then have "separate (h(x \<mapsto> (slot, m)) # sc)"
    using assms(1,2) by (auto simp: rel_def slots_of_upd) (auto simp: slots_of_def split: if_splits)
  with assms(1) e show ?thesis by (simp add: rel_def shared_def del: chain.simps separate.simps)
qed

lemma rel_version:
  assumes "rel F D sc env s vm" and "length (c_consts F) \<le> 65536"
  shows "gl_version (vm_globals vm) \<noteq> - 1" "unat (sat_inc (gl_version (vm_globals vm))) = Suc (unat (gl_version (vm_globals vm)))"
proof -
  let ?t = "gl_user (vm_globals vm)"
  have d: "distinct (map fst ?t)" using assms(1) by (auto simp: rel_def globals_ok_def)
  have "length ?t = card (VStr ` fst ` set ?t)"
    using distinct_card [OF d] card_image [of VStr "fst ` set ?t"] by (simp add: inj_on_def)
  also have "\<dots> \<le> card (set (c_consts F))" using assms(1) by (intro card_mono) (auto simp: rel_def)
  also have "\<dots> \<le> 65536" using assms(2) card_length [of "c_consts F"] by linarith
  finally have le: "unat (gl_version (vm_globals vm)) \<le> 65536" using assms(1) by (auto simp: rel_def)
  show ne: "gl_version (vm_globals vm) \<noteq> - 1"
  proof
    assume "gl_version (vm_globals vm) = - 1"
    with le show False by (simp add: unsigned_minus_1_eq_mask mask_eq_exp_minus_1)
  qed
  then show "unat (sat_inc (gl_version (vm_globals vm))) = Suc (unat (gl_version (vm_globals vm)))"
    using unatSuc [of "gl_version (vm_globals vm)"] by (simp add: sat_inc_def add.commute) (metis add.commute add_eq_0_iff)
qed

lemma rel_define_global:
  assumes r: "rel F D [] env s vm" and len: "length (c_consts F) \<le> 65536" and x: "VStr x \<in> set (c_consts F)"
  shows "if x \<in> fst ` set (gl_user (vm_globals vm))
    then env_define (tw_envs s) env x v m = Err (AlreadyDefined x) \<and> define_global (vm_globals vm) x v m = Err (AlreadyDefinedHere x)
    else \<exists>envs gl. env_define (tw_envs s) env x v m = Ok envs \<and> define_global (vm_globals vm) x v m = Ok gl
      \<and> rel F (insert x D) [] env (s\<lparr>tw_envs := envs\<rparr>) (vm\<lparr>vm_globals := gl\<rparr>)"
proof -
  let ?t = "gl_user (vm_globals vm)"
  have ok: "globals_ok BUILTINS (site_name F) (vm_globals vm) (vm_global_caches vm)" and m: "module_ok (tw_envs s) ?t" and env: "env = 1"
    using r by (auto simp: rel_def shared_def)
  obtain gl where gl: "define_global (vm_globals vm) x v m = map_result (\<lambda>_. gl) id (table_define ?t x v m)"
    "\<And>t. table_define ?t x v m = Ok t \<Longrightarrow> gl_user gl = t \<and> gl_version gl = sat_inc (gl_version (vm_globals vm))
      \<and> globals_ok BUILTINS (site_name F) gl (vm_global_caches vm)"
    using define_global_table [OF ok rel_version(1) [OF r len], of x v m] by blast
  have free: "map_of ?t x = None \<longleftrightarrow> x \<notin> fst ` set ?t" by (simp add: map_of_eq_None_iff)
  show ?thesis
  proof (cases "map_of ?t x")
    case None
    with module_define [OF m, of x v m] obtain envs where e: "env_define (tw_envs s) 1 x v m = Ok envs"
      "module_ok envs (?t @ [(x, \<lparr>gs_value = v, gs_mutable = m\<rparr>)])" by auto
    from None have t: "table_define ?t x v m = Ok (?t @ [(x, \<lparr>gs_value = v, gs_mutable = m\<rparr>)])" by (simp add: table_define_def)
    have "rel F (insert x D) [] env (s\<lparr>tw_envs := envs\<rparr>) (vm\<lparr>vm_globals := gl\<rparr>)"
      using r gl(2) [OF t] e(2) x rel_version(2) [OF r len] env by (auto simp: rel_def shared_def)
    with None free e(1) gl(1) t env show ?thesis by auto
  next
    case (Some b)
    then have "table_define ?t x v m = Err (AlreadyDefinedHere x)" by (simp add: table_define_def)
    with Some free gl(1) module_define [OF m, of x v m] env show ?thesis by (auto split: if_splits)
  qed
qed

section \<open>Single statements\<close>

definition tame :: "cst \<Rightarrow> bool" where
  "tame e \<longleftrightarrow> targets e \<inter> set BUILTIN_NAMES = {} \<and> nesting e \<le> EXPR_NEST_LIMIT"

lemma tame_sim:
  "compile_expr deq e st = Ok st' \<Longrightarrow> segment F [] st st' \<Longrightarrow> resolved_expr (co_resolved st) sc e \<Longrightarrow> tame e
    \<Longrightarrow> simulates en F D sc env st st' (eval_expr en 0 (ast_of e) env)"
  by (rule expr_sim) (auto simp: tame_def)

definition opt_action :: "(decimal \<Rightarrow> decimal \<Rightarrow> bool) \<Rightarrow> cst option \<Rightarrow> span \<Rightarrow> action" where
  "opt_action deq e sp st = (case e of Some e \<Rightarrow> compile_expr deq e st | None \<Rightarrow> Ok (with_chunk (emit Op_Nil sp) st))"

lemma opt_opens: "opt_action deq e sp st = Ok st' \<Longrightarrow> opens [] st st'"
  by (auto simp: opt_action_def compile_expr_opens opens_emit split: option.splits)

lemma opt_sim:
  assumes "opt_action deq e sp st = Ok st'" and "segment F [] st st'" and "\<forall>x \<in> set_option e. resolved_expr (co_resolved st) sc x \<and> tame x"
  shows "simulates en F D sc env st st' (eval_opt en (map_option ast_of e) env)"
proof (cases e)
  case (Some x)
  then show ?thesis using tame_sim [of deq x st st' F sc en D env] assms by (simp add: opt_action_def eval_opt_def simulates_def)
next
  case None
  then have st': "st' = with_chunk (emit Op_Nil sp) st" using assms(1) by (simp add: opt_action_def)
  show ?thesis
  proof (rule simulatesI)
    fix s and vm :: "'a vm" assume vm: "rel F D sc env s vm" "vm_ip vm = clen st"
    show "leads en F vm (post (gives F D sc env (vm_stack vm) (clen st')) (eval_opt en (map_option ast_of e) env s))"
      by (rule leads_op [OF assms(2) _ _ vm(2), where op = Op_Nil and bytes = "[]"])
        (use vm None st' in \<open>auto simp: step_push_def eval_opt_def gives_def push_def\<close>)
  qed
qed

lemma define_global_sim:
  assumes seg: "segment F [] st (emit_define_global deq x sp st)"
    and flag: "x \<notin> D \<Longrightarrow> global_mutable (co_resolved st) x = m"
    and vm: "vm_ip (vm :: 'd vm) = clen st" "vm_stack vm = v # S" "rel F D [] env s vm"
  shows "leads en F vm (post (flows F L (insert x D, []) env S (clen (emit_define_global deq x sp st)) brk cont) (define_in env x v m s))"
proof -
  let ?b = "emit_define_global deq x sp st" and ?flag = "if global_mutable (co_resolved st) x then 1 else 0 :: 8 word"
  obtain idx :: u16 where code: "code_of ?b = code_of st @ op_as_u8 Op_DefineGlobal # to_le_bytes 2 idx @ [?flag]"
    and const: "vec_get (consts_of ?b) (unat idx) = Some (VStr x)"
    by (rule emit_define_global_code [of deq x sp st]) (use seg in \<open>auto simp: segment_def\<close>)
  have e: "emits (op_as_u8 Op_DefineGlobal # to_le_bytes 2 idx @ [?flag]) st ?b" using code by (simp add: emits_def opens_def)
  have "vec_get (c_consts F) (unat idx) = Some (VStr x)" using seg const agrees_const unfolding segment_def by blast
  then have mem: "VStr x \<in> set (c_consts F)" and len: "length (c_consts F) \<le> 65536" using seg by (auto simp: segment_def in_set_conv_nth)
  have "agrees F {} st ?b" using seg by (simp add: segment_def)
  from agrees_nth [OF this code, of 3] have rd: "read_u8 F (clen st + 1 + 2) = Some ?flag"
    by (simp add: read_u8_def to_le_2 numeral_3_eq_3 vec_get_def)
  have name: "with_name F (clen st + 1) b k = k x" for b :: "'d vm" and k by (rule segment_name(1) [OF seg code const])
  show ?thesis
  proof (rule leads_op [OF seg e _ vm(1)])
    show "post (flows F L (insert x D, []) env S (clen ?b) brk cont) (define_in env x v m s)
        (exec_arm Op_DefineGlobal en F (clen st) (clen st + 1) (vm\<lparr>vm_ip := clen ?b\<rparr>))"
    proof (cases "x \<in> fst ` set (gl_user (vm_globals vm))")
      case True
      with rel_define_global [OF vm(3) len mem, of v m] rel_define_global [OF vm(3) len mem, of v "?flag \<noteq> 0"] vm(2) rd name rel_shared [OF vm(3)]
      show ?thesis by (simp add: step_define_global_def define_in_def)
    next
      case False
      then have "x \<notin> D" using vm(3) by (auto simp: rel_def)
      then have "(?flag \<noteq> 0) = m" using flag by simp
      moreover have "rel F D [] env s (vm\<lparr>vm_ip := clen ?b, vm_stack := S\<rparr>)" using vm(3) by simp
      from rel_define_global [OF this len mem, of v m] False obtain envs gl where
        "env_define (tw_envs s) env x v m = Ok envs" "define_global (vm_globals vm) x v m = Ok gl"
        "rel F (insert x D) [] env (s\<lparr>tw_envs := envs\<rparr>) (vm\<lparr>vm_ip := clen ?b, vm_stack := S, vm_globals := gl\<rparr>)" by auto
      ultimately show ?thesis using vm(2) rd name by (simp add: step_define_global_def define_in_def)
    qed
  qed (simp add: to_le_2)
qed

lemma define_local_sim:
  assumes seg: "segment F [] st (with_chunk (emit_u16 Op_SetLocal w sp) st)" and w: "unat w = slot"
    and slot: "h x = None" "slot \<notin> all_slots (h # sc)" "slot < unat (c_slot_count F)"
    and vm: "vm_ip (vm :: 'd vm) = clen st" "vm_stack vm = v # S" "rel F D (h # sc) env s vm"
  shows "leads en F vm (post (flows F L (D, h(x \<mapsto> (slot, m)) # sc) env S (clen (with_chunk (emit_u16 Op_SetLocal w sp) st)) brk cont)
    (define_in env x v m s))"
proof -
  let ?b = "with_chunk (emit_u16 Op_SetLocal w sp) st"
  have code: "code_of ?b = code_of st @ op_as_u8 Op_SetLocal # to_le_bytes 2 w @ []" by simp
  have "rel F D (h # sc) env s (vm\<lparr>vm_ip := clen ?b, vm_stack := S\<rparr>)" using vm(3) by simp
  from rel_define_local [OF this slot, of v m] obtain envs where "env_define (tw_envs s) env x v m = Ok envs"
    "rel F D (h(x \<mapsto> (slot, m)) # sc) env (s\<lparr>tw_envs := envs\<rparr>) (vm\<lparr>vm_ip := clen ?b, vm_stack := S, vm_locals := (vm_locals vm)[slot := v]\<rparr>)"
    by auto
  moreover have "slot < length (vm_locals vm)" using vm(3) slot(3) by (simp add: rel_def)
  ultimately show ?thesis
    by (intro leads_op [OF seg _ _ vm(1), where op = Op_SetLocal and bytes = "to_le_bytes 2 w"])
      (use vm(2) w segment_u16 [OF seg code] in \<open>simp_all add: to_le_width step_set_local_def define_in_def\<close>)
qed

lemma let_sim:
  assumes run: "compile_stmt deq (SLet c x init nd) st = Ok st'" and seg: "segment F [] st st'"
    and res: "resolved_stmt (co_resolved st) (D, sc) (SLet c x init nd)" and w: "\<forall>e \<in> set_option init. tame e"
    and vm: "rel F D sc env s vm" "vm_ip (vm :: 'd vm) = clen st" "vm_stack vm = S"
  shows "leads en F vm (post (flows F L (declared (co_resolved st) (SLet c x init nd) (D, sc)) env S (clen st') brk cont)
    (tw_bind (eval_opt en (map_option ast_of init) env s) (\<lambda>v. define_in env x v (\<not> c))))"
proof -
  let ?rr = "co_resolved st"
  have "\<exists>st1. opt_action deq init (node_span nd) st = Ok st1" using run
    by (cases init) (auto simp: compile_let_def opt_action_def Let_def split: if_splits)
  then obtain st1 where st1: "opt_action deq init (node_span nd) st = Ok st1" by blast
  have x1: "extends st st1" using opens_extends [OF opt_opens [OF st1]] .
  have rr: "co_resolved st1 = ?rr" "co_cells st1 = {}" using extends_resolved [OF x1] seg by (simp_all add: segment_def)
  have init: "\<forall>e \<in> set_option init. resolved_expr ?rr sc e \<and> tame e" using res w by (cases init) auto
  show ?thesis
  proof (cases sc)
    case Nil
    with res have g: "text_range nd \<in> rr_global_decls ?rr" "x \<notin> D \<Longrightarrow> global_mutable ?rr x = (\<not> c)" by (auto simp: resolved_let_def global_mutable_def)
    then have st': "st' = emit_define_global deq x (node_span nd) st1" using run st1
      by (cases init) (auto simp: compile_let_def opt_action_def Let_def)
    then have x2: "extends st1 st'" by simp
    note sim = opt_sim [OF st1 segment_mid [OF seg code_extends_refl x2] init, of en D env]
    show ?thesis
      by (rule post_bind [OF simulatesD [OF sim vm]])
        (use Nil g(2) rr segment_mid [OF seg x1 code_extends_refl] in \<open>auto simp: st' intro!: define_global_sim\<close>)
  next
    case (Cons h sc')
    with res obtain slot where slot: "text_range nd \<notin> rr_global_decls ?rr" "h x = None" "slot_at ?rr nd = Some slot"
      "slot \<notin> all_slots (h # sc')" "slot < rr_slot_count ?rr" by (auto simp: resolved_let_def split: option.splits)
    then obtain w where wd: "unat w = slot" and st': "st' = with_chunk (emit_u16 Op_SetLocal w (node_span nd)) st1"
      using run st1 rr(2) by (cases init) (auto simp: compile_let_def opt_action_def Let_def let_slot_def slot_at_def dest!: slot_u16_Ok)
    then have x2: "extends st1 st'" by simp
    have lt: "slot < unat (c_slot_count F)" using slot(5) seg by (simp add: segment_def)
    note sim = opt_sim [OF st1 segment_mid [OF seg code_extends_refl x2] init, of en D env]
    show ?thesis
      by (rule post_bind [OF simulatesD [OF sim vm]])
        (use Cons slot(3) wd define_local_sim [OF _ wd slot(2,4) lt] segment_mid [OF seg x1 code_extends_refl] in \<open>simp add: st'\<close>)
  qed
qed

section \<open>Composition\<close>

definition loop_targets :: "chunk \<Rightarrow> compiler \<Rightarrow> nat list \<Rightarrow> nat \<Rightarrow> nat \<Rightarrow> bool" where
  "loop_targets F st bs brk cont \<longleftrightarrow> loops_known st \<and> (\<forall>s \<in> set bs. read_i16 F s = Some (int brk - int (s + 2)))
     \<and> (\<forall>ctx outer. co_loops st = ctx # outer \<longrightarrow> lc_continue_target ctx = Some cont)"

lemma loop_targets_append:
  assumes "loop_targets F st (bs @ bs') brk cont" and "opens bs st st1"
  shows "loop_targets F st bs brk cont" "loop_targets F st1 bs' brk cont"
  using assms loops_known_opens [OF _ assms(2)] by (cases "co_loops st"; auto simp: loop_targets_def opens_def)+

text \<open>
  The code of the action \<open>m\<close> follows the execution \<open>ex\<close>, which takes the iteration bound and the scope;
  \<open>z\<close> and \<open>z'\<close> are the declarations before and after it.
\<close>

definition follows ::
  "'d engine \<Rightarrow> chunk \<Rightarrow> resolve_result \<Rightarrow> rstring set \<times> statics \<Rightarrow> (nat \<Rightarrow> 'd tw \<Rightarrow> 'd vm \<Rightarrow> bool) \<Rightarrow> rstring set \<times> statics \<Rightarrow> action
    \<Rightarrow> (nat \<Rightarrow> nat \<Rightarrow> 'd tw \<Rightarrow> ('d flow, 'd) tw_out option) \<Rightarrow> bool" where
  "follows en F rr z L z' m ex \<longleftrightarrow> (\<forall>st st' bs brk cont env s vm n. m st = Ok st' \<longrightarrow> co_resolved st = rr \<longrightarrow> opens bs st st'
     \<longrightarrow> segment F bs st st' \<longrightarrow> loop_targets F st bs brk cont \<longrightarrow> rel F (fst z) (snd z) env s vm \<longrightarrow> vm_ip vm = clen st
     \<longrightarrow> sim_opt en F n vm (flows F L z' env (vm_stack vm) (clen st') brk cont) (ex n env s))"

lemma followsI:
  "(\<And>st st' bs brk cont env s vm n. m st = Ok st' \<Longrightarrow> co_resolved st = rr \<Longrightarrow> opens bs st st' \<Longrightarrow> segment F bs st st'
      \<Longrightarrow> loop_targets F st bs brk cont \<Longrightarrow> rel F (fst z) (snd z) env s vm \<Longrightarrow> vm_ip vm = clen st
      \<Longrightarrow> sim_opt en F n vm (flows F L z' env (vm_stack vm) (clen st') brk cont) (ex n env s))
    \<Longrightarrow> follows en F rr z L z' m ex"
  by (simp add: follows_def)

lemma followsD:
  "follows en F rr z L z' m ex \<Longrightarrow> m st = Ok st' \<Longrightarrow> co_resolved st = rr \<Longrightarrow> opens bs st st' \<Longrightarrow> segment F bs st st'
    \<Longrightarrow> loop_targets F st bs brk cont \<Longrightarrow> rel F (fst z) (snd z) env s vm \<Longrightarrow> vm_ip vm = clen st \<Longrightarrow> vm_stack vm = S
    \<Longrightarrow> sim_opt en F n vm (flows F L z' env S (clen st') brk cont) (ex n env s)"
  by (auto simp: follows_def)

definition grows :: "rstring set \<times> statics \<Rightarrow> rstring set \<times> statics \<Rightarrow> bool" where
  "grows z z' \<longleftrightarrow> fst z \<subseteq> fst z' \<and> same_tail (snd z) (snd z')"

lemma grows_refl [simp]: "grows z z"
  by (simp add: grows_def)

lemma grows_trans: "grows a b \<Longrightarrow> grows b c \<Longrightarrow> grows a c"
  by (auto simp: grows_def same_tail_def)

lemma grows_leaves: "grows z z1 \<Longrightarrow> leaves F (fst z1) (snd z1) env s vm \<Longrightarrow> leaves F (fst z) (snd z) env s vm"
  unfolding leaves_def grows_def same_tail_def by (metis rel_mono)

lemma flows_weaken:
  "flows F L z' env S ip brk cont fl s out \<Longrightarrow> (\<And>env s vm. L env s vm \<Longrightarrow> L' env s vm) \<Longrightarrow> flows F L' z' env S ip brk cont fl s out"
  by (cases fl) auto

lemma follows_weaken:
  assumes "follows en F rr z L z' m ex" and "\<And>env s vm. L env s vm \<Longrightarrow> L' env s vm"
  shows "follows en F rr z L' z' m ex"
proof (rule followsI)
  fix st st' bs brk cont env s and vm :: "'a vm" and n
  assume "m st = Ok st'" "co_resolved st = rr" "opens bs st st'" "segment F bs st st'" "loop_targets F st bs brk cont"
    "rel F (fst z) (snd z) env s vm" "vm_ip vm = clen st"
  note sim = followsD [OF assms(1) this refl]
  show "sim_opt en F n vm (flows F L' z' env (vm_stack vm) (clen st') brk cont) (ex n env s)"
    by (rule sim_mono [OF sim]) (rule flows_weaken [OF _ assms(2)])
qed

lemma declared_grows: "grows z (declared rr s z)"
  by (cases s) (auto simp: grows_def same_tail_def split: prod.splits list.splits)

lemma sim_now: "Q v s (VNext vm) \<Longrightarrow> sim_opt en F n vm Q (Some (TOk v s))"
  by (simp add: sim_opt_def leads_now)

text \<open>One statement after another.\<close>

definition seq_exec :: "(nat \<Rightarrow> nat \<Rightarrow> 'd tw \<Rightarrow> ('d flow, 'd) tw_out option) \<Rightarrow> (nat \<Rightarrow> nat \<Rightarrow> 'd tw \<Rightarrow> ('d flow, 'd) tw_out option)
    \<Rightarrow> nat \<Rightarrow> nat \<Rightarrow> 'd tw \<Rightarrow> ('d flow, 'd) tw_out option" where
  "seq_exec ex1 ex2 n env s = tw_then (ex1 n env s) (\<lambda>fl s1. case fl of FNormal \<Rightarrow> ex2 n env s1 | _ \<Rightarrow> Some (TOk fl s1))"

lemma segment_seq:
  assumes "segment F (bs1 @ bs2) st st'" and "opens bs1 st st1" and "opens bs2 st1 st'"
  shows "segment F bs1 st st1" "segment F bs2 st1 st'"
proof -
  have x: "extends st st1" "extends st1 st'" using assms(2,3) by (simp_all add: opens_extends)
  show "segment F bs1 st st1"
    by (rule segment_part [OF assms(1) code_extends_refl])
      (use assms x holes_in [OF assms(3)] in \<open>fastforce simp: segment_def dest: extends_len extends_overflow intro: same_extends\<close>)+
  show "segment F bs2 st1 st'"
    by (rule segment_part [OF assms(1) x(1)]) (use assms holes_in [OF assms(2)] in \<open>fastforce simp: segment_def\<close>)+
qed

lemma follows_seq:
  assumes "follows en F rr z (leaves F (fst z) (snd z)) z1 m1 ex1" and "follows en F rr z1 (leaves F (fst z1) (snd z1)) z2 m2 ex2" and "stmt_action m1" and "stmt_action m2" and g: "grows z z1"
  shows "follows en F rr z (leaves F (fst z) (snd z)) z2 (\<lambda>st. res_bind (m1 st) m2) (seq_exec ex1 ex2)"
proof (rule followsI)
  fix st st' bs brk cont env s and vm :: "'a vm" and n
  assume run: "res_bind (m1 st) m2 = Ok st'" and st: "co_resolved st = rr" "opens bs st st'" "segment F bs st st'" "loop_targets F st bs brk cont"
    and vm: "rel F (fst z) (snd z) env s vm" "vm_ip vm = clen st"
  from run obtain st1 where r: "m1 st = Ok st1" "m2 st1 = Ok st'" by auto
  have k: "loops_known st" using st(4) by (simp add: loop_targets_def)
  obtain bs1 where o1: "opens bs1 st st1" using stmt_actionE [OF assms(3) k r(1)] .
  obtain bs2 where o2: "opens bs2 st1 st'" using stmt_actionE [OF assms(4) loops_known_opens [OF k o1] r(2)] .
  have bs: "bs = bs1 @ bs2" using opens_unique [OF opens_trans [OF o1 o2] st(2)] .
  note seg = segment_seq [OF st(3) [unfolded bs] o1 o2] and lt = loop_targets_append [OF st(4) [unfolded bs] o1]
  have rr1: "co_resolved st1 = rr" using extends_resolved [OF opens_extends [OF o1]] st(1) by simp
  note first = followsD [OF assms(1) r(1) st(1) o1 seg(1) lt(1) vm refl]
  show "sim_opt en F n vm (flows F (leaves F (fst z) (snd z)) z2 env (vm_stack vm) (clen st') brk cont) (seq_exec ex1 ex2 n env s)"
    unfolding seq_exec_def
  proof (rule sim_then [OF first])
    fix s1 and vm' :: "'a vm"
    assume vm': "vm_ip vm' = clen st1" "vm_stack vm' = vm_stack vm" "rel F (fst z1) (snd z1) env s1 vm'"
    show "sim_opt en F n vm' (flows F (leaves F (fst z) (snd z)) z2 env (vm_stack vm) (clen st') brk cont)
        (case FNormal of FNormal \<Rightarrow> ex2 n env s1 | _ \<Rightarrow> Some (TOk FNormal s1))"
      using sim_mono [OF followsD [OF assms(2) r(2) rr1 o2 seg(2) lt(2) vm'(3,1,2)] flows_weaken [OF _ grows_leaves [OF g]]] by simp
  qed (auto intro!: sim_now)
qed

lemma follows_Nil: "follows en F rr z L z Ok (\<lambda>n env s. Some (TOk FNormal s))"
  by (rule followsI) (auto intro!: sim_now)

lemma follows_block:
  assumes "follows en F rr (D, Map.empty # sc) (leaves F D (Map.empty # sc)) z' m (\<lambda>n. exec n en ss)" and "grows (D, Map.empty # sc) z'"
  shows "follows en F rr (D, sc) (rel F D sc) (D, sc) m (\<lambda>n env s. in_child env s (\<lambda>child. exec n en ss child))"
proof (rule followsI)
  fix st st' bs brk cont env s and vm :: "'a vm" and n
  assume a: "m st = Ok st'" "co_resolved st = rr" "opens bs st st'" "segment F bs st st'" "loop_targets F st bs brk cont"
    "rel F (fst (D, sc)) (snd (D, sc)) env s vm" "vm_ip vm = clen st"
  show "sim_opt en F n vm (flows F (rel F D sc) (D, sc) env (vm_stack vm) (clen st') brk cont) (in_child env s (\<lambda>child. exec n en ss child))"
    by (rule sim_block [where z' = z']) (use a assms in \<open>auto simp: grows_def intro: followsD [OF assms(1) a(1-5)]\<close>)
qed

section \<open>Statements\<close>

lemma follows_let:
  assumes "resolved_stmt rr (D, sc) (SLet c x init nd)" and "\<forall>e \<in> set_option init. tame e"
  shows "follows en F rr (D, sc) (rel F D sc) (declared rr (SLet c x init nd) (D, sc)) (compile_stmt deq (SLet c x init nd))
    (\<lambda>n. exec_stmt n en (stmt_of (SLet c x init nd)))"
proof (rule followsI)
  fix st st' bs brk cont env s and vm :: "'a vm" and n
  assume a: "compile_stmt deq (SLet c x init nd) st = Ok st'" "co_resolved st = rr" "opens bs st st'" "segment F bs st st'"
    "rel F (fst (D, sc)) (snd (D, sc)) env s vm" "vm_ip vm = clen st"
  have "expr_action (compile_let deq x (case init of Some e \<Rightarrow> Some (compile_expr deq e) | None \<Rightarrow> None) nd)"
    by (rule let_action) (auto simp: compile_expr_action split: option.splits)
  from expr_actionD [OF this] a(1) have "opens [] st st'" by simp
  then have "bs = []" using opens_unique a(3) by blast
  with a let_sim [of deq c x init nd st st' F D sc env s vm "vm_stack vm" en "rel F D sc" brk cont] assms
  show "sim_opt en F n vm (flows F (rel F D sc) (declared rr (SLet c x init nd) (D, sc)) env (vm_stack vm) (clen st') brk cont)
      (exec_stmt n en (stmt_of (SLet c x init nd)) env s)"
    by (simp add: sim_opt_def)
qed

lemma follows_return:
  assumes "\<forall>e \<in> set_option init. resolved_expr rr (snd z) e \<and> tame e"
  shows "follows en F rr z (exact F z) z (compile_stmt deq (SReturn init nd)) (\<lambda>n. exec_stmt n en (stmt_of (SReturn init nd)))"
proof (rule followsI)
  fix st st' bs brk cont env s and vm :: "'a vm" and n
  assume a: "compile_stmt deq (SReturn init nd) st = Ok st'" "co_resolved st = rr" "opens bs st st'" "segment F bs st st'"
    "rel F (fst z) (snd z) env s vm" "vm_ip vm = clen st"
  then obtain st1 where st1: "opt_action deq init (node_span nd) st = Ok st1" "st' = with_chunk (emit Op_Return (node_span nd)) st1"
    by (cases init) (auto simp: compile_return_def opt_action_def)
  have o: "opens [] st st'" using opens_then [OF opt_opens [OF st1(1)] opens_emit(1)] st1(2) by simp
  then have seg: "segment F [] st st'" using opens_unique a(3,4) by blast
  have x: "extends st st1" "extends st1 st'" using opens_extends [OF opt_opens [OF st1(1)]] st1(2) by simp_all
  note sim = opt_sim [OF st1(1) segment_mid [OF seg code_extends_refl x(2)], of "snd z" en "fst z" env]
  have "leads en F vm (post (flows F (exact F z) z env (vm_stack vm) (clen st') brk cont) (tw_bind (eval_opt en (map_option ast_of init) env s) (\<lambda>v. TOk (FReturn v))))"
  proof (rule post_bind [OF simulatesD [OF sim a(5,6) refl]])
    fix v s1 and vm' :: "'a vm" assume vm': "vm_ip vm' = clen st1" "vm_stack vm' = v # vm_stack vm" "rel F (fst z) (snd z) env s1 vm'"
    show "leads en F vm' (post (flows F (exact F z) z env (vm_stack vm) (clen st') brk cont) (TOk (FReturn v) s1))"
      by (rule leads_op [OF segment_mid [OF seg x(1) code_extends_refl] _ _ vm'(1), where op = Op_Return and bytes = "[]"])
        (use vm' st1(2) in \<open>auto simp: step_return_def dest: rel_shared\<close>)
  qed (use assms a(2) in simp)
  then show "sim_opt en F n vm (flows F (exact F z) z env (vm_stack vm) (clen st') brk cont) (exec_stmt n en (stmt_of (SReturn init nd)) env s)"
    by (simp add: sim_opt_def)
qed

lemma follows_expr:
  assumes "resolved_expr rr (snd z) e" and "tame e"
  shows "follows en F rr z (exact F z) z (\<lambda>st. res_bind (compile_expr deq e st) (\<lambda>st1. Ok (with_chunk (emit Op_Pop sp) st1)))
    (\<lambda>n. exec_stmt n en (stmt_of (SExpr e nd)))"
proof (rule followsI)
  fix st st' bs brk cont env s and vm :: "'a vm" and n
  assume a: "res_bind (compile_expr deq e st) (\<lambda>st1. Ok (with_chunk (emit Op_Pop sp) st1)) = Ok st'" "co_resolved st = rr"
    "opens bs st st'" "segment F bs st st'" "rel F (fst z) (snd z) env s vm" "vm_ip vm = clen st"
  then obtain st1 where st1: "compile_expr deq e st = Ok st1" "st' = with_chunk (emit Op_Pop sp) st1" by auto
  have "opens [] st st'" using opens_then [OF compile_expr_opens [OF st1(1)] opens_emit(1)] st1(2) by simp
  then have seg: "segment F [] st st'" using opens_unique a(3,4) by blast
  have x: "extends st st1" "extends st1 st'" using opens_extends [OF compile_expr_opens [OF st1(1)]] st1(2) by simp_all
  note sim = tame_sim [OF st1(1) segment_mid [OF seg code_extends_refl x(2)], of "snd z" en "fst z" env]
  have "leads en F vm (post (flows F (exact F z) z env (vm_stack vm) (clen st') brk cont) (tw_bind (eval_expr en 0 (ast_of e) env s) (\<lambda>_. TOk FNormal)))"
  proof (rule post_bind [OF simulatesD [OF sim a(5,6) refl]])
    fix v s1 and vm' :: "'a vm" assume vm': "vm_ip vm' = clen st1" "vm_stack vm' = v # vm_stack vm" "rel F (fst z) (snd z) env s1 vm'"
    show "leads en F vm' (post (flows F (exact F z) z env (vm_stack vm) (clen st') brk cont) (TOk FNormal s1))"
      by (rule leads_op [OF segment_mid [OF seg x(1) code_extends_refl] _ _ vm'(1), where op = Op_Pop and bytes = "[]"])
        (use vm' st1(2) in \<open>auto simp: step_pop_def\<close>)
  qed (use assms a(2) in simp_all)
  then show "sim_opt en F n vm (flows F (exact F z) z env (vm_stack vm) (clen st') brk cont) (exec_stmt n en (stmt_of (SExpr e nd)) env s)"
    by (simp add: sim_opt_def)
qed

lemma follows_break: "follows en F rr z (exact F z) z (compile_break nd) (\<lambda>n. exec_stmt n en StmtBreak)"
proof (rule followsI)
  fix st st' bs brk cont env s and vm :: "'a vm" and n
  assume a: "compile_break nd st = Ok st'" "opens bs st st'" "segment F bs st st'" "loop_targets F st bs brk cont"
    "rel F (fst z) (snd z) env s vm" "vm_ip vm = clen st"
  obtain st1 where j: "jump_from Op_Jump (node_span nd) st = (st1, clen st + 1)" "emits (op_as_u8 Op_Jump # to_le_bytes 2 (0 :: u16)) st st1"
    by (rule emits_jump)
  from a(1) j obtain ctx outer where l: "co_loops st1 = ctx # outer"
    and st': "st' = st1\<lparr>co_loops := ctx\<lparr>lc_break_sites := lc_break_sites ctx @ [clen st + 1]\<rparr> # outer\<rparr>"
    by (auto simp: compile_break_def split: list.splits)
  have "co_loops st = ctx # outer" using j(2) l by (simp add: emits_def opens_def)
  then have "opens [clen st + 1] st st'" using j(2) st' by (simp add: opens_def emits_def sites_in_def to_le_2)
  then have bs: "bs = [clen st + 1]" using opens_unique a(2) by blast
  have "clen st < length (c_code F)" "c_code F ! clen st = op_as_u8 Op_Jump"
    using a(3) bs st' j(2) by (auto simp: segment_def agrees_def emits_def nth_append holes_def to_le_2)
  moreover have "read_i16 F (clen st + 1) = Some (int brk - int (clen st + 3))" using a(4) bs by (simp add: loop_targets_def)
  ultimately have "vm_step en F vm = VNext (vm\<lparr>vm_ip := brk\<rparr>)"
    using vm_step_op [of vm F Op_Jump en] a(6) jump_by_target [of brk "clen st" vm] by (simp add: step_jump_def numeral_3_eq_3)
  then show "sim_opt en F n vm (flows F (exact F z) z env (vm_stack vm) (clen st') brk cont) (exec_stmt n en StmtBreak env s)"
    unfolding exec_stmt.simps by (rule sim_step, intro sim_now) (use a(5) in simp)
qed

lemma follows_continue: "follows en F rr z (exact F z) z (compile_continue nd) (\<lambda>n. exec_stmt n en StmtContinue)"
proof (rule followsI)
  fix st st' bs brk cont env s and vm :: "'a vm" and n
  assume a: "compile_continue nd st = Ok st'" "opens bs st st'" "segment F bs st st'" "loop_targets F st bs brk cont"
    "rel F (fst z) (snd z) env s vm" "vm_ip vm = clen st"
  from a(1,4) have "st' = with_chunk (emit_loop Op_Loop cont (node_span nd)) st"
    by (auto simp: compile_continue_def loop_targets_def split: list.splits option.splits)
  then have lb: "loops_back cont st st'" using emit_loop_back by simp
  then have bs: "bs = []" using opens_unique a(2) by (auto simp: loops_back_def)
  have len: "clen st + 3 \<le> clen st'" and op: "code_of st' ! clen st = op_as_u8 Op_Loop"
    and rd: "read_i16 (co_chunk st') (clen st + 1) = Some (int cont - int (clen st + 3))"
    using lb a(3) by (auto simp: loops_back_def segment_def)
  note j = segment_jump [OF a(3) order.refl len op rd _ _ a(6)]
  have "vm_step en F vm = VNext (vm\<lparr>vm_ip := cont\<rparr>)"
    using j bs jump_by_target [of cont "clen st" vm] by (simp add: step_jump_def)
  then show "sim_opt en F n vm (flows F (exact F z) z env (vm_stack vm) (clen st') brk cont) (exec_stmt n en StmtContinue env s)"
    unfolding exec_stmt.simps by (rule sim_step, intro sim_now) (use a(5) in simp)
qed

subsection \<open>Branches\<close>

lemma sim_jump_end:
  assumes "sim_opt en F n vm (flows F L z' env S ip brk cont) r"
    and "\<And>vm'. vm_ip vm' = ip \<Longrightarrow> vm_step en F vm' = VNext (vm'\<lparr>vm_ip := ip'\<rparr>)"
  shows "sim_opt en F n vm (flows F L z' env S ip' brk cont) r"
proof -
  have "sim_opt en F n vm (flows F L z' env S ip' brk cont) (tw_then r (\<lambda>fl s. Some (TOk fl s)))"
  proof (rule sim_then [OF assms(1)])
    fix s and vm' :: "'a vm" assume vm': "vm_ip vm' = ip" "vm_stack vm' = S" "rel F (fst z') (snd z') env s vm'"
    show "sim_opt en F n vm' (flows F L z' env S ip' brk cont) (Some (TOk FNormal s))"
      by (rule sim_step [OF assms(2) [OF vm'(1)]], rule sim_now) (use vm' in simp)
  qed (auto intro!: sim_now)
  moreover have "tw_then r (\<lambda>fl s. Some (TOk fl s)) = r" by (auto simp: tw_then_def split: option.splits tw_out.splits)
  ultimately show ?thesis by simp
qed

lemma follows_if:
  assumes c: "resolved_expr rr (snd z) c" "tame c"
    and t: "follows en F rr z (exact F z) z mt ext" "stmt_action mt" and e: "follows en F rr z (exact F z) z me exe" "stmt_action me"
  shows "follows en F rr z (exact F z) z (branch (compile_expr deq c) mt me sp)
    (\<lambda>n env s. tw_then (Some (eval_expr en 0 (ast_of c) env s)) (\<lambda>v s1. if is_truthy (en_num en) v then ext n env s1 else exe n env s1))"
proof (rule followsI)
  fix st st' bs brk cont env s and vm :: "'a vm" and n
  assume a: "branch (compile_expr deq c) mt me sp st = Ok st'" "co_resolved st = rr" "opens bs st st'" "segment F bs st st'"
    "loop_targets F st bs brk cont" "rel F (fst z) (snd z) env s vm" "vm_ip vm = clen st"
  from a(1) show "sim_opt en F n vm (flows F (exact F z) z env (vm_stack vm) (clen st') brk cont)
      (tw_then (Some (eval_expr en 0 (ast_of c) env s)) (\<lambda>v s1. if is_truthy (en_num en) v then ext n env s1 else exe n env s1))"
  proof (rule branchE)
    fix st1 st2 st3 st4 st5 st6
    assume s: "compile_expr deq c st = Ok st1" "emits (op_as_u8 Op_JumpIfFalse # to_le_bytes 2 (0 :: u16)) st1 st2" "mt st2 = Ok st3"
      "emits (op_as_u8 Op_Jump # to_le_bytes 2 (0 :: u16)) st3 st4" "fills (clen st1 + 1) st4 st5" "me st5 = Ok st6" "fills (clen st3 + 1) st6 st'"
    have k: "loops_known st" using a(5) by (simp add: loop_targets_def)
    note o1 = compile_expr_opens [OF s(1)]
    have o12: "opens [] st st2" using opens_then [OF o1 emits_opens [OF s(2)]] .
    obtain bs1 where o2: "opens bs1 st2 st3" using stmt_actionE [OF t(2) loops_known_opens [OF k o12] s(3)] .
    have o4: "opens bs1 st st4" using opens_emits [OF opens_then [OF o12 o2] s(4)] .
    have le1: "clen st \<le> clen st1 + 1" using extends_len [OF opens_extends [OF o1]] by simp
    have o5: "opens bs1 st st5" by (rule opens_fills [OF o4 le1 s(5)])
    obtain bs2 where o6: "opens bs2 st5 st6" using stmt_actionE [OF e(2) loops_known_opens [OF k o5] s(6)] .
    have bs: "bs = bs1 @ bs2" using opens_unique [OF branch_opens [OF o1 s(2) o2 s(4,5) o6 s(7)] a(3)] .
    note p = branch_parts [OF a(4) [unfolded bs] o1 s(2) o2 s(4,5) o6 s(7)]
    have lt: "loop_targets F st2 bs1 brk cont" "loop_targets F st5 bs2 brk cont"
      using loop_targets_append [OF loop_targets_append(2) [where bs = "[]", OF _ o12]] a(5) bs o2
        loop_targets_append(2) [OF _ o5, of F bs2 brk cont] by auto
    note sim = tame_sim [OF s(1) p(1), of "snd z" en "fst z" env]
    show ?thesis
    proof (rule sim_expr [OF simulatesD [OF sim a(6,7) refl]])
      fix v s1 and vm' :: "'a vm" assume vm': "vm_ip vm' = clen st1" "vm_stack vm' = v # vm_stack vm" "rel F (fst z) (snd z) env s1 vm'"
      let ?vm = "vm'\<lparr>vm_stack := vm_stack vm, vm_ip := if is_truthy (en_num en) v then clen st2 else clen st5\<rparr>"
      show "sim_opt en F n vm' (flows F (exact F z) z env (vm_stack vm) (clen st') brk cont) (if is_truthy (en_num en) v then ext n env s1 else exe n env s1)"
      proof (rule sim_step [OF p(7) [OF vm'(1,2)]], cases "is_truthy (en_num en) v")
        case True
        have "sim_opt en F n ?vm (flows F (exact F z) z env (vm_stack vm) (clen st3) brk cont) (ext n env s1)"
          by (rule followsD [OF t(1) s(3) _ o2 p(2) lt(1)]) (use a(2) p(4) vm'(3) True in simp_all)
        from sim_jump_end [OF this p(8)] True
        show "sim_opt en F n ?vm (flows F (exact F z) z env (vm_stack vm) (clen st') brk cont) (if is_truthy (en_num en) v then ext n env s1 else exe n env s1)"
          by simp
      next
        case False
        have "sim_opt en F n ?vm (flows F (exact F z) z env (vm_stack vm) (clen st6) brk cont) (exe n env s1)"
          by (rule followsD [OF e(1) s(6) _ o6 p(3) lt(2)]) (use a(2) p(5) vm'(3) False in simp_all)
        then show "sim_opt en F n ?vm (flows F (exact F z) z env (vm_stack vm) (clen st') brk cont) (if is_truthy (en_num en) v then ext n env s1 else exe n env s1)"
          using False p(6) by simp
      qed
    qed (use c a(2) in simp_all)
  qed
qed

subsection \<open>Loops\<close>

abbreviation inside :: "compiler \<Rightarrow> nat \<Rightarrow> compiler" where
  "inside st target \<equiv> st\<lparr>co_loops := \<lparr>lc_continue_target = Some target, lc_continue_sites = [], lc_break_sites = []\<rparr> # co_loops st\<rparr>"

lemma while_parts:
  assumes seg: "segment F [] st st'" and known: "loops_known st"
    and s: "opens [] st st1" "emits (op_as_u8 Op_JumpIfFalse # to_le_bytes 2 (0 :: u16)) st1 st2" "opens bs (inside st2 (clen st)) st3"
      "loops_back (clen st) st3 st4" "fills (clen st1 + 1) (st4\<lparr>co_loops := co_loops st\<rparr>) st5" "fills_all bs st5 st'"
  shows "segment F [] st st1" "segment F bs (inside st2 (clen st)) st3" "co_resolved st2 = co_resolved st"
    and "loop_targets F (inside st2 (clen st)) bs (clen st') (clen st)"
    and "vm_ip vm = clen st1 \<Longrightarrow> vm_stack vm = v # S
      \<Longrightarrow> vm_step en F vm = VNext (vm\<lparr>vm_stack := S, vm_ip := if is_truthy (en_num en) v then clen st2 else clen st'\<rparr>)"
    and "vm_ip vm' = clen st3 \<Longrightarrow> vm_step en F vm' = VNext (vm'\<lparr>vm_ip := clen st\<rparr>)"
proof -
  have x: "extends st st1" "extends st1 st2" "extends st2 st3" "extends st3 st4"
    using s(1-4) by (auto simp: emits_extends loops_back_def dest: opens_extends)
  note le = x [THEN extends_len]
  have len: "clen st2 = clen st1 + 3" "clen st4 = clen st3 + 3" "clen st5 = clen st4" "clen st' = clen st4"
    using s(2,4-6) by (simp_all add: emits_len to_le_2 loops_back_def fills_def fills_all_def)
  have sites: "clen st2 \<le> b \<and> b + 2 \<le> clen st3" if "b \<in> set bs" for b using s(3) that by (simp add: opens_def sites_in_def)
  have over: "\<not> overflowed st'" "\<not> overflowed st5" "\<not> overflowed st4" "\<not> overflowed st3" "\<not> overflowed st1"
    using seg s(5,6) x code_extends_trans by (auto simp: segment_def fills_def fills_all_def dest: extends_overflow)
  have same: "code_of st' ! p = code_of st4 ! p" if "p \<notin> holes bs" "p \<noteq> clen st1 + 1" "p \<noteq> clen st1 + 2" for p
  proof -
    have "code_of st' ! p = code_of st5 ! p"
      by (rule fills_all_same [OF s(6)]) (use that(1) in \<open>auto simp: holes_def not_less_eq_eq\<close>)
    moreover have "p < clen st1 + 1 \<or> clen st1 + 1 + 2 \<le> p" using that(2,3) by linarith
    then have "code_of st5 ! p = code_of (st4\<lparr>co_loops := co_loops st\<rparr>) ! p" using s(5) unfolding fills_def by blast
    ultimately show ?thesis by simp
  qed
  have e14: "extends st1 st4" and e24: "extends st2 st4" and e12: "extends st st2" using x code_extends_trans by blast+
  have early: "code_of st' ! p = code_of st4 ! p" if "p < clen st2" "p \<noteq> clen st1 + 1" "p \<noteq> clen st1 + 2" for p
    using same [of p] that sites by (fastforce simp: holes_def)
  have pool: "consts_of st' = consts_of st4" using s(5,6) by (simp add: fills_def fills_all_def)
  have "same_on (clen st) (clen st1) st1 st'" using early e14 len pool by (auto simp: same_on_def extends_def)
  then show "segment F [] st st1" by (intro segment_part [OF seg code_extends_refl]) (use over le len in auto)
  show res2: "co_resolved st2 = co_resolved st" using extends_resolved [OF e12] by simp
  have ag: "agrees F {} st st'" using seg by (simp add: segment_def)
  have "agrees F (holes bs) (inside st2 (clen st)) st3"
    unfolding agrees_def
  proof (intro conjI allI impI)
    fix p assume p: "clen (inside st2 (clen st)) \<le> p \<and> p < clen st3 \<and> p \<notin> holes bs"
    then have "code_of st' ! p = code_of st3 ! p" using same [of p] x(4) len by (simp add: extends_def)
    moreover have "p < length (c_code F) \<and> c_code F ! p = code_of st' ! p" using ag p le len by (auto simp: agrees_def)
    ultimately show "p < length (c_code F)" "c_code F ! p = code_of st3 ! p" by auto
  next
    show "\<exists>cs. c_consts F = consts_of st3 @ cs" using ag pool x(4) by (auto simp: agrees_def extends_def)
  qed
  then show "segment F bs (inside st2 (clen st)) st3"
    using seg over res2 extends_resolved [OF e12] by (simp add: segment_def)
  have "read_i16 F b = Some (int (clen st') - int (b + 2))" if "b \<in> set bs" for b
  proof -
    have "read_i16 (co_chunk st') b = Some (int (clen st') - int (b + 2))" using s(6) over that len by (simp add: fills_all_def)
    then show ?thesis using agrees_read_i16 [OF ag, of b] sites [OF that] le len by simp
  qed
  then show "loop_targets F (inside st2 (clen st)) bs (clen st') (clen st)"
    using known s(1,2) by (simp add: loop_targets_def loops_known_def opens_def emits_def)
  have r1: "read_i16 (co_chunk st') (clen st1 + 1) = Some (int (clen st') - int (clen st1 + 3))"
  proof -
    have "code_of st' ! q = code_of st5 ! q" if "q < clen st2" for q by (rule fills_all_same [OF s(6)]) (use sites that in fastforce)
    then have "same_on (clen st1 + 1) (clen st1 + 1 + 2) st5 st'" using s(6) len by (simp add: same_on_def fills_all_def)
    from fills_read [OF s(5) over(2) this] len show ?thesis by (simp add: numeral_3_eq_3)
  qed
  have r3: "read_i16 (co_chunk st') (clen st3 + 1) = Some (int (clen st) - int (clen st3 + 3))"
  proof -
    have "code_of st' ! q = code_of st4 ! q" if "clen st3 \<le> q" for q
      by (rule same) (use that sites le len in \<open>fastforce simp: holes_def\<close>)+
    then have "read_i16 (co_chunk st') (clen st3 + 1) = read_i16 (co_chunk st4) (clen st3 + 1)" using len by (intro read_i16_cong) auto
    then show ?thesis using s(4) over by (simp add: loops_back_def)
  qed
  have op1: "code_of st' ! clen st1 = op_as_u8 Op_JumpIfFalse" using early [of "clen st1"] s(2) e24 len by (simp add: emits_def extends_def)
  have op3: "code_of st' ! clen st3 = op_as_u8 Op_Loop"
    using same [of "clen st3"] s(4) sites le len by (fastforce simp: loops_back_def holes_def)
  have b: "clen st \<le> clen st1" "clen st1 + 3 \<le> clen st'" "clen st \<le> clen st3" "clen st3 + 3 \<le> clen st'" using le len by auto
  show "vm_step en F vm = VNext (vm\<lparr>vm_stack := S, vm_ip := if is_truthy (en_num en) v then clen st2 else clen st'\<rparr>)"
    if vm: "vm_ip vm = clen st1" "vm_stack vm = v # S"
  proof -
    note j = segment_jump [OF seg b(1,2) op1 r1 _ _ vm(1)]
    show ?thesis using j(1) jump_if_target [OF j(2) vm(2)] len by simp
  qed
  show "vm_step en F vm' = VNext (vm'\<lparr>vm_ip := clen st\<rparr>)" if vm: "vm_ip vm' = clen st3"
  proof -
    note j = segment_jump [OF seg b(3,4) op3 r3 _ _ vm]
    show ?thesis using j jump_by_target [of "clen st" "clen st3" vm'] by (simp add: step_jump_def)
  qed
qed

lemma follows_while:
  assumes c: "resolved_expr rr (snd z) c" "tame c" and act: "stmt_action mb"
    and body: "follows en F rr z (exact F z) z mb (\<lambda>n env s. in_child env s (\<lambda>child. exec n en ss child))"
  shows "follows en F rr z (exact F z) z (compile_while (compile_expr deq c) mb nd) (\<lambda>n. exec_stmt n en (StmtWhile (ast_of c) ss))"
proof (rule followsI)
  fix st st' bs' brk cont env s and vm :: "'a vm" and n
  assume a: "compile_while (compile_expr deq c) mb nd st = Ok st'" "co_resolved st = rr" "opens bs' st st'" "segment F bs' st st'"
    "loop_targets F st bs' brk cont" "rel F (fst z) (snd z) env s vm" "vm_ip vm = clen st"
  have known: "loops_known st" using a(5) by (simp add: loop_targets_def)
  have "bs' = []" using opens_unique [OF while_opens [OF compile_expr_action act known a(1)] a(3)] .
  with a(4) have seg: "segment F [] st st'" by simp
  let ?S = "vm_stack vm" and ?Q = "flows F (exact F z) z env (vm_stack vm) (clen st') brk cont"
  show "sim_opt en F n vm ?Q (exec_stmt n en (StmtWhile (ast_of c) ss) env s)"
  proof (rule whileE [OF a(1) compile_expr_action act known])
    fix st1 st2 :: compiler and bs :: "nat list" and st3 st4 st5 :: compiler
    assume w: "compile_expr deq c st = Ok st1" "opens [] st st1" "emits (op_as_u8 Op_JumpIfFalse # to_le_bytes 2 (0 :: u16)) st1 st2"
      "mb (inside st2 (clen st)) = Ok st3" "opens bs (inside st2 (clen st)) st3" "loops_back (clen st) st3 st4"
      "fills (clen st1 + 1) (st4\<lparr>co_loops := co_loops st\<rparr>) st5" "fills_all bs st5 st'"
    note p = while_parts [OF seg known w(2,3,5-8)]
    have "sim_opt en F n vm ?Q (exec_stmt n en (StmtWhile (ast_of c) ss) env s)"
      if "rel F (fst z) (snd z) env s vm" "vm_ip vm = clen st" "vm_stack vm = ?S" for n s and vm :: "'a vm"
      using that
    proof (induction n arbitrary: s vm)
      case 0
      then show ?case by (simp add: sim_opt_def)
    next
      case (Suc n)
      have "resolved_expr (co_resolved st) (snd z) c" using c(1) a(2) by simp
      note cond = simulatesD [OF tame_sim [OF w(1) p(1) this c(2)] Suc.prems]
      show ?case
        unfolding exec_stmt.simps
      proof (rule sim_expr [OF cond])
        fix v s1 and vm1 :: "'a vm" assume vm1: "vm_ip vm1 = clen st1" "vm_stack vm1 = v # ?S" "rel F (fst z) (snd z) env s1 vm1"
        let ?vm = "vm1\<lparr>vm_stack := ?S, vm_ip := if is_truthy (en_num en) v then clen st2 else clen st'\<rparr>"
        let ?k = "\<lambda>fl s2. case fl of FBreak \<Rightarrow> Some (TOk FNormal s2) | FReturn x \<Rightarrow> Some (TOk (FReturn x) s2)
          | _ \<Rightarrow> exec_stmt n en (StmtWhile (ast_of c) ss) env s2"
        have run: "sim_opt en F n ?vm ?Q (tw_then (in_child env s1 (\<lambda>child. exec (Suc n) en ss child)) ?k)" if "is_truthy (en_num en) v"
        proof (rule sim_then)
          have "sim_opt en F (Suc n) ?vm (flows F (exact F z) z env ?S (clen st3) (clen st') (clen st)) (in_child env s1 (\<lambda>child. exec (Suc n) en ss child))"
            by (rule followsD [OF body w(4) _ w(5) p(2,4)]) (use that vm1 a(2) p(3) in simp_all)
          then show "sim_opt en F n ?vm (flows F (exact F z) z env ?S (clen st3) (clen st') (clen st)) (in_child env s1 (\<lambda>child. exec (Suc n) en ss child))"
            by (rule sim_less) simp
        next
          fix s2 and vm2 :: "'a vm" assume vm2: "vm_ip vm2 = clen st3" "vm_stack vm2 = ?S" "rel F (fst z) (snd z) env s2 vm2"
          show "sim_opt en F n vm2 ?Q (?k FNormal s2)" by (rule sim_step [OF p(6) [OF vm2(1)]]) (use vm2 in \<open>simp add: Suc.IH\<close>)
        qed (auto intro!: sim_now Suc.IH)
        show "sim_opt en F (Suc n) vm1 ?Q (if \<not> is_truthy (en_num en) v then Some (TOk FNormal s1)
            else tw_then (in_child env s1 (\<lambda>child. exec (Suc n) en ss child)) ?k)"
          by (rule sim_step_Suc [OF p(5) [OF vm1(1,2)]]) (use run vm1 in \<open>auto intro!: sim_now\<close>)
      qed
    qed
    then show ?thesis using a(6,7) by blast
  qed
qed

subsection \<open>All statements\<close>

fun exprs :: "cst_stmt \<Rightarrow> cst set" where
  "exprs (SExpr e nd) = {e}"
| "exprs (SLet c x init nd) = set_option init"
| "exprs (SBlock ss nd) = (\<Union>s \<in> set ss. exprs s)"
| "exprs (SIf c thn els nd) = {c} \<union> (\<Union>s \<in> set thn. exprs s) \<union> (case els of Some s \<Rightarrow> exprs s | None \<Rightarrow> {})"
| "exprs (SWhile c body nd) = {c} \<union> (\<Union>s \<in> set body. exprs s)"
| "exprs (SBreak nd) = {}"
| "exprs (SContinue nd) = {}"
| "exprs (SReturn e nd) = set_option e"

definition compile_one :: "(decimal \<Rightarrow> decimal \<Rightarrow> bool) \<Rightarrow> cst_stmt \<Rightarrow> action" where
  "compile_one deq s st = (case s of
      SExpr e nd \<Rightarrow> res_bind (compile_expr deq e st) (\<lambda>st1. Ok (with_chunk (emit Op_Pop (node_span nd)) st1))
    | _ \<Rightarrow> compile_stmt deq s st)"

lemma compile_one_action: "stmt_action (compile_one deq s)"
  using compile_stmt_action [of deq s] expr_stmt_action [OF expr_stmt_pop]
  by (cases s) (simp_all add: compile_one_def stmt_action_def)

lemma compile_block_Cons: "compile_block deq (s # ss) = (\<lambda>st. res_bind (compile_one deq s st) (compile_block deq ss))"
  by (rule ext) (simp add: compile_one_def)

lemma exec_Cons: "(\<lambda>n. exec n en (s # ss)) = seq_exec (\<lambda>n. exec_stmt n en s) (\<lambda>n. exec n en ss)"
  by (intro ext) (simp add: seq_exec_def)

lemma grows_fold: "grows z (fold (declared rr) ss z)"
proof (induction ss arbitrary: z)
  case (Cons s ss)
  then show ?case using grows_trans [OF declared_grows Cons.IH] by simp
qed simp

text \<open>A list of statements, given its members.\<close>

lemma follows_list:
  assumes "\<And>s z. s \<in> set ss \<Longrightarrow> resolved_stmt rr z s
      \<Longrightarrow> follows en F rr z (exact F z) (declared rr s z) (compile_one deq s) (\<lambda>n. exec_stmt n en (stmt_of s))"
    and "resolved_stmts rr z ss"
  shows "follows en F rr z (leaves F (fst z) (snd z)) (fold (declared rr) ss z) (compile_block deq ss) (\<lambda>n. exec n en (map stmt_of ss))"
  using assms
proof (induction ss arbitrary: z)
  case Nil
  have "compile_block deq [] = Ok" by (rule ext) simp
  then show ?case using follows_Nil by (simp add: follows_def)
next
  case (Cons s ss)
  have first: "follows en F rr z (leaves F (fst z) (snd z)) (declared rr s z) (compile_one deq s) (\<lambda>n. exec_stmt n en (stmt_of s))"
    by (rule follows_weaken [OF Cons.prems(1) leaves_rel]) (use Cons.prems(2) in auto)
  have rest: "follows en F rr (declared rr s z) (leaves F (fst (declared rr s z)) (snd (declared rr s z))) (fold (declared rr) ss (declared rr s z))
      (compile_block deq ss) (\<lambda>n. exec n en (map stmt_of ss))"
    using Cons by simp
  show ?case
    using follows_seq [OF first rest compile_one_action compile_block_action declared_grows]
    by (simp add: compile_block_Cons exec_Cons del: exec.simps)
qed

lemma follows_inner:
  assumes "\<And>s z. s \<in> set ss \<Longrightarrow> resolved_stmt rr z s
      \<Longrightarrow> follows en F rr z (exact F z) (declared rr s z) (compile_one deq s) (\<lambda>n. exec_stmt n en (stmt_of s))"
    and "resolved_stmts rr (fst z, Map.empty # snd z) ss"
  shows "follows en F rr z (exact F z) z (compile_block deq ss) (\<lambda>n env s. in_child env s (\<lambda>child. exec n en (map stmt_of ss) child))"
  using follows_block [OF follows_list [OF assms, simplified] grows_fold] by simp

lemma exec_single: "(\<lambda>n. exec n en [x]) = (\<lambda>n. exec_stmt n en x)"
  by (intro ext) (auto simp: tw_then_def split: option.splits tw_out.splits flow.splits)

lemma follows_else:
  assumes "\<And>z. resolved_stmt rr z s \<Longrightarrow> follows en F rr z (exact F z) (declared rr s z) (compile_one deq s) (\<lambda>n. exec_stmt n en (stmt_of s))"
    and "case s of SBlock ss _ \<Rightarrow> False | SExpr _ _ \<Rightarrow> False | _ \<Rightarrow> True"
    and "resolved_stmt rr (fst z, Map.empty # snd z) s"
  shows "follows en F rr z (exact F z) z (compile_stmt deq s) (\<lambda>n env s0. in_child env s0 (\<lambda>child. exec n en [stmt_of s] child))"
proof -
  let ?z = "(fst z, Map.empty # snd z)"
  have one: "compile_one deq s = compile_stmt deq s" using assms(2) by (intro ext) (auto simp: compile_one_def split: cst_stmt.splits)
  have "follows en F rr ?z (leaves F (fst z) (Map.empty # snd z)) (declared rr s ?z) (compile_stmt deq s) (\<lambda>n. exec n en [stmt_of s])"
    unfolding one [symmetric] exec_single by (rule follows_weaken [OF assms(1) [OF assms(3)]]) (simp add: leaves_rel)
  from follows_block [OF this declared_grows] show ?thesis by simp
qed

lemma follows_branch_else:
  assumes IH: "\<And>z. resolved_stmt rr z s \<Longrightarrow> follows en F rr z (exact F z) (declared rr s z) (compile_one deq s) (\<lambda>n. exec_stmt n en (stmt_of s))"
    and res: "case s of SBlock ss _ \<Rightarrow> resolved_stmts rr (fst z, Map.empty # snd z) ss | _ \<Rightarrow> resolved_stmt rr (fst z, Map.empty # snd z) s"
  shows "follows en F rr z (exact F z) z (compile_stmt deq s)
    (\<lambda>n env s0. in_child env s0 (\<lambda>child. exec n en (case s of SBlock ss _ \<Rightarrow> map stmt_of ss | _ \<Rightarrow> [stmt_of s]) child))"
proof (cases "case s of SBlock ss _ \<Rightarrow> False | SExpr _ _ \<Rightarrow> False | _ \<Rightarrow> True")
  case True
  then have "resolved_stmt rr (fst z, Map.empty # snd z) s"
    and "(case s of SBlock ss _ \<Rightarrow> map stmt_of ss | _ \<Rightarrow> [stmt_of s]) = [stmt_of s]" using res by (cases s; simp)+
  with follows_else [OF IH True] show ?thesis by simp
next
  case False
  then consider ss nd where "s = SBlock ss nd" | e nd where "s = SExpr e nd" by (cases s) auto
  then show ?thesis
  proof cases
    case 1
    then show ?thesis using IH [of z] res by (simp add: compile_one_def follows_def)
  next
    case 2
    then show ?thesis by (simp add: follows_def)
  qed
qed

lemma skip_action: "stmt_action Ok"
  by (auto simp: stmt_action_def intro: exI [of _ "[]"])

lemma follows_stmt:
  "resolved_stmt rr z s \<Longrightarrow> \<forall>e \<in> exprs s. tame e
    \<Longrightarrow> follows en F rr z (exact F z) (declared rr s z) (compile_one deq s) (\<lambda>n. exec_stmt n en (stmt_of s))"
proof (induction s arbitrary: z)
  case (SExpr e nd)
  then show ?case using follows_expr [of rr z e en F deq "node_span nd" nd] by (simp add: compile_one_def follows_def)
next
  case (SLet c x init nd)
  have one: "compile_one deq (SLet c x init nd) = compile_stmt deq (SLet c x init nd)" by (rule ext) (simp add: compile_one_def)
  show ?case
    unfolding one using follows_let [of rr "fst z" "snd z" c x init nd en F deq] SLet.prems by (simp only: prod.collapse exprs.simps)
next
  case (SBlock ss nd)
  have "follows en F rr z (exact F z) z (compile_block deq ss) (\<lambda>n env s. in_child env s (\<lambda>child. exec n en (map stmt_of ss) child))"
    by (rule follows_inner) (use SBlock in auto)
  then show ?case by (simp add: compile_one_def follows_def)
next
  case (SIf c thn els nd)
  let ?exe = "\<lambda>n env s0. case els of
      Some s \<Rightarrow> in_child env s0 (\<lambda>child. exec n en (case s of SBlock ss _ \<Rightarrow> map stmt_of ss | _ \<Rightarrow> [stmt_of s]) child)
    | None \<Rightarrow> Some (TOk FNormal s0)"
  have thn: "follows en F rr z (exact F z) z (compile_block deq thn) (\<lambda>n env s. in_child env s (\<lambda>child. exec n en (map stmt_of thn) child))"
    by (rule follows_inner [OF SIf.IH(1)]) (use SIf.prems in auto)
  have els: "follows en F rr z (exact F z) z (case els of Some s \<Rightarrow> compile_stmt deq s | None \<Rightarrow> Ok) ?exe"
  proof (cases els)
    case (Some s)
    have "follows en F rr z (exact F z) z (compile_stmt deq s)
        (\<lambda>n env s0. in_child env s0 (\<lambda>child. exec n en (case s of SBlock ss _ \<Rightarrow> map stmt_of ss | _ \<Rightarrow> [stmt_of s]) child))"
      by (rule follows_branch_else) (use SIf Some in auto)
    with Some show ?thesis by simp
  qed (simp add: follows_Nil)
  have act: "stmt_action (case els of Some s \<Rightarrow> compile_stmt deq s | None \<Rightarrow> Ok)"
    using compile_stmt_action by (cases els) (auto simp: skip_action)
  have m: "compile_one deq (SIf c thn els nd) = branch (compile_expr deq c) (compile_block deq thn) (case els of Some s \<Rightarrow> compile_stmt deq s | None \<Rightarrow> Ok) (node_span nd)"
    by (intro ext) (simp add: compile_one_def compile_if_def split: option.splits)
  have x: "(\<lambda>n. exec_stmt n en (stmt_of (SIf c thn els nd))) = (\<lambda>n env s. tw_then (Some (eval_expr en 0 (ast_of c) env s)) (\<lambda>v s1.
      if is_truthy (en_num en) v then in_child env s1 (\<lambda>child. exec n en (map stmt_of thn) child) else ?exe n env s1))"
    by (intro ext, cases els) (simp_all cong: if_cong)
  show ?case
    unfolding m x declared.simps by (rule follows_if [OF _ _ thn compile_block_action els act]) (use SIf.prems in auto)
next
  case (SWhile c body nd)
  have "follows en F rr z (exact F z) z (compile_block deq body) (\<lambda>n env s. in_child env s (\<lambda>child. exec n en (map stmt_of body) child))"
    by (rule follows_inner) (use SWhile in auto)
  from follows_while [OF _ _ compile_block_action this] SWhile.prems show ?case by (simp add: compile_one_def follows_def)
next
  case (SReturn e nd)
  have one: "compile_one deq (SReturn e nd) = compile_stmt deq (SReturn e nd)" by (rule ext) (simp add: compile_one_def)
  show ?case
    unfolding one declared.simps by (rule follows_return) (use SReturn in \<open>auto split: option.splits\<close>)
qed (use follows_break follows_continue in \<open>simp_all add: compile_one_def follows_def\<close>)

end
