(* ===== verification/EngineAgreement.thy ===== *)
theory EngineAgreement
  imports StmtSimulation
begin

text \<open>
  The two engines agree on whole programs.  A file is run by the interpreter (\<open>run_program\<close> on the tree of
  its parser) and by the VM (\<open>vm_run\<close> on the chunk of \<open>compile_source_inner\<close>); the theorems say that
  both end or neither does, and that they end alike.  Two further theorems show where the engines part:
  assigning to a builtin, and declaring a name twice in a block.
\<close>


section \<open>No loop to leave\<close>

text \<open>A \<open>break\<close> or \<open>continue\<close> outside of a loop does not compile, so none escapes from a program that does.\<close>

fun closed :: "cst_stmt \<Rightarrow> bool" where
  "closed (SBlock ss nd) = list_all closed ss"
| "closed (SIf c thn els nd) = (list_all closed thn \<and> (case els of Some s \<Rightarrow> closed s | None \<Rightarrow> True))"
| "closed (SBreak nd) = False"
| "closed (SContinue nd) = False"
| "closed _ = True"

lemma known_Nil: "co_loops st = [] \<Longrightarrow> loops_known st"
  by (simp add: loops_known_def)

lemma opens_loops_Nil: "opens bs st st' \<Longrightarrow> co_loops st = [] \<Longrightarrow> co_loops st' = [] \<and> bs = []"
  by (simp add: opens_def)

lemma block_closed:
  assumes "\<And>s st st'. s \<in> set ss \<Longrightarrow> compile_one deq s st = Ok st' \<Longrightarrow> co_loops st = [] \<Longrightarrow> closed s"
    and "compile_block deq ss st = Ok st'" and "co_loops st = []"
  shows "list_all closed ss"
  using assms
proof (induction ss arbitrary: st)
  case (Cons s ss)
  from Cons.prems(2) obtain st1 where st1: "compile_one deq s st = Ok st1" "compile_block deq ss st1 = Ok st'"
    by (auto simp: compile_one_def)
  obtain bs where "opens bs st st1" using stmt_actionE [OF compile_one_action known_Nil [OF Cons.prems(3)] st1(1)] .
  then have "co_loops st1 = []" using opens_loops_Nil Cons.prems(3) by blast
  then have "list_all closed ss" using Cons.IH [OF _ st1(2)] Cons.prems(1) by (meson list.set_intros(2))
  then show ?case using Cons.prems(1) [OF _ st1(1) Cons.prems(3)] by simp
qed simp

lemma compile_closed: "compile_one deq s st = Ok st' \<Longrightarrow> co_loops st = [] \<Longrightarrow> closed s"
proof (induction s arbitrary: st st')
  case (SBlock ss nd)
  then show ?case using block_closed [of ss deq st st'] by (auto simp: compile_one_def)
next
  case (SIf c thn els nd)
  from SIf.prems(1) have "branch (compile_expr deq c) (compile_block deq thn) (case els of Some s \<Rightarrow> compile_stmt deq s | None \<Rightarrow> Ok) (node_span nd) st = Ok st'"
    by (simp add: compile_one_def compile_if_def split: option.splits)
  then show ?case
  proof (rule branchE)
    fix st1 st2 st3 st4 st5 st6
    assume s: "compile_expr deq c st = Ok st1" "emits (op_as_u8 Op_JumpIfFalse # to_le_bytes 2 (0 :: u16)) st1 st2"
      "compile_block deq thn st2 = Ok st3" "emits (op_as_u8 Op_Jump # to_le_bytes 2 (0 :: u16)) st3 st4" "fills (clen st1 + 1) st4 st5"
      "(case els of Some s \<Rightarrow> compile_stmt deq s | None \<Rightarrow> Ok) st5 = Ok st6"
    have l2: "co_loops st2 = []"
      using opens_loops_Nil [OF opens_then [OF compile_expr_opens [OF s(1)] emits_opens [OF s(2)]] SIf.prems(2)] by simp
    obtain bs where "opens bs st2 st3" using stmt_actionE [OF compile_block_action known_Nil [OF l2] s(3)] .
    then have "co_loops st4 = []" using opens_loops_Nil [OF opens_emits [OF _ s(4)] l2] by blast
    then have l5: "co_loops st5 = []" using s(5) by (simp add: fills_def)
    have "list_all closed thn" using block_closed [OF SIf.IH(1) s(3) l2] .
    moreover have "closed s" if "els = Some s" for s
    proof (cases "\<exists>e nd. s = SExpr e nd")
      case False
      then have "compile_one deq s st5 = compile_stmt deq s st5" by (cases s) (auto simp: compile_one_def)
      then show ?thesis using SIf.IH(2) [of s st5 st6] that s(6) l5 by simp
    qed auto
    ultimately show ?thesis by (auto split: option.splits)
  qed
qed (auto simp: compile_one_def compile_break_def compile_continue_def jump_from_def split: list.splits prod.splits dest!: opens_loops_Nil)

text \<open>The flows of a closed statement.\<close>

definition ends :: "('d flow, 'd) tw_out option \<Rightarrow> bool" where
  "ends r \<longleftrightarrow> (\<forall>fl s. r = Some (TOk fl s) \<longrightarrow> fl \<noteq> FBreak \<and> fl \<noteq> FContinue)"

lemma ends_then: "(\<And>v s. ends (k v s)) \<Longrightarrow> ends (tw_then r k)"
  by (auto simp: ends_def tw_then_Some)

lemma ends_child: "(\<And>child s. ends (k child s)) \<Longrightarrow> ends (in_child env s k)"
  by (simp add: in_child_def split: prod.splits)

lemma exec_ends: "(\<And>x env s. x \<in> set xs \<Longrightarrow> ends (exec_stmt n en x env s)) \<Longrightarrow> ends (exec n en xs env s)"
proof (induction xs arbitrary: s)
  case (Cons x xs)
  show ?case
    unfolding ends_def
  proof (intro allI impI)
    fix fl s' assume "exec n en (x # xs) env s = Some (TOk fl s')"
    then obtain fl1 s1 where 1: "exec_stmt n en x env s = Some (TOk fl1 s1)"
      and 2: "(case fl1 of FNormal \<Rightarrow> exec n en xs env s1 | _ \<Rightarrow> Some (TOk fl1 s1)) = Some (TOk fl s')"
      by (auto simp: tw_then_Some)
    have "fl1 \<noteq> FBreak \<and> fl1 \<noteq> FContinue" using Cons.prems [of x env s] 1 by (simp add: ends_def)
    moreover have "ends (exec n en xs env s1)" by (rule Cons.IH, rule Cons.prems) simp
    ultimately show "fl \<noteq> FBreak \<and> fl \<noteq> FContinue" using 2 by (cases fl1) (auto simp: ends_def)
  qed
qed (simp add: ends_def)

lemma while_ends: "ends (exec_stmt n en (StmtWhile c body) env s)"
proof (induction n arbitrary: s)
  case (Suc n)
  have "ends (case fl of FBreak \<Rightarrow> Some (TOk FNormal s2) | FReturn x \<Rightarrow> Some (TOk (FReturn x) s2)
       | _ \<Rightarrow> exec_stmt n en (StmtWhile c body) env s2)" for fl s2
    using Suc by (cases fl) (auto simp: ends_def)
  then show ?case unfolding exec_stmt.simps by (intro ends_then) (auto simp: ends_def [of "Some _"] intro: ends_then)
qed (simp add: ends_def)

lemma exec_one: "exec n en [x] = exec_stmt n en x"
  by (rule fun_cong [OF exec_single])

lemma define_in_normal: "define_in env x v m s = TOk fl s' \<Longrightarrow> fl = FNormal"
  by (cases "env_define (tw_envs s) env x v m") (auto simp: define_in_def split: define_error.splits)

lemma closed_ends:
  "closed s \<Longrightarrow> ends (exec_stmt n en (stmt_of s) env s0) \<and> (\<forall>ss nd. s = SBlock ss nd \<longrightarrow> ends (exec n en (map stmt_of ss) env s0))"
proof (induction s arbitrary: env s0)
  case (SBlock ss nd)
  have "ends (exec n en (map stmt_of ss) env s0)" for env s0 by (rule exec_ends) (use SBlock in \<open>auto simp: list_all_iff\<close>)
  then show ?case by (auto intro: ends_child)
next
  case (SIf c thn els nd)
  have t: "ends (exec n en (map stmt_of thn) child s1)" for child s1 by (rule exec_ends) (use SIf in \<open>auto simp: list_all_iff\<close>)
  have e: "ends (exec n en (case s of SBlock ss _ \<Rightarrow> map stmt_of ss | _ \<Rightarrow> [stmt_of s]) child s1)" if "els = Some s" for s child s1
  proof -
    have "ends (exec_stmt n en (stmt_of s) child s1) \<and> (\<forall>ss nd. s = SBlock ss nd \<longrightarrow> ends (exec n en (map stmt_of ss) child s1))"
      using SIf that by auto
    then show ?thesis by (cases s) (auto simp: exec_one simp del: exec.simps exec_stmt.simps)
  qed
  have "ends (if is_truthy (en_num en) v then in_child env s1 (\<lambda>child. exec n en (map stmt_of thn) child)
      else (case (case els of None \<Rightarrow> None | Some s \<Rightarrow> Some (case s of SBlock ss _ \<Rightarrow> map stmt_of ss | _ \<Rightarrow> [stmt_of s])) of
         Some ss \<Rightarrow> in_child env s1 (\<lambda>child. exec n en ss child) | None \<Rightarrow> Some (TOk FNormal s1)))" for v s1
    using t e by (cases els) (auto simp: ends_def [of "Some _"] intro!: ends_child simp del: exec.simps)
  then show ?case by (simp add: ends_then del: exec.simps)
next
  case (SWhile c body nd)
  show ?case using while_ends by simp
qed (auto simp: ends_def tw_bind_TOkE dest: define_in_normal)

section \<open>Files\<close>

text \<open>A file ends with the value of a \<open>return\<close>, or with one of the VM's own choice.\<close>

definition ends_as :: "'d flow \<Rightarrow> 'd tw \<Rightarrow> 'd vm_out \<Rightarrow> bool" where
  "ends_as fl s out \<longleftrightarrow> (\<exists>v vm. out = VDone v vm \<and> shared s vm \<and> (\<forall>x. fl = FReturn x \<longrightarrow> v = x))"

lemma compile_top_Cons:
  "\<not> ((\<exists>e nd. s = SExpr e nd) \<and> ss = []) \<Longrightarrow> compile_top deq eof (s # ss) st = res_bind (compile_one deq s st) (compile_top deq eof ss)"
  by (cases s) (auto simp: compile_one_def res_bind_assoc split: cst_stmt.splits)

lemma top_action: "stmt_action (compile_top deq eof ss)"
proof (induction ss)
  case Nil
  have "stmt_action (\<lambda>st. Ok (with_chunk (emit Op_Return eof) (with_chunk (emit Op_Nil eof) st)))"
    by (auto simp: stmt_action_def intro: opens_then [OF opens_emit(1) opens_emit(1)])
  then show ?case by (simp add: stmt_action_def)
next
  case (Cons s ss)
  show ?case
  proof (cases "(\<exists>e nd. s = SExpr e nd) \<and> ss = []")
    case True
    then obtain e nd where "s = SExpr e nd" "ss = []" by blast
    then show ?thesis
      using opens_then [OF compile_expr_opens opens_emit(1)] by (auto simp: stmt_action_def) blast
  next
    case False
    then show ?thesis
      using block_cons_action [OF compile_one_action Cons.IH] by (simp add: stmt_action_def compile_top_Cons del: compile_top.simps)
  qed
qed

lemma top_extends: "compile_top deq eof ss st = Ok st' \<Longrightarrow> co_loops st = [] \<Longrightarrow> opens [] st st'"
  using stmt_actionE [OF top_action known_Nil] opens_loops_Nil by metis

lemma top_nil_sim:
  assumes "compile_top deq eof [] st = Ok st'" and seg: "segment F [] st st'" and vm: "rel F D sc env s vm" "vm_ip (vm :: 'd vm) = clen st"
  shows "leads en F vm (post ends_as (TOk FNormal s))"
proof -
  let ?a = "with_chunk (emit Op_Nil eof) st"
  have st': "st' = with_chunk (emit Op_Return eof) ?a" using assms(1) by simp
  have x: "extends st ?a" "extends ?a st'" by (simp_all add: st')
  let ?vm = "push RNil (vm\<lparr>vm_ip := clen ?a\<rparr>)"
  have "vm_step en F vm = VNext ?vm"
    using segment_step [OF segment_mid [OF seg code_extends_refl x(2)] _ _ _ vm(2), of Op_Nil "[]"] by (simp add: step_push_def)
  moreover have "leads en F ?vm (post ends_as (TOk FNormal s))"
    by (rule leads_op [OF segment_mid [OF seg x(1) code_extends_refl], where op = Op_Return and bytes = "[]"])
      (use vm st' rel_shared [OF vm(1)] in \<open>auto simp: push_def step_return_def ends_as_def shared_def\<close>)
  ultimately show ?thesis by (rule leads_step)
qed

lemma top_expr_sim:
  assumes "compile_top deq eof [SExpr e nd] st = Ok st'" and seg: "segment F [] st st'" and res: "resolved_expr (co_resolved st) sc e" "tame e"
    and vm: "rel F D sc env s vm" "vm_ip (vm :: 'd vm) = clen st"
  shows "leads en F vm (post ends_as (tw_bind (eval_expr en 0 (ast_of e) env s) (\<lambda>_. TOk FNormal)))"
proof -
  obtain st1 where st1: "compile_expr deq e st = Ok st1" "st' = with_chunk (emit Op_Return (node_span nd)) st1" using assms(1) by auto
  have x: "extends st st1" "extends st1 st'" using opens_extends [OF compile_expr_opens [OF st1(1)]] st1(2) by simp_all
  note sim = tame_sim [OF st1(1) segment_mid [OF seg code_extends_refl x(2)] res, of en D env]
  show ?thesis
  proof (rule post_bind [OF simulatesD [OF sim vm refl]])
    fix v s1 and vm' :: "'d vm" assume vm': "vm_ip vm' = clen st1" "vm_stack vm' = v # vm_stack vm" "rel F D sc env s1 vm'"
    show "leads en F vm' (post ends_as (TOk FNormal s1))"
      by (rule leads_op [OF segment_mid [OF seg x(1) code_extends_refl] _ _ vm'(1), where op = Op_Return and bytes = "[]"])
        (use vm' st1(2) rel_shared [OF vm'(3)] in \<open>auto simp: step_return_def ends_as_def shared_def\<close>)
  qed
qed

lemma top_sim:
  "compile_top deq eof ss st = Ok st' \<Longrightarrow> co_loops st = [] \<Longrightarrow> segment F [] st st' \<Longrightarrow> resolved_stmts (co_resolved st) z ss
    \<Longrightarrow> \<forall>s \<in> set ss. \<forall>e \<in> exprs s. tame e \<Longrightarrow> rel F (fst z) (snd z) env s vm \<Longrightarrow> vm_ip (vm :: 'd vm) = clen st
    \<Longrightarrow> sim_opt en F n vm ends_as (exec n en (map stmt_of ss) env s)"
proof (induction ss arbitrary: st z s vm)
  case Nil
  from top_nil_sim [OF Nil.prems(1,3,6,7)] show ?case by (simp add: sim_opt_def)
next
  case (Cons a ss)
  show ?case
  proof (cases "(\<exists>e nd. a = SExpr e nd) \<and> ss = []")
    case True
    then obtain e nd where a: "a = SExpr e nd" "ss = []" by blast
    with top_expr_sim [OF Cons.prems(1) [unfolded a] Cons.prems(3) _ _ Cons.prems(6,7)] Cons.prems(4,5)
    show ?thesis by (simp add: exec_one sim_opt_def del: exec.simps)
  next
    case False
    then obtain st1 where st1: "compile_one deq a st = Ok st1" "compile_top deq eof ss st1 = Ok st'"
      using Cons.prems(1) by (auto simp: compile_top_Cons simp del: compile_top.simps)
    obtain bs where "opens bs st st1" using stmt_actionE [OF compile_one_action known_Nil [OF Cons.prems(2)] st1(1)] .
    then have o: "opens [] st st1" "co_loops st1 = []" using opens_loops_Nil Cons.prems(2) by auto
    note o1 = top_extends [OF st1(2) o(2)]
    have seg: "segment F [] st st1" "segment F [] st1 st'"
      using segment_mid [OF Cons.prems(3)] opens_extends [OF o(1)] opens_extends [OF o1] by auto
    have rr: "co_resolved st1 = co_resolved st" using extends_resolved [OF opens_extends [OF o(1)]] by simp
    have closed: "ends (exec_stmt n en (stmt_of a) env s)" using closed_ends [OF compile_closed [OF st1(1) Cons.prems(2)]] by blast
    have lt: "loop_targets F st [] 0 0" using Cons.prems(2) by (simp add: loop_targets_def known_Nil)
    have f: "follows en F (co_resolved st) z (exact F z) (declared (co_resolved st) a z) (compile_one deq a) (\<lambda>n. exec_stmt n en (stmt_of a))"
      by (rule follows_stmt) (use Cons.prems(4,5) in auto)
    note first = followsD [OF f st1(1) refl o(1) seg(1) lt Cons.prems(6,7) refl]
    show ?thesis
      unfolding list.map exec.simps
    proof (rule sim_then [OF first])
      fix s1 and vm' :: "'d vm"
      assume vm': "vm_ip vm' = clen st1" "rel F (fst (declared (co_resolved st) a z)) (snd (declared (co_resolved st) a z)) env s1 vm'"
      have "sim_opt en F n vm' ends_as (exec n en (map stmt_of ss) env s1)"
        by (rule Cons.IH [OF st1(2) o(2) seg(2) _ _ vm'(2,1)]) (use Cons.prems(4,5) rr in auto)
      then show "sim_opt en F n vm' ends_as (case FNormal of FNormal \<Rightarrow> exec n en (map stmt_of ss) env s1 | _ \<Rightarrow> Some (TOk FNormal s1))" by simp
    qed (use closed in \<open>auto simp: ends_def ends_as_def\<close>)
  qed
qed

section \<open>The start\<close>

lemma define_each_append:
  "length (es_scopes st) = 1 \<Longrightarrow> distinct (map fst kvs) \<Longrightarrow> fst ` set kvs \<inter> fst ` set (sc_vars (es_scopes st ! 0)) = {}
    \<Longrightarrow> \<exists>st'. define_each st 0 kvs m = Some st' \<and> length (es_scopes st') = 1
      \<and> sc_vars (es_scopes st' ! 0) = sc_vars (es_scopes st ! 0) @ map (\<lambda>(k, v). (k, \<lparr>b_value = v, b_mutable = m\<rparr>)) kvs
      \<and> sc_parent (es_scopes st' ! 0) = sc_parent (es_scopes st ! 0)"
proof (induction kvs arbitrary: st)
  case (Cons kv kvs)
  obtain k v where kv: "kv = (k, v)" by (cases kv)
  let ?sc = "es_scopes st ! 0"
  let ?st = "st\<lparr>es_scopes := (es_scopes st)[0 := ?sc\<lparr>sc_vars := sc_vars ?sc @ [(k, \<lparr>b_value = v, b_mutable = m\<rparr>)]\<rparr>]\<rparr>"
  have "map_of (sc_vars ?sc) k = None" "k \<notin> fst ` set (sc_vars ?sc)" using Cons.prems(3) kv by (auto simp: map_of_eq_None_iff)
  then have run: "env_define st 0 k v m = Ok ?st" using Cons.prems(1) by (simp add: env_define_def vec_get_def im_insert_new)
  have "length (es_scopes ?st) = 1" "fst ` set kvs \<inter> fst ` set (sc_vars (es_scopes ?st ! 0)) = {}"
    using Cons.prems kv by auto
  from Cons.IH [OF this(1) _ this(2)] Cons.prems(1,2) kv run show ?case by (auto simp: nth_list_update)
qed simp

lemma BUILTINS_distinct: "distinct (map fst (BUILTINS :: (rstring \<times> 'd rval) list))"
proof -
  have "map fst (BUILTINS :: (rstring \<times> 'd rval) list) = BUILTIN_NAMES" by (simp add: BUILTINS_def comp_def)
  moreover have "distinct BUILTIN_NAMES" by (simp add: BUILTIN_NAMES_def)
  ultimately show ?thesis by simp
qed

lemma start_rel:
  fixes F :: chunk
  obtains envs :: "('d rval, unit) env_store" and s :: "'d tw" where "global_env = Some (0, envs)"
    "env_child envs 0 = (1, tw_envs s)" "tw_arrays s = []" "rel F {} [] 1 s (vm_start F)"
proof -
  let ?st0 = "\<lparr>es_scopes = [\<lparr>sc_vars = [], sc_parent = None, sc_defers = None\<rparr>], es_defer_lists = []\<rparr> :: ('d rval, unit) env_store"
  obtain envs where e: "define_each ?st0 0 BUILTINS False = Some envs" "length (es_scopes envs) = 1"
    "sc_vars (es_scopes envs ! 0) = builtin_vars" "sc_parent (es_scopes envs ! 0) = None"
    using define_each_append [of ?st0 BUILTINS False] BUILTINS_distinct by (auto simp: builtin_vars_def)
  have g: "global_env = Some (0, envs)" using e(1) by (simp add: global_env_def env_global_def)
  let ?s = "\<lparr>tw_envs = snd (env_child envs 0), tw_arrays = []\<rparr>"
  have c: "env_child envs 0 = (1, tw_envs ?s)" using e(2) by (simp add: env_child_def)
  have "module_ok (tw_envs ?s) []" using e(2-4) by (simp add: module_ok_def env_child_def global_vars_def nth_append)
  moreover have "globals_ok BUILTINS (site_name F) globals_new (\<lambda>_. None)"
    by (simp add: globals_ok_def globals_new_def env_wf_def)
  ultimately have "rel F {} [] 1 ?s (vm_start F)"
    by (simp add: rel_def shared_def vm_start_def globals_new_def)
  with g c show thesis by (intro that [of envs ?s]) simp_all
qed

section \<open>Programs\<close>

text \<open>
  The programs of the comparison: a tree as the parser builds it (every node has its own range, an \<open>else\<close>
  holds a block or an \<open>if\<close>) in which no block declares a name twice, no builtin is assigned to, and no
  expression nests deeper than the interpreter allows.
\<close>

definition plain :: "cst_stmt list \<Rightarrow> bool" where
  "plain ss \<longleftrightarrow> list_all tree_ok ss \<and> distinct (concat (map use_keys ss)) \<and> distinct (concat (map let_keys ss))
     \<and> (\<forall>s \<in> set ss. \<forall>e \<in> exprs s. tame e)"

lemma fresh_chunk_fields [simp]: "c_code chunk_new = []" "c_consts chunk_new = []" "c_overflow chunk_new = None"
  by (simp_all add: chunk_new_def flat_default_def chunk_flat.defs chunk.defs)

lemma program_sim:
  assumes "compile_source_inner deq eof ss = Ok F" and "plain ss"
  shows "sim_opt en F n (vm_start F) ends_as (run_program n en (map stmt_of ss))"
proof -
  let ?rr = "resolve ss"
  have res: "resolved_stmts ?rr ({}, []) ss" "rr_cell_slots ?rr = []" using resolve_resolved [of ss] assms(2) by (simp_all add: plain_def)
  let ?st = "\<lparr>co_chunk = chunk_new\<lparr>c_slot_count := of_nat (rr_slot_count ?rr), c_cell_slots := []\<rparr>, co_resolved = ?rr, co_loops = [],
    co_cells = {}, co_depth = 0\<rparr>"
  from assms(1) res(2) obtain st' where slots: "rr_slot_count ?rr \<le> 65535" and st': "compile_top deq eof ss ?st = Ok st'"
    "c_overflow (co_chunk st') = None" "F = (co_chunk st')\<lparr>c_overflow := None\<rparr>"
    by (auto simp: compile_source_inner_def Let_def take_overflow_def split: if_splits option.splits)
  have x: "extends ?st st'" using opens_extends [OF top_extends [OF st'(1)]] by simp
  have "unat (c_slot_count F) = rr_slot_count ?rr" using x slots st'(3) by (simp add: extends_def unat_of_nat)
  moreover have "length (c_consts F) \<le> 65536" using x st'(2,3) by (simp add: extends_def fresh_chunk_fields)
  ultimately have seg: "segment F [] ?st st'" using st'(2,3) by (simp add: segment_def agrees_def fresh_chunk_fields)
  show ?thesis
  proof (rule start_rel [of F, where 'd = 'a])
    fix envs :: "('a rval, unit) env_store" and s :: "'a tw"
    assume g: "global_env = Some (0, envs)" "env_child envs 0 = (1, tw_envs s)" "tw_arrays s = []" and rel: "rel F {} [] 1 s (vm_start F)"
    have "run_program n en (map stmt_of ss) = exec n en (map stmt_of ss) 1 s"
    proof -
      have "s = \<lparr>tw_envs = tw_envs s, tw_arrays = []\<rparr>" using g(3) by (cases s) simp
      moreover have "run_program n en (map stmt_of ss) = exec n en (map stmt_of ss) 1 \<lparr>tw_envs = tw_envs s, tw_arrays = []\<rparr>"
        by (simp add: run_program_def in_child_def g(1,2))
      ultimately show ?thesis by simp
    qed
    moreover have "sim_opt en F n (vm_start F) ends_as (exec n en (map stmt_of ss) 1 s)"
      by (rule top_sim [OF st'(1) _ seg, where z = "({}, [])"]) (use res rel assms(2) in \<open>simp_all add: plain_def vm_start_def fresh_chunk_fields\<close>)
    ultimately show ?thesis by simp
  qed
qed

text \<open>How an end of the interpreter shows in the VM.\<close>

fun ends_alike :: "('d flow, 'd) tw_out \<Rightarrow> 'd vm_out \<Rightarrow> bool" where
  "ends_alike (TOk fl s) (VDone v vm) \<longleftrightarrow> shared s vm \<and> (fl = FNormal \<or> fl = FReturn v)"
| "ends_alike (TRaise e s) (VRaise e' vm) \<longleftrightarrow> e' = e \<and> shared s vm"
| "ends_alike THang VHang \<longleftrightarrow> True"
| "ends_alike TFault VFault \<longleftrightarrow> True"
| "ends_alike _ _ \<longleftrightarrow> False"

lemma run_program_ends:
  assumes "compile_source_inner deq eof ss = Ok F"
  shows "ends (run_program n en (map stmt_of ss))"
proof -
  from assms obtain st' where st': "compile_top deq eof ss \<lparr>co_chunk = chunk_new\<lparr>c_slot_count := of_nat (rr_slot_count (resolve ss)),
      c_cell_slots := map of_nat (rr_cell_slots (resolve ss))\<rparr>, co_resolved = resolve ss, co_loops = [],
      co_cells = set (rr_cell_slots (resolve ss)), co_depth = 0\<rparr> = Ok st'"
    by (auto simp: compile_source_inner_def Let_def split: if_splits)
  have closed: "list_all closed ss" if "compile_top deq eof ss st = Ok st'" "co_loops st = []" for st
    using that
  proof (induction ss arbitrary: st)
    case (Cons s ss)
    show ?case
    proof (cases "(\<exists>e nd. s = SExpr e nd) \<and> ss = []")
      case False
      then obtain st1 where st1: "compile_one deq s st = Ok st1" "compile_top deq eof ss st1 = Ok st'"
        using Cons.prems(1) by (auto simp: compile_top_Cons simp del: compile_top.simps)
      obtain bs where "opens bs st st1" using stmt_actionE [OF compile_one_action known_Nil [OF Cons.prems(2)] st1(1)] .
      then have "co_loops st1 = []" using opens_loops_Nil Cons.prems(2) by blast
      with Cons.IH [OF st1(2)] compile_closed [OF st1(1) Cons.prems(2)] show ?thesis by simp
    qed auto
  qed simp
  have "list_all closed ss" by (rule closed [OF st']) simp
  then show ?thesis
    by (auto simp: run_program_def ends_def [of "Some _"] list_all_iff closed_ends intro!: ends_child exec_ends split: option.splits)
qed

lemma post_alike: "post ends_as r out \<Longrightarrow> ends (Some r) \<Longrightarrow> ends_alike r out"
proof (cases r)
  case (TOk fl s)
  assume "post ends_as r out" "ends (Some r)"
  with TOk show ?thesis by (cases fl) (auto simp: ends_as_def ends_def)
qed auto

section \<open>Two programs\<close>

text \<open>\<open>let x = 7; while (true) { return x }\<close>, and \<open>while (true) {}\<close>, as the parser hands them over.\<close>

definition sample_program :: "cst_stmt list" where
  "sample_program =
    [SLet False [120] (Some (CLiteral (NumInt 7) (Node (span_new 8 9) (span_new 8 9)))) (Node (span_new 0 9) (span_new 0 9)),
     SWhile (CLiteral (BoolLit True) (Node (span_new 16 20) (span_new 16 20)))
       [SReturn (Some (CNameRef [120] (Node (span_new 30 31) (span_new 30 31)))) (Node (span_new 23 31) (span_new 23 31))]
       (Node (span_new 10 33) (span_new 10 33))]"

definition spin_program :: "cst_stmt list" where
  "spin_program = [SWhile (CLiteral (BoolLit True) (Node (span_new 7 11) (span_new 7 11))) []
     (Node (span_new 0 15) (span_new 0 15))]"

lemmas resolve_simps = resolve_def resolve_file_def push_scope_def pop_scope_def resolver_new_def
  collect_module_globals_def register_global_def let_kind_def declare_let_bindings_def declare_binding_def
  declare_binding_mut_def at_module_top_def declare_global_def declare_mut_def Let_def kind_is_mutable_def
  resolve_name_def resolve_local_def finish_def split_capture_slots_def

lemmas compile_simps = compile_let_def nested_def EXPR_NEST_LIMIT_def compile_literal_def compile_while_def
  jump_from_def emit_jump_def emit_with_const_def add_const_def const_is_dedupable_def const_eq_def
  narrow_index_def emit_defs chunk_new_def flat_default_def chunk_flat.defs chunk.defs emit_define_global_def
  global_mutable_def compile_return_def compile_name_ref_def with_chunk_def to_le_2 patch_site_def patch_jump_def
  emit_loop_def narrow_disp_def take_overflow_def span_new_def record_overflow_def fits_i16_def
  compile_assign_def compound_op_def store_name_def let_slot_def slot_u16_def

lemma global_env_eq:
  "(global_env :: (nat \<times> ('d rval, unit) env_store) option)
    = Some (0, \<lparr>es_scopes = [\<lparr>sc_vars = builtin_vars, sc_parent = None, sc_defers = None\<rparr>], es_defer_lists = []\<rparr>)"
  by (simp add: global_env_def env_global_def BUILTINS_def BUILTIN_NAMES_def builtin_vars_def env_define_def vec_get_def)

lemmas walk_simps = run_program_def global_env_eq in_child_def env_child_def tw_then_def eval_opt_def
  define_in_def env_define_def vec_get_def env_get.simps EXPR_NEST_LIMIT_def is_truthy_def

lemma sample_plain: "plain sample_program"
  by (simp add: plain_def sample_program_def tame_def EXPR_NEST_LIMIT_def span_new_def)

lemma sample_run: "\<exists>s. run_program 1 en (map stmt_of sample_program) = Some (TOk (FReturn (RInt 7)) s)"
  by (simp add: sample_program_def walk_simps)

lemma sample_compiles: "\<exists>F. compile_source_inner (\<lambda>_ _. False) (span_new 33 33) sample_program = Ok F"
  by (simp add: compile_source_inner_def resolve_simps sample_program_def compile_simps)

lemma spin_plain: "plain spin_program"
  by (simp add: plain_def spin_program_def tame_def EXPR_NEST_LIMIT_def span_new_def)

lemma spin_exec: "exec_stmt n en (StmtWhile (Expr (EBool True) sp) []) env s = None"
  by (induction n arbitrary: s) (simp_all add: tw_then_def in_child_def env_child_def EXPR_NEST_LIMIT_def is_truthy_def)

lemma spin_run: "run_program n en (map stmt_of spin_program) = None"
  by (simp add: spin_exec spin_program_def run_program_def global_env_eq in_child_def env_child_def tw_then_def)

lemma spin_compiles: "\<exists>F. compile_source_inner (\<lambda>_ _. False) (span_new 15 15) spin_program = Ok F"
  by (simp add: compile_source_inner_def resolve_simps spin_program_def compile_simps)

section \<open>The engines agree\<close>

text \<open>
  C1: On plain programs compiled code does what the interpreter does.  A program is plain when no block
  declares a name twice, no builtin is assigned to, no expression nests deeper than the interpreter
  allows and its nodes have distinct ranges, as the parser gives them.  If a plain program of the
  fragment compiles to the chunk \<open>F\<close> and the interpreter ends on its tree, with a result, an error or a
  range that never fills, then the VM started on \<open>F\<close> ends as well and alike: the value of a \<open>return\<close>, the
  error, and the globals (names, values, mutability, in the same order) and arrays are the same.
\<close>
theorem engines_end_alike:
  assumes "compile_source_inner deq eof ss = Ok F" and "plain ss" and "run_program n en (map stmt_of ss) = Some r"
  shows "\<exists>k. ends_alike r (vm_run k en F (vm_start F))"
proof -
  obtain k where "post ends_as r (vm_run k en F (vm_start F))"
    using program_sim [OF assms(1,2), of en n] assms(3) by (auto simp: sim_opt_def leads_def)
  with run_program_ends [OF assms(1), of n en] assms(3) post_alike show ?thesis by (metis)
qed

theorem engines_end_alike_witness:
  "\<forall>en :: nat engine. \<exists>F k vm. compile_source_inner (\<lambda>_ _. False) (span_new 33 33) sample_program = Ok F
    \<and> vm_run k en F (vm_start F) = VDone (RInt 7) vm"
proof
  fix en :: "nat engine"
  obtain F where F: "compile_source_inner (\<lambda>_ _. False) (span_new 33 33) sample_program = Ok F" using sample_compiles by blast
  obtain s where s: "run_program 1 en (map stmt_of sample_program) = Some (TOk (FReturn (RInt 7)) s)" using sample_run by blast
  obtain k where "ends_alike (TOk (FReturn (RInt 7)) s) (vm_run k en F (vm_start F))"
    using engines_end_alike [OF F sample_plain s] by blast
  then show "\<exists>F k vm. compile_source_inner (\<lambda>_ _. False) (span_new 33 33) sample_program = Ok F
    \<and> vm_run k en F (vm_start F) = VDone (RInt 7) vm"
    using F by (cases "vm_run k en F (vm_start F)") auto
qed

text \<open>
  C2: On a plain program (as above) that compiles, both engines end or neither does: the interpreter
  exceeds every bound on its iterations exactly when the VM can always take another step.
\<close>
theorem engines_diverge_alike:
  assumes "compile_source_inner deq eof ss = Ok F" and "plain ss"
  shows "(\<forall>n. run_program n en (map stmt_of ss) = None) \<longleftrightarrow> (\<forall>k. \<exists>vm. vm_run k en F (vm_start F) = VNext vm)"
proof
  assume none: "\<forall>n. run_program n en (map stmt_of ss) = None"
  show "\<forall>k. \<exists>vm. vm_run k en F (vm_start F) = VNext vm"
  proof
    fix k
    have "busy en F k (vm_start F)" using program_sim [OF assms, of en k] none by (simp add: sim_opt_def)
    then obtain j vm where "k \<le> j" "vm_run j en F (vm_start F) = VNext vm" by (auto simp: busy_def)
    then show "\<exists>vm. vm_run k en F (vm_start F) = VNext vm" using run_end_unique [of k en F "vm_start F" _ j] by (metis vm_out.exhaust)
  qed
next
  assume run: "\<forall>k. \<exists>vm. vm_run k en F (vm_start F) = VNext vm"
  show "\<forall>n. run_program n en (map stmt_of ss) = None"
  proof
    fix n
    show "run_program n en (map stmt_of ss) = None"
    proof (rule ccontr)
      assume "run_program n en (map stmt_of ss) \<noteq> None"
      then obtain r where r: "run_program n en (map stmt_of ss) = Some r" by blast
      obtain k where "post ends_as r (vm_run k en F (vm_start F))"
        using program_sim [OF assms, of en n] r by (auto simp: sim_opt_def leads_def)
      moreover obtain vm where "vm_run k en F (vm_start F) = VNext vm" using run by blast
      ultimately show False by (cases r) (auto simp: ends_as_def)
    qed
  qed
qed

theorem engines_diverge_alike_witness:
  "\<forall>en :: nat engine. \<exists>F. compile_source_inner (\<lambda>_ _. False) (span_new 15 15) spin_program = Ok F
    \<and> (\<forall>k. \<exists>vm. vm_run k en F (vm_start F) = VNext vm)"
proof
  fix en :: "nat engine"
  obtain F where F: "compile_source_inner (\<lambda>_ _. False) (span_new 15 15) spin_program = Ok F" using spin_compiles by blast
  show "\<exists>F. compile_source_inner (\<lambda>_ _. False) (span_new 15 15) spin_program = Ok F
    \<and> (\<forall>k. \<exists>vm. vm_run k en F (vm_start F) = VNext vm)"
    using F engines_diverge_alike [OF F spin_plain, of en] spin_run by blast
qed

end
