(* ===== verification/EngineGaps.thy ===== *)
theory EngineGaps
  imports EngineAgreement
begin

text \<open>
  Programs on which the two engines differ: outside the conditions of \<open>plain\<close> the agreement fails.
  Both are run here from their source trees, through the compiler on one side and through the interpreter
  on the other.
\<close>

section \<open>Stepping the machine\<close>

lemma run_step: "vm_step en F vm = VNext vm' \<Longrightarrow> vm_run k en F vm' = out \<Longrightarrow> vm_run (Suc k) en F vm = out"
  by simp

lemma run_done: "vm_step en F vm = VDone v vm' \<Longrightarrow> vm_run (Suc 0) en F vm = VDone v vm'"
  by simp

lemma run_raise: "vm_step en F vm = VRaise e vm' \<Longrightarrow> vm_run (Suc 0) en F vm = VRaise e vm'"
  by simp

lemmas vm_simps = vm_start_def vm_step_def vec_get_def step_const_def read_u16_def const_value_def push_def
  step_set_local_def step_push_def step_return_def step_set_global_def with_name_def set_global_def gc_at_def
  globals_new_def set_global_by_name_def update_user_global_def

section \<open>Assigning a builtin\<close>

text \<open>\<open>print = 3\<close>\<close>

definition assign_builtin :: "cst_stmt list" where
  "assign_builtin = [SExpr (CAssign TokEq (CNameRef [112, 114, 105, 110, 116] (Node (span_new 0 5) (span_new 0 5)))
      (CLiteral (NumInt 3) (Node (span_new 8 9) (span_new 8 9))) (Node (span_new 0 9) (span_new 0 9))) (Node (span_new 0 9) (span_new 0 9))]"

text \<open>
  Assigning to a builtin is refused by both engines with different errors: the interpreter finds the
  builtin in the global scope and answers that it is immutable, the VM looks among the user globals only
  and answers that the name is undefined.
\<close>
theorem builtin_assignment:
  "\<exists>F s k vm. compile_source_inner (\<lambda>_ _. False) (span_new 9 9) assign_builtin = Ok F
    \<and> run_program 1 en (map stmt_of assign_builtin) = Some (TRaise (BindingError (ImmutableBinding [112, 114, 105, 110, 116])) s)
    \<and> vm_run k en F (vm_start F) = VRaise (BindingError (AssignUndefined [112, 114, 105, 110, 116])) vm"
  apply (simp add: compile_source_inner_def resolve_simps assign_builtin_def compile_simps mark_mutated_target_def
    walk_simps env_assign.simps assign_to_def desugar_op_def builtin_vars_def BUILTINS_def BUILTIN_NAMES_def del: op_as_u8.simps)
  apply (intro exI, rule run_step, simp add: vm_simps del: op_as_u8.simps)
  apply (rule run_raise, simp add: vm_simps del: op_as_u8.simps)
  done

section \<open>Redeclaring a name in a block\<close>

text \<open>\<open>{ let x = 1; let x = 2 }\<close>\<close>

definition redeclare :: "cst_stmt list" where
  "redeclare = [SBlock
     [SLet False [120] (Some (CLiteral (NumInt 1) (Node (span_new 10 11) (span_new 10 11)))) (Node (span_new 2 11) (span_new 2 11)),
      SLet False [120] (Some (CLiteral (NumInt 2) (Node (span_new 21 22) (span_new 21 22)))) (Node (span_new 13 22) (span_new 13 22))]
     (Node (span_new 0 24) (span_new 0 24))]"

text \<open>
  Declaring a name twice in a nested block is an error of the interpreter and none of the VM, which
  gives the second declaration a slot of its own and ends normally.
\<close>
theorem redeclaration:
  "\<exists>F s k vm. compile_source_inner (\<lambda>_ _. False) (span_new 24 24) redeclare = Ok F
    \<and> run_program 1 en (map stmt_of redeclare) = Some (TRaise (BindingError (AlreadyDefinedHere [120])) s)
    \<and> vm_run k en F (vm_start F) = VDone RNil vm"
  apply (simp add: compile_source_inner_def resolve_simps redeclare_def compile_simps shadowed_def emit_set_local_def
    walk_simps builtin_vars_def BUILTINS_def BUILTIN_NAMES_def del: op_as_u8.simps)
  apply (intro exI, (rule run_step, (simp add: vm_simps del: op_as_u8.simps; fail))+)
  apply (rule run_done, simp add: vm_simps del: op_as_u8.simps)
  done

end
