(* ===== verification/Decode.thy ===== *)
theory Decode
  imports Chunk
begin

text \<open>
  Pre-decoded instruction streams (\<open>src/src/vm/decode.rs\<close>): a chunk's bytes as fixed-width records,
  jump targets resolved to record indices, short runs of instructions fused into one record.

  \<open>decode_chunk\<close> walks the bytes (\<open>decode_walk\<close>), resolves the jumps (\<open>resolve_jumps\<close>) and runs the
  peephole (\<open>fuse_records\<close>).  Its \<open>None\<close>, on bytes that do not decode, is \<open>Err ()\<close>; \<open>Panic\<close> is a read or an
  index out of range.  Offsets and record indices are \<open>u32\<close> and cast as the code casts them.
\<close>

section \<open>Records\<close>

datatype fused_kind =
    GetLocalGetProp | GetLocalGetLocal | GetLocalConst | GetPropAdd | ConstGetLocal | GetLocalGetPropAdd

fun components :: "fused_kind \<Rightarrow> op list" where
  "components GetLocalGetProp = [Op_GetLocal, Op_GetProp]"
| "components GetLocalGetLocal = [Op_GetLocal, Op_GetLocal]"
| "components GetLocalConst = [Op_GetLocal, Op_Const]"
| "components GetPropAdd = [Op_GetProp, Op_Add]"
| "components ConstGetLocal = [Op_Const, Op_GetLocal]"
| "components GetLocalGetPropAdd = [Op_GetLocal, Op_GetProp, Op_Add]"

datatype dop = DBase op | DFused fused_kind

record decoded_instr =
  di_op :: dop
  di_a :: u32
  di_b :: u32
  di_off :: u32

record fused_form =
  ff_seq :: "op list"
  ff_kind :: fused_kind

definition FUSION_CANDIDATES :: "fused_form list" where
  "FUSION_CANDIDATES =
    [\<lparr>ff_seq = [Op_GetLocal, Op_GetProp, Op_Add], ff_kind = GetLocalGetPropAdd\<rparr>,
     \<lparr>ff_seq = [Op_GetLocal, Op_GetProp], ff_kind = GetLocalGetProp\<rparr>,
     \<lparr>ff_seq = [Op_GetLocal, Op_GetLocal], ff_kind = GetLocalGetLocal\<rparr>,
     \<lparr>ff_seq = [Op_GetLocal, Op_Const], ff_kind = GetLocalConst\<rparr>,
     \<lparr>ff_seq = [Op_GetProp, Op_Add], ff_kind = GetPropAdd\<rparr>,
     \<lparr>ff_seq = [Op_Const, Op_GetLocal], ff_kind = ConstGetLocal\<rparr>]"

text \<open>\<open>dc_deps\<close> lists the chunks of other prototypes that a stream embeds; nothing embeds any.\<close>

record decoded_chunk =
  dc_records :: "decoded_instr list"
  dc_entry_index :: "(u32 \<times> u32) list"
  dc_own_epoch :: u64
  dc_deps :: "(fn_proto \<times> u64) list"

definition is_valid :: "decoded_chunk \<Rightarrow> chunk \<Rightarrow> bool" where
  "is_valid d own \<longleftrightarrow> dc_own_epoch d = c_patch_epoch own
     \<and> list_all (\<lambda>(proto, epoch). c_patch_epoch (fp_chunk proto) = epoch) (dc_deps d)"

section \<open>Operands\<close>

text \<open>
  The operand fields of a record, and for a jump the byte it leads to, which the second pass resolves.
\<close>

type_synonym operands = "(u32 \<times> u32) \<times> int option"

definition is_jump16 :: "op \<Rightarrow> bool" where
  "is_jump16 op \<longleftrightarrow> op \<in> {Op_Jump, Op_JumpIfFalse, Op_JumpIfTrue, Op_JumpIfNotNil, Op_Loop}"

definition decode_operands :: "chunk \<Rightarrow> op \<Rightarrow> nat \<Rightarrow> nat \<Rightarrow> (operands, unit) result" where
  "decode_operands c op ip width =
     (let o' = ip + 1 in
      if is_jump16 op then
        res_bind (or_panic (read_i16 c o')) (\<lambda>disp. Ok ((0, 0), Some (int (o' + 2) + disp)))
      else if op = Op_JumpIfArgSupplied then
        res_bind (or_panic (read_u16 c o')) (\<lambda>param_index.
        res_bind (or_panic (read_i16 c (o' + 2))) (\<lambda>disp. Ok ((ucast param_index, 0), Some (int (o' + 4) + disp))))
      else if op \<in> {Op_CallMethod, Op_MatchArray, Op_DefineGlobal, Op_CallNamed} then
        res_bind (or_panic (read_u16 c o')) (\<lambda>a.
        res_bind (or_panic (read_u8 c (o' + 2))) (\<lambda>b. Ok ((ucast a, ucast b), None)))
      else if op = Op_DeferPushMethod then
        res_bind (or_panic (read_u16 c o')) (\<lambda>name.
        res_bind (or_panic (read_u8 c (o' + 2))) (\<lambda>flags.
        res_bind (or_panic (read_u8 c (o' + 3))) (\<lambda>argc. Ok ((ucast name, ucast flags OR push_bit 8 (ucast argc)), None))))
      else if op = Op_DeferPush then
        res_bind (or_panic (read_u8 c o')) (\<lambda>flags.
        res_bind (or_panic (read_u8 c (o' + 1))) (\<lambda>argc. Ok ((ucast flags OR push_bit 8 (ucast argc), 0), None)))
      else if width = 0 then Ok ((0, 0), None)
      else if width = 1 then res_bind (or_panic (read_u8 c o')) (\<lambda>a. Ok ((ucast a, 0), None))
      else if width = 2 then res_bind (or_panic (read_u16 c o')) (\<lambda>a. Ok ((ucast a, 0), None))
      else Err ())"

section \<open>The first pass\<close>

record walk =
  wk_records :: "decoded_instr list"
  wk_index_of :: "u32 \<rightharpoonup> u32"
  wk_fixups :: "(nat \<times> int) list"

definition walk_push :: "op \<Rightarrow> nat \<Rightarrow> operands \<Rightarrow> walk \<Rightarrow> walk" where
  "walk_push op ip ops w =
     (let rec_idx = length (wk_records w) in
      w\<lparr>wk_index_of := (wk_index_of w)(of_nat ip \<mapsto> of_nat rec_idx),
        wk_fixups := wk_fixups w @ (case snd ops of Some target \<Rightarrow> [(rec_idx, target)] | None \<Rightarrow> []),
        wk_records := wk_records w @ [\<lparr>di_op = DBase op, di_a = fst (fst ops), di_b = snd (fst ops), di_off = of_nat ip\<rparr>]\<rparr>)"

function decode_walk :: "chunk \<Rightarrow> nat \<Rightarrow> walk \<Rightarrow> (walk, unit) result" where
  "decode_walk c ip w =
     (if ip < length (c_code c) then
        case from_u8 (c_code c ! ip) of
          None \<Rightarrow> Err ()
        | Some op \<Rightarrow>
            if ip + 1 + operand_width op > length (c_code c) then Err ()
            else res_bind (decode_operands c op ip (operand_width op))
              (\<lambda>ops. decode_walk c (ip + 1 + operand_width op) (walk_push op ip ops w))
      else Ok w)"
  by pat_completeness auto
termination
  by (relation "measure (\<lambda>(c, ip, _). length (c_code c) - ip)") auto

declare decode_walk.simps [simp del]

section \<open>The second pass\<close>

definition set_target :: "u32 \<Rightarrow> decoded_instr \<Rightarrow> decoded_instr" where
  "set_target target_rec r =
     (if di_op r = DBase Op_JumpIfArgSupplied then r\<lparr>di_b := target_rec\<rparr> else r\<lparr>di_a := target_rec\<rparr>)"

fun resolve_jumps :: "(u32 \<rightharpoonup> u32) \<Rightarrow> (nat \<times> int) list \<Rightarrow> decoded_instr list \<Rightarrow> u32 set
    \<Rightarrow> (decoded_instr list \<times> u32 set, unit) result" where
  "resolve_jumps index_of [] records jump_targets = Ok (records, jump_targets)"
| "resolve_jumps index_of ((rec_idx, target_byte) # fixups) records jump_targets =
     (if target_byte < 0 \<or> target_byte > 2 ^ 32 - 1 then Err ()
      else case index_of (of_int target_byte) of
        None \<Rightarrow> Err ()
      | Some target_rec \<Rightarrow>
          res_bind (or_panic (vec_get records rec_idx)) (\<lambda>r.
            resolve_jumps index_of fixups (records[rec_idx := set_target target_rec r]) (insert target_rec jump_targets)))"

section \<open>The peephole\<close>

definition is_block_terminator_op :: "op \<Rightarrow> bool" where
  "is_block_terminator_op op \<longleftrightarrow> op \<in> {Op_Jump, Op_JumpIfFalse, Op_JumpIfTrue, Op_JumpIfNotNil, Op_Loop, Op_JumpIfArgSupplied,
     Op_Return, Op_Propagate, Op_Yield, Op_Unwrap, Op_MatchNoArm, Op_Call, Op_CallElided, Op_CallSpread, Op_CallMethod,
     Op_CallMethodSpread, Op_CallNamed, Op_CallNamedSpread, Op_Await, Op_IterNext, Op_GetIter, Op_Import, Op_Break}"

text \<open>The callers have checked that the run lies inside the records.\<close>

definition try_match :: "decoded_instr list \<Rightarrow> nat \<Rightarrow> fused_form \<Rightarrow> u32 set \<Rightarrow> bool" where
  "try_match records start form jump_targets \<longleftrightarrow>
     list_all (\<lambda>k. di_op (records ! (start + k)) = DBase (ff_seq form ! k)
       \<and> \<not> (0 < k \<and> of_nat (start + k) \<in> jump_targets)
       \<and> \<not> (k + 1 < length (ff_seq form) \<and> is_block_terminator_op (ff_seq form ! k))) [0..<length (ff_seq form)]"

definition make_fused :: "decoded_instr list \<Rightarrow> fused_kind \<Rightarrow> decoded_instr" where
  "make_fused run kind =
     (let lo = di_a (run ! 0) AND 0xFFFF; hi = (if 2 \<le> length run then di_a (run ! 1) AND 0xFFFF else 0) in
      \<lparr>di_op = DFused kind, di_a = lo OR push_bit 16 hi, di_b = 0, di_off = di_off (run ! 0)\<rparr>)"

definition fused_at :: "decoded_instr list \<Rightarrow> u32 set \<Rightarrow> nat \<Rightarrow> fused_form option" where
  "fused_at records jump_targets i =
     find (\<lambda>form. i + length (ff_seq form) \<le> length records \<and> try_match records i form jump_targets) FUSION_CANDIDATES"

lemma candidates_nonempty: "form \<in> set FUSION_CANDIDATES \<Longrightarrow> ff_seq form = components (ff_kind form) \<and> 2 \<le> length (ff_seq form)"
  by (auto simp: FUSION_CANDIDATES_def)

lemma fused_at_Some:
  "fused_at records jt i = Some form \<Longrightarrow> form \<in> set FUSION_CANDIDATES
    \<and> i + length (ff_seq form) \<le> length records \<and> try_match records i form jt"
  by (auto simp: fused_at_def find_Some_iff in_set_conv_nth)

function fuse_from :: "decoded_instr list \<Rightarrow> u32 set \<Rightarrow> nat \<Rightarrow> decoded_instr list" where
  "fuse_from records jump_targets i =
     (if i < length records then
        case fused_at records jump_targets i of
          Some form \<Rightarrow> make_fused (take (length (ff_seq form)) (drop i records)) (ff_kind form)
            # fuse_from records jump_targets (i + length (ff_seq form))
        | None \<Rightarrow> records ! i # fuse_from records jump_targets (i + 1)
      else [])"
  by pat_completeness auto
termination
  by (relation "measure (\<lambda>(records, _, i). length records - i)")
    (auto dest!: fused_at_Some candidates_nonempty)

declare fuse_from.simps [simp del]

definition fuse_records :: "decoded_instr list \<Rightarrow> u32 set \<Rightarrow> decoded_instr list" where
  "fuse_records records jump_targets = fuse_from records jump_targets 0"

section \<open>The stream of a chunk\<close>

definition entry_index_of :: "decoded_instr list \<Rightarrow> (u32 \<times> u32) list" where
  "entry_index_of records = map (\<lambda>(i, r). (di_off r, of_nat i)) (enumerate 0 records)"

definition decode_chunk :: "chunk \<Rightarrow> bool \<Rightarrow> (decoded_chunk, unit) result" where
  "decode_chunk c fuse =
     res_bind (decode_walk c 0 \<lparr>wk_records = [], wk_index_of = Map.empty, wk_fixups = []\<rparr>) (\<lambda>w.
     res_bind (resolve_jumps (wk_index_of w) (wk_fixups w) (wk_records w) {}) (\<lambda>(records, jump_targets).
     let records = (if fuse then fuse_records records jump_targets else records) in
     Ok \<lparr>dc_records = records, dc_entry_index = entry_index_of records, dc_own_epoch = c_patch_epoch c, dc_deps = []\<rparr>))"

text \<open>\<open>binary_search_by_key\<close> on keys that increase strictly: the entry at the partition point, if it has the key.\<close>

definition byte_to_record :: "decoded_chunk \<Rightarrow> u32 \<Rightarrow> u32 option" where
  "byte_to_record d off =
     (let i = partition_point (\<lambda>(byte_off, _). byte_off < off) (dc_entry_index d) in
      case vec_get (dc_entry_index d) i of
        Some (byte_off, rec_idx) \<Rightarrow> if byte_off = off then Some rec_idx else None
      | None \<Rightarrow> None)"

end
