(* ===== verification/Lane.thy ===== *)
theory Lane
  imports Decode ValueVm
begin

text \<open>
  The fast lanes of the dispatch loop (\<open>src/src/vm/run.rs\<close>).  \<open>run_loop\<close> first lets a plain, synchronous
  loop (\<open>sync_burst\<close>) execute instructions until it meets one outside its subset, then executes that one
  itself and starts over.  A burst takes its instructions from one of two sources (the trait \<open>InstrSource\<close>):
  the bytes, or the records of a decoded stream, where one record may stand for several fused instructions.

  The arms of \<open>sync_burst\<close> are those of \<open>run_loop\<close>, so both dispatch through \<open>exec_arm\<close>.  The three nested
  loops are one step function over the point the control is at.  As in \<open>ValueVm\<close> there is one frame and no
  deferred call; a member read leaves the fragment.
\<close>

section \<open>Instruction sources\<close>

record fetched =
  fe_op :: op
  fe_fault_ip :: nat
  fe_operand_at :: nat
  fe_fused :: "(fused_kind \<times> u32) option"

text \<open>A source hands over an instruction and its new cursor, gives up, or panics.\<close>

datatype 's fetch = Fetched fetched 's | NoFetch | FetchPanic

definition byte_fetch :: "chunk \<Rightarrow> 'd vm \<Rightarrow> unit \<Rightarrow> unit fetch" where
  "byte_fetch F vm src =
     (case Option.bind (vec_get (c_code F) (vm_ip vm)) from_u8 of
        None \<Rightarrow> FetchPanic
      | Some op \<Rightarrow> Fetched \<lparr>fe_op = op, fe_fault_ip = vm_ip vm, fe_operand_at = vm_ip vm + 1, fe_fused = None\<rparr> src)"

definition byte_advance :: "unit \<Rightarrow> unit" where
  "byte_advance src = src"

record record_source =
  rc_d :: decoded_chunk
  rc_idx :: u32

definition at_entry :: "decoded_chunk \<Rightarrow> nat \<Rightarrow> record_source option" where
  "at_entry d ip = map_option (\<lambda>idx. \<lparr>rc_d = d, rc_idx = idx\<rparr>) (byte_to_record d (of_nat ip))"

definition resync :: "nat \<Rightarrow> record_source \<Rightarrow> record_source option" where
  "resync ip src = map_option (\<lambda>idx. src\<lparr>rc_idx := idx\<rparr>) (byte_to_record (rc_d src) (of_nat ip))"

definition need_resync :: "nat \<Rightarrow> record_source \<Rightarrow> bool" where
  "need_resync ip src \<longleftrightarrow> (case vec_get (dc_records (rc_d src)) (unat (rc_idx src)) of
      None \<Rightarrow> True | Some r \<Rightarrow> di_off r \<noteq> of_nat ip)"

definition record_fetched :: "decoded_instr \<Rightarrow> fetched" where
  "record_fetched r =
     (let (op, fused) = (case di_op r of DBase op \<Rightarrow> (op, None) | DFused kind \<Rightarrow> (components kind ! 0, Some (kind, di_a r))) in
      \<lparr>fe_op = op, fe_fault_ip = unat (di_off r), fe_operand_at = unat (di_off r) + 1, fe_fused = fused\<rparr>)"

definition record_fetch :: "'d vm \<Rightarrow> record_source \<Rightarrow> record_source fetch" where
  "record_fetch vm src =
     (case (if need_resync (vm_ip vm) src then resync (vm_ip vm) src else Some src) of
        None \<Rightarrow> NoFetch
      | Some src' \<Rightarrow>
          (case vec_get (dc_records (rc_d src')) (unat (rc_idx src')) of
             None \<Rightarrow> FetchPanic
           | Some r \<Rightarrow> Fetched (record_fetched r) src'))"

definition record_advance :: "record_source \<Rightarrow> record_source" where
  "record_advance src = src\<lparr>rc_idx := rc_idx src + 1\<rparr>"

section \<open>Fused instructions\<close>

definition with_local :: "nat \<Rightarrow> 'd vm \<Rightarrow> ('d rval \<Rightarrow> 'd vm_out) \<Rightarrow> 'd vm_out" where
  "with_local slot vm k = (case vec_get (vm_locals vm) slot of Some v \<Rightarrow> k v | None \<Rightarrow> VFault)"

definition with_const :: "chunk \<Rightarrow> nat \<Rightarrow> ('d rval \<Rightarrow> 'd vm_out) \<Rightarrow> 'd vm_out" where
  "with_const F idx k =
     (case vec_get (c_consts F) idx of
        None \<Rightarrow> VFault
      | Some c \<Rightarrow> (case const_value c of Some v \<Rightarrow> k v | None \<Rightarrow> VOutside))"

definition exec_fused :: "chunk \<Rightarrow> nat \<Rightarrow> fused_kind \<Rightarrow> u32 \<Rightarrow> 'd vm \<Rightarrow> 'd vm_out" where
  "exec_fused F head_off kind packed vm =
     (let lo = unat (packed AND 0xFFFF); hi = unat (drop_bit 16 packed AND 0xFFFF);
          comps = components kind;
          comp1_off = head_off + 1 + operand_width (comps ! 0);
          pair = (\<lambda>v1 v2. VNext ((push v2 (push v1 vm))\<lparr>vm_ip := comp1_off + 1 + operand_width (comps ! 1)\<rparr>)) in
      case kind of
        GetLocalGetProp \<Rightarrow> with_local lo vm (\<lambda>lv. VOutside)
      | GetLocalGetLocal \<Rightarrow> with_local lo vm (\<lambda>v1. with_local hi vm (\<lambda>v2. pair v1 v2))
      | GetLocalConst \<Rightarrow> with_local lo vm (\<lambda>v1. with_const F hi (\<lambda>v2. pair v1 v2))
      | GetPropAdd \<Rightarrow> VOutside
      | ConstGetLocal \<Rightarrow> with_const F lo (\<lambda>v1. with_local hi vm (\<lambda>v2. pair v1 v2))
      | GetLocalGetPropAdd \<Rightarrow> with_local lo vm (\<lambda>lv. VOutside))"

section \<open>One iteration of a burst\<close>

definition sync_lane_op :: "op \<Rightarrow> bool" where
  "sync_lane_op op \<longleftrightarrow> op \<in>
     {Op_Const, Op_Nil, Op_True, Op_False, Op_Pop, Op_Dup, Op_Swap, Op_Rot3, Op_Template, Op_Add, Op_Sub,
      Op_Mul, Op_Div, Op_Mod, Op_Pow, Op_Lt, Op_Le, Op_Gt, Op_Ge, Op_Eq, Op_Ne, Op_InstanceOf,
      Op_InstanceOfType, Op_BitAnd, Op_BitOr, Op_BitXor, Op_Shl, Op_Shr, Op_WrapAdd, Op_WrapSub, Op_WrapMul,
      Op_Range, Op_Neg, Op_Not, Op_BitNot, Op_RangeInclusive, Op_RangeStepValue, Op_RangeResolveStep,
      Op_RangeHasNext, Op_CheckNumbers, Op_GetLocal, Op_SetLocal, Op_GetGlobal, Op_DefineGlobal, Op_SetGlobal,
      Op_ImmutableError, Op_Jump, Op_Loop, Op_JumpIfFalse, Op_JumpIfTrue, Op_JumpIfNotNil, Op_Return,
      Op_Propagate, Op_Unwrap, Op_Yield, Op_DeferPush, Op_DeferPushMethod, Op_GetIndex, Op_SetIndex, Op_GetProp,
      Op_GetPropOpt, Op_SetProp, Op_GetSuper, Op_IterSnapshot, Op_ArrayLen, Op_NewArray, Op_NewObject,
      Op_NewMap, Op_MapEntry, Op_Spread, Op_SpreadArgs, Op_AppendArray, Op_AppendObject, Op_SpreadObject,
      Op_AppendNamedArg, Op_AppendPosArg, Op_AppendSpreadArg, Op_CheckArrayDestructure,
      Op_CheckObjectDestructure, Op_ArrayElem, Op_ObjectKey, Op_ArrayRest, Op_ObjectRest, Op_MatchArray,
      Op_MatchObject, Op_MatchHasKey, Op_MatchVariant, Op_MatchVariantArity, Op_MatchVariantHasField,
      Op_VariantElem, Op_VariantField, Op_MatchRange, Op_MatchNoArm, Op_GetLocalCell, Op_SetLocalCell,
      Op_FreshCell, Op_GetUpvalue, Op_SetUpvalue, Op_CheckParam, Op_CheckLocal, Op_JumpIfArgSupplied,
      Op_Closure, Op_Call, Op_CallElided, Op_CallSpread, Op_Await}"

text \<open>The exits of a burst, and going round the loop.\<close>

datatype ('d, 's) burst = BNext "'d vm" 's | BOut "'d vm_out" | BNeedsAsync | BFellBack

definition burst_step ::
  "('d vm \<Rightarrow> 's \<Rightarrow> 's fetch) \<Rightarrow> ('s \<Rightarrow> 's) \<Rightarrow> 'd engine \<Rightarrow> chunk \<Rightarrow> 'd vm \<Rightarrow> 's \<Rightarrow> ('d, 's) burst" where
  "burst_step fetch adv en F vm src =
     (case fetch vm src of
        NoFetch \<Rightarrow> BFellBack
      | FetchPanic \<Rightarrow> BOut VFault
      | Fetched f src1 \<Rightarrow>
          if \<not> sync_lane_op (fe_op f) then BNeedsAsync
          else
            let vm1 = vm\<lparr>vm_ip := fe_operand_at f + operand_width (fe_op f)\<rparr>;
                out = (case fe_fused f of
                  Some (kind, packed) \<Rightarrow> exec_fused F (fe_fault_ip f) kind packed vm1
                | None \<Rightarrow> exec_arm (fe_op f) en F (fe_fault_ip f) (fe_operand_at f) vm1) in
            case out of VNext vm2 \<Rightarrow> BNext vm2 (adv src1) | _ \<Rightarrow> BOut out)"

section \<open>Choosing a source\<close>

text \<open>The switches of the VM, and what a chunk keeps about its stream.\<close>

record lane_cfg =
  ln_sync_lane :: bool
  ln_decode :: bool
  ln_decode_threshold :: u16

record decode_slot =
  ds_decoded :: "decoded_chunk option"
  ds_warmth :: u16

definition saturating_inc :: "u16 \<Rightarrow> u16" where
  "saturating_inc w = (if w = - 1 then - 1 else w + 1)"

text \<open>A stream that is no longer valid is dropped.\<close>

definition filter_valid :: "chunk \<Rightarrow> decoded_chunk option \<Rightarrow> decoded_chunk option" where
  "filter_valid F d = (case d of Some d \<Rightarrow> if is_valid d F then Some d else None | None \<Rightarrow> None)"

definition select_record_source ::
  "lane_cfg \<Rightarrow> chunk \<Rightarrow> decode_slot \<Rightarrow> nat \<Rightarrow> (record_source option \<times> decode_slot, unit) result" where
  "select_record_source cfg F slot ip =
     (case filter_valid F (ds_decoded slot) of
        Some d \<Rightarrow> Ok (at_entry d ip, slot)
      | None \<Rightarrow>
          let warmth = saturating_inc (ds_warmth slot); slot1 = \<lparr>ds_decoded = None, ds_warmth = warmth\<rparr> in
          if warmth < ln_decode_threshold cfg then Ok (None, slot1)
          else (case decode_chunk F True of
              Ok d \<Rightarrow> Ok (at_entry d ip, slot1\<lparr>ds_decoded := Some d\<rparr>)
            | Err _ \<Rightarrow> Ok (None, slot1\<lparr>ds_warmth := ln_decode_threshold cfg\<rparr>)
            | Panic \<Rightarrow> Panic))"

section \<open>The loops\<close>

datatype point = AtTop | OnRecords record_source | OnBytes | AtAsync

record 'd lane =
  la_vm :: "'d vm"
  la_point :: point
  la_slot :: decode_slot

datatype 'd lane_out = LNext "'d lane" | LOut "'d vm_out"

definition after_burst :: "('s \<Rightarrow> point) \<Rightarrow> 'd lane \<Rightarrow> ('d, 's) burst \<Rightarrow> 'd lane_out" where
  "after_burst on la b =
     (case b of
        BNext vm src \<Rightarrow> LNext (la\<lparr>la_vm := vm, la_point := on src\<rparr>)
      | BOut out \<Rightarrow> LOut out
      | BNeedsAsync \<Rightarrow> LNext (la\<lparr>la_point := AtAsync\<rparr>)
      | BFellBack \<Rightarrow> LNext (la\<lparr>la_point := OnBytes\<rparr>))"

definition lane_step :: "lane_cfg \<Rightarrow> 'd engine \<Rightarrow> chunk \<Rightarrow> 'd lane \<Rightarrow> 'd lane_out" where
  "lane_step cfg en F la =
     (case la_point la of
        AtTop \<Rightarrow>
          if \<not> ln_sync_lane cfg then LNext (la\<lparr>la_point := AtAsync\<rparr>)
          else if \<not> ln_decode cfg then LNext (la\<lparr>la_point := OnBytes\<rparr>)
          else (case select_record_source cfg F (la_slot la) (vm_ip (la_vm la)) of
              Ok (src, slot) \<Rightarrow> LNext (la\<lparr>la_slot := slot, la_point := (case src of Some s \<Rightarrow> OnRecords s | None \<Rightarrow> OnBytes)\<rparr>)
            | _ \<Rightarrow> LOut VFault)
      | OnRecords src \<Rightarrow> after_burst OnRecords la (burst_step record_fetch record_advance en F (la_vm la) src)
      | OnBytes \<Rightarrow> after_burst (\<lambda>_. OnBytes) la (burst_step (byte_fetch F) byte_advance en F (la_vm la) ())
      | AtAsync \<Rightarrow>
          (case vm_step en F (la_vm la) of
             VNext vm \<Rightarrow> LNext (la\<lparr>la_vm := vm, la_point := AtTop\<rparr>)
           | out \<Rightarrow> LOut out))"

fun lane_run :: "nat \<Rightarrow> lane_cfg \<Rightarrow> 'd engine \<Rightarrow> chunk \<Rightarrow> 'd lane \<Rightarrow> 'd lane_out" where
  "lane_run 0 cfg en F la = LNext la"
| "lane_run (Suc k) cfg en F la = (case lane_step cfg en F la of LNext la' \<Rightarrow> lane_run k cfg en F la' | out \<Rightarrow> out)"

text \<open>A fresh fiber at the top of the loop.\<close>

definition lane_start :: "decode_slot \<Rightarrow> 'd vm \<Rightarrow> 'd lane" where
  "lane_start slot vm = \<lparr>la_vm = vm, la_point = AtTop, la_slot = slot\<rparr>"

end
