(* ===== verification/DecodeProps.thy ===== *)
theory DecodeProps
  imports Decode
begin

text \<open>
  A decoded stream says what the bytes say.  \<open>tiles\<close> reads a list of records against the bytes: every
  record stands at the offset where the one before it ends, names the instructions that are there and
  carries their operands.  Each pass of the decoder keeps this, and an index found by \<open>byte_to_record\<close> is
  that of the record at the offset.
\<close>

section \<open>Records against bytes\<close>

definition op_at :: "chunk \<Rightarrow> nat \<Rightarrow> op option" where
  "op_at F off = Option.bind (vec_get (c_code F) off) from_u8"

fun spelled :: "chunk \<Rightarrow> nat \<Rightarrow> op list \<Rightarrow> bool" where
  "spelled F off [] \<longleftrightarrow> True"
| "spelled F off (op # ops) \<longleftrightarrow> op_at F off = Some op \<and> spelled F (off + 1 + operand_width op) ops"

fun ops_of :: "dop \<Rightarrow> op list" where
  "ops_of (DBase op) = [op]"
| "ops_of (DFused kind) = components kind"

fun width :: "op list \<Rightarrow> nat" where
  "width [] = 0"
| "width (op # ops) = 1 + operand_width op + width ops"

text \<open>The operands that a fused instruction takes from its record.\<close>

definition operand_ops :: "op set" where
  "operand_ops = {Op_GetLocal, Op_Const, Op_GetProp}"

definition packs :: "chunk \<Rightarrow> nat \<Rightarrow> dop \<Rightarrow> u32 \<Rightarrow> bool" where
  "packs F off d a \<longleftrightarrow> (case d of
      DBase op \<Rightarrow> op \<in> operand_ops \<longrightarrow> (\<exists>u. read_u16 F (off + 1) = Some u \<and> a = ucast u)
    | DFused kind \<Rightarrow>
        (\<exists>u. read_u16 F (off + 1) = Some u \<and> unat (a AND 0xFFFF) = unat u)
        \<and> (components kind ! 1 \<in> operand_ops \<longrightarrow>
             (\<exists>u. read_u16 F (off + 4) = Some u \<and> unat (drop_bit 16 a AND 0xFFFF) = unat u)))"

definition record_ok :: "chunk \<Rightarrow> nat \<Rightarrow> decoded_instr \<Rightarrow> bool" where
  "record_ok F off r \<longleftrightarrow> unat (di_off r) = off \<and> spelled F off (ops_of (di_op r)) \<and> packs F off (di_op r) (di_a r)"

fun tiles :: "chunk \<Rightarrow> nat \<Rightarrow> decoded_instr list \<Rightarrow> bool" where
  "tiles F off [] \<longleftrightarrow> off = length (c_code F)"
| "tiles F off (r # rs) \<longleftrightarrow> record_ok F off r \<and> tiles F (off + width (ops_of (di_op r))) rs"

lemma tiles_nth: "tiles F off rs \<Longrightarrow> i < length rs \<Longrightarrow> \<exists>o'. record_ok F o' (rs ! i)"
  by (induction rs arbitrary: off i) (auto simp: nth_Cons split: nat.splits)

lemma op_at_bound: "op_at F off = Some op \<Longrightarrow> off < length (c_code F)"
  by (auto simp: op_at_def vec_get_def split: if_splits)

section \<open>The first pass\<close>

lemma operands_shape:
  "decode_operands c op ip w = Ok ops \<Longrightarrow> (snd ops \<noteq> None \<longrightarrow> op \<notin> operand_ops)
    \<and> (op \<in> operand_ops \<longrightarrow> w = 2 \<longrightarrow> (\<exists>u. read_u16 c (ip + 1) = Some u \<and> fst (fst ops) = ucast u))"
  by (auto simp: decode_operands_def Let_def operand_ops_def is_jump16_def split: if_splits)

lemma operand_ops_width: "op \<in> operand_ops \<Longrightarrow> operand_width op = 2"
  by (auto simp: operand_ops_def)

text \<open>A fixup belongs to a record that no fused instruction takes operands from.\<close>

definition fixups_ok :: "walk \<Rightarrow> bool" where
  "fixups_ok w \<longleftrightarrow> (\<forall>(i, t) \<in> set (wk_fixups w). i < length (wk_records w)
     \<and> (\<exists>op. di_op (wk_records w ! i) = DBase op \<and> op \<notin> operand_ops))"

lemma fixups_ok_push:
  assumes "fixups_ok w" and "decode_operands c op ip (operand_width op) = Ok ops"
  shows "fixups_ok (walk_push op ip ops w)"
  using assms operands_shape [OF assms(2)]
  by (auto simp: fixups_ok_def walk_push_def Let_def nth_append split: option.splits)

lemma walk_step:
  assumes "ip < length (c_code c)" and "decode_walk c ip w = Ok w'"
  obtains op ops where "op_at c ip = Some op" and "ip + 1 + operand_width op \<le> length (c_code c)"
    and "decode_operands c op ip (operand_width op) = Ok ops"
    and "decode_walk c (ip + 1 + operand_width op) (walk_push op ip ops w) = Ok w'"
  using assms by (subst (asm) decode_walk.simps) (auto simp: op_at_def vec_get_def split: option.splits if_splits)

lemma walk_record_ok:
  assumes "op_at c ip = Some op" and "decode_operands c op ip (operand_width op) = Ok ops" and "length (c_code c) < 2 ^ 31"
  shows "record_ok c ip \<lparr>di_op = DBase op, di_a = fst (fst ops), di_b = snd (fst ops), di_off = of_nat ip\<rparr>"
  using assms op_at_bound [OF assms(1)] operands_shape [OF assms(2)] operand_ops_width [of op]
  by (auto simp: record_ok_def packs_def unat_of_nat)

lemma walk_tiles:
  assumes "decode_walk c ip w = Ok w'" and "ip \<le> length (c_code c)" and "length (c_code c) < 2 ^ 31" and "fixups_ok w"
  shows "(\<exists>rs. wk_records w' = wk_records w @ rs \<and> tiles c ip rs) \<and> fixups_ok w'"
  using assms
proof (induction "length (c_code c) - ip" arbitrary: ip w rule: less_induct)
  case less
  show ?case
  proof (cases "ip < length (c_code c)")
    case True
    obtain op ops where op: "op_at c ip = Some op" "ip + 1 + operand_width op \<le> length (c_code c)"
      and ops: "decode_operands c op ip (operand_width op) = Ok ops"
      and walk: "decode_walk c (ip + 1 + operand_width op) (walk_push op ip ops w) = Ok w'"
      using walk_step [OF True less.prems(1)] by blast
    have "(\<exists>rs. wk_records w' = wk_records (walk_push op ip ops w) @ rs \<and> tiles c (ip + 1 + operand_width op) rs) \<and> fixups_ok w'"
      by (rule less.hyps [OF _ walk]) (use True op(2) less.prems fixups_ok_push ops in auto)
    with walk_record_ok [OF op(1) ops less.prems(3)] show ?thesis by (auto simp: walk_push_def Let_def)
  qed (use less.prems in \<open>subst (asm) decode_walk.simps, auto\<close>)
qed

section \<open>The second pass\<close>

lemma set_target_ok:
  "record_ok F off r \<Longrightarrow> di_op r = DBase op \<Longrightarrow> op \<notin> operand_ops \<Longrightarrow> record_ok F off (set_target t r)"
  by (auto simp: record_ok_def set_target_def packs_def)

lemma set_target_op [simp]: "di_op (set_target t r) = di_op r"
  by (simp add: set_target_def)

lemma tiles_update:
  assumes "tiles F off rs" and "i < length rs" and "di_op (rs ! i) = DBase op" and "op \<notin> operand_ops"
  shows "tiles F off (rs[i := set_target t (rs ! i)])"
  using assms
proof (induction rs arbitrary: off i)
  case (Cons r rs)
  then show ?case by (cases i) (auto simp: set_target_ok)
qed simp

lemma resolve_tiles:
  assumes "resolve_jumps ix fixups rs jt = Ok (rs', jt')" and "tiles F 0 rs"
    and "\<forall>(i, t) \<in> set fixups. i < length rs \<and> (\<exists>op. di_op (rs ! i) = DBase op \<and> op \<notin> operand_ops)"
  shows "tiles F 0 rs' \<and> length rs' = length rs"
  using assms
proof (induction ix fixups rs jt rule: resolve_jumps.induct)
  case (2 ix i t fixups rs jt)
  from 2(2) obtain tr where tr: "\<not> (t < 0 \<or> t > 2 ^ 32 - 1)" "ix (of_int t) = Some tr" "i < length rs"
    "resolve_jumps ix fixups (rs[i := set_target tr (rs ! i)]) (insert tr jt) = Ok (rs', jt')"
    by (auto split: if_splits option.splits)
  have "tiles F 0 rs' \<and> length rs' = length (rs[i := set_target tr (rs ! i)])"
  proof (rule 2(1) [OF tr(1,2,4)])
    show "tiles F 0 (rs[i := set_target tr (rs ! i)])" using 2(3,4) tr(3) by (auto intro: tiles_update)
  qed (use 2(4) tr(3) in \<open>auto simp: nth_list_update\<close>)
  then show ?case by simp
qed simp

section \<open>The peephole\<close>

lemma and_ffff: "(w :: u32) AND 0xFFFF = take_bit 16 w"
  by (simp add: take_bit_eq_mask mask_eq_exp_minus_1)

lemma unat_half: "unat (ucast (u :: u16) :: u32) = unat u"
proof -
  have "unat u < 2 ^ LENGTH(16)" by (rule unsigned_less)
  then show ?thesis by (simp add: unsigned_ucast_eq take_bit_nat_eq_self_iff)
qed

lemma add_numeral_Suc: "n + 3 = Suc (Suc (Suc n))" "n + 4 = Suc (Suc (Suc (Suc n)))"
  by simp_all

lemma pack_low: "unat ((ucast (u :: u16) AND 0xFFFF OR push_bit 16 v) AND (0xFFFF :: u32)) = unat u"
proof -
  have "take_bit 16 (take_bit 16 (ucast u) OR push_bit 16 v) = (ucast u :: u32)"
    by (rule bit_word_eqI) (auto simp: bit_simps dest: bit_imp_le_length)
  then show ?thesis by (simp add: and_ffff unat_half)
qed

lemma pack_high: "unat (drop_bit 16 (w AND 0xFFFF OR push_bit 16 (ucast (u :: u16) AND 0xFFFF)) AND (0xFFFF :: u32)) = unat u"
proof -
  have "take_bit 16 (drop_bit 16 (take_bit 16 w OR push_bit 16 (take_bit 16 (ucast u)))) = (ucast u :: u32)"
    by (rule bit_word_eqI) (auto simp: bit_simps dest: bit_imp_le_length)
  then show ?thesis by (simp add: and_ffff unat_half)
qed

lemma make_fused_fields [simp]: "di_op (make_fused run k) = DFused k" "di_off (make_fused run k) = di_off (run ! 0)"
  by (simp_all add: make_fused_def Let_def)

lemma make_fused_low: "di_a (run ! 0) = ucast (u :: u16) \<Longrightarrow> unat (di_a (make_fused run k) AND 0xFFFF) = unat u"
  unfolding make_fused_def Let_def by (simp only: decoded_instr.simps pack_low)

lemma make_fused_high:
  "di_a (run ! 1) = ucast (u :: u16) \<Longrightarrow> 2 \<le> length run \<Longrightarrow> unat (drop_bit 16 (di_a (make_fused run k)) AND 0xFFFF) = unat u"
  unfolding make_fused_def Let_def by (simp only: decoded_instr.simps if_True pack_high)

lemma match_pair:
  assumes "try_match rs i form jt" and "ff_seq form = [a, b]" and "i + 2 \<le> length rs"
  obtains rest where "drop i rs = rs ! i # rs ! (i + 1) # rest" and "rest = drop (i + 2) rs"
    and "di_op (rs ! i) = DBase a" and "di_op (rs ! (i + 1)) = DBase b"
  using assms by (auto simp: try_match_def upt_rec Cons_nth_drop_Suc)

lemma match_triple:
  assumes "try_match rs i form jt" and "ff_seq form = [a, b, c]" and "i + 3 \<le> length rs"
  obtains rest where "drop i rs = rs ! i # rs ! (i + 1) # rs ! (i + 2) # rest" and "rest = drop (i + 3) rs"
    and "di_op (rs ! i) = DBase a" and "di_op (rs ! (i + 1)) = DBase b" and "di_op (rs ! (i + 2)) = DBase c"
  using assms by (auto simp: try_match_def upt_rec Cons_nth_drop_Suc eval_nat_numeral)

text \<open>A run that matches a candidate: the fused record stands for the records it replaces.\<close>

lemma fuse_run:
  assumes "fused_at rs jt i = Some form" and "tiles F off (drop i rs)"
  shows "record_ok F off (make_fused (take (length (ff_seq form)) (drop i rs)) (ff_kind form))
    \<and> tiles F (off + width (components (ff_kind form))) (drop (i + length (ff_seq form)) rs)"
proof -
  from fused_at_Some [OF assms(1)] have m: "form \<in> set FUSION_CANDIDATES" "i + length (ff_seq form) \<le> length rs"
    "try_match rs i form jt" by auto
  from m(1) consider a b where "ff_seq form = [a, b]" "a \<in> operand_ops" "components (ff_kind form) = [a, b]"
    | a b where "ff_seq form = [a, b, Op_Add]" "a \<in> operand_ops" "components (ff_kind form) = [a, b, Op_Add]"
    by (auto simp: FUSION_CANDIDATES_def operand_ops_def)
  then show ?thesis
  proof cases
    case (1 a b)
    obtain rest where d: "drop i rs = rs ! i # rs ! (i + 1) # rest" "rest = drop (i + 2) rs"
      "di_op (rs ! i) = DBase a" "di_op (rs ! (i + 1)) = DBase b"
      using match_pair [OF m(3) 1(1)] m(2) 1(1) by auto
    show ?thesis using assms(2) d 1 operand_ops_width [OF 1(2)]
      by (auto simp: record_ok_def packs_def make_fused_low make_fused_high add_numeral_Suc)
  next
    case (2 a b)
    obtain rest where d: "drop i rs = rs ! i # rs ! (i + 1) # rs ! (i + 2) # rest" "rest = drop (i + 3) rs"
      "di_op (rs ! i) = DBase a" "di_op (rs ! (i + 1)) = DBase b" "di_op (rs ! (i + 2)) = DBase Op_Add"
      using match_triple [OF m(3) 2(1)] m(2) 2(1) by auto
    show ?thesis using assms(2) d 2 operand_ops_width [OF 2(2)]
      by (auto simp: record_ok_def packs_def make_fused_low make_fused_high add_numeral_Suc)
  qed
qed

lemma fuse_tiles: "tiles F off (drop i rs) \<Longrightarrow> tiles F off (fuse_from rs jt i)"
proof (induction rs jt i arbitrary: off rule: fuse_from.induct)
  case (1 rs jt i)
  show ?case
  proof (cases "i < length rs")
    case True
    show ?thesis
    proof (cases "fused_at rs jt i")
      case None
      have "drop i rs = rs ! i # drop (i + 1) rs" using True by (simp add: Cons_nth_drop_Suc)
      with 1(3) 1(1) [OF True None] show ?thesis by (subst fuse_from.simps) (simp add: True None)
    next
      case (Some form)
      note run = fuse_run [OF Some 1(3)]
      have "ff_seq form = components (ff_kind form)" using fused_at_Some [OF Some] candidates_nonempty by blast
      then show ?thesis using run 1(2) [OF True Some] by (subst fuse_from.simps) (simp add: True Some)
    qed
  qed (use 1(3) in \<open>subst fuse_from.simps, simp\<close>)
qed

section \<open>The stream\<close>

lemma decode_tiles:
  assumes "decode_chunk c fuse = Ok d" and "length (c_code c) < 2 ^ 31"
  shows "tiles c 0 (dc_records d)" and "dc_entry_index d = entry_index_of (dc_records d)"
    and "dc_own_epoch d = c_patch_epoch c" and "dc_deps d = []"
proof -
  let ?w = "\<lparr>wk_records = [], wk_index_of = Map.empty, wk_fixups = []\<rparr>"
  from assms(1) obtain w rs jt where w: "decode_walk c 0 ?w = Ok w"
    and rs: "resolve_jumps (wk_index_of w) (wk_fixups w) (wk_records w) {} = Ok (rs, jt)"
    and d: "d = \<lparr>dc_records = if fuse then fuse_records rs jt else rs,
       dc_entry_index = entry_index_of (if fuse then fuse_records rs jt else rs), dc_own_epoch = c_patch_epoch c, dc_deps = []\<rparr>"
    by (auto simp: decode_chunk_def Let_def)
  have "(\<exists>rs. wk_records w = wk_records ?w @ rs \<and> tiles c 0 rs) \<and> fixups_ok w"
    by (rule walk_tiles [OF w _ assms(2)]) (simp_all add: fixups_ok_def)
  then have "tiles c 0 rs" using resolve_tiles [OF rs, of c] by (auto simp: fixups_ok_def)
  then show "tiles c 0 (dc_records d)" using fuse_tiles [of c 0 0 rs jt] by (simp add: d fuse_records_def)
  show "dc_entry_index d = entry_index_of (dc_records d)" "dc_own_epoch d = c_patch_epoch c" "dc_deps d = []"
    by (simp_all add: d)
qed

lemma tiles_length: "tiles F off rs \<Longrightarrow> off + length rs \<le> length (c_code F)"
proof (induction rs arbitrary: off)
  case (Cons r rs)
  have "ops_of (di_op r) \<noteq> []" by (cases "di_op r") (auto elim: components.elims)
  then have "1 \<le> width (ops_of (di_op r))" by (cases "ops_of (di_op r)") auto
  with Cons show ?case by fastforce
qed simp

lemma entry_index_nth: "j < length rs \<Longrightarrow> entry_index_of rs ! j = (di_off (rs ! j), of_nat j)"
  by (simp add: entry_index_of_def nth_enumerate_eq)

lemma byte_to_record_sound:
  assumes "decode_chunk c fuse = Ok d" and "length (c_code c) < 2 ^ 31" and "byte_to_record d off = Some idx"
  shows "unat idx < length (dc_records d)" and "di_off (dc_records d ! unat idx) = off"
proof -
  note t = decode_tiles [OF assms(1,2)]
  have len: "length (dc_records d) < 2 ^ 31" using tiles_length [OF t(1)] assms(2) by simp
  from assms(3) obtain j where j: "j < length (dc_entry_index d)" "dc_entry_index d ! j = (off, idx)"
    by (auto simp: byte_to_record_def Let_def vec_get_def split: if_splits option.splits prod.splits)
  then have "j < length (dc_records d)" by (simp add: t(2) entry_index_of_def)
  with j entry_index_nth [of j "dc_records d"] len
  show "unat idx < length (dc_records d)" "di_off (dc_records d ! unat idx) = off"
    by (auto simp: t(2) unat_of_nat)
qed

lemma record_at:
  assumes "decode_chunk c fuse = Ok d" and "length (c_code c) < 2 ^ 31" and "i < length (dc_records d)"
  shows "record_ok c (unat (di_off (dc_records d ! i))) (dc_records d ! i)"
  using tiles_nth [OF decode_tiles(1) [OF assms(1,2)] assms(3)] by (auto simp: record_ok_def)

end
