(* ===== verification/LaneProps.thy ===== *)
theory LaneProps
  imports Lane DecodeProps EngineAgreement
begin

text \<open>
  The fast lanes change nothing.  The locale \<open>instr_source\<close> is the contract of the trait
  \<open>InstrSource\<close>: what a source hands over is what the bytes at the instruction pointer say.  One iteration of
  a burst over any such source is then one or more steps of the plain loop.  Both sources of the code
  satisfy the contract, the records because the decoder is faithful.
\<close>

section \<open>The instruction pointer\<close>

text \<open>
  A displacement moves the pointer by less than \<open>2 ^ 15\<close>, possibly below zero; the code is shorter than
  \<open>2 ^ 31\<close> bytes, so the 32-bit offset of the pointer identifies it among the offsets of the code.
\<close>

definition ip_ok :: "nat \<Rightarrow> bool" where
  "ip_ok ip \<longleftrightarrow> ip < 2 ^ 32 \<or> 2 ^ 64 - 2 ^ 15 \<le> ip \<and> ip < 2 ^ 64"

lemma ip_ok_offset:
  assumes "ip_ok ip" and "(of_nat ip :: u32) = off" and "unat off < 2 ^ 31"
  shows "ip = unat off"
proof (cases "ip < 2 ^ 32")
  case False
  with assms(1) have big: "2 ^ 64 - 2 ^ 15 \<le> ip" "ip < 2 ^ 64" by (auto simp: ip_ok_def)
  then have "ip div 4294967296 = 4294967295" by (intro div_nat_eqI) auto
  then have "2 ^ 31 \<le> ip mod 4294967296" using div_mult_mod_eq [of ip 4294967296] big(1) by simp
  with assms(2,3) show ?thesis by (auto simp: unat_of_nat)
qed (use assms(2) in \<open>auto simp: unat_of_nat\<close>)

lemma read_i16_range: "read_i16 F pc = Some d \<Longrightarrow> - (2 ^ 15) \<le> d \<and> d < 2 ^ 15"
  by (auto simp: read_i16_def) (use sint_ge [where 'a = 16] sint_lt [where 'a = 16] in auto)

text \<open>An instruction leaves the pointer after itself or moves it by the displacement \<open>dp\<close>.\<close>

definition moves :: "int option \<Rightarrow> 'd vm \<Rightarrow> 'd vm_out \<Rightarrow> bool" where
  "moves dp vm out \<longleftrightarrow> (\<forall>vm'. out = VNext vm' \<longrightarrow> vm_ip vm' = vm_ip vm \<or> (\<exists>d. dp = Some d \<and> vm_ip vm' = vm_ip (jump_by d vm)))"

lemma moves_ok:
  assumes "moves (if b then read_i16 F pc else None) vm (VNext vm')" and "vm_ip vm < 2 ^ 31 + 8"
  shows "ip_ok (vm_ip vm')"
  using assms read_i16_range [of F pc] by (auto simp: moves_def ip_ok_def jump_by_def Let_def split: if_splits)

lemma moves_outcome: "vm_ip vm1 = vm_ip vm \<Longrightarrow> moves dp vm (push_outcome r vm1)"
  by (auto simp: moves_def push_outcome_def push_def split: option.splits result.splits outcome.splits)

lemma moves_name: "(\<And>name. moves dp vm (k name)) \<Longrightarrow> moves dp vm (with_name F pc vm' k)"
  by (auto simp: moves_def with_name_def split: option.splits val.splits)

lemma moves_jump: "moves (read_i16 F pc) vm (step_jump F pc vm)"
  by (auto simp: moves_def step_jump_def split: option.splits)

lemma moves_jump_if: "moves (read_i16 F pc) vm (step_jump_if test F pc vm)"
  by (auto simp: moves_def step_jump_if_def jump_by_def Let_def split: option.splits list.splits)

lemma moves_simple:
  "moves dp vm (step_const F pc vm)" "moves dp vm (step_push v vm)" "moves dp vm (step_pop vm)" "moves dp vm (step_dup vm)"
  "moves dp vm (step_swap vm)" "moves dp vm (step_rot3 vm)" "moves dp vm (step_get_local F pc vm)" "moves dp vm (step_set_local F pc vm)"
  "moves dp vm (step_return vm)" "moves dp vm VOutside"
  by (auto simp: moves_def step_const_def step_push_def step_pop_def step_dup_def step_swap_def step_rot3_def
    step_get_local_def step_set_local_def step_return_def push_def split: option.splits list.splits if_splits)

lemma moves_names:
  "moves dp vm (step_get_global en F fault pc vm)" "moves dp vm (step_define_global F pc vm)" "moves dp vm (step_set_global en F fault pc vm)"
  "moves dp vm (step_immutable_error F pc vm)" "moves dp vm (step_instance_of_type F pc vm)"
  unfolding step_get_global_def step_define_global_def step_set_global_def step_immutable_error_def step_instance_of_type_def
  by (rule moves_name; auto simp: moves_def push_def split: option.splits list.splits result.splits)+

lemma moves_operators:
  "moves dp vm (step_binop en fault op vm)" "moves dp vm (step_unop en uop vm)" "moves dp vm (step_range_inclusive vm)"
  "moves dp vm (step_range_step_value F pc vm)"
  by (auto simp: step_binop_def step_unop_def step_range_inclusive_def step_range_step_value_def moves_def [of _ _ VFault]
    intro: moves_outcome split: list.splits option.splits prod.splits)

lemma arm_moves: "moves (if is_jump16 op then read_i16 F pc else None) vm (exec_arm op en F fault pc vm)"
  by (cases op) (simp_all add: is_jump16_def moves_simple moves_names moves_operators moves_jump moves_jump_if)

lemma vm_step_decoded:
  "vm_step en F vm = (case op_at F (vm_ip vm) of None \<Rightarrow> VFault
    | Some op \<Rightarrow> exec_arm op en F (vm_ip vm) (vm_ip vm + 1) (vm\<lparr>vm_ip := vm_ip vm + 1 + operand_width op\<rparr>))"
  by (simp add: vm_step_def op_at_def)

lemma vm_step_moves:
  assumes "op_at F (vm_ip vm) = Some op"
  shows "moves (if is_jump16 op then read_i16 F (vm_ip vm + 1) else None) (vm\<lparr>vm_ip := vm_ip vm + 1 + operand_width op\<rparr>) (vm_step en F vm)"
  using assms arm_moves [of op F "vm_ip vm + 1" "vm\<lparr>vm_ip := vm_ip vm + 1 + operand_width op\<rparr>" en "vm_ip vm"]
  by (simp add: vm_step_decoded)

lemma vm_step_ip_ok:
  assumes "vm_step en F vm = VNext vm'" and "length (c_code F) < 2 ^ 31"
  shows "ip_ok (vm_ip vm')"
proof -
  from assms(1) obtain op where op: "op_at F (vm_ip vm) = Some op" by (auto simp: vm_step_decoded split: option.splits)
  show ?thesis
    by (rule moves_ok [OF vm_step_moves [OF op, of en, unfolded assms(1)]])
      (use op_at_bound [OF op] operand_width_le_4 [of op] assms(2) in simp)
qed

lemma vm_run_ip_ok:
  assumes "vm_run k en F vm = VNext vm'" and "length (c_code F) < 2 ^ 31" and "ip_ok (vm_ip vm)"
  shows "ip_ok (vm_ip vm')"
  using assms(1,3)
proof (induction k arbitrary: vm)
  case (Suc k)
  then show ?case using vm_step_ip_ok [OF _ assms(2)] by (auto split: vm_out.splits)
qed simp

section \<open>Fused instructions\<close>

lemma step_at:
  "op_at F (vm_ip vm) = Some op
    \<Longrightarrow> vm_step en F vm = exec_arm op en F (vm_ip vm) (vm_ip vm + 1) (vm\<lparr>vm_ip := vm_ip vm + 1 + operand_width op\<rparr>)"
  by (simp add: vm_step_decoded)

text \<open>Executing a fused instruction is executing its first two components.\<close>

lemma fused_run:
  assumes "spelled F (vm_ip vm) (components kind)" and "packs F (vm_ip vm) (DFused kind) packed"
  shows "vm_run 2 en F vm = exec_fused F (vm_ip vm) kind packed (vm\<lparr>vm_ip := x\<rparr>)"
proof -
  have two: "vm_run 2 en F vm = (case vm_step en F vm of VNext vm' \<Rightarrow> vm_step en F vm' | out \<Rightarrow> out)"
    by (auto simp: numeral_2_eq_2 split: vm_out.splits)
  show ?thesis using assms
    by (cases kind)
      (auto simp: two step_at exec_fused_def packs_def operand_ops_def with_local_def with_const_def step_get_local_def step_const_def
        push_def add_numeral_Suc Let_def vec_get_def split: option.splits if_splits)
qed

section \<open>The contract of a source\<close>

definition names :: "chunk \<Rightarrow> nat \<Rightarrow> fetched \<Rightarrow> bool" where
  "names F ip f \<longleftrightarrow> fe_fault_ip f = ip \<and> fe_operand_at f = ip + 1
     \<and> (case fe_fused f of
          None \<Rightarrow> op_at F ip = Some (fe_op f)
        | Some (kind, packed) \<Rightarrow> fe_op f = components kind ! 0 \<and> spelled F ip (components kind) \<and> packs F ip (DFused kind) packed)"

text \<open>What one iteration of a burst may do, seen from the plain loop; \<open>src_ok\<close> holds of the source it leaves.\<close>

definition burst_ok :: "'d engine \<Rightarrow> chunk \<Rightarrow> 'd vm \<Rightarrow> ('s \<Rightarrow> bool) \<Rightarrow> ('d, 's) burst \<Rightarrow> bool" where
  "burst_ok en F vm src_ok b \<longleftrightarrow> (case b of
      BNext vm' src \<Rightarrow> src_ok src \<and> (\<exists>j. vm_run (Suc j) en F vm = VNext vm')
    | BOut out \<Rightarrow> (\<forall>vm'. out \<noteq> VNext vm') \<and> (\<exists>j. vm_run j en F vm = out)
    | BNeedsAsync \<Rightarrow> True
    | BFellBack \<Rightarrow> True)"

locale instr_source =
  fixes F :: chunk
    and fetch :: "'d vm \<Rightarrow> 's \<Rightarrow> 's fetch"
    and adv :: "'s \<Rightarrow> 's"
    and src_ok :: "'s \<Rightarrow> bool"
  assumes fetch_names: "src_ok src \<Longrightarrow> ip_ok (vm_ip vm) \<Longrightarrow> fetch vm src = Fetched f src' \<Longrightarrow> names F (vm_ip vm) f"
    and fetch_keeps: "src_ok src \<Longrightarrow> fetch vm src = Fetched f src' \<Longrightarrow> src_ok (adv src')"
    and fetch_panics: "src_ok src \<Longrightarrow> fetch vm src = FetchPanic \<Longrightarrow> op_at F (vm_ip vm) = None"
begin

text \<open>The dispatch of a fetched instruction is one step of the plain loop, or two when it is fused.\<close>

lemma dispatch_run:
  assumes "src_ok src" and "ip_ok (vm_ip vm)" and "fetch vm src = Fetched f src'"
  shows "\<exists>j. vm_run (Suc j) en F vm =
    (case fe_fused f of
       Some (kind, packed) \<Rightarrow> exec_fused F (fe_fault_ip f) kind packed (vm\<lparr>vm_ip := fe_operand_at f + operand_width (fe_op f)\<rparr>)
     | None \<Rightarrow> exec_arm (fe_op f) en F (fe_fault_ip f) (fe_operand_at f) (vm\<lparr>vm_ip := fe_operand_at f + operand_width (fe_op f)\<rparr>))"
proof (cases "fe_fused f")
  case None
  with fetch_names [OF assms] have "vm_run (Suc 0) en F vm
      = exec_arm (fe_op f) en F (fe_fault_ip f) (fe_operand_at f) (vm\<lparr>vm_ip := fe_operand_at f + operand_width (fe_op f)\<rparr>)"
    by (auto simp: names_def step_at split: vm_out.splits)
  with None show ?thesis by auto
next
  case (Some kp)
  obtain kind packed where "kp = (kind, packed)" by (cases kp)
  with Some fetch_names [OF assms] fused_run [of F vm kind packed en] show ?thesis
    by (auto simp: names_def numeral_2_eq_2 intro!: exI [of _ "Suc 0"])
qed

lemma burst_sound:
  assumes "src_ok src" and "ip_ok (vm_ip vm)"
  shows "burst_ok en F vm src_ok (burst_step fetch adv en F vm src)"
proof (cases "fetch vm src")
  case (Fetched f src')
  obtain j where "vm_run (Suc j) en F vm = (case fe_fused f of
       Some (kind, packed) \<Rightarrow> exec_fused F (fe_fault_ip f) kind packed (vm\<lparr>vm_ip := fe_operand_at f + operand_width (fe_op f)\<rparr>)
     | None \<Rightarrow> exec_arm (fe_op f) en F (fe_fault_ip f) (fe_operand_at f) (vm\<lparr>vm_ip := fe_operand_at f + operand_width (fe_op f)\<rparr>))"
    (is "_ = ?out") using dispatch_run [OF assms Fetched] by blast
  with fetch_keeps [OF assms(1) Fetched] show ?thesis
    by (cases ?out) (auto simp: burst_ok_def burst_step_def Fetched Let_def intro: exI [of _ j] exI [of _ "Suc j"])
next
  case FetchPanic
  with fetch_panics [OF assms(1) FetchPanic] have "vm_run (Suc 0) en F vm = VFault" by (simp add: vm_step_decoded)
  then have "\<exists>j. vm_run j en F vm = VFault" by blast
  with FetchPanic show ?thesis by (simp add: burst_ok_def burst_step_def)
qed (simp add: burst_ok_def burst_step_def)

end

section \<open>The two sources\<close>

interpretation byte_source: instr_source F "byte_fetch F" byte_advance "\<lambda>_. True"
  for F
  by unfold_locales (auto simp: byte_fetch_def names_def op_at_def split: option.splits)

text \<open>A record source reads the stream of the chunk.\<close>

definition reads_stream :: "chunk \<Rightarrow> record_source \<Rightarrow> bool" where
  "reads_stream F src \<longleftrightarrow> length (c_code F) < 2 ^ 31 \<and> decode_chunk F True = Ok (rc_d src)"

lemma record_ok_bound: "record_ok F off r \<Longrightarrow> off < length (c_code F)"
proof (cases "di_op r")
  case (DFused kind)
  assume "record_ok F off r"
  with DFused show ?thesis by (cases kind) (auto simp: record_ok_def dest: op_at_bound)
qed (auto simp: record_ok_def dest: op_at_bound)

lemma record_names:
  assumes "record_ok F ip r" and "unat (di_off r) = ip"
  shows "names F ip (record_fetched r)"
  using assms by (cases "di_op r") (auto simp: names_def record_fetched_def record_ok_def)

lemma resync_stream: "resync ip src = Some src' \<Longrightarrow> reads_stream F src \<Longrightarrow> reads_stream F src'
    \<and> unat (rc_idx src') < length (dc_records (rc_d src')) \<and> di_off (dc_records (rc_d src') ! unat (rc_idx src')) = of_nat ip"
  using byte_to_record_sound by (auto simp: resync_def reads_stream_def)

lemma record_fetch_cases:
  assumes "reads_stream F src" and "(if need_resync ip src then resync ip src else Some src) = Some src'"
  shows "reads_stream F src' \<and> unat (rc_idx src') < length (dc_records (rc_d src'))
    \<and> di_off (dc_records (rc_d src') ! unat (rc_idx src')) = of_nat ip"
  using assms resync_stream [of ip src src' F]
  by (auto simp: need_resync_def vec_get_def split: if_splits)

lemma record_fetchedD:
  "record_fetch vm src = Fetched f src' \<Longrightarrow> (if need_resync (vm_ip vm) src then resync (vm_ip vm) src else Some src) = Some src'
    \<and> f = record_fetched (dc_records (rc_d src') ! unat (rc_idx src'))"
  by (auto simp: record_fetch_def vec_get_def split: option.splits if_splits)

lemma record_source_law:
  fixes vm :: "'d vm"
  assumes "reads_stream F src" and "ip_ok (vm_ip vm)" and "record_fetch vm src = Fetched f src'"
  shows "names F (vm_ip vm) f"
proof -
  note f = record_fetchedD [OF assms(3)]
  note c = record_fetch_cases [OF assms(1) conjunct1 [OF f]]
  let ?r = "dc_records (rc_d src') ! unat (rc_idx src')"
  have ok: "record_ok F (unat (di_off ?r)) ?r" by (rule record_at [where fuse = True]) (use c in \<open>auto simp: reads_stream_def\<close>)
  with c have "vm_ip vm = unat (di_off ?r)"
    using ip_ok_offset [OF assms(2), of "di_off ?r"] record_ok_bound [OF ok] by (simp add: reads_stream_def)
  with ok record_names f show ?thesis by simp
qed

lemma record_never_panics: "reads_stream F src \<Longrightarrow> record_fetch vm src \<noteq> FetchPanic"
  using record_fetch_cases [of F src "vm_ip vm"] by (force simp: record_fetch_def split: option.splits)

lemma record_fetch_keeps:
  assumes "reads_stream F src" and "record_fetch vm src = Fetched f src'"
  shows "reads_stream F (record_advance src')"
  using record_fetch_cases [OF assms(1) conjunct1 [OF record_fetchedD [OF assms(2)]]]
  by (simp add: record_advance_def reads_stream_def)

interpretation record_source: instr_source F record_fetch record_advance "reads_stream F"
  for F
  using record_source_law record_fetch_keeps record_never_panics by unfold_locales blast+

section \<open>Decoding does not panic\<close>

lemma read_in_range:
  "off + 1 < length (c_code c) \<Longrightarrow> read_u16 c off \<noteq> None" "off + 1 < length (c_code c) \<Longrightarrow> read_i16 c off \<noteq> None"
  "off < length (c_code c) \<Longrightarrow> read_u8 c off \<noteq> None"
  by (simp_all add: read_u16_def read_i16_def read_u8_def)

lemma operands_no_panic:
  assumes "ip + 1 + operand_width op \<le> length (c_code c)"
  shows "decode_operands c op ip (operand_width op) \<noteq> Panic"
  using assms
  by (auto simp: decode_operands_def Let_def is_jump16_def read_u16_def read_i16_def read_u8_def vec_get_def split: if_splits)

lemma walk_no_panic: "decode_walk c ip w \<noteq> Panic"
proof (induction "length (c_code c) - ip" arbitrary: ip w rule: less_induct)
  case less
  show ?case
    by (subst decode_walk.simps) (auto simp: operands_no_panic intro!: less.hyps split: option.splits)
qed

lemma resolve_no_panic: "\<forall>(i, t) \<in> set fixups. i < length rs \<Longrightarrow> resolve_jumps ix fixups rs jt \<noteq> Panic"
  by (induction ix fixups rs jt rule: resolve_jumps.induct) (auto split: option.splits)

lemma walk_fixups:
  "decode_walk c ip w = Ok w' \<Longrightarrow> fixups_ok w \<Longrightarrow> fixups_ok w'"
proof (induction "length (c_code c) - ip" arbitrary: ip w rule: less_induct)
  case less
  show ?case
  proof (cases "ip < length (c_code c)")
    case True
    obtain op ops where ops: "decode_operands c op ip (operand_width op) = Ok ops"
      and walk: "decode_walk c (ip + 1 + operand_width op) (walk_push op ip ops w) = Ok w'"
      using walk_step [OF True less.prems(1)] by blast
    show ?thesis by (rule less.hyps [OF _ walk fixups_ok_push [OF less.prems(2) ops]]) (use True in simp)
  qed (use less.prems in \<open>subst (asm) decode_walk.simps, auto\<close>)
qed

lemma decode_no_panic: "decode_chunk c fuse \<noteq> Panic"
proof -
  have "resolve_jumps (wk_index_of w) (wk_fixups w) (wk_records w) {} \<noteq> Panic"
    if "decode_walk c 0 \<lparr>wk_records = [], wk_index_of = Map.empty, wk_fixups = []\<rparr> = Ok w" for w
    using walk_fixups [OF that] by (intro resolve_no_panic) (auto simp: fixups_ok_def)
  then show ?thesis by (auto simp: decode_chunk_def Let_def walk_no_panic)
qed

section \<open>The loops against the plain loop\<close>

definition slot_ok :: "chunk \<Rightarrow> decode_slot \<Rightarrow> bool" where
  "slot_ok F slot \<longleftrightarrow> (\<forall>d. ds_decoded slot = Some d \<and> is_valid d F \<longrightarrow> decode_chunk F True = Ok d)"

definition lane_ok :: "chunk \<Rightarrow> 'd lane \<Rightarrow> bool" where
  "lane_ok F la \<longleftrightarrow> length (c_code F) < 2 ^ 31 \<and> ip_ok (vm_ip (la_vm la)) \<and> slot_ok F (la_slot la)
     \<and> (case la_point la of OnRecords src \<Rightarrow> reads_stream F src | _ \<Rightarrow> True)"

text \<open>The points that hand the control on without executing anything are left in this order.\<close>

fun rank :: "point \<Rightarrow> nat" where
  "rank AtTop = 3" | "rank (OnRecords src) = 2" | "rank OnBytes = 1" | "rank AtAsync = 0"

definition follows_loop :: "'d engine \<Rightarrow> chunk \<Rightarrow> 'd lane \<Rightarrow> 'd lane_out \<Rightarrow> bool" where
  "follows_loop en F la out \<longleftrightarrow> (case out of
      LNext la' \<Rightarrow> lane_ok F la' \<and> (la_vm la' = la_vm la \<and> rank (la_point la') < rank (la_point la)
        \<or> (\<exists>j. vm_run (Suc j) en F (la_vm la) = VNext (la_vm la')))
    | LOut out \<Rightarrow> (\<forall>vm'. out \<noteq> VNext vm') \<and> (\<exists>j. vm_run j en F (la_vm la) = out))"

lemma select_ok:
  assumes "select_record_source cfg F slot ip = Ok (src, slot')" and "slot_ok F slot" and "length (c_code F) < 2 ^ 31"
  shows "slot_ok F slot' \<and> (\<forall>s. src = Some s \<longrightarrow> reads_stream F s)"
  using assms
  by (auto simp: select_record_source_def filter_valid_def at_entry_def slot_ok_def reads_stream_def Let_def
    split: option.splits if_splits result.splits)

lemma select_no_panic: "select_record_source cfg F slot ip \<noteq> Panic" "select_record_source cfg F slot ip \<noteq> Err e"
  using decode_no_panic [of F True]
  by (auto simp: select_record_source_def Let_def split: option.splits result.splits)

lemma after_burst_follows:
  assumes "burst_ok en F (la_vm la) src_ok b" and "lane_ok F la" and "\<And>src. src_ok src \<Longrightarrow> (case on src of OnRecords s \<Rightarrow> reads_stream F s | _ \<Rightarrow> True)"
    and "b = BNeedsAsync \<Longrightarrow> 0 < rank (la_point la)" and "b = BFellBack \<Longrightarrow> 1 < rank (la_point la)"
  shows "follows_loop en F la (after_burst on la b)"
  using assms vm_run_ip_ok [of _ en F "la_vm la"]
  by (cases b) (auto simp: after_burst_def follows_loop_def burst_ok_def lane_ok_def simp del: vm_run.simps)

lemma byte_never_falls_back: "burst_step (byte_fetch F) byte_advance en F vm () \<noteq> BFellBack"
  by (auto simp: burst_step_def byte_fetch_def Let_def split: option.splits vm_out.splits)

lemma lane_step_follows:
  assumes "lane_ok F la"
  shows "follows_loop en F la (lane_step cfg en F la)"
proof (cases "la_point la")
  case AtTop
  with assms show ?thesis
    using select_ok [of cfg F "la_slot la" "vm_ip (la_vm la)"] select_no_panic [of cfg F "la_slot la" "vm_ip (la_vm la)"]
    by (cases "select_record_source cfg F (la_slot la) (vm_ip (la_vm la))")
      (auto simp: lane_step_def follows_loop_def lane_ok_def split: option.splits)
next
  case (OnRecords src)
  then show ?thesis using assms
    by (auto simp: lane_step_def lane_ok_def intro!: after_burst_follows record_source.burst_sound)
next
  case OnBytes
  then show ?thesis using assms byte_never_falls_back
    by (auto simp: lane_step_def lane_ok_def intro!: after_burst_follows [where src_ok = "\<lambda>_. True"] byte_source.burst_sound)
next
  case AtAsync
  have "vm_run (Suc 0) en F (la_vm la) = vm_step en F (la_vm la)" by (auto split: vm_out.splits)
  with AtAsync assms show ?thesis
    by (auto simp: lane_step_def follows_loop_def lane_ok_def vm_step_ip_ok simp del: vm_run.simps split: vm_out.splits
      intro: exI [of _ 0] exI [of _ "Suc 0"])
qed

lemma lane_run_sound:
  assumes "lane_run n cfg en F la = LOut out" and "lane_ok F la"
  shows "(\<forall>vm'. out \<noteq> VNext vm') \<and> (\<exists>k. vm_run k en F (la_vm la) = out)"
  using assms
proof (induction n arbitrary: la)
  case (Suc n)
  note follows = lane_step_follows [OF Suc.prems(2), of en cfg]
  show ?case
  proof (cases "lane_step cfg en F la")
    case (LNext la')
    with follows Suc obtain k where fin: "\<forall>vm'. out \<noteq> VNext vm'" "vm_run k en F (la_vm la') = out"
      by (auto simp: follows_loop_def)
    from follows LNext consider "la_vm la' = la_vm la" | j where "vm_run (Suc j) en F (la_vm la) = VNext (la_vm la')"
      by (auto simp: follows_loop_def)
    then show ?thesis
    proof cases
      case 2
      with fin have "vm_run (Suc j + k) en F (la_vm la) = out" by (simp only: vm_run_add) simp
      with fin show ?thesis by blast
    qed (use fin in auto)
  qed (use follows Suc.prems in \<open>auto simp: follows_loop_def\<close>)
qed simp

lemma lane_run_complete:
  assumes "vm_run k en F (la_vm la) = out" and "\<And>vm'. out \<noteq> VNext vm'" and "lane_ok F la"
  shows "\<exists>n. lane_run n cfg en F la = LOut out"
  using assms
proof (induction "4 * k + rank (la_point la)" arbitrary: k la rule: less_induct)
  case less
  note follows = lane_step_follows [OF less.prems(3), of en cfg]
  have more: ?case if "lane_step cfg en F la = LNext la'" "\<exists>n. lane_run n cfg en F la' = LOut out" for la'
    using that by (metis lane_out.simps(5) lane_run.simps(2))
  show ?case
  proof (cases "lane_step cfg en F la")
    case (LNext la')
    then have ok: "lane_ok F la'" using follows by (simp add: follows_loop_def)
    from follows LNext consider (same) "la_vm la' = la_vm la" "rank (la_point la') < rank (la_point la)"
      | (ran) j where "vm_run (Suc j) en F (la_vm la) = VNext (la_vm la')"
      by (auto simp: follows_loop_def)
    then show ?thesis
    proof cases
      case same
      show ?thesis by (rule more [OF LNext less.hyps [OF _ _ less.prems(2) ok]]) (use same less.prems(1) in auto)
    next
      case ran
      have far: "Suc j < k"
        using run_end_unique [OF less.prems(1,2), of "Suc j"] ran less.prems(2) by (metis linorder_not_le)
      then have rest: "vm_run (k - Suc j) en F (la_vm la') = out"
        using less.prems(1) vm_run_add [of "Suc j" "k - Suc j" en F "la_vm la"] ran by simp
      have "rank (la_point la') \<le> 3" by (cases "la_point la'") auto
      with far show ?thesis by (intro more [OF LNext less.hyps [OF _ rest less.prems(2) ok]]) auto
    qed
  next
    case (LOut out')
    with follows obtain j where j: "\<forall>vm'. out' \<noteq> VNext vm'" "vm_run j en F (la_vm la) = out'"
      by (auto simp: follows_loop_def)
    have "out' = out"
    proof (cases "j \<le> k")
      case True with run_end_unique [OF j(2)] j(1) less.prems(1) show ?thesis by simp
    next
      case False with run_end_unique [OF less.prems(1,2), of j] j(2) show ?thesis by simp
    qed
    with LOut have "lane_run (Suc 0) cfg en F la = LOut out" by simp
    then show ?thesis by blast
  qed
qed

section \<open>The lanes change no result\<close>

text \<open>
  C3: whatever the switches (the synchronous lane, the decoded streams, the warmth at which a chunk is
  decoded) and however warm the chunk is, the dispatch loop with its lanes, its fused instructions and its
  fall-backs ends exactly when the plain loop over the bytes ends, and with the same result, stack and
  globals.  The stream the chunk keeps, if it is current, is the decoding of the chunk.
\<close>

theorem lanes_invisible:
  assumes "length (c_code F) < 2 ^ 31" and "vm_ip vm < 2 ^ 32" and "slot_ok F slot"
  shows "(\<exists>n. lane_run n cfg en F (lane_start slot vm) = LOut out)
    \<longleftrightarrow> (\<forall>vm'. out \<noteq> VNext vm') \<and> (\<exists>k. vm_run k en F vm = out)"
proof -
  have ok: "lane_ok F (lane_start slot vm)" and vm: "la_vm (lane_start slot vm) = vm"
    using assms by (auto simp: lane_ok_def lane_start_def ip_ok_def)
  show ?thesis
    using lane_run_sound [OF _ ok, of _ cfg en out] lane_run_complete [of _ en F "lane_start slot vm" out cfg] ok
    unfolding vm by blast
qed

text \<open>\<open>const 0; get_local 0; return\<close>: its first two instructions fuse.\<close>

definition sample_chunk :: chunk where
  "sample_chunk = chunk_new\<lparr>c_code := [op_as_u8 Op_Const, 0, 0, op_as_u8 Op_GetLocal, 0, 0, op_as_u8 Op_Return],
     c_consts := [VInt 2], c_slot_count := 1\<rparr>"

definition sample_vm :: "nat vm" where
  "sample_vm = \<lparr>vm_ip = 0, vm_stack = [], vm_locals = [RInt 5], vm_globals = globals_new, vm_global_caches = Map.empty,
     vm_arith_caches = Map.empty, vm_arrays = []\<rparr>"

definition fresh_slot :: decode_slot where
  "fresh_slot = \<lparr>ds_decoded = None, ds_warmth = 0\<rparr>"

lemma sample_code: "c_code sample_chunk = [op_as_u8 Op_Const, 0, 0, op_as_u8 Op_GetLocal, 0, 0, op_as_u8 Op_Return]"
  and sample_consts: "c_consts sample_chunk = [VInt 2]"
  by (simp_all add: sample_chunk_def)

lemma sample_vm_run: "\<exists>vm. vm_run 3 en sample_chunk sample_vm = VDone (RInt 5) vm"
proof -
  let ?at = "\<lambda>ip stack. sample_vm\<lparr>vm_ip := ip, vm_stack := stack\<rparr>"
  have "vm_step en sample_chunk sample_vm = VNext (?at 3 [RInt 2])"
    and "vm_step en sample_chunk (?at 3 [RInt 2]) = VNext (?at 6 [RInt 5, RInt 2])"
    and "\<exists>vm. vm_step en sample_chunk (?at 6 [RInt 5, RInt 2]) = VDone (RInt 5) vm"
    by (simp_all add: vm_step_op sample_code sample_consts sample_vm_def step_const_def step_get_local_def
      step_return_def push_def vec_get_def read_u16_def const_value_def numeral_3_eq_3 del: op_as_u8.simps)
  then show ?thesis by (auto simp: numeral_3_eq_3)
qed

theorem lanes_invisible_witness:
  "\<forall>cfg (en :: nat engine). \<exists>n vm. lane_run n cfg en sample_chunk (lane_start fresh_slot sample_vm) = LOut (VDone (RInt 5) vm)"
proof (intro allI)
  fix cfg and en :: "nat engine"
  obtain vm where "vm_run 3 en sample_chunk sample_vm = VDone (RInt 5) vm" using sample_vm_run by blast
  then show "\<exists>n vm. lane_run n cfg en sample_chunk (lane_start fresh_slot sample_vm) = LOut (VDone (RInt 5) vm)"
    using lanes_invisible [of sample_chunk sample_vm fresh_slot cfg en "VDone (RInt 5) vm"]
    by (auto simp: sample_code sample_vm_def slot_ok_def fresh_slot_def)
qed

section \<open>A stream that is run is current\<close>

text \<open>
  What happens to a chunk and to the stream it keeps: a lane asks for a source, a byte of the code is patched.
  The counter of the patches saturates at \<open>2 ^ 64 - 1\<close>.
\<close>

inductive history :: "lane_cfg \<Rightarrow> chunk \<Rightarrow> decode_slot \<Rightarrow> bool" for cfg where
  built: "history cfg F fresh_slot"
| asked: "history cfg F slot \<Longrightarrow> select_record_source cfg F slot ip = Ok (src, slot') \<Longrightarrow> history cfg F slot'"
| patched: "history cfg F slot \<Longrightarrow> c_patch_epoch F \<noteq> - 1 \<Longrightarrow> patch_byte off b F = Some F' \<Longrightarrow> history cfg F' slot"

definition epoch_ok :: "chunk \<Rightarrow> decode_slot \<Rightarrow> bool" where
  "epoch_ok F slot \<longleftrightarrow> (\<forall>d. ds_decoded slot = Some d \<longrightarrow> dc_own_epoch d \<le> c_patch_epoch F
     \<and> (dc_own_epoch d = c_patch_epoch F \<longrightarrow> decode_chunk F True = Ok d))"

lemma decode_epoch: "decode_chunk F fuse = Ok d \<Longrightarrow> dc_own_epoch d = c_patch_epoch F \<and> dc_deps d = []"
  by (auto simp: decode_chunk_def Let_def split: prod.splits)

lemma epoch_slot_ok: "epoch_ok F slot \<Longrightarrow> slot_ok F slot"
  by (auto simp: epoch_ok_def slot_ok_def is_valid_def)

lemma epoch_grows:
  assumes "patch_byte off b F = Some F'" and "c_patch_epoch F \<noteq> - 1"
  shows "c_patch_epoch F < c_patch_epoch F'"
proof -
  have "unat (c_patch_epoch F) < 2 ^ 64" using unsigned_less [of "c_patch_epoch F"] by simp
  moreover have "unat (c_patch_epoch F) \<noteq> 2 ^ 64 - 1"
    using assms(2) by (auto simp: word_unat_eq_iff unsigned_minus_1_eq_mask mask_eq_exp_minus_1)
  ultimately have "unat (c_patch_epoch F) + 1 < 2 ^ 64" by simp
  then show ?thesis using assms(1)
    by (auto simp: patch_byte_def saturating_add_u64_def Let_def word_less_nat_alt unat_word_ariths split: if_splits)
qed

lemma select_slot:
  "select_record_source cfg F slot ip = Ok (src, slot') \<Longrightarrow> ds_decoded slot' = Some d
    \<Longrightarrow> ds_decoded slot = Some d \<or> decode_chunk F True = Ok d"
  by (auto simp: select_record_source_def Let_def split: option.splits if_splits result.splits)

lemma select_epoch:
  "select_record_source cfg F slot ip = Ok (src, slot') \<Longrightarrow> epoch_ok F slot \<Longrightarrow> epoch_ok F slot'"
  unfolding epoch_ok_def using select_slot decode_epoch by (metis order_refl)

lemma patch_epoch:
  "patch_byte off b F = Some F' \<Longrightarrow> c_patch_epoch F \<noteq> - 1 \<Longrightarrow> epoch_ok F slot \<Longrightarrow> epoch_ok F' slot"
  using epoch_grows [of off b F F'] by (fastforce simp: epoch_ok_def)

lemma history_epoch: "history cfg F slot \<Longrightarrow> epoch_ok F slot"
proof (induction rule: history.induct)
  case (built F)
  then show ?case by (simp add: epoch_ok_def fresh_slot_def)
qed (use select_epoch patch_epoch in blast)+

text \<open>\<open>nil; return\<close> is decoded, patched to \<open>true; return\<close>, and decoded again.\<close>

definition patch_chunk :: chunk where
  "patch_chunk = chunk_new\<lparr>c_code := [op_as_u8 Op_Nil, op_as_u8 Op_Return]\<rparr>"

definition patched_chunk :: chunk where
  "patched_chunk = patch_chunk\<lparr>c_patch_epoch := 1, c_code := [op_as_u8 Op_True, op_as_u8 Op_Return]\<rparr>"

definition eager_cfg :: lane_cfg where
  "eager_cfg = \<lparr>ln_sync_lane = True, ln_decode = True, ln_decode_threshold = 1\<rparr>"

lemmas decode_simps = decode_chunk_def decode_walk.simps decode_operands_def walk_push_def Let_def is_jump16_def
  fuse_records_def fuse_from.simps fused_at_def FUSION_CANDIDATES_def try_match_def entry_index_of_def enumerate_eq_zip

lemma patch_chunk_decodes: "\<exists>d. decode_chunk patch_chunk True = Ok d \<and> dc_own_epoch d = 0"
  by (simp add: patch_chunk_def decode_simps chunk_new_def flat_default_def chunk_flat.defs chunk.defs del: op_as_u8.simps)

lemma patched_chunk_decodes: "\<exists>d. decode_chunk patched_chunk True = Ok d \<and> dc_entry_index d = [(0, 0), (1, 1)]"
  by (simp add: patched_chunk_def patch_chunk_def decode_simps chunk_new_def flat_default_def chunk_flat.defs chunk.defs del: op_as_u8.simps)

lemma first_select:
  assumes "decode_chunk F True = Ok d"
  shows "select_record_source eager_cfg F fresh_slot ip = Ok (at_entry d ip, \<lparr>ds_decoded = Some d, ds_warmth = 1\<rparr>)"
  using assms by (simp add: select_record_source_def filter_valid_def fresh_slot_def eager_cfg_def saturating_inc_def)

lemma stale_select:
  assumes "decode_chunk F True = Ok d" and "dc_own_epoch old \<noteq> c_patch_epoch F"
  shows "select_record_source eager_cfg F \<lparr>ds_decoded = Some old, ds_warmth = 1\<rparr> ip
    = Ok (at_entry d ip, \<lparr>ds_decoded = Some d, ds_warmth = 2\<rparr>)"
  using assms by (simp add: select_record_source_def filter_valid_def is_valid_def eager_cfg_def saturating_inc_def)

text \<open>
  C13: a stream is never run stale.  However often the code of a chunk has been patched since it was decoded,
  a source that \<open>select_record_source\<close> hands out reads the decoding of the bytes as they are now, at the record
  of the instruction pointer.
\<close>

theorem stream_is_current:
  assumes "history cfg F slot" and "length (c_code F) < 2 ^ 31" and "select_record_source cfg F slot ip = Ok (Some src, slot')"
  shows "decode_chunk F True = Ok (rc_d src) \<and> unat (rc_idx src) < length (dc_records (rc_d src))
    \<and> di_off (dc_records (rc_d src) ! unat (rc_idx src)) = of_nat ip"
proof -
  have "slot_ok F slot" using epoch_slot_ok [OF history_epoch [OF assms(1)]] .
  with assms(3) have "decode_chunk F True = Ok (rc_d src)" "byte_to_record (rc_d src) (of_nat ip) = Some (rc_idx src)"
    by (auto simp: select_record_source_def filter_valid_def at_entry_def slot_ok_def Let_def
      split: option.splits if_splits result.splits)
  then show ?thesis using byte_to_record_sound [OF _ assms(2)] by blast
qed

theorem stream_is_current_witness:
  "\<exists>old slot slot' src. decode_chunk patch_chunk True = Ok old \<and> ds_decoded slot = Some old \<and> history eager_cfg patched_chunk slot
    \<and> select_record_source eager_cfg patched_chunk slot 0 = Ok (Some src, slot') \<and> decode_chunk patched_chunk True = Ok (rc_d src)"
proof -
  obtain old where old: "decode_chunk patch_chunk True = Ok old" "dc_own_epoch old = 0" using patch_chunk_decodes by blast
  obtain d where d: "decode_chunk patched_chunk True = Ok d" "dc_entry_index d = [(0, 0), (1, 1)]" using patched_chunk_decodes by blast
  let ?slot = "\<lparr>ds_decoded = Some old, ds_warmth = 1\<rparr>"
  have "patch_byte 0 (op_as_u8 Op_True) patch_chunk = Some patched_chunk" and epochs: "c_patch_epoch patch_chunk \<noteq> - 1" "c_patch_epoch patched_chunk = 1"
    by (simp_all add: patch_byte_def patch_chunk_def patched_chunk_def saturating_add_u64_def chunk_new_def flat_default_def
      chunk_flat.defs chunk.defs del: op_as_u8.simps)
  then have h: "history eager_cfg patched_chunk ?slot"
    using asked [OF built first_select [OF old(1)]] by (blast intro: patched)
  have e: "at_entry d 0 = Some \<lparr>rc_d = d, rc_idx = 0\<rparr>"
    using d(2) by (simp add: at_entry_def byte_to_record_def partition_point_def vec_get_def)
  have sel: "select_record_source eager_cfg patched_chunk ?slot 0
      = Ok (Some \<lparr>rc_d = d, rc_idx = 0\<rparr>, \<lparr>ds_decoded = Some d, ds_warmth = 2\<rparr>)"
    using stale_select [OF d(1)] e old(2) epochs by simp
  have "length (c_code patched_chunk) < 2 ^ 31" by (simp add: patched_chunk_def)
  from stream_is_current [OF h this sel] h sel old(1) show ?thesis
    by (intro exI [of _ old] exI [of _ ?slot] exI [of _ "\<lparr>ds_decoded = Some d, ds_warmth = 2\<rparr>"]
      exI [of _ "\<lparr>rc_d = d, rc_idx = 0\<rparr>"]) simp
qed

end
