(* ===== verification/RecordFlow.thy ===== *)
theory RecordFlow
  imports LaneProps
begin

text \<open>
  A record burst stays on the records.  The decoder gives every jump a target that is the first byte of an
  instruction, the peephole never fuses over such a target, so the instruction pointer is always at the first
  byte of a record and \<open>resync\<close> finds it.
\<close>

section \<open>The jumps that the first pass collects\<close>

definition byte_target :: "chunk \<Rightarrow> nat \<Rightarrow> int option" where
  "byte_target F off = (case op_at F off of
      Some op \<Rightarrow> if is_jump16 op then map_option (\<lambda>disp. int (off + 3) + disp) (read_i16 F (off + 1)) else None
    | None \<Rightarrow> None)"

definition walk_knows :: "chunk \<Rightarrow> nat \<Rightarrow> walk \<Rightarrow> bool" where
  "walk_knows F ip w \<longleftrightarrow>
     (\<forall>r \<in> set (wk_records w). unat (di_off r) < ip)
     \<and> (\<forall>r \<in> set (wk_records w). \<forall>t. byte_target F (unat (di_off r)) = Some t \<longrightarrow> t \<in> snd ` set (wk_fixups w))
     \<and> (\<forall>k idx. wk_index_of w k = Some idx \<longrightarrow> (\<exists>i < length (wk_records w). idx = of_nat i \<and> di_off (wk_records w ! i) = k))"

lemma jump_operands:
  "op_at F ip = Some op \<Longrightarrow> decode_operands F op ip (operand_width op) = Ok ops \<Longrightarrow> byte_target F ip = Some t \<Longrightarrow> snd ops = Some t"
  by (auto simp: byte_target_def decode_operands_def Let_def add.commute split: if_splits)

lemma walk_knows_push:
  assumes "walk_knows F ip w" and "op_at F ip = Some op" and "decode_operands F op ip (operand_width op) = Ok ops"
    and "length (c_code F) < 2 ^ 31"
  shows "walk_knows F (ip + 1 + operand_width op) (walk_push op ip ops w)"
proof -
  have off: "unat (of_nat ip :: u32) = ip" using op_at_bound [OF assms(2)] assms(4) by (simp add: unat_of_nat)
  let ?r = "\<lparr>di_op = DBase op, di_a = fst (fst ops), di_b = snd (fst ops), di_off = of_nat ip\<rparr>"
  let ?w = "walk_push op ip ops w"
  have recs: "wk_records ?w = wk_records w @ [?r]" and index: "wk_index_of ?w = (wk_index_of w)(of_nat ip \<mapsto> of_nat (length (wk_records w)))"
    and fix_old: "snd ` set (wk_fixups w) \<subseteq> snd ` set (wk_fixups ?w)" and fix_new: "\<And>t. snd ops = Some t \<Longrightarrow> t \<in> snd ` set (wk_fixups ?w)"
    by (auto simp: walk_push_def Let_def split: option.splits)
  have "\<exists>i < length (wk_records ?w). idx = of_nat i \<and> di_off (wk_records ?w ! i) = k" if "wk_index_of ?w k = Some idx" for k idx
  proof (cases "k = of_nat ip")
    case False
    with that have "wk_index_of w k = Some idx" by (simp add: index)
    with assms(1) obtain i where "i < length (wk_records w)" "idx = of_nat i" "di_off (wk_records w ! i) = k"
      unfolding walk_knows_def by blast
    then show ?thesis by (auto simp: recs nth_append)
  next
    case True
    with that have "idx = of_nat (length (wk_records w))" by (simp only: index fun_upd_same option.inject)
    with True show ?thesis by (intro exI [of _ "length (wk_records w)"]) (simp add: recs)
  qed
  moreover have "t \<in> snd ` set (wk_fixups ?w)" if "r \<in> set (wk_records ?w)" "byte_target F (unat (di_off r)) = Some t" for r t
    using that assms(1) jump_operands [OF assms(2,3)] fix_old fix_new off by (auto simp: recs walk_knows_def)
  moreover have "unat (di_off r) < ip + 1 + operand_width op" if "r \<in> set (wk_records ?w)" for r
    using that assms(1) off by (fastforce simp: recs walk_knows_def)
  ultimately show ?thesis unfolding walk_knows_def by blast
qed

lemma walk_knows_all:
  assumes "decode_walk F ip w = Ok w'" and "ip \<le> length (c_code F)" and "length (c_code F) < 2 ^ 31" and "walk_knows F ip w"
  shows "walk_knows F (length (c_code F)) w'"
  using assms
proof (induction "length (c_code F) - ip" arbitrary: ip w rule: less_induct)
  case less
  show ?case
  proof (cases "ip < length (c_code F)")
    case True
    obtain op ops where op: "op_at F ip = Some op" "ip + 1 + operand_width op \<le> length (c_code F)"
      and ops: "decode_operands F op ip (operand_width op) = Ok ops"
      and walk: "decode_walk F (ip + 1 + operand_width op) (walk_push op ip ops w) = Ok w'"
      using walk_step [OF True less.prems(1)] by blast
    show ?thesis
      by (rule less.hyps [OF _ walk op(2) less.prems(3) walk_knows_push [OF less.prems(4) op(1) ops less.prems(3)]]) (use True in simp)
  next
    case False
    with less.prems have "w' = w" "ip = length (c_code F)" by (subst (asm) decode_walk.simps, simp)+
    with less.prems(4) show ?thesis by simp
  qed
qed

section \<open>The targets that the second pass marks\<close>

lemma resolve_marks:
  assumes "resolve_jumps ix fixups rs jt = Ok (rs', jt')"
  shows "map di_off rs' = map di_off rs \<and> jt \<subseteq> jt'
    \<and> (\<forall>t \<in> snd ` set fixups. 0 \<le> t \<and> t < 2 ^ 32 \<and> (\<exists>idx \<in> jt'. ix (of_int t) = Some idx))"
  using assms
proof (induction ix fixups rs jt rule: resolve_jumps.induct)
  case (2 ix i t fixups rs jt)
  from 2(2) obtain idx where t: "\<not> (t < 0 \<or> t > 2 ^ 32 - 1)" "ix (of_int t) = Some idx" "i < length rs"
    "resolve_jumps ix fixups (rs[i := set_target idx (rs ! i)]) (insert idx jt) = Ok (rs', jt')"
    by (auto split: if_splits option.splits)
  have "map di_off (rs[i := set_target idx (rs ! i)]) = map di_off rs"
    using t(3) by (auto simp: map_update set_target_def intro: list_update_same_conv [THEN iffD2])
  with 2(1) [OF t(1,2,4)] t(1,2) show ?case by auto
qed simp

section \<open>The targets that the peephole keeps\<close>

lemma match_no_target: "try_match rs i form jt \<Longrightarrow> i < j \<Longrightarrow> j < i + length (ff_seq form) \<Longrightarrow> of_nat j \<notin> jt"
  by (auto simp: try_match_def list_all_iff dest!: bspec [of _ _ "j - i"])

lemma run_head: "fused_at rs jt i = Some form \<Longrightarrow> take (length (ff_seq form)) (drop i rs) ! 0 = rs ! i"
proof -
  assume "fused_at rs jt i = Some form"
  then have "0 < length (ff_seq form)" "i < length rs" using fused_at_Some candidates_nonempty by fastforce+
  then show ?thesis by (simp add: nth_take)
qed

lemma fuse_keeps_targets:
  "i \<le> j \<Longrightarrow> j < length rs \<Longrightarrow> of_nat j \<in> jt \<Longrightarrow> di_off (rs ! j) \<in> di_off ` set (fuse_from rs jt i)"
proof (induction rs jt i rule: fuse_from.induct)
  case (1 rs jt i)
  then have i: "i < length rs" by simp
  show ?case
  proof (cases "fused_at rs jt i")
    case None
    then show ?thesis using 1(1) [OF i None] 1(3-5) i by (subst fuse_from.simps) (cases "i = j"; auto simp: None)
  next
    case (Some form)
    have "j = i \<or> i + length (ff_seq form) \<le> j"
      using match_no_target [of rs i form jt j] fused_at_Some [OF Some] 1(3,5) by (metis leI le_neq_implies_less)
    then show ?thesis using 1(2) [OF i Some] 1(4,5) i run_head [OF Some] by (subst fuse_from.simps) (auto simp: Some)
  qed
qed

lemma fuse_adds_nothing: "di_off ` set (fuse_from rs jt i) \<subseteq> di_off ` set rs"
proof (induction rs jt i rule: fuse_from.induct)
  case (1 rs jt i)
  show ?case
  proof (cases "i < length rs")
    case True
    then show ?thesis using 1 run_head [of rs jt i]
      by (cases "fused_at rs jt i") (subst fuse_from.simps, force simp: True)+
  qed (simp add: fuse_from.simps)
qed

section \<open>The pointer stays on records\<close>

definition starts :: "decoded_instr list \<Rightarrow> nat set" where
  "starts rs = (\<lambda>r. unat (di_off r)) ` set rs"

definition on_record :: "chunk \<Rightarrow> decoded_chunk \<Rightarrow> nat \<Rightarrow> bool" where
  "on_record F d ip \<longleftrightarrow> ip \<in> starts (dc_records d) \<or> ip = length (c_code F)"

lemma starts_off: "starts rs = unat ` di_off ` set rs"
  by (auto simp: starts_def)

lemma jumps_on_records:
  assumes "decode_chunk F True = Ok d" and "length (c_code F) < 2 ^ 31"
    and "off \<in> starts (dc_records d)" and "byte_target F off = Some t"
  shows "0 \<le> t \<and> nat t \<in> starts (dc_records d)"
proof -
  let ?w = "\<lparr>wk_records = [], wk_index_of = Map.empty, wk_fixups = []\<rparr>"
  from assms(1) obtain w rs jt where w: "decode_walk F 0 ?w = Ok w"
    and rs: "resolve_jumps (wk_index_of w) (wk_fixups w) (wk_records w) {} = Ok (rs, jt)"
    and d: "dc_records d = fuse_from rs jt 0"
    by (auto simp: decode_chunk_def fuse_records_def Let_def)
  have k: "walk_knows F (length (c_code F)) w" by (rule walk_knows_all [OF w _ assms(2)]) (simp_all add: walk_knows_def)
  note m = resolve_marks [OF rs]
  then have offs: "di_off ` set rs = di_off ` set (wk_records w)" "length rs = length (wk_records w)"
    using map_eq_imp_length_eq by (metis set_map)+
  have "off \<in> unat ` di_off ` set (wk_records w)"
    using assms(3) fuse_adds_nothing [of rs jt 0] by (auto simp: d starts_off offs(1) [symmetric])
  then have "t \<in> snd ` set (wk_fixups w)" using k assms(4) by (auto simp: walk_knows_def)
  then obtain idx where t: "0 \<le> t" "t < 2 ^ 32" "idx \<in> jt" "wk_index_of w (of_int t) = Some idx" using m by blast
  then obtain i where i: "i < length (wk_records w)" "idx = of_nat i" "di_off (wk_records w ! i) = of_int t"
    using k unfolding walk_knows_def by blast
  then have "di_off (rs ! i) = of_int t" using nth_map [of i rs di_off] nth_map [of i "wk_records w" di_off] conjunct1 [OF m] offs(2) by simp
  then have "of_int t \<in> di_off ` set (fuse_from rs jt 0)"
    using fuse_keeps_targets [of 0 i rs jt] i offs(2) t(3) by simp
  moreover have "unat (of_int t :: u32) = nat t" using t(1,2) uint_word_of_int [where 'a = 32, of t] by (simp only: unat_eq_nat_uint len_num1 len_bit0) simp
  ultimately have "nat t \<in> unat ` di_off ` set (fuse_from rs jt 0)" by (metis imageI)
  with t(1) show ?thesis by (simp add: d starts_off)
qed

text \<open>After a record comes the next one, or the end of the code.\<close>

lemma tiles_next:
  assumes "tiles F off rs" and "r \<in> set rs"
  shows "unat (di_off r) + width (ops_of (di_op r)) \<in> starts rs \<or> unat (di_off r) + width (ops_of (di_op r)) = length (c_code F)"
  using assms
proof (induction rs arbitrary: off)
  case (Cons r' rs)
  show ?case
  proof (cases "r = r'")
    case True
    with Cons.prems(1) show ?thesis by (cases rs) (auto simp: record_ok_def starts_def)
  qed (use Cons in \<open>auto simp: starts_def\<close>)
qed simp

lemma exec_fused_ip: "exec_fused F off kind packed vm = VNext vm' \<Longrightarrow> vm_ip vm' = off + width (components kind)"
  by (cases kind) (auto simp: exec_fused_def with_local_def with_const_def Let_def split: option.splits)

lemma base_step_on_record:
  assumes "decode_chunk F True = Ok d" and "length (c_code F) < 2 ^ 31"
    and r: "r \<in> set (dc_records d)" "unat (di_off r) = vm_ip vm" "di_op r = DBase op" and "vm_step en F vm = VNext vm'"
  shows "on_record F d (vm_ip vm')"
proof -
  obtain i where "i < length (dc_records d)" "dc_records d ! i = r" using r(1) by (auto simp: in_set_conv_nth)
  then have op: "op_at F (vm_ip vm) = Some op"
    using record_at [OF assms(1,2)] r(2,3) by (fastforce simp: record_ok_def)
  have here: "vm_ip vm \<in> starts (dc_records d)" using r(1,2) by (force simp: starts_def)
  from vm_step_moves [OF op, of en] assms(6) consider "vm_ip vm' = vm_ip vm + 1 + operand_width op"
    | disp where "is_jump16 op" "read_i16 F (vm_ip vm + 1) = Some disp"
      "vm_ip vm' = vm_ip (jump_by disp (vm\<lparr>vm_ip := vm_ip vm + 1 + operand_width op\<rparr>))"
    by (auto simp: moves_def split: if_splits)
  then show ?thesis
  proof cases
    case 1
    with tiles_next [OF decode_tiles(1) [OF assms(1,2)] r(1)] r(2,3) show ?thesis by (simp add: on_record_def)
  next
    case 2
    then have "operand_width op = 2" by (auto simp: is_jump16_def)
    moreover have t: "byte_target F (vm_ip vm) = Some (int (vm_ip vm + 3) + disp)" using 2(1,2) op by (simp add: byte_target_def)
    ultimately have "vm_ip vm' = nat (int (vm_ip vm + 3) + disp)"
      using 2(3) jumps_on_records [OF assms(1,2) here t] by (simp add: jump_by_def Let_def algebra_simps)
    then show ?thesis using jumps_on_records [OF assms(1,2) here t] by (simp add: on_record_def)
  qed
qed

section \<open>Every record is found\<close>

lemma tiles_increasing: "tiles F off rs \<Longrightarrow> sorted_wrt (<) (map (\<lambda>r. unat (di_off r)) rs) \<and> (\<forall>r \<in> set rs. off \<le> unat (di_off r))"
proof (induction rs arbitrary: off)
  case (Cons r rs)
  have "ops_of (di_op r) \<noteq> []" by (cases "di_op r") (auto elim: components.elims)
  then have "1 \<le> width (ops_of (di_op r))" by (cases "ops_of (di_op r)") auto
  with Cons show ?case by (fastforce simp: record_ok_def)
qed simp

lemma byte_to_record_complete:
  assumes "decode_chunk F True = Ok d" and "length (c_code F) < 2 ^ 31" and "ip \<in> starts (dc_records d)"
  shows "byte_to_record d (of_nat ip) \<noteq> None"
proof -
  note t = decode_tiles [OF assms(1,2)]
  obtain i where i: "i < length (dc_records d)" "ip = unat (di_off (dc_records d ! i))"
    using assms(3) by (auto simp: starts_def in_set_conv_nth)
  let ?P = "\<lambda>(byte_off, _ :: u32). byte_off < di_off (dc_records d ! i)"
  have len: "length (dc_entry_index d) = length (dc_records d)" by (simp add: t(2) entry_index_of_def)
  have "takeWhile ?P (dc_entry_index d) = take i (dc_entry_index d)"
    by (rule takeWhile_eq_take_P_nth)
      (use tiles_increasing [OF t(1)] i(1) in \<open>auto simp: t(2) entry_index_nth entry_index_of_def sorted_wrt_iff_nth_less
        word_less_nat_alt nth_enumerate_eq\<close>)
  then have "length (takeWhile ?P (dc_entry_index d)) = i" using i(1) len by simp
  then show ?thesis using i entry_index_nth [OF i(1)]
    by (simp add: byte_to_record_def partition_point_def Let_def vec_get_def t(2)) (simp add: entry_index_of_def)
qed

section \<open>The lane stays on the records\<close>

definition streaming :: "chunk \<Rightarrow> decoded_chunk \<Rightarrow> 'd lane \<Rightarrow> bool" where
  "streaming F d la \<longleftrightarrow> on_record F d (vm_ip (la_vm la)) \<and> ds_decoded (la_slot la) = Some d
     \<and> (case la_point la of
          AtTop \<Rightarrow> True
        | OnRecords src \<Rightarrow> rc_d src = d
        | OnBytes \<Rightarrow> vm_ip (la_vm la) = length (c_code F)
        | AtAsync \<Rightarrow> (\<exists>r op. r \<in> set (dc_records d) \<and> unat (di_off r) = vm_ip (la_vm la) \<and> di_op r = DBase op))"

lemma select_streaming:
  assumes "decode_chunk F True = Ok d" and "ds_decoded slot = Some d"
  shows "select_record_source cfg F slot ip = Ok (at_entry d ip, slot)"
  using assms(2) decode_epoch [OF assms(1)] by (simp add: select_record_source_def filter_valid_def is_valid_def)

lemma fetch_on_record:
  assumes "decode_chunk F True = Ok d" and "length (c_code F) < 2 ^ 31" and "rc_d src = d" and "on_record F d (vm_ip vm)"
    and "record_fetch vm src = Fetched f src'"
  obtains r where "r \<in> set (dc_records d)" and "unat (di_off r) = vm_ip vm" and "f = record_fetched r" and "rc_d src' = d"
proof -
  have reads: "reads_stream F src" using assms(1-3) by (simp add: reads_stream_def)
  note f = record_fetchedD [OF assms(5)]
  note c = record_fetch_cases [OF reads conjunct1 [OF f]]
  have "ip < 2 ^ 31" if "ip \<in> starts (dc_records d)" for ip
    using that record_at [OF assms(1,2)] record_ok_bound assms(2) by (fastforce simp: starts_def in_set_conv_nth)
  then have "vm_ip vm < 2 ^ 31" using assms(2,4) by (auto simp: on_record_def)
  then have ip: "unat (of_nat (vm_ip vm) :: u32) = vm_ip vm" by (simp add: unat_of_nat)
  have d: "rc_d src' = d" using f assms(3) by (auto simp: resync_def split: if_splits)
  show ?thesis
    by (rule that [of "dc_records (rc_d src') ! unat (rc_idx src')"]) (use c f d ip in auto)
qed

lemma burst_streaming:
  assumes "decode_chunk F True = Ok d" and "length (c_code F) < 2 ^ 31" and "streaming F d la" and "la_point la = OnRecords src"
    and "after_burst OnRecords la (burst_step record_fetch record_advance en F (la_vm la) src) = LNext la'"
  shows "streaming F d la'"
proof (cases "record_fetch (la_vm la) src")
  case (Fetched f src')
  have on: "rc_d src = d" "on_record F d (vm_ip (la_vm la))" using assms(3,4) by (auto simp: streaming_def)
  obtain r where r: "r \<in> set (dc_records d)" "unat (di_off r) = vm_ip (la_vm la)" "f = record_fetched r" "rc_d src' = d"
    using fetch_on_record [OF assms(1,2) on Fetched] by blast
  show ?thesis
  proof (cases "di_op r")
    case (DBase op)
    then have f: "fe_op f = op" "fe_fused f = None" "fe_fault_ip f = vm_ip (la_vm la)" "fe_operand_at f = vm_ip (la_vm la) + 1"
      using r(2,3) by (auto simp: record_fetched_def)
    have op: "op_at F (vm_ip (la_vm la)) = Some op"
      using r(1,2) DBase record_at [OF assms(1,2)] by (fastforce simp: record_ok_def in_set_conv_nth)
    show ?thesis
    proof (cases "sync_lane_op op")
      case True
      with assms(5) f obtain vm where "vm_step en F (la_vm la) = VNext vm" "la' = la\<lparr>la_vm := vm, la_point := OnRecords (record_advance src')\<rparr>"
        by (auto simp: after_burst_def burst_step_def Fetched Let_def step_at [OF op] split: vm_out.splits)
      with base_step_on_record [OF assms(1,2) r(1,2) DBase] assms(3) r(4) show ?thesis
        by (auto simp: streaming_def record_advance_def)
    next
      case False
      with assms(5) f have "la' = la\<lparr>la_point := AtAsync\<rparr>" by (simp add: after_burst_def burst_step_def Fetched)
      with assms(3) r(1,2) DBase show ?thesis unfolding streaming_def by auto
    qed
  next
    case (DFused kind)
    then have f: "fe_op f = components kind ! 0" "fe_fused f = Some (kind, di_a r)" "fe_fault_ip f = vm_ip (la_vm la)"
      using r(2,3) by (auto simp: record_fetched_def)
    have "sync_lane_op (fe_op f)" by (cases kind) (simp_all add: f sync_lane_op_def)
    with assms(5) f obtain vm vm1 where ex: "exec_fused F (vm_ip (la_vm la)) kind (di_a r) vm1 = VNext vm"
      and la': "la' = la\<lparr>la_vm := vm, la_point := OnRecords (record_advance src')\<rparr>"
      by (auto simp: after_burst_def burst_step_def Fetched Let_def split: vm_out.splits)
    have "on_record F d (vm_ip vm)"
      using tiles_next [OF decode_tiles(1) [OF assms(1,2)] r(1)] exec_fused_ip [OF ex] r(2) DFused by (simp add: on_record_def)
    with la' assms(3) r(4) show ?thesis by (auto simp: streaming_def record_advance_def)
  qed
next
  case NoFetch
  have "\<not> vm_ip (la_vm la) \<in> starts (dc_records d)"
    using byte_to_record_complete [OF assms(1,2), of "vm_ip (la_vm la)"] NoFetch assms(3,4)
    by (auto simp: record_fetch_def resync_def streaming_def split: option.splits if_splits)
  then have "vm_ip (la_vm la) = length (c_code F)" using assms(3) by (auto simp: streaming_def on_record_def)
  with NoFetch assms(3,5) show ?thesis by (auto simp: after_burst_def burst_step_def streaming_def)
qed (use assms(5) in \<open>simp add: after_burst_def burst_step_def\<close>)

lemma step_streaming:
  assumes "decode_chunk F True = Ok d" and "length (c_code F) < 2 ^ 31" and "ln_sync_lane cfg" and "ln_decode cfg"
    and "streaming F d la" and "lane_step cfg en F la = LNext la'"
  shows "streaming F d la'"
proof (cases "la_point la")
  case AtTop
  with assms(3-6) select_streaming [OF assms(1), of "la_slot la" cfg "vm_ip (la_vm la)"]
    byte_to_record_complete [OF assms(1,2), of "vm_ip (la_vm la)"]
  show ?thesis
    by (auto simp: lane_step_def streaming_def at_entry_def on_record_def split: option.splits)
next
  case (OnRecords src)
  with assms(6) burst_streaming [OF assms(1,2,5) OnRecords, of en la'] show ?thesis by (simp add: lane_step_def)
next
  case OnBytes
  with assms(5,6) show ?thesis
    by (simp add: lane_step_def streaming_def after_burst_def burst_step_def byte_fetch_def vec_get_def)
next
  case AtAsync
  with assms(5,6) obtain r op vm where "r \<in> set (dc_records d)" "unat (di_off r) = vm_ip (la_vm la)" "di_op r = DBase op"
    "vm_step en F (la_vm la) = VNext vm" "la' = la\<lparr>la_vm := vm, la_point := AtTop\<rparr>"
    by (auto simp: streaming_def lane_step_def split: vm_out.splits)
  with base_step_on_record [OF assms(1,2), of r "la_vm la" op en vm] assms(5) show ?thesis by (auto simp: streaming_def)
qed

lemma run_streaming:
  assumes "decode_chunk F True = Ok d" and "length (c_code F) < 2 ^ 31" and "ln_sync_lane cfg" and "ln_decode cfg"
    and "streaming F d la" and "lane_run n cfg en F la = LNext la'"
  shows "streaming F d la'"
  using assms(5,6)
proof (induction n arbitrary: la)
  case (Suc n)
  then show ?case using step_streaming [OF assms(1-4)] by (auto split: lane_out.splits)
qed simp

text \<open>
  C14: once a chunk is decoded, a run from its first byte never leaves the records for the bytes: every jump
  lands on the first byte of a record, also after the peephole, and every instruction is followed by a record.
  Only running off the end of the code, which verified code does not do, leads to the byte source.
\<close>

theorem records_suffice:
  assumes "decode_chunk F True = Ok d" and "length (c_code F) < 2 ^ 31" and "ln_sync_lane cfg" and "ln_decode cfg"
    and "ds_decoded slot = Some d" and "vm_ip vm = 0"
    and "lane_run n cfg en F (lane_start slot vm) = LNext la" and "la_point la = OnBytes"
  shows "vm_ip (la_vm la) = length (c_code F)"
proof -
  have "on_record F d 0"
    using decode_tiles(1) [OF assms(1,2)] by (cases "dc_records d") (auto simp: on_record_def starts_def record_ok_def)
  then have "streaming F d (lane_start slot vm)" using assms(5,6) by (simp add: streaming_def lane_start_def)
  from run_streaming [OF assms(1-4) this assms(7)] assms(8) show ?thesis by (simp add: streaming_def)
qed

text \<open>\<open>nil\<close>, and the end of the code: the one way to the byte source.\<close>

definition nil_chunk :: chunk where
  "nil_chunk = chunk_new\<lparr>c_code := [op_as_u8 Op_Nil]\<rparr>"

definition nil_stream :: decoded_chunk where
  "nil_stream = \<lparr>dc_records = [\<lparr>di_op = DBase Op_Nil, di_a = 0, di_b = 0, di_off = 0\<rparr>], dc_entry_index = [(0, 0)],
     dc_own_epoch = 0, dc_deps = []\<rparr>"

lemma nil_decodes: "decode_chunk nil_chunk True = Ok nil_stream"
  by (simp add: nil_chunk_def nil_stream_def decode_simps chunk_new_def flat_default_def chunk_flat.defs chunk.defs del: op_as_u8.simps)

lemma nil_lane:
  fixes en :: "nat engine"
  defines "slot \<equiv> \<lparr>ds_decoded = Some nil_stream, ds_warmth = 1\<rparr>"
  shows "\<exists>la. lane_run 3 eager_cfg en nil_chunk (lane_start slot sample_vm) = LNext la \<and> la_point la = OnBytes"
proof -
  let ?vm = "sample_vm\<lparr>vm_ip := 1, vm_stack := [RNil]\<rparr>"
  let ?at = "\<lambda>vm point. \<lparr>la_vm = vm, la_point = point, la_slot = slot\<rparr>"
  note defs = lane_step_def lane_start_def sample_vm_def at_entry_def byte_to_record_def partition_point_def nil_stream_def
    vec_get_def after_burst_def burst_step_def record_fetch_def need_resync_def resync_def record_fetched_def record_advance_def
    sync_lane_op_def step_push_def push_def
  have "lane_step eager_cfg en nil_chunk (lane_start slot sample_vm) = LNext (?at sample_vm (OnRecords \<lparr>rc_d = nil_stream, rc_idx = 0\<rparr>))"
    using select_streaming [OF nil_decodes, of slot eager_cfg 0] by (simp add: defs slot_def eager_cfg_def)
  moreover have "lane_step eager_cfg en nil_chunk (?at sample_vm (OnRecords \<lparr>rc_d = nil_stream, rc_idx = 0\<rparr>))
      = LNext (?at ?vm (OnRecords \<lparr>rc_d = nil_stream, rc_idx = 1\<rparr>))"
    by (simp add: defs)
  moreover have "lane_step eager_cfg en nil_chunk (?at ?vm (OnRecords \<lparr>rc_d = nil_stream, rc_idx = 1\<rparr>)) = LNext (?at ?vm OnBytes)"
    by (simp add: defs)
  ultimately show ?thesis by (simp add: numeral_3_eq_3)
qed

theorem records_suffice_witness:
  "\<forall>en :: nat engine. \<exists>la. lane_run 3 eager_cfg en nil_chunk (lane_start \<lparr>ds_decoded = Some nil_stream, ds_warmth = 1\<rparr> sample_vm) = LNext la
     \<and> la_point la = OnBytes \<and> vm_ip (la_vm la) = 1"
proof
  fix en :: "nat engine"
  let ?slot = "\<lparr>ds_decoded = Some nil_stream, ds_warmth = 1\<rparr>"
  obtain la where la: "lane_run 3 eager_cfg en nil_chunk (lane_start ?slot sample_vm) = LNext la" "la_point la = OnBytes"
    using nil_lane by blast
  have "vm_ip (la_vm la) = length (c_code nil_chunk)"
    by (rule records_suffice [OF nil_decodes _ _ _ _ _ la]) (simp_all add: nil_chunk_def eager_cfg_def sample_vm_def)
  with la show "\<exists>la. lane_run 3 eager_cfg en nil_chunk (lane_start ?slot sample_vm) = LNext la
     \<and> la_point la = OnBytes \<and> vm_ip (la_vm la) = 1" by (auto simp: nil_chunk_def)
qed

end
