(* ===== verification/Literals.thy ===== *)
theory Literals
  imports F64
begin

text \<open>
  Characters and the text of literals (\<open>src/src/lex_literals.rs\<close>, and the slicing of token texts of
  \<open>src/src/compile/mod.rs\<close>): escapes, number texts, delimiters.  Source text is a list of code points, as the
  lexers see it (\<open>src.chars().collect()\<close>).

  The classes of characters are those of Rust's \<open>char\<close>.  On ASCII they are written out; on other code points
  \<open>is_alphabetic\<close> and \<open>is_numeric\<close> are the Unicode tables, which \<open>unicode\<close> holds.
\<close>

section \<open>Characters\<close>

type_synonym uchar = nat
type_synonym utext = "uchar list"

abbreviation ch :: "char \<Rightarrow> uchar" where
  "ch c \<equiv> of_char c"

record unicode =
  un_alphabetic :: "uchar \<Rightarrow> bool"
  un_numeric :: "uchar \<Rightarrow> bool"

definition is_ascii_digit :: "uchar \<Rightarrow> bool" where
  "is_ascii_digit c \<longleftrightarrow> 48 \<le> c \<and> c \<le> 57"

definition is_ascii_hexdigit :: "uchar \<Rightarrow> bool" where
  "is_ascii_hexdigit c \<longleftrightarrow> is_ascii_digit c \<or> 65 \<le> c \<and> c \<le> 70 \<or> 97 \<le> c \<and> c \<le> 102"

definition is_alphabetic :: "unicode \<Rightarrow> uchar \<Rightarrow> bool" where
  "is_alphabetic u c \<longleftrightarrow> 65 \<le> c \<and> c \<le> 90 \<or> 97 \<le> c \<and> c \<le> 122 \<or> 128 \<le> c \<and> un_alphabetic u c"

definition is_alphanumeric :: "unicode \<Rightarrow> uchar \<Rightarrow> bool" where
  "is_alphanumeric u c \<longleftrightarrow> is_alphabetic u c \<or> is_ascii_digit c \<or> 128 \<le> c \<and> un_numeric u c"

text \<open>The code points with the property \<open>White_Space\<close>.\<close>

definition is_whitespace :: "uchar \<Rightarrow> bool" where
  "is_whitespace c \<longleftrightarrow> 9 \<le> c \<and> c \<le> 13 \<or> c = 32 \<or> c = 0x85 \<or> c = 0xA0 \<or> c = 0x1680
     \<or> 0x2000 \<le> c \<and> c \<le> 0x200A \<or> c = 0x2028 \<or> c = 0x2029 \<or> c = 0x202F \<or> c = 0x205F \<or> c = 0x3000"

section \<open>Escapes\<close>

definition escape_char :: "uchar \<Rightarrow> uchar" where
  "escape_char c =
     (if c = ch (CHR ''n'') then 10 else if c = ch (CHR ''t'') then 9 else if c = ch (CHR ''r'') then 13
      else if c = ch (CHR ''0'') then 0 else c)"

fun unescape_str_body :: "utext \<Rightarrow> utext" where
  "unescape_str_body [] = []"
| "unescape_str_body (c # cs) =
     (if c = 0x5C then (case cs of e # rest \<Rightarrow> escape_char e # unescape_str_body rest | [] \<Rightarrow> [0x5C])
      else c # unescape_str_body cs)"

definition template_escape :: "uchar \<Rightarrow> uchar" where
  "template_escape e = (if e = 0x60 then 0x60 else if e = ch (CHR ''$'') then ch (CHR ''$'') else escape_char e)"

fun unescape_template_body :: "utext \<Rightarrow> utext" where
  "unescape_template_body [] = []"
| "unescape_template_body (c # cs) =
     (if c = 0x5C then (case cs of e # rest \<Rightarrow> template_escape e # unescape_template_body rest | [] \<Rightarrow> [0x5C])
      else c # unescape_template_body cs)"

section \<open>Delimiters\<close>

definition strip_quotes :: "utext \<Rightarrow> utext" where
  "strip_quotes s =
     (if 2 \<le> length s \<and> (hd s = 0x22 \<or> hd s = 0x27) \<and> hd s = last s then butlast (tl s) else s)"

definition strip_template_delims :: "utext \<Rightarrow> utext" where
  "strip_template_delims s =
     (let after_open = (if s \<noteq> [] \<and> (hd s = 0x60 \<or> hd s = ch (CHR ''}'')) then tl s else s) in
      if 2 \<le> length after_open \<and> drop (length after_open - 2) after_open = [ch (CHR ''$''), ch (CHR ''{'')]
        then take (length after_open - 2) after_open
      else if after_open \<noteq> [] \<and> last after_open = 0x60 then butlast after_open
      else after_open)"

section \<open>Numbers\<close>

datatype num_lit = LInt "64 word" | LFloat f64

datatype num_lit_error = Invalid | InvalidDigit | OutOfRange

text \<open>\<open>char::to_digit\<close> and \<open>i64::from_str_radix\<close>, which reads from the left and stops at the first failure.\<close>

definition to_digit :: "uchar \<Rightarrow> nat \<Rightarrow> nat option" where
  "to_digit c radix =
     (let d = (if is_ascii_digit c then c - 48 else if 97 \<le> c \<and> c \<le> 122 then c - 87
               else if 65 \<le> c \<and> c \<le> 90 then c - 55 else radix) in
      if d < radix then Some d else None)"

datatype int_error = IntEmpty | IntInvalidDigit | IntPosOverflow | IntNegOverflow

fun radix_digits :: "nat \<Rightarrow> int \<Rightarrow> utext \<Rightarrow> int \<Rightarrow> (int, int_error) result" where
  "radix_digits radix sign [] acc = Ok acc"
| "radix_digits radix sign (c # cs) acc =
     (let overflow = (if sign = 1 then IntPosOverflow else IntNegOverflow); mul = acc * int radix in
      case to_digit c radix of
        None \<Rightarrow> Err IntInvalidDigit
      | Some d \<Rightarrow>
          if mul < I64_MIN \<or> I64_MAX < mul then Err overflow
          else if mul + sign * int d < I64_MIN \<or> I64_MAX < mul + sign * int d then Err overflow
          else radix_digits radix sign cs (mul + sign * int d))"

definition from_str_radix :: "utext \<Rightarrow> nat \<Rightarrow> (int, int_error) result" where
  "from_str_radix s radix =
     (case s of
        [] \<Rightarrow> Err IntEmpty
      | c # cs \<Rightarrow>
          if c = ch (CHR ''+'') \<or> c = ch (CHR ''-'') then
            if cs = [] then Err IntInvalidDigit else radix_digits radix (if c = ch (CHR ''-'') then - 1 else 1) cs 0
          else radix_digits radix 1 s 0)"

text \<open>
  \<open>f64::from_str\<close>: an optional sign, digits with an optional point, an optional exponent; the result is the
  number rounded to the format.  The words it also knows have neither a point nor an \<open>e\<close>.
\<close>

definition digits_value :: "utext \<Rightarrow> nat" where
  "digits_value ds = foldl (\<lambda>n d. 10 * n + (d - 48)) 0 ds"

definition split_sign :: "utext \<Rightarrow> bool \<times> utext" where
  "split_sign s = (case s of c # cs \<Rightarrow> if c = ch (CHR ''-'') then (True, cs) else if c = ch (CHR ''+'') then (False, cs) else (False, s)
     | [] \<Rightarrow> (False, []))"

definition parse_exponent :: "utext \<Rightarrow> int option" where
  "parse_exponent s =
     (case s of
        [] \<Rightarrow> Some 0
      | _ # s' \<Rightarrow> (case split_sign s' of (neg, ds) \<Rightarrow>
          if ds \<noteq> [] \<and> list_all is_ascii_digit ds then Some (if neg then - int (digits_value ds) else int (digits_value ds)) else None))"

definition parse_f64 :: "utext \<Rightarrow> f64 option" where
  "parse_f64 s =
     (case split_sign s of (neg, body) \<Rightarrow>
      let mant = takeWhile (\<lambda>c. c \<noteq> ch (CHR ''e'') \<and> c \<noteq> ch (CHR ''E'')) body;
          ip = takeWhile (\<lambda>c. c \<noteq> ch (CHR ''.'')) mant;
          fp = drop (length ip + 1) mant in
      if list_all is_ascii_digit (ip @ fp) \<and> ip @ fp \<noteq> [] then
        map_option (\<lambda>e. let x = of_nat (digits_value (ip @ fp)) * 10 powi (e - int (length fp)) in f64_of neg (if neg then - x else x))
          (parse_exponent (drop (length mant) body))
      else None)"

definition radix_prefix :: "utext \<Rightarrow> nat option" where
  "radix_prefix s =
     (case s of
        a # b # _ \<Rightarrow>
          if a \<noteq> ch (CHR ''0'') then None
          else if b = ch (CHR ''x'') \<or> b = ch (CHR ''X'') then Some 16
          else if b = ch (CHR ''b'') \<or> b = ch (CHR ''B'') then Some 2
          else if b = ch (CHR ''o'') \<or> b = ch (CHR ''O'') then Some 8
          else None
      | _ \<Rightarrow> None)"

definition parse_number_text :: "utext \<Rightarrow> (num_lit, num_lit_error) result" where
  "parse_number_text s =
     (case radix_prefix s of
        Some radix \<Rightarrow>
          let digits = filter (\<lambda>c. c \<noteq> ch (CHR ''_'')) (drop 2 s) in
          if digits = [] then Err Invalid
          else (case from_str_radix digits radix of
              Ok n \<Rightarrow> Ok (LInt (of_int n))
            | Err IntPosOverflow \<Rightarrow> Err OutOfRange
            | Err IntNegOverflow \<Rightarrow> Err OutOfRange
            | Err IntInvalidDigit \<Rightarrow> Err InvalidDigit
            | Err IntEmpty \<Rightarrow> Err Invalid
            | Panic \<Rightarrow> Panic)
      | None \<Rightarrow>
          let cleaned = filter (\<lambda>c. c \<noteq> ch (CHR ''_'')) s in
          if ch (CHR ''.'') \<in> set cleaned \<or> ch (CHR ''e'') \<in> set cleaned \<or> ch (CHR ''E'') \<in> set cleaned
            then (case parse_f64 cleaned of Some f \<Rightarrow> Ok (LFloat f) | None \<Rightarrow> Err Invalid)
          else (case from_str_radix cleaned 10 of
              Ok n \<Rightarrow> Ok (LInt (of_int n))
            | Err IntPosOverflow \<Rightarrow> Err OutOfRange
            | Err IntNegOverflow \<Rightarrow> Err OutOfRange
            | Err _ \<Rightarrow> Err Invalid
            | Panic \<Rightarrow> Panic))"

section \<open>Integer literals\<close>

lemma digits_grow: "(n :: nat) \<le> foldl (\<lambda>n d. 10 * n + (d - 48)) n ds"
proof (induction ds arbitrary: n)
  case (Cons d ds)
  have "n \<le> 10 * n + (d - 48)" by simp
  also have "\<dots> \<le> foldl (\<lambda>n d. 10 * n + (d - 48)) (10 * n + (d - 48)) ds" by (rule Cons.IH)
  finally show ?case by simp
qed simp

lemma to_digit_decimal: "is_ascii_digit c \<Longrightarrow> to_digit c 10 = Some (c - 48)"
  by (auto simp: to_digit_def is_ascii_digit_def Let_def)

lemma radix_digits_decimal:
  "list_all is_ascii_digit ds \<Longrightarrow> int n \<le> I64_MAX \<Longrightarrow> radix_digits 10 1 ds (int n) =
    (let v = foldl (\<lambda>n d. 10 * n + (d - 48)) n ds in if int v \<le> I64_MAX then Ok (int v) else Err IntPosOverflow)"
proof (induction ds arbitrary: n)
  case (Cons d ds)
  let ?n = "10 * n + (d - 48)"
  have n: "int n * 10 + int (d - 48) = int ?n" by simp
  have low: "\<not> int m < I64_MIN" for m by (simp add: I64_MIN_def)
  show ?case
  proof (cases "int ?n \<le> I64_MAX")
    case True
    then have "int n * 10 \<le> I64_MAX" by simp
    with True Cons.IH [of ?n] Cons.prems(1) low [of "n * 10"] low [of ?n] show ?thesis
      by (simp add: to_digit_decimal n Let_def)
  next
    case False
    have "\<not> int (foldl (\<lambda>n d. 10 * n + (d - 48)) ?n ds) \<le> I64_MAX" using False digits_grow [of ?n ds] by linarith
    with False Cons.prems(1) show ?thesis by (simp add: to_digit_decimal n Let_def)
  qed
qed (simp add: Let_def)

text \<open>
  C22: a decimal integer literal, with or without separators, reads as the number its digits denote when that is an
  \<open>i64\<close>, and is out of range otherwise: it never wraps and never becomes a float.
\<close>

theorem int_literal_exact:
  assumes "s \<noteq> []" and "is_ascii_digit (hd s)" and "list_all (\<lambda>c. is_ascii_digit c \<or> c = ch (CHR ''_'')) s"
  shows "parse_number_text s =
    (let v = digits_value (filter (\<lambda>c. c \<noteq> ch (CHR ''_'')) s) in
     if v < 2 ^ 63 then Ok (LInt (of_nat v)) else Err OutOfRange)"
proof -
  let ?ds = "filter (\<lambda>c. c \<noteq> ch (CHR ''_'')) s"
  have ds: "list_all is_ascii_digit ?ds" using assms(3) by (auto simp: list_all_iff)
  obtain c cs where s: "s = c # cs" "is_ascii_digit c" using assms(1,2) by (cases s) auto
  then have hd: "c \<noteq> 95" "c \<noteq> 43" "c \<noteq> 45" by (auto simp: is_ascii_digit_def)
  have "radix_prefix s = None" using assms(3) s by (cases cs) (auto simp: radix_prefix_def is_ascii_digit_def)
  moreover have "46 \<notin> set ?ds" "101 \<notin> set ?ds" "69 \<notin> set ?ds" using ds by (auto simp: list_all_iff is_ascii_digit_def)
  moreover have "from_str_radix ?ds 10 = radix_digits 10 1 ?ds (int 0)" using s hd by (simp add: from_str_radix_def)
  ultimately show ?thesis using radix_digits_decimal [OF ds, of 0]
    by (auto simp: parse_number_text_def digits_value_def I64_MAX_def Let_def)
qed

text \<open>\<open>1_000\<close>, and the first number above the range.\<close>

theorem int_literal_exact_witness:
  "parse_number_text (map ch ''1_000'') = Ok (LInt 1000) \<and> parse_number_text (map ch ''9223372036854775808'') = Err OutOfRange"
  using int_literal_exact [of "map ch ''1_000''"] int_literal_exact [of "map ch ''9223372036854775808''"]
  by (simp add: is_ascii_digit_def digits_value_def)


end
