(* ===== verification/CstLexer.thy ===== *)
theory CstLexer
  imports Literals
begin

text \<open>
  The lexer of the lossless front end (\<open>src/src/syntax/lexer.rs\<close>, the token kinds of \<open>syntax/kind.rs\<close>).  It
  emits every lexeme with its text, whitespace and comments included, and reports problems beside the tokens.

  The source loops over an index into the characters; here the characters from that index on are the
  argument, and a scanner returns how many of them it takes.  The stack of open templates has its top in front.
\<close>

section \<open>Kinds\<close>

datatype (plugins only: size) syntax_kind =
    K_Whitespace | K_Newline | K_LineComment | K_BlockComment | K_Number | K_Str | K_Ident | K_TemplateStr |
    K_TemplateStart | K_TemplateMiddle | K_TemplateEnd | K_Plus | K_Minus | K_Star | K_Slash | K_Percent |
    K_StarStar | K_LParen | K_RParen | K_LBrace | K_RBrace | K_HashLBrace | K_LBracket | K_RBracket | K_Comma |
    K_Dot | K_Colon | K_Semicolon | K_Bang | K_BangEq | K_EqEq | K_Eq | K_Lt | K_Le | K_Gt | K_Ge | K_AmpAmp |
    K_PipePipe | K_QuestionQuestion | K_Question | K_QuestionDot | K_Pipe | K_Amp | K_Caret | K_Tilde | K_Shl |
    K_Shr | K_PlusPercent | K_MinusPercent | K_StarPercent | K_PlusEq | K_MinusEq | K_StarEq | K_SlashEq | K_DotDot |
    K_DotDotEq | K_DotDotDot | K_FatArrow | K_TrueKw | K_FalseKw | K_NilKw | K_LetKw | K_ConstKw | K_IfKw |
    K_ElseKw | K_WhileKw | K_ForKw | K_InKw | K_OfKw | K_InstanceofKw | K_ReturnKw | K_BreakKw | K_ContinueKw |
    K_FnKw | K_EnumKw | K_MatchKw | K_ClassKw | K_InterfaceKw | K_DeferKw | K_ImportKw | K_ExportKw | K_AsyncKw |
    K_AwaitKw | K_YieldKw | K_Error

definition is_trivia :: "syntax_kind \<Rightarrow> bool" where
  "is_trivia k \<longleftrightarrow> k \<in> {K_Whitespace, K_Newline, K_LineComment, K_BlockComment}"

text \<open>The attribute \<open>static_text\<close>.\<close>

definition keyword_table :: "(utext \<times> syntax_kind) list" where
  "keyword_table =
    [(map ch ''true'', K_TrueKw),
     (map ch ''false'', K_FalseKw),
     (map ch ''nil'', K_NilKw),
     (map ch ''let'', K_LetKw),
     (map ch ''const'', K_ConstKw),
     (map ch ''if'', K_IfKw),
     (map ch ''else'', K_ElseKw),
     (map ch ''while'', K_WhileKw),
     (map ch ''for'', K_ForKw),
     (map ch ''in'', K_InKw),
     (map ch ''of'', K_OfKw),
     (map ch ''instanceof'', K_InstanceofKw),
     (map ch ''return'', K_ReturnKw),
     (map ch ''break'', K_BreakKw),
     (map ch ''continue'', K_ContinueKw),
     (map ch ''fn'', K_FnKw),
     (map ch ''enum'', K_EnumKw),
     (map ch ''match'', K_MatchKw),
     (map ch ''class'', K_ClassKw),
     (map ch ''interface'', K_InterfaceKw),
     (map ch ''defer'', K_DeferKw),
     (map ch ''import'', K_ImportKw),
     (map ch ''export'', K_ExportKw),
     (map ch ''async'', K_AsyncKw),
     (map ch ''await'', K_AwaitKw),
     (map ch ''yield'', K_YieldKw)]"

definition operator_table :: "(utext \<times> syntax_kind) list" where
  "operator_table =
    [(map ch ''+'', K_Plus),
     (map ch ''-'', K_Minus),
     (map ch ''*'', K_Star),
     (map ch ''/'', K_Slash),
     (map ch ''%'', K_Percent),
     (map ch ''**'', K_StarStar),
     (map ch ''('', K_LParen),
     (map ch '')'', K_RParen),
     (map ch ''{'', K_LBrace),
     (map ch ''}'', K_RBrace),
     (map ch ''#{'', K_HashLBrace),
     (map ch ''['', K_LBracket),
     (map ch '']'', K_RBracket),
     (map ch '','', K_Comma),
     (map ch ''.'', K_Dot),
     (map ch '':'', K_Colon),
     (map ch '';'', K_Semicolon),
     (map ch ''!'', K_Bang),
     (map ch ''!='', K_BangEq),
     (map ch ''=='', K_EqEq),
     (map ch ''='', K_Eq),
     (map ch ''<'', K_Lt),
     (map ch ''<='', K_Le),
     (map ch ''>'', K_Gt),
     (map ch ''>='', K_Ge),
     (map ch ''&&'', K_AmpAmp),
     (map ch ''||'', K_PipePipe),
     (map ch ''??'', K_QuestionQuestion),
     (map ch ''?'', K_Question),
     (map ch ''?.'', K_QuestionDot),
     (map ch ''|'', K_Pipe),
     (map ch ''&'', K_Amp),
     (map ch ''^'', K_Caret),
     (map ch ''~'', K_Tilde),
     (map ch ''<<'', K_Shl),
     (map ch ''>>'', K_Shr),
     (map ch ''+%'', K_PlusPercent),
     (map ch ''-%'', K_MinusPercent),
     (map ch ''*%'', K_StarPercent),
     (map ch ''+='', K_PlusEq),
     (map ch ''-='', K_MinusEq),
     (map ch ''*='', K_StarEq),
     (map ch ''/='', K_SlashEq),
     (map ch ''..'', K_DotDot),
     (map ch ''..='', K_DotDotEq),
     (map ch ''...'', K_DotDotDot),
     (map ch ''=>'', K_FatArrow)]"

definition static_text :: "syntax_kind \<Rightarrow> utext option" where
  "static_text k = map_option fst (find (\<lambda>(_, k'). k' = k) (operator_table @ keyword_table))"

definition keyword_kind :: "utext \<Rightarrow> syntax_kind option" where
  "keyword_kind s = map_of keyword_table s"

record lex_token =
  lt_kind :: syntax_kind
  lt_text :: utext

datatype lex_message = UnterminatedString | UnterminatedTemplate | UnterminatedBlock

record lex_error =
  le_message :: lex_message
  le_token :: nat

definition render :: "lex_token list \<Rightarrow> utext" where
  "render tokens = concat (map lt_text tokens)"

section \<open>Scanners\<close>

definition run_length :: "(uchar \<Rightarrow> bool) \<Rightarrow> utext \<Rightarrow> nat" where
  "run_length P cs = length (takeWhile P cs)"

definition after :: "nat \<Rightarrow> nat \<times> bool \<Rightarrow> nat \<times> bool" where
  "after k r = (k + fst r, snd r)"

text \<open>The rest of a block comment, after its opening.\<close>

fun block_end :: "utext \<Rightarrow> nat \<times> bool" where
  "block_end (a # b # cs) = (if a = ch (CHR ''*'') \<and> b = ch (CHR ''/'') then (2, True) else after 1 (block_end (b # cs)))"
| "block_end cs = (length cs, False)"

definition dec_or_sep :: "uchar \<Rightarrow> bool" where
  "dec_or_sep c \<longleftrightarrow> is_ascii_digit c \<or> c = ch (CHR ''_'')"

definition starts_radix :: "utext \<Rightarrow> char \<Rightarrow> char \<Rightarrow> bool" where
  "starts_radix cs x X \<longleftrightarrow> (case cs of a # b # _ \<Rightarrow> a = ch (CHR ''0'') \<and> (b = ch x \<or> b = ch X) | _ \<Rightarrow> False)"

definition scan_fraction :: "utext \<Rightarrow> nat" where
  "scan_fraction cs = (case cs of
      d # e # rest \<Rightarrow> if d = ch (CHR ''.'') \<and> is_ascii_digit e then 1 + run_length dec_or_sep (e # rest) else 0
    | _ \<Rightarrow> 0)"

definition scan_exponent :: "utext \<Rightarrow> nat" where
  "scan_exponent cs = (case cs of
      [] \<Rightarrow> 0
    | e # rest \<Rightarrow>
        if e = ch (CHR ''e'') \<or> e = ch (CHR ''E'') then
          let j = (case rest of c # _ \<Rightarrow> if c = ch (CHR ''+'') \<or> c = ch (CHR ''-'') then 1 else 0 | [] \<Rightarrow> 0) in
          case drop j rest of
            c # digits \<Rightarrow> if is_ascii_digit c then 1 + j + 1 + run_length is_ascii_digit digits else 0
          | [] \<Rightarrow> 0
        else 0)"

definition scan_number :: "utext \<Rightarrow> nat" where
  "scan_number cs =
     (if starts_radix cs (CHR ''x'') (CHR ''X'') then 2 + run_length (\<lambda>c. is_ascii_hexdigit c \<or> c = ch (CHR ''_'')) (drop 2 cs)
      else if starts_radix cs (CHR ''b'') (CHR ''B'') then 2 + run_length dec_or_sep (drop 2 cs)
      else if starts_radix cs (CHR ''o'') (CHR ''O'') then 2 + run_length dec_or_sep (drop 2 cs)
      else
        let i = run_length dec_or_sep cs;
            i = i + scan_fraction (drop i cs) in
        i + scan_exponent (drop i cs))"

fun scan_string_end :: "uchar \<Rightarrow> utext \<Rightarrow> nat \<times> bool" where
  "scan_string_end q [] = (0, False)"
| "scan_string_end q (c # cs) =
     (if c = 0x5C \<and> cs \<noteq> [] then (case cs of _ # rest \<Rightarrow> after 2 (scan_string_end q rest) | [] \<Rightarrow> (1, False))
      else if c = q then (1, True)
      else after 1 (scan_string_end q cs))"

text \<open>How a stretch of template text ends.\<close>

datatype chunk_end = AtBacktick | AtInterpolation | AtEof

fun template_end :: "utext \<Rightarrow> nat \<times> chunk_end" where
  "template_end [] = (0, AtEof)"
| "template_end (c # cs) =
     (if c = 0x5C \<and> cs \<noteq> [] then
        (case cs of _ # rest \<Rightarrow> (case template_end rest of (n, e) \<Rightarrow> (2 + n, e)) | [] \<Rightarrow> (1, AtEof))
      else if c = 0x60 then (1, AtBacktick)
      else if c = ch (CHR ''$'') \<and> cs \<noteq> [] \<and> hd cs = ch (CHR ''{'') then (2, AtInterpolation)
      else (case template_end cs of (n, e) \<Rightarrow> (1 + n, e)))"

definition scan_template_chunk :: "utext \<Rightarrow> bool \<Rightarrow> syntax_kind \<times> nat \<times> bool" where
  "scan_template_chunk cs from_backtick =
     (case template_end (tl cs) of (n, e) \<Rightarrow>
        (if e = AtInterpolation then if from_backtick then K_TemplateStart else K_TemplateMiddle
         else if from_backtick then K_TemplateStr else K_TemplateEnd,
         1 + n, e \<noteq> AtEof))"

text \<open>Three characters, then two, then one.\<close>

definition three_chars :: "(utext \<times> syntax_kind) list" where
  "three_chars =
    [(map ch ''..='', K_DotDotEq), (map ch ''...'', K_DotDotDot)]"

definition two_chars :: "(utext \<times> syntax_kind) list" where
  "two_chars =
    [(map ch ''**'', K_StarStar), (map ch ''=='', K_EqEq), (map ch ''!='', K_BangEq), (map ch ''<='', K_Le),
     (map ch ''>='', K_Ge), (map ch ''&&'', K_AmpAmp), (map ch ''||'', K_PipePipe),
     (map ch ''??'', K_QuestionQuestion), (map ch ''?.'', K_QuestionDot), (map ch ''+='', K_PlusEq),
     (map ch ''-='', K_MinusEq), (map ch ''*='', K_StarEq), (map ch ''/='', K_SlashEq), (map ch ''..'', K_DotDot),
     (map ch ''=>'', K_FatArrow), (map ch ''<<'', K_Shl), (map ch ''>>'', K_Shr), (map ch ''+%'', K_PlusPercent),
     (map ch ''-%'', K_MinusPercent), (map ch ''*%'', K_StarPercent), (map ch ''#{'', K_HashLBrace)]"

definition one_char :: "(utext \<times> syntax_kind) list" where
  "one_char =
    [(map ch ''+'', K_Plus), (map ch ''-'', K_Minus), (map ch ''*'', K_Star), (map ch ''/'', K_Slash),
     (map ch ''%'', K_Percent), (map ch ''('', K_LParen), (map ch '')'', K_RParen), (map ch ''{'', K_LBrace),
     (map ch ''}'', K_RBrace), (map ch ''['', K_LBracket), (map ch '']'', K_RBracket), (map ch '','', K_Comma),
     (map ch ''.'', K_Dot), (map ch '':'', K_Colon), (map ch '';'', K_Semicolon), (map ch ''!'', K_Bang),
     (map ch ''='', K_Eq), (map ch ''<'', K_Lt), (map ch ''>'', K_Gt), (map ch ''|'', K_Pipe),
     (map ch ''&'', K_Amp), (map ch ''^'', K_Caret), (map ch ''~'', K_Tilde), (map ch ''?'', K_Question)]"

definition match_operator :: "utext \<Rightarrow> (syntax_kind \<times> nat) option" where
  "match_operator cs =
     (case map_of three_chars (take 3 cs) of
        Some k \<Rightarrow> Some (k, 3)
      | None \<Rightarrow> (case map_of two_chars (take 2 cs) of
          Some k \<Rightarrow> Some (k, 2)
        | None \<Rightarrow> map_option (\<lambda>k. (k, 1)) (map_of one_char (take 1 cs))))"

section \<open>The loop\<close>

definition next_is :: "utext \<Rightarrow> char \<Rightarrow> bool" where
  "next_is cs c \<longleftrightarrow> (case cs of _ # d # _ \<Rightarrow> d = ch c | _ \<Rightarrow> False)"

definition unless :: "bool \<Rightarrow> lex_message \<Rightarrow> lex_message option" where
  "unless terminated m = (if terminated then None else Some m)"

text \<open>One lexeme: its kind, its length and what is wrong with it.\<close>

definition scan_token :: "unicode \<Rightarrow> nat \<Rightarrow> (nat \<times> nat) list \<Rightarrow> utext \<Rightarrow> syntax_kind \<times> nat \<times> lex_message option" where
  "scan_token u brace_depth template_stack cs =
     (let c = hd cs in
      if c = 10 then (K_Newline, 1, None)
      else if is_whitespace c then (K_Whitespace, run_length (\<lambda>d. is_whitespace d \<and> d \<noteq> 10) cs, None)
      else if c = ch (CHR ''/'') \<and> next_is cs (CHR ''/'') then (K_LineComment, 2 + run_length (\<lambda>d. d \<noteq> 10) (drop 2 cs), None)
      else if c = ch (CHR ''/'') \<and> next_is cs (CHR ''*'') then
        (case block_end (drop 2 cs) of (n, terminated) \<Rightarrow> (K_BlockComment, 2 + n, unless terminated UnterminatedBlock))
      else if is_ascii_digit c then (K_Number, scan_number cs, None)
      else if is_alphabetic u c \<or> c = ch (CHR ''_'') then
        (let j = 1 + run_length (\<lambda>d. is_alphanumeric u d \<or> d = ch (CHR ''_'')) (tl cs) in
         (case keyword_kind (take j cs) of Some k \<Rightarrow> k | None \<Rightarrow> K_Ident, j, None))
      else if c = 0x22 \<or> c = 0x27 then
        (case scan_string_end c (tl cs) of (n, terminated) \<Rightarrow> (K_Str, 1 + n, unless terminated UnterminatedString))
      else if c = 0x60 then
        (case scan_template_chunk cs True of (k, n, terminated) \<Rightarrow> (k, n, unless terminated UnterminatedTemplate))
      else if c = ch (CHR ''}'') \<and> template_stack \<noteq> [] \<and> fst (hd template_stack) = brace_depth then
        (case scan_template_chunk cs False of (k, n, terminated) \<Rightarrow> (k, n, unless terminated UnterminatedTemplate))
      else (case match_operator cs of Some (k, n) \<Rightarrow> (k, n, None) | None \<Rightarrow> (K_Error, 1, None)))"

definition depth_after :: "syntax_kind \<Rightarrow> nat \<Rightarrow> nat" where
  "depth_after k brace_depth =
     (if k = K_LBrace \<or> k = K_HashLBrace then brace_depth + 1 else if k = K_RBrace then brace_depth - 1 else brace_depth)"

definition stack_after :: "syntax_kind \<Rightarrow> nat \<Rightarrow> nat \<Rightarrow> (nat \<times> nat) list \<Rightarrow> (nat \<times> nat) list" where
  "stack_after k brace_depth token stack =
     (if k = K_TemplateStart then (brace_depth, token) # stack else if k = K_TemplateEnd then tl stack else stack)"

lemma run_length_pos: "cs \<noteq> [] \<Longrightarrow> P (hd cs) \<Longrightarrow> 0 < run_length P cs"
  by (cases cs) (auto simp: run_length_def)

lemma scan_number_pos: "cs \<noteq> [] \<Longrightarrow> is_ascii_digit (hd cs) \<Longrightarrow> 0 < scan_number cs"
  using run_length_pos [of cs dec_or_sep] by (auto simp: scan_number_def dec_or_sep_def Let_def)

lemma scan_template_pos: "scan_template_chunk cs b = (k, n, t) \<Longrightarrow> 0 < n"
  by (auto simp: scan_template_chunk_def split: prod.splits)

lemma match_operator_pos: "match_operator cs = Some (k, n) \<Longrightarrow> 0 < n"
  by (auto simp: match_operator_def Let_def split: option.splits)

lemma scan_token_pos:
  assumes "cs \<noteq> []" and "scan_token u bd st cs = (k, n, e)"
  shows "0 < n"
  using assms run_length_pos [OF assms(1), of "\<lambda>d. is_whitespace d \<and> d \<noteq> 10"] scan_number_pos [OF assms(1)]
  by (auto simp: scan_token_def Let_def dest: scan_template_pos match_operator_pos split: if_splits prod.splits option.splits)

text \<open>The tokens from the one with number \<open>token\<close> on; at the end of the text every open template is a problem.\<close>

function lex_loop :: "unicode \<Rightarrow> utext \<Rightarrow> nat \<Rightarrow> (nat \<times> nat) list \<Rightarrow> nat \<Rightarrow> lex_token list \<times> lex_error list" where
  "lex_loop u cs brace_depth template_stack token =
     (if cs = [] then ([], map (\<lambda>(_, t). \<lparr>le_message = UnterminatedTemplate, le_token = t\<rparr>) (rev template_stack))
      else
        case scan_token u brace_depth template_stack cs of (k, n, problem) \<Rightarrow>
        case lex_loop u (drop n cs) (depth_after k brace_depth) (stack_after k brace_depth token template_stack) (token + 1) of (out, errors) \<Rightarrow>
          (\<lparr>lt_kind = k, lt_text = take n cs\<rparr> # out,
           (case problem of Some m \<Rightarrow> [\<lparr>le_message = m, le_token = token\<rparr>] | None \<Rightarrow> []) @ errors))"
  by pat_completeness auto
termination
  by (relation "measure (\<lambda>(_, cs, _). length cs)")
    (auto dest!: sym [of _ "scan_token _ _ _ _"] dest: scan_token_pos intro!: diff_less)

declare lex_loop.simps [simp del]

definition lex_with_errors :: "unicode \<Rightarrow> utext \<Rightarrow> lex_token list \<times> lex_error list" where
  "lex_with_errors u src = lex_loop u src 0 [] 0"

end
