(* ===== verification/Lexer.thy ===== *)
theory Lexer
  imports CstLexer
begin

text \<open>
  The lexer of the tree-walking front end (\<open>src/src/lexer.rs\<close>, the tokens of \<open>src/src/token.rs\<close>).  It drops
  whitespace and comments, decodes literals while it scans and stops at the first problem.  As in \<open>CstLexer\<close> the
  argument is the characters from the index on, and the stack of open templates has its top in front.
\<close>

section \<open>Tokens\<close>

datatype (plugins only: size) tok =
    T_Int "64 word" | T_Float f64 | T_Str utext | T_Ident utext | T_TemplateStr utext | T_TemplateStart utext |
    T_TemplateMiddle utext | T_TemplateEnd utext | T_Plus | T_Minus | T_Star | T_Slash | T_Percent | T_StarStar |
    T_LParen | T_RParen | T_LBrace | T_RBrace | T_HashBrace | T_LBracket | T_RBracket | T_Comma | T_Dot | T_Colon |
    T_Semicolon | T_Bang | T_BangEq | T_EqEq | T_Eq | T_Lt | T_Le | T_Gt | T_Ge | T_AmpAmp | T_PipePipe |
    T_QuestionQuestion | T_Question | T_QuestionDot | T_Pipe | T_Amp | T_Caret | T_Tilde | T_Shl | T_Shr |
    T_PlusPercent | T_MinusPercent | T_StarPercent | T_PlusEq | T_MinusEq | T_StarEq | T_SlashEq | T_DotDot |
    T_DotDotEq | T_DotDotDot | T_FatArrow | T_True | T_False | T_Nil | T_Let | T_Const | T_If | T_Else | T_While |
    T_For | T_In | T_Of | T_Instanceof | T_Return | T_Break | T_Continue | T_Fn | T_Enum | T_Match | T_Class |
    T_Interface | T_Defer | T_Import | T_Export | T_Async | T_Await | T_Yield | T_Eof

record token =
  tk_tok :: tok
  tk_start :: nat
  tk_end :: nat

datatype number_label = HexLabel | OctalLabel | BinaryLabel | NumberLabel

datatype problem = Unexpected uchar | NoQuote | NoBacktick | NoBlockEnd | BadNumber number_label num_lit_error

record lex_failure =
  lf_problem :: problem
  lf_start :: nat
  lf_end :: nat

fun num_lit_token :: "num_lit \<Rightarrow> tok" where
  "num_lit_token (LInt i) = T_Int i"
| "num_lit_token (LFloat f) = T_Float f"

section \<open>Strings and templates\<close>

text \<open>The contents and how many characters they take, or the end of the text.\<close>

fun lex_quoted :: "uchar \<Rightarrow> utext \<Rightarrow> (utext \<times> nat) option" where
  "lex_quoted quote [] = None"
| "lex_quoted quote (c # cs) =
     (if c = quote then Some ([], 1)
      else if c = 0x5C \<and> cs \<noteq> [] then
        (case cs of e # rest \<Rightarrow> map_option (\<lambda>(s, n). (escape_char e # s, 2 + n)) (lex_quoted quote rest) | [] \<Rightarrow> None)
      else map_option (\<lambda>(s, n). (c # s, 1 + n)) (lex_quoted quote cs))"

datatype template_chunk = Full | Start

fun lex_template_chunk :: "utext \<Rightarrow> (utext \<times> nat \<times> template_chunk) option" where
  "lex_template_chunk [] = None"
| "lex_template_chunk (c # cs) =
     (if c = 0x60 then Some ([], 1, Full)
      else if c = ch (CHR ''$'') \<and> cs \<noteq> [] \<and> hd cs = ch (CHR ''{'') then Some ([], 2, Start)
      else if c = 0x5C \<and> cs \<noteq> [] then
        (case cs of e # rest \<Rightarrow> map_option (\<lambda>(s, n, k). (template_escape e # s, 2 + n, k)) (lex_template_chunk rest) | [] \<Rightarrow> None)
      else map_option (\<lambda>(s, n, k). (c # s, 1 + n, k)) (lex_template_chunk cs))"

section \<open>Numbers\<close>

definition legacy_exponent :: "utext \<Rightarrow> nat" where
  "legacy_exponent cs = (case cs of
      [] \<Rightarrow> 0
    | e # rest \<Rightarrow>
        if e = ch (CHR ''e'') \<or> e = ch (CHR ''E'') then
          let sign = (\<lambda>c. c = ch (CHR ''+'') \<or> c = ch (CHR ''-''));
              exp_ok = (rest \<noteq> [] \<and> is_ascii_digit (hd rest)
                \<or> 2 \<le> length rest \<and> sign (rest ! 0) \<and> is_ascii_digit (rest ! 1)) in
          if exp_ok then
            let j = (if sign (hd rest) then 1 else 0) in 1 + j + run_length is_ascii_digit (drop j rest)
          else 0
        else 0)"

definition legacy_number :: "utext \<Rightarrow> nat \<times> number_label" where
  "legacy_number cs =
     (if 2 \<le> length cs \<and> cs ! 0 = ch (CHR ''0'') \<and> cs ! 1 \<in> ch ` {CHR ''x'', CHR ''X'', CHR ''b'', CHR ''B'', CHR ''o'', CHR ''O''} then
        let radix_char = cs ! 1; hex = (radix_char = ch (CHR ''x'') \<or> radix_char = ch (CHR ''X'')) in
        (2 + run_length (\<lambda>c. (if hex then is_ascii_hexdigit c else is_ascii_digit c) \<or> c = ch (CHR ''_'')) (drop 2 cs),
         if hex then HexLabel else if radix_char = ch (CHR ''o'') \<or> radix_char = ch (CHR ''O'') then OctalLabel else BinaryLabel)
      else
        let j = run_length dec_or_sep cs;
            j = j + scan_fraction (drop j cs) in
        (j + legacy_exponent (drop j cs), NumberLabel))"

section \<open>One arm of the loop\<close>

text \<open>An operator of two characters, or the one of the first.\<close>

definition op_arm :: "utext \<Rightarrow> (char \<times> tok) list \<Rightarrow> tok \<Rightarrow> tok \<times> nat" where
  "op_arm cs alts one =
     (case cs of
        _ # d # _ \<Rightarrow> (case find (\<lambda>(c, _). ch c = d) alts of Some (_, t) \<Rightarrow> (t, 2) | None \<Rightarrow> (one, 1))
      | _ \<Rightarrow> (one, 1))"

definition dot_arm :: "utext \<Rightarrow> tok \<times> nat" where
  "dot_arm cs =
     (if take 3 cs = map ch ''...'' then (T_DotDotDot, 3)
      else if take 3 cs = map ch ''..='' then (T_DotDotEq, 3)
      else if take 2 cs = map ch ''..'' then (T_DotDot, 2)
      else (T_Dot, 1))"

text \<open>The loop over a block comment leaves the last character when it does not find the end.\<close>

fun legacy_block :: "utext \<Rightarrow> nat \<times> bool" where
  "legacy_block (a # b # cs) = (if a = ch (CHR ''*'') \<and> b = ch (CHR ''/'') then (2, True) else after 1 (legacy_block (b # cs)))"
| "legacy_block cs = (0, False)"

definition keyword_tok :: "utext \<Rightarrow> tok" where
  "keyword_tok s = (case map_of
    [(map ch ''true'', T_True),
     (map ch ''false'', T_False),
     (map ch ''nil'', T_Nil),
     (map ch ''let'', T_Let),
     (map ch ''const'', T_Const),
     (map ch ''if'', T_If),
     (map ch ''else'', T_Else),
     (map ch ''while'', T_While),
     (map ch ''for'', T_For),
     (map ch ''in'', T_In),
     (map ch ''of'', T_Of),
     (map ch ''instanceof'', T_Instanceof),
     (map ch ''return'', T_Return),
     (map ch ''break'', T_Break),
     (map ch ''continue'', T_Continue),
     (map ch ''fn'', T_Fn),
     (map ch ''enum'', T_Enum),
     (map ch ''match'', T_Match),
     (map ch ''class'', T_Class),
     (map ch ''interface'', T_Interface),
     (map ch ''defer'', T_Defer),
     (map ch ''import'', T_Import),
     (map ch ''export'', T_Export),
     (map ch ''async'', T_Async),
     (map ch ''await'', T_Await),
     (map ch ''yield'', T_Yield)] s of
     Some t \<Rightarrow> t | None \<Rightarrow> T_Ident s)"

definition fail_at :: "problem \<Rightarrow> nat \<Rightarrow> nat \<Rightarrow> ('a, lex_failure) result" where
  "fail_at p s e = Err \<lparr>lf_problem = p, lf_start = s, lf_end = e\<rparr>"

text \<open>A token, if the arm makes one, the characters it takes, and the new depth and stack.\<close>

definition lex_arm :: "unicode \<Rightarrow> nat \<Rightarrow> nat \<Rightarrow> nat list \<Rightarrow> utext
    \<Rightarrow> (tok option \<times> nat \<times> nat \<times> nat list, lex_failure) result" where
  "lex_arm u start brace_depth template_stack cs =
     (let c = hd cs;
          op = (\<lambda>(t, n). Ok (Some t, n, brace_depth, template_stack));
          skip = (\<lambda>n. Ok (None, n, brace_depth, template_stack));
          stop = start + length cs in
      if is_whitespace c then skip 1
      else if c = ch (CHR ''+'') then op (op_arm cs [(CHR ''='', T_PlusEq), (CHR ''%'', T_PlusPercent)] T_Plus)
      else if c = ch (CHR ''-'') then op (op_arm cs [(CHR ''='', T_MinusEq), (CHR ''%'', T_MinusPercent)] T_Minus)
      else if c = ch (CHR ''*'') then op (op_arm cs [(CHR ''*'', T_StarStar), (CHR ''='', T_StarEq), (CHR ''%'', T_StarPercent)] T_Star)
      else if c = ch (CHR ''!'') then op (op_arm cs [(CHR ''='', T_BangEq)] T_Bang)
      else if c = ch (CHR ''='') then op (op_arm cs [(CHR ''='', T_EqEq), (CHR ''>'', T_FatArrow)] T_Eq)
      else if c = ch (CHR ''<'') then op (op_arm cs [(CHR ''='', T_Le), (CHR ''<'', T_Shl)] T_Lt)
      else if c = ch (CHR ''>'') then op (op_arm cs [(CHR ''='', T_Ge), (CHR ''>'', T_Shr)] T_Gt)
      else if c = ch (CHR ''&'') then op (op_arm cs [(CHR ''&'', T_AmpAmp)] T_Amp)
      else if c = ch (CHR ''^'') then op (T_Caret, 1)
      else if c = ch (CHR ''~'') then op (T_Tilde, 1)
      else if c = ch (CHR ''|'') then op (op_arm cs [(CHR ''|'', T_PipePipe)] T_Pipe)
      else if c = ch (CHR ''?'') then op (op_arm cs [(CHR ''?'', T_QuestionQuestion), (CHR ''.'', T_QuestionDot)] T_Question)
      else if c = ch (CHR ''/'') then
        if next_is cs (CHR ''/'') then skip (2 + run_length (\<lambda>d. d \<noteq> 10) (drop 2 cs))
        else if next_is cs (CHR ''*'') then
          (case legacy_block (drop 2 cs) of (n, found) \<Rightarrow> if found then skip (2 + n) else fail_at NoBlockEnd start (start + 2 + n))
        else op (op_arm cs [(CHR ''='', T_SlashEq)] T_Slash)
      else if c = ch (CHR ''.'') then op (dot_arm cs)
      else if c = ch (CHR ''%'') then op (T_Percent, 1)
      else if c = ch (CHR ''('') then op (T_LParen, 1)
      else if c = ch (CHR '')'') then op (T_RParen, 1)
      else if c = ch (CHR '','') then op (T_Comma, 1)
      else if c = ch (CHR '';'') then op (T_Semicolon, 1)
      else if c = ch (CHR '':'') then op (T_Colon, 1)
      else if c = ch (CHR ''#'') then
        if next_is cs (CHR ''{'') then Ok (Some T_HashBrace, 2, brace_depth + 1, template_stack)
        else fail_at (Unexpected c) start (start + 1)
      else if c = ch (CHR ''{'') then Ok (Some T_LBrace, 1, brace_depth + 1, template_stack)
      else if c = ch (CHR ''}'') then
        if template_stack \<noteq> [] \<and> brace_depth = hd template_stack then
          (case lex_template_chunk (tl cs) of
             None \<Rightarrow> fail_at NoBacktick start stop
           | Some (s, n, Full) \<Rightarrow> Ok (Some (T_TemplateEnd s), 1 + n, brace_depth, tl template_stack)
           | Some (s, n, Start) \<Rightarrow> Ok (Some (T_TemplateMiddle s), 1 + n, brace_depth, brace_depth # tl template_stack))
        else Ok (Some T_RBrace, 1, brace_depth - 1, template_stack)
      else if c = ch (CHR ''['') then op (T_LBracket, 1)
      else if c = ch (CHR '']'') then op (T_RBracket, 1)
      else if c = 0x22 \<or> c = 0x27 then
        (case lex_quoted c (tl cs) of
           None \<Rightarrow> fail_at NoQuote start stop
         | Some (s, n) \<Rightarrow> op (T_Str s, 1 + n))
      else if c = 0x60 then
        (case lex_template_chunk (tl cs) of
           None \<Rightarrow> fail_at NoBacktick start stop
         | Some (s, n, Full) \<Rightarrow> op (T_TemplateStr s, 1 + n)
         | Some (s, n, Start) \<Rightarrow> Ok (Some (T_TemplateStart s), 1 + n, brace_depth, brace_depth # template_stack))
      else if is_ascii_digit c then
        (case legacy_number cs of (j, label) \<Rightarrow>
           (case parse_number_text (take j cs) of
              Ok lit \<Rightarrow> op (num_lit_token lit, j)
            | Err e \<Rightarrow> fail_at (BadNumber label e) start (start + j)
            | Panic \<Rightarrow> Panic))
      else if is_alphabetic u c \<or> c = ch (CHR ''_'') then
        (let j = run_length (\<lambda>d. is_alphanumeric u d \<or> d = ch (CHR ''_'')) cs in op (keyword_tok (take j cs), j))
      else fail_at (Unexpected c) start (start + 1))"

lemma legacy_number_pos: "cs \<noteq> [] \<Longrightarrow> is_ascii_digit (hd cs) \<Longrightarrow> 0 < fst (legacy_number cs)"
  using run_length_pos [of cs dec_or_sep] by (auto simp: legacy_number_def dec_or_sep_def Let_def)

lemma op_arm_pos: "op_arm cs alts one = (t, n) \<Longrightarrow> 0 < n"
  by (auto simp: op_arm_def split: list.splits option.splits)

lemma dot_arm_pos: "dot_arm cs = (t, n) \<Longrightarrow> 0 < n"
  by (auto simp: dot_arm_def split: if_splits)

lemma lex_arm_pos:
  assumes "cs \<noteq> []" and "lex_arm u start d st cs = Ok (t, n, d', st')"
  shows "0 < n"
proof -
  let ?ident = "\<lambda>d. is_alphanumeric u d \<or> d = ch (CHR ''_'')"
  have ident: "is_alphabetic u (hd cs) \<or> hd cs = ch (CHR ''_'') \<Longrightarrow> 0 < run_length ?ident cs"
    by (rule run_length_pos [OF assms(1)]) (auto simp: is_alphanumeric_def)
  with assms(2) ident legacy_number_pos [OF assms(1)] show ?thesis
    by (auto simp: lex_arm_def fail_at_def Let_def dest: op_arm_pos dot_arm_pos split: if_splits prod.splits option.splits template_chunk.splits result.splits)
qed

section \<open>The loop\<close>

text \<open>The tokens from the index \<open>start\<close> on.\<close>

function legacy_loop :: "unicode \<Rightarrow> nat \<Rightarrow> utext \<Rightarrow> nat \<Rightarrow> nat list \<Rightarrow> (token list, lex_failure) result" where
  "legacy_loop u start cs brace_depth template_stack =
     (if cs = [] then Ok [\<lparr>tk_tok = T_Eof, tk_start = start, tk_end = start\<rparr>]
      else
        case lex_arm u start brace_depth template_stack cs of
          Ok (t, n, depth, stack) \<Rightarrow>
            res_bind (legacy_loop u (start + n) (drop n cs) depth stack) (\<lambda>tokens.
              Ok (case t of Some t \<Rightarrow> \<lparr>tk_tok = t, tk_start = start, tk_end = start + n\<rparr> # tokens | None \<Rightarrow> tokens))
        | Err e \<Rightarrow> Err e
        | Panic \<Rightarrow> Panic)"
  by pat_completeness auto
termination
  by (relation "measure (\<lambda>(_, _, cs, _). length cs)") (auto dest: lex_arm_pos intro!: diff_less)

declare legacy_loop.simps [simp del]

definition lex :: "unicode \<Rightarrow> utext \<Rightarrow> (token list, lex_failure) result" where
  "lex u src = legacy_loop u 0 src 0 []"

end
