(* ===== verification/LexerAgreement.thy ===== *)
theory LexerAgreement
  imports Lexer
begin

text \<open>
  The two lexers.  The lossless one loses nothing, locates its problems and gives the kinds with a fixed text
  that text.  Read through the literal helpers that the compiler uses, its tokens are those of the other one:
  both front ends see the same program.
\<close>

section \<open>The tokens of the lossless lexer, read by the compiler\<close>

text \<open>The label of a number that does not read, as in \<open>literal_const_value\<close>.\<close>

definition label_of :: "utext \<Rightarrow> number_label" where
  "label_of s = (case radix_prefix s of None \<Rightarrow> NumberLabel | Some r \<Rightarrow> if r = 16 then HexLabel else if r = 8 then OctalLabel else BinaryLabel)"

definition fixed_tok :: "syntax_kind \<Rightarrow> tok option" where
  "fixed_tok k = map_of
    [(K_Plus, T_Plus), (K_Minus, T_Minus), (K_Star, T_Star), (K_Slash, T_Slash), (K_Percent, T_Percent),
     (K_StarStar, T_StarStar), (K_LParen, T_LParen), (K_RParen, T_RParen), (K_LBrace, T_LBrace),
     (K_RBrace, T_RBrace), (K_HashLBrace, T_HashBrace), (K_LBracket, T_LBracket), (K_RBracket, T_RBracket),
     (K_Comma, T_Comma), (K_Dot, T_Dot), (K_Colon, T_Colon), (K_Semicolon, T_Semicolon), (K_Bang, T_Bang),
     (K_BangEq, T_BangEq), (K_EqEq, T_EqEq), (K_Eq, T_Eq), (K_Lt, T_Lt), (K_Le, T_Le), (K_Gt, T_Gt), (K_Ge, T_Ge),
     (K_AmpAmp, T_AmpAmp), (K_PipePipe, T_PipePipe), (K_QuestionQuestion, T_QuestionQuestion),
     (K_Question, T_Question), (K_QuestionDot, T_QuestionDot), (K_Pipe, T_Pipe), (K_Amp, T_Amp), (K_Caret, T_Caret),
     (K_Tilde, T_Tilde), (K_Shl, T_Shl), (K_Shr, T_Shr), (K_PlusPercent, T_PlusPercent),
     (K_MinusPercent, T_MinusPercent), (K_StarPercent, T_StarPercent), (K_PlusEq, T_PlusEq), (K_MinusEq, T_MinusEq),
     (K_StarEq, T_StarEq), (K_SlashEq, T_SlashEq), (K_DotDot, T_DotDot), (K_DotDotEq, T_DotDotEq),
     (K_DotDotDot, T_DotDotDot), (K_FatArrow, T_FatArrow), (K_TrueKw, T_True), (K_FalseKw, T_False),
     (K_NilKw, T_Nil), (K_LetKw, T_Let), (K_ConstKw, T_Const), (K_IfKw, T_If), (K_ElseKw, T_Else),
     (K_WhileKw, T_While), (K_ForKw, T_For), (K_InKw, T_In), (K_OfKw, T_Of), (K_InstanceofKw, T_Instanceof),
     (K_ReturnKw, T_Return), (K_BreakKw, T_Break), (K_ContinueKw, T_Continue), (K_FnKw, T_Fn), (K_EnumKw, T_Enum),
     (K_MatchKw, T_Match), (K_ClassKw, T_Class), (K_InterfaceKw, T_Interface), (K_DeferKw, T_Defer),
     (K_ImportKw, T_Import), (K_ExportKw, T_Export), (K_AsyncKw, T_Async), (K_AwaitKw, T_Await), (K_YieldKw, T_Yield)] k"

text \<open>The token that a lexeme stands for; \<open>bad\<close> says that a problem was reported for it.\<close>

definition read_token :: "nat \<Rightarrow> bool \<Rightarrow> lex_token \<Rightarrow> (tok option, lex_failure) result" where
  "read_token start bad t =
     (let k = lt_kind t; s = lt_text t; n = length s in
      if k = K_BlockComment \<and> bad then fail_at NoBlockEnd start (start + max 2 (n - 1))
      else if is_trivia k then Ok None
      else if k = K_Error then fail_at (Unexpected (hd s)) start (start + 1)
      else if k = K_Str then
        if bad then fail_at NoQuote start (start + n) else Ok (Some (T_Str (unescape_str_body (strip_quotes s))))
      else if k = K_TemplateStr then
        if bad then fail_at NoBacktick start (start + n) else Ok (Some (T_TemplateStr (unescape_template_body (strip_template_delims s))))
      else if k = K_TemplateEnd then
        if bad then fail_at NoBacktick start (start + n) else Ok (Some (T_TemplateEnd (unescape_template_body (strip_template_delims s))))
      else if k = K_TemplateStart then
        if bad then fail_at NoBacktick start (start + n) else Ok (Some (T_TemplateStart (unescape_template_body (strip_template_delims s))))
      else if k = K_TemplateMiddle then Ok (Some (T_TemplateMiddle (unescape_template_body (strip_template_delims s))))
      else if k = K_Number then
        (case parse_number_text s of
           Ok lit \<Rightarrow> Ok (Some (num_lit_token lit))
         | Err e \<Rightarrow> fail_at (BadNumber (label_of s) e) start (start + n)
         | Panic \<Rightarrow> Panic)
      else if k = K_Ident then Ok (Some (T_Ident s))
      else Ok (fixed_tok k))"

fun read_tokens :: "nat \<Rightarrow> nat set \<Rightarrow> nat \<Rightarrow> lex_token list \<Rightarrow> (token list, lex_failure) result" where
  "read_tokens start bad i [] = Ok [\<lparr>tk_tok = T_Eof, tk_start = start, tk_end = start\<rparr>]"
| "read_tokens start bad i (t # ts) =
     res_bind (read_token start (i \<in> bad) t) (\<lambda>tok.
     res_bind (read_tokens (start + length (lt_text t)) bad (i + 1) ts) (\<lambda>tokens.
       Ok (case tok of Some tok \<Rightarrow> \<lparr>tk_tok = tok, tk_start = start, tk_end = start + length (lt_text t)\<rparr> # tokens | None \<Rightarrow> tokens)))"

section \<open>The scanners agree\<close>

lemma exponent_agree: "legacy_exponent cs = scan_exponent cs"
proof (cases cs)
  case (Cons e rest)
  show ?thesis
  proof (cases rest)
    case (Cons c r)
    then show ?thesis using \<open>cs = e # rest\<close>
      by (cases r) (auto simp: legacy_exponent_def scan_exponent_def run_length_def is_ascii_digit_def Let_def)
  qed (simp add: Cons legacy_exponent_def scan_exponent_def)
qed (simp add: legacy_exponent_def scan_exponent_def)

lemma label_take: "2 \<le> n \<Longrightarrow> label_of (take n (a # b # cs)) = label_of (a # b # cs)"
  by (cases n; cases "n - 1") (auto simp: label_of_def radix_prefix_def)

lemma dec_or_sep_abs: "(\<lambda>c. is_ascii_digit c \<or> c = 95) = dec_or_sep"
  by (auto simp: dec_or_sep_def)

lemma number_agree:
  assumes "cs = c # rest" and "is_ascii_digit c"
  shows "legacy_number cs = (scan_number cs, label_of (take (scan_number cs) cs))"
proof (cases rest)
  case Nil
  with assms show ?thesis
    by (simp add: legacy_number_def scan_number_def starts_radix_def run_length_def dec_or_sep_def scan_fraction_def scan_exponent_def
      legacy_exponent_def label_of_def radix_prefix_def)
next
  case (Cons d r)
  show ?thesis
  proof (cases "radix_prefix cs")
    case None
    have "label_of (take n cs) = NumberLabel" for n
      using None assms(1) Cons by (cases n; cases "n - 1") (auto simp: label_of_def radix_prefix_def)
    with None show ?thesis using assms(1) Cons
      by (auto simp: legacy_number_def scan_number_def starts_radix_def exponent_agree radix_prefix_def Let_def split: if_splits)
  next
    case (Some rdx)
    then show ?thesis using assms(1) Cons label_take [of _ c d r]
      by (auto simp: legacy_number_def scan_number_def starts_radix_def radix_prefix_def label_of_def Let_def dec_or_sep_abs split: if_splits)
  qed
qed

lemma quoted_agree:
  "q \<noteq> 0x5C \<Longrightarrow> scan_string_end q cs = (n, t)
    \<Longrightarrow> (if t then 0 < n \<and> n \<le> length cs \<and> cs ! (n - 1) = q \<and> lex_quoted q cs = Some (unescape_str_body (take (n - 1) cs), n)
        else n = length cs \<and> lex_quoted q cs = None)"
proof (induction q cs arbitrary: n t rule: scan_string_end.induct)
  case (2 q c cs)
  consider (esc) e rest where "c = 0x5C" "cs = e # rest" | (fin) "c = q" | (other) "c \<noteq> q" "c \<noteq> 0x5C \<or> cs = []"
    by (cases cs) auto
  then show ?case
  proof cases
    case esc
    obtain m where m: "scan_string_end q rest = (m, t)" "n = Suc (Suc m)"
      using 2(4) esc by (cases "scan_string_end q rest") (auto simp: after_def)
    from 2(1) [of e rest] 2(3) m(1) esc
    have ih: "if t then 0 < m \<and> m \<le> length rest \<and> rest ! (m - 1) = q \<and> lex_quoted q rest = Some (unescape_str_body (take (m - 1) rest), m)
        else m = length rest \<and> lex_quoted q rest = None" by simp
    show ?thesis
    proof (cases t)
      case True
      with ih obtain k where "m = Suc k" by (cases m) auto
      with True ih m(2) esc 2(3) show ?thesis by simp
    qed (use ih m(2) esc 2(3) in simp)
  next
    case fin
    with 2(3,4) show ?thesis by auto
  next
    case other
    obtain m where m: "scan_string_end q cs = (m, t)" "n = Suc m"
      using 2(4) other by (cases "scan_string_end q cs") (auto simp: after_def)
    from 2(2) 2(3) m(1) other
    have ih: "if t then 0 < m \<and> m \<le> length cs \<and> cs ! (m - 1) = q \<and> lex_quoted q cs = Some (unescape_str_body (take (m - 1) cs), m)
        else m = length cs \<and> lex_quoted q cs = None" by auto
    show ?thesis
    proof (cases t)
      case True
      with ih obtain k where "m = Suc k" by (cases m) auto
      with True ih m(2) other 2(3) show ?thesis by auto
    qed (use ih m(2) other in auto)
  qed
qed simp

definition chunk_agrees :: "utext \<Rightarrow> nat \<Rightarrow> chunk_end \<Rightarrow> bool" where
  "chunk_agrees cs n e \<longleftrightarrow> n \<le> length cs \<and> (case e of
      AtBacktick \<Rightarrow> 0 < n \<and> cs ! (n - 1) = 0x60 \<and> lex_template_chunk cs = Some (unescape_template_body (take (n - 1) cs), n, Full)
    | AtInterpolation \<Rightarrow> 2 \<le> n \<and> cs ! (n - 2) = ch (CHR ''$'') \<and> cs ! (n - 1) = ch (CHR ''{'')
        \<and> lex_template_chunk cs = Some (unescape_template_body (take (n - 2) cs), n, Start)
    | AtEof \<Rightarrow> n = length cs \<and> lex_template_chunk cs = None)"

lemma chunk_escape: "chunk_agrees rest m e \<Longrightarrow> chunk_agrees (0x5C # x # rest) (Suc (Suc m)) e"
proof (cases e)
  case AtBacktick
  assume "chunk_agrees rest m e"
  with AtBacktick obtain k where "m = Suc k" by (cases m) (auto simp: chunk_agrees_def)
  with \<open>chunk_agrees rest m e\<close> AtBacktick show ?thesis by (simp add: chunk_agrees_def)
next
  case AtInterpolation
  assume "chunk_agrees rest m e"
  with AtInterpolation obtain k where "m = Suc (Suc k)" by (cases m; cases "m - 1") (auto simp: chunk_agrees_def)
  with \<open>chunk_agrees rest m e\<close> AtInterpolation show ?thesis by (simp add: chunk_agrees_def)
qed (simp add: chunk_agrees_def)

lemma chunk_plain:
  assumes "chunk_agrees cs m e" and "c \<noteq> 0x60" "c \<noteq> 0x5C \<or> cs = []" "\<not> (c = ch (CHR ''$'') \<and> cs \<noteq> [] \<and> hd cs = ch (CHR ''{''))"
  shows "chunk_agrees (c # cs) (Suc m) e"
proof (cases e)
  case AtBacktick
  with assms(1) obtain k where "m = Suc k" by (cases m) (auto simp: chunk_agrees_def)
  with assms AtBacktick show ?thesis by (auto simp: chunk_agrees_def)
next
  case AtInterpolation
  with assms(1) obtain k where "m = Suc (Suc k)" by (cases m; cases "m - 1") (auto simp: chunk_agrees_def)
  with assms AtInterpolation show ?thesis by (auto simp: chunk_agrees_def)
qed (use assms in \<open>auto simp: chunk_agrees_def\<close>)

lemma template_agree: "template_end cs = (n, e) \<Longrightarrow> chunk_agrees cs n e"
proof (induction cs arbitrary: n e rule: template_end.induct)
  case (2 c cs)
  consider (esc) x rest where "c = 0x5C" "cs = x # rest" | (fin) "c = 0x60" | (brace) rest where "c = ch (CHR ''$'')" "cs = ch (CHR ''{'') # rest"
    | (other) "c \<noteq> 0x60" "c \<noteq> 0x5C \<or> cs = []" "\<not> (c = ch (CHR ''$'') \<and> cs \<noteq> [] \<and> hd cs = ch (CHR ''{''))"
    by (cases cs) auto
  then show ?case
  proof cases
    case esc
    obtain m where m: "template_end rest = (m, e)" "n = Suc (Suc m)" using 2(3) esc by (cases "template_end rest") auto
    with 2(1) [of x rest m e] esc chunk_escape show ?thesis by auto
  next
    case other
    obtain m where m: "template_end cs = (m, e)" "n = Suc m" using 2(3) other by (cases "template_end cs") (auto split: if_splits)
    with 2(2) [of m e] other chunk_plain show ?thesis by auto
  qed (use 2(3) in \<open>auto simp: chunk_agrees_def\<close>)
qed (simp add: chunk_agrees_def)

lemma block_agree:
  "block_end cs = (n, t) \<Longrightarrow> legacy_block cs = (if t then n else length cs - 1, t) \<and> (\<not> t \<longrightarrow> n = length cs)"
proof (induction cs arbitrary: n rule: block_end.induct)
  case (1 a b cs)
  obtain m t' where m: "block_end (b # cs) = (m, t')" by fastforce
  with 1 show ?case by (auto simp: after_def split: if_splits)
qed auto

section \<open>Operators\<close>

lemmas operator_defs = match_operator_def three_chars_def two_chars_def one_char_def

definition op_chars :: "uchar list" where
  "op_chars = [43, 45, 42, 33, 61, 60, 62, 38, 94, 126, 124, 63, 47, 46, 37, 40, 41, 44, 59, 58, 35, 123, 125, 91, 93]"

definition op_agrees :: "unicode \<Rightarrow> nat \<Rightarrow> nat \<Rightarrow> (nat \<times> nat) list \<Rightarrow> utext \<Rightarrow> bool" where
  "op_agrees u start d st cs \<longleftrightarrow> lex_arm u start d (map fst st) cs =
     (case match_operator cs of Some (k, n) \<Rightarrow> Ok (fixed_tok k, n, depth_after k d, map fst st) | None \<Rightarrow> fail_at (Unexpected (hd cs)) start (start + 1))"

lemmas op_simps = op_agrees_def lex_arm_def operator_defs op_arm_def dot_arm_def fixed_tok_def depth_after_def next_is_def is_whitespace_def
  fail_at_def Let_def

lemma op_simple:
  "op_agrees u start d st (43 # rest)"
  "op_agrees u start d st (45 # rest)"
  "op_agrees u start d st (42 # rest)"
  "op_agrees u start d st (33 # rest)"
  "op_agrees u start d st (61 # rest)"
  "op_agrees u start d st (60 # rest)"
  "op_agrees u start d st (62 # rest)"
  "op_agrees u start d st (38 # rest)"
  "op_agrees u start d st (94 # rest)"
  "op_agrees u start d st (126 # rest)"
  "op_agrees u start d st (124 # rest)"
  "op_agrees u start d st (63 # rest)"
  "op_agrees u start d st (37 # rest)"
  "op_agrees u start d st (40 # rest)"
  "op_agrees u start d st (41 # rest)"
  "op_agrees u start d st (44 # rest)"
  "op_agrees u start d st (59 # rest)"
  "op_agrees u start d st (58 # rest)"
  "op_agrees u start d st (35 # rest)"
  "op_agrees u start d st (123 # rest)"
  "op_agrees u start d st (91 # rest)"
  "op_agrees u start d st (93 # rest)"
  by (cases rest, (simp add: op_simps; fail), (auto simp: op_simps)[1])+

lemma op_dot: "op_agrees u start d st (46 # rest)"
  by (cases rest; cases "tl rest") (auto simp: op_simps)

lemma op_slash: "\<not> next_is (47 # rest) (CHR ''/'') \<Longrightarrow> \<not> next_is (47 # rest) (CHR ''*'') \<Longrightarrow> op_agrees u start d st (47 # rest)"
  by (cases rest) (auto simp: op_simps)

lemma op_brace: "\<not> (st \<noteq> [] \<and> fst (hd st) = d) \<Longrightarrow> op_agrees u start d st (125 # rest)"
  by (cases rest) (auto simp: op_simps hd_map)

lemma op_char:
  assumes "c \<in> set op_chars" and "c = 47 \<Longrightarrow> \<not> next_is (c # rest) (CHR ''/'') \<and> \<not> next_is (c # rest) (CHR ''*'')"
    and "c = 125 \<Longrightarrow> \<not> (st \<noteq> [] \<and> fst (hd st) = d)"
  shows "op_agrees u start d st (c # rest)"
  using assms op_slash [of rest u start d st] op_brace [of st d u start rest] by (auto simp: op_chars_def op_simple op_dot)

lemma no_op_char:
  assumes "c \<notin> set op_chars" and "\<not> is_whitespace c" "\<not> is_ascii_digit c" "\<not> is_alphabetic u c" "c \<notin> {95, 0x22, 0x27, 0x60}"
  shows "op_agrees u start d st (c # rest)"
  using assms by (simp add: op_chars_def op_agrees_def lex_arm_def operator_defs Let_def)


section \<open>One lexeme\<close>

definition step_agrees :: "unicode \<Rightarrow> nat \<Rightarrow> nat \<Rightarrow> (nat \<times> nat) list \<Rightarrow> nat \<Rightarrow> utext \<Rightarrow> syntax_kind \<times> nat \<times> lex_message option \<Rightarrow> bool" where
  "step_agrees u start d st i cs = (\<lambda>(k, n, e). lex_arm u start d (map fst st) cs =
     (case read_token start (e \<noteq> None) \<lparr>lt_kind = k, lt_text = take n cs\<rparr> of
        Ok t \<Rightarrow> Ok (t, n, depth_after k d, map fst (stack_after k d i st))
      | Err f \<Rightarrow> Err f
      | Panic \<Rightarrow> Panic))"

lemma string_token:
  assumes "q = 0x22 \<or> q = 0x27" and "scan_string_end q cs = (n, t)"
  shows "step_agrees u start d st i (q # cs) (K_Str, 1 + n, unless t UnterminatedString)"
proof -
  have q: "q \<noteq> 0x5C" using assms(1) by auto
  show ?thesis
  proof (cases t)
    case True
    with quoted_agree [OF q assms(2)] obtain m where m: "n = Suc m" "m < length cs" "cs ! m = q"
      "lex_quoted q cs = Some (unescape_str_body (take m cs), n)" by (cases n) auto
    then have "take n cs = take m cs @ [q]" by (simp add: take_Suc_conv_app_nth)
    with m True assms(1) show ?thesis
      by (auto simp: step_agrees_def lex_arm_def read_token_def strip_quotes_def unless_def is_trivia_def is_whitespace_def
        depth_after_def stack_after_def)
  next
    case False
    with quoted_agree [OF q assms(2)] assms(1) show ?thesis
      by (auto simp: step_agrees_def lex_arm_def read_token_def unless_def is_trivia_def is_whitespace_def fail_at_def)
  qed
qed

lemma strip_backtick: "n \<le> length cs \<Longrightarrow> 0 < n \<Longrightarrow> cs ! (n - 1) = 0x60 \<Longrightarrow> o' = 0x60 \<or> o' = ch (CHR ''}'')
    \<Longrightarrow> strip_template_delims (o' # take n cs) = take (n - 1) cs"
proof -
  assume n: "n \<le> length cs" "0 < n" "cs ! (n - 1) = 0x60" and o: "o' = 0x60 \<or> o' = ch (CHR ''}'')"
  then obtain m where m: "n = Suc m" by (cases n) auto
  then have "take n cs = take m cs @ [0x60]" using n by (simp add: take_Suc_conv_app_nth)
  then show ?thesis using m o n by (auto simp: strip_template_delims_def Let_def)
qed

lemma strip_interpolation: "n \<le> length cs \<Longrightarrow> 2 \<le> n \<Longrightarrow> cs ! (n - 2) = ch (CHR ''$'') \<Longrightarrow> cs ! (n - 1) = ch (CHR ''{'')
    \<Longrightarrow> o' = 0x60 \<or> o' = ch (CHR ''}'') \<Longrightarrow> strip_template_delims (o' # take n cs) = take (n - 2) cs"
proof -
  assume n: "n \<le> length cs" "2 \<le> n" "cs ! (n - 2) = ch (CHR ''$'')" "cs ! (n - 1) = ch (CHR ''{'')" and o: "o' = 0x60 \<or> o' = ch (CHR ''}'')"
  then obtain m where m: "n = Suc (Suc m)" by (cases n; cases "n - 1") auto
  then have "take n cs = take m cs @ [ch (CHR ''$''), ch (CHR ''{'')]" using n by (simp add: take_Suc_conv_app_nth)
  then show ?thesis using m o n by (auto simp: strip_template_delims_def Let_def)
qed


lemmas arm_simps = step_agrees_def lex_arm_def read_token_def unless_def is_trivia_def is_whitespace_def fail_at_def
  depth_after_def stack_after_def scan_template_chunk_def

lemma template_token:
  assumes "template_end cs = (n, e)"
  shows "step_agrees u start d st i (0x60 # cs) (case scan_template_chunk (0x60 # cs) True of (k, n, t) \<Rightarrow> (k, n, unless t UnterminatedTemplate))"
  using template_agree [OF assms] strip_backtick [of n cs] strip_interpolation [of n cs] assms
  by (cases e) (auto simp: arm_simps chunk_agrees_def)

lemma resumed_token:
  assumes "template_end cs = (n, e)" and "st \<noteq> []" "fst (hd st) = d"
  shows "step_agrees u start d st i (125 # cs) (case scan_template_chunk (125 # cs) False of (k, n, t) \<Rightarrow> (k, n, unless t UnterminatedTemplate))"
  using template_agree [OF assms(1)] strip_backtick [of n cs] strip_interpolation [of n cs] assms
  by (cases e; cases st) (auto simp: arm_simps chunk_agrees_def)

lemma block_token:
  assumes "block_end cs = (n, t)"
  shows "step_agrees u start d st i (47 # 42 # cs) (K_BlockComment, 2 + n, unless t UnterminatedBlock)"
  using block_agree [OF assms] by (cases t) (auto simp: arm_simps next_is_def)

lemma line_token: "step_agrees u start d st i (47 # 47 # cs) (K_LineComment, 2 + run_length (\<lambda>d. d \<noteq> 10) cs, None)"
  by (simp add: arm_simps next_is_def)

lemma run_length_le: "run_length P cs \<le> length cs"
  by (simp add: run_length_def length_takeWhile_le)

lemma scan_number_le:
  assumes "cs \<noteq> []"
  shows "scan_number cs \<le> length cs"
proof -
  have fraction: "scan_fraction xs \<le> length xs" for xs
    using run_length_le [of dec_or_sep "tl xs"] by (auto simp: scan_fraction_def split: list.splits)
  have exponent: "scan_exponent xs \<le> length xs" for xs
  proof (cases xs)
    case (Cons e rest)
    show ?thesis
    proof (cases rest)
      case (Cons c r)
      then show ?thesis using run_length_le [of is_ascii_digit r] run_length_le [of is_ascii_digit "tl r"] \<open>xs = e # rest\<close>
        by (cases r) (auto simp: scan_exponent_def)
    qed (simp add: scan_exponent_def Cons)
  qed (simp add: scan_exponent_def)
  have radix: "starts_radix cs x X \<Longrightarrow> 2 + run_length P (drop 2 cs) \<le> length cs" for x X P
    using run_length_le [of P "drop 2 cs"] by (auto simp: starts_radix_def split: list.splits)
  show ?thesis
    using radix run_length_le [of dec_or_sep cs] fraction [of "drop (run_length dec_or_sep cs) cs"]
      exponent [of "drop (run_length dec_or_sep cs + scan_fraction (drop (run_length dec_or_sep cs) cs)) cs"]
    by (auto simp: scan_number_def Let_def)
qed

lemma number_token:
  assumes "is_ascii_digit c"
  shows "step_agrees u start d st i (c # cs) (K_Number, scan_number (c # cs), None)"
proof -
  have n: "scan_number (c # cs) \<le> length (c # cs)" by (rule scan_number_le) simp
  have "48 \<le> c" "c \<le> 57" using assms by (auto simp: is_ascii_digit_def)
  then have arm: "lex_arm u start d (map fst st) (c # cs) = (case legacy_number (c # cs) of (j, label) \<Rightarrow>
           (case parse_number_text (take j (c # cs)) of
              Ok lit \<Rightarrow> Ok (Some (num_lit_token lit), j, d, map fst st)
            | Err e \<Rightarrow> fail_at (BadNumber label e) start (start + j)
            | Panic \<Rightarrow> Panic))"
    by (simp add: lex_arm_def is_whitespace_def assms Let_def split: prod.splits result.splits)
  show ?thesis unfolding step_agrees_def arm number_agree [OF refl assms] using n
    by (cases "parse_number_text (take (scan_number (c # cs)) (c # cs))") (simp_all add: arm_simps)
qed

lemma keyword_agree: "keyword_tok s = (case keyword_kind s of Some k \<Rightarrow> the (fixed_tok k) | None \<Rightarrow> T_Ident s)"
  by (simp add: keyword_tok_def keyword_kind_def keyword_table_def fixed_tok_def)

lemma keyword_kinds:
  "keyword_kind s = Some k \<Longrightarrow> \<not> is_trivia k \<and> k \<notin> {K_Error, K_Str, K_TemplateStr, K_TemplateEnd, K_TemplateStart, K_TemplateMiddle, K_Number, K_Ident,
     K_LBrace, K_HashLBrace, K_RBrace} \<and> fixed_tok k \<noteq> None"
  by (auto simp: keyword_kind_def keyword_table_def fixed_tok_def is_trivia_def split: if_splits)

lemma ident_token:
  assumes "is_alphabetic u c \<or> c = 95" and "\<not> is_whitespace c" "\<not> is_ascii_digit c"
  shows "step_agrees u start d st i (c # cs) (let j = 1 + run_length (\<lambda>d. is_alphanumeric u d \<or> d = 95) cs in
      (case keyword_kind (take j (c # cs)) of Some k \<Rightarrow> k | None \<Rightarrow> K_Ident, j, None))"
proof -
  let ?j = "1 + run_length (\<lambda>d. is_alphanumeric u d \<or> d = 95) cs"
  have run: "run_length (\<lambda>d. is_alphanumeric u d \<or> d = 95) (c # cs) = ?j"
    using assms(1) by (auto simp: run_length_def is_alphanumeric_def)
  have "c \<notin> set op_chars" "c \<notin> {0x22, 0x27, 0x60}" using assms(1) by (auto simp: is_alphabetic_def op_chars_def)
  then have arm: "lex_arm u start d (map fst st) (c # cs) = Ok (Some (keyword_tok (take ?j (c # cs))), ?j, d, map fst st)"
    using assms by (simp add: lex_arm_def op_chars_def run Let_def)
  show ?thesis
  proof (cases "keyword_kind (take ?j (c # cs))")
    case None
    then show ?thesis by (simp add: step_agrees_def arm keyword_agree read_token_def is_trivia_def depth_after_def stack_after_def Let_def)
  next
    case (Some k)
    with keyword_kinds [OF Some] show ?thesis by (auto simp: step_agrees_def arm keyword_agree read_token_def depth_after_def stack_after_def Let_def)
  qed
qed


lemma operator_entry:
  assumes "match_operator cs = Some (k, n)"
  shows "(take n cs, k) \<in> set (three_chars @ two_chars @ one_char) \<and> length (take n cs) = n"
proof -
  have "list_all (\<lambda>(s, _). length s = 3) three_chars" "list_all (\<lambda>(s, _). length s = 2) two_chars" "list_all (\<lambda>(s, _). length s = 1) one_char"
    by (simp_all add: three_chars_def two_chars_def one_char_def)
  with assms show ?thesis unfolding match_operator_def
    by (auto simp: list_all_iff dest!: map_of_SomeD split: option.splits)
qed

lemma op_kinds:
  assumes "match_operator cs = Some (k, n)"
  shows "\<not> is_trivia k \<and> k \<notin> {K_Error, K_Str, K_TemplateStr, K_TemplateEnd, K_TemplateStart, K_TemplateMiddle, K_Number, K_Ident}"
proof -
  have "list_all (\<lambda>(_, k). \<not> is_trivia k \<and> k \<notin> {K_Error, K_Str, K_TemplateStr, K_TemplateEnd, K_TemplateStart, K_TemplateMiddle, K_Number, K_Ident})
      (three_chars @ two_chars @ one_char)"
    by (simp add: three_chars_def two_chars_def one_char_def is_trivia_def)
  with operator_entry [OF assms] show ?thesis by (auto simp: list_all_iff)
qed

lemma op_token:
  assumes "op_agrees u start d st cs" and "cs \<noteq> []"
  shows "step_agrees u start d st i cs (case match_operator cs of Some (k, n) \<Rightarrow> (k, n, None) | None \<Rightarrow> (K_Error, 1, None))"
proof (cases "match_operator cs")
  case None
  with assms show ?thesis by (cases cs) (simp_all add: step_agrees_def op_agrees_def read_token_def is_trivia_def fail_at_def)
next
  case (Some kn)
  obtain k n where kn: "kn = (k, n)" by (cases kn)
  with Some assms(1) op_kinds [of cs k n] show ?thesis
    by (auto simp: step_agrees_def op_agrees_def read_token_def stack_after_def Let_def)
qed

lemma step_agree:
  assumes "\<not> is_whitespace c"
  shows "step_agrees u start d st i (c # cs) (scan_token u d st (c # cs))"
proof -
  have ten: "c \<noteq> 10" using assms by (auto simp: is_whitespace_def)
  consider (line) r where "c = 47" "cs = 47 # r" | (block) r where "c = 47" "cs = 42 # r"
    | (number) "is_ascii_digit c" | (ident) "is_alphabetic u c \<or> c = 95" "\<not> is_ascii_digit c"
    | (quote) "c = 0x22 \<or> c = 0x27" | (template) "c = 0x60" | (resumed) "c = 125" "st \<noteq> []" "fst (hd st) = d"
    | (op) "\<not> is_ascii_digit c" "\<not> is_alphabetic u c" "c \<notin> {95, 0x22, 0x27, 0x60}" "\<not> (c = 125 \<and> st \<noteq> [] \<and> fst (hd st) = d)"
        "\<not> (c = 47 \<and> next_is (c # cs) (CHR ''/''))" "\<not> (c = 47 \<and> next_is (c # cs) (CHR ''*''))"
    by (cases cs) (auto simp: next_is_def)
  then show ?thesis
  proof cases
    case line
    then show ?thesis using line_token [of u start d st i r] by (simp add: scan_token_def next_is_def is_whitespace_def)
  next
    case block
    obtain n t where n: "block_end r = (n, t)" by fastforce
    with block show ?thesis using block_token [OF n, of u start d st i] by (simp add: scan_token_def next_is_def is_whitespace_def)
  next
    case number
    then have "c \<noteq> 47" by (auto simp: is_ascii_digit_def)
    with number assms ten show ?thesis using number_token [OF number, of u start d st i cs] by (simp add: scan_token_def)
  next
    case ident
    then have "c \<noteq> 47" by (auto simp: is_alphabetic_def)
    with ident assms ten show ?thesis using ident_token [OF ident(1) assms ident(2), of start d st i cs]
      by (simp add: scan_token_def Let_def)
  next
    case quote
    obtain n t where n: "scan_string_end c cs = (n, t)" by fastforce
    with quote ten assms show ?thesis using string_token [OF quote n, of u start d st i]
      by (auto simp: scan_token_def is_alphabetic_def is_ascii_digit_def)
  next
    case template
    obtain n e where n: "template_end cs = (n, e)" by fastforce
    with template show ?thesis using template_token [OF n, of u start d st i]
      by (simp add: scan_token_def is_alphabetic_def is_ascii_digit_def is_whitespace_def)
  next
    case resumed
    obtain n e where n: "template_end cs = (n, e)" by fastforce
    with resumed show ?thesis using resumed_token [OF n resumed(2,3), of u start i]
      by (simp add: scan_token_def is_alphabetic_def is_ascii_digit_def is_whitespace_def)
  next
    case op
    have "op_agrees u start d st (c # cs)"
    proof (cases "c \<in> set op_chars")
      case True
      show ?thesis by (rule op_char [OF True]) (use op in auto)
    next
      case False
      show ?thesis by (rule no_op_char [OF False assms]) (use op in auto)
    qed
    from op_token [OF this, of i] op assms ten show ?thesis by (auto simp: scan_token_def)
  qed
qed


section \<open>The loops\<close>

lemma res_bind_Ok_id: "res_bind m Ok = m"
  by (cases m) auto

lemma legacy_skip: "n \<le> length (takeWhile is_whitespace cs) \<Longrightarrow> legacy_loop u start cs d st = legacy_loop u (start + n) (drop n cs) d st"
proof (induction n arbitrary: start cs)
  case (Suc n)
  then obtain c rest where cs: "cs = c # rest" "is_whitespace c" by (cases cs) (auto split: if_splits)
  then have "legacy_loop u start cs d st = legacy_loop u (start + 1) rest d st"
    by (subst legacy_loop.simps) (simp add: lex_arm_def res_bind_Ok_id)
  with Suc cs show ?case by simp
qed simp

lemma run_length_whitespace: "run_length (\<lambda>d. is_whitespace d \<and> d \<noteq> 10) cs \<le> length (takeWhile is_whitespace cs)"
  by (induction cs) (auto simp: run_length_def)

lemma match_operator_le: "match_operator cs = Some (k, n) \<Longrightarrow> n \<le> length cs"
  using operator_entry by fastforce

lemma legacy_block_le: "fst (legacy_block xs) \<le> length xs"
  by (induction xs rule: legacy_block.induct) (auto simp: after_def)

lemma block_end_le: "block_end xs = (m, t) \<Longrightarrow> m \<le> length xs"
  using block_agree [of xs m t] legacy_block_le [of xs] by (cases t) auto

lemma string_end_le: "fst (scan_string_end q xs) \<le> length xs"
  by (induction q xs rule: scan_string_end.induct) (auto simp: after_def split: list.splits)

lemma template_chunk_le: "scan_template_chunk (c # xs) b = (k, m, t) \<Longrightarrow> m \<le> Suc (length xs)"
  using template_agree [of xs] by (auto simp: scan_template_chunk_def chunk_agrees_def split: prod.splits)

lemma scan_token_le:
  assumes "cs \<noteq> []" and "scan_token u d st cs = (k, n, e)"
  shows "n \<le> length cs"
proof -
  obtain c rest where cs: "cs = c # rest" using assms(1) by (cases cs) auto
  note le = run_length_le [of _ "c # rest", simplified] run_length_le [of _ rest] scan_number_le [of "c # rest", simplified]
  have string: "scan_string_end q rest = (m, t) \<Longrightarrow> m \<le> length rest" for q m t using string_end_le [of q rest] by simp
  have two: "Suc (run_length P (drop (Suc 0) rest)) \<le> length rest" "block_end (drop (Suc 0) rest) = (m, t) \<Longrightarrow> Suc m \<le> length rest"
    if "next_is (c # rest) x" for P x m t
    using that run_length_le [of P "tl rest"] block_end_le [of "tl rest" m t] by (cases rest; simp add: next_is_def)+
  show ?thesis
    using assms(2)
    by (auto simp: scan_token_def cs Let_def le two dest: string two template_chunk_le match_operator_le split: if_splits prod.splits option.splits)
qed

lemma stack_after_indices: "p \<in> set (stack_after k d i st) \<Longrightarrow> p \<in> set st \<or> k = K_TemplateStart \<and> p = (d, i)"
  by (cases st) (auto simp: stack_after_def split: if_splits)

lemma error_indices:
  assumes "lex_loop u cs d st i = (out, errs)" and "e \<in> set errs"
  shows "le_token e \<in> snd ` set st \<or> i \<le> le_token e"
  using assms
proof (induction u cs d st i arbitrary: out errs rule: lex_loop.induct)
  case (1 u cs d st i)
  show ?case
  proof (cases "cs = []")
    case False
    obtain k n p where tok: "scan_token u d st cs = (k, n, p)" by (metis prod_cases3)
    obtain out' errs' where tail: "lex_loop u (drop n cs) (depth_after k d) (stack_after k d i st) (i + 1) = (out', errs')" by fastforce
    with 1(2) False tok have errs: "errs = (case p of Some m \<Rightarrow> [\<lparr>le_message = m, le_token = i\<rparr>] | None \<Rightarrow> []) @ errs'"
      by (subst (asm) lex_loop.simps) auto
    show ?thesis
    proof (cases "e \<in> set errs'")
      case True
      with 1(1) [OF False tok [symmetric] refl tail] have "le_token e \<in> snd ` set (stack_after k d i st) \<or> i + 1 \<le> le_token e" by simp
      with stack_after_indices show ?thesis by fastforce
    qed (use errs 1(3) in \<open>auto split: option.splits\<close>)
  qed (use 1 in \<open>subst (asm) lex_loop.simps, force\<close>)
qed

lemma scan_start_closed: "scan_token u d st cs = (K_TemplateStart, n, p) \<Longrightarrow> p = None"
proof -
  have kw: "keyword_kind t \<noteq> Some K_TemplateStart" for t
    by (auto simp: keyword_kind_def keyword_table_def dest!: map_of_SomeD)
  have op: "match_operator cs \<noteq> Some (K_TemplateStart, m)" for m
    using operator_entry [of cs K_TemplateStart m] by (auto simp: three_chars_def two_chars_def one_char_def)
  assume "scan_token u d st cs = (K_TemplateStart, n, p)"
  then show ?thesis
    by (auto simp: scan_token_def scan_template_chunk_def unless_def Let_def kw op split: if_splits prod.splits option.splits)
qed

lemma loop_agree:
  assumes "lex_loop u cs d st i = (out, errs)" and "\<forall>p \<in> set st. snd p < i"
    and "\<forall>j \<ge> i. j \<in> bad \<longleftrightarrow> j \<in> le_token ` set errs \<and> lt_kind (out ! (j - i)) \<noteq> K_TemplateStart"
  shows "legacy_loop u start cs d (map fst st) = read_tokens start bad i out"
  using assms
proof (induction u cs d st i arbitrary: out errs start rule: lex_loop.induct)
  case (1 u cs d st i)
  show ?case
  proof (cases "cs = []")
    case True
    with 1(2) show ?thesis by (subst (asm) lex_loop.simps, subst legacy_loop.simps) auto
  next
    case False
    then obtain c rest where cs: "cs = c # rest" by (cases cs) auto
    obtain k n p where tok: "scan_token u d st cs = (k, n, p)" by (metis prod_cases3)
    obtain out' errs' where tail: "lex_loop u (drop n cs) (depth_after k d) (stack_after k d i st) (i + 1) = (out', errs')" by fastforce
    with 1(2) False tok have out: "out = \<lparr>lt_kind = k, lt_text = take n cs\<rparr> # out'"
      and errs: "errs = (case p of Some m \<Rightarrow> [\<lparr>le_message = m, le_token = i\<rparr>] | None \<Rightarrow> []) @ errs'"
      by (subst (asm) lex_loop.simps, auto)+
    have n: "n \<le> length cs" by (rule scan_token_le [OF False tok])
    have ih: "legacy_loop u (start + n) (drop n cs) (depth_after k d) (map fst (stack_after k d i st)) = read_tokens (start + n) bad (i + 1) out'"
    proof (rule 1(1) [OF False tok [symmetric] refl tail])
      show "\<forall>p \<in> set (stack_after k d i st). snd p < i + 1" using 1(3) stack_after_indices by fastforce
      show "\<forall>j \<ge> i + 1. (j \<in> bad) = (j \<in> le_token ` set errs' \<and> lt_kind (out' ! (j - (i + 1))) \<noteq> K_TemplateStart)"
      proof (intro allI impI)
        fix j assume j: "i + 1 \<le> j"
        then have "out ! (j - i) = out' ! (j - (i + 1))" by (simp add: out nth_Cons' )
        with j 1(4) errs show "(j \<in> bad) = (j \<in> le_token ` set errs' \<and> lt_kind (out' ! (j - (i + 1))) \<noteq> K_TemplateStart)"
          by (auto split: option.splits)
      qed
    qed
    show ?thesis
    proof (cases "is_whitespace c")
      case True
      then have ws: "k \<in> {K_Newline, K_Whitespace}" "p = None" "n \<le> length (takeWhile is_whitespace cs)"
        using tok run_length_whitespace [of cs] by (auto simp: scan_token_def cs split: if_splits)
      then have "legacy_loop u start cs d (map fst st) = read_tokens (start + n) bad (i + 1) out'"
        using legacy_skip [OF ws(3), of u start d "map fst st"] ih by (auto simp: depth_after_def stack_after_def)
      with ws n show ?thesis by (auto simp: out read_token_def is_trivia_def res_bind_Ok_id)
    next
      case False
      have "k = K_TemplateStart \<Longrightarrow> p = None" using scan_start_closed tok by blast
      moreover have "i \<in> le_token ` set errs' \<Longrightarrow> k = K_TemplateStart"
        using error_indices [OF tail] stack_after_indices 1(3) by fastforce
      ultimately have bad: "(i \<in> bad) = (p \<noteq> None)" using 1(4) errs out by (auto split: option.splits)
      have "step_agrees u start d st i cs (k, n, p)" using step_agree [OF False, of u start d st i rest] tok cs by simp
      then show ?thesis using n ih bad out \<open>cs \<noteq> []\<close>
        by (subst legacy_loop.simps) (auto simp: step_agrees_def min_absorb2 cong: option.case_cong split: result.splits)
    qed
  qed
qed

section \<open>What the lossless lexer promises\<close>

lemma loop_Cons:
  assumes "cs \<noteq> []" and "scan_token u d st cs = (k, n, p)"
  shows "fst (lex_loop u cs d st i) = \<lparr>lt_kind = k, lt_text = take n cs\<rparr>
      # fst (lex_loop u (drop n cs) (depth_after k d) (stack_after k d i st) (i + 1))"
    and "snd (lex_loop u cs d st i) = (case p of Some m \<Rightarrow> [\<lparr>le_message = m, le_token = i\<rparr>] | None \<Rightarrow> [])
      @ snd (lex_loop u (drop n cs) (depth_after k d) (stack_after k d i st) (i + 1))"
  by (subst lex_loop.simps, simp add: assms split: prod.splits)+

lemma loop_induct [case_names nil lexeme]:
  assumes "\<And>u d st i. P u [] d st i"
    and "\<And>u cs d st i k n p. cs \<noteq> [] \<Longrightarrow> scan_token u d st cs = (k, n, p)
      \<Longrightarrow> P u (drop n cs) (depth_after k d) (stack_after k d i st) (i + 1) \<Longrightarrow> P u cs d st i"
  shows "P u cs d st i"
proof (induction u cs d st i rule: lex_loop.induct)
  case (1 u cs d st i)
  obtain k n p where tok: "scan_token u d st cs = (k, n, p)" by (metis prod_cases3)
  show ?case
  proof (cases "cs = []")
    case False
    with assms(2) [OF False tok] 1 [OF False tok [symmetric] refl] show ?thesis by blast
  qed (use assms(1) in simp)
qed

lemma loop_render: "render (fst (lex_loop u cs d st i)) = cs"
  by (induction u cs d st i rule: loop_induct) (simp_all add: lex_loop.simps [of _ "[]"] loop_Cons render_def)

lemma loop_tokens:
  assumes "\<And>cs d st k n p. cs \<noteq> [] \<Longrightarrow> scan_token u d st cs = (k, n, p) \<Longrightarrow> P \<lparr>lt_kind = k, lt_text = take n cs\<rparr>"
  shows "list_all P (fst (lex_loop u cs d st i))"
  using assms by (induction u cs d st i rule: loop_induct) (simp_all add: lex_loop.simps [of _ "[]"] loop_Cons)

lemma find_entry: "find P xs = Some e \<Longrightarrow> e \<in> set xs \<and> P e"
  by (auto simp: find_Some_iff)

lemma find_unique:
  assumes "distinct (map snd xs)" and "(s, k) \<in> set xs"
  shows "find (\<lambda>(_, k'). k' = k) xs = Some (s, k)"
proof (cases "find (\<lambda>(_, k'). k' = k) xs")
  case None
  with assms(2) show ?thesis by (auto simp: find_None_iff)
next
  case (Some e)
  with find_entry [OF Some] assms show ?thesis by (metis (mono_tags, lifting) case_prod_beta distinct_map inj_onD snd_conv)
qed

lemma static_entry: "(s, k) \<in> set (operator_table @ keyword_table) \<Longrightarrow> static_text k = Some s"
proof -
  assume entry: "(s, k) \<in> set (operator_table @ keyword_table)"
  have "distinct (map snd (operator_table @ keyword_table))" by (simp add: operator_table_def keyword_table_def)
  from find_unique [OF this entry] show ?thesis by (simp add: static_text_def)
qed

lemma operator_listed: "set (three_chars @ two_chars @ one_char) \<subseteq> set operator_table"
  by (simp add: three_chars_def two_chars_def one_char_def operator_table_def)

lemma no_static:
  assumes "k \<in> {K_Newline, K_Whitespace, K_LineComment, K_BlockComment, K_Number, K_Ident, K_Str, K_TemplateStr, K_TemplateStart,
    K_TemplateMiddle, K_TemplateEnd, K_Error}"
  shows "static_text k = None"
proof -
  have "list_all (\<lambda>k. k \<notin> set (map snd (operator_table @ keyword_table))) [K_Newline, K_Whitespace, K_LineComment, K_BlockComment,
      K_Number, K_Ident, K_Str, K_TemplateStr, K_TemplateStart, K_TemplateMiddle, K_TemplateEnd, K_Error]"
    by (simp add: operator_table_def keyword_table_def)
  then have "k \<notin> set (map snd (operator_table @ keyword_table))" using assms unfolding list_all_iff by (simp only: list.set) blast
  then show ?thesis by (force simp: static_text_def find_None_iff)
qed

lemma scan_static:
  assumes "scan_token u d st cs = (k, n, p)" and "static_text k = Some s"
  shows "take n cs = s"
proof -
  have op: "match_operator cs = Some (k', m) \<Longrightarrow> static_text k' = Some (take m cs)" for k' m
    using operator_listed operator_entry [of cs k' m] by (intro static_entry) auto
  have kw: "keyword_kind t = Some k' \<Longrightarrow> static_text k' = Some t" for t k'
    by (rule static_entry) (auto simp: keyword_kind_def dest!: map_of_SomeD)
  have chunk: "scan_template_chunk cs b = (k', m, t) \<Longrightarrow> k' \<in> {K_TemplateStr, K_TemplateStart, K_TemplateMiddle, K_TemplateEnd}" for b k' m t
    by (auto simp: scan_template_chunk_def split: prod.splits if_splits)
  show ?thesis using assms
    by (auto simp: scan_token_def Let_def no_static dest!: op kw chunk split: if_splits prod.splits option.splits)
qed

text \<open>
  C11: the lexer of the lossless front end loses nothing: the texts of its tokens, joined, are the source, no
  token is empty, and a token whose kind has a fixed text carries that text.
\<close>

theorem lex_lossless:
  "render (fst (lex_with_errors u src)) = src
    \<and> list_all (\<lambda>t. lt_text t \<noteq> [] \<and> static_text (lt_kind t) \<in> {None, Some (lt_text t)}) (fst (lex_with_errors u src))"
  unfolding lex_with_errors_def
proof (intro conjI loop_tokens)
  fix cs d st k n p
  assume cs: "cs \<noteq> []" and tok: "scan_token u d st cs = (k, n, p)"
  show "lt_text \<lparr>lt_kind = k, lt_text = take n cs\<rparr> \<noteq> []" using scan_token_pos [OF cs tok] cs by simp
  show "static_text (lt_kind \<lparr>lt_kind = k, lt_text = take n cs\<rparr>) \<in> {None, Some (lt_text \<lparr>lt_kind = k, lt_text = take n cs\<rparr>)}"
    using scan_static [OF tok] by (cases "static_text k") auto
qed (fact loop_render)

fun reported :: "lex_message \<Rightarrow> syntax_kind \<Rightarrow> bool" where
  "reported UnterminatedString k \<longleftrightarrow> k = K_Str"
| "reported UnterminatedBlock k \<longleftrightarrow> k = K_BlockComment"
| "reported UnterminatedTemplate k \<longleftrightarrow> k \<in> {K_TemplateStr, K_TemplateStart, K_TemplateEnd}"

lemma scan_problem: "scan_token u d st cs = (k, n, Some m) \<Longrightarrow> reported m k"
  by (auto simp: scan_token_def scan_template_chunk_def unless_def Let_def split: if_splits prod.splits option.splits)

lemma loop_errors:
  "e \<in> set (snd (lex_loop u cs d st i)) \<Longrightarrow> (le_message e = UnterminatedTemplate \<and> le_token e \<in> snd ` set st)
    \<or> (\<exists>j < length (fst (lex_loop u cs d st i)). le_token e = i + j \<and> reported (le_message e) (lt_kind (fst (lex_loop u cs d st i) ! j)))"
proof (induction u cs d st i rule: loop_induct)
  case (nil u d st i)
  then show ?case by (force simp: lex_loop.simps)
next
  case (lexeme u cs d st i k n p)
  note out = loop_Cons [OF lexeme(1,2), of i]
  let ?out = "fst (lex_loop u (drop n cs) (depth_after k d) (stack_after k d i st) (i + 1))"
  from lexeme(4) consider m where "p = Some m" "e = \<lparr>le_message = m, le_token = i\<rparr>"
    | "e \<in> set (snd (lex_loop u (drop n cs) (depth_after k d) (stack_after k d i st) (i + 1)))"
    by (auto simp: out split: option.splits)
  then show ?case
  proof cases
    case 1
    with scan_problem lexeme(2) show ?thesis by (auto simp: out intro!: exI [of _ 0])
  next
    case 2
    from lexeme(3) [OF this] consider (stack) x where "le_message e = UnterminatedTemplate" "x \<in> set (stack_after k d i st)" "snd x = le_token e"
      | (later) j where "j < length ?out" "le_token e = i + 1 + j" "reported (le_message e) (lt_kind (?out ! j))"
      by auto
    then show ?thesis
    proof cases
      case stack
      with stack_after_indices [OF stack(2)] show ?thesis
      proof (elim disjE)
        assume "x \<in> set st"
        with stack(1,3) show ?thesis by (metis image_eqI)
      next
        assume "k = K_TemplateStart \<and> x = (d, i)"
        with stack(3) have "k = K_TemplateStart" "le_token e = i" by auto
        then show ?thesis by (intro disjI2 exI [of _ 0]) (simp add: out stack(1))
      qed
    next
      case later
      then show ?thesis by (intro disjI2 exI [of _ "Suc j"]) (simp add: out)
    qed
  qed
qed

section \<open>The lexers agree\<close>

text \<open>A lexeme that reads: neither an unexpected character nor a number that has no value.\<close>

definition readable :: "lex_token \<Rightarrow> bool" where
  "readable t \<longleftrightarrow> lt_kind t \<noteq> K_Error
     \<and> (lt_kind t = K_Number \<longrightarrow> (case parse_number_text (lt_text t) of Ok _ \<Rightarrow> True | _ \<Rightarrow> False))"

lemma read_token_ok:
  "(\<exists>x. read_token start bad t = Ok x) \<longleftrightarrow> readable t
    \<and> \<not> (bad \<and> lt_kind t \<in> {K_BlockComment, K_Str, K_TemplateStr, K_TemplateEnd, K_TemplateStart})"
  by (auto simp: read_token_def readable_def fail_at_def is_trivia_def Let_def split: if_splits result.splits)

lemma read_tokens_ok:
  "(\<exists>x. read_tokens start bad i ts = Ok x) \<longleftrightarrow> list_all readable ts
    \<and> (\<forall>j < length ts. i + j \<in> bad \<longrightarrow> lt_kind (ts ! j) \<notin> {K_BlockComment, K_Str, K_TemplateStr, K_TemplateEnd, K_TemplateStart})"
proof (induction ts arbitrary: start i)
  case (Cons t ts)
  have "(\<exists>x. read_tokens start bad i (t # ts) = Ok x) \<longleftrightarrow> (\<exists>x. read_token start (i \<in> bad) t = Ok x)
      \<and> (\<exists>x. read_tokens (start + length (lt_text t)) bad (i + 1) ts = Ok x)"
    by (cases "read_token start (i \<in> bad) t"; cases "read_tokens (start + length (lt_text t)) bad (i + 1) ts") simp_all
  then show ?case unfolding read_token_ok Cons.IH by (auto simp: All_less_Suc2)
qed simp

lemma reported_kinds: "reported m k \<Longrightarrow> k \<in> {K_BlockComment, K_Str, K_TemplateStr, K_TemplateEnd, K_TemplateStart}"
  by (cases m) auto

lemma problem_token:
  "e \<in> set (snd (lex_with_errors u src)) \<Longrightarrow> le_token e < length (fst (lex_with_errors u src))
    \<and> reported (le_message e) (lt_kind (fst (lex_with_errors u src) ! le_token e))"
  unfolding lex_with_errors_def using loop_errors [of e u src 0 "[]" 0] by auto

text \<open>
  C5: the two lexers read the same program.  On every source the lexer of the tree-walking front end returns the
  tokens of the lossless lexer, without the trivia, with their texts decoded as the compiler decodes them and their
  positions, or fails with the first problem, at its position.  The problems that count are those the lossless lexer
  reports against a string, a block comment or a chunk of a template; the one it reports against the opening of
  a template whose interpolation is never closed does not, so that on such a source the lexer of the tree-walking front
  end goes on.  It returns tokens exactly when there is no problem that counts, no unexpected character and no number
  that does not read.
\<close>

theorem lexers_agree:
  "case lex_with_errors u src of (tokens, errors) \<Rightarrow>
     let counted = filter (\<lambda>e. lt_kind (tokens ! le_token e) \<noteq> K_TemplateStart) errors in
     lex u src = read_tokens 0 (le_token ` set counted) 0 tokens
     \<and> ((\<exists>ts. lex u src = Ok ts) \<longleftrightarrow> counted = [] \<and> list_all readable tokens)"
proof -
  obtain tokens errors where out: "lex_with_errors u src = (tokens, errors)" by fastforce
  let ?counted = "filter (\<lambda>e. lt_kind (tokens ! le_token e) \<noteq> K_TemplateStart) errors"
  have loop: "lex_loop u src 0 [] 0 = (tokens, errors)" using out by (simp add: lex_with_errors_def)
  have "legacy_loop u 0 src 0 (map fst ([] :: (nat \<times> nat) list)) = read_tokens 0 (le_token ` set ?counted) 0 tokens"
    by (rule loop_agree [OF loop]) auto
  then have lex: "lex u src = read_tokens 0 (le_token ` set ?counted) 0 tokens" by (simp add: lex_def)
  have "e \<in> set errors \<Longrightarrow> le_token e < length tokens
      \<and> lt_kind (tokens ! le_token e) \<in> {K_BlockComment, K_Str, K_TemplateStr, K_TemplateEnd, K_TemplateStart}" for e
    using problem_token [of e u src] reported_kinds out by fastforce
  then have "(\<exists>ts. lex u src = Ok ts) \<longleftrightarrow> ?counted = [] \<and> list_all readable tokens"
    unfolding lex read_tokens_ok by (auto simp: filter_empty_conv)
  with lex out show ?thesis by (simp add: Let_def)
qed

text \<open>
  C29: every problem the lexer reports is located: its index is that of a token, and the token is one the message
  is about (a string, a block comment, a template chunk or the opening of a template that is never closed).
\<close>

theorem lex_errors_located:
  "list_all (\<lambda>e. le_token e < length (fst (lex_with_errors u src))
      \<and> reported (le_message e) (lt_kind (fst (lex_with_errors u src) ! le_token e))) (snd (lex_with_errors u src))"
  unfolding list_all_iff using problem_token by blast


end
