(* ===== verification/Spec2Isabelle.thy ===== *)
theory Spec2Isabelle
  imports VerifyGaps AsoProps ObjectVm EngineGaps RecordFlow LexerAgreement
begin

text \<open>
  Verification of the execution core of ascript (\<open>src/src\<close>): a scripting language whose compiler emits
  bytecode chunks, which are written to and read from \<open>.aso\<close> files, checked by a verifier and run by a
  virtual machine with inline caches; a tree-walking interpreter shares its operators with the machine.

  \<^bold>\<open>Parts and theories.\<close>

  \<^item> \<open>Prelude\<close>: results with panics, vectors, little-endian words, searching.  \<open>IndexMap\<close>: the
    insertion-ordered maps of the \<open>indexmap\<close> crate.
  \<^item> \<open>Opcode\<close> (\<open>vm/opcode.rs\<close>), \<open>Ast\<close> (\<open>ast.rs\<close>, the literal part of \<open>value.rs\<close>, \<open>span.rs\<close>) and
    \<open>Chunk\<close> (\<open>vm/chunk.rs\<close>): the bytecode, what a chunk carries, emission, jump patching, constant
    interning, span and line tables.
  \<^item> \<open>Worklist\<close>, \<open>Verify\<close>, \<open>VerifyProps\<close> (\<open>vm/verify.rs\<close>): the three passes of the verifier.  The
    depth pass is a work list; it is shown to decide the existence of a consistent assignment of stack
    depths, with the locale \<open>depth_analysis\<close> as the interface between the loop and the instruction set.
  \<^item> \<open>RunLoop\<close>, \<open>VerifyGaps\<close> (\<open>vm/run.rs\<close>, \<open>vm/fiber.rs\<close>, \<open>coro.rs\<close>): the operand-stack traffic of
    every arm of the dispatch loop, frames and calls.  Verified code that is linked, declares no static
    methods and does not yield never underflows its stack or leaves a table; chunks that the verifier
    accepts although they fault show that each of these conditions is needed.
  \<^item> \<open>AsoCodec\<close>, \<open>AsoType\<close>, \<open>AsoExpr\<close>, \<open>AsoValue\<close>, \<open>AsoClass\<close>, \<open>AsoChunk\<close>, \<open>AsoProps\<close> (\<open>vm/aso.rs\<close>): every
    encoder and decoder of the file format.  Round trip, re-serialization, loading without panics given
    the stack for it, agreement of the verifying loader with the verifier.
  \<^item> \<open>Shape\<close> (\<open>vm/shape.rs\<close>), \<open>ObjectStore\<close> (\<open>ObjectStorage\<close>, \<open>ObjectCell\<close>, \<open>Instance\<close> of \<open>value.rs\<close>),
    \<open>InlineCache\<close> (\<open>vm/ic.rs\<close>), \<open>PropAccess\<close> and \<open>ObjectLiteral\<close> (property access and literals of
    \<open>vm/run.rs\<close>), \<open>ObjectVm\<close>: the object model.  The locale \<open>shaped\<close> is the contract that object cells
    and instances share.  \<open>ObjectVm\<close> runs sequences of object operations and refines them to plain
    ordered maps, so that shapes, slabs and caches are invisible.
  \<^item> \<open>Environment\<close> (\<open>env.rs\<close>) and \<open>Globals\<close> (\<open>GlobalCache\<close> of \<open>vm/adapt.rs\<close>, the global opcodes and the
    class environment of \<open>vm/run.rs\<close>): scopes as indices into a store; sequences of global operations
    refine a machine with the table alone.
  \<^item> \<open>F64\<close>, \<open>Values\<close>, \<open>Ranges\<close>, \<open>Arith\<close> (\<open>value.rs\<close>, \<open>interp.rs\<close>, \<open>stdlib/decimal.rs\<close>, \<open>ArithCache\<close> of
    \<open>vm/adapt.rs\<close>, the arithmetic and range arms of \<open>vm/run.rs\<close>, the range loop of \<open>compile/mod.rs\<close>):
    binary64 arithmetic by exact rationals and rounding, equality and map keys, ranges, every operator
    and the adaptive dispatch in front of them.
  \<^item> \<open>Literals\<close> (\<open>lex_literals.rs\<close>), \<open>CstLexer\<close> (\<open>syntax/lexer.rs\<close>), \<open>Lexer\<close> (\<open>lexer.rs\<close>): characters, the text of
    literals, and the lexers of the two front ends.  \<open>LexerAgreement\<close>: the lossless lexer loses nothing and
    locates its problems, and both lexers give the same tokens or the same first error on every source, but
    for the template whose interpolation is never closed, which only the lossless one reports.
  \<^item> \<open>Resolver\<close> (\<open>syntax/resolve\<close>), \<open>Compiler\<close> (\<open>compile/mod.rs\<close>), \<open>ValueVm\<close> (the arms of \<open>run_loop\<close> on
    values) and \<open>TreeWalk\<close> (\<open>eval_expr\<close>, \<open>exec_stmt\<close> of \<open>interp.rs\<close>, the trees of \<open>parser.rs\<close>): the two
    engines and the front end of one, on programs without functions, classes and patterns.
  \<^item> \<open>ResolverProps\<close>, \<open>CompilerProps\<close>, \<open>EngineState\<close>, \<open>Simulation\<close>, \<open>StmtSimulation\<close>, \<open>EngineAgreement\<close>:
    the resolver gives every name the slot of its declaration; the compiler appends code and closes every
    jump it opens; the states of the engines correspond (\<open>rel\<close>: scopes against slots and globals); every
    compiled expression and statement does in the VM what the tree-walker does; so both engines end alike
    on a program or both run forever.  \<open>EngineGaps\<close> has programs outside the conditions of \<open>plain\<close> on
    which they differ.

  \<^item> \<open>Decode\<close> (\<open>vm/decode.rs\<close>) and \<open>Lane\<close> (\<open>InstrSource\<close>, \<open>sync_burst\<close>, \<open>select_record_source\<close>, \<open>run_loop_sync\<close> of
    \<open>vm/run.rs\<close>): decoded streams, the peephole, and the fast lanes in front of the dispatch loop.
    \<open>DecodeProps\<close>: the records say what the bytes say.  \<open>LaneProps\<close>: the locale \<open>instr_source\<close> is the contract
    of the trait, both sources meet it, so the lanes give the results of the plain loop; a stream that is run
    is that of the current bytes.  \<open>RecordFlow\<close>: the pointer stays on records.

  \<^bold>\<open>State and operations.\<close>  A struct is a record or a one-constructor datatype, an enum a datatype with
  the source's cases; an operation on \<open>&mut self\<close> returns the new state.  An \<open>i64\<close> is a 64-bit word read
  as signed; an \<open>f64\<close> constant in a chunk is its bit pattern, an \<open>f64\<close> that is computed with is its sign
  and rational value.  \<open>Err\<close> is an error value the code returns, \<open>Panic\<close> a Rust panic or an arm marked
  unreachable, and the theorems say where \<open>Panic\<close> cannot happen.  Error messages are constructors with
  the data the message shows.

  \<^bold>\<open>Loops and fuel.\<close>  The decoders of nested types, expressions, values and prototypes take fuel and are
  started with the number of remaining bytes plus one; each nesting level consumes a byte, so the fuel
  is never exhausted (\<open>AsoProps\<close>).  The fuel stands for the frames of the native stack, which the code does
  not bound: as many nested tags as there are frames exhaust it.  The verifier's work list has a measure.
  The range loops are partial functions, since beyond \<open>2 ^ 53\<close> they need not end; inside that range their
  termination is proved, and from \<open>2 ^ 54\<close> on the float loops are shown not to end.  The tree-walker takes a bound on the
  iterations of each loop and the VM a number of steps; the agreement theorem quantifies over both, and
  exceeding every bound is equivalent on the two sides.

  \<^bold>\<open>Parameters.\<close>  The Unicode tables of alphabetic and numeric characters, \<open>rust_decimal\<close> and \<open>powf\<close> (a
  record of operations), re-parsing of default expressions when a class is loaded (it returns an expression or an
  error; the parser behind it is not modelled), member reads and writes, index assignment and freezing of
  receivers that are neither objects nor instances, and the evaluation of \<open>instanceof\<close>.

  \<^bold>\<open>Bounds.\<close>  The object runs stay below \<open>2 ^ 32\<close> shapes, which are \<open>u32\<close> ids; the global runs below the
  range of the \<open>u64\<close> version counter.  Vector lengths are below \<open>2 ^ 63\<close>.  The lanes are
  shown on code below \<open>2 ^ 31\<close> bytes, since a record holds its offset in 32 bits, and a chunk is patched less
  than \<open>2 ^ 64 - 1\<close> times.

  \<^bold>\<open>Conditions of the agreement.\<close>  \<open>plain\<close>: the nodes of the tree have distinct text ranges, expressions
  nest below the limit of both engines, no block declares a name twice and no builtin is assigned.  The
  first two hold of parsed sources of moderate size; the other two are where the engines differ.

  \<^bold>\<open>Not modelled.\<close>  The parsers; type annotations of declarations, tree-shaking and elision in the compiler;
  the fused property reads of the lanes (they leave the modelled arms); functions, classes, patterns, calls and modules in the
  resolver, the compiler and the two engines; contracts and interfaces; garbage collection; the method
  caches; arrays, maps and sets as containers; workers, futures and generators beyond the resumption of a
  fiber; the standard library, which binds host services; the checker, formatter, language server and
  debugger.
\<close>

end
